(* ===== verification/Go_Prelude.thy ===== *)
theory Go_Prelude
  imports Main "HOL-Library.Finite_Map" "HOL-Library.Multiset" "HOL-Library.Log_Nat"
    "HOL-Library.Signed_Division" "HOL-Library.Sublist"
begin

text \<open>
  The part of the Go language and of its standard library that the modelled packages use, and
  the lemmas all components share.

  \<^item> A Go \<open>int\<close> or \<open>int64\<close> is an \<open>int\<close>; where the code increments or multiplies one the
    wrap-around is written out with \<open>wrap64\<close>.
  \<^item> \<open>time.Time\<close> is an \<open>int\<close> (nanoseconds), \<open>time.Duration\<close> an \<open>int\<close> in the same unit. The code
    reads the clock with \<open>time.Now()\<close>; every reading is an argument of the model.
  \<^item> A Go map is a finite map \<open>('k, 'v) fmap\<close>. A \<open>range\<close> loop over a map visits the keys in an
    order the language leaves open: the order is an argument of the model, and
    \<open>ranges_over\<close> says that it lists each key once.
  \<^item> A run-time panic is a value of the type \<open>outcome\<close>.
  \<^item> A string is a list of bytes (\<open>char\<close>); \<open>strings.ToLower\<close> is modelled on ASCII letters.
  \<^item> \<open>float64\<close> quotients are rational numbers rounded to a 53-bit significand, ties to even.
\<close>

named_theorems go_simps \<open>unfolding rules of the Go run-time model\<close>
named_theorems inv_intros \<open>preservation lemmas of the components' invariants\<close>

section \<open>Definitions\<close>

subsection \<open>Machine integers, time and panics\<close>

type_synonym time = int
type_synonym duration = int
type_synonym addr = nat

definition wrap64 :: "int \<Rightarrow> int" where
  "wrap64 x = (x + 2 ^ 63) mod 2 ^ 64 - 2 ^ 63"

definition int64_range :: "int \<Rightarrow> bool" where
  "int64_range x \<longleftrightarrow> - (2 ^ 63) \<le> x \<and> x < 2 ^ 63"

text \<open>\<open>x++\<close> on an \<open>int64\<close>.\<close>

definition inc64 :: "int \<Rightarrow> int" where
  "inc64 x = wrap64 (x + 1)"

text \<open>\<open>t.Sub(u)\<close> and \<open>time.Since(u)\<close>: the difference saturates at the ends of the range.\<close>

definition time_Sub :: "time \<Rightarrow> time \<Rightarrow> duration" where
  "time_Sub t u = max (- (2 ^ 63)) (min (2 ^ 63 - 1) (t - u))"

definition Second :: duration where "Second = 1000000000"
definition Minute :: duration where "Minute = 60 * Second"

text \<open>The zero value of \<open>time.Time\<close>, the first of January of year 1.\<close>

definition zero_time :: time where "zero_time = - 62135596800 * Second"

datatype 'a outcome = Ret 'a | Panic string

subsection \<open>Maps\<close>

definition map_len :: "('k, 'v) fmap \<Rightarrow> int" where
  "map_len m = int (fcard (fmdom m))"

definition ranges_over :: "('k, 'v) fmap \<Rightarrow> 'k list \<Rightarrow> bool" where
  "ranges_over m ks \<longleftrightarrow> distinct ks \<and> fset_of_list ks = fmdom m"

subsection \<open>Strings\<close>

definition strings_HasPrefix :: "string \<Rightarrow> string \<Rightarrow> bool" where
  "strings_HasPrefix s p \<longleftrightarrow> take (length p) s = p"

definition strings_HasSuffix :: "string \<Rightarrow> string \<Rightarrow> bool" where
  "strings_HasSuffix s p \<longleftrightarrow> length p \<le> length s \<and> drop (length s - length p) s = p"

definition strings_TrimSuffix :: "string \<Rightarrow> string \<Rightarrow> string" where
  "strings_TrimSuffix s p = (if strings_HasSuffix s p then take (length s - length p) s else s)"

fun strings_Contains :: "string \<Rightarrow> string \<Rightarrow> bool" where
  "strings_Contains [] p \<longleftrightarrow> p = []"
| "strings_Contains (c # s) p \<longleftrightarrow> strings_HasPrefix (c # s) p \<or> strings_Contains s p"

text \<open>\<open>strings.SplitN(s, sep, 2)\<close> for a one-byte separator: the text before the first separator
  and the text after it, or the whole string when there is none.\<close>

definition strings_SplitN2 :: "string \<Rightarrow> char \<Rightarrow> string list" where
  "strings_SplitN2 s c =
     (case dropWhile (\<lambda>x. x \<noteq> c) s of
        [] \<Rightarrow> [s]
      | _ # rest \<Rightarrow> [takeWhile (\<lambda>x. x \<noteq> c) s, rest])"

text \<open>\<open>strings.Split(s, sep)\<close> for a one-byte separator.\<close>

fun strings_Split :: "string \<Rightarrow> char \<Rightarrow> string list" where
  "strings_Split [] c = [[]]"
| "strings_Split (x # xs) c =
     (if x = c then [] # strings_Split xs c
      else case strings_Split xs c of [] \<Rightarrow> [[x]] | p # ps \<Rightarrow> (x # p) # ps)"

definition char_ToLower :: "char \<Rightarrow> char" where
  "char_ToLower c =
     (let n = of_char c :: nat in if 65 \<le> n \<and> n \<le> 90 then char_of (n + 32) else c)"

definition strings_ToLower :: "string \<Rightarrow> string" where
  "strings_ToLower s = map char_ToLower s"

subsection \<open>Floating point\<close>

text \<open>Rounding to the nearest integer, ties to even.\<close>

definition round_even :: "rat \<Rightarrow> int" where
  "round_even x =
     (let f = \<lfloor>x\<rfloor>; r = x - of_int f
      in if r < 1 / 2 then f else if r > 1 / 2 then f + 1 else if even f then f else f + 1)"

definition pow2 :: "int \<Rightarrow> rat" where
  "pow2 k = (if 0 \<le> k then 2 ^ nat k else 1 / 2 ^ nat (- k))"

text \<open>A positive rational rounded to a 53-bit significand (the normal range of \<open>float64\<close>, which
  holds every quotient of two \<open>int64\<close> values).\<close>

definition f64_round_pos :: "rat \<Rightarrow> rat" where
  "f64_round_pos x =
     (let (n, d) = quotient_of x;
          s0 = 53 - (bitlen n - bitlen d);
          s = (if x * pow2 s0 \<ge> pow2 53 then s0 - 1 else s0)
      in of_int (round_even (x * pow2 s)) / pow2 s)"

definition f64_round :: "rat \<Rightarrow> rat" where
  "f64_round x = (if x = 0 then 0 else if x < 0 then - f64_round_pos (- x) else f64_round_pos x)"

text \<open>\<open>float64(a) / float64(b)\<close> for \<open>b\<close> other than zero.\<close>

definition f64_div_ints :: "int \<Rightarrow> int \<Rightarrow> rat" where
  "f64_div_ints a b = f64_round (f64_round (of_int a) / f64_round (of_int b))"

section \<open>Lemmas\<close>

subsection \<open>Integers and time\<close>

lemma wrap64_id [simp]: "int64_range x \<Longrightarrow> wrap64 x = x"
  by (simp add: wrap64_def int64_range_def)

lemma wrap64_range [simp]: "int64_range (wrap64 x)"
proof -
  have "0 \<le> (x + 2 ^ 63) mod 2 ^ 64" "(x + 2 ^ 63) mod 2 ^ 64 < (2 ^ 64 :: int)"
    by simp_all
  then show ?thesis by (simp add: wrap64_def int64_range_def)
qed

lemma wrap64_add [simp]: "wrap64 (wrap64 x + y) = wrap64 (x + y)"
proof -
  have "(wrap64 x + y + 2 ^ 63) mod 2 ^ 64 = ((x + 2 ^ 63) mod 2 ^ 64 + y) mod (2 ^ 64 :: int)"
    by (simp add: wrap64_def)
  also have "\<dots> = (x + 2 ^ 63 + y) mod 2 ^ 64"
    by (rule mod_add_left_eq)
  finally show ?thesis by (simp add: wrap64_def algebra_simps)
qed

lemma wrap64_diff [simp]: "wrap64 (wrap64 x - y) = wrap64 (x - y)"
  using wrap64_add [of x "- y"] by simp

lemma inc64_range [simp]: "int64_range (inc64 x)"
  by (simp add: inc64_def)

lemma inc64_small [simp]: "- (2 ^ 63) \<le> x \<Longrightarrow> x < 2 ^ 63 - 1 \<Longrightarrow> inc64 x = x + 1"
  by (simp add: inc64_def int64_range_def)

lemma inc64_overflow: "inc64 (2 ^ 63 - 1) = - (2 ^ 63)"
  by (simp add: inc64_def wrap64_def)

lemma time_Sub_ge: "d \<le> t - u \<Longrightarrow> d < 2 ^ 63 \<Longrightarrow> d \<le> time_Sub t u"
  by (simp add: time_Sub_def)

lemma time_Sub_less: "t - u < d \<Longrightarrow> - (2 ^ 63) < d \<Longrightarrow> time_Sub t u < d"
  by (simp add: time_Sub_def)

subsection \<open>Maps\<close>

lemma map_len_empty [simp]: "map_len fmempty = 0"
  by (simp add: map_len_def)

lemma map_len_nonneg [simp]: "0 \<le> map_len m"
  by (simp add: map_len_def)

lemma map_len_update [simp]:
  "map_len (fmupd k v m) = (if k |\<in>| fmdom m then map_len m else map_len m + 1)"
  by (simp add: map_len_def fcard_finsert_if)

lemma map_len_delete [simp]:
  "map_len (fmdrop k m) = (if k |\<in>| fmdom m then map_len m - 1 else map_len m)"
proof (cases "k |\<in>| fmdom m")
  case True
  then have "fmdom m \<noteq> {||}" by auto
  then have "fcard (fmdom m) > 0" by (metis fcard_0_eq gr0I)
  then have "int (fcard (fmdom m) - 1) = int (fcard (fmdom m)) - 1" by linarith
  with True show ?thesis
    by (simp add: map_len_def fcard_fminus_fsingleton_if)
next
  case False
  then show ?thesis by (simp add: map_len_def fcard_fminus_fsingleton_if)
qed

lemma fmdom_empty_iff: "fmdom m = {||} \<longleftrightarrow> m = fmempty"
  by (metis fmdom_empty fmrestrict_fset_dom fmrestrict_fset_null)

lemma map_len_zero [simp]: "map_len m = 0 \<longleftrightarrow> m = fmempty"
  by (simp add: map_len_def fmdom_empty_iff)

lemma fmlookup_Some_dom: "fmlookup m k = Some v \<Longrightarrow> k |\<in>| fmdom m"
  by (rule fmdomI)

lemma ranges_overD:
  assumes "ranges_over m ks"
  shows "distinct ks" and "k \<in> set ks \<longleftrightarrow> k |\<in>| fmdom m"
  using assms by (auto simp: ranges_over_def simp flip: fset_of_list_elem)

lemma ranges_over_exists: "\<exists>ks. ranges_over m ks"
proof -
  obtain ks where "distinct ks" and "set ks = fset (fmdom m)"
    using finite_distinct_list [of "fset (fmdom m)"] by auto
  then have "fset_of_list ks = fmdom m"
    by (metis fset_inject fset_of_list.rep_eq)
  with \<open>distinct ks\<close> show ?thesis by (auto simp: ranges_over_def)
qed

lemma ranges_over_length: "ranges_over m ks \<Longrightarrow> map_len m = int (length ks)"
  by (auto simp: ranges_over_def map_len_def fcard.rep_eq fset_of_list.rep_eq distinct_card
      dest: sym)

subsection \<open>Strings\<close>

lemma HasPrefix_iff: "strings_HasPrefix s p \<longleftrightarrow> prefix p s"
  by (metis append_take_drop_id prefixI prefixE append_eq_conv_conj strings_HasPrefix_def)

lemma HasSuffix_iff: "strings_HasSuffix s p \<longleftrightarrow> suffix p s"
proof
  assume "strings_HasSuffix s p"
  then show "suffix p s" by (metis strings_HasSuffix_def suffix_drop)
next
  assume "suffix p s"
  then obtain t where "s = t @ p" by (auto simp: suffix_def)
  then show "strings_HasSuffix s p" by (simp add: strings_HasSuffix_def)
qed

lemma TrimSuffix_append [simp]: "strings_TrimSuffix (s @ p) p = s"
  by (simp add: strings_TrimSuffix_def strings_HasSuffix_def)

lemma Contains_iff: "strings_Contains s p \<longleftrightarrow> sublist p s"
  by (induction s p rule: strings_Contains.induct) (auto simp: HasPrefix_iff sublist_Cons_right)

lemma SplitN2_colon: "c \<notin> set a \<Longrightarrow> strings_SplitN2 (a @ c # b) c = [a, b]"
proof -
  assume "c \<notin> set a"
  then have "\<And>x. x \<in> set a \<Longrightarrow> x \<noteq> c" by auto
  then show ?thesis
    by (simp add: strings_SplitN2_def dropWhile_append2 takeWhile_append2)
qed

lemma SplitN2_none: "c \<notin> set s \<Longrightarrow> strings_SplitN2 s c = [s]"
proof -
  assume "c \<notin> set s"
  then have none: "dropWhile (\<lambda>x. x \<noteq> c) s = []" by (auto simp: dropWhile_eq_Nil_conv)
  show ?thesis unfolding strings_SplitN2_def none by simp
qed

lemma SplitN2_two:
  assumes "strings_SplitN2 s c = [a, b]"
  shows "s = a @ c # b \<and> c \<notin> set a"
proof (cases "c \<in> set s")
  case True
  then obtain a' b' where "s = a' @ c # b'" and "c \<notin> set a'"
    by (meson split_list_first)
  with assms show ?thesis by (simp add: SplitN2_colon)
next
  case False
  with assms show ?thesis by (simp add: SplitN2_none)
qed

lemma Split_length: "length (strings_Split s c) = Suc (count_list s c)"
  by (induction s) (auto split: list.splits)

lemma Split_one: "c \<notin> set a \<Longrightarrow> strings_Split a c = [a]"
  by (induction a) auto

lemma Split_append: "c \<notin> set a \<Longrightarrow> strings_Split (a @ c # b) c = a # strings_Split b c"
  by (induction a) auto

lemma first_separator: "a @ c # b = a' @ c # b' \<Longrightarrow> c \<notin> set a \<Longrightarrow> c \<notin> set a' \<Longrightarrow> a = a' \<and> b = b'"
  by (auto simp: append_eq_append_conv2 Cons_eq_append_conv append_eq_Cons_conv)

subsection \<open>Floating point\<close>

lemma f64_round_zero [simp]: "f64_round 0 = 0"
  by (simp add: f64_round_def)

lemma f64_div_zero [simp]: "f64_div_ints 0 b = 0"
  by (simp add: f64_div_ints_def)

end
