(* ===== verification/Generics_Result.thy ===== *)
theory Generics_Result
  imports Go_Prelude
begin

text \<open>
  \<open>pkg/generics/result.go\<close>: the \<open>Result[T, E]\<close> and \<open>Option[T]\<close> structs, their combinators and the
  batch operations over slices of results.

  The structs keep a value, an error and a flag. \<open>Ok\<close> leaves the error field, \<open>Err\<close> and \<open>None\<close> the
  value field at the zero value of its type; the zero values are the arguments \<open>zt\<close>, \<open>ze\<close>,
  \<open>zu\<close> and \<open>zf\<close> of the constructors (\<open>T\<close>, \<open>E\<close>, \<open>U\<close>, \<open>F\<close> are type parameters of the Go code). The fields
  are not exported, so every value a client can hold satisfies \<open>wf_Result\<close> or \<open>wf_Option\<close>: the
  invariant that the lemmas below show each operation keeps.
\<close>

section \<open>Definitions\<close>

subsection \<open>Result\<close>

record ('t, 'e) Result =
  res_value :: 't
  res_err :: 'e
  res_ok :: bool

definition Result_Ok :: "'e \<Rightarrow> 't \<Rightarrow> ('t, 'e) Result" where
  "Result_Ok ze v = \<lparr>res_value = v, res_err = ze, res_ok = True\<rparr>"

definition Result_Err :: "'t \<Rightarrow> 'e \<Rightarrow> ('t, 'e) Result" where
  "Result_Err zt e = \<lparr>res_value = zt, res_err = e, res_ok = False\<rparr>"

definition Result_IsOk :: "('t, 'e) Result \<Rightarrow> bool" where
  "Result_IsOk r = res_ok r"

definition Result_IsErr :: "('t, 'e) Result \<Rightarrow> bool" where
  "Result_IsErr r = (\<not> res_ok r)"

definition Result_Unwrap :: "('t, 'e) Result \<Rightarrow> 't \<times> 'e \<times> bool" where
  "Result_Unwrap r = (res_value r, res_err r, res_ok r)"

definition Result_Value :: "('t, 'e) Result \<Rightarrow> 't outcome" where
  "Result_Value r =
     (if \<not> res_ok r then Panic ''called Value() on error Result'' else Ret (res_value r))"

definition Result_Error :: "('t, 'e) Result \<Rightarrow> 'e outcome" where
  "Result_Error r =
     (if res_ok r then Panic ''called Error() on successful Result'' else Ret (res_err r))"

definition Result_ValueOr :: "('t, 'e) Result \<Rightarrow> 't \<Rightarrow> 't" where
  "Result_ValueOr r d = (if res_ok r then res_value r else d)"

definition MapResult :: "'u \<Rightarrow> 'e \<Rightarrow> ('t, 'e) Result \<Rightarrow> ('t \<Rightarrow> 'u) \<Rightarrow> ('u, 'e) Result" where
  "MapResult zu ze r fn =
     (if \<not> res_ok r then Result_Err zu (res_err r) else Result_Ok ze (fn (res_value r)))"

definition MapErr :: "'t \<Rightarrow> 'f \<Rightarrow> ('t, 'e) Result \<Rightarrow> ('e \<Rightarrow> 'f) \<Rightarrow> ('t, 'f) Result" where
  "MapErr zt zf r fn =
     (if res_ok r then Result_Ok zf (res_value r) else Result_Err zt (fn (res_err r)))"

definition FlatMap :: "'u \<Rightarrow> ('t, 'e) Result \<Rightarrow> ('t \<Rightarrow> ('u, 'e) Result) \<Rightarrow> ('u, 'e) Result" where
  "FlatMap zu r fn = (if \<not> res_ok r then Result_Err zu (res_err r) else fn (res_value r))"

definition Filter_Result :: "'t \<Rightarrow> ('t, 'e) Result \<Rightarrow> ('t \<Rightarrow> bool) \<Rightarrow> 'e \<Rightarrow> ('t, 'e) Result" where
  "Filter_Result zt r pred errorOnFalse =
     (if \<not> res_ok r then r
      else if \<not> pred (res_value r) then Result_Err zt errorOnFalse
      else r)"

subsection \<open>Option\<close>

record 't Option =
  opt_value :: 't
  opt_some :: bool

definition Option_Some :: "'t \<Rightarrow> 't Option" where
  "Option_Some v = \<lparr>opt_value = v, opt_some = True\<rparr>"

definition Option_None :: "'t \<Rightarrow> 't Option" where
  "Option_None zt = \<lparr>opt_value = zt, opt_some = False\<rparr>"

definition Option_IsSome :: "'t Option \<Rightarrow> bool" where
  "Option_IsSome opt = opt_some opt"

definition Option_IsNone :: "'t Option \<Rightarrow> bool" where
  "Option_IsNone opt = (\<not> opt_some opt)"

definition Option_Unwrap :: "'t Option \<Rightarrow> 't \<times> bool" where
  "Option_Unwrap opt = (opt_value opt, opt_some opt)"

definition Option_Value :: "'t Option \<Rightarrow> 't outcome" where
  "Option_Value opt =
     (if \<not> opt_some opt then Panic ''called Value() on None Option'' else Ret (opt_value opt))"

definition Option_ValueOr :: "'t Option \<Rightarrow> 't \<Rightarrow> 't" where
  "Option_ValueOr opt d = (if opt_some opt then opt_value opt else d)"

definition MapOption :: "'u \<Rightarrow> 't Option \<Rightarrow> ('t \<Rightarrow> 'u) \<Rightarrow> 'u Option" where
  "MapOption zu opt fn =
     (if \<not> opt_some opt then Option_None zu else Option_Some (fn (opt_value opt)))"

definition FlatMapOption :: "'u \<Rightarrow> 't Option \<Rightarrow> ('t \<Rightarrow> 'u Option) \<Rightarrow> 'u Option" where
  "FlatMapOption zu opt fn = (if \<not> opt_some opt then Option_None zu else fn (opt_value opt))"

definition FilterOption :: "'t \<Rightarrow> 't Option \<Rightarrow> ('t \<Rightarrow> bool) \<Rightarrow> 't Option" where
  "FilterOption zt opt pred =
     (if \<not> opt_some opt \<or> \<not> pred (opt_value opt) then Option_None zt else opt)"

definition Option_ToResult :: "'t \<Rightarrow> 'e \<Rightarrow> 't Option \<Rightarrow> 'e \<Rightarrow> ('t, 'e) Result" where
  "Option_ToResult zt ze opt e =
     (if opt_some opt then Result_Ok ze (opt_value opt) else Result_Err zt e)"

definition FromResult :: "'t \<Rightarrow> ('t, 'e) Result \<Rightarrow> 't Option" where
  "FromResult zt r = (if res_ok r then Option_Some (res_value r) else Option_None zt)"

subsection \<open>Chain\<close>

record ('t, 'e) Chain =
  chain_result :: "('t, 'e) Result"

definition NewChain :: "('t, 'e) Result \<Rightarrow> ('t, 'e) Chain" where
  "NewChain r = \<lparr>chain_result = r\<rparr>"

definition Chain_Map :: "'t \<Rightarrow> 'e \<Rightarrow> ('t, 'e) Chain \<Rightarrow> ('t \<Rightarrow> 't) \<Rightarrow> ('t, 'e) Chain" where
  "Chain_Map zt ze c fn = c\<lparr>chain_result := MapResult zt ze (chain_result c) fn\<rparr>"

definition Chain_FlatMap ::
    "'t \<Rightarrow> ('t, 'e) Chain \<Rightarrow> ('t \<Rightarrow> ('t, 'e) Result) \<Rightarrow> ('t, 'e) Chain" where
  "Chain_FlatMap zt c fn = c\<lparr>chain_result := FlatMap zt (chain_result c) fn\<rparr>"

definition Chain_Filter :: "'t \<Rightarrow> ('t, 'e) Chain \<Rightarrow> ('t \<Rightarrow> bool) \<Rightarrow> 'e \<Rightarrow> ('t, 'e) Chain" where
  "Chain_Filter zt c pred e = c\<lparr>chain_result := Filter_Result zt (chain_result c) pred e\<rparr>"

definition Chain_Result :: "('t, 'e) Chain \<Rightarrow> ('t, 'e) Result" where
  "Chain_Result c = chain_result c"

subsection \<open>Recovery and batches\<close>

text \<open>The function argument of \<open>Recovery\<close> either returns or panics; the deferred closure turns the
  recovered value into an error.\<close>

definition Recovery :: "'t \<Rightarrow> 'e \<Rightarrow> 't outcome \<Rightarrow> (string \<Rightarrow> 'e) \<Rightarrow> ('t, 'e) Result" where
  "Recovery zt ze run recoverFn =
     (case run of Ret v \<Rightarrow> Result_Ok ze v | Panic m \<Rightarrow> Result_Err zt (recoverFn m))"

definition Try :: "'t \<Rightarrow> string option \<Rightarrow> 't outcome \<Rightarrow> ('t, string option) Result" where
  "Try zt ze run = Recovery zt ze run (\<lambda>r. Some (''panic recovered: '' @ r))"

fun All_loop :: "'e \<Rightarrow> 't list \<Rightarrow> ('t, 'e) Result list \<Rightarrow> ('t list, 'e) Result" where
  "All_loop ze vals [] = Result_Ok ze vals"
| "All_loop ze vals (r # rs) =
     (if \<not> res_ok r then Result_Err [] (res_err r)
      else All_loop ze (vals @ [res_value r]) rs)"

definition All_Results :: "'e \<Rightarrow> ('t, 'e) Result list \<Rightarrow> ('t list, 'e) Result" where
  "All_Results ze rs = All_loop ze [] rs"

fun Any_loop :: "'t \<Rightarrow> 'e \<Rightarrow> ('t, 'e) Result list \<Rightarrow> ('t, 'e) Result" where
  "Any_loop zt lastErr [] = Result_Err zt lastErr"
| "Any_loop zt lastErr (r # rs) = (if res_ok r then r else Any_loop zt (res_err r) rs)"

definition Any_Results :: "'t \<Rightarrow> 'e \<Rightarrow> ('t, 'e) Result list \<Rightarrow> ('t, 'e) Result" where
  "Any_Results zt ze rs = Any_loop zt ze rs"

definition Collect_Results ::
    "'e \<Rightarrow> 'a list \<Rightarrow> ('a \<Rightarrow> ('u, 'e) Result) \<Rightarrow> ('u list, 'e) Result" where
  "Collect_Results ze items fn = All_Results ze (map fn items)"

fun Partition_loop ::
    "'t list \<Rightarrow> 'e list \<Rightarrow> ('t, 'e) Result list \<Rightarrow> 't list \<times> 'e list" where
  "Partition_loop vals errs [] = (vals, errs)"
| "Partition_loop vals errs (r # rs) =
     (if res_ok r then Partition_loop (vals @ [res_value r]) errs rs
      else Partition_loop vals (errs @ [res_err r]) rs)"

definition Partition :: "('t, 'e) Result list \<Rightarrow> 't list \<times> 'e list" where
  "Partition rs = Partition_loop [] [] rs"

subsection \<open>The invariant of the structs\<close>

definition wf_Result :: "'t \<Rightarrow> 'e \<Rightarrow> ('t, 'e) Result \<Rightarrow> bool" where
  "wf_Result zt ze r \<longleftrightarrow> (if res_ok r then res_err r = ze else res_value r = zt)"

definition wf_Option :: "'t \<Rightarrow> 't Option \<Rightarrow> bool" where
  "wf_Option zt opt \<longleftrightarrow> opt_some opt \<or> opt_value opt = zt"

text \<open>The tagged unions the two structs stand for.\<close>

definition result_abs :: "('t, 'e) Result \<Rightarrow> 'e + 't" where
  "result_abs r = (if res_ok r then Inr (res_value r) else Inl (res_err r))"

definition option_abs :: "'t Option \<Rightarrow> 't option" where
  "option_abs opt = (if opt_some opt then Some (opt_value opt) else None)"

section \<open>Lemmas\<close>

named_theorems result_simps \<open>unfolding rules of the Result and Option operations\<close>

lemmas [result_simps] =
  Result_Ok_def Result_Err_def Result_IsOk_def Result_IsErr_def Result_Unwrap_def
  Result_Value_def Result_Error_def Result_ValueOr_def MapResult_def MapErr_def FlatMap_def
  Filter_Result_def Option_Some_def Option_None_def Option_IsSome_def Option_IsNone_def
  Option_Unwrap_def Option_Value_def Option_ValueOr_def MapOption_def FlatMapOption_def
  FilterOption_def Option_ToResult_def FromResult_def Recovery_def Try_def

lemma result_cases [case_names Ok Err]:
  assumes "wf_Result zt ze r"
  obtains v where "r = Result_Ok ze v" | e where "r = Result_Err zt e"
  using assms by (cases r) (auto simp: wf_Result_def result_simps split: if_splits)

lemma wf_Result_Ok [simp, inv_intros]: "wf_Result zt ze (Result_Ok ze v)"
  by (simp add: wf_Result_def result_simps)

lemma wf_Result_Err [simp, inv_intros]: "wf_Result zt ze (Result_Err zt e)"
  by (simp add: wf_Result_def result_simps)

lemma wf_MapResult [simp, inv_intros]: "wf_Result zu ze (MapResult zu ze r fn)"
  by (simp add: wf_Result_def result_simps)

lemma wf_MapErr [simp, inv_intros]: "wf_Result zt zf (MapErr zt zf r fn)"
  by (simp add: wf_Result_def result_simps)

lemma wf_FlatMap [inv_intros]:
  "(\<And>v. wf_Result zu ze (fn v)) \<Longrightarrow> wf_Result zu ze (FlatMap zu r fn)"
  by (simp add: FlatMap_def)

lemma wf_Filter_Result [inv_intros]:
  "wf_Result zt ze r \<Longrightarrow> wf_Result zt ze (Filter_Result zt r pred e)"
  by (simp add: Filter_Result_def)

lemma wf_Recovery [inv_intros]: "wf_Result zt ze (Recovery zt ze run f)"
  by (simp add: Recovery_def split: outcome.splits)

text \<open>On well-formed structs the abstraction loses nothing.\<close>

lemma result_abs_inj:
  "wf_Result zt ze r \<Longrightarrow> wf_Result zt ze s \<Longrightarrow> result_abs r = result_abs s \<Longrightarrow> r = s"
  by (auto simp: wf_Result_def result_abs_def split: if_splits)

lemma All_loop_spec:
  "All_loop ze vals rs =
     (case find (\<lambda>r. \<not> res_ok r) rs of
        Some r \<Rightarrow> Result_Err [] (res_err r)
      | None \<Rightarrow> Result_Ok ze (vals @ map res_value rs))"
  by (induction rs arbitrary: vals) (auto split: option.splits)

lemma Any_loop_spec:
  "Any_loop zt lastErr rs =
     (case find res_ok rs of
        Some r \<Rightarrow> r
      | None \<Rightarrow> Result_Err zt (last (lastErr # map res_err rs)))"
  by (induction rs arbitrary: lastErr) (auto split: option.splits)

lemma Partition_loop_spec:
  "Partition_loop vals errs rs =
     (vals @ map res_value (filter res_ok rs), errs @ map res_err (filter (\<lambda>r. \<not> res_ok r) rs))"
  by (induction rs arbitrary: vals errs) auto

section \<open>Properties\<close>

text \<open>\<open>MapResult\<close>, \<open>MapErr\<close>, \<open>FlatMap\<close> and \<open>Filter\<close> implement the operations of the error monad on
  the tagged union that the struct stands for: the flag and the two value fields always agree
  with one value of a sum type.\<close>

theorem result_refines_error_monad:
  "result_abs (MapResult zu ze r f) = map_sum id f (result_abs r)
   \<and> result_abs (MapErr zt zf r g) = map_sum g id (result_abs r)
   \<and> result_abs (FlatMap zu r k) =
       (case result_abs r of Inl e \<Rightarrow> Inl e | Inr v \<Rightarrow> result_abs (k v))
   \<and> result_abs (Filter_Result zt r pred e') =
       (case result_abs r of Inl e \<Rightarrow> Inl e | Inr v \<Rightarrow> if pred v then Inr v else Inl e')
   \<and> option_abs (FromResult zt r) = (case result_abs r of Inl e \<Rightarrow> None | Inr v \<Rightarrow> Some v)"
  by (simp add: result_abs_def option_abs_def result_simps)

text \<open>The monad laws hold as equations between structs (not only up to the abstraction) for
  every result a client can hold: \<open>FlatMap\<close> after \<open>Ok\<close> is application, \<open>FlatMap\<close> with \<open>Ok\<close> is the
  identity, and chained calls associate.\<close>

theorem FlatMap_monad_laws:
  assumes "wf_Result zt ze r"
  shows "FlatMap zu (Result_Ok ze v) k = k v
    \<and> FlatMap zt r (Result_Ok ze) = r
    \<and> FlatMap zw (FlatMap zu r k) h = FlatMap zw r (\<lambda>x. FlatMap zw (k x) h)"
  using assms by (cases rule: result_cases) (simp_all add: result_simps)

theorem FlatMap_monad_laws_witness:
  "wf_Result (0::int) '''' (Result_Ok '''' 4)
   \<and> FlatMap (0::int) (Result_Ok '''' 4) (Result_Ok '''') = (Result_Ok '''' 4 :: (int, string) Result)
   \<and> FlatMap (0::int) (FlatMap (0::int) (Result_Ok '''' 4) (\<lambda>x. Result_Err 0 ''bad''))
       (\<lambda>x. Result_Ok '''' (x + 1))
     = Result_Err 0 ''bad''"
proof -
  have wf: "wf_Result (0::int) '''' (Result_Ok '''' 4)" by simp
  show ?thesis
    using wf FlatMap_monad_laws [OF wf, of "0::int" 4 "\<lambda>x. Result_Err 0 ''bad''" "0::int"
        "\<lambda>x. Result_Ok '''' (x + 1)"]
    by (simp add: FlatMap_def [of _ "Result_Ok _ _"]) (simp add: result_simps)
qed

text \<open>\<open>All\<close> (and \<open>Collect\<close>, which calls it) succeeds exactly when every result does, with the
  values in order, and otherwise returns the first error; \<open>Any\<close> returns the first success and,
  when there is none, the last error (the zero error for no results); \<open>Partition\<close> splits values
  and errors without losing, duplicating or reordering any.\<close>

theorem batch_results_spec:
  "All_Results ze rs =
     (case find (\<lambda>r. \<not> res_ok r) rs of
        None \<Rightarrow> Result_Ok ze (map res_value rs)
      | Some r \<Rightarrow> Result_Err [] (res_err r))
   \<and> Any_Results zt ze rs =
     (case find res_ok rs of
        None \<Rightarrow> Result_Err zt (last (ze # map res_err rs))
      | Some r \<Rightarrow> r)
   \<and> Partition rs =
     (map res_value (filter res_ok rs), map res_err (filter (\<lambda>r. \<not> res_ok r) rs))"
  by (simp add: All_Results_def Any_Results_def Partition_def All_loop_spec Any_loop_spec
      Partition_loop_spec split: option.splits)

end
