(* ===== verification/Generics_Collections.thy ===== *)
theory Generics_Collections
  imports Generics_Result
begin

text \<open>
  \<open>pkg/generics/collections.go\<close>: the generic \<open>Set\<close>, \<open>SafeSet\<close>, \<open>Map\<close>, \<open>Slice\<close>, \<open>Tuple\<close> and \<open>Triple\<close>.

  A \<open>Set\<close> is its \<open>items\<close> field, a Go map with empty values: a finite map to \<open>unit\<close>. The methods with
  a pointer receiver return the new state. A loop over a Go map takes the order in which the
  run time visits the keys as the argument \<open>it\<close>; the theorems hold for every order that lists
  each key once (\<open>ranges_over\<close>). \<open>ForEach\<close> runs a callback for its effects; its model is the fold
  of the callback over a state.
\<close>

section \<open>Definitions\<close>

subsection \<open>Set and SafeSet\<close>

record 'a Set =
  set_items :: "('a, unit) fmap"

definition Set_Add :: "'a Set \<Rightarrow> 'a \<Rightarrow> 'a Set" where
  "Set_Add s x = s\<lparr>set_items := fmupd x () (set_items s)\<rparr>"

definition NewSet :: "'a list \<Rightarrow> 'a Set" where
  "NewSet values = fold (\<lambda>v s. s\<lparr>set_items := fmupd v () (set_items s)\<rparr>) values \<lparr>set_items = fmempty\<rparr>"

definition Set_Remove :: "'a Set \<Rightarrow> 'a \<Rightarrow> 'a Set" where
  "Set_Remove s x = s\<lparr>set_items := fmdrop x (set_items s)\<rparr>"

definition Set_Contains :: "'a Set \<Rightarrow> 'a \<Rightarrow> bool" where
  "Set_Contains s x = (fmlookup (set_items s) x \<noteq> None)"

definition Set_Size :: "'a Set \<Rightarrow> int" where
  "Set_Size s = map_len (set_items s)"

definition Set_IsEmpty :: "'a Set \<Rightarrow> bool" where
  "Set_IsEmpty s \<longleftrightarrow> map_len (set_items s) = 0"

definition Set_Clear :: "'a Set \<Rightarrow> 'a Set" where
  "Set_Clear s = s\<lparr>set_items := fmempty\<rparr>"

text \<open>The loop appends each visited key to the result.\<close>

definition Set_ToSlice :: "'a list \<Rightarrow> 'a Set \<Rightarrow> 'a list" where
  "Set_ToSlice it s = fold (\<lambda>x result. result @ [x]) it []"

definition Set_Union :: "'a list \<Rightarrow> 'a list \<Rightarrow> 'a Set \<Rightarrow> 'a Set \<Rightarrow> 'a Set" where
  "Set_Union it1 it2 s t =
     fold (\<lambda>x result. Set_Add result x) it2 (fold (\<lambda>x result. Set_Add result x) it1 (NewSet []))"

definition Set_Intersection :: "'a list \<Rightarrow> 'a Set \<Rightarrow> 'a Set \<Rightarrow> 'a Set" where
  "Set_Intersection it s t =
     fold (\<lambda>x result. if Set_Contains t x then Set_Add result x else result) it (NewSet [])"

definition Set_Difference :: "'a list \<Rightarrow> 'a Set \<Rightarrow> 'a Set \<Rightarrow> 'a Set" where
  "Set_Difference it s t =
     fold (\<lambda>x result. if \<not> Set_Contains t x then Set_Add result x else result) it (NewSet [])"

definition Set_SymmetricDifference ::
    "'a list \<Rightarrow> 'a list \<Rightarrow> 'a list \<Rightarrow> 'a Set \<Rightarrow> 'a Set \<Rightarrow> 'a Set" where
  "Set_SymmetricDifference it1 it2 it3 s t =
     Set_Difference it3 (Set_Union it1 it2 s t) (Set_Intersection it1 s t)"

fun IsSubset_loop :: "'a Set \<Rightarrow> 'a list \<Rightarrow> bool" where
  "IsSubset_loop t [] = True"
| "IsSubset_loop t (x # xs) = (if \<not> Set_Contains t x then False else IsSubset_loop t xs)"

definition Set_IsSubset :: "'a list \<Rightarrow> 'a Set \<Rightarrow> 'a Set \<Rightarrow> bool" where
  "Set_IsSubset it s t = IsSubset_loop t it"

definition Set_IsSuperset :: "'a list \<Rightarrow> 'a Set \<Rightarrow> 'a Set \<Rightarrow> bool" where
  "Set_IsSuperset it s t = Set_IsSubset it t s"

definition Set_ForEach :: "'a list \<Rightarrow> 'a Set \<Rightarrow> ('a \<Rightarrow> 'st \<Rightarrow> 'st) \<Rightarrow> 'st \<Rightarrow> 'st" where
  "Set_ForEach it s fn st = fold fn it st"

text \<open>Each method of \<open>SafeSet\<close> runs under its mutex, so it is one atomic step on the wrapped set.\<close>

record 'a SafeSet =
  safe_set :: "'a Set"

definition NewSafeSet :: "'a list \<Rightarrow> 'a SafeSet" where
  "NewSafeSet values = \<lparr>safe_set = NewSet values\<rparr>"

definition SafeSet_Add :: "'a SafeSet \<Rightarrow> 'a \<Rightarrow> 'a SafeSet" where
  "SafeSet_Add s x = s\<lparr>safe_set := Set_Add (safe_set s) x\<rparr>"

definition SafeSet_Remove :: "'a SafeSet \<Rightarrow> 'a \<Rightarrow> 'a SafeSet" where
  "SafeSet_Remove s x = s\<lparr>safe_set := Set_Remove (safe_set s) x\<rparr>"

definition SafeSet_Contains :: "'a SafeSet \<Rightarrow> 'a \<Rightarrow> bool" where
  "SafeSet_Contains s x = Set_Contains (safe_set s) x"

definition SafeSet_Size :: "'a SafeSet \<Rightarrow> int" where
  "SafeSet_Size s = Set_Size (safe_set s)"

definition SafeSet_ToSlice :: "'a list \<Rightarrow> 'a SafeSet \<Rightarrow> 'a list" where
  "SafeSet_ToSlice it s = Set_ToSlice it (safe_set s)"

subsection \<open>Tuples\<close>

record ('a, 'b) Tuple =
  tuple_First :: 'a
  tuple_Second :: 'b

definition NewTuple :: "'a \<Rightarrow> 'b \<Rightarrow> ('a, 'b) Tuple" where
  "NewTuple a b = \<lparr>tuple_First = a, tuple_Second = b\<rparr>"

definition Tuple_Unpack :: "('a, 'b) Tuple \<Rightarrow> 'a \<times> 'b" where
  "Tuple_Unpack t = (tuple_First t, tuple_Second t)"

record ('a, 'b, 'c) Triple =
  triple_First :: 'a
  triple_Second :: 'b
  triple_Third :: 'c

definition NewTriple :: "'a \<Rightarrow> 'b \<Rightarrow> 'c \<Rightarrow> ('a, 'b, 'c) Triple" where
  "NewTriple a b c = \<lparr>triple_First = a, triple_Second = b, triple_Third = c\<rparr>"

definition Triple_Unpack :: "('a, 'b, 'c) Triple \<Rightarrow> 'a \<times> 'b \<times> 'c" where
  "Triple_Unpack t = (triple_First t, triple_Second t, triple_Third t)"

subsection \<open>Map\<close>

record ('k, 'v) GMap =
  map_items :: "('k, 'v) fmap"

definition NewMap :: "('k, 'v) GMap" where
  "NewMap = \<lparr>map_items = fmempty\<rparr>"

definition FromMap :: "('k, 'v) fmap \<Rightarrow> ('k, 'v) GMap" where
  "FromMap m = \<lparr>map_items = m\<rparr>"

definition Map_Set :: "('k, 'v) GMap \<Rightarrow> 'k \<Rightarrow> 'v \<Rightarrow> ('k, 'v) GMap" where
  "Map_Set m k v = m\<lparr>map_items := fmupd k v (map_items m)\<rparr>"

definition Map_Get :: "'v \<Rightarrow> ('k, 'v) GMap \<Rightarrow> 'k \<Rightarrow> 'v Option" where
  "Map_Get zv m k =
     (case fmlookup (map_items m) k of Some v \<Rightarrow> Option_Some v | None \<Rightarrow> Option_None zv)"

definition Map_GetOrDefault :: "('k, 'v) GMap \<Rightarrow> 'k \<Rightarrow> 'v \<Rightarrow> 'v" where
  "Map_GetOrDefault m k d = (case fmlookup (map_items m) k of Some v \<Rightarrow> v | None \<Rightarrow> d)"

definition Map_Delete :: "('k, 'v) GMap \<Rightarrow> 'k \<Rightarrow> ('k, 'v) GMap" where
  "Map_Delete m k = m\<lparr>map_items := fmdrop k (map_items m)\<rparr>"

definition Map_Contains :: "('k, 'v) GMap \<Rightarrow> 'k \<Rightarrow> bool" where
  "Map_Contains m k = (fmlookup (map_items m) k \<noteq> None)"

definition Map_Size :: "('k, 'v) GMap \<Rightarrow> int" where
  "Map_Size m = map_len (map_items m)"

definition Map_IsEmpty :: "('k, 'v) GMap \<Rightarrow> bool" where
  "Map_IsEmpty m \<longleftrightarrow> map_len (map_items m) = 0"

definition Map_Clear :: "('k, 'v) GMap \<Rightarrow> ('k, 'v) GMap" where
  "Map_Clear m = m\<lparr>map_items := fmempty\<rparr>"

definition Map_Keys :: "'k list \<Rightarrow> ('k, 'v) GMap \<Rightarrow> 'k list" where
  "Map_Keys it m = fold (\<lambda>k keys. keys @ [k]) it []"

definition Map_Values :: "'k list \<Rightarrow> ('k, 'v) GMap \<Rightarrow> 'v list" where
  "Map_Values it m =
     fold (\<lambda>k vals. vals @ (case fmlookup (map_items m) k of Some v \<Rightarrow> [v] | None \<Rightarrow> [])) it []"

definition Map_Entries :: "'k list \<Rightarrow> ('k, 'v) GMap \<Rightarrow> ('k, 'v) Tuple list" where
  "Map_Entries it m =
     fold (\<lambda>k es. es @ (case fmlookup (map_items m) k of Some v \<Rightarrow> [NewTuple k v] | None \<Rightarrow> [])) it []"

definition Map_ForEach :: "'k list \<Rightarrow> ('k, 'v) GMap \<Rightarrow> ('k \<Rightarrow> 'v \<Rightarrow> 'st \<Rightarrow> 'st) \<Rightarrow> 'st \<Rightarrow> 'st" where
  "Map_ForEach it m fn st =
     fold (\<lambda>k st. case fmlookup (map_items m) k of Some v \<Rightarrow> fn k v st | None \<Rightarrow> st) it st"

definition MapValues :: "'k list \<Rightarrow> ('k, 'v) GMap \<Rightarrow> ('v \<Rightarrow> 'u) \<Rightarrow> ('k, 'u) GMap" where
  "MapValues it m fn =
     fold (\<lambda>k result. case fmlookup (map_items m) k of
                        Some v \<Rightarrow> Map_Set result k (fn v)
                      | None \<Rightarrow> result) it NewMap"

definition FilterMap :: "'k list \<Rightarrow> ('k, 'v) GMap \<Rightarrow> ('k \<Rightarrow> 'v \<Rightarrow> bool) \<Rightarrow> ('k, 'v) GMap" where
  "FilterMap it m pred =
     fold (\<lambda>k result. case fmlookup (map_items m) k of
                        Some v \<Rightarrow> if pred k v then Map_Set result k v else result
                      | None \<Rightarrow> result) it NewMap"

definition Map_ToMap :: "('k, 'v) GMap \<Rightarrow> ('k, 'v) fmap" where
  "Map_ToMap m = map_items m"

subsection \<open>Slice\<close>

record 'a Slice =
  slice_items :: "'a list"

definition NewSlice :: "'a list \<Rightarrow> 'a Slice" where
  "NewSlice xs = \<lparr>slice_items = xs\<rparr>"

definition FromSlice :: "'a list \<Rightarrow> 'a Slice" where
  "FromSlice xs = \<lparr>slice_items = xs\<rparr>"

definition Slice_Append :: "'a Slice \<Rightarrow> 'a list \<Rightarrow> 'a Slice" where
  "Slice_Append s xs = s\<lparr>slice_items := slice_items s @ xs\<rparr>"

definition Slice_Prepend :: "'a Slice \<Rightarrow> 'a list \<Rightarrow> 'a Slice" where
  "Slice_Prepend s xs = s\<lparr>slice_items := xs @ slice_items s\<rparr>"

definition Slice_Get :: "'a \<Rightarrow> 'a Slice \<Rightarrow> int \<Rightarrow> 'a Option" where
  "Slice_Get za s i =
     (if 0 \<le> i \<and> i < int (length (slice_items s)) then Option_Some (slice_items s ! nat i)
      else Option_None za)"

definition Slice_Set :: "'a Slice \<Rightarrow> int \<Rightarrow> 'a \<Rightarrow> 'a Slice \<times> bool" where
  "Slice_Set s i v =
     (if 0 \<le> i \<and> i < int (length (slice_items s))
      then (s\<lparr>slice_items := (slice_items s)[nat i := v]\<rparr>, True)
      else (s, False))"

definition Slice_Len :: "'a Slice \<Rightarrow> int" where
  "Slice_Len s = int (length (slice_items s))"

definition Slice_IsEmpty :: "'a Slice \<Rightarrow> bool" where
  "Slice_IsEmpty s \<longleftrightarrow> length (slice_items s) = 0"

definition Slice_First :: "'a \<Rightarrow> 'a Slice \<Rightarrow> 'a Option" where
  "Slice_First za s =
     (if length (slice_items s) > 0 then Option_Some (slice_items s ! 0) else Option_None za)"

definition Slice_Last :: "'a \<Rightarrow> 'a Slice \<Rightarrow> 'a Option" where
  "Slice_Last za s =
     (if length (slice_items s) > 0
      then Option_Some (slice_items s ! (length (slice_items s) - 1)) else Option_None za)"

definition MapSlice :: "'a Slice \<Rightarrow> ('a \<Rightarrow> 'b) \<Rightarrow> 'b Slice" where
  "MapSlice s fn = FromSlice (map fn (slice_items s))"

definition FilterSlice :: "'a Slice \<Rightarrow> ('a \<Rightarrow> bool) \<Rightarrow> 'a Slice" where
  "FilterSlice s pred =
     FromSlice (fold (\<lambda>x result. if pred x then result @ [x] else result) (slice_items s) [])"

definition ReduceSlice :: "'a Slice \<Rightarrow> 'u \<Rightarrow> ('u \<Rightarrow> 'a \<Rightarrow> 'u) \<Rightarrow> 'u" where
  "ReduceSlice s init fn = fold (\<lambda>x acc. fn acc x) (slice_items s) init"

fun FindSlice_loop :: "'a \<Rightarrow> ('a \<Rightarrow> bool) \<Rightarrow> 'a list \<Rightarrow> 'a Option" where
  "FindSlice_loop za pred [] = Option_None za"
| "FindSlice_loop za pred (x # xs) =
     (if pred x then Option_Some x else FindSlice_loop za pred xs)"

definition FindSlice :: "'a \<Rightarrow> 'a Slice \<Rightarrow> ('a \<Rightarrow> bool) \<Rightarrow> 'a Option" where
  "FindSlice za s pred = FindSlice_loop za pred (slice_items s)"

fun FindIndex_loop :: "('a \<Rightarrow> bool) \<Rightarrow> int \<Rightarrow> 'a list \<Rightarrow> int Option" where
  "FindIndex_loop pred i [] = Option_None 0"
| "FindIndex_loop pred i (x # xs) =
     (if pred x then Option_Some i else FindIndex_loop pred (i + 1) xs)"

definition FindIndexSlice :: "'a Slice \<Rightarrow> ('a \<Rightarrow> bool) \<Rightarrow> int Option" where
  "FindIndexSlice s pred = FindIndex_loop pred 0 (slice_items s)"

fun AnySlice_loop :: "('a \<Rightarrow> bool) \<Rightarrow> 'a list \<Rightarrow> bool" where
  "AnySlice_loop pred [] = False"
| "AnySlice_loop pred (x # xs) = (if pred x then True else AnySlice_loop pred xs)"

definition AnySlice :: "'a Slice \<Rightarrow> ('a \<Rightarrow> bool) \<Rightarrow> bool" where
  "AnySlice s pred = AnySlice_loop pred (slice_items s)"

fun AllSlice_loop :: "('a \<Rightarrow> bool) \<Rightarrow> 'a list \<Rightarrow> bool" where
  "AllSlice_loop pred [] = True"
| "AllSlice_loop pred (x # xs) = (if \<not> pred x then False else AllSlice_loop pred xs)"

definition AllSlice :: "'a Slice \<Rightarrow> ('a \<Rightarrow> bool) \<Rightarrow> bool" where
  "AllSlice s pred = AllSlice_loop pred (slice_items s)"

definition ContainsSlice :: "'a Slice \<Rightarrow> 'a \<Rightarrow> bool" where
  "ContainsSlice s x = List.member (slice_items s) x"

definition SortSlice :: "'a::linorder Slice \<Rightarrow> 'a Slice" where
  "SortSlice s = s\<lparr>slice_items := sort (slice_items s)\<rparr>"

definition ReverseSlice :: "'a Slice \<Rightarrow> 'a Slice" where
  "ReverseSlice s = s\<lparr>slice_items := rev (slice_items s)\<rparr>"

fun UniqueSlice_loop :: "'a Set \<Rightarrow> 'a list \<Rightarrow> 'a list \<Rightarrow> 'a list" where
  "UniqueSlice_loop seen result [] = result"
| "UniqueSlice_loop seen result (x # xs) =
     (if \<not> Set_Contains seen x then UniqueSlice_loop (Set_Add seen x) (result @ [x]) xs
      else UniqueSlice_loop seen result xs)"

definition UniqueSlice :: "'a Slice \<Rightarrow> 'a Slice" where
  "UniqueSlice s = FromSlice (UniqueSlice_loop (NewSet []) [] (slice_items s))"

text \<open>The loop \<open>for i := 0; i < len; i += size\<close> with the bound on \<open>end\<close>; \<open>size\<close> is positive here.\<close>

function ChunkSlice_loop :: "'a list \<Rightarrow> nat \<Rightarrow> nat \<Rightarrow> 'a Slice list \<Rightarrow> 'a Slice list" where
  "ChunkSlice_loop xs sz i chunks =
     (if i < length xs \<and> 0 < sz
      then let e = (if i + sz > length xs then length xs else i + sz)
           in ChunkSlice_loop xs sz (i + sz) (chunks @ [FromSlice (drop i (take e xs))])
      else chunks)"
  by pat_completeness auto
termination
  by (relation "measure (\<lambda>(xs, sz, i, chunks). length xs - i)") auto

definition ChunkSlice :: "'a Slice \<Rightarrow> int \<Rightarrow> 'a Slice list" where
  "ChunkSlice s sz =
     (if sz \<le> 0 then [] else ChunkSlice_loop (slice_items s) (nat sz) 0 [])"

definition Slice_ToSlice :: "'a Slice \<Rightarrow> 'a list" where
  "Slice_ToSlice s = slice_items s"

definition Slice_ForEach :: "'a Slice \<Rightarrow> ('a \<Rightarrow> 'st \<Rightarrow> 'st) \<Rightarrow> 'st \<Rightarrow> 'st" where
  "Slice_ForEach s fn st = fold fn (slice_items s) st"

definition Slice_ForEachIndex :: "'a Slice \<Rightarrow> (nat \<Rightarrow> 'a \<Rightarrow> 'st \<Rightarrow> 'st) \<Rightarrow> 'st \<Rightarrow> 'st" where
  "Slice_ForEachIndex s fn st =
     fold (\<lambda>(i, x). fn i x) (zip [0..<length (slice_items s)] (slice_items s)) st"

subsection \<open>Zip and flatten\<close>

definition ZipSlices :: "'a Slice \<Rightarrow> 'b Slice \<Rightarrow> ('a, 'b) Tuple Slice" where
  "ZipSlices s t =
     (let minLen = nat (min (Slice_Len s) (Slice_Len t))
      in FromSlice (map (\<lambda>i. NewTuple (slice_items s ! i) (slice_items t ! i)) [0..<minLen]))"

definition FlattenSlices :: "'a Slice list \<Rightarrow> 'a Slice" where
  "FlattenSlices ss = FromSlice (fold (\<lambda>s result. result @ slice_items s) ss [])"

section \<open>Lemmas\<close>

subsection \<open>Sets\<close>

text \<open>The set of items a \<open>Set\<close> holds.\<close>

definition set_abs :: "'a Set \<Rightarrow> 'a set" where
  "set_abs s = fset (fmdom (set_items s))"

lemma unit_fmap_eqI: "fmdom m = fmdom n \<Longrightarrow> m = (n :: ('a, unit) fmap)"
proof (rule fmap_ext)
  fix x
  assume "fmdom m = fmdom n"
  then have "(fmlookup m x = None) \<longleftrightarrow> (fmlookup n x = None)"
    by (metis fmdom_notD fmdom_notI)
  then show "fmlookup m x = fmlookup n x"
    by (cases "fmlookup m x"; cases "fmlookup n x") auto
qed

lemma Set_eqI: "set_abs s = set_abs t \<Longrightarrow> s = (t :: 'a Set)"
  by (cases s; cases t) (auto simp: set_abs_def fset_inject intro: unit_fmap_eqI)

lemma set_abs_Add [simp]: "set_abs (Set_Add s x) = insert x (set_abs s)"
  by (simp add: set_abs_def Set_Add_def)

lemma set_abs_Remove [simp]: "set_abs (Set_Remove s x) = set_abs s - {x}"
  by (simp add: set_abs_def Set_Remove_def)

lemma Set_Contains_iff [simp]: "Set_Contains s x \<longleftrightarrow> x \<in> set_abs s"
  by (simp add: set_abs_def Set_Contains_def fmdom_notD fmdomE fmlookup_dom_iff)

lemma set_abs_fold_Add: "set_abs (fold (\<lambda>x r. Set_Add r x) xs s) = set xs \<union> set_abs s"
  by (induction xs arbitrary: s) auto

lemma set_abs_fold_if:
  "set_abs (fold (\<lambda>x r. if p x then Set_Add r x else r) xs s) = {x \<in> set xs. p x} \<union> set_abs s"
  by (induction xs arbitrary: s) auto

lemma NewSet_eq: "NewSet xs = fold (\<lambda>x r. Set_Add r x) xs (NewSet [])"
  by (simp add: NewSet_def Set_Add_def)

lemma set_abs_empty [simp]: "set_abs (NewSet []) = {}"
  by (simp add: NewSet_def set_abs_def)

lemma set_abs_NewSet [simp]: "set_abs (NewSet xs) = set xs"
  by (subst NewSet_eq) (simp add: set_abs_fold_Add)

lemma Set_Size_eq [simp]: "Set_Size s = int (card (set_abs s))"
  by (simp add: Set_Size_def map_len_def set_abs_def fcard.rep_eq)

lemma ranges_over_set: "ranges_over (set_items s) it \<Longrightarrow> set it = set_abs s"
  by (auto simp: ranges_overD set_abs_def)

lemma IsSubset_loop_iff: "IsSubset_loop t xs \<longleftrightarrow> set xs \<subseteq> set_abs t"
  by (induction xs) auto

subsection \<open>Slices\<close>

lemma fold_snoc: "fold (\<lambda>x r. r @ [x]) xs ys = ys @ xs"
  by (induction xs arbitrary: ys) auto

lemma fold_snoc_if: "fold (\<lambda>x r. if p x then r @ [x] else r) xs ys = ys @ filter p xs"
  by (induction xs arbitrary: ys) auto

lemma fold_append: "fold (\<lambda>s r. r @ f s) ss ys = ys @ concat (map f ss)"
  by (induction ss arbitrary: ys) auto

text \<open>What \<open>UniqueSlice\<close> should return: the first occurrence of every element.\<close>

fun first_occurrences :: "'a set \<Rightarrow> 'a list \<Rightarrow> 'a list" where
  "first_occurrences seen [] = []"
| "first_occurrences seen (x # xs) =
     (if x \<in> seen then first_occurrences seen xs
      else x # first_occurrences (insert x seen) xs)"

lemma UniqueSlice_loop_eq:
  "UniqueSlice_loop seen result xs = result @ first_occurrences (set_abs seen) xs"
  by (induction xs arbitrary: seen result) auto

lemma set_first_occurrences: "set (first_occurrences seen xs) = set xs - seen"
  by (induction xs arbitrary: seen) auto

lemma distinct_first_occurrences: "distinct (first_occurrences seen xs)"
  by (induction xs arbitrary: seen) (auto simp: set_first_occurrences)

lemma subseq_first_occurrences: "subseq (first_occurrences seen xs) xs"
  by (induction xs arbitrary: seen) (auto intro: list_emb_Cons)

lemma FindSlice_loop_abs: "option_abs (FindSlice_loop za p xs) = find p xs"
  by (induction xs) (auto simp: option_abs_def result_simps)

lemma AnySlice_loop_iff: "AnySlice_loop p xs \<longleftrightarrow> (\<exists>x\<in>set xs. p x)"
  by (induction xs) auto

lemma AllSlice_loop_iff: "AllSlice_loop p xs \<longleftrightarrow> (\<forall>x\<in>set xs. p x)"
  by (induction xs) auto

declare ChunkSlice_loop.simps [simp del]

lemma ChunkSlice_loop_done: "\<not> i < length xs \<Longrightarrow> ChunkSlice_loop xs n i acc = acc"
  by (subst ChunkSlice_loop.simps) simp

lemma ChunkSlice_loop_concat:
  "0 < n \<Longrightarrow> concat (map slice_items (ChunkSlice_loop xs n i acc))
     = concat (map slice_items acc) @ drop i xs"
proof (induction xs n i acc rule: ChunkSlice_loop.induct)
  case (1 xs n i acc)
  show ?case
  proof (cases "i < length xs")
    case True
    define e where "e = (if i + n > length xs then length xs else i + n)"
    have "drop i (take e xs) = take n (drop i xs)"
      by (simp add: e_def drop_take)
    then have "drop i (take e xs) @ drop (i + n) xs = drop i xs"
      by (metis append_take_drop_id drop_drop add.commute)
    with True 1 show ?thesis
      by (subst ChunkSlice_loop.simps) (simp add: FromSlice_def e_def [symmetric])
  next
    case False
    then show ?thesis by (simp add: ChunkSlice_loop_done)
  qed
qed

lemma ChunkSlice_loop_sizes:
  "0 < n \<Longrightarrow> \<forall>c \<in> set acc. length (slice_items c) = n \<Longrightarrow>
   (\<forall>c \<in> set (butlast (ChunkSlice_loop xs n i acc)). length (slice_items c) = n) \<and>
   (\<forall>c \<in> set (ChunkSlice_loop xs n i acc). 0 < length (slice_items c) \<and> length (slice_items c) \<le> n)"
proof (induction xs n i acc rule: ChunkSlice_loop.induct)
  case (1 xs n i acc)
  consider (stop) "\<not> i < length xs" | (full) "i < length xs" "i + n \<le> length xs"
    | (short) "i < length xs" "\<not> i + n \<le> length xs" by linarith
  then show ?case
  proof cases
    case stop
    then show ?thesis using 1 by (auto simp: ChunkSlice_loop_done dest: in_set_butlastD)
  next
    case full
    then show ?thesis using 1 by (subst (1 2) ChunkSlice_loop.simps) (auto simp: FromSlice_def)
  next
    case short
    then have "ChunkSlice_loop xs n i acc = acc @ [FromSlice (drop i xs)]"
      using 1 by (subst ChunkSlice_loop.simps) (simp add: ChunkSlice_loop_done)
    then show ?thesis using 1 short by (auto simp: FromSlice_def)
  qed
qed

section \<open>Properties\<close>

text \<open>The set operations compute the operations of set theory whatever order the run time
  visits the maps in: union, intersection, difference and symmetric difference, the subset test,
  \<open>ToSlice\<close> (each item once) and \<open>Size\<close>.\<close>

theorem Set_operations_refine_sets:
  assumes "ranges_over (set_items s) it1" and "ranges_over (set_items t) it2"
    and "ranges_over (set_items (Set_Union it1 it2 s t)) it3"
  shows "set_abs (Set_Union it1 it2 s t) = set_abs s \<union> set_abs t
    \<and> set_abs (Set_Intersection it1 s t) = set_abs s \<inter> set_abs t
    \<and> set_abs (Set_Difference it1 s t) = set_abs s - set_abs t
    \<and> set_abs (Set_SymmetricDifference it1 it2 it3 s t)
        = (set_abs s - set_abs t) \<union> (set_abs t - set_abs s)
    \<and> (Set_IsSubset it1 s t \<longleftrightarrow> set_abs s \<subseteq> set_abs t)
    \<and> distinct (Set_ToSlice it1 s) \<and> set (Set_ToSlice it1 s) = set_abs s"
proof -
  note [simp] = assms [THEN ranges_over_set]
  have u: "set_abs (Set_Union it1 it2 s t) = set_abs s \<union> set_abs t"
    by (simp add: Set_Union_def set_abs_fold_Add Un_commute)
  have i: "set_abs (Set_Intersection it1 s t) = set_abs s \<inter> set_abs t"
    unfolding Set_Intersection_def set_abs_fold_if by auto
  have d: "set_abs (Set_Difference it x y) = set it - set_abs y" for it and x y :: "'a Set"
    unfolding Set_Difference_def set_abs_fold_if by auto
  have "set_abs (Set_SymmetricDifference it1 it2 it3 s t)
      = (set_abs s - set_abs t) \<union> (set_abs t - set_abs s)"
    unfolding Set_SymmetricDifference_def d i by (auto simp: u)
  with u i d assms(1) show ?thesis
    by (simp add: Set_IsSubset_def IsSubset_loop_iff Set_ToSlice_def fold_snoc ranges_overD)
qed

theorem Set_operations_refine_sets_witness:
  "set_abs (Set_SymmetricDifference [1, 2] [3, 2] [2, 3, 1] (NewSet [1, 2]) (NewSet [2, 3 :: int]))
     = {1, 3}
   \<and> \<not> Set_IsSubset [1, 2] (NewSet [1, 2]) (NewSet [2, 3 :: int])"
proof -
  let ?s = "NewSet [1, 2 :: int]" and ?t = "NewSet [2, 3 :: int]"
  have "ranges_over (set_items ?s) [1, 2]" and "ranges_over (set_items ?t) [3, 2]"
    and "ranges_over (set_items (Set_Union [1, 2] [3, 2] ?s ?t)) [2, 3, 1]"
    by (auto simp: ranges_over_def NewSet_def Set_Union_def Set_Add_def)
  from Set_operations_refine_sets [OF this] show ?thesis by auto
qed

text \<open>\<open>UniqueSlice\<close> keeps the first occurrence of every element, in order: the result has no
  duplicates, the same elements, and is a subsequence of the input.\<close>

theorem UniqueSlice_spec:
  "slice_items (UniqueSlice s) = first_occurrences {} (slice_items s)
   \<and> distinct (slice_items (UniqueSlice s))
   \<and> set (slice_items (UniqueSlice s)) = set (slice_items s)
   \<and> subseq (slice_items (UniqueSlice s)) (slice_items s)"
  by (simp add: UniqueSlice_def FromSlice_def UniqueSlice_loop_eq set_first_occurrences
      distinct_first_occurrences subseq_first_occurrences)

text \<open>\<open>ChunkSlice\<close> loses nothing: for a positive size the chunks concatenate to the input, every
  chunk but the last has exactly the given size, and the last is not empty; for a size that is
  not positive there are no chunks.\<close>

theorem ChunkSlice_spec:
  "(0 < sz \<longrightarrow>
      concat (map slice_items (ChunkSlice s sz)) = slice_items s
      \<and> (\<forall>c \<in> set (butlast (ChunkSlice s sz)). int (length (slice_items c)) = sz)
      \<and> (\<forall>c \<in> set (ChunkSlice s sz). c \<noteq> FromSlice [] \<and> int (length (slice_items c)) \<le> sz))
   \<and> (sz \<le> 0 \<longrightarrow> ChunkSlice s sz = [])"
proof -
  have "0 < sz \<Longrightarrow> ?thesis"
    using ChunkSlice_loop_concat [of "nat sz" "slice_items s" 0 "[]"]
      ChunkSlice_loop_sizes [of "nat sz" "[]" "slice_items s" 0]
    by (force simp: ChunkSlice_def FromSlice_def)
  then show ?thesis by (cases "0 < sz") (auto simp: ChunkSlice_def)
qed

theorem ChunkSlice_spec_witness:
  "concat (map slice_items (ChunkSlice (FromSlice [1, 2, 3, 4, 5 :: int]) 2)) = [1, 2, 3, 4, 5]
   \<and> map slice_items (ChunkSlice (FromSlice [1, 2, 3, 4, 5 :: int]) 2) = [[1, 2], [3, 4], [5]]
   \<and> ChunkSlice (FromSlice [1 :: int]) 0 = []"
  using ChunkSlice_spec [of 2 "FromSlice [1, 2, 3, 4, 5 :: int]"]
    ChunkSlice_spec [of 0 "FromSlice [1 :: int]"]
  by (simp add: FromSlice_def ChunkSlice_def ChunkSlice_loop.simps)

end
