(* ===== verification/State_Cache.thy ===== *)
theory State_Cache
  imports Go_Prelude
begin

text \<open>
  \<open>pkg/shared/state_cache.go\<close>: the cache of intent states, a bounded map with a time to live per
  entry and least-recently-used eviction.

  The Go code keeps each \<open>CacheEntry\<close> behind a pointer that the map \<open>entries\<close> and the node of the
  doubly linked \<open>evictionList\<close> share, and \<open>Get\<close> uses the pointer after it has released the lock.
  The model keeps an explicit store from addresses to entries; \<open>entries\<close> maps keys to addresses
  and \<open>evictionList\<close> is the list of the addresses of the nodes' entries, front first (each entry
  has one node, the field \<open>element\<close>). \<open>container/list\<close> ignores \<open>Remove\<close> and \<open>MoveToFront\<close> of a node that
  is not in the list, which is what the model's list operations do.

  \<open>Get\<close> is two critical sections, \<open>Get_read\<close> and \<open>Get_commit\<close>; the invariant is kept by each of
  them alone, whatever other operations ran in between.
\<close>

section \<open>Definitions\<close>

record 'v CacheEntry =
  ce_Key :: string
  ce_Value :: 'v
  ce_ExpiresAt :: time
  ce_AccessCount :: int
  ce_LastAccess :: time
  ce_CreatedAt :: time
  ce_Size :: int

record 'v StateCache =
  sc_store :: "addr \<Rightarrow> 'v CacheEntry"
  sc_next :: addr
  sc_entries :: "(string, addr) fmap"
  sc_evictionList :: "addr list"
  sc_maxSize :: int
  sc_defaultTTL :: duration
  sc_hits :: int
  sc_misses :: int
  sc_evictions :: int
  sc_currentSize :: int

definition NewStateCache :: "(addr \<Rightarrow> 'v CacheEntry) \<Rightarrow> int \<Rightarrow> duration \<Rightarrow> 'v StateCache" where
  "NewStateCache mem maxSize defaultTTL =
     \<lparr>sc_store = mem, sc_next = 0, sc_entries = fmempty, sc_evictionList = [],
      sc_maxSize = maxSize, sc_defaultTTL = defaultTTL,
      sc_hits = 0, sc_misses = 0, sc_evictions = 0, sc_currentSize = 0\<rparr>"

subsection \<open>Internal methods\<close>

definition removeEntry :: "'v StateCache \<Rightarrow> string \<Rightarrow> 'v StateCache" where
  "removeEntry c key =
     (case fmlookup (sc_entries c) key of
        Some a \<Rightarrow> c\<lparr>sc_entries := fmdrop key (sc_entries c),
                    sc_evictionList := remove1 a (sc_evictionList c),
                    sc_currentSize := wrap64 (sc_currentSize c - 1)\<rparr>
      | None \<Rightarrow> c)"

definition moveToFront :: "'v StateCache \<Rightarrow> addr \<Rightarrow> 'v StateCache" where
  "moveToFront c a =
     (if a \<in> set (sc_evictionList c)
      then c\<lparr>sc_evictionList := a # remove1 a (sc_evictionList c)\<rparr> else c)"

definition evictOldest :: "'v StateCache \<Rightarrow> 'v StateCache" where
  "evictOldest c =
     (if sc_evictionList c = [] then c
      else let a = last (sc_evictionList c); c' = removeEntry c (ce_Key (sc_store c a))
           in c'\<lparr>sc_evictions := inc64 (sc_evictions c')\<rparr>)"

text \<open>The loop \<open>for len(c.entries) > c.maxSize\<close> need not end (a negative \<open>maxSize\<close>), so its result is
  an option: \<open>None\<close> is a loop that runs forever.\<close>

partial_function (option) evictIfNecessary :: "'v StateCache \<Rightarrow> 'v StateCache option" where
  "evictIfNecessary c =
     (if map_len (sc_entries c) > sc_maxSize c then evictIfNecessary (evictOldest c) else Some c)"

declare evictIfNecessary.simps [code]

definition calculateSize :: "'v \<Rightarrow> int" where
  "calculateSize v = 1"

subsection \<open>Operations\<close>

definition Get_read :: "'v StateCache \<Rightarrow> string \<Rightarrow> addr option" where
  "Get_read c key = fmlookup (sc_entries c) key"

definition touch :: "time \<Rightarrow> 'v CacheEntry \<Rightarrow> 'v CacheEntry" where
  "touch now e = e\<lparr>ce_AccessCount := inc64 (ce_AccessCount e), ce_LastAccess := now\<rparr>"

definition record_miss :: "'v StateCache \<Rightarrow> 'v StateCache" where
  "record_miss c = c\<lparr>sc_misses := inc64 (sc_misses c)\<rparr>"

definition record_hit :: "time \<Rightarrow> 'v StateCache \<Rightarrow> addr \<Rightarrow> 'v StateCache" where
  "record_hit now c a =
     (let c1 = c\<lparr>sc_store := (sc_store c)(a := touch now (sc_store c a))\<rparr>;
          c2 = moveToFront c1 a
      in c2\<lparr>sc_hits := inc64 (sc_hits c2)\<rparr>)"

text \<open>The second half of \<open>Get\<close>: \<open>t1\<close> is the clock reading of the expiry test, \<open>t2\<close> the one stored as
  the last access. The entry is the one the first half found.\<close>

definition Get_commit ::
    "time \<Rightarrow> time \<Rightarrow> 'v StateCache \<Rightarrow> string \<Rightarrow> addr option \<Rightarrow> 'v option \<times> 'v StateCache" where
  "Get_commit t1 t2 c key found =
     (case found of
        None \<Rightarrow> (None, record_miss c)
      | Some a \<Rightarrow>
          if t1 > ce_ExpiresAt (sc_store c a) then (None, record_miss (removeEntry c key))
          else (Some (ce_Value (sc_store c a)), record_hit t2 c a))"

definition Cache_Get :: "time \<Rightarrow> time \<Rightarrow> 'v StateCache \<Rightarrow> string \<Rightarrow> 'v option \<times> 'v StateCache" where
  "Cache_Get t1 t2 c key = Get_commit t1 t2 c key (Get_read c key)"

definition Cache_Set ::
    "time \<Rightarrow> 'v StateCache \<Rightarrow> string \<Rightarrow> 'v \<Rightarrow> duration \<Rightarrow> 'v StateCache option" where
  "Cache_Set now c key v ttl0 =
     (let ttl = (if ttl0 = 0 then sc_defaultTTL c else ttl0); expiresAt = now + ttl
      in case fmlookup (sc_entries c) key of
           Some a \<Rightarrow>
             let e = sc_store c a;
                 e' = e\<lparr>ce_Value := v, ce_ExpiresAt := expiresAt, ce_LastAccess := now,
                        ce_AccessCount := inc64 (ce_AccessCount e)\<rparr>
             in Some (moveToFront (c\<lparr>sc_store := (sc_store c)(a := e')\<rparr>) a)
         | None \<Rightarrow>
             let a = sc_next c;
                 e = \<lparr>ce_Key = key, ce_Value = v, ce_ExpiresAt = expiresAt, ce_AccessCount = 1,
                      ce_LastAccess = now, ce_CreatedAt = now, ce_Size = calculateSize v\<rparr>
             in evictIfNecessary
                  (c\<lparr>sc_store := (sc_store c)(a := e), sc_next := Suc a,
                     sc_evictionList := a # sc_evictionList c,
                     sc_entries := fmupd key a (sc_entries c),
                     sc_currentSize := wrap64 (sc_currentSize c + 1)\<rparr>))"

definition Cache_Delete :: "'v StateCache \<Rightarrow> string \<Rightarrow> bool \<times> 'v StateCache" where
  "Cache_Delete c key =
     (case fmlookup (sc_entries c) key of
        Some a \<Rightarrow> let c' = removeEntry c key
                  in (True, c'\<lparr>sc_evictionList := remove1 a (sc_evictionList c')\<rparr>)
      | None \<Rightarrow> (False, c))"

definition Cache_Clear :: "'v StateCache \<Rightarrow> 'v StateCache" where
  "Cache_Clear c = c\<lparr>sc_entries := fmempty, sc_evictionList := [], sc_currentSize := 0\<rparr>"

definition Cache_Size :: "'v StateCache \<Rightarrow> int" where
  "Cache_Size c = map_len (sc_entries c)"

record CacheStats =
  cs_Hits :: int
  cs_Misses :: int
  cs_HitRate :: rat
  cs_Evictions :: int
  cs_CurrentSize :: int
  cs_MaxSize :: int
  cs_EntryCount :: int

definition Cache_Stats :: "'v StateCache \<Rightarrow> CacheStats" where
  "Cache_Stats c =
     (let total = wrap64 (sc_hits c + sc_misses c)
      in \<lparr>cs_Hits = sc_hits c, cs_Misses = sc_misses c,
          cs_HitRate = (if total > 0 then f64_div_ints (sc_hits c) total else 0),
          cs_Evictions = sc_evictions c, cs_CurrentSize = sc_currentSize c,
          cs_MaxSize = sc_maxSize c, cs_EntryCount = map_len (sc_entries c)\<rparr>)"

definition expired_keys :: "time \<Rightarrow> 'v StateCache \<Rightarrow> string list \<Rightarrow> string list" where
  "expired_keys now c it =
     filter (\<lambda>key. case fmlookup (sc_entries c) key of
                     Some a \<Rightarrow> now > ce_ExpiresAt (sc_store c a)
                   | None \<Rightarrow> False) it"

definition Cache_Cleanup :: "time \<Rightarrow> string list \<Rightarrow> 'v StateCache \<Rightarrow> int \<times> 'v StateCache" where
  "Cache_Cleanup now it c =
     (let expired = expired_keys now c it
      in (int (length expired), fold (\<lambda>key c. removeEntry c key) expired c))"

definition Cache_Keys :: "string list \<Rightarrow> 'v StateCache \<Rightarrow> string list" where
  "Cache_Keys it c = fold (\<lambda>key keys. keys @ [key]) it []"

definition Cache_Contains :: "time \<Rightarrow> 'v StateCache \<Rightarrow> string \<Rightarrow> bool" where
  "Cache_Contains now c key =
     (case fmlookup (sc_entries c) key of
        None \<Rightarrow> False
      | Some a \<Rightarrow> now < ce_ExpiresAt (sc_store c a))"

text \<open>\<open>GetMultiple\<close> calls \<open>Get\<close> for each key; the clock readings of the calls come in a list.\<close>

fun Cache_GetMultiple ::
    "(time \<times> time) list \<Rightarrow> 'v StateCache \<Rightarrow> string list \<Rightarrow> (string, 'v) fmap
       \<Rightarrow> (string, 'v) fmap \<times> 'v StateCache" where
  "Cache_GetMultiple ((t1, t2) # ts) c (key # keys) result =
     (case Cache_Get t1 t2 c key of
        (Some v, c') \<Rightarrow> Cache_GetMultiple ts c' keys (fmupd key v result)
      | (None, c') \<Rightarrow> Cache_GetMultiple ts c' keys result)"
| "Cache_GetMultiple _ c _ result = (result, c)"

fun Cache_SetMultiple ::
    "(time \<times> string \<times> 'v) list \<Rightarrow> duration \<Rightarrow> 'v StateCache \<Rightarrow> 'v StateCache option" where
  "Cache_SetMultiple [] ttl c = Some c"
| "Cache_SetMultiple ((now, key, v) # es) ttl c =
     (case Cache_Set now c key v ttl of
        None \<Rightarrow> None
      | Some c' \<Rightarrow> Cache_SetMultiple es ttl c')"

definition Cache_GetOldest :: "'v StateCache \<Rightarrow> (string \<times> 'v) option" where
  "Cache_GetOldest c =
     (if sc_evictionList c = [] then None
      else let e = sc_store c (last (sc_evictionList c)) in Some (ce_Key e, ce_Value e))"

definition Cache_GetMostRecent :: "'v StateCache \<Rightarrow> (string \<times> 'v) option" where
  "Cache_GetMostRecent c =
     (if sc_evictionList c = [] then None
      else let e = sc_store c (hd (sc_evictionList c)) in Some (ce_Key e, ce_Value e))"

record CacheEntryStats =
  es_AccessCount :: int
  es_LastAccess :: time
  es_CreatedAt :: time
  es_Size :: int
  es_TimeToExpiry :: duration

definition Cache_GetWithStats ::
    "time \<Rightarrow> time \<Rightarrow> time \<Rightarrow> 'v StateCache \<Rightarrow> string
       \<Rightarrow> ('v \<times> CacheEntryStats) option \<times> 'v StateCache" where
  "Cache_GetWithStats t1 t2 t3 c key =
     (case fmlookup (sc_entries c) key of
        None \<Rightarrow> (None, record_miss c)
      | Some a \<Rightarrow>
          if t1 > ce_ExpiresAt (sc_store c a) then (None, record_miss (removeEntry c key))
          else let c' = record_hit t2 c a; e = sc_store c' a
               in (Some (ce_Value e,
                         \<lparr>es_AccessCount = ce_AccessCount e, es_LastAccess = ce_LastAccess e,
                          es_CreatedAt = ce_CreatedAt e, es_Size = ce_Size e,
                          es_TimeToExpiry = time_Sub (ce_ExpiresAt e) t3\<rparr>), c'))"

text \<open>\<open>SetWithCallback\<close> is \<open>Set\<close> and a goroutine that sleeps for \<open>ttl\<close>; when it wakes up it calls the
  callback, if there is one, unless the key is still there.\<close>

definition Cache_SetWithCallback ::
    "time \<Rightarrow> 'v StateCache \<Rightarrow> string \<Rightarrow> 'v \<Rightarrow> duration \<Rightarrow> 'v StateCache option" where
  "Cache_SetWithCallback now c key v ttl = Cache_Set now c key v ttl"

definition SetWithCallback_wakeup :: "time \<Rightarrow> 'v StateCache \<Rightarrow> string \<Rightarrow> 'f option \<Rightarrow> 'f option" where
  "SetWithCallback_wakeup now c key callback =
     (if \<not> Cache_Contains now c key then callback else None)"

record CacheConfig =
  cc_MaxSize :: int
  cc_DefaultTTL :: duration
  cc_CleanupInterval :: duration
  cc_EvictionPolicy :: string
  cc_MaxMemoryMB :: int
  cc_EnableStatistics :: bool
  cc_EnableMetrics :: bool

definition DefaultCacheConfig :: CacheConfig where
  "DefaultCacheConfig =
     \<lparr>cc_MaxSize = 10000, cc_DefaultTTL = 30 * Minute, cc_CleanupInterval = 5 * Minute,
      cc_EvictionPolicy = ''lru'', cc_MaxMemoryMB = 100, cc_EnableStatistics = True,
      cc_EnableMetrics = True\<rparr>"

subsection \<open>Invariant and specification\<close>

text \<open>The map and the list hold the same entries, each under its own key, and the counter
  \<open>currentSize\<close> agrees with them.\<close>

definition cache_inv :: "'v StateCache \<Rightarrow> bool" where
  "cache_inv c \<longleftrightarrow>
     distinct (sc_evictionList c)
     \<and> (\<forall>key a. fmlookup (sc_entries c) key = Some a \<longleftrightarrow>
          a \<in> set (sc_evictionList c) \<and> ce_Key (sc_store c a) = key)
     \<and> (\<forall>a \<in> set (sc_evictionList c). a < sc_next c)
     \<and> sc_currentSize c = wrap64 (map_len (sc_entries c))"

definition cache_bounded :: "'v StateCache \<Rightarrow> bool" where
  "cache_bounded c \<longleftrightarrow> map_len (sc_entries c) \<le> sc_maxSize c"

text \<open>The specification: a list of keys with their values and expiry times, most recently used
  first.\<close>

type_synonym 'v lru = "(string \<times> 'v \<times> time) list"

definition entry_view :: "'v CacheEntry \<Rightarrow> string \<times> 'v \<times> time" where
  "entry_view e = (ce_Key e, ce_Value e, ce_ExpiresAt e)"

definition cache_abs :: "'v StateCache \<Rightarrow> 'v lru" where
  "cache_abs c = map (\<lambda>a. entry_view (sc_store c a)) (sc_evictionList c)"

definition lru_remove :: "string \<Rightarrow> 'v lru \<Rightarrow> 'v lru" where
  "lru_remove key xs = filter (\<lambda>(k, _). k \<noteq> key) xs"

definition lru_set :: "nat \<Rightarrow> string \<Rightarrow> 'v \<Rightarrow> time \<Rightarrow> 'v lru \<Rightarrow> 'v lru" where
  "lru_set cap key v expiry xs = take cap ((key, v, expiry) # lru_remove key xs)"

definition lru_get :: "time \<Rightarrow> string \<Rightarrow> 'v lru \<Rightarrow> 'v option \<times> 'v lru" where
  "lru_get now key xs =
     (case map_of xs key of
        None \<Rightarrow> (None, xs)
      | Some (v, expiry) \<Rightarrow>
          if now > expiry then (None, lru_remove key xs)
          else (Some v, (key, v, expiry) # lru_remove key xs))"

section \<open>Lemmas\<close>

lemma cache_inv_lookup:
  "cache_inv c \<Longrightarrow> fmlookup (sc_entries c) key = Some a \<longleftrightarrow>
     a \<in> set (sc_evictionList c) \<and> ce_Key (sc_store c a) = key"
  by (simp add: cache_inv_def)

lemma cache_inv_distinct [simp]: "cache_inv c \<Longrightarrow> distinct (sc_evictionList c)"
  by (simp add: cache_inv_def)

lemma cache_inv_inj: "cache_inv c \<Longrightarrow> inj_on (\<lambda>a. ce_Key (sc_store c a)) (set (sc_evictionList c))"
  by (rule inj_onI) (metis cache_inv_lookup option.inject)

lemma cache_inv_fresh: "cache_inv c \<Longrightarrow> sc_next c \<notin> set (sc_evictionList c)"
  by (auto simp: cache_inv_def)

lemma cache_inv_dom:
  "cache_inv c \<Longrightarrow> fset (fmdom (sc_entries c)) = (\<lambda>a. ce_Key (sc_store c a)) ` set (sc_evictionList c)"
  by (auto simp: fmlookup_dom_iff cache_inv_lookup)

lemma cache_inv_len:
  assumes "cache_inv c"
  shows "map_len (sc_entries c) = int (length (sc_evictionList c))"
proof -
  have "fcard (fmdom (sc_entries c)) = card (set (sc_evictionList c))"
    using assms by (simp add: fcard.rep_eq cache_inv_dom card_image cache_inv_inj)
  with assms show ?thesis by (simp add: map_len_def distinct_card)
qed

lemma removeEntry_inv [inv_intros]:
  assumes "cache_inv c"
  shows "cache_inv (removeEntry c key)"
proof (cases "fmlookup (sc_entries c) key")
  case None
  with assms show ?thesis by (simp add: removeEntry_def)
next
  case (Some a)
  then have dom: "key |\<in>| fmdom (sc_entries c)" by (rule fmdomI)
  have eq: "removeEntry c key = c\<lparr>sc_entries := fmdrop key (sc_entries c),
      sc_evictionList := remove1 a (sc_evictionList c),
      sc_currentSize := wrap64 (sc_currentSize c - 1)\<rparr>"
    by (simp add: removeEntry_def Some)
  have a: "a \<in> set (sc_evictionList c)" "ce_Key (sc_store c a) = key"
    using assms Some by (simp_all add: cache_inv_lookup)
  show ?thesis
    using assms dom a unfolding eq cache_inv_def
    by (auto simp: set_remove1_eq dest: inj_onD [OF cache_inv_inj [OF assms]])
qed

lemma moveToFront_inv [inv_intros]: "cache_inv c \<Longrightarrow> cache_inv (moveToFront c a)"
  by (auto simp: cache_inv_def moveToFront_def)

lemma touch_store_inv:
  "cache_inv c \<Longrightarrow> ce_Key e = ce_Key (sc_store c a) \<Longrightarrow>
   cache_inv (c\<lparr>sc_store := (sc_store c)(a := e)\<rparr>)"
  by (auto simp: cache_inv_def)

lemma record_inv [inv_intros]:
  "cache_inv c \<Longrightarrow> cache_inv (record_miss c)"
  "cache_inv c \<Longrightarrow> cache_inv (record_hit t c a)"
proof -
  assume inv: "cache_inv c"
  then show "cache_inv (record_miss c)" by (auto simp: cache_inv_def record_miss_def)
  from inv have "cache_inv (moveToFront (c\<lparr>sc_store := (sc_store c)(a := touch t (sc_store c a))\<rparr>) a)"
    by (intro moveToFront_inv touch_store_inv) (simp_all add: touch_def)
  then show "cache_inv (record_hit t c a)"
    by (simp add: record_hit_def Let_def cache_inv_def)
qed

lemma removeEntry_list:
  assumes "cache_inv c"
  shows "sc_evictionList (removeEntry c key)
    = filter (\<lambda>a. ce_Key (sc_store c a) \<noteq> key) (sc_evictionList c)"
proof (cases "fmlookup (sc_entries c) key")
  case None
  with assms have "\<forall>a \<in> set (sc_evictionList c). ce_Key (sc_store c a) \<noteq> key"
    by (metis cache_inv_lookup option.distinct(1))
  with None show ?thesis by (simp add: removeEntry_def filter_id_conv)
next
  case (Some a)
  have "remove1 a (sc_evictionList c) = filter (\<lambda>b. b \<noteq> a) (sc_evictionList c)"
    using assms by (simp add: distinct_remove1_removeAll removeAll_filter_not_eq eq_commute)
  also have "\<dots> = filter (\<lambda>b. ce_Key (sc_store c b) \<noteq> key) (sc_evictionList c)"
    using assms Some cache_inv_inj [OF assms] by (intro filter_cong) (auto simp: cache_inv_lookup inj_on_def)
  finally show ?thesis using Some by (simp add: removeEntry_def)
qed

lemma removeEntry_frame [simp]:
  "sc_store (removeEntry c key) = sc_store c" "sc_next (removeEntry c key) = sc_next c"
  "sc_maxSize (removeEntry c key) = sc_maxSize c" "sc_defaultTTL (removeEntry c key) = sc_defaultTTL c"
  "sc_hits (removeEntry c key) = sc_hits c" "sc_misses (removeEntry c key) = sc_misses c"
  "sc_evictions (removeEntry c key) = sc_evictions c"
  by (simp_all add: removeEntry_def split: option.splits)

lemma evictOldest_inv [inv_intros]: "cache_inv c \<Longrightarrow> cache_inv (evictOldest c)"
  using removeEntry_inv [of c] by (auto simp: evictOldest_def Let_def cache_inv_def)

lemma evictOldest_list:
  assumes "cache_inv c"
  shows "sc_evictionList (evictOldest c) = butlast (sc_evictionList c)"
proof (cases "sc_evictionList c = []")
  case True
  then show ?thesis by (simp add: evictOldest_def)
next
  case False
  then have "fmlookup (sc_entries c) (ce_Key (sc_store c (last (sc_evictionList c))))
      = Some (last (sc_evictionList c))"
    using assms by (simp add: cache_inv_lookup)
  moreover have "remove1 (last xs) xs = butlast xs" if "distinct xs" "xs \<noteq> []" for xs :: "addr list"
    using that by (induction xs) (auto split: if_splits)
  ultimately show ?thesis
    using assms False by (simp add: evictOldest_def removeEntry_def Let_def)
qed

lemma evictOldest_frame [simp]:
  "sc_store (evictOldest c) = sc_store c" "sc_maxSize (evictOldest c) = sc_maxSize c"
  "sc_defaultTTL (evictOldest c) = sc_defaultTTL c"
  by (simp_all add: evictOldest_def Let_def)

text \<open>With a bound that is not negative the eviction loop ends, and what it leaves is the front of
  the list.\<close>

lemma evictIfNecessary_total:
  assumes "cache_inv c" and "0 \<le> sc_maxSize c"
  shows "\<exists>c'. evictIfNecessary c = Some c' \<and> cache_inv c' \<and> cache_bounded c'
    \<and> sc_evictionList c' = take (nat (sc_maxSize c)) (sc_evictionList c)
    \<and> sc_store c' = sc_store c \<and> sc_maxSize c' = sc_maxSize c"
  using assms
proof (induction "length (sc_evictionList c)" arbitrary: c)
  case 0
  then show ?case
    by (subst evictIfNecessary.simps) (simp add: cache_inv_len cache_bounded_def)
next
  case (Suc n)
  show ?case
  proof (cases "map_len (sc_entries c) > sc_maxSize c")
    case False
    then have "length (sc_evictionList c) \<le> nat (sc_maxSize c)"
      using Suc.prems by (simp add: cache_inv_len)
    with False Suc.prems show ?thesis
      by (subst evictIfNecessary.simps) (simp add: cache_bounded_def)
  next
    case True
    let ?d = "evictOldest c"
    have list: "sc_evictionList ?d = butlast (sc_evictionList c)" and inv: "cache_inv ?d"
      using Suc.prems by (simp_all add: evictOldest_list evictOldest_inv)
    have "n = length (sc_evictionList ?d)" using Suc.hyps(2) by (simp add: list)
    from Suc.hyps(1) [OF this inv] Suc.prems(2) obtain c' where
      "evictIfNecessary ?d = Some c'" "cache_inv c'" "cache_bounded c'"
      "sc_evictionList c' = take (nat (sc_maxSize c)) (butlast (sc_evictionList c))"
      "sc_store c' = sc_store c" "sc_maxSize c' = sc_maxSize c"
      by (auto simp: list)
    moreover have "take (nat (sc_maxSize c)) (butlast (sc_evictionList c))
        = take (nat (sc_maxSize c)) (sc_evictionList c)"
      using True Suc.prems by (simp add: cache_inv_len take_butlast)
    ultimately show ?thesis
      using True by (subst evictIfNecessary.simps) simp
  qed
qed

text \<open>With a negative bound it never ends.\<close>

lemma evictIfNecessary_diverges:
  assumes "sc_maxSize c < 0"
  shows "evictIfNecessary c = None"
proof (rule ccontr)
  assume "evictIfNecessary c \<noteq> None"
  then obtain r where "evictIfNecessary c = Some r" by auto
  then have "0 \<le> sc_maxSize c"
  proof (rule evictIfNecessary.raw_induct [where P = "\<lambda>c r. 0 \<le> sc_maxSize c", rotated])
    fix f and c r :: "'a StateCache"
    assume IH: "\<And>c r. f c = Some r \<Longrightarrow> 0 \<le> sc_maxSize c"
      and eq: "(if sc_maxSize c < map_len (sc_entries c) then f (evictOldest c) else Some c) = Some r"
    show "0 \<le> sc_maxSize c"
    proof (cases "sc_maxSize c < map_len (sc_entries c)")
      case True
      with eq IH show ?thesis by fastforce
    next
      case False
      then show ?thesis using map_len_nonneg [of "sc_entries c"] by linarith
    qed
  qed
  with assms show False by simp
qed

subsection \<open>The operations against the specification\<close>

lemma cache_abs_distinct: "cache_inv c \<Longrightarrow> distinct (map fst (cache_abs c))"
  by (simp add: cache_abs_def entry_view_def comp_def distinct_map cache_inv_inj)

lemma cache_abs_lookup:
  assumes "cache_inv c"
  shows "map_of (cache_abs c) key =
    map_option (\<lambda>a. (ce_Value (sc_store c a), ce_ExpiresAt (sc_store c a)))
      (fmlookup (sc_entries c) key)"
proof (cases "fmlookup (sc_entries c) key")
  case None
  with assms have "key \<notin> fst ` set (cache_abs c)"
    by (auto simp: cache_abs_def entry_view_def) (metis cache_inv_lookup option.distinct(1))
  with None show ?thesis by (simp add: map_of_eq_None_iff)
next
  case (Some a)
  with assms have "(key, ce_Value (sc_store c a), ce_ExpiresAt (sc_store c a)) \<in> set (cache_abs c)"
    by (force simp: cache_abs_def entry_view_def cache_inv_lookup)
  with Some assms show ?thesis by (simp add: map_of_eq_Some_iff cache_abs_distinct)
qed

lemma cache_abs_removeEntry:
  "cache_inv c \<Longrightarrow> cache_abs (removeEntry c key) = lru_remove key (cache_abs c)"
  by (simp add: cache_abs_def lru_remove_def removeEntry_list filter_map comp_def entry_view_def)

lemma cache_abs_moveToFront:
  assumes "cache_inv c" and "fmlookup (sc_entries c) key = Some a"
  shows "cache_abs (moveToFront c a)
    = (key, ce_Value (sc_store c a), ce_ExpiresAt (sc_store c a)) # lru_remove key (cache_abs c)"
proof -
  have "remove1 a (sc_evictionList c) = sc_evictionList (removeEntry c key)"
    using assms(2) by (simp add: removeEntry_def)
  then have "cache_abs (moveToFront c a)
      = (ce_Key (sc_store c a), ce_Value (sc_store c a), ce_ExpiresAt (sc_store c a))
        # cache_abs (removeEntry c key)"
    using assms by (simp add: cache_abs_def moveToFront_def cache_inv_lookup entry_view_def)
  with assms show ?thesis by (simp add: cache_abs_removeEntry cache_inv_lookup)
qed

lemma cache_abs_frame:
  "cache_abs (record_miss c) = cache_abs c"
  "cache_abs (c\<lparr>sc_hits := n\<rparr>) = cache_abs c"
  "cache_abs (c\<lparr>sc_store := (sc_store c)(a := touch t (sc_store c a))\<rparr>) = cache_abs c"
  by (auto simp: cache_abs_def record_miss_def touch_def entry_view_def)

lemma cache_abs_record_hit:
  assumes "cache_inv c" and "fmlookup (sc_entries c) key = Some a"
  shows "cache_abs (record_hit t c a)
    = (key, ce_Value (sc_store c a), ce_ExpiresAt (sc_store c a)) # lru_remove key (cache_abs c)"
proof -
  let ?c = "c\<lparr>sc_store := (sc_store c)(a := touch t (sc_store c a))\<rparr>"
  have inv: "cache_inv ?c" using assms(1) by (rule touch_store_inv) (simp add: touch_def)
  have look: "fmlookup (sc_entries ?c) key = Some a" using assms(2) by simp
  have "cache_abs (record_hit t c a) = cache_abs (moveToFront ?c a)"
    by (simp add: record_hit_def Let_def cache_abs_frame)
  also have "\<dots> = (key, ce_Value (sc_store c a), ce_ExpiresAt (sc_store c a)) # lru_remove key (cache_abs ?c)"
    by (simp add: cache_abs_moveToFront [OF inv look]) (simp add: touch_def)
  finally show ?thesis by (simp only: cache_abs_frame)
qed

lemma lru_remove_length: "length (lru_remove key xs) \<le> length xs"
  by (simp add: lru_remove_def)

lemma lru_remove_length_member:
  "map_of xs key = Some y \<Longrightarrow> length (lru_remove key xs) < length xs"
  unfolding lru_remove_def
  by (induction xs) (auto split: if_splits simp: le_imp_less_Suc)

lemma lru_remove_absent: "map_of xs key = None \<Longrightarrow> lru_remove key xs = xs"
  unfolding lru_remove_def by (rule filter_True) (auto simp: map_of_eq_None_iff image_iff)

lemma cache_bounded_abs: "cache_inv c \<Longrightarrow> cache_bounded c \<longleftrightarrow> int (length (cache_abs c)) \<le> sc_maxSize c"
  by (simp add: cache_bounded_def cache_inv_len cache_abs_def)

lemma Cache_Get_refines:
  assumes "cache_inv c"
  shows "cache_inv (snd (Cache_Get t1 t2 c key))"
    and "fst (Cache_Get t1 t2 c key) = fst (lru_get t1 key (cache_abs c))"
    and "cache_abs (snd (Cache_Get t1 t2 c key)) = snd (lru_get t1 key (cache_abs c))"
  using assms
  by (auto simp: Cache_Get_def Get_read_def Get_commit_def lru_get_def cache_abs_lookup cache_abs_frame
      cache_abs_record_hit cache_abs_removeEntry intro: inv_intros split: option.splits)

lemma Cache_Set_existing:
  assumes inv: "cache_inv c" and look: "fmlookup (sc_entries c) key = Some a"
  shows "\<exists>c'. Cache_Set now c key v ttl = Some c' \<and> cache_inv c'
    \<and> cache_abs c' = (key, v, now + (if ttl = 0 then sc_defaultTTL c else ttl)) # lru_remove key (cache_abs c)
    \<and> sc_maxSize c' = sc_maxSize c"
proof -
  define x where "x = now + (if ttl = 0 then sc_defaultTTL c else ttl)"
  define e' where "e' = (sc_store c a)\<lparr>ce_Value := v, ce_ExpiresAt := x, ce_LastAccess := now,
      ce_AccessCount := inc64 (ce_AccessCount (sc_store c a))\<rparr>"
  let ?c = "c\<lparr>sc_store := (sc_store c)(a := e')\<rparr>"
  have inv': "cache_inv ?c" using inv by (rule touch_store_inv) (simp add: e'_def)
  have look': "fmlookup (sc_entries ?c) key = Some a" using look by simp
  have "lru_remove key (cache_abs ?c) = cache_abs (removeEntry ?c key)"
    by (simp only: cache_abs_removeEntry [OF inv'])
  also have "\<dots> = cache_abs (removeEntry c key)"
    using inv look by (auto simp: cache_abs_def removeEntry_def)
  finally have "lru_remove key (cache_abs ?c) = lru_remove key (cache_abs c)"
    by (simp only: cache_abs_removeEntry [OF inv])
  with cache_abs_moveToFront [OF inv' look']
  have "cache_abs (moveToFront ?c a) = (key, v, x) # lru_remove key (cache_abs c)"
    by (simp add: e'_def)
  moreover have "Cache_Set now c key v ttl = Some (moveToFront ?c a)"
    by (simp add: Cache_Set_def look x_def e'_def Let_def)
  ultimately show ?thesis
    using moveToFront_inv [OF inv', of a] by (auto simp: x_def moveToFront_def)
qed

lemma Cache_Set_new:
  assumes inv: "cache_inv c" and max: "0 \<le> sc_maxSize c"
    and look: "fmlookup (sc_entries c) key = None"
  shows "\<exists>c'. Cache_Set now c key v ttl = Some c' \<and> cache_inv c' \<and> cache_bounded c'
    \<and> cache_abs c' = take (nat (sc_maxSize c))
        ((key, v, now + (if ttl = 0 then sc_defaultTTL c else ttl)) # cache_abs c)
    \<and> sc_maxSize c' = sc_maxSize c"
proof -
  define x where "x = now + (if ttl = 0 then sc_defaultTTL c else ttl)"
  define e where "e = \<lparr>ce_Key = key, ce_Value = v, ce_ExpiresAt = x, ce_AccessCount = 1,
      ce_LastAccess = now, ce_CreatedAt = now, ce_Size = calculateSize v\<rparr>"
  let ?a = "sc_next c"
  let ?c = "c\<lparr>sc_store := (sc_store c)(?a := e), sc_next := Suc ?a,
      sc_evictionList := ?a # sc_evictionList c, sc_entries := fmupd key ?a (sc_entries c),
      sc_currentSize := wrap64 (sc_currentSize c + 1)\<rparr>"
  have fresh: "?a \<notin> set (sc_evictionList c)" using inv by (rule cache_inv_fresh)
  have none: "\<forall>b \<in> set (sc_evictionList c). ce_Key (sc_store c b) \<noteq> key"
    using inv look by (metis cache_inv_lookup option.distinct(1))
  have dom: "key |\<notin>| fmdom (sc_entries c)" using look by (simp add: fmdom_notI)
  have inv': "cache_inv ?c"
    using inv fresh none dom unfolding cache_inv_def by (auto simp: e_def less_Suc_eq)
  from evictIfNecessary_total [OF inv'] max obtain c' where
    "evictIfNecessary ?c = Some c'" "cache_inv c'" "cache_bounded c'" "sc_maxSize c' = sc_maxSize c"
    "sc_evictionList c' = take (nat (sc_maxSize c)) (?a # sc_evictionList c)"
    "sc_store c' = (sc_store c)(?a := e)"
    by auto
  moreover have "map (\<lambda>b. entry_view (((sc_store c)(?a := e)) b)) (sc_evictionList c) = cache_abs c"
    using fresh unfolding cache_abs_def by (intro map_cong) auto
  moreover have "entry_view e = (key, v, x)" by (simp add: entry_view_def e_def)
  ultimately have "cache_abs c' = take (nat (sc_maxSize c)) ((key, v, x) # cache_abs c)"
    unfolding cache_abs_def [of c'] by (simp add: take_map [symmetric])
  moreover have "Cache_Set now c key v ttl = evictIfNecessary ?c"
    by (simp add: Cache_Set_def look x_def e_def Let_def)
  ultimately show ?thesis
    using \<open>evictIfNecessary ?c = Some c'\<close> \<open>cache_inv c'\<close> \<open>cache_bounded c'\<close> \<open>sc_maxSize c' = sc_maxSize c\<close>
    by (auto simp: x_def)
qed

lemma Cache_Set_refines:
  assumes inv: "cache_inv c" and bnd: "cache_bounded c"
  shows "\<exists>c'. Cache_Set now c key v ttl = Some c' \<and> cache_inv c' \<and> cache_bounded c'
    \<and> sc_maxSize c' = sc_maxSize c
    \<and> cache_abs c' = lru_set (nat (sc_maxSize c)) key v
        (now + (if ttl = 0 then sc_defaultTTL c else ttl)) (cache_abs c)"
proof -
  have max: "0 \<le> sc_maxSize c"
    using bnd order_trans [OF map_len_nonneg] by (auto simp: cache_bounded_def)
  show ?thesis
  proof (cases "fmlookup (sc_entries c) key")
    case None
    then have "lru_remove key (cache_abs c) = cache_abs c"
      using inv by (simp add: lru_remove_absent cache_abs_lookup)
    then show ?thesis
      using Cache_Set_new [OF inv max None, of now v ttl] by (auto simp add: lru_set_def)
  next
    case (Some a)
    then have "length (lru_remove key (cache_abs c)) < length (cache_abs c)"
      using inv by (intro lru_remove_length_member) (simp add: cache_abs_lookup)
    then have "Suc (length (lru_remove key (cache_abs c))) \<le> nat (sc_maxSize c)"
      using bnd inv by (simp add: cache_bounded_abs)
    with Cache_Set_existing [OF inv Some, of now v ttl] show ?thesis
      using max by (auto simp: lru_set_def cache_bounded_abs)
  qed
qed

lemma cache_bounded_removeEntry:
  "cache_inv c \<Longrightarrow> cache_bounded c \<Longrightarrow> cache_bounded (removeEntry c key)"
  using lru_remove_length [of key "cache_abs c"]
  by (simp add: cache_bounded_abs removeEntry_inv cache_abs_removeEntry)

lemma cache_bounded_frame:
  "cache_bounded (record_miss c) \<longleftrightarrow> cache_bounded c"
  "cache_bounded (record_hit t c a) \<longleftrightarrow> cache_bounded c"
  by (simp_all add: cache_bounded_def record_miss_def record_hit_def moveToFront_def Let_def)

lemma Get_commit_inv:
  assumes "cache_inv c" and "cache_bounded c"
  shows "cache_inv (snd (Get_commit t1 t2 c key found)) \<and> cache_bounded (snd (Get_commit t1 t2 c key found))"
  using assms
  by (auto simp: Get_commit_def cache_bounded_frame intro: inv_intros cache_bounded_removeEntry
      split: option.splits)

lemma Cache_Delete_eq:
  assumes "cache_inv c"
  shows "snd (Cache_Delete c key) = removeEntry c key"
proof (cases "fmlookup (sc_entries c) key")
  case (Some a)
  have "a \<notin> set (sc_evictionList (removeEntry c key))"
    using assms Some by (simp add: removeEntry_list cache_inv_lookup)
  with Some show ?thesis by (simp add: Cache_Delete_def Let_def remove1_idem)
qed (simp add: Cache_Delete_def removeEntry_def)

lemma Cache_Clear_inv: "0 \<le> sc_maxSize c \<Longrightarrow> cache_inv (Cache_Clear c) \<and> cache_bounded (Cache_Clear c)"
  by (simp add: Cache_Clear_def cache_inv_def cache_bounded_def wrap64_def)

lemma removeEntries_abs:
  "cache_inv c \<Longrightarrow> cache_inv (fold (\<lambda>key c. removeEntry c key) ks c)
     \<and> cache_abs (fold (\<lambda>key c. removeEntry c key) ks c) = filter (\<lambda>(k, _). k \<notin> set ks) (cache_abs c)
     \<and> sc_maxSize (fold (\<lambda>key c. removeEntry c key) ks c) = sc_maxSize c"
proof (induction ks arbitrary: c)
  case (Cons k ks)
  from Cons.IH [of "removeEntry c k"] Cons.prems show ?case
    by (auto simp: cache_abs_removeEntry lru_remove_def removeEntry_inv intro!: filter_cong)
qed simp

lemma expired_keys_iff:
  assumes "cache_inv c" and "ranges_over (sc_entries c) it"
  shows "k \<in> set (expired_keys now c it) \<longleftrightarrow> (\<exists>v x. map_of (cache_abs c) k = Some (v, x) \<and> now > x)"
  using assms
  by (auto simp: expired_keys_def cache_abs_lookup ranges_overD fmlookup_dom_iff split: option.splits)

lemma Cache_Cleanup_refines:
  assumes "cache_inv c" and "ranges_over (sc_entries c) it"
  shows "cache_inv (snd (Cache_Cleanup now it c))"
    and "cache_abs (snd (Cache_Cleanup now it c)) = filter (\<lambda>(k, v, x). \<not> now > x) (cache_abs c)"
    and "sc_maxSize (snd (Cache_Cleanup now it c)) = sc_maxSize c"
proof -
  note rem = removeEntries_abs [OF assms(1), of "expired_keys now c it"]
  from rem show "cache_inv (snd (Cache_Cleanup now it c))"
    and "sc_maxSize (snd (Cache_Cleanup now it c)) = sc_maxSize c"
    by (simp_all add: Cache_Cleanup_def Let_def)
  have "k \<notin> set (expired_keys now c it) \<longleftrightarrow> \<not> now > x" if "(k, v, x) \<in> set (cache_abs c)" for k v x
    using that assms expired_keys_iff [OF assms, of k now]
    by (simp add: map_of_eq_Some_iff [OF cache_abs_distinct [OF assms(1)], symmetric])
  then show "cache_abs (snd (Cache_Cleanup now it c)) = filter (\<lambda>(k, v, x). \<not> now > x) (cache_abs c)"
    using rem by (auto simp: Cache_Cleanup_def Let_def intro!: filter_cong)
qed

lemma Cache_Cleanup_bounded:
  assumes "cache_inv c" "ranges_over (sc_entries c) it" "cache_bounded c"
  shows "cache_bounded (snd (Cache_Cleanup now it c))"
proof -
  have "length (cache_abs (snd (Cache_Cleanup now it c))) \<le> length (cache_abs c)"
    unfolding Cache_Cleanup_refines(2) [OF assms(1,2)] by simp
  then have "int (length (cache_abs (snd (Cache_Cleanup now it c)))) \<le> sc_maxSize c"
    using assms by (simp only: cache_bounded_abs)
  then show ?thesis
    by (simp only: cache_bounded_abs Cache_Cleanup_refines(1,3) [OF assms(1,2)])
qed

subsection \<open>The interface of the cache\<close>

text \<open>What a client of the cache may rely on: \<open>view\<close> is the stored value and expiry of a key.\<close>

locale ttl_cache =
  fixes get :: "time \<Rightarrow> time \<Rightarrow> 'c \<Rightarrow> string \<Rightarrow> 'v option \<times> 'c"
    and put :: "time \<Rightarrow> 'c \<Rightarrow> string \<Rightarrow> 'v \<Rightarrow> duration \<Rightarrow> 'c option"
    and view :: "'c \<Rightarrow> string \<Rightarrow> ('v \<times> time) option"
    and good :: "'c \<Rightarrow> bool"
  assumes put_returns: "good c \<Longrightarrow> \<exists>c'. put now c k v ttl = Some c'"
    and put_good: "good c \<Longrightarrow> put now c k v ttl = Some c' \<Longrightarrow> good c'"
    and put_stores: "good c \<Longrightarrow> ttl \<noteq> 0 \<Longrightarrow> put now c k v ttl = Some c' \<Longrightarrow> view c' k = Some (v, now + ttl)"
    and put_others: "good c \<Longrightarrow> put now c k v ttl = Some c' \<Longrightarrow> j \<noteq> k \<Longrightarrow>
      view c' j = None \<or> view c' j = view c j"
    and get_good: "good c \<Longrightarrow> good (snd (get t1 t2 c k))"
    and get_value: "good c \<Longrightarrow> fst (get t1 t2 c k) =
      (case view c k of None \<Rightarrow> None | Some (v, x) \<Rightarrow> if t1 > x then None else Some v)"
    and get_others: "good c \<Longrightarrow> view (snd (get t1 t2 c k)) j = view c j \<or>
      (j = k \<and> view (snd (get t1 t2 c k)) j = None)"
begin

lemma get_after_put:
  assumes "good c" "ttl \<noteq> 0" "put now c k v ttl = Some c'" "t1 \<le> now + ttl"
  shows "fst (get t1 t2 c' k) = Some v"
  using assms put_good put_stores by (simp add: get_value)

lemma get_never_invents:
  assumes "good c" "put now c k v ttl = Some c'" "j \<noteq> k" "fst (get t1 t2 c' j) = Some w"
  shows "\<exists>x. view c j = Some (w, x)"
proof -
  from assms(1,2) have "good c'" by (rule put_good)
  with assms(4) obtain x where "view c' j = Some (w, x)"
    by (auto simp: get_value split: option.splits if_splits)
  with put_others [OF assms(1,2,3)] show ?thesis by (metis option.distinct(1))
qed

end

lemma map_of_lru_remove: "map_of (lru_remove k xs) j = (if j = k then None else map_of xs j)"
  unfolding lru_remove_def by (induction xs) auto

lemma map_of_take: "map_of (take n xs) j = None \<or> map_of (take n xs) j = map_of xs j"
proof (cases "map_of (take n xs) j")
  case (Some y)
  then have "map_of (take n xs @ drop n xs) j = Some y"
    by (subst map_of_append) (simp add: map_add_Some_iff)
  with Some show ?thesis by simp
qed simp

lemma lru_set_views:
  "0 < cap \<Longrightarrow> map_of (lru_set cap k v x xs) k = Some (v, x)"
  "j \<noteq> k \<Longrightarrow> map_of (lru_set cap k v x xs) j = None \<or> map_of (lru_set cap k v x xs) j = map_of xs j"
  using map_of_take [of cap "(k, v, x) # lru_remove k xs" j]
  by (auto simp: lru_set_def map_of_lru_remove take_Cons' split: if_splits)

lemma lru_get_views:
  "map_of (snd (lru_get t k xs)) j = map_of xs j \<or> (j = k \<and> map_of (snd (lru_get t k xs)) j = None)"
  "fst (lru_get t k xs) =
     (case map_of xs k of None \<Rightarrow> None | Some (v, x) \<Rightarrow> if t > x then None else Some v)"
  by (auto simp: lru_get_def map_of_lru_remove split: option.splits if_splits)

definition usable_cache :: "'v StateCache \<Rightarrow> bool" where
  "usable_cache c \<longleftrightarrow> cache_inv c \<and> cache_bounded c \<and> 1 \<le> sc_maxSize c"

lemma Get_frame: "sc_maxSize (snd (Cache_Get t1 t2 c k)) = sc_maxSize c"
  by (simp add: Cache_Get_def Get_commit_def record_miss_def record_hit_def moveToFront_def Let_def
      split: option.splits)

interpretation state_cache: ttl_cache Cache_Get Cache_Set "\<lambda>c. map_of (cache_abs c)" usable_cache
proof
  fix c :: "'v StateCache" and now k v ttl t1 t2 j c'
  assume ok: "usable_cache c"
  then have inv: "cache_inv c" and bnd: "cache_bounded c" and max: "1 \<le> sc_maxSize c"
    by (simp_all add: usable_cache_def)
  note ref = Cache_Set_refines [OF inv bnd, of now k v ttl]
  from ref show "\<exists>c'. Cache_Set now c k v ttl = Some c'" by auto
  show "usable_cache (snd (Cache_Get t1 t2 c k))"
    using Get_commit_inv [OF inv bnd, of t1 t2 k] max
    by (simp add: usable_cache_def Cache_Get_def [symmetric] Get_frame) (simp add: Cache_Get_def)
  show "fst (Cache_Get t1 t2 c k) = (case map_of (cache_abs c) k of
      None \<Rightarrow> None | Some (v, x) \<Rightarrow> if t1 > x then None else Some v)"
    by (simp only: Cache_Get_refines [OF inv] lru_get_views)
  show "map_of (cache_abs (snd (Cache_Get t1 t2 c k))) j = map_of (cache_abs c) j \<or>
      (j = k \<and> map_of (cache_abs (snd (Cache_Get t1 t2 c k))) j = None)"
    unfolding Cache_Get_refines [OF inv] by (rule lru_get_views)
  assume set: "Cache_Set now c k v ttl = Some c'"
  with ref max show "usable_cache c'" by (auto simp: usable_cache_def)
  show "map_of (cache_abs c') k = Some (v, now + ttl)" if "ttl \<noteq> 0"
    using ref set max that by (auto intro!: lru_set_views)
  show "map_of (cache_abs c') j = None \<or> map_of (cache_abs c') j = map_of (cache_abs c) j" if "j \<noteq> k"
    using ref set that by (auto dest: lru_set_views(2))
qed

subsection \<open>Runs of the cache\<close>

text \<open>The critical sections in any order. A \<open>Get\<close> that has read its entry commits later: the rule
  allows any address, so also one that other operations have removed since.\<close>

inductive cache_reach :: "int \<Rightarrow> duration \<Rightarrow> 'v StateCache \<Rightarrow> bool" for maxSize ttl0 where
  start: "cache_reach maxSize ttl0 (NewStateCache mem maxSize ttl0)"
| step_set: "cache_reach maxSize ttl0 c \<Longrightarrow> Cache_Set now c key v ttl = Some c' \<Longrightarrow>
    cache_reach maxSize ttl0 c'"
| step_get: "cache_reach maxSize ttl0 c \<Longrightarrow>
    cache_reach maxSize ttl0 (snd (Get_commit t1 t2 c key found))"
| step_delete: "cache_reach maxSize ttl0 c \<Longrightarrow> cache_reach maxSize ttl0 (snd (Cache_Delete c key))"
| step_clear: "cache_reach maxSize ttl0 c \<Longrightarrow> cache_reach maxSize ttl0 (Cache_Clear c)"
| step_cleanup: "cache_reach maxSize ttl0 c \<Longrightarrow> ranges_over (sc_entries c) it \<Longrightarrow>
    cache_reach maxSize ttl0 (snd (Cache_Cleanup now it c))"

lemma Get_commit_maxSize: "sc_maxSize (snd (Get_commit t1 t2 c key found)) = sc_maxSize c"
  by (simp add: Get_commit_def record_miss_def record_hit_def moveToFront_def Let_def
      split: option.splits)

section \<open>Properties\<close>

text \<open>C5: In every run of the cache, with the two halves of \<open>Get\<close> interleaved with other operations in
  any way, the map and the eviction list hold exactly the same entries, each under its own key
  and once, \<open>currentSize\<close> counts them, and there are never more than \<open>maxSize\<close>.\<close>

theorem cache_invariant:
  assumes "cache_reach maxSize ttl0 c" and "0 \<le> maxSize"
  shows "cache_inv c \<and> cache_bounded c \<and> sc_maxSize c = maxSize"
  using assms
proof (induction rule: cache_reach.induct)
  case (start mem)
  then show ?case by (simp add: NewStateCache_def cache_inv_def cache_bounded_def wrap64_def)
next
  case (step_set c now key v ttl c')
  with Cache_Set_refines [of c now key v ttl] show ?case by auto
next
  case (step_get c t1 t2 key found)
  then show ?case using Get_commit_inv [of c t1 t2 key found] by (simp add: Get_commit_maxSize)
next
  case (step_delete c key)
  then show ?case by (simp add: Cache_Delete_eq removeEntry_inv cache_bounded_removeEntry)
next
  case (step_clear c)
  then show ?case using Cache_Clear_inv [of c] by (simp add: Cache_Clear_def)
next
  case (step_cleanup c it now)
  then show ?case
    using Cache_Cleanup_refines [of c it now] Cache_Cleanup_bounded [of c it now] by simp
qed

theorem cache_invariant_witness:
  "\<exists>c. cache_reach 1 Minute c \<and> map_of (cache_abs c) ''b'' = Some (8 :: int, 105)
     \<and> map_of (cache_abs c) ''a'' = None \<and> cache_inv c \<and> cache_bounded c"
proof -
  let ?c0 = "NewStateCache (\<lambda>_. undefined) 1 Minute :: int StateCache"
  have r0: "cache_reach 1 Minute ?c0" by (rule cache_reach.start)
  have u0: "usable_cache ?c0"
    by (simp add: usable_cache_def NewStateCache_def cache_inv_def cache_bounded_def wrap64_def)
  then obtain c1 where c1: "Cache_Set 0 ?c0 ''a'' 7 5 = Some c1" "usable_cache c1"
    and a1: "cache_abs c1 = [(''a'', 7, 5)]"
    using Cache_Set_refines [of ?c0 0 "''a''" 7 5]
    by (auto simp: usable_cache_def NewStateCache_def cache_abs_def lru_set_def lru_remove_def)
  then obtain c2 where c2: "Cache_Set 100 c1 ''b'' 8 5 = Some c2"
    and a2: "cache_abs c2 = [(''b'', 8, 105)]"
    using Cache_Set_refines [of c1 100 "''b''" 8 5] cache_invariant [OF cache_reach.step_set [OF r0 c1(1)]]
    by (auto simp: usable_cache_def lru_set_def lru_remove_def)
  have r2: "cache_reach 1 Minute c2"
    by (rule cache_reach.step_set [OF cache_reach.step_set [OF r0 c1(1)] c2])
  with a2 cache_invariant [OF r2] show ?thesis by auto
qed

text \<open>C40: \<open>Set\<close> implements least-recently-used replacement: seen as a list of entries in the order of
  their last use, it moves or adds the key to the front with its new value and expiry time and
  drops the entries at the end that exceed the bound, and it always returns.\<close>

theorem Set_refines_lru:
  assumes "cache_inv c" and "cache_bounded c"
  shows "\<exists>c'. Cache_Set now c key v ttl = Some c'
    \<and> cache_abs c' = lru_set (nat (sc_maxSize c)) key v
        (now + (if ttl = 0 then sc_defaultTTL c else ttl)) (cache_abs c)"
  using Cache_Set_refines [OF assms, of now key v ttl] by blast

theorem Set_refines_lru_witness:
  "\<exists>c'. Cache_Set 3 (NewStateCache (\<lambda>_. undefined) 2 Minute) ''k'' (1 :: int) 0 = Some c'
     \<and> cache_abs c' = [(''k'', 1, 3 + Minute)]"
proof -
  let ?c = "NewStateCache (\<lambda>_. undefined) 2 Minute :: int StateCache"
  have "cache_inv ?c" "cache_bounded ?c"
    by (simp_all add: NewStateCache_def cache_inv_def cache_bounded_def wrap64_def)
  from Set_refines_lru [OF this, of 3 "''k''" 1 0] show ?thesis
    by (simp add: NewStateCache_def cache_abs_def lru_set_def lru_remove_def)
qed

text \<open>\<open>Get\<close> implements lookup in the same specification: a key that is absent leaves the cache as it
  is, an expired entry is removed and not returned, any other entry is returned and becomes the
  most recently used.\<close>

theorem Get_refines_lru:
  assumes "cache_inv c"
  shows "fst (Cache_Get t1 t2 c key) = fst (lru_get t1 key (cache_abs c))
    \<and> cache_abs (snd (Cache_Get t1 t2 c key)) = snd (lru_get t1 key (cache_abs c))"
  using Cache_Get_refines [OF assms] by simp

theorem Get_refines_lru_witness:
  "fst (Cache_Get 5 5 (NewStateCache (\<lambda>_. undefined) 2 Minute :: int StateCache) ''k'') = None"
proof -
  have "cache_inv (NewStateCache (\<lambda>_. undefined) 2 Minute :: int StateCache)"
    by (simp add: NewStateCache_def cache_inv_def wrap64_def)
  from Get_refines_lru [OF this, of 5 5 "''k''"] show ?thesis
    by (simp add: NewStateCache_def cache_abs_def lru_get_def)
qed

text \<open>A value stored with \<open>Set\<close> and an explicit time to live is what \<open>Get\<close> returns for that key up to
  the expiry time, and afterwards \<open>Get\<close> returns nothing for it.\<close>

theorem Get_after_Set:
  assumes "usable_cache c" and "ttl \<noteq> 0" and "Cache_Set now c key v ttl = Some c'"
  shows "fst (Cache_Get t1 t2 c' key) = (if t1 \<le> now + ttl then Some v else None)"
proof -
  have "usable_cache c'" "map_of (cache_abs c') key = Some (v, now + ttl)"
    by (rule state_cache.put_good [OF assms(1,3)], rule state_cache.put_stores [OF assms])
  then show ?thesis by (simp add: state_cache.get_value)
qed

theorem Get_after_Set_witness:
  "\<exists>c'. Cache_Set 10 (NewStateCache (\<lambda>_. undefined) 2 Minute) ''k'' (1 :: int) 5 = Some c'
     \<and> fst (Cache_Get 15 16 c' ''k'') = Some 1 \<and> fst (Cache_Get 16 16 c' ''k'') = None"
proof -
  let ?c = "NewStateCache (\<lambda>_. undefined) 2 Minute :: int StateCache"
  have u: "usable_cache ?c"
    by (simp add: usable_cache_def NewStateCache_def cache_inv_def cache_bounded_def wrap64_def)
  then obtain c' where "Cache_Set 10 ?c ''k'' 1 5 = Some c'"
    using state_cache.put_returns [OF u, of 10 "''k''" 1 5] by blast
  with Get_after_Set [OF u _ this] show ?thesis by auto
qed

text \<open>\<open>Cleanup\<close> removes exactly the entries whose expiry time has passed and keeps the order of the
  others, for every order in which the map is visited.\<close>

theorem Cleanup_removes_expired:
  assumes "cache_inv c" and "ranges_over (sc_entries c) it"
  shows "cache_abs (snd (Cache_Cleanup now it c)) = filter (\<lambda>(k, v, x). \<not> now > x) (cache_abs c)
    \<and> fst (Cache_Cleanup now it c) + Cache_Size (snd (Cache_Cleanup now it c)) = Cache_Size c"
proof -
  let ?c' = "snd (Cache_Cleanup now it c)" and ?ex = "expired_keys now c it"
  note ref = Cache_Cleanup_refines [OF assms, of now]
  have "set (map fst (filter (\<lambda>(k, v, x). now > x) (cache_abs c))) = set ?ex"
    using expired_keys_iff [OF assms] map_of_eq_Some_iff [OF cache_abs_distinct [OF assms(1)]]
    by (force simp: image_iff)
  moreover have "distinct ?ex" using assms(2) by (simp add: expired_keys_def ranges_overD)
  moreover have "distinct (map fst (filter (\<lambda>(k, v, x). now > x) (cache_abs c)))"
    using cache_abs_distinct [OF assms(1)] by (rule distinct_map_filter)
  ultimately have "length ?ex = length (filter (\<lambda>(k, v, x). now > x) (cache_abs c))"
    by (metis distinct_card length_map)
  then have "length ?ex + length (cache_abs ?c') = length (cache_abs c)"
    unfolding ref(2) using sum_length_filter_compl [of "\<lambda>(k, v, x). now > x" "cache_abs c"]
    by (simp add: case_prod_beta')
  moreover have "Cache_Size d = int (length (cache_abs d))" if "cache_inv d" for d :: "'a StateCache"
    using that by (simp add: Cache_Size_def cache_inv_len cache_abs_def)
  ultimately show ?thesis
    using assms(1) ref by (simp add: Cache_Cleanup_def Let_def)
qed

theorem Cleanup_removes_expired_witness:
  "snd (Cache_Cleanup 9 [] (NewStateCache (\<lambda>_. undefined) 2 Minute :: int StateCache))
     = NewStateCache (\<lambda>_. undefined) 2 Minute
   \<and> fst (Cache_Cleanup 9 [] (NewStateCache (\<lambda>_. undefined) 2 Minute :: int StateCache)) = 0"
proof -
  let ?c = "NewStateCache (\<lambda>_. undefined) 2 Minute :: int StateCache"
  have "cache_inv ?c" "ranges_over (sc_entries ?c) []"
    by (simp_all add: NewStateCache_def cache_inv_def wrap64_def ranges_over_def)
  from Cleanup_removes_expired [OF this, of 9] show ?thesis
    by (simp add: Cache_Cleanup_def expired_keys_def NewStateCache_def Cache_Size_def)
qed

text \<open>The eviction loop of \<open>Set\<close> is the only one that need not end: from a cache that satisfies
  the invariant it returns for every bound that is not negative and runs forever for every
  negative one (\<open>evictOldest\<close> does nothing on an empty list).\<close>

theorem evictIfNecessary_terminates_iff:
  assumes "cache_inv c"
  shows "evictIfNecessary c \<noteq> None \<longleftrightarrow> 0 \<le> sc_maxSize c"
  using evictIfNecessary_total [OF assms] evictIfNecessary_diverges [of c] by force

theorem evictIfNecessary_terminates_iff_witness:
  "evictIfNecessary (NewStateCache (\<lambda>_. undefined) (-1) Minute :: int StateCache) = None"
proof -
  have "cache_inv (NewStateCache (\<lambda>_. undefined) (-1) Minute :: int StateCache)"
    by (simp add: NewStateCache_def cache_inv_def wrap64_def)
  from evictIfNecessary_terminates_iff [OF this] show ?thesis by (simp add: NewStateCache_def)
qed

end
