(* ===== verification/Go_Heap.thy ===== *)
theory Go_Heap
  imports Go_Prelude "HOL-Library.Multiset"
begin

text \<open>
  Go's \<open>container/heap\<close>, which the task queues of the operator are built on. A client passes the
  five methods of \<open>heap.Interface\<close>; here they are the fields of a record, over the client's state
  \<open>'s\<close> and element type \<open>'x\<close>. The locale \<open>array_heap\<close> states what the methods must satisfy and
  proves, once for all clients, that the operations keep the heap order and the multiset of the
  elements and that the first element is a best one.
\<close>

section \<open>The operations\<close>

record ('s, 'x) heap_Interface =
  hLen :: "'s \<Rightarrow> nat"
  hLess :: "'s \<Rightarrow> nat \<Rightarrow> nat \<Rightarrow> bool"
  hSwap :: "'s \<Rightarrow> nat \<Rightarrow> nat \<Rightarrow> 's"
  hPush :: "'s \<Rightarrow> 'x \<Rightarrow> 's"
  hPop :: "'s \<Rightarrow> 'x \<times> 's"

text \<open>\<open>up\<close> stops at the root because \<open>(0 - 1) / 2 = 0\<close> in Go, which truncates towards zero.\<close>

function heap_up :: "('s, 'x) heap_Interface \<Rightarrow> 's \<Rightarrow> nat \<Rightarrow> 's" where
  "heap_up h s j =
     (let i = (j - 1) div 2
      in if i = j \<or> \<not> hLess h s j i then s else heap_up h (hSwap h s i j) i)"
  by pat_completeness auto
termination by (relation "measure (\<lambda>(h, s, j). j)") auto

function heap_down :: "('s, 'x) heap_Interface \<Rightarrow> 's \<Rightarrow> nat \<Rightarrow> nat \<Rightarrow> 's \<times> nat" where
  "heap_down h s i n =
     (let j1 = 2 * i + 1
      in if j1 \<ge> n then (s, i)
         else let j2 = j1 + 1; j = (if j2 < n \<and> hLess h s j2 j1 then j2 else j1)
              in if \<not> hLess h s j i then (s, i) else heap_down h (hSwap h s i j) j n)"
  by pat_completeness auto
termination by (relation "measure (\<lambda>(h, s, i, n). n - i)") (auto split: if_splits)

declare heap_up.simps [simp del] heap_down.simps [simp del]

definition heap_Init :: "('s, 'x) heap_Interface \<Rightarrow> 's \<Rightarrow> 's" where
  "heap_Init h s = fold (\<lambda>i s. fst (heap_down h s i (hLen h s))) (rev [0..<hLen h s div 2]) s"

definition heap_Push :: "('s, 'x) heap_Interface \<Rightarrow> 's \<Rightarrow> 'x \<Rightarrow> 's" where
  "heap_Push h s x = (let s' = hPush h s x in heap_up h s' (hLen h s' - 1))"

text \<open>\<open>Pop\<close> and \<open>Remove\<close> are called with a valid index only; the client's \<open>Swap\<close> would panic
  otherwise.\<close>

definition heap_Pop :: "('s, 'x) heap_Interface \<Rightarrow> 's \<Rightarrow> 'x \<times> 's" where
  "heap_Pop h s =
     (let n = hLen h s - 1; s1 = hSwap h s 0 n in hPop h (fst (heap_down h s1 0 n)))"

definition heap_Remove :: "('s, 'x) heap_Interface \<Rightarrow> 's \<Rightarrow> nat \<Rightarrow> 'x \<times> 's" where
  "heap_Remove h s i =
     (let n = hLen h s - 1
      in if n \<noteq> i
         then let s1 = hSwap h s i n; (s2, i') = heap_down h s1 i n
              in hPop h (if i' > i then s2 else heap_up h s2 i)
         else hPop h s)"

section \<open>Heap order on lists\<close>

definition swap_list :: "'a list \<Rightarrow> nat \<Rightarrow> nat \<Rightarrow> 'a list" where
  "swap_list xs i j = xs[i := xs ! j, j := xs ! i]"

lemma length_swap_list [simp]: "length (swap_list xs i j) = length xs"
  by (simp add: swap_list_def)

lemma nth_swap_list [simp]:
  "i < length xs \<Longrightarrow> j < length xs \<Longrightarrow> k < length xs \<Longrightarrow>
   swap_list xs i j ! k = (if k = i then xs ! j else if k = j then xs ! i else xs ! k)"
  by (auto simp: swap_list_def nth_list_update)

lemma mset_swap_list [simp]:
  "i < length xs \<Longrightarrow> j < length xs \<Longrightarrow> mset (swap_list xs i j) = mset xs"
  unfolding swap_list_def by (rule mset_swap)

lemma drop_swap_list [simp]: "i < n \<Longrightarrow> j < n \<Longrightarrow> drop n (swap_list xs i j) = drop n xs"
  by (simp add: swap_list_def)

lemma last_swap_list: "i < length xs \<Longrightarrow> last (swap_list xs i (length xs - 1)) = xs ! i"
  by (cases "xs = []") (auto simp: last_conv_nth swap_list_def nth_list_update)

lemma map_swap_list:
  "i < length xs \<Longrightarrow> j < length xs \<Longrightarrow> map f (swap_list xs i j) = swap_list (map f xs) i j"
  by (simp add: swap_list_def map_update)

definition parent :: "nat \<Rightarrow> nat" where
  "parent k = (k - 1) div 2"

lemma parent_less: "0 < k \<Longrightarrow> parent k < k"
  by (simp add: parent_def)

lemma parent_le: "parent k \<le> k"
  by (simp add: parent_def)

lemma parent_eq_iff: "0 < k \<Longrightarrow> parent k = i \<longleftrightarrow> k = 2 * i + 1 \<or> k = 2 * i + 2"
  unfolding parent_def by presburger

lemma parent_0 [simp]: "parent 0 = 0"
  by (simp add: parent_def)

text \<open>The interface a client provides: \<open>keys\<close> is the sequence of its elements as \<open>lt\<close> compares
  them, \<open>good\<close> an invariant of its own that the methods keep.\<close>

locale array_heap =
  fixes h :: "('s, 'x) heap_Interface"
    and keys :: "'s \<Rightarrow> 'k list"
    and key :: "'x \<Rightarrow> 'k"
    and lt :: "'k \<Rightarrow> 'k \<Rightarrow> bool"
    and good :: "'s \<Rightarrow> bool"
    and fresh :: "'s \<Rightarrow> 'x \<Rightarrow> bool"
  assumes lt_asym: "lt x y \<Longrightarrow> \<not> lt y x"
    and lt_negtrans: "\<not> lt x y \<Longrightarrow> \<not> lt y z \<Longrightarrow> \<not> lt x z"
    and len: "good s \<Longrightarrow> hLen h s = length (keys s)"
    and less: "good s \<Longrightarrow> i < length (keys s) \<Longrightarrow> j < length (keys s) \<Longrightarrow>
      hLess h s i j = lt (keys s ! i) (keys s ! j)"
    and swap: "good s \<Longrightarrow> i < length (keys s) \<Longrightarrow> j < length (keys s) \<Longrightarrow>
      good (hSwap h s i j) \<and> keys (hSwap h s i j) = swap_list (keys s) i j"
    and push: "good s \<Longrightarrow> fresh s e \<Longrightarrow> good (hPush h s e) \<and> keys (hPush h s e) = keys s @ [key e]"
    and pop: "good s \<Longrightarrow> keys s \<noteq> [] \<Longrightarrow> hPop h s = (e, s') \<Longrightarrow>
      good s' \<and> keys s' = butlast (keys s) \<and> key e = last (keys s)"
begin

definition le :: "'k \<Rightarrow> 'k \<Rightarrow> bool" where
  "le x y \<longleftrightarrow> \<not> lt y x"

lemma le_trans: "le x y \<Longrightarrow> le y z \<Longrightarrow> le x z"
  unfolding le_def using lt_negtrans by blast

lemma le_refl: "le x x"
  unfolding le_def using lt_asym by blast

lemma lt_le: "lt x y \<Longrightarrow> le x y"
  unfolding le_def by (rule lt_asym)

lemma not_lt: "\<not> lt x y \<longleftrightarrow> le y x"
  by (simp add: le_def)

text \<open>The first \<open>n\<close> keys are in heap order; all pairs but those at \<open>i\<close>; the pairs below \<open>i\<close>; the
  pair above \<open>i\<close>.\<close>

definition heap_on :: "'k list \<Rightarrow> nat \<Rightarrow> bool" where
  "heap_on ks n \<longleftrightarrow> (\<forall>k. 0 < k \<and> k < n \<longrightarrow> le (ks ! parent k) (ks ! k))"

definition hole :: "'k list \<Rightarrow> nat \<Rightarrow> nat \<Rightarrow> bool" where
  "hole ks n i \<longleftrightarrow>
     (\<forall>k. 0 < k \<and> k < n \<and> k \<noteq> i \<and> parent k \<noteq> i \<longrightarrow> le (ks ! parent k) (ks ! k))
     \<and> (\<forall>k. 0 < k \<and> k < n \<and> parent k = i \<and> 0 < i \<longrightarrow> le (ks ! parent i) (ks ! k))"

definition kids_ok :: "'k list \<Rightarrow> nat \<Rightarrow> nat \<Rightarrow> bool" where
  "kids_ok ks n i \<longleftrightarrow> (\<forall>k. 0 < k \<and> k < n \<and> parent k = i \<longrightarrow> le (ks ! i) (ks ! k))"

definition up_ok :: "'k list \<Rightarrow> nat \<Rightarrow> bool" where
  "up_ok ks i \<longleftrightarrow> (0 < i \<longrightarrow> le (ks ! parent i) (ks ! i))"

lemma heap_on_from_hole: "hole ks n i \<Longrightarrow> kids_ok ks n i \<Longrightarrow> up_ok ks i \<Longrightarrow> heap_on ks n"
  unfolding heap_on_def
proof (intro allI impI)
  fix k assume "hole ks n i" "kids_ok ks n i" "up_ok ks i" "0 < k \<and> k < n"
  then show "le (ks ! parent k) (ks ! k)"
    by (cases "k = i"; cases "parent k = i") (simp_all add: hole_def kids_ok_def up_ok_def)
qed

lemma hole_from_heap_on: "heap_on ks n \<Longrightarrow> i < n \<Longrightarrow> hole ks n i"
  unfolding hole_def heap_on_def
proof (intro conjI allI impI)
  assume h: "\<forall>k. 0 < k \<and> k < n \<longrightarrow> le (ks ! parent k) (ks ! k)" and "i < n"
  then show "le (ks ! parent i) (ks ! k)" if "0 < k \<and> k < n \<and> parent k = i \<and> 0 < i" for k
    using that le_trans [of "ks ! parent i" "ks ! i" "ks ! k"] by auto
qed simp

lemma heap_on_top: "heap_on ks n \<Longrightarrow> k < n \<Longrightarrow> le (ks ! 0) (ks ! k)"
proof (induction k rule: less_induct)
  case (less k)
  show ?case
  proof (cases "k = 0")
    case False
    then have "le (ks ! 0) (ks ! parent k)" using less parent_less [of k] by simp
    moreover have "le (ks ! parent k) (ks ! k)" using less.prems False by (simp add: heap_on_def)
    ultimately show ?thesis by (rule le_trans)
  qed (simp add: le_refl)
qed

lemma hole_up:
  assumes "hole ks n j" "kids_ok ks n j" "j < n" "n \<le> length ks" "0 < j" "lt (ks ! j) (ks ! parent j)"
  defines "ks' \<equiv> swap_list ks (parent j) j"
  shows "hole ks' n (parent j)" and "kids_ok ks' n (parent j)"
proof -
  let ?i = "parent j"
  have ix: "?i < j" "?i < length ks" "j < length ks" using assms parent_less [of j] by simp_all
  have nth: "ks' ! k = (if k = ?i then ks ! j else if k = j then ks ! ?i else ks ! k)" if "k < n" for k
    using that assms ix by simp
  have below: "k < n \<Longrightarrow> parent k < n" for k using parent_le [of k] by (rule le_less_trans)
  have pairs: "le (ks ! parent k) (ks ! k)" if "0 < k" "k < n" "k \<noteq> j" for k
    using assms that by (cases "parent k = j") (auto simp: hole_def kids_ok_def)
  have over: "le (ks ! ?i) (ks ! k)" if "0 < k" "k < n" "parent k = j" for k
    using assms that by (simp add: hole_def)
  show "kids_ok ks' n ?i"
    unfolding kids_ok_def
  proof (intro allI impI)
    fix k assume k: "0 < k \<and> k < n \<and> parent k = ?i"
    then have "?i < k" using parent_less [of k] by simp
    moreover have "k \<noteq> j \<Longrightarrow> le (ks ! j) (ks ! k)"
      using pairs [of k] k lt_le [OF assms(6)] le_trans by simp
    ultimately show "le (ks' ! ?i) (ks' ! k)" using k ix assms(3) lt_le [OF assms(6)] by (simp add: nth)
  qed
  show "hole ks' n ?i"
    unfolding hole_def
  proof (intro conjI allI impI)
    fix k assume "0 < k \<and> k < n \<and> k \<noteq> ?i \<and> parent k \<noteq> ?i"
    then show "le (ks' ! parent k) (ks' ! k)" using pairs over below [of k] by (auto simp: nth)
  next
    fix k assume k: "0 < k \<and> k < n \<and> parent k = ?i \<and> 0 < ?i"
    then have "le (ks ! parent ?i) (ks ! ?i)" using pairs ix assms(3) by simp
    moreover have "k \<noteq> j \<Longrightarrow> le (ks ! ?i) (ks ! k)" using pairs [of k] k by simp
    moreover have "parent ?i < ?i" "k \<noteq> ?i" using k parent_less [of k] parent_less [of ?i] by auto
    ultimately show "le (ks' ! parent ?i) (ks' ! k)"
      using k ix assms(3) by (auto simp: nth intro: le_trans)
  qed
qed

lemma hole_down:
  assumes "hole ks n i" "0 < j" "parent j = i" "j < n" "n \<le> length ks" "lt (ks ! j) (ks ! i)"
    and best: "\<And>k. 0 < k \<Longrightarrow> k < n \<Longrightarrow> parent k = i \<Longrightarrow> le (ks ! j) (ks ! k)"
  defines "ks' \<equiv> swap_list ks i j"
  shows "hole ks' n j" and "up_ok ks' j"
proof -
  have ix: "i < j" "i < length ks" "j < length ks" using assms parent_less [of j] by simp_all
  have nth: "ks' ! k = (if k = i then ks ! j else if k = j then ks ! i else ks ! k)" if "k < n" for k
    using that assms ix by simp
  have below: "k < n \<Longrightarrow> parent k < n" for k using parent_le [of k] by (rule le_less_trans)
  show "up_ok ks' j"
    using assms(3,4) ix lt_le [OF assms(6)] by (simp add: up_ok_def nth)
  show "hole ks' n j"
    unfolding hole_def
  proof (intro conjI allI impI)
    fix k assume k: "0 < k \<and> k < n \<and> k \<noteq> j \<and> parent k \<noteq> j"
    consider "k = i" | "k \<noteq> i" "parent k = i" | "k \<noteq> i" "parent k \<noteq> i" by blast
    then show "le (ks' ! parent k) (ks' ! k)"
    proof cases
      case 1
      then have "parent k \<noteq> i" using k parent_less [of k] by simp
      with 1 k assms(1-4) below [of k] show ?thesis by (simp add: nth hole_def)
    next
      case 2
      with k best [of k] below [of k] show ?thesis by (simp add: nth)
    next
      case 3
      with k assms(1) below [of k] show ?thesis by (simp add: nth hole_def)
    qed
  next
    fix k assume k: "0 < k \<and> k < n \<and> parent k = j \<and> 0 < j"
    then have ki: "k \<noteq> i" "k \<noteq> j" "i < n" using ix parent_less [of k] by auto
    then have "le (ks ! parent k) (ks ! k)" using k assms(1) ix unfolding hole_def by blast
    with k ki assms(3) ix show "le (ks' ! parent j) (ks' ! k)" by (simp add: nth hole_def)
  qed
qed

lemma heap_up_cases:
  assumes "good s" "j < length (keys s)"
  obtains "heap_up h s j = s" "up_ok (keys s) j"
  | "0 < j" "lt (keys s ! j) (keys s ! parent j)"
    "heap_up h s j = heap_up h (hSwap h s (parent j) j) (parent j)"
    "good (hSwap h s (parent j) j)" "keys (hSwap h s (parent j) j) = swap_list (keys s) (parent j) j"
proof (cases "0 < j \<and> lt (keys s ! j) (keys s ! parent j)")
  case True
  then have i: "parent j < j" "parent j < length (keys s)" using assms(2) parent_less [of j] by auto
  with assms True have "hLess h s j (parent j)" by (simp add: less)
  with i have "heap_up h s j = heap_up h (hSwap h s (parent j) j) (parent j)"
    by (subst heap_up.simps) (simp add: Let_def parent_def)
  with True swap [OF assms(1) i(2) assms(2)] show ?thesis by (intro that(2)) auto
next
  case False
  have "parent j = j \<or> \<not> hLess h s j (parent j)"
    using False assms parent_le [of j] by (cases "j = 0") (auto simp: less)
  then have "heap_up h s j = s" by (subst heap_up.simps) (simp add: Let_def parent_def)
  with False show ?thesis by (intro that(1)) (auto simp: up_ok_def not_lt)
qed

lemma heap_up_frame:
  assumes "good s" "j < n" "n \<le> length (keys s)"
  shows "good (heap_up h s j) \<and> mset (keys (heap_up h s j)) = mset (keys s)
     \<and> drop n (keys (heap_up h s j)) = drop n (keys s)"
  using assms
proof (induction j arbitrary: s rule: less_induct)
  case (less j)
  then have j: "j < length (keys s)" by simp
  show ?case
    using less.prems(1) j
  proof (cases rule: heap_up_cases)
    case 2
    then have p: "parent j < j" by (simp add: parent_less)
    from less.IH [OF p 2(4)] 2(3,5) j p less.prems show ?thesis by simp
  qed (use less.prems in simp)
qed

lemma heap_up_heap:
  assumes "good s" "j < n" "n \<le> length (keys s)" "hole (keys s) n j" "kids_ok (keys s) n j"
  shows "heap_on (keys (heap_up h s j)) n"
  using assms
proof (induction j arbitrary: s rule: less_induct)
  case (less j)
  then have j: "j < length (keys s)" by simp
  show ?case
    using less.prems(1) j
  proof (cases rule: heap_up_cases)
    case 1
    with less.prems show ?thesis by (simp add: heap_on_from_hole)
  next
    case 2
    then have p: "parent j < j" by (simp add: parent_less)
    from hole_up [OF less.prems(4,5,2,3) 2(1,2)] less.IH [OF p 2(4)] 2(3,5) p less.prems
    show ?thesis by simp
  qed
qed

lemma heap_down_cases:
  assumes "good s" "i < n" "n \<le> length (keys s)"
  obtains "heap_down h s i n = (s, i)" "kids_ok (keys s) n i"
  | j where "0 < j" "parent j = i" "i < j" "j < n" "lt (keys s ! j) (keys s ! i)"
    "\<And>k. 0 < k \<Longrightarrow> k < n \<Longrightarrow> parent k = i \<Longrightarrow> le (keys s ! j) (keys s ! k)"
    "heap_down h s i n = heap_down h (hSwap h s i j) j n"
    "good (hSwap h s i j)" "keys (hSwap h s i j) = swap_list (keys s) i j"
proof (cases "2 * i + 1 \<ge> n")
  case True
  then have "heap_down h s i n = (s, i)" by (subst heap_down.simps) (simp add: Let_def)
  moreover have "kids_ok (keys s) n i"
    unfolding kids_ok_def
  proof (intro allI impI)
    fix k assume k: "0 < k \<and> k < n \<and> parent k = i"
    then have "k = 2 * i + 1 \<or> k = 2 * i + 2" using parent_eq_iff by blast
    with k True show "le (keys s ! i) (keys s ! k)" by simp
  qed
  ultimately show ?thesis by (rule that(1))
next
  case False
  define j where "j = (if 2 * i + 2 < n \<and> hLess h s (2 * i + 2) (2 * i + 1) then 2 * i + 2 else 2 * i + 1)"
  have j: "0 < j" "i < j" "j < n" "j < length (keys s)" "i < length (keys s)"
    using False assms by (auto simp: j_def)
  then have par: "parent j = i" by (simp add: parent_eq_iff j_def)
  have best: "le (keys s ! j) (keys s ! k)" if "0 < k" "k < n" "parent k = i" for k
    using that False assms by (auto simp: parent_eq_iff j_def less le_refl lt_le not_lt)
  have down: "heap_down h s i n = (if \<not> hLess h s j i then (s, i) else heap_down h (hSwap h s i j) j n)"
    using False by (subst heap_down.simps) (simp add: Let_def j_def)
  show ?thesis
  proof (cases "lt (keys s ! j) (keys s ! i)")
    case True
    with down j assms swap [OF assms(1) j(5,4)] show ?thesis
      by (intro that(2) [OF j(1) par j(2,3) True best]) (auto simp: less)
  next
    case False
    with down j assms best show ?thesis
      by (intro that(1)) (auto simp: less kids_ok_def not_lt intro: le_trans)
  qed
qed

lemma heap_down_frame:
  assumes "good s" "i < n" "n \<le> length (keys s)" "heap_down h s i n = (s', i')"
  shows "good s' \<and> mset (keys s') = mset (keys s) \<and> drop n (keys s') = drop n (keys s)
      \<and> i \<le> i' \<and> (i' = i \<longrightarrow> s' = s \<and> kids_ok (keys s) n i)"
  using assms
proof (induction "n - i" arbitrary: s i rule: less_induct)
  case less
  show ?case
    using less.prems(1-3)
  proof (cases rule: heap_down_cases)
    case (2 j)
    then have "n - j < n - i" by simp
    from less.hyps [OF this 2(8,4)] 2(3,4,7,9) less.prems show ?thesis by simp
  qed (use less.prems in simp)
qed

lemma heap_down_heap:
  assumes "good s" "i < n" "n \<le> length (keys s)" "heap_down h s i n = (s', i')"
    and "hole (keys s) n i" "up_ok (keys s) i \<or> i < i'"
  shows "heap_on (keys s') n"
  using assms
proof (induction "n - i" arbitrary: s i rule: less_induct)
  case less
  show ?case
    using less.prems(1-3)
  proof (cases rule: heap_down_cases)
    case 1
    with less.prems show ?thesis by (auto intro: heap_on_from_hole)
  next
    case (2 j)
    then have lt: "n - j < n - i" by simp
    note below = hole_down [OF less.prems(5) 2(1,2,4) less.prems(3) 2(5,6)]
    show ?thesis
    proof (rule less.hyps [OF lt 2(8,4)])
      show "heap_down h (hSwap h s i j) j n = (s', i')" using 2(7) less.prems(4) by (rule subst)
      show "up_ok (keys (hSwap h s i j)) j \<or> j < i'" unfolding 2(9) by (rule disjI1 [OF below(2)])
    qed (simp_all only: 2(9) below length_swap_list less.prems(3))
  qed
qed

text \<open>The operations of the package.\<close>

abbreviation heap_ok :: "'s \<Rightarrow> bool" where
  "heap_ok s \<equiv> good s \<and> heap_on (keys s) (length (keys s))"

lemma heap_Push_ok:
  assumes "heap_ok s" "fresh s e"
  shows "heap_ok (heap_Push h s e)" "mset (keys (heap_Push h s e)) = add_mset (key e) (mset (keys s))"
proof -
  let ?s = "hPush h s e" and ?n = "length (keys s)"
  have s: "good ?s" "keys ?s = keys s @ [key e]" using assms push by blast+
  then have eq: "heap_Push h s e = heap_up h ?s ?n" by (simp add: heap_Push_def Let_def len)
  have "hole (keys ?s) (Suc ?n) ?n"
    unfolding hole_def
  proof (intro conjI allI impI)
    fix k assume "0 < k \<and> k < Suc ?n \<and> k \<noteq> ?n \<and> parent k \<noteq> ?n"
    then show "le (keys ?s ! parent k) (keys ?s ! k)"
      using assms parent_less [of k] by (simp add: s(2) heap_on_def nth_append)
  next
    fix k assume "0 < k \<and> k < Suc ?n \<and> parent k = ?n \<and> 0 < ?n"
    then show "le (keys ?s ! parent ?n) (keys ?s ! k)" using parent_less [of k] by simp
  qed
  moreover have "kids_ok (keys ?s) (Suc ?n) ?n"
    unfolding kids_ok_def by (metis less_Suc_eq_le not_le parent_less)
  moreover note heap_up_frame [of ?s ?n "Suc ?n"] heap_up_heap [of ?s ?n "Suc ?n"]
  ultimately have "good (heap_up h ?s ?n)" "mset (keys (heap_up h ?s ?n)) = mset (keys ?s)"
    "heap_on (keys (heap_up h ?s ?n)) (Suc ?n)"
    using s by simp_all
  moreover from this(2) have "length (keys (heap_up h ?s ?n)) = Suc ?n"
    using s by (metis length_append_singleton mset_eq_length)
  ultimately show "heap_ok (heap_Push h s e)"
    "mset (keys (heap_Push h s e)) = add_mset (key e) (mset (keys s))"
    unfolding eq using s by simp_all
qed

text \<open>What \<open>Pop\<close> and \<open>Remove\<close> do at the end: the last element leaves.\<close>

lemma hPop_last:
  assumes "good s" "keys s \<noteq> []" "hPop h s = (e, s')" "heap_on (keys s) (length (keys s) - 1)"
  shows "heap_ok s'" "mset (keys s) = add_mset (key e) (mset (keys s'))" "key e = last (keys s)"
proof -
  from pop [OF assms(1-3)] have p: "good s'" "keys s' = butlast (keys s)" "key e = last (keys s)" by auto
  then show "key e = last (keys s)" by simp
  have "keys s = keys s' @ [key e]" using p assms(2) by simp
  then show "mset (keys s) = add_mset (key e) (mset (keys s'))" by (metis mset.simps(2) mset_append mset_rev rev.simps(2) rev_rev_ident)
  show "heap_ok s'"
    unfolding heap_on_def
  proof (intro conjI allI impI p(1))
    fix k assume k: "0 < k \<and> k < length (keys s')"
    then have "parent k < length (keys s')" using parent_less [of k] by simp
    with k p(2) assms(4) show "le (keys s' ! parent k) (keys s' ! k)"
      by (simp add: nth_butlast heap_on_def)
  qed
qed

lemma heap_on_le: "heap_on ks n \<Longrightarrow> m \<le> n \<Longrightarrow> heap_on ks m"
  by (simp add: heap_on_def)

lemma same_drop_last:
  assumes "drop n xs = drop n ys" "n < length ys" shows "last xs = last ys"
  using assms by (metis drop_eq_Nil last_drop not_le)

lemma hole_swap:
  assumes "heap_on ks (length ks)" "i < length ks - 1"
  shows "hole (swap_list ks i (length ks - 1)) (length ks - 1) i"
proof -
  let ?n = "length ks - 1"
  have nth: "swap_list ks i ?n ! k = ks ! k" if "k < ?n" "k \<noteq> i" for k
    using that assms(2) by simp
  have below: "k < ?n \<Longrightarrow> parent k < ?n" for k using parent_le [of k] by (rule le_less_trans)
  have heap: "le (ks ! parent k) (ks ! k)" if "0 < k" "k < ?n" for k
    using assms(1) that by (simp add: heap_on_def)
  show ?thesis
    unfolding hole_def
  proof (intro conjI allI impI)
    fix k assume k: "0 < k \<and> k < ?n \<and> k \<noteq> i \<and> parent k \<noteq> i"
    with nth [of k] nth [of "parent k"] below [of k] heap [of k]
    show "le (swap_list ks i ?n ! parent k) (swap_list ks i ?n ! k)" by simp
  next
    fix k assume k: "0 < k \<and> k < ?n \<and> parent k = i \<and> 0 < i"
    then have "i < k" "parent i < i" using parent_less by auto
    then have "swap_list ks i ?n ! k = ks ! k" "swap_list ks i ?n ! parent i = ks ! parent i"
      using k assms(2) by (auto intro: nth)
    with k heap [of k] heap [of i] assms(2) le_trans [of _ "ks ! i"]
    show "le (swap_list ks i ?n ! parent i) (swap_list ks i ?n ! k)" by simp
  qed
qed

lemma heap_Pop_ok:
  assumes "heap_ok s" "keys s \<noteq> []" "heap_Pop h s = (e, s')"
  shows "heap_ok s'" "mset (keys s) = add_mset (key e) (mset (keys s'))" "key e = keys s ! 0"
    "\<And>k. k \<in> set (keys s) \<Longrightarrow> le (key e) k"
proof -
  let ?n = "length (keys s) - 1" and ?s = "hSwap h s 0 (length (keys s) - 1)"
  have s: "good ?s" "keys ?s = swap_list (keys s) 0 ?n" using assms swap [of s 0 ?n] by simp_all
  obtain s2 i' where d: "heap_down h ?s 0 ?n = (s2, i')" by fastforce
  have s2: "good s2 \<and> mset (keys s2) = mset (keys ?s) \<and> drop ?n (keys s2) = drop ?n (keys ?s)
      \<and> heap_on (keys s2) ?n"
  proof (cases "?n = 0")
    case True
    then have "s2 = ?s" using d by (subst (asm) heap_down.simps) simp
    with True s show ?thesis by (simp add: heap_on_def)
  next
    case False
    then have "hole (keys ?s) ?n 0" using hole_swap [of "keys s" 0] assms(1) s(2) by simp
    then show ?thesis
      using heap_down_frame [OF s(1) _ _ d] heap_down_heap [OF s(1) _ _ d] False s(2)
      by (simp add: up_ok_def)
  qed
  then have len2: "length (keys s2) = length (keys s)" using s(2) assms(2)
    by (metis length_swap_list mset_eq_length)
  then have ne: "keys s2 \<noteq> []" using assms(2) by auto
  have pop2: "hPop h s2 = (e, s')" using assms d by (simp add: heap_Pop_def len)
  from s2 len2 have "heap_on (keys s2) (length (keys s2) - 1)" by simp
  note out = hPop_last [OF _ ne pop2 this]
  have "last (keys s2) = last (keys ?s)"
    using s2 s(2) assms(2) by (intro same_drop_last [of ?n]) auto
  also have "\<dots> = keys s ! 0" unfolding s(2) using assms(2) by (intro last_swap_list) simp
  finally show top: "key e = keys s ! 0" using out s2 by simp
  show "heap_ok s'" using out s2 by simp
  show "mset (keys s) = add_mset (key e) (mset (keys s'))" using out s2 s(2) assms(2) by simp
  show "le (key e) k" if "k \<in> set (keys s)" for k
    using that assms(1) top by (auto simp: in_set_conv_nth intro: heap_on_top)
qed

lemma heap_Remove_ok:
  assumes "heap_ok s" "i < length (keys s)" "heap_Remove h s i = (e, s')"
  shows "heap_ok s'" "mset (keys s) = add_mset (key e) (mset (keys s'))" "key e = keys s ! i"
proof -
  let ?n = "length (keys s) - 1"
  have "\<exists>s3. hPop h s3 = (e, s') \<and> good s3 \<and> mset (keys s3) = mset (keys s) \<and> heap_on (keys s3) ?n
      \<and> last (keys s3) = keys s ! i"
  proof (cases "?n = i")
    case True
    then have "last (keys s) = keys s ! i" using assms(2) by (subst last_conv_nth) auto
    moreover have "hPop h s = (e, s')" using assms True by (simp add: heap_Remove_def len)
    ultimately show ?thesis using assms(1) heap_on_le by (intro exI [of _ s]) auto
  next
    case False
    let ?s = "hSwap h s i ?n"
    have i: "i < ?n" "?n \<le> length (keys ?s)" "length (keys ?s) = length (keys s)"
      and s: "good ?s" "keys ?s = swap_list (keys s) i ?n"
      using assms False swap [of s i ?n] by auto
    obtain s2 i' where d: "heap_down h ?s i ?n = (s2, i')" by fastforce
    note fr = heap_down_frame [OF s(1) i(1,2) d]
    have hole: "hole (keys ?s) ?n i" using hole_swap [of "keys s" i] assms i s(2) by simp
    let ?s3 = "if i' > i then s2 else heap_up h s2 i"
    have "good ?s3 \<and> mset (keys ?s3) = mset (keys ?s) \<and> drop ?n (keys ?s3) = drop ?n (keys ?s)
        \<and> heap_on (keys ?s3) ?n"
    proof (cases "i' > i")
      case True
      with fr heap_down_heap [OF s(1) i(1,2) d hole] show ?thesis by simp
    next
      case False
      with fr have "i' = i" "s2 = ?s" "kids_ok (keys ?s) ?n i" by auto
      with heap_up_frame [OF s(1) i(1,2)] heap_up_heap [OF s(1) i(1,2) hole] show ?thesis by simp
    qed
    moreover have "hPop h ?s3 = (e, s')"
      using assms i(1) d by (simp add: heap_Remove_def len)
    moreover have "last (keys ?s) = keys s ! i"
      unfolding s(2) using assms(2) by (rule last_swap_list)
    moreover have "mset (keys ?s) = mset (keys s)" using i s(2) by simp
    ultimately show ?thesis
      using same_drop_last [of ?n "keys ?s3" "keys ?s"] i by (intro exI [of _ ?s3]) auto
  qed
  then obtain s3 where s3: "hPop h s3 = (e, s')" "good s3" "mset (keys s3) = mset (keys s)"
    "heap_on (keys s3) ?n" "last (keys s3) = keys s ! i" by blast
  then have len3: "length (keys s3) = length (keys s)" by (metis mset_eq_length)
  then have "keys s3 \<noteq> []" using assms(2) by auto
  note out = hPop_last [OF s3(2) this s3(1)]
  from out(1,2,3) s3 len3 show "heap_ok s'"
    "mset (keys s) = add_mset (key e) (mset (keys s'))" "key e = keys s ! i" by simp_all
qed

end

end
