(* ===== verification/Go_Json.thy ===== *)
theory Go_Json
  imports Go_Prelude "HOL-Library.Finite_Map"
begin

text \<open>
  JSON values as \<open>encoding/json\<close> decodes them into an empty interface: numbers are \<open>float64\<close>, objects
  are maps. A \<open>json.RawMessage\<close> is known by what \<open>json.Unmarshal\<close> makes of it: a value or an error.
\<close>

datatype json =
    Json_null | Json_bool bool | Json_number rat | Json_string string
  | Json_array "json list" | Json_object "(string, json) fmap"

datatype RawMessage = Raw json | Raw_invalid

text \<open>\<open>json.Unmarshal\<close> into a variable of type \<open>map[string]interface{}\<close>: \<open>null\<close> leaves the map nil
  without an error, any other value that is not an object is an error.\<close>

datatype decoded_map = Decoded "(string, json) fmap" | Decoded_nil | Decode_error

fun unmarshal_map :: "RawMessage \<Rightarrow> decoded_map" where
  "unmarshal_map (Raw (Json_object m)) = Decoded m"
| "unmarshal_map (Raw Json_null) = Decoded_nil"
| "unmarshal_map _ = Decode_error"

end
