(* ===== verification/Execution_Queue.thy ===== *)
theory Execution_Queue
  imports Go_Heap Go_Json
begin

text \<open>
  The execution queue of the coordination manager (\<open>pkg/shared/execution_queue.go\<close>): tasks wait
  in a priority heap, a background processor moves them to a channel, and maps from task keys
  to tasks track which are pending, active and completed. Tasks are shared pointers, so the
  queue holds addresses into a store of tasks, and \<open>Swap\<close>, \<open>Push\<close>, \<open>Pop\<close> and \<open>FailTask\<close> write to
  that store. The heap operations are those of \<open>Go_Heap\<close>.
\<close>

section \<open>Model\<close>

record NamespacedName =
  nn_Namespace :: string
  nn_Name :: string

record ExecutionTask =
  et_IntentName :: NamespacedName
  et_Phase :: string
  et_Priority :: int
  et_Timestamp :: time
  et_Context :: "RawMessage option"
  et_RetryCount :: int
  et_MaxRetries :: int
  et_Dependencies :: "string list"
  et_index :: int

type_synonym task_mem = "addr \<Rightarrow> ExecutionTask"

subsection \<open>The task heap\<close>

text \<open>\<open>Less\<close> on two tasks: the higher priority first, then the older task.\<close>

definition task_before :: "ExecutionTask \<Rightarrow> ExecutionTask \<Rightarrow> bool" where
  "task_before t u =
     (if et_Priority t \<noteq> et_Priority u then et_Priority t > et_Priority u
      else et_Timestamp t < et_Timestamp u)"

definition set_index :: "task_mem \<Rightarrow> addr \<Rightarrow> int \<Rightarrow> task_mem" where
  "set_index m a i = m(a := (m a)\<lparr>et_index := i\<rparr>)"

definition TaskHeap_Len :: "task_mem \<times> addr list \<Rightarrow> nat" where
  "TaskHeap_Len s = length (snd s)"

definition TaskHeap_Less :: "task_mem \<times> addr list \<Rightarrow> nat \<Rightarrow> nat \<Rightarrow> bool" where
  "TaskHeap_Less s i j = task_before (fst s (snd s ! i)) (fst s (snd s ! j))"

definition TaskHeap_Swap :: "task_mem \<times> addr list \<Rightarrow> nat \<Rightarrow> nat \<Rightarrow> task_mem \<times> addr list" where
  "TaskHeap_Swap s i j =
     (let h = swap_list (snd s) i j in (set_index (set_index (fst s) (h ! i) (int i)) (h ! j) (int j), h))"

definition TaskHeap_Push :: "task_mem \<times> addr list \<Rightarrow> addr \<Rightarrow> task_mem \<times> addr list" where
  "TaskHeap_Push s task = (set_index (fst s) task (int (length (snd s))), snd s @ [task])"

definition TaskHeap_Pop :: "task_mem \<times> addr list \<Rightarrow> addr \<times> task_mem \<times> addr list" where
  "TaskHeap_Pop s =
     (let task = last (snd s) in (task, set_index (fst s) task (-1), butlast (snd s)))"

definition TaskHeap :: "(task_mem \<times> addr list, addr) heap_Interface" where
  "TaskHeap = \<lparr>hLen = TaskHeap_Len, hLess = TaskHeap_Less, hSwap = TaskHeap_Swap,
               hPush = TaskHeap_Push, hPop = TaskHeap_Pop\<rparr>"

subsection \<open>The queue\<close>

record ExecutionQueue =
  eq_mem :: task_mem
  eq_heap :: "addr list"
  eq_channel :: "addr list"
  eq_capacity :: int
  eq_activeTasks :: "(string, addr) fmap"
  eq_pendingTasks :: "(string, addr) fmap"
  eq_completedTasks :: "(string, addr) fmap"
  eq_enqueuedCount :: int
  eq_dequeuedCount :: int
  eq_droppedCount :: int
  eq_maxPendingTasks :: int
  eq_taskTimeout :: duration

datatype queue_error =
    TaskAlreadyActive string
  | TaskAlreadyPending string
  | QueueAtCapacity
  | QueueEmpty
  | TaskFailed int string
  | TaskNotFound string

definition set_heap :: "ExecutionQueue \<Rightarrow> task_mem \<times> addr list \<Rightarrow> ExecutionQueue" where
  "set_heap q s = q\<lparr>eq_mem := fst s, eq_heap := snd s\<rparr>"

definition NewExecutionQueue :: "task_mem \<Rightarrow> int \<Rightarrow> ExecutionQueue outcome" where
  "NewExecutionQueue m capacity =
     (if capacity < 0 then Panic ''makechan: size out of range''
      else let q = \<lparr>eq_mem = m, eq_heap = [], eq_channel = [], eq_capacity = capacity,
                    eq_activeTasks = fmempty, eq_pendingTasks = fmempty, eq_completedTasks = fmempty,
                    eq_enqueuedCount = 0, eq_dequeuedCount = 0, eq_droppedCount = 0,
                    eq_maxPendingTasks = wrap64 (capacity * 2), eq_taskTimeout = 30 * Minute\<rparr>
           in Ret (set_heap q (heap_Init TaskHeap (eq_mem q, eq_heap q))))"

definition task_key :: "NamespacedName \<Rightarrow> string \<Rightarrow> string" where
  "task_key n phase = nn_Namespace n @ ''/'' @ nn_Name n @ '':'' @ phase"

definition getTaskKey :: "ExecutionTask \<Rightarrow> string" where
  "getTaskKey t = task_key (et_IntentName t) (et_Phase t)"

text \<open>Operations that only report an error return it as an option; \<open>None\<close> is Go's \<open>nil\<close>.\<close>

definition Enqueue :: "ExecutionQueue \<Rightarrow> addr \<Rightarrow> queue_error option \<times> ExecutionQueue" where
  "Enqueue q task =
     (let taskKey = getTaskKey (eq_mem q task)
      in if fmlookup (eq_activeTasks q) taskKey \<noteq> None then (Some (TaskAlreadyActive taskKey), q)
         else if fmlookup (eq_pendingTasks q) taskKey \<noteq> None then (Some (TaskAlreadyPending taskKey), q)
         else if map_len (eq_pendingTasks q) \<ge> eq_maxPendingTasks q
           then (Some QueueAtCapacity, q\<lparr>eq_droppedCount := inc64 (eq_droppedCount q)\<rparr>)
         else let q1 = q\<lparr>eq_pendingTasks := fmupd taskKey task (eq_pendingTasks q)\<rparr>;
                  q2 = set_heap q1 (heap_Push TaskHeap (eq_mem q1, eq_heap q1) task)
              in (None, q2\<lparr>eq_enqueuedCount := inc64 (eq_enqueuedCount q2)\<rparr>))"

definition Dequeue :: "ExecutionQueue \<Rightarrow> (queue_error + addr) \<times> ExecutionQueue" where
  "Dequeue q =
     (if eq_heap q = [] then (Inl QueueEmpty, q)
      else let (task, s) = heap_Pop TaskHeap (eq_mem q, eq_heap q);
               q1 = set_heap q s;
               taskKey = getTaskKey (eq_mem q1 task)
           in (Inr task,
               q1\<lparr>eq_pendingTasks := fmdrop taskKey (eq_pendingTasks q1),
                  eq_activeTasks := fmupd taskKey task (eq_activeTasks q1),
                  eq_dequeuedCount := inc64 (eq_dequeuedCount q1)\<rparr>))"

text \<open>When the history exceeds 1000 entries, the first 100 keys that the loop over the map happens to
  visit are deleted; \<open>it\<close> is the order of that loop.\<close>

definition CompleteTask :: "string list \<Rightarrow> ExecutionQueue \<Rightarrow> addr \<Rightarrow> ExecutionQueue" where
  "CompleteTask it q task =
     (let taskKey = getTaskKey (eq_mem q task)
      in if fmlookup (eq_activeTasks q) taskKey \<noteq> None
         then let q1 = q\<lparr>eq_activeTasks := fmdrop taskKey (eq_activeTasks q),
                         eq_completedTasks := fmupd taskKey task (eq_completedTasks q)\<rparr>
              in if map_len (eq_completedTasks q1) > 1000
                 then q1\<lparr>eq_completedTasks := fold fmdrop (take 100 it) (eq_completedTasks q1)\<rparr>
                 else q1
         else q)"

definition FailTask ::
    "time \<Rightarrow> ExecutionQueue \<Rightarrow> addr \<Rightarrow> string \<Rightarrow> queue_error option \<times> ExecutionQueue" where
  "FailTask now q task err =
     (let t = eq_mem q task;
          taskKey = getTaskKey t;
          q1 = q\<lparr>eq_activeTasks := fmdrop taskKey (eq_activeTasks q)\<rparr>
      in if et_RetryCount t < et_MaxRetries t
         then let t' = t\<lparr>et_RetryCount := inc64 (et_RetryCount t),
                         et_Priority := wrap64 (et_Priority t + 10), et_Timestamp := now\<rparr>;
                  q2 = q1\<lparr>eq_mem := (eq_mem q1)(task := t'),
                          eq_pendingTasks := fmupd taskKey task (eq_pendingTasks q1)\<rparr>
              in (None, set_heap q2 (heap_Push TaskHeap (eq_mem q2, eq_heap q2) task))
         else (Some (TaskFailed (et_MaxRetries t) err),
               q1\<lparr>eq_completedTasks := fmupd taskKey task (eq_completedTasks q1)\<rparr>))"

definition GetPendingCount :: "ExecutionQueue \<Rightarrow> int" where
  "GetPendingCount q = map_len (eq_pendingTasks q)"

definition GetActiveCount :: "ExecutionQueue \<Rightarrow> int" where
  "GetActiveCount q = map_len (eq_activeTasks q)"

record QueueStats =
  qs_PendingTasks :: int
  qs_ActiveTasks :: int
  qs_CompletedTasks :: int
  qs_EnqueuedCount :: int
  qs_DequeuedCount :: int
  qs_DroppedCount :: int
  qs_Capacity :: int
  qs_MaxPendingTasks :: int

definition GetStats :: "ExecutionQueue \<Rightarrow> QueueStats" where
  "GetStats q =
     \<lparr>qs_PendingTasks = map_len (eq_pendingTasks q), qs_ActiveTasks = map_len (eq_activeTasks q),
      qs_CompletedTasks = map_len (eq_completedTasks q), qs_EnqueuedCount = eq_enqueuedCount q,
      qs_DequeuedCount = eq_dequeuedCount q, qs_DroppedCount = eq_droppedCount q,
      qs_Capacity = eq_capacity q, qs_MaxPendingTasks = eq_maxPendingTasks q\<rparr>"

definition ListActiveTasks :: "string list \<Rightarrow> ExecutionQueue \<Rightarrow> addr list" where
  "ListActiveTasks it q = List.map_filter (fmlookup (eq_activeTasks q)) it"

definition ListPendingTasks :: "string list \<Rightarrow> ExecutionQueue \<Rightarrow> addr list" where
  "ListPendingTasks it q = List.map_filter (fmlookup (eq_pendingTasks q)) it"

definition removeFromHeap :: "ExecutionQueue \<Rightarrow> addr \<Rightarrow> ExecutionQueue" where
  "removeFromHeap q target =
     (let i = et_index (eq_mem q target)
      in if i < 0 \<or> i \<ge> int (length (eq_heap q)) then q
         else set_heap q (snd (heap_Remove TaskHeap (eq_mem q, eq_heap q) (nat i))))"

text \<open>The context of an active task gets a cancellation flag. A context that is not a JSON object
  is replaced, but \<open>null\<close> decodes without error to a nil map, and the write to it panics.\<close>

definition cancel_context :: "RawMessage option \<Rightarrow> (string, json) fmap outcome" where
  "cancel_context c =
     (let flag = fmupd ''cancelled'' (Json_bool True)
      in case c of
           None \<Rightarrow> Ret (flag fmempty)
         | Some raw \<Rightarrow>
             (case unmarshal_map raw of
                Decode_error \<Rightarrow> Ret (flag fmempty)
              | Decoded_nil \<Rightarrow> Panic ''assignment to entry in nil map''
              | Decoded m \<Rightarrow> Ret (flag m)))"

definition CancelTask ::
    "ExecutionQueue \<Rightarrow> NamespacedName \<Rightarrow> string \<Rightarrow> (queue_error option \<times> ExecutionQueue) outcome" where
  "CancelTask q intentName phase =
     (let taskKey = task_key intentName phase
      in case fmlookup (eq_pendingTasks q) taskKey of
           Some task \<Rightarrow>
             let q1 = removeFromHeap q task
             in Ret (None, q1\<lparr>eq_pendingTasks := fmdrop taskKey (eq_pendingTasks q1)\<rparr>)
         | None \<Rightarrow>
             (case fmlookup (eq_activeTasks q) taskKey of
                Some task \<Rightarrow>
                  (case cancel_context (et_Context (eq_mem q task)) of
                     Panic msg \<Rightarrow> Panic msg
                   | Ret m \<Rightarrow>
                       Ret (None, q\<lparr>eq_mem := (eq_mem q)(task := (eq_mem q task)
                                      \<lparr>et_Context := Some (Raw (Json_object m))\<rparr>)\<rparr>))
              | None \<Rightarrow> Ret (Some (TaskNotFound taskKey), q)))"

text \<open>The keys of a map whose task is older than the cutoff, in the order the loop visits them.\<close>

definition expired_tasks :: "task_mem \<Rightarrow> time \<Rightarrow> (string, addr) fmap \<Rightarrow> string list \<Rightarrow> string list" where
  "expired_tasks m cutoff tasks it =
     filter (\<lambda>k. case fmlookup tasks k of None \<Rightarrow> False | Some a \<Rightarrow> et_Timestamp (m a) < cutoff) it"

definition CleanupExpiredTasks ::
    "time \<Rightarrow> string list \<Rightarrow> string list \<Rightarrow> ExecutionQueue \<Rightarrow> int \<times> ExecutionQueue" where
  "CleanupExpiredTasks now itA itP q =
     (let cutoff = now - eq_taskTimeout q;
          exA = expired_tasks (eq_mem q) cutoff (eq_activeTasks q) itA;
          q1 = q\<lparr>eq_activeTasks := fold fmdrop exA (eq_activeTasks q)\<rparr>;
          exP = expired_tasks (eq_mem q1) cutoff (eq_pendingTasks q1) itP;
          expiredPending = List.map_filter (fmlookup (eq_pendingTasks q1)) exP;
          q2 = q1\<lparr>eq_pendingTasks := fold fmdrop exP (eq_pendingTasks q1)\<rparr>
      in (int (length exA) + int (length exP), fold (\<lambda>task q. removeFromHeap q task) expiredPending q2))"

definition checkTaskDependencies :: "ExecutionQueue \<Rightarrow> addr \<Rightarrow> bool" where
  "checkTaskDependencies q task =
     list_all (\<lambda>depKey. fmlookup (eq_completedTasks q) depKey \<noteq> None) (et_Dependencies (eq_mem q task))"

definition requeue :: "ExecutionQueue \<Rightarrow> addr \<Rightarrow> ExecutionQueue" where
  "requeue q task =
     (let taskKey = getTaskKey (eq_mem q task);
          q1 = q\<lparr>eq_activeTasks := fmdrop taskKey (eq_activeTasks q),
                 eq_pendingTasks := fmupd taskKey task (eq_pendingTasks q)\<rparr>
      in set_heap q1 (heap_Push TaskHeap (eq_mem q1, eq_heap q1) task))"

text \<open>The buffered channel holds at most \<open>capacity\<close> tasks; a send that would block re-queues.\<close>

definition processQueue :: "ExecutionQueue \<Rightarrow> ExecutionQueue" where
  "processQueue q =
     (if int (length (eq_channel q)) \<ge> eq_capacity q then q
      else case Dequeue q of
             (Inl err, q1) \<Rightarrow> q1
           | (Inr task, q1) \<Rightarrow>
               if \<not> checkTaskDependencies q1 task then requeue q1 task
               else if int (length (eq_channel q1)) < eq_capacity q1
                 then q1\<lparr>eq_channel := eq_channel q1 @ [task]\<rparr>
               else requeue q1 task)"

text \<open>A worker of the coordination manager receives from the channel.\<close>

definition receive_task :: "ExecutionQueue \<Rightarrow> (addr \<times> ExecutionQueue) option" where
  "receive_task q =
     (case eq_channel q of [] \<Rightarrow> None | task # rest \<Rightarrow> Some (task, q\<lparr>eq_channel := rest\<rparr>))"

subsection \<open>Filters\<close>

record TaskFilter =
  tf_IntentNamespace :: string
  tf_IntentName :: string
  tf_Phase :: string
  tf_MinPriority :: "int option"
  tf_MaxPriority :: "int option"
  tf_CreatedAfter :: "time option"
  tf_CreatedBefore :: "time option"

definition matchesFilter :: "ExecutionTask \<Rightarrow> TaskFilter \<Rightarrow> bool" where
  "matchesFilter t f =
     (if tf_IntentNamespace f \<noteq> [] \<and> nn_Namespace (et_IntentName t) \<noteq> tf_IntentNamespace f then False
      else if tf_IntentName f \<noteq> [] \<and> nn_Name (et_IntentName t) \<noteq> tf_IntentName f then False
      else if tf_Phase f \<noteq> [] \<and> et_Phase t \<noteq> tf_Phase f then False
      else if (case tf_MinPriority f of None \<Rightarrow> False | Some p \<Rightarrow> et_Priority t < p) then False
      else if (case tf_MaxPriority f of None \<Rightarrow> False | Some p \<Rightarrow> et_Priority t > p) then False
      else if (case tf_CreatedAfter f of None \<Rightarrow> False | Some x \<Rightarrow> et_Timestamp t < x) then False
      else if (case tf_CreatedBefore f of None \<Rightarrow> False | Some x \<Rightarrow> et_Timestamp t > x) then False
      else True)"

definition FilterTasks ::
    "string list \<Rightarrow> string list \<Rightarrow> string list \<Rightarrow> ExecutionQueue \<Rightarrow> TaskFilter
       \<Rightarrow> bool \<Rightarrow> bool \<Rightarrow> bool \<Rightarrow> addr list" where
  "FilterTasks itA itP itC q f includeActive includePending includeCompleted =
     filter (\<lambda>task. matchesFilter (eq_mem q task) f)
       ((if includeActive then ListActiveTasks itA q else [])
        @ (if includePending then ListPendingTasks itP q else [])
        @ (if includeCompleted then List.map_filter (fmlookup (eq_completedTasks q)) itC else []))"

section \<open>The heap interface\<close>

text \<open>The heap methods write only the \<open>index\<close> fields: up to these the store stays \<open>m0\<close>, so the
  order of the tasks is known from \<open>m0\<close>.\<close>

definition strip_index :: "ExecutionTask \<Rightarrow> ExecutionTask" where
  "strip_index t = t\<lparr>et_index := 0\<rparr>"

definition same_tasks :: "task_mem \<Rightarrow> task_mem \<Rightarrow> bool" where
  "same_tasks m m' \<longleftrightarrow> (\<forall>a. strip_index (m a) = strip_index (m' a))"

definition indexed :: "task_mem \<Rightarrow> addr list \<Rightarrow> bool" where
  "indexed m h \<longleftrightarrow> (\<forall>i < length h. et_index (m (h ! i)) = int i)"

definition heap_good :: "task_mem \<Rightarrow> task_mem \<times> addr list \<Rightarrow> bool" where
  "heap_good m0 s \<longleftrightarrow> same_tasks m0 (fst s) \<and> indexed (fst s) (snd s)"

definition rank :: "task_mem \<Rightarrow> addr \<Rightarrow> addr \<times> int \<times> time" where
  "rank m a = (a, et_Priority (m a), et_Timestamp (m a))"

fun rank_before :: "addr \<times> int \<times> time \<Rightarrow> addr \<times> int \<times> time \<Rightarrow> bool" where
  "rank_before (_, p, t) (_, q, u) = (if p \<noteq> q then p > q else t < u)"

lemma same_tasks_refl [simp]: "same_tasks m m"
  by (simp add: same_tasks_def)

lemma same_tasks_trans: "same_tasks m m' \<Longrightarrow> same_tasks m' m'' \<Longrightarrow> same_tasks m m''"
  by (simp add: same_tasks_def)

lemma same_tasks_set_index [simp]: "same_tasks m (set_index m' a i) \<longleftrightarrow> same_tasks m m'"
  by (auto simp: same_tasks_def set_index_def strip_index_def)

lemma same_tasks_fields:
  assumes "same_tasks m m'"
  shows "getTaskKey (m' a) = getTaskKey (m a)" "rank m' = rank m" "task_before (m' a) (m' b) = task_before (m a) (m b)"
    "et_Timestamp (m' a) = et_Timestamp (m a)" "et_Dependencies (m' a) = et_Dependencies (m a)"
    "et_Priority (m' a) = et_Priority (m a)"
proof -
  have eq: "strip_index (m' b) = strip_index (m b)" for b using assms by (simp add: same_tasks_def)
  have "et_IntentName (m' b) = et_IntentName (m b) \<and> et_Phase (m' b) = et_Phase (m b)
      \<and> et_Priority (m' b) = et_Priority (m b) \<and> et_Timestamp (m' b) = et_Timestamp (m b)
      \<and> et_Dependencies (m' b) = et_Dependencies (m b)" for b
    using eq [of b] unfolding strip_index_def
    by (metis ExecutionTask.select_convs(1,2,3,4,8) ExecutionTask.surjective ExecutionTask.update_convs(9))
  then show "getTaskKey (m' a) = getTaskKey (m a)" "rank m' = rank m" "task_before (m' a) (m' b) = task_before (m a) (m b)"
    "et_Timestamp (m' a) = et_Timestamp (m a)" "et_Dependencies (m' a) = et_Dependencies (m a)"
    "et_Priority (m' a) = et_Priority (m a)"
    by (auto simp: getTaskKey_def rank_def task_before_def fun_eq_iff)
qed

lemma rank_before_iff: "rank_before (rank m a) (rank m b) = task_before (m a) (m b)"
  by (simp add: rank_def task_before_def)

lemma indexed_distinct: "indexed m h \<Longrightarrow> distinct h"
  unfolding indexed_def distinct_conv_nth by (metis of_nat_eq_iff)

lemma indexed_swap:
  assumes "indexed m h" "i < length h" "j < length h"
  shows "indexed (set_index (set_index m (swap_list h i j ! i) (int i)) (swap_list h i j ! j) (int j))
           (swap_list h i j)"
proof -
  have "h ! k \<noteq> h ! l" if "k < length h" "l < length h" "k \<noteq> l" for k l
    using indexed_distinct [OF assms(1)] that by (simp add: nth_eq_iff_index_eq)
  with assms show ?thesis
    by (auto simp: indexed_def set_index_def)
qed

interpretation task_heap: array_heap TaskHeap "\<lambda>s. map (rank m0) (snd s)" "rank m0" rank_before
    "heap_good m0" "\<lambda>s a. a \<notin> set (snd s)" for m0
proof
  fix x y z :: "addr \<times> int \<times> time"
  show "rank_before x y \<Longrightarrow> \<not> rank_before y x"
    by (cases x; cases y) (auto split: if_splits)
  show "\<not> rank_before x y \<Longrightarrow> \<not> rank_before y z \<Longrightarrow> \<not> rank_before x z"
    by (cases x; cases y; cases z) (auto split: if_splits)
next
  fix s :: "task_mem \<times> addr list" and i j a s'
  assume good: "heap_good m0 s"
  show "hLen TaskHeap s = length (map (rank m0) (snd s))" by (simp add: TaskHeap_def TaskHeap_Len_def)
  show "heap_good m0 (hPush TaskHeap s a) \<and> map (rank m0) (snd (hPush TaskHeap s a)) = map (rank m0) (snd s) @ [rank m0 a]"
    if "a \<notin> set (snd s)"
    using good that
    by (auto simp: heap_good_def TaskHeap_def TaskHeap_Push_def indexed_def set_index_def nth_append
        same_tasks_set_index [unfolded set_index_def])
  {
    assume ij: "i < length (map (rank m0) (snd s))" "j < length (map (rank m0) (snd s))"
    then show "hLess TaskHeap s i j = rank_before (map (rank m0) (snd s) ! i) (map (rank m0) (snd s) ! j)"
      using good by (simp add: TaskHeap_def TaskHeap_Less_def heap_good_def rank_before_iff same_tasks_fields)
    from ij show "heap_good m0 (hSwap TaskHeap s i j)
        \<and> map (rank m0) (snd (hSwap TaskHeap s i j)) = swap_list (map (rank m0) (snd s)) i j"
      using good indexed_swap [of "fst s" "snd s" i j]
      by (simp add: TaskHeap_def TaskHeap_Swap_def heap_good_def Let_def map_swap_list)
  next
    assume "map (rank m0) (snd s) \<noteq> []" "hPop TaskHeap s = (a, s')"
    then show "heap_good m0 s' \<and> map (rank m0) (snd s') = butlast (map (rank m0) (snd s))
        \<and> rank m0 a = last (map (rank m0) (snd s))"
      using good indexed_distinct [of "fst s" "snd s"]
      by (auto simp: TaskHeap_def TaskHeap_Pop_def heap_good_def Let_def map_butlast last_map indexed_def
          nth_butlast set_index_def same_tasks_set_index [unfolded set_index_def] last_conv_nth nth_eq_iff_index_eq)
  }
qed

definition heap_sorted :: "task_mem \<Rightarrow> addr list \<Rightarrow> bool" where
  "heap_sorted m h \<longleftrightarrow> (\<forall>k. 0 < k \<and> k < length h \<longrightarrow> \<not> task_before (m (h ! k)) (m (h ! parent k)))"

lemma heap_on_sorted:
  assumes "same_tasks m m'"
  shows "task_heap.heap_on (map (rank m) h) (length h) \<longleftrightarrow> heap_sorted m' h"
proof -
  have "rank_before (map (rank m) h ! k) (map (rank m) h ! parent k) = task_before (m' (h ! k)) (m' (h ! parent k))"
    if "0 < k" "k < length h" for k
    using that parent_less [of k] assms by (simp add: rank_before_iff same_tasks_fields)
  then show ?thesis by (auto simp: task_heap.heap_on_def task_heap.le_def heap_sorted_def)
qed

lemma heap_ok_start:
  assumes "indexed m h" "heap_sorted m h"
  shows "heap_good m (m, h) \<and> task_heap.heap_on (map (rank m) (snd (m, h))) (length (map (rank m) (snd (m, h))))"
  using assms by (simp add: heap_good_def heap_on_sorted [of m m])

lemma mset_rank: "mset (map (rank m) xs) = mset (map (rank m) ys) \<longleftrightarrow> mset xs = mset ys"
proof -
  have "image_mset fst (mset (map (rank m) zs)) = mset zs" for zs
    by (induction zs) (simp_all add: rank_def)
  then show ?thesis by (metis mset_map)
qed

lemma rank_inject [simp]: "rank m a = rank m b \<longleftrightarrow> a = b"
  by (auto simp: rank_def)

lemma push_task:
  assumes "indexed m h" "heap_sorted m h" "a \<notin> set h" "heap_Push TaskHeap (m, h) a = (m', h')"
  shows "indexed m' h'" "heap_sorted m' h'" "mset h' = add_mset a (mset h)" "same_tasks m m'"
proof -
  note ok = heap_ok_start [OF assms(1,2)]
  from task_heap.heap_Push_ok [of m "(m, h)" a] ok assms(3,4)
  have "heap_good m (m', h')" "task_heap.heap_on (map (rank m) h') (length h')"
    and ms: "mset (map (rank m) h') = mset (map (rank m) (a # h))" by simp_all
  then show "indexed m' h'" "heap_sorted m' h'" "same_tasks m m'"
    by (auto simp: heap_good_def heap_on_sorted)
  from ms show "mset h' = add_mset a (mset h)" unfolding mset_rank by simp
qed

lemma pop_task:
  assumes "indexed m h" "heap_sorted m h" "h \<noteq> []" "heap_Pop TaskHeap (m, h) = (a, m', h')"
  shows "indexed m' h'" "heap_sorted m' h'" "mset h = add_mset a (mset h')" "same_tasks m m'"
    "a = h ! 0" "\<And>b. b \<in> set h \<Longrightarrow> \<not> task_before (m b) (m a)"
proof -
  note ok = heap_ok_start [OF assms(1,2)]
  have ne: "map (rank m) (snd (m, h)) \<noteq> []" using assms(3) by simp
  note pop = task_heap.heap_Pop_ok [OF ok ne assms(4)]
  from pop(1,2,3) have "heap_good m (m', h')" "task_heap.heap_on (map (rank m) h') (length h')"
    and ms: "mset (map (rank m) h) = mset (map (rank m) (a # h'))" and top: "rank m a = rank m (h ! 0)"
    using assms(3) by simp_all
  then show "indexed m' h'" "heap_sorted m' h'" "same_tasks m m'" "a = h ! 0"
    by (auto simp: heap_good_def heap_on_sorted)
  from ms show "mset h = add_mset a (mset h')" unfolding mset_rank by simp
  show "\<not> task_before (m b) (m a)" if "b \<in> set h" for b
    using pop(4) [of "rank m b"] that by (simp add: task_heap.le_def rank_before_iff)
qed

lemma remove_task:
  assumes "indexed m h" "heap_sorted m h" "a \<in> set h"
    and "heap_Remove TaskHeap (m, h) (nat (et_index (m a))) = (x, m', h')"
  shows "indexed m' h'" "heap_sorted m' h'" "mset h = add_mset a (mset h')" "same_tasks m m'" "x = a"
proof -
  note ok = heap_ok_start [OF assms(1,2)]
  obtain i where i: "i < length h" "a = h ! i" using assms(3) by (auto simp: in_set_conv_nth)
  with assms(1) have "nat (et_index (m a)) = i" by (simp add: indexed_def)
  with assms(4) have rm: "heap_Remove TaskHeap (m, h) i = (x, m', h')" by simp
  have "i < length (map (rank m) (snd (m, h)))" using i by simp
  note rem = task_heap.heap_Remove_ok [OF ok this rm]
  then have "heap_good m (m', h')" "task_heap.heap_on (map (rank m) h') (length h')"
    and ms: "mset (map (rank m) h) = mset (map (rank m) (x # h'))" and x: "rank m x = rank m a"
    using i by simp_all
  then show "indexed m' h'" "heap_sorted m' h'" "same_tasks m m'" "x = a"
    by (auto simp: heap_good_def heap_on_sorted)
  from ms x show "mset h = add_mset a (mset h')" unfolding mset_rank by simp
qed

section \<open>The invariant of the queue\<close>

text \<open>The heap is ordered and every task knows its place in it; the pending map lists exactly the
  tasks in the heap, each under its own key; no key is both pending and active.\<close>

definition keyed :: "task_mem \<Rightarrow> (string, addr) fmap \<Rightarrow> bool" where
  "keyed m tasks \<longleftrightarrow> (\<forall>k a. fmlookup tasks k = Some a \<longrightarrow> getTaskKey (m a) = k)"

definition queue_inv :: "ExecutionQueue \<Rightarrow> bool" where
  "queue_inv q \<longleftrightarrow>
     indexed (eq_mem q) (eq_heap q) \<and> heap_sorted (eq_mem q) (eq_heap q)
     \<and> (\<forall>k a. fmlookup (eq_pendingTasks q) k = Some a \<longleftrightarrow> a \<in> set (eq_heap q) \<and> getTaskKey (eq_mem q a) = k)
     \<and> keyed (eq_mem q) (eq_activeTasks q) \<and> keyed (eq_mem q) (eq_completedTasks q)
     \<and> (\<forall>k. fmlookup (eq_pendingTasks q) k = None \<or> fmlookup (eq_activeTasks q) k = None)"

lemma keyed_same: "same_tasks m m' \<Longrightarrow> keyed m' tasks = keyed m tasks"
  by (simp add: keyed_def same_tasks_fields)

lemma keyed_upd [intro]: "keyed m tasks \<Longrightarrow> getTaskKey (m a) = k \<Longrightarrow> keyed m (fmupd k a tasks)"
  by (simp add: keyed_def)

lemma keyed_drop [intro]: "keyed m tasks \<Longrightarrow> keyed m (fmdrop k tasks)"
  by (simp add: keyed_def)

lemma keyed_fold_drop [intro]: "keyed m tasks \<Longrightarrow> keyed m (fold fmdrop ks tasks)"
  by (induction ks arbitrary: tasks) auto

lemma pending_not_in_heap:
  "queue_inv q \<Longrightarrow> fmlookup (eq_pendingTasks q) (getTaskKey (eq_mem q a)) = None \<Longrightarrow> a \<notin> set (eq_heap q)"
  unfolding queue_inv_def by (metis option.distinct(1))

text \<open>Putting a task whose key is neither pending nor active into the heap, the common end of
  \<open>Enqueue\<close>, \<open>FailTask\<close> and the re-queueing branches of \<open>processQueue\<close>.\<close>

definition insert_task :: "ExecutionQueue \<Rightarrow> addr \<Rightarrow> ExecutionQueue" where
  "insert_task q task =
     (let q1 = q\<lparr>eq_pendingTasks := fmupd (getTaskKey (eq_mem q task)) task (eq_pendingTasks q)\<rparr>
      in set_heap q1 (heap_Push TaskHeap (eq_mem q1, eq_heap q1) task))"

lemma insert_task_inv:
  assumes inv: "queue_inv q"
    and free: "fmlookup (eq_pendingTasks q) (getTaskKey (eq_mem q task)) = None"
      "fmlookup (eq_activeTasks q) (getTaskKey (eq_mem q task)) = None"
  shows "queue_inv (insert_task q task)" "mset (eq_heap (insert_task q task)) = add_mset task (mset (eq_heap q))"
    "same_tasks (eq_mem q) (eq_mem (insert_task q task))"
proof -
  obtain m' h' where p: "heap_Push TaskHeap (eq_mem q, eq_heap q) task = (m', h')" by fastforce
  have "indexed (eq_mem q) (eq_heap q)" "heap_sorted (eq_mem q) (eq_heap q)" using inv by (simp_all add: queue_inv_def)
  note push = push_task [OF this pending_not_in_heap [OF inv free(1)] p]
  have q': "insert_task q task = q\<lparr>eq_pendingTasks := fmupd (getTaskKey (eq_mem q task)) task (eq_pendingTasks q),
      eq_mem := m', eq_heap := h'\<rparr>"
    by (simp add: insert_task_def Let_def set_heap_def p)
  have set: "set h' = insert task (set (eq_heap q))" using push(3) by (metis set_mset_add_mset_insert set_mset_mset)
  show "mset (eq_heap (insert_task q task)) = add_mset task (mset (eq_heap q))"
    "same_tasks (eq_mem q) (eq_mem (insert_task q task))" using push q' by simp_all
  have "fmlookup (eq_pendingTasks q) k = Some a \<longleftrightarrow> a \<in> set (eq_heap q) \<and> getTaskKey (eq_mem q a) = k" for k a
    using inv by (simp add: queue_inv_def)
  moreover have "fmlookup (eq_pendingTasks q) k = None \<or> fmlookup (eq_activeTasks q) k = None" for k
    using inv by (simp add: queue_inv_def)
  ultimately show "queue_inv (insert_task q task)"
    using inv push free set unfolding queue_inv_def q'
    by (simp add: same_tasks_fields [OF push(4)] keyed_same [OF push(4)]) (metis option.distinct(1))
qed

text \<open>Taking tasks out of the heap: only the heap and the \<open>index\<close> fields change.\<close>

definition heap_part_ok :: "ExecutionQueue \<Rightarrow> bool" where
  "heap_part_ok q \<longleftrightarrow> indexed (eq_mem q) (eq_heap q) \<and> heap_sorted (eq_mem q) (eq_heap q)"

lemma queue_inv_heap_part: "queue_inv q \<Longrightarrow> heap_part_ok q"
  by (simp add: queue_inv_def heap_part_ok_def)

lemma removeFromHeap_spec:
  assumes "heap_part_ok q" "a \<in> set (eq_heap q)"
  obtains m' h' where "removeFromHeap q a = q\<lparr>eq_mem := m', eq_heap := h'\<rparr>"
    "heap_part_ok (removeFromHeap q a)" "mset (eq_heap q) = add_mset a (mset h')" "same_tasks (eq_mem q) m'"
proof -
  have ok: "indexed (eq_mem q) (eq_heap q)" "heap_sorted (eq_mem q) (eq_heap q)"
    using assms(1) by (simp_all add: heap_part_ok_def)
  obtain x m' h' where r: "heap_Remove TaskHeap (eq_mem q, eq_heap q) (nat (et_index (eq_mem q a))) = (x, m', h')"
    by (metis prod_cases3)
  have "0 \<le> et_index (eq_mem q a)" "et_index (eq_mem q a) < int (length (eq_heap q))"
    using ok(1) assms(2) by (auto simp: indexed_def in_set_conv_nth)
  then have "removeFromHeap q a = q\<lparr>eq_mem := m', eq_heap := h'\<rparr>"
    by (simp add: removeFromHeap_def Let_def r set_heap_def)
  with remove_task [OF ok assms(2) r] show ?thesis by (intro that) (simp_all add: heap_part_ok_def)
qed

lemma removeFromHeap_fold:
  assumes "heap_part_ok q" "distinct ts" "set ts \<subseteq> set (eq_heap q)"
  shows "\<exists>m' h'. fold (\<lambda>task q. removeFromHeap q task) ts q = q\<lparr>eq_mem := m', eq_heap := h'\<rparr>
      \<and> indexed m' h' \<and> heap_sorted m' h' \<and> mset (eq_heap q) = mset ts + mset h' \<and> same_tasks (eq_mem q) m'"
  using assms
proof (induction ts arbitrary: q)
  case Nil
  show ?case by (rule exI [of _ "eq_mem q"], rule exI [of _ "eq_heap q"]) (use Nil in \<open>simp add: heap_part_ok_def\<close>)
next
  case (Cons a ts)
  then have "a \<in> set (eq_heap q)" by simp
  with Cons.prems(1) obtain m1 h1 where q1: "removeFromHeap q a = q\<lparr>eq_mem := m1, eq_heap := h1\<rparr>"
    "heap_part_ok (removeFromHeap q a)" "mset (eq_heap q) = add_mset a (mset h1)" "same_tasks (eq_mem q) m1"
    by (rule removeFromHeap_spec)
  have "set (eq_heap q) = insert a (set h1)" using q1(3) by (metis set_mset_add_mset_insert set_mset_mset)
  then have "set ts \<subseteq> set (eq_heap (removeFromHeap q a))" using Cons.prems q1(1) by auto
  with Cons.IH [OF q1(2)] Cons.prems(2) obtain m2 h2 where
    "fold (\<lambda>task q. removeFromHeap q task) ts (removeFromHeap q a) = q\<lparr>eq_mem := m2, eq_heap := h2\<rparr>"
    "indexed m2 h2" "heap_sorted m2 h2" "mset h1 = mset ts + mset h2" "same_tasks m1 m2"
    using q1(1) by auto
  with q1(3) same_tasks_trans [OF q1(4)] show ?case
    by (intro exI [of _ m2] exI [of _ h2]) simp
qed

lemma removeFromHeap_pending1:
  "removeFromHeap (q\<lparr>eq_pendingTasks := P\<rparr>) a = (removeFromHeap q a)\<lparr>eq_pendingTasks := P\<rparr>"
  by (cases q) (simp add: removeFromHeap_def Let_def set_heap_def)

lemma removeFromHeap_pending:
  "fold (\<lambda>task q. removeFromHeap q task) ts (q\<lparr>eq_pendingTasks := P\<rparr>)
     = (fold (\<lambda>task q. removeFromHeap q task) ts q)\<lparr>eq_pendingTasks := P\<rparr>"
  by (induction ts arbitrary: q) (simp_all add: removeFromHeap_pending1)

text \<open>The queue after pending tasks have left: the heap and the pending map lose the same ones.\<close>

lemma queue_inv_drop:
  assumes inv: "queue_inv q" and ms: "mset (eq_heap q) = mset ts + mset h'"
    and "indexed m' h'" "heap_sorted m' h'" "same_tasks (eq_mem q) m'"
    and P: "\<And>k. fmlookup P k = (if k \<in> (\<lambda>a. getTaskKey (eq_mem q a)) ` set ts then None
          else fmlookup (eq_pendingTasks q) k)"
  shows "queue_inv (q\<lparr>eq_mem := m', eq_heap := h', eq_pendingTasks := P\<rparr>)"
proof -
  have dist: "distinct (ts @ h')"
    using inv ms indexed_distinct by (metis mset_append mset_eq_imp_distinct_iff queue_inv_def)
  have set: "set (eq_heap q) = set ts \<union> set h'" using ms by (metis mset_append set_append set_mset_mset)
  have key_inj: "getTaskKey (eq_mem q a) \<noteq> getTaskKey (eq_mem q b)"
    if "a \<in> set (eq_heap q)" "b \<in> set (eq_heap q)" "a \<noteq> b" for a b
    using inv that unfolding queue_inv_def by (metis option.inject)
  have pend: "fmlookup (eq_pendingTasks q) k = Some a \<longleftrightarrow> a \<in> set (eq_heap q) \<and> getTaskKey (eq_mem q a) = k" for k a
    using inv by (simp add: queue_inv_def)
  have "fmlookup P k = Some a \<longleftrightarrow> a \<in> set h' \<and> getTaskKey (eq_mem q a) = k" for k a
    unfolding P using pend [of k a] dist set key_inj by (auto simp: image_iff)
  then show ?thesis
    using inv assms(3,4) P unfolding queue_inv_def
    by (auto simp: same_tasks_fields [OF assms(5)] keyed_same [OF assms(5)])
qed

subsection \<open>Every operation keeps the invariant\<close>

lemma queue_inv_counters [simp]:
  "queue_inv (q\<lparr>eq_enqueuedCount := n\<rparr>) = queue_inv q"
  "queue_inv (q\<lparr>eq_dequeuedCount := n\<rparr>) = queue_inv q"
  "queue_inv (q\<lparr>eq_droppedCount := n\<rparr>) = queue_inv q"
  "queue_inv (q\<lparr>eq_channel := c\<rparr>) = queue_inv q"
  by (simp_all add: queue_inv_def)

lemma Enqueue_accepts:
  assumes "fmlookup (eq_activeTasks q) (getTaskKey (eq_mem q task)) = None"
    and "fmlookup (eq_pendingTasks q) (getTaskKey (eq_mem q task)) = None"
    and "map_len (eq_pendingTasks q) < eq_maxPendingTasks q"
  shows "Enqueue q task = (None, (insert_task q task)\<lparr>eq_enqueuedCount := inc64 (eq_enqueuedCount q)\<rparr>)"
  using assms by (simp add: Enqueue_def insert_task_def Let_def set_heap_def)

lemma Enqueue_inv [inv_intros]:
  assumes "queue_inv q" shows "queue_inv (snd (Enqueue q task))"
proof (cases "fmlookup (eq_activeTasks q) (getTaskKey (eq_mem q task)) = None
    \<and> fmlookup (eq_pendingTasks q) (getTaskKey (eq_mem q task)) = None
    \<and> map_len (eq_pendingTasks q) < eq_maxPendingTasks q")
  case True
  then show ?thesis using assms by (simp add: Enqueue_accepts insert_task_inv)
next
  case False
  then show ?thesis using assms by (auto simp: Enqueue_def Let_def)
qed

lemma Dequeue_spec:
  assumes inv: "queue_inv q" and "eq_heap q \<noteq> []"
  obtains task m' h' P where "Dequeue q = (Inr task, q\<lparr>eq_mem := m', eq_heap := h',
      eq_pendingTasks := P,
      eq_activeTasks := fmupd (getTaskKey (eq_mem q task)) task (eq_activeTasks q),
      eq_dequeuedCount := inc64 (eq_dequeuedCount q)\<rparr>)"
    "P = fmdrop (getTaskKey (eq_mem q task)) (eq_pendingTasks q)"
    "task = eq_heap q ! 0" "same_tasks (eq_mem q) m'" "mset (eq_heap q) = add_mset task (mset h')"
    "\<And>b. b \<in> set (eq_heap q) \<Longrightarrow> \<not> task_before (eq_mem q b) (eq_mem q task)"
    "queue_inv (q\<lparr>eq_mem := m', eq_heap := h', eq_pendingTasks := P\<rparr>)"
proof -
  obtain task m' h' where p: "heap_Pop TaskHeap (eq_mem q, eq_heap q) = (task, m', h')" by (metis prod_cases3)
  have "indexed (eq_mem q) (eq_heap q)" "heap_sorted (eq_mem q) (eq_heap q)" using inv by (simp_all add: queue_inv_def)
  note pop = pop_task [OF this assms(2) p]
  let ?P = "fmdrop (getTaskKey (eq_mem q task)) (eq_pendingTasks q)"
  have "Dequeue q = (Inr task, q\<lparr>eq_mem := m', eq_heap := h', eq_pendingTasks := ?P,
      eq_activeTasks := fmupd (getTaskKey (eq_mem q task)) task (eq_activeTasks q),
      eq_dequeuedCount := inc64 (eq_dequeuedCount q)\<rparr>)"
    using assms(2) p by (simp add: Dequeue_def Let_def set_heap_def same_tasks_fields [OF pop(4)])
  moreover have "queue_inv (q\<lparr>eq_mem := m', eq_heap := h', eq_pendingTasks := ?P\<rparr>)"
    using pop by (intro queue_inv_drop [OF inv, of "[task]"]) simp_all
  ultimately show ?thesis using that pop by blast
qed

lemma queue_inv_activate:
  assumes "queue_inv q" "fmlookup (eq_pendingTasks q) (getTaskKey (eq_mem q task)) = None"
  shows "queue_inv (q\<lparr>eq_activeTasks := fmupd (getTaskKey (eq_mem q task)) task (eq_activeTasks q)\<rparr>)"
  using assms unfolding queue_inv_def by auto

lemma queue_inv_deactivate:
  assumes "queue_inv q"
  shows "queue_inv (q\<lparr>eq_activeTasks := fmdrop k (eq_activeTasks q)\<rparr>)"
  using assms unfolding queue_inv_def by auto

lemma Dequeue_inv [inv_intros]:
  assumes "queue_inv q" shows "queue_inv (snd (Dequeue q))"
proof (cases "eq_heap q = []")
  case True
  then show ?thesis using assms by (simp add: Dequeue_def)
next
  case False
  from Dequeue_spec [OF assms this] show ?thesis
  proof cases
    case (1 task m' h' P)
    from queue_inv_activate [OF 1(7), of task] 1(1,2) same_tasks_fields(1) [OF 1(4)]
    show ?thesis by simp
  qed
qed

lemma requeue_eq:
  "requeue q task = insert_task (q\<lparr>eq_activeTasks := fmdrop (getTaskKey (eq_mem q task)) (eq_activeTasks q)\<rparr>) task"
  by (simp add: requeue_def insert_task_def Let_def)

lemma requeue_inv:
  assumes "queue_inv q" "fmlookup (eq_activeTasks q) (getTaskKey (eq_mem q task)) = Some b"
  shows "queue_inv (requeue q task)"
  unfolding requeue_eq using assms
  by (intro insert_task_inv queue_inv_deactivate) (auto simp: queue_inv_def)

lemma Dequeue_active:
  assumes "queue_inv q" "Dequeue q = (Inr task, q')"
  shows "fmlookup (eq_activeTasks q') (getTaskKey (eq_mem q' task)) = Some task"
    "eq_channel q' = eq_channel q" "eq_capacity q' = eq_capacity q" "eq_completedTasks q' = eq_completedTasks q"
proof -
  have "eq_heap q \<noteq> []" using assms(2) by (auto simp: Dequeue_def)
  from Dequeue_spec [OF assms(1) this] assms(2)
  show "fmlookup (eq_activeTasks q') (getTaskKey (eq_mem q' task)) = Some task"
    "eq_channel q' = eq_channel q" "eq_capacity q' = eq_capacity q" "eq_completedTasks q' = eq_completedTasks q"
    by (cases; simp add: same_tasks_fields)+
qed

lemma processQueue_inv [inv_intros]:
  assumes "queue_inv q" shows "queue_inv (processQueue q)"
proof (cases "Dequeue q")
  case (Pair r q')
  have "queue_inv q'" using Dequeue_inv [OF assms] Pair by simp
  with Pair assms show ?thesis
    by (cases r) (auto simp: processQueue_def dest: Dequeue_active intro: requeue_inv)
qed

lemma queue_inv_complete:
  "queue_inv q \<Longrightarrow> keyed (eq_mem q) C \<Longrightarrow>
   queue_inv (q\<lparr>eq_activeTasks := fmdrop k (eq_activeTasks q), eq_completedTasks := C\<rparr>)"
  by (auto simp: queue_inv_def)

lemma queue_inv_completed_keyed: "queue_inv q \<Longrightarrow> keyed (eq_mem q) (eq_completedTasks q)"
  by (simp add: queue_inv_def)

lemma CompleteTask_inv [inv_intros]: "queue_inv q \<Longrightarrow> queue_inv (CompleteTask it q task)"
  by (auto simp: CompleteTask_def Let_def
      intro!: queue_inv_complete keyed_fold_drop keyed_upd queue_inv_completed_keyed)

lemma heap_part_write:
  assumes "task \<notin> set h"
  shows "indexed (m(task := t)) h = indexed m h" "heap_sorted (m(task := t)) h = heap_sorted m h"
proof -
  have "h ! i \<noteq> task" if "i < length h" for i using assms that nth_mem by blast
  moreover have "parent k < length h" if "k < length h" for k using that parent_le [of k] by simp
  ultimately show "indexed (m(task := t)) h = indexed m h" "heap_sorted (m(task := t)) h = heap_sorted m h"
    by (simp_all add: indexed_def heap_sorted_def)
qed

lemma queue_inv_write:
  assumes "queue_inv q" "task \<notin> set (eq_heap q)" "getTaskKey t = getTaskKey (eq_mem q task)"
  shows "queue_inv (q\<lparr>eq_mem := (eq_mem q)(task := t)\<rparr>)"
proof -
  have "getTaskKey (((eq_mem q)(task := t)) a) = getTaskKey (eq_mem q a)" for a using assms(3) by simp
  then show ?thesis using assms(1) unfolding queue_inv_def keyed_def
    by (simp add: heap_part_write [OF assms(2)] del: fun_upd_apply)
qed

definition retry_state :: "time \<Rightarrow> ExecutionQueue \<Rightarrow> addr \<Rightarrow> ExecutionQueue" where
  "retry_state now q task =
     (let t = eq_mem q task
      in q\<lparr>eq_activeTasks := fmdrop (getTaskKey t) (eq_activeTasks q),
           eq_mem := (eq_mem q)(task := t\<lparr>et_RetryCount := inc64 (et_RetryCount t),
             et_Priority := wrap64 (et_Priority t + 10), et_Timestamp := now\<rparr>)\<rparr>)"

lemma FailTask_eq:
  "FailTask now q task err =
     (let t = eq_mem q task
      in if et_RetryCount t < et_MaxRetries t then (None, insert_task (retry_state now q task) task)
         else (Some (TaskFailed (et_MaxRetries t) err),
               q\<lparr>eq_activeTasks := fmdrop (getTaskKey t) (eq_activeTasks q),
                 eq_completedTasks := fmupd (getTaskKey t) task (eq_completedTasks q)\<rparr>))"
  by (simp add: FailTask_def retry_state_def insert_task_def Let_def getTaskKey_def)

lemma retry_state_key: "getTaskKey (eq_mem (retry_state now q task) a) = getTaskKey (eq_mem q a)"
  by (simp add: retry_state_def Let_def getTaskKey_def)

lemma retry_state_free:
  fixes now :: time
  assumes inv: "queue_inv q" and act: "fmlookup (eq_activeTasks q) (getTaskKey (eq_mem q task)) \<noteq> None"
  defines "q' \<equiv> retry_state now q task"
  shows "queue_inv q'" "fmlookup (eq_pendingTasks q') (getTaskKey (eq_mem q' task)) = None"
    "fmlookup (eq_activeTasks q') (getTaskKey (eq_mem q' task)) = None"
proof -
  have pend: "fmlookup (eq_pendingTasks q) (getTaskKey (eq_mem q task)) = None"
    using inv act by (auto simp: queue_inv_def)
  then show "fmlookup (eq_pendingTasks q') (getTaskKey (eq_mem q' task)) = None"
    "fmlookup (eq_activeTasks q') (getTaskKey (eq_mem q' task)) = None"
    unfolding q'_def retry_state_key by (simp_all add: retry_state_def Let_def)
  let ?q = "q\<lparr>eq_activeTasks := fmdrop (getTaskKey (eq_mem q task)) (eq_activeTasks q)\<rparr>"
  have "queue_inv (?q\<lparr>eq_mem := (eq_mem ?q)(task := t)\<rparr>)" if "getTaskKey t = getTaskKey (eq_mem q task)" for t
    using pending_not_in_heap [OF inv pend] that by (intro queue_inv_write queue_inv_deactivate inv) auto
  then show "queue_inv q'" by (simp add: q'_def retry_state_def Let_def getTaskKey_def)
qed

lemma FailTask_inv [inv_intros]:
  assumes inv: "queue_inv q" and act: "fmlookup (eq_activeTasks q) (getTaskKey (eq_mem q task)) \<noteq> None"
  shows "queue_inv (snd (FailTask now q task err))"
proof -
  have "queue_inv (q\<lparr>eq_activeTasks := fmdrop (getTaskKey (eq_mem q task)) (eq_activeTasks q),
      eq_completedTasks := fmupd (getTaskKey (eq_mem q task)) task (eq_completedTasks q)\<rparr>)"
    using inv by (intro queue_inv_complete keyed_upd queue_inv_completed_keyed) simp_all
  with insert_task_inv(1) [OF retry_state_free [OF assms]] show ?thesis
    by (simp add: FailTask_eq Let_def)
qed

lemma CancelTask_inv [inv_intros]:
  assumes inv: "queue_inv q" and ret: "CancelTask q n phase = Ret (err, q')"
  shows "queue_inv q'"
proof (cases "fmlookup (eq_pendingTasks q) (task_key n phase)")
  case (Some task)
  then have task: "task \<in> set (eq_heap q)" "getTaskKey (eq_mem q task) = task_key n phase"
    using inv by (auto simp: queue_inv_def)
  from queue_inv_heap_part [OF inv] task(1) obtain m' h' where
    r: "removeFromHeap q task = q\<lparr>eq_mem := m', eq_heap := h'\<rparr>" "heap_part_ok (removeFromHeap q task)"
      "mset (eq_heap q) = add_mset task (mset h')" "same_tasks (eq_mem q) m'"
    by (rule removeFromHeap_spec)
  then have "queue_inv (q\<lparr>eq_mem := m', eq_heap := h', eq_pendingTasks := fmdrop (task_key n phase) (eq_pendingTasks q)\<rparr>)"
    using task by (intro queue_inv_drop [OF inv, of "[task]"]) (auto simp: heap_part_ok_def)
  with ret Some r(1) show ?thesis by (auto simp: CancelTask_def Let_def)
next
  case None
  show ?thesis
  proof (cases "fmlookup (eq_activeTasks q) (task_key n phase)")
    case (Some task)
    then have key: "getTaskKey (eq_mem q task) = task_key n phase"
      using inv by (auto simp: queue_inv_def keyed_def)
    with None have "task \<notin> set (eq_heap q)" using pending_not_in_heap [OF inv] by simp
    with inv have "queue_inv (q\<lparr>eq_mem := (eq_mem q)(task := (eq_mem q task)\<lparr>et_Context := c\<rparr>)\<rparr>)" for c
      by (rule queue_inv_write) (simp add: getTaskKey_def)
    with ret Some None show ?thesis by (auto simp: CancelTask_def Let_def split: outcome.splits)
  qed (use ret None inv in \<open>auto simp: CancelTask_def Let_def\<close>)
qed

lemma fold_fmdrop_lookup: "fmlookup (fold fmdrop ks m) k = (if k \<in> set ks then None else fmlookup m k)"
  by (induction ks arbitrary: m) auto

lemma queue_inv_active_subset:
  assumes "queue_inv q"
  shows "queue_inv (q\<lparr>eq_activeTasks := fold fmdrop ks (eq_activeTasks q)\<rparr>)"
  using assms unfolding queue_inv_def by (auto simp: fold_fmdrop_lookup)

lemma map_len_fold_fmdrop:
  "distinct ks \<Longrightarrow> set ks \<subseteq> fmdom' m \<Longrightarrow> map_len (fold fmdrop ks m) = map_len m - int (length ks)"
proof (induction ks arbitrary: m)
  case (Cons k ks)
  then have "k |\<in>| fmdom m" by (simp add: fmdom'_alt_def)
  moreover have "set ks \<subseteq> fmdom' (fmdrop k m)" using Cons.prems by auto
  ultimately show ?case using Cons.IH [of "fmdrop k m"] Cons.prems by simp
qed simp

lemma expired_tasks_iff:
  assumes "ranges_over tasks it"
  shows "k \<in> set (expired_tasks m cutoff tasks it)
      \<longleftrightarrow> (\<exists>a. fmlookup tasks k = Some a \<and> et_Timestamp (m a) < cutoff)"
    and "distinct (expired_tasks m cutoff tasks it)"
  using assms by (auto simp: expired_tasks_def ranges_overD fmlookup_dom_iff split: option.splits)

lemma expired_tasks_len:
  assumes "ranges_over tasks it"
  shows "map_len (fold fmdrop (expired_tasks m cutoff tasks it) tasks)
     = map_len tasks - int (length (expired_tasks m cutoff tasks it))"
  using expired_tasks_iff [OF assms] by (intro map_len_fold_fmdrop) (auto simp: fmdom'_alt_def fmlookup_dom_iff)

lemma mset_split_set:
  assumes "mset xs = mset ts + mset ys" "distinct xs" shows "set ys = set xs - set ts"
proof -
  have "distinct (ts @ ys)" using assms by (metis mset_append mset_eq_imp_distinct_iff)
  moreover have "set xs = set (ts @ ys)" using assms(1) by (metis mset_append set_mset_mset)
  ultimately show ?thesis by auto
qed

lemma queue_inv_distinct: "queue_inv q \<Longrightarrow> distinct (eq_heap q)"
  unfolding queue_inv_def using indexed_distinct by blast

lemma set_map_filter_iff: "y \<in> set (List.map_filter f xs) \<longleftrightarrow> (\<exists>x \<in> set xs. f x = Some y)"
  by (induction xs) (auto simp: List.map_filter_def)

lemma Cleanup_pending:
  fixes cutoff :: time
  assumes inv: "queue_inv q" and it: "ranges_over (eq_pendingTasks q) it"
  defines "exP \<equiv> expired_tasks (eq_mem q) cutoff (eq_pendingTasks q) it"
  defines "ts \<equiv> List.map_filter (fmlookup (eq_pendingTasks q)) exP"
  shows "distinct ts" "set ts = {a \<in> set (eq_heap q). et_Timestamp (eq_mem q a) < cutoff}"
    "set exP = (\<lambda>a. getTaskKey (eq_mem q a)) ` set ts" "length ts = length exP"
proof -
  have pend: "fmlookup (eq_pendingTasks q) k = Some a \<longleftrightarrow> a \<in> set (eq_heap q) \<and> getTaskKey (eq_mem q a) = k" for k a
    using inv by (simp add: queue_inv_def)
  have ex: "k \<in> set exP \<longleftrightarrow> (\<exists>a. fmlookup (eq_pendingTasks q) k = Some a \<and> et_Timestamp (eq_mem q a) < cutoff)" for k
    unfolding exP_def by (rule expired_tasks_iff [OF it])
  have ts: "ts = map (the \<circ> fmlookup (eq_pendingTasks q)) exP"
    unfolding ts_def List.map_filter_def using ex
    by (intro arg_cong [where f = "map _"] filter_True) auto
  have "distinct exP" using it by (simp add: exP_def expired_tasks_def ranges_overD)
  moreover have "inj_on (the \<circ> fmlookup (eq_pendingTasks q)) (set exP)"
    unfolding inj_on_def comp_def by (metis ex pend option.sel)
  ultimately show "distinct ts" "length ts = length exP" using ts by (simp_all add: distinct_map)
  have "a \<in> set ts \<longleftrightarrow> (\<exists>k \<in> set exP. fmlookup (eq_pendingTasks q) k = Some a)" for a
    by (simp add: ts_def set_map_filter_iff)
  then have "a \<in> set ts \<longleftrightarrow> a \<in> set (eq_heap q) \<and> et_Timestamp (eq_mem q a) < cutoff" for a
    by (metis ex pend option.inject)
  then show set_ts: "set ts = {a \<in> set (eq_heap q). et_Timestamp (eq_mem q a) < cutoff}" by auto
  have "k \<in> set exP \<longleftrightarrow> (\<exists>a \<in> set ts. getTaskKey (eq_mem q a) = k)" for k
    unfolding ex set_ts using pend by auto
  then show "set exP = (\<lambda>a. getTaskKey (eq_mem q a)) ` set ts" by auto
qed

lemma CleanupExpiredTasks_spec:
  assumes inv: "queue_inv q" and itP: "ranges_over (eq_pendingTasks q) itP"
  shows "queue_inv (snd (CleanupExpiredTasks now itA itP q))"
    "set (eq_heap (snd (CleanupExpiredTasks now itA itP q)))
       = {a \<in> set (eq_heap q). \<not> et_Timestamp (eq_mem q a) < now - eq_taskTimeout q}"
    "eq_activeTasks (snd (CleanupExpiredTasks now itA itP q))
       = fold fmdrop (expired_tasks (eq_mem q) (now - eq_taskTimeout q) (eq_activeTasks q) itA) (eq_activeTasks q)"
    "eq_pendingTasks (snd (CleanupExpiredTasks now itA itP q))
       = fold fmdrop (expired_tasks (eq_mem q) (now - eq_taskTimeout q) (eq_pendingTasks q) itP) (eq_pendingTasks q)"
proof -
  let ?cut = "now - eq_taskTimeout q"
  let ?exA = "expired_tasks (eq_mem q) ?cut (eq_activeTasks q) itA"
  let ?exP = "expired_tasks (eq_mem q) ?cut (eq_pendingTasks q) itP"
  let ?ts = "List.map_filter (fmlookup (eq_pendingTasks q)) ?exP"
  let ?q = "q\<lparr>eq_activeTasks := fold fmdrop ?exA (eq_activeTasks q)\<rparr>"
  let ?P = "fold fmdrop ?exP (eq_pendingTasks q)"
  have fields: "eq_heap ?q = eq_heap q" "eq_mem ?q = eq_mem q" "eq_pendingTasks ?q = eq_pendingTasks q" by simp_all
  have invA: "queue_inv ?q" using inv by (rule queue_inv_active_subset)
  note ts = Cleanup_pending [OF inv itP, of ?cut]
  have P: "fmlookup ?P k = (if k \<in> (\<lambda>a. getTaskKey (eq_mem q a)) ` set ?ts then None
      else fmlookup (eq_pendingTasks q) k)" for k
    unfolding fold_fmdrop_lookup by (subst ts(3)) (rule refl)
  have "set ?ts \<subseteq> set (eq_heap ?q)" using ts(2) by auto
  from removeFromHeap_fold [OF queue_inv_heap_part [OF invA] ts(1) this] obtain m' h' where
    r: "fold (\<lambda>task q. removeFromHeap q task) ?ts ?q = ?q\<lparr>eq_mem := m', eq_heap := h'\<rparr>"
      "indexed m' h'" "heap_sorted m' h'" "mset (eq_heap q) = mset ?ts + mset h'" "same_tasks (eq_mem q) m'"
    by auto
  have out: "snd (CleanupExpiredTasks now itA itP q) = ?q\<lparr>eq_mem := m', eq_heap := h', eq_pendingTasks := ?P\<rparr>"
    using r(1) removeFromHeap_pending [where q = ?q and ts = ?ts and P = ?P] by (simp add: CleanupExpiredTasks_def Let_def)
  show "queue_inv (snd (CleanupExpiredTasks now itA itP q))"
    unfolding out
  proof (rule queue_inv_drop [OF invA _ r(2,3)])
    show "mset (eq_heap ?q) = mset ?ts + mset h'" using r(4) by (simp only: fields)
  qed (simp_all only: fields r(5) P)
  have "set h' = set (eq_heap q) - set ?ts"
    using r(4) queue_inv_distinct [OF inv] by (rule mset_split_set)
  also have "\<dots> = {a \<in> set (eq_heap q). \<not> et_Timestamp (eq_mem q a) < ?cut}" by (subst ts(2)) blast
  finally show "set (eq_heap (snd (CleanupExpiredTasks now itA itP q)))
       = {a \<in> set (eq_heap q). \<not> et_Timestamp (eq_mem q a) < ?cut}"
    unfolding out by simp
  show "eq_activeTasks (snd (CleanupExpiredTasks now itA itP q)) = fold fmdrop ?exA (eq_activeTasks q)"
    "eq_pendingTasks (snd (CleanupExpiredTasks now itA itP q)) = ?P"
    unfolding out by simp_all
qed

section \<open>Runs of the queue\<close>

text \<open>Workers, the background processor and clients in any order. A worker fails only tasks that are
  active, which is how the queue is meant to be used; \<open>FailTask\<close> itself does not check it. The two
  critical sections of \<open>processQueue\<close> are one step.\<close>

inductive queue_reach :: "task_mem \<Rightarrow> int \<Rightarrow> ExecutionQueue \<Rightarrow> bool" for m0 capacity where
  start: "NewExecutionQueue m0 capacity = Ret q \<Longrightarrow> queue_reach m0 capacity q"
| enqueue: "queue_reach m0 capacity q \<Longrightarrow> queue_reach m0 capacity (snd (Enqueue q task))"
| dequeue: "queue_reach m0 capacity q \<Longrightarrow> queue_reach m0 capacity (snd (Dequeue q))"
| complete: "queue_reach m0 capacity q \<Longrightarrow> queue_reach m0 capacity (CompleteTask it q task)"
| fail: "queue_reach m0 capacity q \<Longrightarrow>
    fmlookup (eq_activeTasks q) (getTaskKey (eq_mem q task)) \<noteq> None \<Longrightarrow>
    queue_reach m0 capacity (snd (FailTask now q task err))"
| cancel: "queue_reach m0 capacity q \<Longrightarrow> CancelTask q n phase = Ret (e, q') \<Longrightarrow> queue_reach m0 capacity q'"
| cleanup: "queue_reach m0 capacity q \<Longrightarrow> ranges_over (eq_pendingTasks q) itP \<Longrightarrow>
    queue_reach m0 capacity (snd (CleanupExpiredTasks now itA itP q))"
| process: "queue_reach m0 capacity q \<Longrightarrow> queue_reach m0 capacity (processQueue q)"
| receive: "queue_reach m0 capacity q \<Longrightarrow> receive_task q = Some (task, q') \<Longrightarrow> queue_reach m0 capacity q'"

lemma NewExecutionQueue_inv [inv_intros]: "NewExecutionQueue m0 capacity = Ret q \<Longrightarrow> queue_inv q"
  by (auto simp: NewExecutionQueue_def Let_def set_heap_def heap_Init_def TaskHeap_def TaskHeap_Len_def
      queue_inv_def indexed_def heap_sorted_def keyed_def split: if_splits)

lemma receive_task_inv: "receive_task q = Some (task, q') \<Longrightarrow> queue_inv q \<Longrightarrow> queue_inv q'"
  by (auto simp: receive_task_def split: list.splits)

lemma queue_reach_inv: "queue_reach m0 capacity q \<Longrightarrow> queue_inv q"
  by (induction rule: queue_reach.induct)
    (blast intro: inv_intros CleanupExpiredTasks_spec(1) receive_task_inv)+

text \<open>The example store of the witnesses: two tasks.\<close>

definition sample_task :: "string \<Rightarrow> int \<Rightarrow> time \<Rightarrow> string list \<Rightarrow> ExecutionTask" where
  "sample_task name prio created deps =
     \<lparr>et_IntentName = \<lparr>nn_Namespace = ''ns'', nn_Name = name\<rparr>, et_Phase = ''p'', et_Priority = prio,
      et_Timestamp = created, et_Context = None, et_RetryCount = 0, et_MaxRetries = 1,
      et_Dependencies = deps, et_index = 0\<rparr>"

definition sample_mem :: task_mem where
  "sample_mem a = (if a = 0 then sample_task ''a'' 1 5 [] else sample_task ''b'' 2 7 [''ns/a:p''])"

definition sample_queue :: ExecutionQueue where
  "sample_queue =
     (case NewExecutionQueue sample_mem 2 of
        Ret q \<Rightarrow> snd (Enqueue (snd (Enqueue q 0)) 1) | Panic _ \<Rightarrow> undefined)"

lemma sample_queue_eval:
  "eq_heap sample_queue = [1, 0]" "eq_pendingTasks sample_queue = fmap_of_list [(''ns/b:p'', 1), (''ns/a:p'', 0)]"
  "eq_mem sample_queue 0 = (sample_mem 0)\<lparr>et_index := 1\<rparr>" "eq_mem sample_queue 1 = (sample_mem 1)\<lparr>et_index := 0\<rparr>"
  "eq_activeTasks sample_queue = fmempty" "eq_completedTasks sample_queue = fmempty" "eq_capacity sample_queue = 2"
  "eq_channel sample_queue = []" "eq_maxPendingTasks sample_queue = 4"
  by code_simp+

lemma sample_queue_reach: "queue_reach sample_mem 2 sample_queue"
proof -
  obtain q where q: "NewExecutionQueue sample_mem 2 = Ret q" by (simp add: NewExecutionQueue_def Let_def)
  then show ?thesis unfolding sample_queue_def by (simp add: queue_reach.start queue_reach.enqueue)
qed

text \<open>A task that is strictly ahead of all others but whose dependencies are not completed.\<close>

definition blocked_head :: "ExecutionQueue \<Rightarrow> addr \<Rightarrow> bool" where
  "blocked_head q a \<longleftrightarrow> queue_inv q \<and> a \<in> set (eq_heap q)
     \<and> (\<forall>b \<in> set (eq_heap q). b \<noteq> a \<longrightarrow> task_before (eq_mem q a) (eq_mem q b))
     \<and> \<not> checkTaskDependencies q a"

lemma processQueue_blocked:
  assumes "blocked_head q a"
  shows "blocked_head (processQueue q) a" "eq_channel (processQueue q) = eq_channel q"
    "set (eq_heap (processQueue q)) = set (eq_heap q)"
proof -
  have inv: "queue_inv q" and a: "a \<in> set (eq_heap q)" "eq_heap q \<noteq> []"
    using assms by (auto simp: blocked_head_def)
  have "blocked_head (processQueue q) a \<and> eq_channel (processQueue q) = eq_channel q
      \<and> set (eq_heap (processQueue q)) = set (eq_heap q)"
  proof (cases "int (length (eq_channel q)) \<ge> eq_capacity q")
    case True
    with assms show ?thesis by (simp add: processQueue_def)
  next
    case False
    obtain b q1 where d: "Dequeue q = (Inr b, q1)" "same_tasks (eq_mem q) (eq_mem q1)"
      "mset (eq_heap q) = add_mset b (mset (eq_heap q1))" "\<not> task_before (eq_mem q a) (eq_mem q b)"
      "b \<in> set (eq_heap q)"
      using Dequeue_spec [OF inv a(2)] a by (cases; auto)
    have b: "b = a" using assms d(4,5) by (auto simp: blocked_head_def)
    note act = Dequeue_active [OF inv d(1)]
    have inv1: "queue_inv q1" using Dequeue_inv [OF inv] d(1) by simp
    have unmet: "\<not> checkTaskDependencies q1 a"
      using assms act(4) by (simp add: blocked_head_def checkTaskDependencies_def same_tasks_fields [OF d(2)])
    with False d(1) b have q': "processQueue q = requeue q1 a" by (simp add: processQueue_def)
    let ?q = "q1\<lparr>eq_activeTasks := fmdrop (getTaskKey (eq_mem q1 a)) (eq_activeTasks q1)\<rparr>"
    have pend: "fmlookup (eq_pendingTasks ?q) (getTaskKey (eq_mem ?q a)) = None"
      using inv1 act(1) b by (auto simp: queue_inv_def)
    have "fmlookup (eq_activeTasks ?q) (getTaskKey (eq_mem ?q a)) = None" by simp
    note ins = insert_task_inv [OF queue_inv_deactivate [OF inv1] pend this, folded requeue_eq]
    have ms: "mset (eq_heap (requeue q1 a)) = mset (eq_heap q)" using ins(2) d(3) b by simp
    have st: "same_tasks (eq_mem q) (eq_mem (requeue q1 a))" using same_tasks_trans [OF d(2)] ins(3) by simp
    have fr: "eq_channel (requeue q1 a) = eq_channel q1" "eq_completedTasks (requeue q1 a) = eq_completedTasks q1"
      by (simp_all add: requeue_def Let_def set_heap_def)
    have "blocked_head (requeue q1 a) a"
      using assms ins(1) ms act(4) unfolding blocked_head_def checkTaskDependencies_def fr
      by (simp add: same_tasks_fields [OF st] set_mset_mset [symmetric] del: set_mset_mset)
    with q' fr act(2) ms show ?thesis by (metis set_mset_mset)
  qed
  then show "blocked_head (processQueue q) a" "eq_channel (processQueue q) = eq_channel q"
    "set (eq_heap (processQueue q)) = set (eq_heap q)" by simp_all
qed

text \<open>The promised order: by falling priority, then by rising time stamp.\<close>

definition served_before :: "ExecutionTask \<Rightarrow> ExecutionTask \<Rightarrow> bool" where
  "served_before t u \<longleftrightarrow> et_Priority u < et_Priority t
     \<or> et_Priority u = et_Priority t \<and> et_Timestamp t \<le> et_Timestamp u"

lemma served_before_iff: "served_before t u \<longleftrightarrow> \<not> task_before u t"
  by (auto simp: served_before_def task_before_def)

text \<open>Draining the queue.\<close>

fun dequeue_all :: "nat \<Rightarrow> ExecutionQueue \<Rightarrow> addr list" where
  "dequeue_all 0 q = []"
| "dequeue_all (Suc n) q =
     (case Dequeue q of (Inl _, _) \<Rightarrow> [] | (Inr task, q') \<Rightarrow> task # dequeue_all n q')"

lemma dequeue_all_spec:
  assumes "queue_inv q" "n = length (eq_heap q)"
  shows "mset (dequeue_all n q) = mset (eq_heap q)
    \<and> sorted_wrt (\<lambda>a b. \<not> task_before (eq_mem q b) (eq_mem q a)) (dequeue_all n q)"
  using assms
proof (induction n arbitrary: q)
  case (Suc n)
  then have ne: "eq_heap q \<noteq> []" by auto
  obtain a q1 where d: "Dequeue q = (Inr a, q1)" "same_tasks (eq_mem q) (eq_mem q1)"
    "mset (eq_heap q) = add_mset a (mset (eq_heap q1))"
    "\<And>b. b \<in> set (eq_heap q) \<Longrightarrow> \<not> task_before (eq_mem q b) (eq_mem q a)"
    using Dequeue_spec [OF Suc.prems(1) ne] by (cases; auto)
  have "length (eq_heap q1) = n" using d(3) Suc.prems(2) by (metis size_mset size_add_mset nat.inject)
  then have IH: "mset (dequeue_all n q1) = mset (eq_heap q1)"
    "sorted_wrt (\<lambda>a b. \<not> task_before (eq_mem q b) (eq_mem q a)) (dequeue_all n q1)"
    using Suc.IH [of q1] Dequeue_inv [OF Suc.prems(1)] d(1) by (simp_all add: same_tasks_fields [OF d(2)])
  have "set (dequeue_all n q1) \<subseteq> set (eq_heap q)"
    using IH(1) d(3) by (metis set_mset_mset set_mset_add_mset_insert subset_insertI)
  with IH d show ?case by auto
qed simp

section \<open>Properties\<close>



text \<open>C37: \<open>Dequeue\<close> fails exactly when nothing is pending; otherwise the task it returns was pending, no
  pending task has a higher priority or the same priority and an older time stamp, and it has
  become active while all other pending tasks stay.\<close>

theorem Dequeue_serves_best:
  assumes "queue_inv q"
  shows "(eq_pendingTasks q = fmempty \<longrightarrow> Dequeue q = (Inl QueueEmpty, q))
    \<and> (eq_pendingTasks q \<noteq> fmempty \<longrightarrow>
        (\<exists>task q'. Dequeue q = (Inr task, q')
          \<and> fmlookup (eq_pendingTasks q) (getTaskKey (eq_mem q task)) = Some task
          \<and> (\<forall>k b. fmlookup (eq_pendingTasks q) k = Some b \<longrightarrow> served_before (eq_mem q task) (eq_mem q b))
          \<and> eq_pendingTasks q' = fmdrop (getTaskKey (eq_mem q task)) (eq_pendingTasks q)
          \<and> eq_activeTasks q' = fmupd (getTaskKey (eq_mem q task)) task (eq_activeTasks q)))"
proof -
  have pend: "fmlookup (eq_pendingTasks q) k = Some a \<longleftrightarrow> a \<in> set (eq_heap q) \<and> getTaskKey (eq_mem q a) = k" for k a
    using assms by (simp add: queue_inv_def)
  have empty: "eq_pendingTasks q = fmempty \<longleftrightarrow> eq_heap q = []"
  proof
    assume "eq_pendingTasks q = fmempty"
    then have "a \<notin> set (eq_heap q)" for a using pend [of "getTaskKey (eq_mem q a)" a] by simp
    then show "eq_heap q = []" by (metis list.set_intros(1) neq_Nil_conv)
  next
    assume "eq_heap q = []"
    then have "fmlookup (eq_pendingTasks q) k = None" for k using pend [of k] by (metis empty_iff empty_set not_Some_eq)
    then show "eq_pendingTasks q = fmempty" by (simp add: fmap_ext)
  qed
  show ?thesis
  proof (cases "eq_heap q = []")
    case False
    from Dequeue_spec [OF assms False] show ?thesis
    proof cases
      case (1 task m' h' P)
      have "task \<in> set (eq_heap q)" using 1(3) False by simp
      with 1 pend empty False show ?thesis by (auto simp: served_before_iff)
    qed
  qed (simp add: empty Dequeue_def)
qed

theorem Dequeue_serves_best_witness:
  "\<exists>task q'. Dequeue sample_queue = (Inr task, q')
     \<and> fmlookup (eq_pendingTasks sample_queue) (getTaskKey (eq_mem sample_queue task)) = Some task"
proof -
  have "eq_pendingTasks sample_queue \<noteq> fmempty" by code_simp
  with Dequeue_serves_best [OF queue_reach_inv [OF sample_queue_reach]] show ?thesis by blast
qed

text \<open>Taking all tasks out one by one with \<open>Dequeue\<close> yields exactly the waiting tasks, ordered by
  falling priority and, at equal priority, by rising time stamp.\<close>

theorem dequeue_all_sorted:
  assumes "queue_inv q"
  shows "mset (dequeue_all (length (eq_heap q)) q) = mset (eq_heap q)
    \<and> sorted_wrt (\<lambda>a b. served_before (eq_mem q a) (eq_mem q b)) (dequeue_all (length (eq_heap q)) q)"
  using dequeue_all_spec [OF assms refl] by (simp only: served_before_iff)

theorem dequeue_all_sorted_witness:
  "mset (dequeue_all 2 sample_queue) = {#0, 1#} \<and> dequeue_all 2 sample_queue = [1, 0]"
proof -
  have "dequeue_all 2 sample_queue = [1, 0]" by code_simp
  with dequeue_all_sorted [OF queue_reach_inv [OF sample_queue_reach]] show ?thesis
    by (simp add: sample_queue_eval numeral_2_eq_2)
qed

text \<open>\<open>Enqueue\<close> refuses a task whose key is already active or pending and a task that comes when the
  pending map is full, and changes nothing then but the counter of dropped tasks; otherwise the task
  becomes pending and the number of pending tasks stays within the limit.\<close>

theorem Enqueue_outcome:
  assumes "queue_inv q" and "Enqueue q task = (r, q')"
  shows "case r of
      Some (TaskAlreadyActive k) \<Rightarrow> q' = q \<and> fmlookup (eq_activeTasks q) k \<noteq> None
    | Some (TaskAlreadyPending k) \<Rightarrow> q' = q \<and> fmlookup (eq_pendingTasks q) k \<noteq> None
    | Some QueueAtCapacity \<Rightarrow> map_len (eq_pendingTasks q) \<ge> eq_maxPendingTasks q
        \<and> q' = q\<lparr>eq_droppedCount := inc64 (eq_droppedCount q)\<rparr>
    | Some _ \<Rightarrow> False
    | None \<Rightarrow> eq_pendingTasks q' = fmupd (getTaskKey (eq_mem q task)) task (eq_pendingTasks q)
        \<and> map_len (eq_pendingTasks q') = map_len (eq_pendingTasks q) + 1
        \<and> map_len (eq_pendingTasks q') \<le> eq_maxPendingTasks q'
        \<and> mset (eq_heap q') = add_mset task (mset (eq_heap q))
        \<and> eq_activeTasks q' = eq_activeTasks q"
proof (cases "fmlookup (eq_activeTasks q) (getTaskKey (eq_mem q task)) = None
    \<and> fmlookup (eq_pendingTasks q) (getTaskKey (eq_mem q task)) = None
    \<and> map_len (eq_pendingTasks q) < eq_maxPendingTasks q")
  case True
  then have "r = None" "q' = (insert_task q task)\<lparr>eq_enqueuedCount := inc64 (eq_enqueuedCount q)\<rparr>"
    using assms(2) by (simp_all add: Enqueue_accepts)
  moreover have "mset (eq_heap (insert_task q task)) = add_mset task (mset (eq_heap q))"
    using True assms(1) by (intro insert_task_inv) simp_all
  moreover have "map_len (fmupd (getTaskKey (eq_mem q task)) task (eq_pendingTasks q)) = map_len (eq_pendingTasks q) + 1"
    using True by (simp add: fmdom_notI)
  ultimately show ?thesis
    using True by (simp add: insert_task_def Let_def set_heap_def del: map_len_update)
next
  case False
  then show ?thesis using assms(2) by (auto simp: Enqueue_def Let_def split: if_splits)
qed

theorem Enqueue_outcome_witness:
  "fst (Enqueue sample_queue 0) = Some (TaskAlreadyPending ''ns/a:p'')
   \<and> snd (Enqueue sample_queue 0) = sample_queue"
proof -
  have e: "fst (Enqueue sample_queue 0) = Some (TaskAlreadyPending ''ns/a:p'')" by code_simp
  with Enqueue_outcome [OF queue_reach_inv [OF sample_queue_reach], of 0 "fst (Enqueue sample_queue 0)"
      "snd (Enqueue sample_queue 0)"] show ?thesis by (simp add: prod_eq_iff)
qed

text \<open>A failed task that was active is retried while its retry count is below the limit: it becomes
  pending again with the count and the priority raised and is no longer active; the count never
  passes the limit, and the failure after the last retry is reported and recorded as completed.\<close>

theorem FailTask_retries:
  assumes "queue_inv q" and "fmlookup (eq_activeTasks q) (getTaskKey (eq_mem q task)) \<noteq> None"
    and "int64_range (et_MaxRetries (eq_mem q task))" and "0 \<le> et_RetryCount (eq_mem q task)"
    and "FailTask now q task err = (r, q')"
  defines "t \<equiv> eq_mem q task" and "t' \<equiv> eq_mem q' task"
  shows "fmlookup (eq_activeTasks q') (getTaskKey t) = None
    \<and> (if et_RetryCount t < et_MaxRetries t
       then r = None \<and> fmlookup (eq_pendingTasks q') (getTaskKey t) = Some task \<and> task \<in> set (eq_heap q')
         \<and> et_RetryCount t' = et_RetryCount t + 1 \<and> et_RetryCount t' \<le> et_MaxRetries t'
         \<and> et_Priority t' = wrap64 (et_Priority t + 10) \<and> et_Timestamp t' = now
       else r = Some (TaskFailed (et_MaxRetries t) err)
         \<and> fmlookup (eq_completedTasks q') (getTaskKey t) = Some task \<and> eq_heap q' = eq_heap q)"
proof (cases "et_RetryCount t < et_MaxRetries t")
  case True
  let ?q = "retry_state now q task"
  note ins = insert_task_inv [OF retry_state_free [OF assms(1,2), of now]]
  have q': "r = None" "q' = insert_task ?q task" using assms(5) True by (simp_all add: FailTask_eq t_def)
  have t': "strip_index (eq_mem ?q task) = strip_index t'"
    using ins(3) q'(2) by (simp add: same_tasks_def t'_def)
  have "et_RetryCount t' = inc64 (et_RetryCount t) \<and> et_MaxRetries t' = et_MaxRetries t
      \<and> et_Priority t' = wrap64 (et_Priority t + 10) \<and> et_Timestamp t' = now"
    using t' by (cases t'; cases t) (simp add: retry_state_def Let_def strip_index_def t_def)
  moreover have "inc64 (et_RetryCount t) = et_RetryCount t + 1"
    using True assms(3,4) by (simp add: int64_range_def t_def)
  moreover have "fmlookup (eq_activeTasks q') (getTaskKey t) = None"
      "fmlookup (eq_pendingTasks q') (getTaskKey t) = Some task"
    unfolding q'(2) insert_task_def retry_state_key by (simp_all add: t_def retry_state_def Let_def set_heap_def)
  moreover have "task \<in> set (eq_heap q')" using ins(2) q'(2) by (metis set_mset_mset union_single_eq_member)
  ultimately show ?thesis using q'(1) True by simp
next
  case False
  then show ?thesis using assms(5) by (auto simp: FailTask_eq t_def Let_def)
qed

theorem FailTask_retries_witness:
  "\<exists>q. queue_inv q \<and> fst (FailTask 50 q 1 ''e'') = None \<and> et_RetryCount (eq_mem (snd (FailTask 50 q 1 ''e'')) 1) = 1"
proof -
  let ?q = "snd (Dequeue sample_queue)"
  have inv: "queue_inv ?q" using queue_reach_inv [OF sample_queue_reach] by (rule Dequeue_inv)
  have act: "fmlookup (eq_activeTasks ?q) (getTaskKey (eq_mem ?q 1)) \<noteq> None"
    and rc: "et_RetryCount (eq_mem ?q 1) = 0" and mr: "et_MaxRetries (eq_mem ?q 1) = 1" by code_simp+
  obtain r q' where f: "FailTask 50 ?q 1 ''e'' = (r, q')" by fastforce
  from FailTask_retries [OF inv act _ _ f] rc mr f inv show ?thesis
    by (intro exI [of _ ?q]) (auto simp: int64_range_def)
qed

text \<open>A task whose dependencies are not completed but which is strictly ahead of all others blocks
  the queue: however often the processor runs, nothing is sent to the workers and the same tasks
  stay waiting.\<close>

theorem processQueue_starves:
  assumes "blocked_head q a"
  shows "eq_channel ((processQueue ^^ n) q) = eq_channel q \<and> set (eq_heap ((processQueue ^^ n) q)) = set (eq_heap q)"
proof -
  have "blocked_head ((processQueue ^^ n) q) a
      \<and> eq_channel ((processQueue ^^ n) q) = eq_channel q \<and> set (eq_heap ((processQueue ^^ n) q)) = set (eq_heap q)"
    using assms by (induction n) (simp_all add: processQueue_blocked [where a = a])
  then show ?thesis by simp
qed

theorem processQueue_starves_witness:
  "eq_channel ((processQueue ^^ 1000) sample_queue) = [] \<and> checkTaskDependencies sample_queue 0"
proof -
  have "\<not> checkTaskDependencies sample_queue 1" "checkTaskDependencies sample_queue 0"
    "task_before (eq_mem sample_queue 1) (eq_mem sample_queue 0)" by code_simp+
  moreover from this have "blocked_head sample_queue 1"
    using queue_reach_inv [OF sample_queue_reach] by (auto simp: blocked_head_def sample_queue_eval(1))
  ultimately show ?thesis using processQueue_starves [of sample_queue 1 1000] by (simp add: sample_queue_eval(8))
qed

text \<open>\<open>CleanupExpiredTasks\<close> takes exactly the tasks older than the time-out out of the waiting and the
  active tasks, keeps the invariant, and returns their number.\<close>

theorem CleanupExpiredTasks_removes:
  assumes "queue_inv q" and "ranges_over (eq_pendingTasks q) itP" and "ranges_over (eq_activeTasks q) itA"
    and "CleanupExpiredTasks now itA itP q = (n, q')"
  defines "old a \<equiv> et_Timestamp (eq_mem q a) < now - eq_taskTimeout q"
  shows "queue_inv q' \<and> set (eq_heap q') = {a \<in> set (eq_heap q). \<not> old a}
    \<and> (\<forall>k a. fmlookup (eq_activeTasks q') k = Some a \<longleftrightarrow> fmlookup (eq_activeTasks q) k = Some a \<and> \<not> old a)
    \<and> n = GetActiveCount q + GetPendingCount q - GetActiveCount q' - GetPendingCount q'"
proof -
  note spec = CleanupExpiredTasks_spec [OF assms(1,2), of now itA, unfolded assms(4) snd_conv]
  have "n = int (length (expired_tasks (eq_mem q) (now - eq_taskTimeout q) (eq_activeTasks q) itA))
      + int (length (expired_tasks (eq_mem q) (now - eq_taskTimeout q) (eq_pendingTasks q) itP))"
    using assms(4) by (auto simp: CleanupExpiredTasks_def Let_def)
  then have "n = GetActiveCount q + GetPendingCount q - GetActiveCount q' - GetPendingCount q'"
    unfolding GetActiveCount_def GetPendingCount_def spec(3,4)
    by (simp add: expired_tasks_len [OF assms(2)] expired_tasks_len [OF assms(3)])
  moreover have "fmlookup (eq_activeTasks q') k = Some a \<longleftrightarrow> fmlookup (eq_activeTasks q) k = Some a \<and> \<not> old a" for k a
    unfolding spec(3) fold_fmdrop_lookup expired_tasks_iff [OF assms(3)] old_def by auto
  ultimately show ?thesis using spec(1,2) by (simp add: old_def)
qed

theorem CleanupExpiredTasks_removes_witness:
  "\<exists>n q'. CleanupExpiredTasks (30 * Minute + 6) [] [''ns/a:p'', ''ns/b:p''] sample_queue = (n, q')
     \<and> n = 1 \<and> queue_inv q' \<and> set (eq_heap q') = {1}"
proof -
  obtain n q' where c: "CleanupExpiredTasks (30 * Minute + 6) [] [''ns/a:p'', ''ns/b:p''] sample_queue = (n, q')"
    by fastforce
  have it: "ranges_over (eq_pendingTasks sample_queue) [''ns/a:p'', ''ns/b:p'']"
    "ranges_over (eq_activeTasks sample_queue) []" by code_simp+
  have n: "fst (CleanupExpiredTasks (30 * Minute + 6) [] [''ns/a:p'', ''ns/b:p''] sample_queue) = 1" by code_simp
  have "eq_taskTimeout sample_queue = 30 * Minute" by code_simp
  then have "{a \<in> set (eq_heap sample_queue). \<not> et_Timestamp (eq_mem sample_queue a)
      < 30 * Minute + 6 - eq_taskTimeout sample_queue} = {1}"
    by (auto simp: sample_queue_eval sample_queue_eval(4) [simplified] sample_mem_def sample_task_def)
  with CleanupExpiredTasks_removes [OF queue_reach_inv [OF sample_queue_reach] it c] n c show ?thesis by simp
qed

end
