(* ===== verification/Lock_Manager.thy ===== *)
theory Lock_Manager
  imports Go_Prelude "HOL-Library.Finite_Map"
begin

text \<open>
  The lock manager (\<open>pkg/shared/lock_manager.go\<close>): locks with an expiry time, exclusive or shared,
  and queues of goroutines that wait for a release. Every operation under \<open>lm.mutex\<close> is one
  function on the manager's state; the retry loop of \<open>AcquireLockWithOptions\<close>, which gives the mutex
  up between its sections, takes what the other goroutines do in between as an argument. A wait
  channel is a number, and \<open>lm_full\<close> holds the channels whose buffer of size one is filled.
  Renewal goroutines are not tracked: a renewal may happen at any time.
\<close>

section \<open>Model\<close>

record Lock =
  lk_Key :: string
  lk_Owner :: string
  lk_LockType :: string
  lk_AcquiredAt :: time
  lk_ExpiresAt :: time
  lk_Renewable :: bool
  lk_Metadata :: "(string, string) fmap"

record LockManager =
  lm_locks :: "(string, Lock) fmap"
  lm_waitQueues :: "(string, nat list) fmap"
  lm_full :: "nat set"
  lm_nextChan :: nat
  lm_defaultTimeout :: duration
  lm_renewalInterval :: duration
  lm_maxRetries :: int
  lm_retryBackoff :: duration
  lm_locksAcquired :: int
  lm_locksReleased :: int
  lm_lockTimeouts :: int
  lm_lockConflicts :: int
  lm_cleanupInterval :: duration
  lm_cleanupRunning :: bool

record LockOptions =
  lo_Timeout :: duration
  lo_LockType :: string
  lo_Renewable :: bool
  lo_Owner :: string
  lo_Metadata :: "(string, string) fmap"
  lo_RetryCount :: int
  lo_RetryBackoff :: duration

datatype lock_error =
    LockNotFound string
  | LockNotRenewable string
  | LockExpired string
  | CancelledDuringBackoff
  | TimeoutWaiting string
  | FailedAfterAttempts string int
  | AcquireFailed lock_error
  | FnError string

definition LockTypeExclusive :: string where "LockTypeExclusive = ''exclusive''"
definition LockTypeShared :: string where "LockTypeShared = ''shared''"

definition DefaultLockOptions :: LockOptions where
  "DefaultLockOptions =
     \<lparr>lo_Timeout = 30 * Second, lo_LockType = LockTypeExclusive, lo_Renewable = True, lo_Owner = '''',
      lo_Metadata = fmempty, lo_RetryCount = 3, lo_RetryBackoff = 1 * Second\<rparr>"

definition NewLockManager :: "duration \<Rightarrow> duration \<Rightarrow> int \<Rightarrow> LockManager" where
  "NewLockManager defaultTimeout retryInterval maxRetries =
     \<lparr>lm_locks = fmempty, lm_waitQueues = fmempty, lm_full = {}, lm_nextChan = 0,
      lm_defaultTimeout = defaultTimeout, lm_renewalInterval = retryInterval, lm_maxRetries = maxRetries,
      lm_retryBackoff = 1 * Second, lm_locksAcquired = 0, lm_locksReleased = 0, lm_lockTimeouts = 0,
      lm_lockConflicts = 0, lm_cleanupInterval = 1 * Minute, lm_cleanupRunning = False\<rparr>"

subsection \<open>Sections under the mutex\<close>

text \<open>A send to a channel whose buffer is full takes the default branch.\<close>

definition notifyWaiters :: "LockManager \<Rightarrow> string \<Rightarrow> LockManager" where
  "notifyWaiters lm key =
     (case fmlookup (lm_waitQueues lm) key of
        None \<Rightarrow> lm
      | Some waiters \<Rightarrow>
          lm\<lparr>lm_full := fold (\<lambda>c full. if c \<in> full then full else insert c full) waiters (lm_full lm),
             lm_waitQueues := fmdrop key (lm_waitQueues lm)\<rparr>)"

definition removeFromWaitQueue :: "LockManager \<Rightarrow> string \<Rightarrow> nat \<Rightarrow> LockManager" where
  "removeFromWaitQueue lm key targetChan =
     (case fmlookup (lm_waitQueues lm) key of
        None \<Rightarrow> lm
      | Some waiters \<Rightarrow>
          let rest = remove1 targetChan waiters
          in if rest = [] then lm\<lparr>lm_waitQueues := fmdrop key (lm_waitQueues lm)\<rparr>
             else lm\<lparr>lm_waitQueues := fmupd key rest (lm_waitQueues lm)\<rparr>)"

text \<open>The three clock readings: the expiry test, \<open>AcquiredAt\<close> and \<open>ExpiresAt\<close>.\<close>

definition tryAcquireLock ::
    "time \<Rightarrow> time \<Rightarrow> time \<Rightarrow> LockManager \<Rightarrow> string \<Rightarrow> LockOptions \<Rightarrow> bool \<times> LockManager" where
  "tryAcquireLock t1 t2 t3 lm key opts =
     (let create = (\<lambda>lm. (True, lm\<lparr>lm_locks := fmupd key
            \<lparr>lk_Key = key, lk_Owner = lo_Owner opts, lk_LockType = lo_LockType opts, lk_AcquiredAt = t2,
             lk_ExpiresAt = t3 + lo_Timeout opts, lk_Renewable = lo_Renewable opts,
             lk_Metadata = lo_Metadata opts\<rparr> (lm_locks lm)\<rparr>))
      in case fmlookup (lm_locks lm) key of
           None \<Rightarrow> create lm
         | Some existingLock \<Rightarrow>
             if t1 < lk_ExpiresAt existingLock
             then if lo_LockType opts = LockTypeShared \<and> lk_LockType existingLock = LockTypeShared
                  then (True, lm)
                  else (False, lm\<lparr>lm_lockConflicts := inc64 (lm_lockConflicts lm)\<rparr>)
             else create (lm\<lparr>lm_locks := fmdrop key (lm_locks lm)\<rparr>))"

definition ReleaseLock_body :: "LockManager \<Rightarrow> string \<Rightarrow> lock_error option \<times> LockManager" where
  "ReleaseLock_body lm key =
     (case fmlookup (lm_locks lm) key of
        None \<Rightarrow> (Some (LockNotFound key), lm)
      | Some lock \<Rightarrow>
          (None, notifyWaiters (lm\<lparr>lm_locks := fmdrop key (lm_locks lm),
                                   lm_locksReleased := inc64 (lm_locksReleased lm)\<rparr>) key))"

text \<open>\<open>sync.RWMutex\<close> is not reentrant: a goroutine that locks it a second time waits forever.\<close>

definition with_mutex :: "bool \<Rightarrow> 'a \<Rightarrow> 'a option" where
  "with_mutex held_by_caller body = (if held_by_caller then None else Some body)"

definition ReleaseLock :: "bool \<Rightarrow> LockManager \<Rightarrow> string \<Rightarrow> (lock_error option \<times> LockManager) option" where
  "ReleaseLock held_by_caller lm key = with_mutex held_by_caller (ReleaseLock_body lm key)"

definition IsLocked :: "time \<Rightarrow> LockManager \<Rightarrow> string \<Rightarrow> bool" where
  "IsLocked now lm key =
     (case fmlookup (lm_locks lm) key of
        None \<Rightarrow> False
      | Some lock \<Rightarrow> if now > lk_ExpiresAt lock then False else True)"

definition GetLock :: "time \<Rightarrow> LockManager \<Rightarrow> string \<Rightarrow> Lock option" where
  "GetLock now lm key =
     (case fmlookup (lm_locks lm) key of
        None \<Rightarrow> None
      | Some lock \<Rightarrow> if now > lk_ExpiresAt lock then None else Some lock)"

definition ActiveLocks :: "LockManager \<Rightarrow> int" where
  "ActiveLocks lm = map_len (lm_locks lm)"

definition ListLocks :: "time \<Rightarrow> string list \<Rightarrow> LockManager \<Rightarrow> Lock list" where
  "ListLocks now it lm =
     filter (\<lambda>lock. now < lk_ExpiresAt lock) (List.map_filter (fmlookup (lm_locks lm)) it)"

definition RenewLock ::
    "time \<Rightarrow> time \<Rightarrow> LockManager \<Rightarrow> string \<Rightarrow> duration \<Rightarrow> lock_error option \<times> LockManager" where
  "RenewLock t1 t2 lm key d =
     (case fmlookup (lm_locks lm) key of
        None \<Rightarrow> (Some (LockNotFound key), lm)
      | Some lock \<Rightarrow>
          if \<not> lk_Renewable lock then (Some (LockNotRenewable key), lm)
          else if t1 > lk_ExpiresAt lock then (Some (LockExpired key), lm)
          else (None, lm\<lparr>lm_locks := fmupd key (lock\<lparr>lk_ExpiresAt := t2 + d\<rparr>) (lm_locks lm)\<rparr>))"

record LockStats =
  ls_ActiveLocks :: int
  ls_LocksAcquired :: int
  ls_LocksReleased :: int
  ls_LockTimeouts :: int
  ls_LockConflicts :: int

definition LockManager_GetStats :: "LockManager \<Rightarrow> LockStats" where
  "LockManager_GetStats lm =
     \<lparr>ls_ActiveLocks = map_len (lm_locks lm), ls_LocksAcquired = lm_locksAcquired lm,
      ls_LocksReleased = lm_locksReleased lm, ls_LockTimeouts = lm_lockTimeouts lm,
      ls_LockConflicts = lm_lockConflicts lm\<rparr>"

definition cleanupExpiredLocks :: "time \<Rightarrow> string list \<Rightarrow> LockManager \<Rightarrow> LockManager" where
  "cleanupExpiredLocks now it lm =
     (let expired = filter (\<lambda>key. case fmlookup (lm_locks lm) key of
                                   None \<Rightarrow> False | Some lock \<Rightarrow> now > lk_ExpiresAt lock) it
      in fold (\<lambda>key lm. notifyWaiters (lm\<lparr>lm_locks := fmdrop key (lm_locks lm)\<rparr>) key) expired lm)"

text \<open>One tick of a renewal goroutine: nothing when the lock is gone, otherwise a renewal.\<close>

definition autoRenewLock_tick :: "time \<Rightarrow> time \<Rightarrow> LockManager \<Rightarrow> string \<Rightarrow> LockManager" where
  "autoRenewLock_tick t1 t2 lm key =
     (case fmlookup (lm_locks lm) key of
        None \<Rightarrow> lm
      | Some _ \<Rightarrow> snd (RenewLock t1 t2 lm key (lm_renewalInterval lm * 3)))"

text \<open>\<open>Stop\<close> holds the mutex while it calls \<open>ReleaseLock\<close> for every key; \<open>None\<close> means that it never
  returns.\<close>

fun Stop_loop :: "string list \<Rightarrow> LockManager \<Rightarrow> LockManager option" where
  "Stop_loop [] lm = Some lm"
| "Stop_loop (key # keys) lm =
     (case ReleaseLock True lm key of None \<Rightarrow> None | Some (_, lm') \<Rightarrow> Stop_loop keys lm')"

definition Stop :: "string list \<Rightarrow> LockManager \<Rightarrow> LockManager option" where
  "Stop it lm =
     Stop_loop it (if lm_cleanupRunning lm then lm\<lparr>lm_cleanupRunning := False\<rparr> else lm)"

subsection \<open>Acquiring with retries\<close>

text \<open>The two halves of \<open>waitForLockRelease\<close>: registering a channel, and the end of the wait. When the
  channel holds a notification the wait may end with it; otherwise it ends with the context, whose
  time-out is finite.\<close>

definition wait_register :: "LockManager \<Rightarrow> string \<Rightarrow> nat \<times> LockManager" where
  "wait_register lm key =
     (let c = lm_nextChan lm;
          waiters = (case fmlookup (lm_waitQueues lm) key of None \<Rightarrow> [] | Some ws \<Rightarrow> ws)
      in (c, lm\<lparr>lm_nextChan := c + 1, lm_waitQueues := fmupd key (waiters @ [c]) (lm_waitQueues lm)\<rparr>))"

definition wait_end :: "bool \<Rightarrow> LockManager \<Rightarrow> string \<Rightarrow> nat \<Rightarrow> bool \<times> LockManager" where
  "wait_end prefer_notification lm key c =
     (if c \<in> lm_full lm \<and> prefer_notification then (True, lm\<lparr>lm_full := lm_full lm - {c}\<rparr>)
      else (False, removeFromWaitQueue lm key c))"

text \<open>What surrounds one attempt: whether the context ends during the back-off, what other goroutines
  do before the attempt, between a failed attempt and the registration of the channel, and during
  the wait, and the clock readings.\<close>

record attempt_env =
  ae_cancelled :: bool
  ae_before :: "LockManager \<Rightarrow> LockManager"
  ae_t1 :: time
  ae_t2 :: time
  ae_t3 :: time
  ae_gap :: "LockManager \<Rightarrow> LockManager"
  ae_wait :: "LockManager \<Rightarrow> LockManager"
  ae_notified :: bool

function acquire_loop ::
    "(int \<Rightarrow> attempt_env) \<Rightarrow> string \<Rightarrow> LockOptions \<Rightarrow> int \<Rightarrow> LockManager \<Rightarrow> lock_error option \<times> LockManager" where
  "acquire_loop env key opts attempt lm =
     (if attempt \<le> lo_RetryCount opts
      then let e = env attempt; lm0 = ae_before e lm
           in if attempt > 0 \<and> ae_cancelled e then (Some CancelledDuringBackoff, lm0)
              else let (acquired, lm1) = tryAcquireLock (ae_t1 e) (ae_t2 e) (ae_t3 e) lm0 key opts
                   in if acquired then (None, lm1\<lparr>lm_locksAcquired := inc64 (lm_locksAcquired lm1)\<rparr>)
                      else if attempt < lo_RetryCount opts
                      then let (c, lm2) = wait_register (ae_gap e lm1) key;
                               (released, lm3) = wait_end (ae_notified e) (ae_wait e lm2) key c
                           in if \<not> released
                              then (Some (TimeoutWaiting key), lm3\<lparr>lm_lockTimeouts := inc64 (lm_lockTimeouts lm3)\<rparr>)
                              else acquire_loop env key opts (attempt + 1) lm3
                      else acquire_loop env key opts (attempt + 1) lm1
      else (Some (FailedAfterAttempts key (wrap64 (lo_RetryCount opts + 1))),
            lm\<lparr>lm_lockTimeouts := inc64 (lm_lockTimeouts lm)\<rparr>))"
  by pat_completeness auto
termination
  by (relation "measure (\<lambda>(env, key, opts, attempt, lm). nat (lo_RetryCount opts + 1 - attempt))") auto

declare acquire_loop.simps [simp del]

text \<open>\<open>nil\<close> options are the defaults. The context's time-out shows only in the environment.\<close>

definition AcquireLockWithOptions ::
    "(int \<Rightarrow> attempt_env) \<Rightarrow> LockManager \<Rightarrow> string \<Rightarrow> LockOptions option \<Rightarrow> lock_error option \<times> LockManager" where
  "AcquireLockWithOptions env lm key opts =
     acquire_loop env key (case opts of None \<Rightarrow> DefaultLockOptions | Some o' \<Rightarrow> o') 0 lm"

definition AcquireLock :: "(int \<Rightarrow> attempt_env) \<Rightarrow> LockManager \<Rightarrow> string \<Rightarrow> lock_error option \<times> LockManager" where
  "AcquireLock env lm key =
     AcquireLockWithOptions env lm key (Some (DefaultLockOptions\<lparr>lo_Owner := ''default''\<rparr>))"

definition TryLockWithTimeout ::
    "(int \<Rightarrow> attempt_env) \<Rightarrow> LockManager \<Rightarrow> string \<Rightarrow> duration \<Rightarrow> lock_error option \<times> LockManager" where
  "TryLockWithTimeout env lm key timeout =
     AcquireLockWithOptions env lm key
       (Some (DefaultLockOptions\<lparr>lo_Timeout := timeout, lo_Owner := ''timeout-lock''\<rparr>))"

text \<open>\<open>fn\<close> runs without the mutex, so it and the other goroutines transform the state; its error is
  returned after the deferred release, whose own error is only logged.\<close>

definition LockWithContext ::
    "(int \<Rightarrow> attempt_env) \<Rightarrow> LockManager \<Rightarrow> string \<Rightarrow> (LockManager \<Rightarrow> string option \<times> LockManager)
       \<Rightarrow> lock_error option \<times> LockManager" where
  "LockWithContext env lm key fn =
     (case AcquireLock env lm key of
        (Some err, lm1) \<Rightarrow> (Some (AcquireFailed err), lm1)
      | (None, lm1) \<Rightarrow>
          let (err, lm2) = fn lm1
          in (map_option FnError err, snd (ReleaseLock_body lm2 key)))"

subsection \<open>Runs\<close>

text \<open>The sections of all goroutines in the order in which they get the mutex.\<close>

datatype lock_event =
    EvTry string LockOptions time time time
  | EvRelease string
  | EvRenew string time time duration
  | EvAutoRenew string time time
  | EvCleanup time "string list"
  | EvRegister string
  | EvWaitEnd bool string nat

fun lock_step :: "lock_event \<Rightarrow> LockManager \<Rightarrow> LockManager" where
  "lock_step (EvTry key opts t1 t2 t3) lm = snd (tryAcquireLock t1 t2 t3 lm key opts)"
| "lock_step (EvRelease key) lm = snd (ReleaseLock_body lm key)"
| "lock_step (EvRenew key t1 t2 d) lm = snd (RenewLock t1 t2 lm key d)"
| "lock_step (EvAutoRenew key t1 t2) lm = autoRenewLock_tick t1 t2 lm key"
| "lock_step (EvCleanup now it) lm = cleanupExpiredLocks now it lm"
| "lock_step (EvRegister key) lm = snd (wait_register lm key)"
| "lock_step (EvWaitEnd p key c) lm = snd (wait_end p lm key c)"

text \<open>Every lock is stored under its own key; wait channels are queued at most once, and none of them
  holds a notification while it waits in a queue.\<close>

definition wait_ok :: "(string, nat list) fmap \<Rightarrow> nat set \<Rightarrow> nat \<Rightarrow> bool" where
  "wait_ok Q full n \<longleftrightarrow>
     (\<forall>c \<in> full. c < n)
     \<and> (\<forall>k ws. fmlookup Q k = Some ws \<longrightarrow> ws \<noteq> [] \<and> distinct ws \<and> (\<forall>c \<in> set ws. c < n \<and> c \<notin> full))
     \<and> (\<forall>j k ws vs. fmlookup Q j = Some ws \<longrightarrow> fmlookup Q k = Some vs \<longrightarrow> j \<noteq> k \<longrightarrow> set ws \<inter> set vs = {})"

definition lock_inv :: "LockManager \<Rightarrow> bool" where
  "lock_inv lm \<longleftrightarrow>
     (\<forall>k L. fmlookup (lm_locks lm) k = Some L \<longrightarrow> lk_Key L = k)
     \<and> wait_ok (lm_waitQueues lm) (lm_full lm) (lm_nextChan lm)"

section \<open>Lemmas\<close>

lemma wait_okD:
  assumes "wait_ok Q full n"
  shows "c \<in> full \<Longrightarrow> c < n" "fmlookup Q k = Some ws \<Longrightarrow> ws \<noteq> []" "fmlookup Q k = Some ws \<Longrightarrow> distinct ws"
    "fmlookup Q k = Some ws \<Longrightarrow> c \<in> set ws \<Longrightarrow> c < n" "fmlookup Q k = Some ws \<Longrightarrow> c \<in> set ws \<Longrightarrow> c \<notin> full"
    "fmlookup Q j = Some vs \<Longrightarrow> fmlookup Q k = Some ws \<Longrightarrow> c \<in> set vs \<Longrightarrow> c \<in> set ws \<Longrightarrow> j = k"
  using assms unfolding wait_ok_def by blast+

lemma wait_ok_drop: "wait_ok Q full n \<Longrightarrow> wait_ok (fmdrop k Q) full n"
  unfolding wait_ok_def by (auto split: if_splits)

lemma wait_ok_notify:
  assumes "wait_ok Q full n" "fmlookup Q k = Some ws"
  shows "wait_ok (fmdrop k Q) (full \<union> set ws) n"
proof -
  have "c \<notin> set ws" if "fmlookup Q j = Some vs" "c \<in> set vs" "j \<noteq> k" for j vs c
    using wait_okD(6) [OF assms(1) that(1) assms(2) that(2)] that(3) by blast
  with wait_ok_drop [OF assms(1), of k] wait_okD(4) [OF assms] show ?thesis
    unfolding wait_ok_def by (auto split: if_splits)
qed

lemma wait_ok_consume: "wait_ok Q full n \<Longrightarrow> wait_ok Q (full - A) n"
  unfolding wait_ok_def by blast

lemma wait_ok_shrink:
  assumes "wait_ok Q full n" "fmlookup Q k = Some ws" "vs \<noteq> []" "set vs \<subseteq> set ws" "distinct vs"
  shows "wait_ok (fmupd k vs Q) full n"
  using assms unfolding wait_ok_def by (auto split: if_splits) blast+

lemma wait_ok_register:
  assumes "wait_ok Q full n" "ws = (case fmlookup Q k of None \<Rightarrow> [] | Some ws \<Rightarrow> ws)"
  shows "wait_ok (fmupd k (ws @ [n]) Q) full (n + 1)"
proof -
  have ws: "distinct ws" "\<And>c. c \<in> set ws \<Longrightarrow> c < n \<and> c \<notin> full"
    using wait_okD [OF assms(1)] assms(2) by (auto split: option.splits)
  have disj: "set vs \<inter> set (ws @ [n]) = {}" if "fmlookup Q j = Some vs" "j \<noteq> k" for j vs
    using wait_okD(4,6) [OF assms(1) that(1)] that(2) assms(2) by (fastforce split: option.splits)
  have "n \<notin> full" using wait_okD(1) [OF assms(1)] by blast
  with assms(1) ws disj show ?thesis
    unfolding wait_ok_def by (auto split: if_splits simp: less_Suc_eq)
qed

lemma fold_fill: "fold (\<lambda>c full. if c \<in> full then full else insert c full) ws full = full \<union> set ws"
  by (induction ws arbitrary: full) auto

lemma notifyWaiters_locks [simp]: "lm_locks (notifyWaiters lm key) = lm_locks lm"
  by (simp add: notifyWaiters_def split: option.splits)

lemma notifyWaiters_inv:
  assumes "lock_inv lm" shows "lock_inv (notifyWaiters lm key)"
  using assms wait_ok_notify [of "lm_waitQueues lm" "lm_full lm" "lm_nextChan lm" key]
  by (auto simp: notifyWaiters_def lock_inv_def fold_fill split: option.splits)

lemma lock_inv_locks:
  assumes "lock_inv lm" "lm_waitQueues lm' = lm_waitQueues lm" "lm_full lm' = lm_full lm"
    "lm_nextChan lm' = lm_nextChan lm" "\<And>k L. fmlookup (lm_locks lm') k = Some L \<Longrightarrow> lk_Key L = k"
  shows "lock_inv lm'"
  using assms unfolding lock_inv_def by simp

lemma lock_inv_keys: "lock_inv lm \<Longrightarrow> fmlookup (lm_locks lm) k = Some L \<Longrightarrow> lk_Key L = k"
  by (simp add: lock_inv_def)

lemma tryAcquireLock_inv [inv_intros]:
  assumes "lock_inv lm" shows "lock_inv (snd (tryAcquireLock t1 t2 t3 lm key opts))"
  by (rule lock_inv_locks [OF assms])
    (use lock_inv_keys [OF assms] in \<open>auto simp: tryAcquireLock_def Let_def split: option.splits if_splits\<close>)

lemma RenewLock_inv [inv_intros]:
  assumes "lock_inv lm" shows "lock_inv (snd (RenewLock t1 t2 lm key d))"
  by (rule lock_inv_locks [OF assms])
    (use lock_inv_keys [OF assms] in \<open>auto simp: RenewLock_def split: option.splits if_splits\<close>)

lemma ReleaseLock_inv [inv_intros]:
  assumes "lock_inv lm" shows "lock_inv (snd (ReleaseLock_body lm key))"
proof -
  have "lock_inv (lm\<lparr>lm_locks := fmdrop key (lm_locks lm), lm_locksReleased := n\<rparr>)" for n
    using assms by (rule lock_inv_locks) (use lock_inv_keys [OF assms] in \<open>auto split: if_splits\<close>)
  then show ?thesis using assms by (auto simp: ReleaseLock_body_def notifyWaiters_inv split: option.splits)
qed

lemma cleanupExpiredLocks_inv [inv_intros]:
  assumes "lock_inv lm" shows "lock_inv (cleanupExpiredLocks now it lm)"
proof -
  have "lock_inv (fold (\<lambda>key lm. notifyWaiters (lm\<lparr>lm_locks := fmdrop key (lm_locks lm)\<rparr>) key) ks lm)" for ks
    using assms
  proof (induction ks arbitrary: lm)
    case (Cons k ks)
    have "lock_inv (lm\<lparr>lm_locks := fmdrop k (lm_locks lm)\<rparr>)"
      using Cons.prems by (rule lock_inv_locks) (use lock_inv_keys [OF Cons.prems] in \<open>auto split: if_splits\<close>)
    with Cons.IH show ?case by (simp add: notifyWaiters_inv)
  qed simp
  then show ?thesis by (simp add: cleanupExpiredLocks_def)
qed

lemma removeFromWaitQueue_inv:
  assumes "lock_inv lm" shows "lock_inv (removeFromWaitQueue lm key c)"
proof (cases "fmlookup (lm_waitQueues lm) key")
  case (Some ws)
  have ok: "wait_ok (lm_waitQueues lm) (lm_full lm) (lm_nextChan lm)" using assms by (simp add: lock_inv_def)
  have "wait_ok (fmupd key (remove1 c ws) (lm_waitQueues lm)) (lm_full lm) (lm_nextChan lm)"
    if "remove1 c ws \<noteq> []"
    using wait_okD(3) [OF ok Some] that by (intro wait_ok_shrink [OF ok Some]) (auto dest: notin_set_remove1)
  then show ?thesis
    using assms wait_ok_drop [OF ok] Some by (auto simp: removeFromWaitQueue_def lock_inv_def Let_def)
qed (use assms in \<open>simp add: removeFromWaitQueue_def\<close>)

lemma wait_register_inv [inv_intros]:
  assumes "lock_inv lm" shows "lock_inv (snd (wait_register lm key))"
  using assms wait_ok_register [of "lm_waitQueues lm" "lm_full lm" "lm_nextChan lm" _ key]
  by (simp add: lock_inv_def wait_register_def Let_def)

lemma wait_end_inv [inv_intros]:
  assumes "lock_inv lm" shows "lock_inv (snd (wait_end p lm key c))"
  using assms removeFromWaitQueue_inv [OF assms] wait_ok_consume [of "lm_waitQueues lm" "lm_full lm" _ "{c}"]
  by (auto simp: wait_end_def lock_inv_def)

lemma autoRenewLock_inv [inv_intros]: "lock_inv lm \<Longrightarrow> lock_inv (autoRenewLock_tick t1 t2 lm key)"
  by (auto simp: autoRenewLock_tick_def intro: inv_intros split: option.splits)

lemma lock_step_inv [inv_intros]: "lock_inv lm \<Longrightarrow> lock_inv (lock_step ev lm)"
  by (cases ev) (simp_all add: inv_intros)

lemma lock_run_inv: "lock_inv lm \<Longrightarrow> lock_inv (fold lock_step evs lm)"
  by (induction evs arbitrary: lm) (simp_all add: lock_step_inv)

lemma NewLockManager_inv [inv_intros]: "lock_inv (NewLockManager d i n)"
  by (simp add: NewLockManager_def lock_inv_def wait_ok_def)

text \<open>Events that leave a lock on \<open>k\<close> with expiry time \<open>e\<close> alone: no release or renewal of \<open>k\<close>, and all
  clock readings that decide about it come before \<open>e\<close>.\<close>

fun spares :: "string \<Rightarrow> time \<Rightarrow> lock_event \<Rightarrow> bool" where
  "spares k e (EvTry key opts t1 t2 t3) \<longleftrightarrow> (key = k \<longrightarrow> t1 < e)"
| "spares k e (EvRelease key) \<longleftrightarrow> key \<noteq> k"
| "spares k e (EvRenew key t1 t2 d) \<longleftrightarrow> key \<noteq> k"
| "spares k e (EvAutoRenew key t1 t2) \<longleftrightarrow> key \<noteq> k"
| "spares k e (EvCleanup now it) \<longleftrightarrow> now \<le> e"
| "spares k e _ \<longleftrightarrow> True"

lemma cleanup_keeps:
  assumes "fmlookup (lm_locks lm) k = Some L" "now \<le> lk_ExpiresAt L"
  shows "fmlookup (lm_locks (cleanupExpiredLocks now it lm)) k = Some L"
proof -
  have "fmlookup (lm_locks (fold (\<lambda>key lm. notifyWaiters (lm\<lparr>lm_locks := fmdrop key (lm_locks lm)\<rparr>) key) ks lm)) k
      = (if k \<in> set ks then None else fmlookup (lm_locks lm) k)" for ks
    by (induction ks arbitrary: lm) auto
  with assms show ?thesis by (simp add: cleanupExpiredLocks_def)
qed

lemma lock_step_keeps:
  assumes "fmlookup (lm_locks lm) k = Some L" "lk_LockType L \<noteq> LockTypeShared" "spares k (lk_ExpiresAt L) ev"
  shows "fmlookup (lm_locks (lock_step ev lm)) k = Some L"
  using assms
  by (cases ev)
    (auto simp: tryAcquireLock_def ReleaseLock_body_def RenewLock_def autoRenewLock_tick_def wait_register_def
      wait_end_def removeFromWaitQueue_def Let_def cleanup_keeps split: option.splits)

lemma lock_run_keeps:
  assumes "fmlookup (lm_locks lm) k = Some L" "lk_LockType L \<noteq> LockTypeShared"
    "list_all (spares k (lk_ExpiresAt L)) evs"
  shows "fmlookup (lm_locks (fold lock_step evs lm)) k = Some L"
  using assms by (induction evs arbitrary: lm) (simp_all add: lock_step_keeps)

lemma tryAcquireLock_success:
  assumes "tryAcquireLock t1 t2 t3 lm key opts = (True, lm')"
  shows "\<exists>L. fmlookup (lm_locks lm') key = Some L \<and>
      (lo_LockType opts = LockTypeShared \<and> lk_LockType L = LockTypeShared \<and> lm' = lm \<and> t1 < lk_ExpiresAt L
       \<or> lk_Owner L = lo_Owner opts \<and> lk_LockType L = lo_LockType opts \<and> lk_ExpiresAt L = t3 + lo_Timeout opts
         \<and> (\<forall>L0. fmlookup (lm_locks lm) key = Some L0 \<longrightarrow> lk_ExpiresAt L0 \<le> t1))"
  using assms by (auto simp: tryAcquireLock_def Let_def split: option.splits if_splits)

definition holds_lock :: "LockManager \<Rightarrow> string \<Rightarrow> LockOptions \<Rightarrow> bool" where
  "holds_lock lm key opts \<longleftrightarrow>
     (\<exists>L. fmlookup (lm_locks lm) key = Some L \<and>
        (lo_LockType opts = LockTypeShared \<and> lk_LockType L = LockTypeShared
         \<or> lk_Owner L = lo_Owner opts \<and> lk_LockType L = lo_LockType opts))"

lemma acquire_loop_holds:
  assumes "acquire_loop env key opts attempt lm = (None, lm')"
  shows "holds_lock lm' key opts"
  using assms
proof (induction env key opts attempt lm rule: acquire_loop.induct)
  case (1 env key opts attempt lm)
  let ?e = "env attempt"
  obtain ok lm1 where t: "tryAcquireLock (ae_t1 ?e) (ae_t2 ?e) (ae_t3 ?e) (ae_before ?e lm) key opts = (ok, lm1)"
    by fastforce
  obtain c lm2 where w: "wait_register (ae_gap ?e lm1) key = (c, lm2)" by fastforce
  obtain r lm3 where r: "wait_end (ae_notified ?e) (ae_wait ?e lm2) key c = (r, lm3)" by fastforce
  have a: "attempt \<le> lo_RetryCount opts" and c: "\<not> (attempt > 0 \<and> ae_cancelled ?e)"
    using 1(3) by (auto simp: acquire_loop.simps [of env key opts attempt] Let_def split: if_splits)
  show ?case
  proof (cases ok)
    case True
    with 1(3) a c t have "lm' = lm1\<lparr>lm_locksAcquired := inc64 (lm_locksAcquired lm1)\<rparr>"
      by (auto simp: acquire_loop.simps [of env key opts attempt] Let_def)
    then show ?thesis using tryAcquireLock_success [of _ _ _ _ key opts lm1] t True
      by (fastforce simp: holds_lock_def)
  next
    case False
    show ?thesis
    proof (cases "attempt < lo_RetryCount opts")
      case True
      with 1(3) a c t w r False have "r" "acquire_loop env key opts (attempt + 1) lm3 = (None, lm')"
        by (auto simp: acquire_loop.simps [of env key opts attempt] Let_def split: if_splits)
      with 1(1) [OF a refl refl c t [symmetric] refl] w r False True show ?thesis by simp
    next
      case nlt: False
      with 1(3) a c t False have "acquire_loop env key opts (attempt + 1) lm1 = (None, lm')"
        by (auto simp: acquire_loop.simps [of env key opts attempt] Let_def)
      with 1(2) [OF a refl refl c t [symmetric] refl] False nlt show ?thesis by simp
    qed
  qed
qed

text \<open>A manager of the witnesses: one exclusive lock on key \<open>k\<close> until time 100, taken by \<open>a\<close>.\<close>

definition sample_opts :: "string \<Rightarrow> string \<Rightarrow> LockOptions" where
  "sample_opts owner kind = DefaultLockOptions\<lparr>lo_Owner := owner, lo_LockType := kind, lo_Timeout := 90\<rparr>"

definition sample_locks :: "string \<Rightarrow> LockManager" where
  "sample_locks kind = snd (tryAcquireLock 10 10 10 (NewLockManager 30 5 3) ''k'' (sample_opts ''a'' kind))"

definition quiet_env :: attempt_env where
  "quiet_env = \<lparr>ae_cancelled = False, ae_before = (\<lambda>lm. lm), ae_t1 = 20, ae_t2 = 20, ae_t3 = 20,
     ae_gap = (\<lambda>lm. lm), ae_wait = (\<lambda>lm. lm), ae_notified = True\<rparr>"

lemmas sample_lock_simps = sample_locks_def sample_opts_def tryAcquireLock_def NewLockManager_def
  DefaultLockOptions_def LockTypeExclusive_def LockTypeShared_def Let_def

lemma sample_locks_inv: "lock_inv (sample_locks kind)"
  unfolding sample_locks_def by (intro tryAcquireLock_inv NewLockManager_inv)

section \<open>Properties\<close>

text \<open>C3: Mutual exclusion. While an exclusive lock has not expired, no sequence of operations of any
  goroutines that does not release or renew it removes or replaces it, and every attempt to acquire
  its key, exclusive or shared, is refused.\<close>

theorem lock_mutual_exclusion:
  assumes "fmlookup (lm_locks lm) k = Some L" and "lk_LockType L = LockTypeExclusive"
    and "list_all (spares k (lk_ExpiresAt L)) evs" and "t1 < lk_ExpiresAt L"
  shows "fmlookup (lm_locks (fold lock_step evs lm)) k = Some L
    \<and> fst (tryAcquireLock t1 t2 t3 (fold lock_step evs lm) k opts) = False"
proof -
  have "lk_LockType L \<noteq> LockTypeShared" using assms(2) by (simp add: LockTypeExclusive_def LockTypeShared_def)
  with lock_run_keeps [OF assms(1) this assms(3)] assms(4) show ?thesis
    by (simp add: tryAcquireLock_def Let_def)
qed

theorem lock_mutual_exclusion_witness:
  "fst (tryAcquireLock 60 60 60
      (fold lock_step [EvTry ''k'' (sample_opts ''b'' ''shared'') 20 20 20, EvRegister ''k'', EvCleanup 50 [''k'']]
        (sample_locks LockTypeExclusive)) ''k'' (sample_opts ''c'' ''exclusive'')) = False"
proof -
  obtain L where L: "fmlookup (lm_locks (sample_locks LockTypeExclusive)) ''k'' = Some L"
    "lk_LockType L = LockTypeExclusive" "lk_ExpiresAt L = 100" by (simp add: sample_lock_simps)
  from lock_mutual_exclusion [OF L(1,2), of "[EvTry ''k'' (sample_opts ''b'' ''shared'') 20 20 20,
      EvRegister ''k'', EvCleanup 50 [''k'']]" 60] L(3) show ?thesis by simp
qed

text \<open>When \<open>AcquireLockWithOptions\<close> reports success, the key is locked at that moment, by the caller's
  owner with the caller's lock type, or by a shared lock that the shared request joins; when the key
  is free or its lock expired at the first attempt, it does succeed.\<close>

theorem AcquireLockWithOptions_result:
  "(fst (AcquireLockWithOptions env lm key (Some opts)) = None \<longrightarrow>
      holds_lock (snd (AcquireLockWithOptions env lm key (Some opts))) key opts)
   \<and> (0 \<le> lo_RetryCount opts \<and> (\<forall>L. fmlookup (lm_locks (ae_before (env 0) lm)) key = Some L \<longrightarrow>
        lk_ExpiresAt L \<le> ae_t1 (env 0)) \<longrightarrow>
      fst (AcquireLockWithOptions env lm key (Some opts)) = None)"
proof (intro conjI impI)
  assume "fst (AcquireLockWithOptions env lm key (Some opts)) = None"
  then show "holds_lock (snd (AcquireLockWithOptions env lm key (Some opts))) key opts"
    by (intro acquire_loop_holds [of env key opts 0 lm]) (simp add: AcquireLockWithOptions_def prod_eq_iff)
next
  assume "0 \<le> lo_RetryCount opts \<and> (\<forall>L. fmlookup (lm_locks (ae_before (env 0) lm)) key = Some L \<longrightarrow>
        lk_ExpiresAt L \<le> ae_t1 (env 0))"
  then show "fst (AcquireLockWithOptions env lm key (Some opts)) = None"
    by (auto simp: AcquireLockWithOptions_def acquire_loop.simps [of env key opts 0] tryAcquireLock_def Let_def
        split: option.splits if_splits)
qed

theorem AcquireLockWithOptions_result_witness:
  "holds_lock (snd (AcquireLockWithOptions (\<lambda>_. quiet_env) (NewLockManager 30 5 3) ''k'' (Some (sample_opts ''a'' ''exclusive''))))
     ''k'' (sample_opts ''a'' ''exclusive'')"
  using AcquireLockWithOptions_result [of "\<lambda>_. quiet_env" "NewLockManager 30 5 3" "''k''" "sample_opts ''a'' ''exclusive''"]
  by (simp add: quiet_env_def NewLockManager_def sample_opts_def DefaultLockOptions_def)

text \<open>In every run each lock is stored under its own key and the wait queues are sound: a channel is in
  at most one queue, once, and holds no notification while it is queued; a release empties the queue
  of its key and leaves a notification in every channel that was in it.\<close>

theorem wait_queue_invariant:
  "let lm = fold lock_step evs (NewLockManager d i n)
   in lock_inv lm
      \<and> (fmlookup (lm_locks lm) k \<noteq> None \<longrightarrow>
          (let lm' = snd (ReleaseLock_body lm k)
           in fmlookup (lm_locks lm') k = None \<and> fmlookup (lm_waitQueues lm') k = None
              \<and> (\<forall>ws. fmlookup (lm_waitQueues lm) k = Some ws \<longrightarrow> set ws \<subseteq> lm_full lm')))"
  using lock_run_inv [OF NewLockManager_inv]
  by (auto simp: Let_def ReleaseLock_body_def notifyWaiters_def fold_fill split: option.splits)

theorem wait_queue_invariant_witness:
  "\<exists>lm. lm = fold lock_step [EvTry ''k'' (sample_opts ''a'' ''exclusive'') 10 10 10, EvRegister ''k'']
       (NewLockManager 30 5 3)
     \<and> fmlookup (lm_waitQueues lm) ''k'' = Some [0] \<and> {0} \<subseteq> lm_full (snd (ReleaseLock_body lm ''k''))"
proof -
  let ?evs = "[EvTry ''k'' (sample_opts ''a'' ''exclusive'') 10 10 10, EvRegister ''k'']"
  let ?lm = "fold lock_step ?evs (NewLockManager 30 5 3)"
  have "fmlookup (lm_waitQueues ?lm) ''k'' = Some [0]" "fmlookup (lm_locks ?lm) ''k'' \<noteq> None"
    by (simp_all add: sample_lock_simps wait_register_def)
  with wait_queue_invariant [of ?evs 30 5 3 "''k''"] show ?thesis by (simp add: Let_def)
qed

text \<open>Lost wake-up. When the holder releases the lock after an attempt has failed and before the
  waiter has registered its channel, nobody notifies the waiter: with no other activity the call
  times out although the key is free.\<close>

theorem acquire_lost_wakeup:
  assumes "lock_inv lm" and "fmlookup (lm_locks lm) key = Some L" and "ae_t1 (env 0) < lk_ExpiresAt L"
    and "lk_LockType L = LockTypeExclusive" and "0 < lo_RetryCount opts"
    and "ae_before (env 0) = (\<lambda>lm. lm)" and "ae_wait (env 0) = (\<lambda>lm. lm)"
    and "ae_gap (env 0) = (\<lambda>lm. snd (ReleaseLock_body lm key))"
  shows "fst (AcquireLockWithOptions env lm key (Some opts)) = Some (TimeoutWaiting key)
    \<and> fmlookup (lm_locks (snd (AcquireLockWithOptions env lm key (Some opts)))) key = None"
proof -
  let ?lm1 = "lm\<lparr>lm_lockConflicts := inc64 (lm_lockConflicts lm)\<rparr>"
  let ?lm2 = "snd (ReleaseLock_body ?lm1 key)"
  have "tryAcquireLock (ae_t1 (env 0)) (ae_t2 (env 0)) (ae_t3 (env 0)) lm key opts = (False, ?lm1)"
    using assms by (simp add: tryAcquireLock_def LockTypeExclusive_def LockTypeShared_def)
  moreover have "lock_inv ?lm1" using assms(1) by (simp add: lock_inv_def)
  then have "lock_inv ?lm2" by (rule ReleaseLock_inv)
  then have "lm_nextChan ?lm2 \<notin> lm_full ?lm2" unfolding lock_inv_def wait_ok_def by blast
  moreover have "fmlookup (lm_locks ?lm2) key = None" using assms(2) by (simp add: ReleaseLock_body_def)
  ultimately show ?thesis
    using assms(5-)
    by (simp add: AcquireLockWithOptions_def acquire_loop.simps [of env key opts 0] wait_register_def wait_end_def
        removeFromWaitQueue_def Let_def split: option.splits)
qed

theorem acquire_lost_wakeup_witness:
  "fst (AcquireLockWithOptions (\<lambda>_. quiet_env\<lparr>ae_gap := (\<lambda>lm. snd (ReleaseLock_body lm ''k''))\<rparr>)
      (sample_locks LockTypeExclusive) ''k'' (Some (sample_opts ''b'' ''exclusive''))) = Some (TimeoutWaiting ''k'')"
proof -
  obtain L where L: "fmlookup (lm_locks (sample_locks LockTypeExclusive)) ''k'' = Some L"
    "lk_LockType L = LockTypeExclusive" "lk_ExpiresAt L = 100" by (simp add: sample_lock_simps)
  show ?thesis
    using acquire_lost_wakeup [of "sample_locks LockTypeExclusive" "''k''" L
        "\<lambda>_. quiet_env\<lparr>ae_gap := (\<lambda>lm. snd (ReleaseLock_body lm ''k''))\<rparr>" "sample_opts ''b'' ''exclusive''"]
      sample_locks_inv L by (simp add: quiet_env_def sample_opts_def DefaultLockOptions_def)
qed

text \<open>\<open>Stop\<close> returns exactly when no lock is held: with any lock in the table it calls \<open>ReleaseLock\<close>
  while it holds the mutex itself and waits forever.\<close>

theorem Stop_returns_iff:
  assumes "ranges_over (lm_locks lm) it"
  shows "Stop it lm \<noteq> None \<longleftrightarrow> lm_locks lm = fmempty"
proof -
  have "it = [] \<longleftrightarrow> lm_locks lm = fmempty"
    using ranges_over_length [OF assms] by (metis length_0_conv map_len_zero of_nat_eq_0_iff)
  moreover have "Stop it lm \<noteq> None \<longleftrightarrow> it = []"
    by (cases it) (simp_all add: Stop_def ReleaseLock_def with_mutex_def)
  ultimately show ?thesis by simp
qed

theorem Stop_returns_iff_witness:
  "Stop [''k''] (sample_locks LockTypeExclusive) = None"
proof -
  have "fmlookup (lm_locks (sample_locks LockTypeExclusive)) ''k'' \<noteq> None"
    by (simp add: sample_lock_simps)
  then have "lm_locks (sample_locks LockTypeExclusive) \<noteq> fmempty" by force
  moreover have "ranges_over (lm_locks (sample_locks LockTypeExclusive)) [''k'']"
    by (simp add: sample_lock_simps ranges_over_def)
  ultimately show ?thesis using Stop_returns_iff by blast
qed

text \<open>A shared lock is not counted: when a second holder has joined it, the release by either of them
  removes the entry, and an exclusive request then succeeds although the other still holds the lock.\<close>

theorem shared_release_frees:
  assumes "fmlookup (lm_locks lm) key = Some L" and "lk_LockType L = LockTypeShared" and "t1 < lk_ExpiresAt L"
    and "lo_LockType optsB = LockTypeShared" and "lo_LockType optsC = LockTypeExclusive"
  shows "let (okB, lm1) = tryAcquireLock t1 t2 t3 lm key optsB;
             lm2 = snd (ReleaseLock_body lm1 key);
             (okC, lm3) = tryAcquireLock u1 u2 u3 lm2 key optsC
         in okB \<and> okC \<and> holds_lock lm3 key optsC"
  using assms by (auto simp: tryAcquireLock_def ReleaseLock_body_def holds_lock_def Let_def)

theorem shared_release_frees_witness:
  "\<exists>lm2. lm2 = snd (ReleaseLock_body (snd (tryAcquireLock 20 20 20 (sample_locks LockTypeShared) ''k''
       (sample_opts ''b'' LockTypeShared))) ''k'')
     \<and> fst (tryAcquireLock 30 30 30 lm2 ''k'' (sample_opts ''c'' LockTypeExclusive))"
proof -
  obtain L where L: "fmlookup (lm_locks (sample_locks LockTypeShared)) ''k'' = Some L"
    "lk_LockType L = LockTypeShared" "20 < lk_ExpiresAt L" by (simp add: sample_lock_simps)
  from shared_release_frees [OF L, of "sample_opts ''b'' LockTypeShared" "sample_opts ''c'' LockTypeExclusive"
      20 20 30 30 30] show ?thesis by (simp add: sample_opts_def case_prod_beta Let_def)
qed

end
