(* ===== verification/Circuit_Breaker.thy ===== *)
theory Circuit_Breaker
  imports Go_Prelude "HOL-Library.Finite_Map" "HOL-Library.Signed_Division"
begin

text \<open>
  The circuit breaker of the LLM client (\<open>pkg/llm/circuit_breaker.go\<close>), its manager, and the
  wrapper of \<open>pkg/resilience/circuit_breaker.go\<close>. Every critical section is a function on the
  breaker; \<open>canExecute\<close> and \<open>Execute\<close>, which give the lock up in between, take what other
  goroutines do there as an argument. The callback of a state change is started in a goroutine of
  its own and does not touch the breaker; it is left out, as is logging.
\<close>

section \<open>Model\<close>

datatype CircuitState = StateClosed | StateOpen | StateHalfOpen

fun CircuitState_String :: "CircuitState \<Rightarrow> string" where
  "CircuitState_String StateClosed = ''closed''"
| "CircuitState_String StateOpen = ''open''"
| "CircuitState_String StateHalfOpen = ''half-open''"

record CircuitBreakerConfig =
  cfg_FailureThreshold :: int
  cfg_FailureRate :: rat
  cfg_MinimumRequestCount :: int
  cfg_Timeout :: duration
  cfg_HalfOpenTimeout :: duration
  cfg_SuccessThreshold :: int
  cfg_HalfOpenMaxRequests :: int
  cfg_ResetTimeout :: duration
  cfg_SlidingWindowSize :: int
  cfg_EnableHealthCheck :: bool
  cfg_HealthCheckInterval :: duration
  cfg_HealthCheckTimeout :: duration
  cfg_MaxConcurrentRequests :: int
  cfg_EnableAdaptiveTimeout :: bool

text \<open>The quotient of two counters as a \<open>float64\<close>; a counter is converted before the division.\<close>

datatype rate = Rate rat | Rate_NaN | Rate_Inf

definition count_ratio :: "int \<Rightarrow> int \<Rightarrow> rate" where
  "count_ratio a b =
     (if b = 0 then (if a = 0 then Rate_NaN else Rate_Inf) else Rate (f64_div_ints a b))"

record CircuitMetrics =
  cm_TotalRequests :: int
  cm_SuccessfulRequests :: int
  cm_FailedRequests :: int
  cm_RejectedRequests :: int
  cm_TimeoutRequests :: int
  cm_StateTransitions :: int
  cm_CurrentState :: string
  cm_LastStateChange :: time
  cm_FailureRate :: rate
  cm_AverageLatency :: duration
  cm_LastUpdated :: time

record CircuitBreaker =
  cb_name :: string
  cb_config :: CircuitBreakerConfig
  cb_state :: CircuitState
  cb_failureCount :: int
  cb_successCount :: int
  cb_requestCount :: int
  cb_lastFailureTime :: time
  cb_lastSuccessTime :: time
  cb_stateChangeTime :: time
  cb_halfOpenRequests :: int
  cb_metrics :: CircuitMetrics

datatype breaker_error =
    CircuitBreakerError string CircuitState string
  | OperationError string
  | OperationTimeout
  | NoFallback breaker_error

definition getDefaultCircuitBreakerConfig :: CircuitBreakerConfig where
  "getDefaultCircuitBreakerConfig =
     \<lparr>cfg_FailureThreshold = 5, cfg_FailureRate = 1 / 2, cfg_MinimumRequestCount = 10,
      cfg_Timeout = 30 * Second, cfg_HalfOpenTimeout = 60 * Second, cfg_SuccessThreshold = 3,
      cfg_HalfOpenMaxRequests = 5, cfg_ResetTimeout = 60 * Second, cfg_SlidingWindowSize = 100,
      cfg_EnableHealthCheck = False, cfg_HealthCheckInterval = 30 * Second,
      cfg_HealthCheckTimeout = 10 * Second, cfg_MaxConcurrentRequests = 0, cfg_EnableAdaptiveTimeout = False\<rparr>"

text \<open>\<open>NewCircuitBreaker\<close> fills in zero values in the caller's configuration.\<close>

definition fill_defaults :: "CircuitBreakerConfig \<Rightarrow> CircuitBreakerConfig" where
  "fill_defaults cfg =
     cfg\<lparr>cfg_FailureThreshold := (if cfg_FailureThreshold cfg = 0 then 5 else cfg_FailureThreshold cfg),
         cfg_SuccessThreshold := (if cfg_SuccessThreshold cfg = 0 then 1 else cfg_SuccessThreshold cfg),
         cfg_Timeout := (if cfg_Timeout cfg = 0 then 30 * Second else cfg_Timeout cfg),
         cfg_HalfOpenMaxRequests :=
           (if cfg_HalfOpenMaxRequests cfg = 0 then 5 else cfg_HalfOpenMaxRequests cfg)\<rparr>"

definition NewCircuitBreaker ::
    "time \<Rightarrow> time \<Rightarrow> time \<Rightarrow> string \<Rightarrow> CircuitBreakerConfig option \<Rightarrow> CircuitBreaker" where
  "NewCircuitBreaker t1 t2 t3 name config =
     (let cfg = fill_defaults (case config of None \<Rightarrow> getDefaultCircuitBreakerConfig | Some c \<Rightarrow> c)
      in \<lparr>cb_name = name, cb_config = cfg, cb_state = StateClosed, cb_failureCount = 0, cb_successCount = 0,
          cb_requestCount = 0, cb_lastFailureTime = 0, cb_lastSuccessTime = 0, cb_stateChangeTime = t1,
          cb_halfOpenRequests = 0,
          cb_metrics = \<lparr>cm_TotalRequests = 0, cm_SuccessfulRequests = 0, cm_FailedRequests = 0,
            cm_RejectedRequests = 0, cm_TimeoutRequests = 0, cm_StateTransitions = 0,
            cm_CurrentState = CircuitState_String StateClosed, cm_LastStateChange = t2,
            cm_FailureRate = Rate 0, cm_AverageLatency = 0, cm_LastUpdated = t3\<rparr>\<rparr>)"

subsection \<open>Transitions\<close>

definition updateMetrics :: "CircuitBreaker \<Rightarrow> (CircuitMetrics \<Rightarrow> CircuitMetrics) \<Rightarrow> CircuitBreaker" where
  "updateMetrics cb updater = cb\<lparr>cb_metrics := updater (cb_metrics cb)\<rparr>"

text \<open>The metrics part that the three transitions and \<open>Reset\<close> share.\<close>

definition note_transition :: "time \<Rightarrow> time \<Rightarrow> CircuitState \<Rightarrow> CircuitMetrics \<Rightarrow> CircuitMetrics" where
  "note_transition changed updated s m =
     m\<lparr>cm_StateTransitions := inc64 (cm_StateTransitions m), cm_CurrentState := CircuitState_String s,
       cm_LastStateChange := changed, cm_LastUpdated := updated\<rparr>"

definition transitionToOpen :: "time \<Rightarrow> time \<Rightarrow> CircuitBreaker \<Rightarrow> CircuitBreaker" where
  "transitionToOpen ta tb cb =
     updateMetrics (cb\<lparr>cb_state := StateOpen, cb_stateChangeTime := ta, cb_halfOpenRequests := 0\<rparr>)
       (note_transition ta tb StateOpen)"

definition transitionToHalfOpen :: "time \<Rightarrow> time \<Rightarrow> CircuitBreaker \<Rightarrow> CircuitBreaker" where
  "transitionToHalfOpen ta tb cb =
     updateMetrics (cb\<lparr>cb_state := StateHalfOpen, cb_stateChangeTime := ta, cb_halfOpenRequests := 0,
                       cb_successCount := 0, cb_failureCount := 0\<rparr>)
       (note_transition ta tb StateHalfOpen)"

definition transitionToClosed :: "time \<Rightarrow> time \<Rightarrow> CircuitBreaker \<Rightarrow> CircuitBreaker" where
  "transitionToClosed ta tb cb =
     updateMetrics (cb\<lparr>cb_state := StateClosed, cb_stateChangeTime := ta, cb_halfOpenRequests := 0,
                       cb_failureCount := 0, cb_requestCount := 0\<rparr>)
       (\<lambda>m. (note_transition ta tb StateClosed m)\<lparr>cm_FailureRate := Rate 0\<rparr>)"

definition shouldOpenCircuit :: "CircuitBreaker \<Rightarrow> bool" where
  "shouldOpenCircuit cb =
     (let cfg = cb_config cb
      in if cb_state cb \<noteq> StateClosed then False
         else if cb_failureCount cb \<ge> cfg_FailureThreshold cfg then True
         else if cfg_MinimumRequestCount cfg > 0 \<and> cfg_FailureRate cfg > 0
                 \<and> cb_requestCount cb \<ge> cfg_MinimumRequestCount cfg
                 \<and> f64_div_ints (cb_failureCount cb) (cb_requestCount cb) \<ge> cfg_FailureRate cfg
         then True else False)"

definition getRecentSuccesses :: "CircuitBreaker \<Rightarrow> int" where
  "getRecentSuccesses cb = (if cb_state cb = StateHalfOpen then cb_successCount cb else 0)"

definition shouldCloseCircuit :: "CircuitBreaker \<Rightarrow> bool" where
  "shouldCloseCircuit cb =
     (if cb_state cb \<noteq> StateHalfOpen then False
      else if cfg_SuccessThreshold (cb_config cb) \<le> 1 then True
      else getRecentSuccesses cb \<ge> cfg_SuccessThreshold (cb_config cb))"

text \<open>The average latency is computed in \<open>int64\<close> with division towards zero.\<close>

definition note_success :: "duration \<Rightarrow> CircuitMetrics \<Rightarrow> CircuitMetrics" where
  "note_success latency m =
     (let n = inc64 (cm_SuccessfulRequests m);
          totalLatency = wrap64 (cm_AverageLatency m * wrap64 (n - 1))
      in m\<lparr>cm_SuccessfulRequests := n, cm_TotalRequests := inc64 (cm_TotalRequests m),
           cm_AverageLatency := wrap64 (wrap64 (totalLatency + latency) sdiv n)\<rparr>)"

definition note_failure :: "CircuitMetrics \<Rightarrow> CircuitMetrics" where
  "note_failure m =
     m\<lparr>cm_FailedRequests := inc64 (cm_FailedRequests m), cm_TotalRequests := inc64 (cm_TotalRequests m)\<rparr>"

text \<open>\<open>recordResult\<close> in its two parts: the result with its transition, and the failure rate and the
  half-open counter. \<open>t\<close> is the time stamp of the result, \<open>ta\<close> and \<open>tb\<close> those of a transition.\<close>

definition record_failure :: "time \<Rightarrow> time \<Rightarrow> time \<Rightarrow> CircuitBreaker \<Rightarrow> CircuitBreaker" where
  "record_failure t ta tb cb =
     (let cb' = updateMetrics (cb\<lparr>cb_failureCount := inc64 (cb_failureCount cb), cb_lastFailureTime := t\<rparr>) note_failure
      in if cb_state cb' = StateHalfOpen then transitionToOpen ta tb cb'
         else if shouldOpenCircuit cb' then transitionToOpen ta tb cb'
         else cb')"

definition record_success :: "time \<Rightarrow> time \<Rightarrow> time \<Rightarrow> CircuitBreaker \<Rightarrow> duration \<Rightarrow> CircuitBreaker" where
  "record_success t ta tb cb latency =
     (let cb' = updateMetrics (cb\<lparr>cb_successCount := inc64 (cb_successCount cb), cb_lastSuccessTime := t\<rparr>)
                  (note_success latency)
      in if cb_state cb' = StateHalfOpen \<and> shouldCloseCircuit cb' then transitionToClosed ta tb cb' else cb')"

definition record_finish :: "CircuitBreaker \<Rightarrow> CircuitBreaker" where
  "record_finish cb =
     (let cb3 = (if cb_requestCount cb \<ge> cfg_MinimumRequestCount (cb_config cb)
                 then updateMetrics cb (\<lambda>m. m\<lparr>cm_FailureRate := count_ratio (cb_failureCount cb) (cb_requestCount cb)\<rparr>)
                 else cb)
      in if cb_state cb3 = StateHalfOpen
         then cb3\<lparr>cb_halfOpenRequests := inc64 (cb_halfOpenRequests cb3)\<rparr> else cb3)"

definition recordResult ::
    "time \<Rightarrow> time \<Rightarrow> time \<Rightarrow> CircuitBreaker \<Rightarrow> breaker_error option \<Rightarrow> duration \<Rightarrow> CircuitBreaker" where
  "recordResult t ta tb cb err latency =
     (let cb1 = cb\<lparr>cb_requestCount := inc64 (cb_requestCount cb)\<rparr>
      in record_finish (if err \<noteq> None then record_failure t ta tb cb1 else record_success t ta tb cb1 latency))"

subsection \<open>Executing an operation\<close>

text \<open>The section of \<open>canExecute\<close> under the write lock, entered when a reader has seen an open circuit
  whose reset time-out has passed.\<close>

definition canExecute_promote :: "time \<Rightarrow> time \<Rightarrow> time \<Rightarrow> CircuitBreaker \<Rightarrow> bool \<times> CircuitBreaker" where
  "canExecute_promote t2 ta tb cb =
     (if cb_state cb = StateOpen
         \<and> time_Sub t2 (cb_stateChangeTime cb) \<ge> cfg_ResetTimeout (cb_config cb)
      then (True, transitionToHalfOpen ta tb cb)
      else (cb_state cb \<noteq> StateOpen, cb))"

definition canExecute ::
    "time \<Rightarrow> time \<Rightarrow> time \<Rightarrow> time \<Rightarrow> (CircuitBreaker \<Rightarrow> CircuitBreaker) \<Rightarrow> CircuitBreaker \<Rightarrow> bool \<times> CircuitBreaker" where
  "canExecute t1 t2 ta tb others cb =
     (case cb_state cb of
        StateClosed \<Rightarrow> (True, cb)
      | StateOpen \<Rightarrow>
          if time_Sub t1 (cb_stateChangeTime cb) \<ge> cfg_ResetTimeout (cb_config cb)
          then canExecute_promote t2 ta tb (others cb)
          else (False, cb)
      | StateHalfOpen \<Rightarrow> (cb_halfOpenRequests cb < cfg_HalfOpenMaxRequests (cb_config cb), cb))"

text \<open>How the operation ends: a panic is an error, and the context may end first.\<close>

datatype 'r op_outcome = OpOk 'r | OpErr string | OpPanic string | OpTimeout

definition executeWithTimeout ::
    "CircuitBreaker \<Rightarrow> 'r op_outcome \<Rightarrow> (breaker_error + 'r) \<times> CircuitBreaker" where
  "executeWithTimeout cb op =
     (case op of
        OpOk r \<Rightarrow> (Inr r, cb)
      | OpErr e \<Rightarrow> (Inl (OperationError e), cb)
      | OpPanic e \<Rightarrow> (Inl (OperationError (''operation panicked: '' @ e)), cb)
      | OpTimeout \<Rightarrow> (Inl OperationTimeout,
          updateMetrics cb (\<lambda>m. m\<lparr>cm_TimeoutRequests := inc64 (cm_TimeoutRequests m)\<rparr>)))"

record exec_times =
  xt_start :: time
  xt_check :: time
  xt_recheck :: time
  xt_changed :: time
  xt_updated :: time
  xt_end :: time
  xt_result :: time
  xt_changed2 :: time
  xt_updated2 :: time

text \<open>\<open>others1\<close> and \<open>others2\<close> are the steps of other goroutines between the two sections of \<open>canExecute\<close>
  and while the operation runs. The third result says whether the operation was called.\<close>

definition Execute ::
    "exec_times \<Rightarrow> (CircuitBreaker \<Rightarrow> CircuitBreaker) \<Rightarrow> (CircuitBreaker \<Rightarrow> CircuitBreaker) \<Rightarrow> CircuitBreaker
       \<Rightarrow> 'r op_outcome \<Rightarrow> (breaker_error + 'r) \<times> CircuitBreaker \<times> bool" where
  "Execute x others1 others2 cb op =
     (let (ok, cb1) = canExecute (xt_check x) (xt_recheck x) (xt_changed x) (xt_updated x) others1 cb
      in if \<not> ok
         then let cb2 = updateMetrics cb1 (\<lambda>m. m\<lparr>cm_RejectedRequests := inc64 (cm_RejectedRequests m),
                                                cm_TotalRequests := inc64 (cm_TotalRequests m)\<rparr>)
              in (Inl (CircuitBreakerError (cb_name cb2) (cb_state cb2) ''circuit breaker is open''), cb2, False)
         else let (res, cb2) = executeWithTimeout (others2 cb1) op;
                  err = (case res of Inl e \<Rightarrow> Some e | Inr _ \<Rightarrow> None);
                  cb3 = recordResult (xt_result x) (xt_changed2 x) (xt_updated2 x) cb2 err
                          (time_Sub (xt_end x) (xt_start x))
              in (res, cb3, True))"

definition Call ::
    "exec_times \<Rightarrow> (CircuitBreaker \<Rightarrow> CircuitBreaker) \<Rightarrow> (CircuitBreaker \<Rightarrow> CircuitBreaker) \<Rightarrow> CircuitBreaker
       \<Rightarrow> unit op_outcome \<Rightarrow> breaker_error option \<times> CircuitBreaker" where
  "Call x others1 others2 cb fn =
     (case Execute x others1 others2 cb fn of
        (Inl e, cb', _) \<Rightarrow> (Some e, cb') | (Inr _, cb', _) \<Rightarrow> (None, cb'))"

definition ExecuteSimple ::
    "exec_times \<Rightarrow> (CircuitBreaker \<Rightarrow> CircuitBreaker) \<Rightarrow> (CircuitBreaker \<Rightarrow> CircuitBreaker) \<Rightarrow> CircuitBreaker
       \<Rightarrow> unit op_outcome \<Rightarrow> breaker_error option \<times> CircuitBreaker" where
  "ExecuteSimple = Call"

subsection \<open>Control and inspection\<close>

definition Breaker_Reset :: "time \<Rightarrow> time \<Rightarrow> CircuitBreaker \<Rightarrow> CircuitBreaker" where
  "Breaker_Reset ta tb cb =
     updateMetrics (cb\<lparr>cb_state := StateClosed, cb_stateChangeTime := ta, cb_failureCount := 0,
                       cb_successCount := 0, cb_requestCount := 0, cb_halfOpenRequests := 0\<rparr>)
       (\<lambda>m. (note_transition ta tb StateClosed m)\<lparr>cm_FailureRate := Rate 0\<rparr>)"

definition ForceOpen :: "time \<Rightarrow> time \<Rightarrow> CircuitBreaker \<Rightarrow> CircuitBreaker" where
  "ForceOpen ta tb cb = (if cb_state cb \<noteq> StateOpen then transitionToOpen ta tb cb else cb)"

definition IsOpen :: "CircuitBreaker \<Rightarrow> bool" where "IsOpen cb = (cb_state cb = StateOpen)"
definition IsClosed :: "CircuitBreaker \<Rightarrow> bool" where "IsClosed cb = (cb_state cb = StateClosed)"
definition IsHalfOpen :: "CircuitBreaker \<Rightarrow> bool" where "IsHalfOpen cb = (cb_state cb = StateHalfOpen)"

definition GetMetrics :: "CircuitBreaker \<Rightarrow> CircuitMetrics" where
  "GetMetrics cb = cb_metrics cb"

text \<open>The health check sees an open circuit, waits, and then transitions without a second look at the
  state: \<open>others\<close> is what happens during the wait.\<close>

definition healthCheckRoutine_tick ::
    "time \<Rightarrow> time \<Rightarrow> bool \<Rightarrow> (CircuitBreaker \<Rightarrow> CircuitBreaker) \<Rightarrow> CircuitBreaker \<Rightarrow> CircuitBreaker" where
  "healthCheckRoutine_tick ta tb healthy others cb =
     (if cb_state cb = StateOpen \<and> healthy then transitionToHalfOpen ta tb (others cb) else cb)"

record BreakerStats =
  bs_name :: string
  bs_state :: string
  bs_failure_count :: int
  bs_success_count :: int
  bs_request_count :: int
  bs_last_failure_time :: time
  bs_last_success_time :: time
  bs_state_change_time :: time
  bs_half_open_requests :: int

definition Breaker_GetStats :: "CircuitBreaker \<Rightarrow> BreakerStats" where
  "Breaker_GetStats cb =
     \<lparr>bs_name = cb_name cb, bs_state = CircuitState_String (cb_state cb), bs_failure_count = cb_failureCount cb,
      bs_success_count = cb_successCount cb, bs_request_count = cb_requestCount cb,
      bs_last_failure_time = cb_lastFailureTime cb, bs_last_success_time = cb_lastSuccessTime cb,
      bs_state_change_time = cb_stateChangeTime cb, bs_half_open_requests = cb_halfOpenRequests cb\<rparr>"

subsection \<open>The manager\<close>

text \<open>Breakers are shared pointers: the manager maps names to addresses of a store. A breaker that is
  removed stays in the store for those who still hold it.\<close>

record CircuitBreakerManager =
  cbm_mem :: "addr \<Rightarrow> CircuitBreaker"
  cbm_next :: addr
  cbm_circuitBreakers :: "(string, addr) fmap"
  cbm_defaultConfig :: CircuitBreakerConfig

definition NewCircuitBreakerManager ::
    "(addr \<Rightarrow> CircuitBreaker) \<Rightarrow> CircuitBreakerConfig option \<Rightarrow> CircuitBreakerManager" where
  "NewCircuitBreakerManager mem defaultConfig =
     \<lparr>cbm_mem = mem, cbm_next = 0, cbm_circuitBreakers = fmempty,
      cbm_defaultConfig = (case defaultConfig of None \<Rightarrow> getDefaultCircuitBreakerConfig | Some c \<Rightarrow> c)\<rparr>"

text \<open>Without a configuration of its own the new breaker gets the manager's, and filling in the
  defaults writes to it.\<close>

definition GetOrCreate ::
    "time \<Rightarrow> time \<Rightarrow> time \<Rightarrow> CircuitBreakerManager \<Rightarrow> string \<Rightarrow> CircuitBreakerConfig option
       \<Rightarrow> addr \<times> CircuitBreakerManager" where
  "GetOrCreate t1 t2 t3 cbm name config =
     (case fmlookup (cbm_circuitBreakers cbm) name of
        Some a \<Rightarrow> (a, cbm)
      | None \<Rightarrow>
          let cfg = (case config of None \<Rightarrow> cbm_defaultConfig cbm | Some c \<Rightarrow> c);
              cb = NewCircuitBreaker t1 t2 t3 name (Some cfg);
              a = cbm_next cbm
          in (a, cbm\<lparr>cbm_mem := (cbm_mem cbm)(a := cb), cbm_next := a + 1,
                     cbm_circuitBreakers := fmupd name a (cbm_circuitBreakers cbm),
                     cbm_defaultConfig := (if config = None then fill_defaults cfg else cbm_defaultConfig cbm)\<rparr>))"

definition Manager_Get :: "CircuitBreakerManager \<Rightarrow> string \<Rightarrow> addr option" where
  "Manager_Get cbm name = fmlookup (cbm_circuitBreakers cbm) name"

definition Manager_Remove :: "CircuitBreakerManager \<Rightarrow> string \<Rightarrow> CircuitBreakerManager" where
  "Manager_Remove cbm name = cbm\<lparr>cbm_circuitBreakers := fmdrop name (cbm_circuitBreakers cbm)\<rparr>"

definition Manager_List :: "string list \<Rightarrow> CircuitBreakerManager \<Rightarrow> string list" where
  "Manager_List it cbm = it"

definition GetAllStats :: "CircuitBreakerManager \<Rightarrow> (string, BreakerStats) fmap" where
  "GetAllStats cbm = fmmap (\<lambda>a. Breaker_GetStats (cbm_mem cbm a)) (cbm_circuitBreakers cbm)"

definition Manager_Shutdown :: "CircuitBreakerManager \<Rightarrow> CircuitBreakerManager" where
  "Manager_Shutdown cbm = cbm\<lparr>cbm_circuitBreakers := fmempty\<rparr>"

text \<open>One pair of clock readings for each breaker, in the order of the loop.\<close>

fun Manager_ResetAll :: "(time \<times> time) list \<Rightarrow> string list \<Rightarrow> CircuitBreakerManager \<Rightarrow> CircuitBreakerManager" where
  "Manager_ResetAll ((ta, tb) # ts) (name # it) cbm =
     (case fmlookup (cbm_circuitBreakers cbm) name of
        None \<Rightarrow> Manager_ResetAll ts it cbm
      | Some a \<Rightarrow> Manager_ResetAll ts it
          (cbm\<lparr>cbm_mem := (cbm_mem cbm)(a := Breaker_Reset ta tb (cbm_mem cbm a))\<rparr>))"
| "Manager_ResetAll _ _ cbm = cbm"

subsection \<open>The wrapper of the resilience package\<close>

record ResilienceConfig =
  rc_FailureThreshold :: int
  rc_RecoveryTimeout :: duration
  rc_SuccessThreshold :: int
  rc_RequestTimeout :: duration
  rc_HalfOpenMaxRequests :: int
  rc_MinimumRequests :: int
  rc_FailureRate :: rat

definition DefaultCircuitBreakerConfig :: ResilienceConfig where
  "DefaultCircuitBreakerConfig =
     \<lparr>rc_FailureThreshold = 5, rc_RecoveryTimeout = 60 * Second, rc_SuccessThreshold = 3,
      rc_RequestTimeout = 30 * Second, rc_HalfOpenMaxRequests = 5, rc_MinimumRequests = 10,
      rc_FailureRate = 1 / 2\<rparr>"

record LLMCircuitBreaker =
  lcb_name :: string
  lcb_circuitBreaker :: CircuitBreaker
  lcb_config :: ResilienceConfig

definition llm_config :: "ResilienceConfig \<Rightarrow> CircuitBreakerConfig" where
  "llm_config c =
     \<lparr>cfg_FailureThreshold = rc_FailureThreshold c, cfg_FailureRate = rc_FailureRate c,
      cfg_MinimumRequestCount = rc_MinimumRequests c, cfg_Timeout = rc_RequestTimeout c,
      cfg_HalfOpenTimeout = rc_RecoveryTimeout c, cfg_SuccessThreshold = rc_SuccessThreshold c,
      cfg_HalfOpenMaxRequests = rc_HalfOpenMaxRequests c, cfg_ResetTimeout = rc_RecoveryTimeout c,
      cfg_SlidingWindowSize = 100, cfg_EnableHealthCheck = False, cfg_HealthCheckInterval = 30 * Second,
      cfg_HealthCheckTimeout = 10 * Second, cfg_MaxConcurrentRequests = 0, cfg_EnableAdaptiveTimeout = False\<rparr>"

definition NewLLMCircuitBreaker ::
    "time \<Rightarrow> time \<Rightarrow> time \<Rightarrow> string \<Rightarrow> ResilienceConfig option \<Rightarrow> LLMCircuitBreaker" where
  "NewLLMCircuitBreaker t1 t2 t3 name config =
     (let c = (case config of None \<Rightarrow> DefaultCircuitBreakerConfig | Some c \<Rightarrow> c)
      in \<lparr>lcb_name = name, lcb_circuitBreaker = NewCircuitBreaker t1 t2 t3 name (Some (llm_config c)),
          lcb_config = c\<rparr>)"

definition LLM_Execute ::
    "exec_times \<Rightarrow> (CircuitBreaker \<Rightarrow> CircuitBreaker) \<Rightarrow> (CircuitBreaker \<Rightarrow> CircuitBreaker) \<Rightarrow> LLMCircuitBreaker
       \<Rightarrow> 'r op_outcome \<Rightarrow> (breaker_error + 'r) \<times> LLMCircuitBreaker \<times> bool" where
  "LLM_Execute x others1 others2 cb op =
     (let (res, cb', called) = Execute x others1 others2 (lcb_circuitBreaker cb) op
      in (res, cb\<lparr>lcb_circuitBreaker := cb'\<rparr>, called))"

text \<open>The fallback gets the error; \<open>others3\<close> runs between \<open>Execute\<close> and the test for an open circuit.\<close>

definition ExecuteWithFallback ::
    "exec_times \<Rightarrow> (CircuitBreaker \<Rightarrow> CircuitBreaker) \<Rightarrow> (CircuitBreaker \<Rightarrow> CircuitBreaker)
       \<Rightarrow> (CircuitBreaker \<Rightarrow> CircuitBreaker) \<Rightarrow> LLMCircuitBreaker \<Rightarrow> 'r op_outcome
       \<Rightarrow> (breaker_error \<Rightarrow> breaker_error + 'r) option \<Rightarrow> (breaker_error + 'r) \<times> LLMCircuitBreaker" where
  "ExecuteWithFallback x others1 others2 others3 cb op fallback =
     (let (res, cb1, _) = LLM_Execute x others1 others2 cb op;
          cb2 = cb1\<lparr>lcb_circuitBreaker := others3 (lcb_circuitBreaker cb1)\<rparr>
      in case res of
           Inr r \<Rightarrow> (Inr r, cb1)
         | Inl err \<Rightarrow>
             if IsOpen (lcb_circuitBreaker cb2)
             then (case fallback of Some f \<Rightarrow> (f err, cb2) | None \<Rightarrow> (Inl (NoFallback err), cb2))
             else (Inl err, cb2))"

definition LLM_GetState :: "LLMCircuitBreaker \<Rightarrow> string" where
  "LLM_GetState cb =
     (if IsOpen (lcb_circuitBreaker cb) then ''open''
      else if IsHalfOpen (lcb_circuitBreaker cb) then ''half-open'' else ''closed'')"

definition LLM_Reset :: "time \<Rightarrow> time \<Rightarrow> LLMCircuitBreaker \<Rightarrow> LLMCircuitBreaker" where
  "LLM_Reset ta tb cb = cb\<lparr>lcb_circuitBreaker := Breaker_Reset ta tb (lcb_circuitBreaker cb)\<rparr>"

definition LLM_ForceOpen :: "time \<Rightarrow> time \<Rightarrow> LLMCircuitBreaker \<Rightarrow> LLMCircuitBreaker" where
  "LLM_ForceOpen ta tb cb = cb\<lparr>lcb_circuitBreaker := ForceOpen ta tb (lcb_circuitBreaker cb)\<rparr>"

section \<open>Runs\<close>

text \<open>The critical sections of all goroutines in any order. A promotion may come long after its reader
  saw the open state, and the end of a health check in any state.\<close>

datatype cb_event =
    CbPromote time time time
  | CbReject
  | CbTimeout
  | CbRecord time time time "breaker_error option" duration
  | CbReset time time
  | CbForceOpen time time
  | CbHealth time time

definition note_reject :: "CircuitMetrics \<Rightarrow> CircuitMetrics" where
  "note_reject m =
     m\<lparr>cm_RejectedRequests := inc64 (cm_RejectedRequests m), cm_TotalRequests := inc64 (cm_TotalRequests m)\<rparr>"

fun cb_step :: "cb_event \<Rightarrow> CircuitBreaker \<Rightarrow> CircuitBreaker" where
  "cb_step (CbPromote t2 ta tb) cb = snd (canExecute_promote t2 ta tb cb)"
| "cb_step CbReject cb = updateMetrics cb note_reject"
| "cb_step CbTimeout cb = updateMetrics cb (\<lambda>m. m\<lparr>cm_TimeoutRequests := inc64 (cm_TimeoutRequests m)\<rparr>)"
| "cb_step (CbRecord t ta tb err latency) cb = recordResult t ta tb cb err latency"
| "cb_step (CbReset ta tb) cb = Breaker_Reset ta tb cb"
| "cb_step (CbForceOpen ta tb) cb = ForceOpen ta tb cb"
| "cb_step (CbHealth ta tb) cb = transitionToHalfOpen ta tb cb"

section \<open>Lemmas\<close>

lemmas breaker_simps = updateMetrics_def note_transition_def transitionToOpen_def transitionToHalfOpen_def
  transitionToClosed_def Breaker_Reset_def note_failure_def note_success_def note_reject_def Let_def

lemma record_finish_fields [simp]:
  "cb_config (record_finish cb) = cb_config cb" "cb_state (record_finish cb) = cb_state cb"
  "cb_failureCount (record_finish cb) = cb_failureCount cb" "cb_successCount (record_finish cb) = cb_successCount cb"
  "cb_stateChangeTime (record_finish cb) = cb_stateChangeTime cb"
  "cm_CurrentState (cb_metrics (record_finish cb)) = cm_CurrentState (cb_metrics cb)"
  "cm_TotalRequests (cb_metrics (record_finish cb)) = cm_TotalRequests (cb_metrics cb)"
  "cm_SuccessfulRequests (cb_metrics (record_finish cb)) = cm_SuccessfulRequests (cb_metrics cb)"
  "cm_FailedRequests (cb_metrics (record_finish cb)) = cm_FailedRequests (cb_metrics cb)"
  "cm_RejectedRequests (cb_metrics (record_finish cb)) = cm_RejectedRequests (cb_metrics cb)"
  "cb_halfOpenRequests (record_finish cb)
     = (if cb_state cb = StateHalfOpen then inc64 (cb_halfOpenRequests cb) else cb_halfOpenRequests cb)"
  by (simp_all add: record_finish_def Let_def updateMetrics_def)

lemma step_config [simp]: "cb_config (cb_step ev cb) = cb_config cb"
  by (cases ev)
    (simp_all add: breaker_simps canExecute_promote_def recordResult_def record_failure_def record_success_def
      ForceOpen_def)

text \<open>What holds between critical sections: the metrics name the state, the half-open counter equals
  the successes since the circuit became half-open, and neither threshold is exceeded.\<close>

definition thresholds_ok :: "CircuitBreakerConfig \<Rightarrow> bool" where
  "thresholds_ok cfg \<longleftrightarrow> 0 < cfg_FailureThreshold cfg \<and> int64_range (cfg_FailureThreshold cfg)
     \<and> int64_range (cfg_SuccessThreshold cfg)"

definition breaker_inv :: "CircuitBreaker \<Rightarrow> bool" where
  "breaker_inv cb \<longleftrightarrow>
     cm_CurrentState (cb_metrics cb) = CircuitState_String (cb_state cb)
     \<and> (case cb_state cb of
          StateClosed \<Rightarrow> cb_halfOpenRequests cb = 0 \<and> 0 \<le> cb_failureCount cb
            \<and> cb_failureCount cb < cfg_FailureThreshold (cb_config cb)
        | StateOpen \<Rightarrow> cb_halfOpenRequests cb = 0
        | StateHalfOpen \<Rightarrow> cb_failureCount cb = 0 \<and> cb_halfOpenRequests cb = cb_successCount cb
            \<and> 0 \<le> cb_successCount cb \<and> cb_successCount cb < max 1 (cfg_SuccessThreshold (cb_config cb)))"

lemma transition_inv:
  "breaker_inv (transitionToOpen ta tb cb)"
  "breaker_inv (transitionToHalfOpen ta tb cb)"
  "thresholds_ok (cb_config cb) \<Longrightarrow> breaker_inv (transitionToClosed ta tb cb)"
  "thresholds_ok (cb_config cb) \<Longrightarrow> breaker_inv (Breaker_Reset ta tb cb)"
  by (simp_all add: breaker_inv_def breaker_simps thresholds_ok_def)

lemma breaker_inv_finish:
  "cb_state cb \<noteq> StateHalfOpen \<Longrightarrow> breaker_inv (record_finish cb) = breaker_inv cb"
  by (cases "cb_state cb") (simp_all add: breaker_inv_def)

lemma transition_states [simp]:
  "cb_state (transitionToOpen ta tb cb) = StateOpen"
  "cb_state (transitionToHalfOpen ta tb cb) = StateHalfOpen"
  "cb_state (transitionToClosed ta tb cb) = StateClosed"
  by (simp_all add: breaker_simps)

lemma record_failure_inv:
  assumes inv: "breaker_inv cb" and ok: "thresholds_ok (cb_config cb)"
  shows "breaker_inv (record_failure t ta tb cb)" "cb_state (record_failure t ta tb cb) \<noteq> StateHalfOpen"
proof -
  let ?cb = "updateMetrics (cb\<lparr>cb_failureCount := inc64 (cb_failureCount cb), cb_lastFailureTime := t\<rparr>) note_failure"
  have st: "cb_state ?cb = cb_state cb" "cb_config ?cb = cb_config cb" "cb_failureCount ?cb = inc64 (cb_failureCount cb)"
      "cb_halfOpenRequests ?cb = cb_halfOpenRequests cb"
      "cm_CurrentState (cb_metrics ?cb) = cm_CurrentState (cb_metrics cb)"
    by (simp_all add: updateMetrics_def note_failure_def)
  have out: "record_failure t ta tb cb
      = (if cb_state cb = StateHalfOpen \<or> shouldOpenCircuit ?cb then transitionToOpen ta tb ?cb else ?cb)"
    by (simp add: record_failure_def Let_def st)
  have "breaker_inv ?cb" if "cb_state cb \<noteq> StateHalfOpen" "\<not> shouldOpenCircuit ?cb"
  proof (cases "cb_state cb")
    case StateClosed
    with inv ok have "inc64 (cb_failureCount cb) = cb_failureCount cb + 1" "0 \<le> cb_failureCount cb"
      by (simp_all add: breaker_inv_def thresholds_ok_def int64_range_def)
    with StateClosed inv that st show ?thesis
      by (simp add: breaker_inv_def shouldOpenCircuit_def Let_def split: if_splits)
  qed (use inv that st in \<open>simp_all add: breaker_inv_def\<close>)
  then show "breaker_inv (record_failure t ta tb cb)" "cb_state (record_failure t ta tb cb) \<noteq> StateHalfOpen"
    unfolding out using st by (simp_all add: transition_inv(1))
qed

lemma record_success_inv:
  assumes inv: "breaker_inv cb" and ok: "thresholds_ok (cb_config cb)"
  shows "breaker_inv (record_finish (record_success t ta tb cb latency))"
proof -
  let ?cb = "updateMetrics (cb\<lparr>cb_successCount := inc64 (cb_successCount cb), cb_lastSuccessTime := t\<rparr>) (note_success latency)"
  have st: "cb_state ?cb = cb_state cb" "cb_config ?cb = cb_config cb" "cb_successCount ?cb = inc64 (cb_successCount cb)"
      "cb_failureCount ?cb = cb_failureCount cb" "cb_halfOpenRequests ?cb = cb_halfOpenRequests cb"
      "cm_CurrentState (cb_metrics ?cb) = cm_CurrentState (cb_metrics cb)"
    by (simp_all add: updateMetrics_def note_success_def Let_def)
  have out: "record_success t ta tb cb latency
      = (if cb_state cb = StateHalfOpen \<and> shouldCloseCircuit ?cb then transitionToClosed ta tb ?cb else ?cb)"
    by (simp add: record_success_def Let_def st)
  consider "cb_state cb = StateHalfOpen" "shouldCloseCircuit ?cb" | "cb_state cb = StateHalfOpen" "\<not> shouldCloseCircuit ?cb"
    | "cb_state cb \<noteq> StateHalfOpen" by blast
  then show ?thesis
  proof cases
    case 1
    then show ?thesis unfolding out using ok st by (simp add: breaker_inv_finish transition_inv(3))
  next
    case 2
    with st have "1 < cfg_SuccessThreshold (cb_config cb)"
      and lt: "inc64 (cb_successCount cb) < cfg_SuccessThreshold (cb_config cb)"
      by (auto simp: shouldCloseCircuit_def getRecentSuccesses_def split: if_splits)
    moreover from this inv ok 2(1) have "inc64 (cb_successCount cb) = cb_successCount cb + 1"
      by (simp add: breaker_inv_def thresholds_ok_def int64_range_def)
    ultimately show ?thesis unfolding out using 2 inv st by (simp add: breaker_inv_def)
  next
    case 3
    then have "breaker_inv ?cb" using inv st by (cases "cb_state cb") (simp_all add: breaker_inv_def)
    then show ?thesis unfolding out using 3 st by (simp add: breaker_inv_finish)
  qed
qed

lemma recordResult_inv:
  assumes "breaker_inv cb" and "thresholds_ok (cb_config cb)"
  shows "breaker_inv (recordResult t ta tb cb err latency)"
proof -
  let ?cb = "cb\<lparr>cb_requestCount := inc64 (cb_requestCount cb)\<rparr>"
  have "breaker_inv ?cb" "thresholds_ok (cb_config ?cb)"
    using assms by (cases "cb_state cb"; simp add: breaker_inv_def)+
  from record_failure_inv [OF this] record_success_inv [OF this] show ?thesis
    by (simp add: recordResult_def Let_def breaker_inv_finish)
qed

lemma updateMetrics_inv:
  "(\<And>m. cm_CurrentState (f m) = cm_CurrentState m) \<Longrightarrow> breaker_inv (updateMetrics cb f) = breaker_inv cb"
  by (cases "cb_state cb") (simp_all add: breaker_inv_def updateMetrics_def)

lemma cb_step_inv:
  assumes "breaker_inv cb" and "thresholds_ok (cb_config cb)"
  shows "breaker_inv (cb_step ev cb)"
  using assms
  by (cases ev) (simp_all add: canExecute_promote_def ForceOpen_def transition_inv updateMetrics_inv
      note_reject_def recordResult_inv)

lemma cb_run_inv:
  assumes "breaker_inv cb" and "thresholds_ok (cb_config cb)"
  shows "breaker_inv (fold cb_step evs cb)" "cb_config (fold cb_step evs cb) = cb_config cb"
  using assms by (induction evs arbitrary: cb) (simp_all add: cb_step_inv)

lemma NewCircuitBreaker_inv:
  "thresholds_ok (fill_defaults cfg) \<Longrightarrow> breaker_inv (NewCircuitBreaker t1 t2 t3 name (Some cfg))"
  by (simp add: NewCircuitBreaker_def breaker_inv_def thresholds_ok_def Let_def)

lemma NewCircuitBreaker_config: "cb_config (NewCircuitBreaker t1 t2 t3 name (Some cfg)) = fill_defaults cfg"
  by (simp add: NewCircuitBreaker_def Let_def)

lemma record_failure_state:
  assumes inv: "breaker_inv cb" and ok: "thresholds_ok (cb_config cb)"
  shows "cb_state (record_failure t ta tb cb) =
    (if cb_state cb = StateHalfOpen \<or> cb_state cb = StateClosed
        \<and> (cb_failureCount cb + 1 \<ge> cfg_FailureThreshold (cb_config cb)
           \<or> cfg_MinimumRequestCount (cb_config cb) > 0 \<and> cfg_FailureRate (cb_config cb) > 0
             \<and> cb_requestCount cb \<ge> cfg_MinimumRequestCount (cb_config cb)
             \<and> f64_div_ints (cb_failureCount cb + 1) (cb_requestCount cb) \<ge> cfg_FailureRate (cb_config cb))
     then StateOpen else cb_state cb)"
proof -
  have "cb_state cb = StateClosed \<Longrightarrow> inc64 (cb_failureCount cb) = cb_failureCount cb + 1"
    using assms by (simp add: breaker_inv_def thresholds_ok_def int64_range_def)
  then show ?thesis
    by (simp add: record_failure_def shouldOpenCircuit_def updateMetrics_def Let_def)
qed

lemma record_success_state:
  assumes inv: "breaker_inv cb" and ok: "thresholds_ok (cb_config cb)"
  shows "cb_state (record_success t ta tb cb latency) =
    (if cb_state cb = StateHalfOpen \<and> cb_successCount cb + 1 \<ge> cfg_SuccessThreshold (cb_config cb)
     then StateClosed else cb_state cb)"
proof -
  have "cb_state cb = StateHalfOpen \<Longrightarrow> inc64 (cb_successCount cb) = cb_successCount cb + 1
      \<and> (cfg_SuccessThreshold (cb_config cb) \<le> 1 \<longrightarrow> cb_successCount cb = 0)"
    using assms by (auto simp: breaker_inv_def thresholds_ok_def int64_range_def max_def split: if_splits)
  then show ?thesis
    by (auto simp: record_success_def shouldCloseCircuit_def getRecentSuccesses_def updateMetrics_def Let_def)
qed

lemma wrap_sum3:
  "inc64 (wrap64 x) = wrap64 (x + 1)"
  "wrap64 (inc64 a + b + c) = wrap64 (a + b + c + 1)"
  "wrap64 (a + inc64 b + c) = wrap64 (a + b + c + 1)"
  "wrap64 (a + b + inc64 c) = wrap64 (a + b + c + 1)"
proof -
  have "wrap64 (wrap64 x + y) = wrap64 (x + y)" for x y by (rule wrap64_add)
  from this [of "a + 1" "b + c"] this [of "b + 1" "a + c"] this [of "c + 1" "a + b"] this [of x 1]
  show "inc64 (wrap64 x) = wrap64 (x + 1)" "wrap64 (inc64 a + b + c) = wrap64 (a + b + c + 1)"
    "wrap64 (a + inc64 b + c) = wrap64 (a + b + c + 1)" "wrap64 (a + b + inc64 c) = wrap64 (a + b + c + 1)"
    by (simp_all add: inc64_def algebra_simps)
qed

definition accounted :: "CircuitMetrics \<Rightarrow> bool" where
  "accounted m \<longleftrightarrow>
     cm_TotalRequests m = wrap64 (cm_SuccessfulRequests m + cm_FailedRequests m + cm_RejectedRequests m)"

lemma accounted_notes:
  "accounted m \<Longrightarrow> accounted (note_failure m)" "accounted m \<Longrightarrow> accounted (note_success l m)"
  "accounted m \<Longrightarrow> accounted (note_reject m)" "accounted (note_transition ta tb s m) = accounted m"
  by (simp_all add: accounted_def note_failure_def note_success_def note_reject_def note_transition_def Let_def wrap_sum3)

lemma accounted_frame:
  "accounted (m\<lparr>cm_FailureRate := r\<rparr>) = accounted m" "accounted (m\<lparr>cm_TimeoutRequests := n\<rparr>) = accounted m"
  by (simp_all add: accounted_def)

lemma accounted_updates:
  "(\<And>m. accounted m \<Longrightarrow> accounted (f m)) \<Longrightarrow> accounted (cb_metrics cb) \<Longrightarrow> accounted (cb_metrics (updateMetrics cb f))"
  by (simp add: updateMetrics_def)

lemma accounted_transitions:
  "accounted (cb_metrics (transitionToOpen ta tb cb)) = accounted (cb_metrics cb)"
  "accounted (cb_metrics (transitionToHalfOpen ta tb cb)) = accounted (cb_metrics cb)"
  "accounted (cb_metrics (transitionToClosed ta tb cb)) = accounted (cb_metrics cb)"
  "accounted (cb_metrics (Breaker_Reset ta tb cb)) = accounted (cb_metrics cb)"
  "accounted (cb_metrics (record_finish cb)) = accounted (cb_metrics cb)"
  by (simp_all add: transitionToOpen_def transitionToHalfOpen_def transitionToClosed_def Breaker_Reset_def
      updateMetrics_def accounted_notes accounted_frame) (simp add: accounted_def)

lemma cb_step_accounted:
  assumes "accounted (cb_metrics cb)" shows "accounted (cb_metrics (cb_step ev cb))"
proof -
  have "accounted (cb_metrics (record_failure t ta tb cb'))" "accounted (cb_metrics (record_success t ta tb cb' l))"
    if "accounted (cb_metrics cb')" for t ta tb cb' l
    using that by (simp_all add: record_failure_def record_success_def Let_def accounted_transitions
        updateMetrics_def accounted_notes)
  then show ?thesis using assms
    by (cases ev) (simp_all add: canExecute_promote_def ForceOpen_def accounted_transitions recordResult_def
        updateMetrics_def accounted_notes accounted_frame Let_def)
qed

text \<open>A breaker whose half-open phase cannot end: it needs two successes but admits one request.\<close>

definition narrow_config :: CircuitBreakerConfig where
  "narrow_config = getDefaultCircuitBreakerConfig
     \<lparr>cfg_FailureThreshold := 1, cfg_SuccessThreshold := 2, cfg_HalfOpenMaxRequests := 1, cfg_MinimumRequestCount := 0\<rparr>"

definition quick_times :: exec_times where
  "quick_times = \<lparr>xt_start = 100 * Second, xt_check = 100 * Second, xt_recheck = 100 * Second, xt_changed = 100 * Second,
     xt_updated = 100 * Second, xt_end = 100 * Second, xt_result = 100 * Second, xt_changed2 = 100 * Second,
     xt_updated2 = 100 * Second\<rparr>"

definition failed_breaker :: "CircuitBreakerConfig \<Rightarrow> CircuitBreaker" where
  "failed_breaker cfg = cb_step (CbRecord 0 0 0 (Some OperationTimeout) 1) (NewCircuitBreaker 0 0 0 ''llm'' (Some cfg))"

lemma failed_breaker_facts:
  "cb_state (failed_breaker narrow_config) = StateOpen" "cb_stateChangeTime (failed_breaker narrow_config) = 0"
  "cb_config (failed_breaker narrow_config) = narrow_config" "thresholds_ok narrow_config"
  "fill_defaults narrow_config = narrow_config" "breaker_inv (failed_breaker narrow_config)"
  by code_simp+

definition stuck_breaker :: CircuitBreaker where
  "stuck_breaker = cb_step (CbRecord 0 0 0 None 1) (cb_step (CbPromote (100 * Second) 0 0) (failed_breaker narrow_config))"

lemma stuck_breaker_facts:
  "cb_state stuck_breaker = StateHalfOpen" "cb_halfOpenRequests stuck_breaker = 1" "cb_config stuck_breaker = narrow_config"
  by code_simp+

lemma Execute_full:
  assumes "cb_state cb = StateHalfOpen" "cfg_HalfOpenMaxRequests (cb_config cb) \<le> cb_halfOpenRequests cb"
  shows "Execute x others1 others2 cb op =
    (Inl (CircuitBreakerError (cb_name cb) StateHalfOpen ''circuit breaker is open''), updateMetrics cb note_reject, False)"
  using assms by (simp add: Execute_def canExecute_def updateMetrics_def note_reject_def Let_def)

section \<open>Properties\<close>

text \<open>C4: In every run, with the critical sections of any number of goroutines in any order, the metrics
  name the current state, a closed circuit has fewer failures than its threshold, and a half-open
  circuit has counted exactly its successes, fewer than the threshold; so when the half-open limit
  is not below the success threshold, a half-open circuit always admits a request.\<close>

theorem breaker_invariant:
  assumes "thresholds_ok (fill_defaults cfg)"
  shows "let cb = fold cb_step evs (NewCircuitBreaker t1 t2 t3 name (Some cfg))
    in breaker_inv cb
       \<and> (cb_state cb = StateHalfOpen
           \<and> max 1 (cfg_SuccessThreshold (fill_defaults cfg)) \<le> cfg_HalfOpenMaxRequests (fill_defaults cfg)
           \<longrightarrow> canExecute u1 u2 ua ub others cb = (True, cb))"
proof -
  let ?cb = "fold cb_step evs (NewCircuitBreaker t1 t2 t3 name (Some cfg))"
  have "breaker_inv ?cb" "cb_config ?cb = fill_defaults cfg"
    using assms(1) NewCircuitBreaker_inv by (simp_all add: cb_run_inv NewCircuitBreaker_config)
  then show ?thesis by (auto simp: canExecute_def breaker_inv_def Let_def)
qed

theorem breaker_invariant_witness:
  "breaker_inv (fold cb_step [CbRecord 0 0 0 (Some OperationTimeout) 1, CbPromote (100 * Second) 0 0, CbRecord 0 0 0 None 1]
     (NewCircuitBreaker 0 0 0 ''llm'' (Some narrow_config)))"
  using breaker_invariant [of narrow_config] failed_breaker_facts(4,5) unfolding Let_def by metis

text \<open>An open circuit rejects every request until the reset time-out has passed since it opened: the
  operation is not called and nothing changes but the counters of rejected requests. The first
  request after that makes the circuit half-open and is executed.\<close>

theorem open_circuit_rejects:
  assumes "cb_state cb = StateOpen"
  shows "(time_Sub (xt_check x) (cb_stateChangeTime cb) < cfg_ResetTimeout (cb_config cb) \<longrightarrow>
      Execute x others1 others2 cb op
        = (Inl (CircuitBreakerError (cb_name cb) StateOpen ''circuit breaker is open''),
           updateMetrics cb note_reject, False))
    \<and> (time_Sub (xt_check x) (cb_stateChangeTime cb) \<ge> cfg_ResetTimeout (cb_config cb)
        \<and> time_Sub (xt_recheck x) (cb_stateChangeTime cb) \<ge> cfg_ResetTimeout (cb_config cb)
        \<and> others1 = (\<lambda>cb. cb) \<longrightarrow>
      canExecute (xt_check x) (xt_recheck x) (xt_changed x) (xt_updated x) others1 cb
        = (True, transitionToHalfOpen (xt_changed x) (xt_updated x) cb)
      \<and> snd (snd (Execute x others1 others2 cb op)))"
  using assms
  by (auto simp: Execute_def canExecute_def canExecute_promote_def updateMetrics_def note_reject_def Let_def
      split: prod.splits)

theorem open_circuit_rejects_witness:
  "\<not> snd (snd (Execute (quick_times\<lparr>xt_check := 5\<rparr>) (\<lambda>cb. cb) (\<lambda>cb. cb) (failed_breaker narrow_config) (OpOk ())))
   \<and> snd (snd (Execute quick_times (\<lambda>cb. cb) (\<lambda>cb. cb) (failed_breaker narrow_config) (OpOk ())))"
proof -
  have times: "time_Sub 5 0 < cfg_ResetTimeout narrow_config" "time_Sub (100 * Second) 0 \<ge> cfg_ResetTimeout narrow_config"
    by code_simp+
  from open_circuit_rejects [OF failed_breaker_facts(1), of "quick_times\<lparr>xt_check := 5\<rparr>" "\<lambda>cb. cb" "\<lambda>cb. cb" "OpOk ()"]
    open_circuit_rejects [OF failed_breaker_facts(1), of quick_times "\<lambda>cb. cb" "\<lambda>cb. cb" "OpOk ()"] times
  show ?thesis by (simp add: failed_breaker_facts quick_times_def)
qed

text \<open>C38: The state after a result, on every branch: a failure opens a closed circuit exactly when it is
  the one that reaches the failure threshold, counting all failures since the circuit was closed, or
  when the failure rate is configured and reached; it always opens a half-open circuit; a success
  closes a half-open circuit exactly when it reaches the success threshold; an open circuit stays
  open.\<close>

theorem recordResult_transitions:
  assumes "breaker_inv cb" and "thresholds_ok (cb_config cb)"
  defines "cfg \<equiv> cb_config cb" and "n \<equiv> inc64 (cb_requestCount cb)"
  shows "cb_state (recordResult t ta tb cb err latency) =
    (case cb_state cb of
       StateClosed \<Rightarrow>
         if err \<noteq> None \<and> (cb_failureCount cb + 1 \<ge> cfg_FailureThreshold cfg
              \<or> cfg_MinimumRequestCount cfg > 0 \<and> cfg_FailureRate cfg > 0 \<and> n \<ge> cfg_MinimumRequestCount cfg
                \<and> f64_div_ints (cb_failureCount cb + 1) n \<ge> cfg_FailureRate cfg)
         then StateOpen else StateClosed
     | StateOpen \<Rightarrow> StateOpen
     | StateHalfOpen \<Rightarrow>
         if err \<noteq> None then StateOpen
         else if cb_successCount cb + 1 \<ge> cfg_SuccessThreshold cfg then StateClosed
         else StateHalfOpen)"
proof -
  let ?cb = "cb\<lparr>cb_requestCount := n\<rparr>"
  have "breaker_inv ?cb" "thresholds_ok (cb_config ?cb)"
    using assms(1,2) by (cases "cb_state cb"; simp add: breaker_inv_def)+
  note failure = record_failure_state [OF this, of t ta tb] and success = record_success_state [OF this, of t ta tb latency]
  show ?thesis
    by (cases "cb_state cb"; cases "err = None") (simp_all add: recordResult_def Let_def n_def [symmetric] failure success cfg_def)
qed

theorem recordResult_transitions_witness:
  "cb_state (recordResult 0 0 0 stuck_breaker (Some OperationTimeout) 1) = StateOpen
   \<and> cb_state (recordResult 0 0 0 stuck_breaker None 1) = StateClosed"
proof -
  have "breaker_inv stuck_breaker" by code_simp
  moreover have "cb_successCount stuck_breaker = 1" "cfg_SuccessThreshold narrow_config = 2" by code_simp+
  ultimately show ?thesis
    using recordResult_transitions [of stuck_breaker] stuck_breaker_facts failed_breaker_facts(4) by simp
qed

text \<open>A half-open circuit that has used up its requests rejects every further request and stays
  half-open, however many requests come and at whatever time: the reset time-out is not looked at
  in this state.\<close>

theorem half_open_stuck:
  assumes "cb_state cb = StateHalfOpen" and "cfg_HalfOpenMaxRequests (cb_config cb) \<le> cb_halfOpenRequests cb"
  shows "let cb' = fold (\<lambda>(x, op) cb. fst (snd (Execute x (\<lambda>cb. cb) (\<lambda>cb. cb) cb op))) calls cb
    in cb_state cb' = StateHalfOpen \<and> \<not> snd (snd (Execute x (\<lambda>cb. cb) (\<lambda>cb. cb) cb' op))"
proof -
  let ?cb = "fold (\<lambda>(x, op) cb. fst (snd (Execute x (\<lambda>cb. cb) (\<lambda>cb. cb) cb op))) calls cb"
  have "cb_state ?cb = StateHalfOpen \<and> cfg_HalfOpenMaxRequests (cb_config ?cb) \<le> cb_halfOpenRequests ?cb"
    using assms(1,2)
  proof (induction calls arbitrary: cb)
    case (Cons c calls)
    have "cb_state (updateMetrics cb note_reject) = StateHalfOpen"
      "cfg_HalfOpenMaxRequests (cb_config (updateMetrics cb note_reject)) \<le> cb_halfOpenRequests (updateMetrics cb note_reject)"
      using Cons.prems by (simp_all add: updateMetrics_def)
    from Cons.IH [OF this] Cons.prems show ?case by (cases c) (simp only: fold.simps comp_apply prod.case Execute_full fst_conv snd_conv)
  qed simp
  then show ?thesis by (simp add: Execute_full Let_def)
qed

theorem half_open_stuck_witness:
  "cb_state stuck_breaker = StateHalfOpen
   \<and> \<not> snd (snd (Execute quick_times (\<lambda>cb. cb) (\<lambda>cb. cb) stuck_breaker (OpOk ())))"
proof -
  have "cfg_HalfOpenMaxRequests (cb_config stuck_breaker) \<le> cb_halfOpenRequests stuck_breaker"
    by (simp add: stuck_breaker_facts narrow_config_def)
  from half_open_stuck [OF stuck_breaker_facts(1) this, of "[]" quick_times "OpOk ()"] stuck_breaker_facts(1)
  show ?thesis by simp
qed

text \<open>In every run the total number of requests in the metrics is the sum of the successful, failed and
  rejected ones (modulo the width of the counters).\<close>

theorem breaker_metrics_accounted:
  "let m = GetMetrics (fold cb_step evs (NewCircuitBreaker t1 t2 t3 name config))
   in cm_TotalRequests m = wrap64 (cm_SuccessfulRequests m + cm_FailedRequests m + cm_RejectedRequests m)"
proof -
  have "accounted (cb_metrics (fold cb_step evs cb))" if "accounted (cb_metrics cb)" for cb
    using that by (induction evs arbitrary: cb) (simp_all add: cb_step_accounted)
  moreover have "accounted (cb_metrics (NewCircuitBreaker t1 t2 t3 name config))"
    by (simp add: NewCircuitBreaker_def accounted_def Let_def wrap64_def)
  ultimately show ?thesis by (simp add: accounted_def GetMetrics_def Let_def)
qed

text \<open>When no minimum number of requests is configured, the success that closes a half-open circuit
  leaves a failure rate that is not a number in the metrics: both counters have just been reset.\<close>

theorem closing_rate_is_NaN:
  assumes "breaker_inv cb" and "thresholds_ok (cb_config cb)" and "cb_state cb = StateHalfOpen"
    and "cfg_MinimumRequestCount (cb_config cb) \<le> 0" and "cb_successCount cb + 1 \<ge> cfg_SuccessThreshold (cb_config cb)"
  shows "cm_FailureRate (GetMetrics (recordResult t ta tb cb None latency)) = Rate_NaN"
proof -
  let ?cb = "updateMetrics (cb\<lparr>cb_requestCount := inc64 (cb_requestCount cb),
      cb_successCount := inc64 (cb_successCount cb), cb_lastSuccessTime := t\<rparr>) (note_success latency)"
  have st: "cb_state ?cb = StateHalfOpen" "cb_config ?cb = cb_config cb" "cb_successCount ?cb = inc64 (cb_successCount cb)"
    using assms(3) by (simp_all add: updateMetrics_def)
  have "cfg_SuccessThreshold (cb_config cb) \<le> 1 \<or> inc64 (cb_successCount cb) \<ge> cfg_SuccessThreshold (cb_config cb)"
    using assms by (auto simp: breaker_inv_def thresholds_ok_def int64_range_def max_def split: if_splits)
  then have "shouldCloseCircuit ?cb" using st by (auto simp: shouldCloseCircuit_def getRecentSuccesses_def)
  then have out: "recordResult t ta tb cb None latency = record_finish (transitionToClosed ta tb ?cb)"
    using assms(3) by (simp add: recordResult_def record_success_def Let_def updateMetrics_def)
  have "cm_FailureRate (cb_metrics (record_finish (transitionToClosed ta tb c))) = Rate_NaN"
    if "cfg_MinimumRequestCount (cb_config c) \<le> 0" for c
    using that by (simp add: record_finish_def transitionToClosed_def updateMetrics_def count_ratio_def)
  with assms(4) st(2) show ?thesis unfolding out GetMetrics_def by simp
qed

theorem closing_rate_is_NaN_witness:
  "cm_FailureRate (GetMetrics (recordResult 0 0 0 stuck_breaker None 1)) = Rate_NaN"
proof -
  have "breaker_inv stuck_breaker" "cb_successCount stuck_breaker = 1" "cfg_SuccessThreshold narrow_config = 2"
    "cfg_MinimumRequestCount narrow_config = 0" by code_simp+
  with closing_rate_is_NaN [of stuck_breaker] stuck_breaker_facts failed_breaker_facts(4) show ?thesis by simp
qed

end
