(* ===== verification/RBAC.thy ===== *)
theory RBAC
  imports Go_Json "HOL-Library.List_Lexorder" "HOL-Library.Char_ord"
begin

text \<open>
  Role-based access control (\<open>pkg/auth/rbac.go\<close>): roles and permissions, the roles of each user, a
  cache of computed permissions with a time to live, access checks, and the assignment of roles
  from the claims of an identity provider. Each method under the manager's lock is a function on
  its state. Roles and permissions are values here; in Go they are pointers which callers can
  change behind the manager's back. The policy table is never written by the code and the policy
  evaluation is a stub, so policies have no model. Of the user information the fields that the
  role mappings read are kept.
\<close>

section \<open>Model\<close>

record Role =
  role_ID :: string
  role_Name :: string
  role_Description :: string
  role_Permissions :: "string list"
  role_Metadata :: "(string, string) fmap"
  role_CreatedAt :: time
  role_UpdatedAt :: time
  role_ParentRoles :: "string list"
  role_ChildRoles :: "string list"

record Permission =
  perm_ID :: string
  perm_Name :: string
  perm_Description :: string
  perm_Resource :: string
  perm_Action :: string
  perm_Scope :: string
  perm_Metadata :: "(string, string) fmap"
  perm_CreatedAt :: time
  perm_UpdatedAt :: time

text \<open>\<open>lastUpdated\<close> is one time for the whole cache; the zero time is far in the past.\<close>

record RBACCache =
  rcache_userPermissions :: "(string, string list) fmap"
  rcache_roleHierarchy :: "(string, string list) fmap"
  rcache_lastUpdated :: time

record RBACManager =
  rbac_roles :: "(string, Role) fmap"
  rbac_permissions :: "(string, Permission) fmap"
  rbac_userRoles :: "(string, string list) fmap"
  rbac_cache :: RBACCache
  rbac_cacheTTL :: duration

record RBACManagerConfig =
  rcfg_CacheTTL :: duration
  rcfg_EnableHierarchy :: bool
  rcfg_DefaultDenyAll :: bool
  rcfg_PolicyEvaluation :: string
  rcfg_MaxPolicyDepth :: int
  rcfg_EnableAuditLogging :: bool

datatype rbac_error =
    RoleDoesNotExist string
  | UserLacksRole string string
  | RoleIDEmpty
  | RoleExists string
  | PermissionDoesNotExist string
  | PermissionIDEmpty
  | PermissionExists string

record AccessRequest =
  req_UserID :: string
  req_Resource :: string
  req_Action :: string

record AccessDecision =
  dec_Allowed :: bool
  dec_Reason :: string
  dec_MissingPermissions :: "string list"
  dec_EvaluatedAt :: time

record UserInfo =
  ui_Subject :: string
  ui_Provider :: string
  ui_Organizations :: "string list"
  ui_Groups :: "string list"
  ui_Roles :: "string list"
  ui_Attributes :: "RawMessage option"


subsection \<open>Predefined roles and permissions\<close>

definition mk_role :: "time \<Rightarrow> string \<Rightarrow> string \<Rightarrow> string \<Rightarrow> string list \<Rightarrow> Role" where
  "mk_role t i n d ps =
     \<lparr>role_ID = i, role_Name = n, role_Description = d, role_Permissions = ps, role_Metadata = fmempty,
      role_CreatedAt = t, role_UpdatedAt = t, role_ParentRoles = [], role_ChildRoles = []\<rparr>"

definition SystemAdminRole :: "time \<Rightarrow> Role" where
  "SystemAdminRole t = mk_role t ''system-admin'' ''System Administrator''
     ''Full system access with all privileges''
     [''system:*'', ''intent:*'', ''e2:*'', ''auth:*'', ''config:*'', ''monitoring:*'', ''user:*'', ''rbac:*'']"

definition IntentOperatorRole :: "time \<Rightarrow> Role" where
  "IntentOperatorRole t = mk_role t ''intent-operator'' ''Intent Operator''
     ''Manage network intents and deployments''
     [''intent:create'', ''intent:read'', ''intent:update'', ''intent:delete'', ''intent:deploy'', ''e2:read'',
      ''config:read'', ''monitoring:read'']"

definition E2ManagerRole :: "time \<Rightarrow> Role" where
  "E2ManagerRole t = mk_role t ''e2-manager'' ''E2 Interface Manager''
     ''Manage E2 interface connections and service models''
     [''e2:create'', ''e2:read'', ''e2:update'', ''e2:delete'', ''e2:subscribe'', ''e2:control'', ''monitoring:read'']"

definition ReadOnlyRole :: "time \<Rightarrow> Role" where
  "ReadOnlyRole t = mk_role t ''read-only'' ''Read Only User'' ''Read-only access to system resources''
     [''intent:read'', ''e2:read'', ''config:read'', ''monitoring:read'']"

text \<open>Identifier, name, resource and action.\<close>

definition NephoranPermissions :: "(string \<times> string \<times> string \<times> string) list" where
  "NephoranPermissions =
     [(''system:admin'', ''System Administration'', ''system'', ''*''),
      (''system:config'', ''System Configuration'', ''system'', ''config''),
      (''intent:create'', ''Create Intent'', ''intent'', ''create''),
      (''intent:read'', ''Read Intent'', ''intent'', ''read''),
      (''intent:update'', ''Update Intent'', ''intent'', ''update''),
      (''intent:delete'', ''Delete Intent'', ''intent'', ''delete''),
      (''intent:deploy'', ''Deploy Intent'', ''intent'', ''deploy''),
      (''e2:create'', ''Create E2 Connection'', ''e2'', ''create''),
      (''e2:read'', ''Read E2 Data'', ''e2'', ''read''),
      (''e2:update'', ''Update E2 Configuration'', ''e2'', ''update''),
      (''e2:delete'', ''Delete E2 Connection'', ''e2'', ''delete''),
      (''e2:subscribe'', ''Subscribe to E2 Events'', ''e2'', ''subscribe''),
      (''e2:control'', ''Control E2 Functions'', ''e2'', ''control''),
      (''config:read'', ''Read Configuration'', ''config'', ''read''),
      (''config:write'', ''Write Configuration'', ''config'', ''write''),
      (''monitoring:read'', ''Read Monitoring Data'', ''monitoring'', ''read''),
      (''monitoring:write'', ''Write Monitoring Config'', ''monitoring'', ''write''),
      (''auth:read'', ''Read Auth Configuration'', ''auth'', ''read''),
      (''auth:write'', ''Write Auth Configuration'', ''auth'', ''write''),
      (''auth:manage'', ''Manage Authentication'', ''auth'', ''manage''),
      (''user:read'', ''Read User Data'', ''user'', ''read''),
      (''user:write'', ''Write User Data'', ''user'', ''write''),
      (''user:manage'', ''Manage Users'', ''user'', ''manage''),
      (''rbac:read'', ''Read RBAC Configuration'', ''rbac'', ''read''),
      (''rbac:write'', ''Write RBAC Configuration'', ''rbac'', ''write''),
      (''rbac:manage'', ''Manage RBAC'', ''rbac'', ''manage'')]"

definition mk_permission :: "time \<Rightarrow> string \<times> string \<times> string \<times> string \<Rightarrow> Permission" where
  "mk_permission t p =
     (case p of (i, n, r, a) \<Rightarrow>
        \<lparr>perm_ID = i, perm_Name = n, perm_Description = ''Permission to '' @ a @ '' on '' @ r,
         perm_Resource = r, perm_Action = a, perm_Scope = '''', perm_Metadata = fmempty,
         perm_CreatedAt = t, perm_UpdatedAt = t\<rparr>)"

text \<open>One clock reading \<open>t\<close> stands for all those of the initialisation.\<close>

definition initializeDefaults :: "time \<Rightarrow> RBACManager \<Rightarrow> RBACManager" where
  "initializeDefaults t r =
     r\<lparr>rbac_permissions := fold (\<lambda>p m. fmupd (fst p) (mk_permission t p) m) NephoranPermissions (rbac_permissions r),
       rbac_roles := fold (\<lambda>role m. fmupd (role_ID role) role m)
         [SystemAdminRole t, IntentOperatorRole t, E2ManagerRole t, ReadOnlyRole t] (rbac_roles r)\<rparr>"

definition default_rbac_config :: RBACManagerConfig where
  "default_rbac_config =
     \<lparr>rcfg_CacheTTL = 15 * Minute, rcfg_EnableHierarchy = True, rcfg_DefaultDenyAll = True,
      rcfg_PolicyEvaluation = ''deny-overrides'', rcfg_MaxPolicyDepth = 10, rcfg_EnableAuditLogging = True\<rparr>"

definition NewRBACManager :: "time \<Rightarrow> RBACManagerConfig option \<Rightarrow> RBACManager" where
  "NewRBACManager t config =
     (let c = (case config of None \<Rightarrow> default_rbac_config | Some c \<Rightarrow> c)
      in initializeDefaults t
           \<lparr>rbac_roles = fmempty, rbac_permissions = fmempty, rbac_userRoles = fmempty,
            rbac_cache = \<lparr>rcache_userPermissions = fmempty, rcache_roleHierarchy = fmempty,
                          rcache_lastUpdated = zero_time\<rparr>,
            rbac_cacheTTL = rcfg_CacheTTL c\<rparr>)"

subsection \<open>Cache and permissions\<close>

definition invalidateUserCache :: "RBACManager \<Rightarrow> string \<Rightarrow> RBACManager" where
  "invalidateUserCache r userID =
     r\<lparr>rbac_cache := (rbac_cache r)\<lparr>rcache_userPermissions := fmdrop userID (rcache_userPermissions (rbac_cache r))\<rparr>\<rparr>"

definition invalidateAllCache :: "RBACManager \<Rightarrow> RBACManager" where
  "invalidateAllCache r =
     r\<lparr>rbac_cache := \<lparr>rcache_userPermissions = fmempty, rcache_roleHierarchy = fmempty,
                      rcache_lastUpdated = zero_time\<rparr>\<rparr>"

text \<open>A missing entry of a Go map of slices reads as the empty slice.\<close>

definition roles_of :: "RBACManager \<Rightarrow> string \<Rightarrow> string list" where
  "roles_of r userID = (case fmlookup (rbac_userRoles r) userID of None \<Rightarrow> [] | Some rs \<Rightarrow> rs)"

fun collect_permissions :: "string list \<Rightarrow> string list \<Rightarrow> string list" where
  "collect_permissions acc [] = acc"
| "collect_permissions acc (permID # ps) =
     collect_permissions (if permID \<in> set acc then acc else acc @ [permID]) ps"

fun calculate_loop :: "RBACManager \<Rightarrow> string list \<Rightarrow> string list \<Rightarrow> string list" where
  "calculate_loop r acc [] = acc"
| "calculate_loop r acc (roleID # roleIDs) =
     calculate_loop r
       (case fmlookup (rbac_roles r) roleID of
          None \<Rightarrow> acc
        | Some role \<Rightarrow> collect_permissions acc (role_Permissions role)) roleIDs"

definition calculateUserPermissions :: "RBACManager \<Rightarrow> string \<Rightarrow> string list" where
  "calculateUserPermissions r userID = sort (calculate_loop r [] (roles_of r userID))"

text \<open>\<open>t1\<close> is the reading of the cache test, \<open>t2\<close> that of the store.\<close>

definition GetUserPermissions :: "time \<Rightarrow> time \<Rightarrow> RBACManager \<Rightarrow> string \<Rightarrow> string list \<times> RBACManager" where
  "GetUserPermissions t1 t2 r userID =
     (let c = rbac_cache r;
          compute = (let ps = calculateUserPermissions r userID
                     in (ps, r\<lparr>rbac_cache := c\<lparr>rcache_userPermissions := fmupd userID ps (rcache_userPermissions c),
                                              rcache_lastUpdated := t2\<rparr>\<rparr>))
      in case fmlookup (rcache_userPermissions c) userID of
           Some ps \<Rightarrow> if time_Sub t1 (rcache_lastUpdated c) < rbac_cacheTTL r then (ps, r) else compute
         | None \<Rightarrow> compute)"

definition GetUserRoles :: "RBACManager \<Rightarrow> string \<Rightarrow> string list" where
  "GetUserRoles r userID = roles_of r userID"

definition matchesPermission :: "string \<Rightarrow> string \<Rightarrow> bool" where
  "matchesPermission granted required =
     (if granted = ''*'' \<or> granted = required then True
      else if strings_HasSuffix granted '':*''
      then let grantedResource = strings_TrimSuffix granted '':*'';
               requiredParts = strings_SplitN2 required (CHR '':'')
           in length requiredParts = 2 \<and> requiredParts ! 0 = grantedResource
      else False)"

fun any_matches :: "string list \<Rightarrow> string \<Rightarrow> bool" where
  "any_matches [] required = False"
| "any_matches (perm # ps) required = (if matchesPermission perm required then True else any_matches ps required)"

definition CheckPermission :: "time \<Rightarrow> time \<Rightarrow> RBACManager \<Rightarrow> string \<Rightarrow> string \<Rightarrow> bool \<times> RBACManager" where
  "CheckPermission t1 t2 r userID permission =
     (case GetUserPermissions t1 t2 r userID of (ps, r') \<Rightarrow> (any_matches ps permission, r'))"

definition evaluatePolicies :: "AccessRequest \<Rightarrow> AccessDecision \<Rightarrow> AccessDecision" where
  "evaluatePolicies request decision =
     decision\<lparr>dec_Allowed := True, dec_Reason := ''Permission granted by RBAC''\<rparr>"

definition CheckAccess :: "time \<Rightarrow> time \<Rightarrow> time \<Rightarrow> RBACManager \<Rightarrow> AccessRequest \<Rightarrow> AccessDecision \<times> RBACManager" where
  "CheckAccess startTime t1 t2 r request =
     (let decision = \<lparr>dec_Allowed = False, dec_Reason = '''', dec_MissingPermissions = [], dec_EvaluatedAt = startTime\<rparr>;
          (ps, r') = GetUserPermissions t1 t2 r (req_UserID request);
          requiredPermission = req_Resource request @ '':'' @ req_Action request
      in if \<not> any_matches ps requiredPermission
         then (decision\<lparr>dec_Allowed := False,
                        dec_Reason := ''User lacks required permission: '' @ requiredPermission,
                        dec_MissingPermissions := [requiredPermission]\<rparr>, r')
         else (evaluatePolicies request decision, r'))"

subsection \<open>Administration\<close>

definition GrantRoleToUser :: "RBACManager \<Rightarrow> string \<Rightarrow> string \<Rightarrow> rbac_error option \<times> RBACManager" where
  "GrantRoleToUser r userID roleID =
     (if fmlookup (rbac_roles r) roleID = None then (Some (RoleDoesNotExist roleID), r)
      else if roleID \<in> set (roles_of r userID) then (None, r)
      else (None, invalidateUserCache
             (r\<lparr>rbac_userRoles := fmupd userID (roles_of r userID @ [roleID]) (rbac_userRoles r)\<rparr>) userID))"

definition RevokeRoleFromUser :: "RBACManager \<Rightarrow> string \<Rightarrow> string \<Rightarrow> rbac_error option \<times> RBACManager" where
  "RevokeRoleFromUser r userID roleID =
     (if roleID \<in> set (roles_of r userID)
      then (None, invalidateUserCache
             (r\<lparr>rbac_userRoles := fmupd userID (remove1 roleID (roles_of r userID)) (rbac_userRoles r)\<rparr>) userID)
      else (Some (UserLacksRole userID roleID), r))"

text \<open>The first permission of a role that is not in the table.\<close>

definition unknown_permission :: "RBACManager \<Rightarrow> Role \<Rightarrow> string option" where
  "unknown_permission r role = List.find (\<lambda>permID. fmlookup (rbac_permissions r) permID = None) (role_Permissions role)"

definition CreateRole :: "time \<Rightarrow> RBACManager \<Rightarrow> Role \<Rightarrow> rbac_error option \<times> RBACManager" where
  "CreateRole now r role =
     (if role_ID role = '''' then (Some RoleIDEmpty, r)
      else if fmlookup (rbac_roles r) (role_ID role) \<noteq> None then (Some (RoleExists (role_ID role)), r)
      else case unknown_permission r role of
             Some permID \<Rightarrow> (Some (PermissionDoesNotExist permID), r)
           | None \<Rightarrow> (None, invalidateAllCache
               (r\<lparr>rbac_roles := fmupd (role_ID role) (role\<lparr>role_CreatedAt := now, role_UpdatedAt := now\<rparr>) (rbac_roles r)\<rparr>)))"

definition UpdateRole :: "time \<Rightarrow> RBACManager \<Rightarrow> Role \<Rightarrow> rbac_error option \<times> RBACManager" where
  "UpdateRole now r role =
     (if fmlookup (rbac_roles r) (role_ID role) = None then (Some (RoleDoesNotExist (role_ID role)), r)
      else case unknown_permission r role of
             Some permID \<Rightarrow> (Some (PermissionDoesNotExist permID), r)
           | None \<Rightarrow> (None, invalidateAllCache
               (r\<lparr>rbac_roles := fmupd (role_ID role) (role\<lparr>role_UpdatedAt := now\<rparr>) (rbac_roles r)\<rparr>)))"

text \<open>Removes the first occurrence of the role from the list of every user.\<close>

definition DeleteRole :: "RBACManager \<Rightarrow> string \<Rightarrow> rbac_error option \<times> RBACManager" where
  "DeleteRole r roleID =
     (if fmlookup (rbac_roles r) roleID = None then (Some (RoleDoesNotExist roleID), r)
      else (None, invalidateAllCache
             (r\<lparr>rbac_userRoles := fmmap (remove1 roleID) (rbac_userRoles r),
                rbac_roles := fmdrop roleID (rbac_roles r)\<rparr>)))"

definition GetRole :: "RBACManager \<Rightarrow> string \<Rightarrow> rbac_error + Role" where
  "GetRole r roleID =
     (case fmlookup (rbac_roles r) roleID of None \<Rightarrow> Inl (RoleDoesNotExist roleID) | Some role \<Rightarrow> Inr role)"

definition CreatePermission :: "time \<Rightarrow> RBACManager \<Rightarrow> Permission \<Rightarrow> rbac_error option \<times> RBACManager" where
  "CreatePermission now r perm =
     (if perm_ID perm = '''' then (Some PermissionIDEmpty, r)
      else if fmlookup (rbac_permissions r) (perm_ID perm) \<noteq> None then (Some (PermissionExists (perm_ID perm)), r)
      else (None, invalidateAllCache
             (r\<lparr>rbac_permissions := fmupd (perm_ID perm)
                 (perm\<lparr>perm_CreatedAt := now, perm_UpdatedAt := now\<rparr>) (rbac_permissions r)\<rparr>)))"

subsection \<open>Roles from claims\<close>

definition mapGitHubRoles :: "UserInfo \<Rightarrow> string list" where
  "mapGitHubRoles u =
     (if list_ex (\<lambda>org. strings_Contains (strings_ToLower org) ''admin'') (ui_Organizations u)
      then [''system-admin''] else [])
     @ concat (map (\<lambda>group.
         if strings_Contains group ''/admin'' \<or> strings_Contains group ''/owners'' then [''intent-operator'']
         else if strings_Contains group ''/developers'' then [''e2-manager''] else []) (ui_Groups u))"

definition mapGoogleRoles :: "UserInfo \<Rightarrow> string list" where
  "mapGoogleRoles u =
     (case ui_Attributes u of
        None \<Rightarrow> []
      | Some raw \<Rightarrow>
          (case unmarshal_map raw of
             Decoded attrs \<Rightarrow>
               (case fmlookup attrs ''hosted_domain'' of
                  Some (Json_string hostedDomain) \<Rightarrow>
                    if hostedDomain = ''nephoran.io'' \<or> hostedDomain = ''admin.nephoran.io''
                    then [''intent-operator''] else []
                | _ \<Rightarrow> [])
           | _ \<Rightarrow> []))"

definition mapAzureADRoles :: "UserInfo \<Rightarrow> string list" where
  "mapAzureADRoles u =
     concat (map (\<lambda>role. let l = strings_ToLower role
         in if l = ''global administrator'' \<or> l = ''user administrator'' then [''system-admin'']
            else if l = ''application administrator'' then [''intent-operator'']
            else if l = ''directory readers'' then [''read-only''] else []) (ui_Roles u))
     @ concat (map (\<lambda>group.
         if strings_Contains (strings_ToLower group) ''admin'' then [''intent-operator'']
         else if strings_Contains (strings_ToLower group) ''operator'' then [''e2-manager''] else []) (ui_Groups u))"

definition getRoleMappings :: "UserInfo \<Rightarrow> string list" where
  "getRoleMappings u =
     (let roles = (if ui_Provider u = ''github'' then mapGitHubRoles u
                   else if ui_Provider u = ''google'' then mapGoogleRoles u
                   else if ui_Provider u = ''azuread'' then mapAzureADRoles u
                   else [])
      in if roles = [] then [''read-only''] else roles)"

text \<open>A role that cannot be granted is only logged.\<close>

definition AssignRolesFromClaims :: "RBACManager \<Rightarrow> UserInfo \<Rightarrow> RBACManager" where
  "AssignRolesFromClaims r u =
     fold (\<lambda>roleID r. snd (GrantRoleToUser r (ui_Subject u) roleID)) (getRoleMappings u)
       (r\<lparr>rbac_userRoles := fmupd (ui_Subject u) [] (rbac_userRoles r)\<rparr>)"

section \<open>Specification\<close>

text \<open>A user is entitled to a permission when a role that the user has and that exists grants it.\<close>

definition role_grants :: "RBACManager \<Rightarrow> string \<Rightarrow> string \<Rightarrow> bool" where
  "role_grants r roleID required \<longleftrightarrow>
     (\<exists>role. fmlookup (rbac_roles r) roleID = Some role
        \<and> (\<exists>p \<in> set (role_Permissions role). matchesPermission p required))"

definition entitled :: "RBACManager \<Rightarrow> string \<Rightarrow> string \<Rightarrow> bool" where
  "entitled r userID required \<longleftrightarrow> (\<exists>roleID \<in> set (roles_of r userID). role_grants r roleID required)"

definition cached :: "RBACManager \<Rightarrow> string \<Rightarrow> string list option" where
  "cached r userID = fmlookup (rcache_userPermissions (rbac_cache r)) userID"

text \<open>Cached permissions are the ones the current roles give, and no user has a role twice.\<close>

definition coherent_for :: "RBACManager \<Rightarrow> string \<Rightarrow> bool" where
  "coherent_for r userID \<longleftrightarrow> (\<forall>ps. cached r userID = Some ps \<longrightarrow> ps = calculateUserPermissions r userID)"

definition rbac_inv :: "RBACManager \<Rightarrow> bool" where
  "rbac_inv r \<longleftrightarrow> (\<forall>u. coherent_for r u) \<and> (\<forall>u. distinct (roles_of r u))"

section \<open>Lemmas\<close>

lemma collect_permissions_set: "set (collect_permissions acc ps) = set acc \<union> set ps"
  by (induction acc ps rule: collect_permissions.induct) auto

lemma calculate_loop_set:
  "set (calculate_loop r acc ids) = set acc \<union> {p. \<exists>i \<in> set ids. \<exists>role. fmlookup (rbac_roles r) i = Some role
     \<and> p \<in> set (role_Permissions role)}"
  by (induction r acc ids rule: calculate_loop.induct) (auto simp: collect_permissions_set split: option.splits)

lemma any_matches_iff: "any_matches ps required \<longleftrightarrow> (\<exists>p \<in> set ps. matchesPermission p required)"
  by (induction ps) auto

lemma calculate_entitled: "any_matches (calculateUserPermissions r u) required \<longleftrightarrow> entitled r u required"
proof -
  have "any_matches (calculateUserPermissions r u) required \<longleftrightarrow>
      (\<exists>p. (\<exists>i \<in> set (roles_of r u). \<exists>role. fmlookup (rbac_roles r) i = Some role \<and> p \<in> set (role_Permissions role))
         \<and> matchesPermission p required)"
    unfolding any_matches_iff calculateUserPermissions_def set_sort calculate_loop_set by auto
  then show ?thesis unfolding entitled_def role_grants_def by blast
qed

lemma calculate_loop_cong:
  "rbac_roles r' = rbac_roles r \<Longrightarrow> calculate_loop r' acc ids = calculate_loop r acc ids"
  by (induction ids arbitrary: acc) simp_all

lemma calculate_cong:
  "rbac_roles r' = rbac_roles r \<Longrightarrow> roles_of r' u = roles_of r u \<Longrightarrow>
   calculateUserPermissions r' u = calculateUserPermissions r u"
  unfolding calculateUserPermissions_def by (metis calculate_loop_cong)

lemma coherent_cong:
  "rbac_roles r' = rbac_roles r \<Longrightarrow> roles_of r' u = roles_of r u \<Longrightarrow> cached r' u = cached r u \<Longrightarrow>
   coherent_for r' u = coherent_for r u"
  by (simp add: coherent_for_def calculate_cong [of r' r])

lemma coherent_uncached: "cached r u = None \<Longrightarrow> coherent_for r u"
  by (simp add: coherent_for_def)

lemma roles_of_upd [simp]:
  "roles_of (r\<lparr>rbac_userRoles := fmupd u rs (rbac_userRoles r)\<rparr>) v = (if v = u then rs else roles_of r v)"
  by (simp add: roles_of_def)

lemma roles_of_invalidate [simp]:
  "roles_of (invalidateUserCache r u) v = roles_of r v" "roles_of (invalidateAllCache r) v = roles_of r v"
  by (simp_all add: roles_of_def invalidateUserCache_def invalidateAllCache_def)

lemma cached_fields [simp]: "cached (r\<lparr>rbac_userRoles := x\<rparr>) u = cached r u"
  by (simp add: cached_def)

lemma cached_invalidate [simp]:
  "cached (invalidateUserCache r u) v = (if v = u then None else cached r v)" "cached (invalidateAllCache r) v = None"
  by (simp_all add: cached_def invalidateUserCache_def invalidateAllCache_def)

lemma rbac_roles_invalidate [simp]:
  "rbac_roles (invalidateUserCache r u) = rbac_roles r" "rbac_roles (invalidateAllCache r) = rbac_roles r"
  by (simp_all add: invalidateUserCache_def invalidateAllCache_def)

lemma GetUserPermissions_frame:
  "rbac_roles (snd (GetUserPermissions t1 t2 r u)) = rbac_roles r"
  "roles_of (snd (GetUserPermissions t1 t2 r u)) v = roles_of r v"
  by (simp_all add: GetUserPermissions_def roles_of_def Let_def split: option.splits)

lemma GetUserPermissions_inv [inv_intros]:
  assumes "rbac_inv r" shows "rbac_inv (snd (GetUserPermissions t1 t2 r u))"
proof -
  let ?r = "snd (GetUserPermissions t1 t2 r u)"
  have "cached ?r v = cached r v \<or> cached ?r v = Some (calculateUserPermissions r v)" for v
    by (simp add: GetUserPermissions_def cached_def Let_def split: option.splits)
  then have "coherent_for ?r v" for v
    using assms calculate_cong [of ?r r v] by (metis GetUserPermissions_frame coherent_for_def option.inject rbac_inv_def)
  then show ?thesis using assms by (simp add: rbac_inv_def GetUserPermissions_frame)
qed

lemma GetUserPermissions_value:
  assumes "rbac_inv r" shows "fst (GetUserPermissions t1 t2 r u) = calculateUserPermissions r u"
  using assms
  by (auto simp: GetUserPermissions_def rbac_inv_def coherent_for_def cached_def Let_def split: option.splits)

lemma rbac_inv_userRoles:
  assumes "rbac_inv r" "distinct rs"
  shows "rbac_inv (invalidateUserCache (r\<lparr>rbac_userRoles := fmupd u rs (rbac_userRoles r)\<rparr>) u)" (is "rbac_inv ?r")
proof -
  have "coherent_for ?r v" for v
  proof (cases "v = u")
    case False
    then have "coherent_for ?r v = coherent_for r v" by (intro coherent_cong) simp_all
    with assms show ?thesis by (simp add: rbac_inv_def)
  qed (simp add: coherent_uncached)
  with assms show ?thesis by (simp add: rbac_inv_def)
qed

lemma rbac_inv_all:
  "(\<And>u. distinct (roles_of r u)) \<Longrightarrow> rbac_inv (invalidateAllCache r)"
  by (simp add: rbac_inv_def coherent_uncached)

lemma rbac_inv_distinct: "rbac_inv r \<Longrightarrow> distinct (roles_of r u)"
  by (simp add: rbac_inv_def)

lemma GrantRoleToUser_inv [inv_intros]: "rbac_inv r \<Longrightarrow> rbac_inv (snd (GrantRoleToUser r u i))"
  by (auto simp: GrantRoleToUser_def intro!: rbac_inv_userRoles dest: rbac_inv_distinct)

lemma RevokeRoleFromUser_inv [inv_intros]: "rbac_inv r \<Longrightarrow> rbac_inv (snd (RevokeRoleFromUser r u i))"
  by (auto simp: RevokeRoleFromUser_def intro!: rbac_inv_userRoles distinct_remove1 dest: rbac_inv_distinct)

lemma roles_of_fields [simp]:
  "roles_of (r\<lparr>rbac_roles := x\<rparr>) u = roles_of r u" "roles_of (r\<lparr>rbac_permissions := y\<rparr>) u = roles_of r u"
  by (simp_all add: roles_of_def)

lemma roles_of_DeleteRole:
  "roles_of (r\<lparr>rbac_userRoles := fmmap (remove1 i) (rbac_userRoles r)\<rparr>) u = remove1 i (roles_of r u)"
  by (simp add: roles_of_def split: option.splits)

lemma CreateRole_inv [inv_intros]: "rbac_inv r \<Longrightarrow> rbac_inv (snd (CreateRole now r role))"
  by (auto simp: CreateRole_def intro!: rbac_inv_all dest: rbac_inv_distinct split: option.splits)

lemma UpdateRole_inv [inv_intros]: "rbac_inv r \<Longrightarrow> rbac_inv (snd (UpdateRole now r role))"
  by (auto simp: UpdateRole_def intro!: rbac_inv_all dest: rbac_inv_distinct split: option.splits)

lemma CreatePermission_inv [inv_intros]: "rbac_inv r \<Longrightarrow> rbac_inv (snd (CreatePermission now r perm))"
  by (auto simp: CreatePermission_def intro!: rbac_inv_all dest: rbac_inv_distinct)

lemma DeleteRole_inv [inv_intros]: "rbac_inv r \<Longrightarrow> rbac_inv (snd (DeleteRole r i))"
  by (auto simp: DeleteRole_def roles_of_DeleteRole intro!: rbac_inv_all distinct_remove1 dest: rbac_inv_distinct)

lemma NewRBACManager_inv [inv_intros]: "rbac_inv (NewRBACManager t config)"
  by (simp add: NewRBACManager_def initializeDefaults_def rbac_inv_def coherent_for_def cached_def roles_of_def Let_def)

text \<open>Assigning from claims: the clearing leaves the cache entry of the user, the first role that is
  granted removes it.\<close>

lemma grants_fold:
  fixes ids :: "string list"
  assumes "\<And>v. v \<noteq> u \<Longrightarrow> coherent_for r v" "\<And>v. distinct (roles_of r v)"
    "roles_of r u \<noteq> [] \<Longrightarrow> cached r u = None"
  defines "r' \<equiv> fold (\<lambda>i r. snd (GrantRoleToUser r u i)) ids r"
  shows "(\<forall>v. v \<noteq> u \<longrightarrow> coherent_for r' v) \<and> (\<forall>v. distinct (roles_of r' v))
    \<and> (roles_of r' u \<noteq> [] \<longrightarrow> cached r' u = None) \<and> rbac_roles r' = rbac_roles r
    \<and> set (roles_of r' u) = set (roles_of r u) \<union> {i \<in> set ids. fmlookup (rbac_roles r) i \<noteq> None}
    \<and> (roles_of r' u = [] \<longrightarrow> cached r' u = cached r u)"
  using assms(1-3) unfolding r'_def
proof (induction ids arbitrary: r)
  case (Cons i ids)
  let ?r = "snd (GrantRoleToUser r u i)"
  have roles: "rbac_roles ?r = rbac_roles r" by (simp add: GrantRoleToUser_def)
  let ?r' = "fold (\<lambda>i r. snd (GrantRoleToUser r u i)) ids ?r"
  have "coherent_for ?r v" if "v \<noteq> u" for v
    using that Cons.prems(1) [OF that] coherent_cong [of ?r r v] by (simp add: GrantRoleToUser_def)
  moreover have "distinct (roles_of ?r v)" for v using Cons.prems(2) by (simp add: GrantRoleToUser_def)
  moreover have "roles_of ?r u \<noteq> [] \<Longrightarrow> cached ?r u = None"
    using Cons.prems(3) by (auto simp: GrantRoleToUser_def split: if_splits)
  ultimately have IH: "\<forall>v. v \<noteq> u \<longrightarrow> coherent_for ?r' v" "\<forall>v. distinct (roles_of ?r' v)"
    "roles_of ?r' u \<noteq> [] \<longrightarrow> cached ?r' u = None" "rbac_roles ?r' = rbac_roles ?r"
    "set (roles_of ?r' u) = set (roles_of ?r u) \<union> {i \<in> set ids. fmlookup (rbac_roles ?r) i \<noteq> None}"
    "roles_of ?r' u = [] \<longrightarrow> cached ?r' u = cached ?r u"
    using Cons.IH [of ?r] by blast+
  have step: "set (roles_of ?r u) = set (roles_of r u) \<union> {j \<in> {i}. fmlookup (rbac_roles r) j \<noteq> None}"
    by (auto simp: GrantRoleToUser_def)
  then have set: "set (roles_of ?r' u) = set (roles_of r u) \<union> {j \<in> set (i # ids). fmlookup (rbac_roles r) j \<noteq> None}"
    unfolding IH(5) roles by auto
  have "roles_of ?r' u = [] \<longrightarrow> cached ?r' u = cached r u"
  proof
    assume empty: "roles_of ?r' u = []"
    then have "set (roles_of ?r u) = {}" unfolding set_empty using IH(5) by simp
    then have "cached ?r u = cached r u" by (simp add: GrantRoleToUser_def split: if_splits)
    with IH(6) empty show "cached ?r' u = cached r u" by simp
  qed
  then show ?case
    unfolding fold_Cons comp_apply using IH(1-3) IH(4) [unfolded roles] set by (intro conjI)
qed simp

lemma Assign_effect:
  fixes u :: UserInfo
  assumes "rbac_inv r"
  defines "r' \<equiv> AssignRolesFromClaims r u"
  shows "set (roles_of r' (ui_Subject u)) = {i \<in> set (getRoleMappings u). fmlookup (rbac_roles r) i \<noteq> None}"
    "rbac_roles r' = rbac_roles r" "distinct (roles_of r' v)"
    "roles_of r' (ui_Subject u) \<noteq> [] \<Longrightarrow> rbac_inv r'"
    "roles_of r' (ui_Subject u) = [] \<Longrightarrow> cached r' (ui_Subject u) = cached r (ui_Subject u)"
proof -
  let ?s = "ui_Subject u"
  let ?r = "r\<lparr>rbac_userRoles := fmupd ?s [] (rbac_userRoles r)\<rparr>"
  have "coherent_for ?r v" if "v \<noteq> ?s" for v
    using that assms(1) coherent_cong [of ?r r v] by (simp add: rbac_inv_def)
  moreover have "distinct (roles_of ?r v)" for v using assms(1) by (simp add: rbac_inv_def)
  moreover have "roles_of ?r ?s = []" by simp
  ultimately have *: "\<forall>v. v \<noteq> ?s \<longrightarrow> coherent_for r' v" "\<forall>v. distinct (roles_of r' v)"
    "roles_of r' ?s \<noteq> [] \<longrightarrow> cached r' ?s = None" "rbac_roles r' = rbac_roles ?r"
    "set (roles_of r' ?s) = set (roles_of ?r ?s) \<union> {i \<in> set (getRoleMappings u). fmlookup (rbac_roles ?r) i \<noteq> None}"
    "roles_of r' ?s = [] \<longrightarrow> cached r' ?s = cached ?r ?s"
    using grants_fold [of ?s ?r "getRoleMappings u"] unfolding r'_def AssignRolesFromClaims_def by blast+
  then show "set (roles_of r' ?s) = {i \<in> set (getRoleMappings u). fmlookup (rbac_roles r) i \<noteq> None}"
    "rbac_roles r' = rbac_roles r" "distinct (roles_of r' v)"
    "roles_of r' ?s = [] \<Longrightarrow> cached r' ?s = cached r ?s" by simp_all
  assume "roles_of r' ?s \<noteq> []"
  then have "coherent_for r' v" for v using *(1,3) coherent_uncached by (cases "v = ?s") auto
  then show "rbac_inv r'" using *(2) by (simp add: rbac_inv_def)
qed

section \<open>Runs\<close>

text \<open>Any sequence of operations. Roles are assigned from claims when at least one of the roles they map
  to exists, as it does unless a default role has been deleted.\<close>

inductive rbac_reach :: "RBACManager \<Rightarrow> bool" where
  start: "rbac_reach (NewRBACManager t config)"
| perms: "rbac_reach r \<Longrightarrow> rbac_reach (snd (GetUserPermissions t1 t2 r u))"
| grant: "rbac_reach r \<Longrightarrow> rbac_reach (snd (GrantRoleToUser r u i))"
| revoke: "rbac_reach r \<Longrightarrow> rbac_reach (snd (RevokeRoleFromUser r u i))"
| create_role: "rbac_reach r \<Longrightarrow> rbac_reach (snd (CreateRole now r role))"
| update_role: "rbac_reach r \<Longrightarrow> rbac_reach (snd (UpdateRole now r role))"
| delete_role: "rbac_reach r \<Longrightarrow> rbac_reach (snd (DeleteRole r i))"
| create_perm: "rbac_reach r \<Longrightarrow> rbac_reach (snd (CreatePermission now r perm))"
| assign: "rbac_reach r \<Longrightarrow> i \<in> set (getRoleMappings ui) \<Longrightarrow> fmlookup (rbac_roles r) i \<noteq> None \<Longrightarrow>
    rbac_reach (AssignRolesFromClaims r ui)"

lemma rbac_reach_inv: "rbac_reach r \<Longrightarrow> rbac_inv r"
proof (induction rule: rbac_reach.induct)
  case (assign r i ui)
  have "i \<in> set (roles_of (AssignRolesFromClaims r ui) (ui_Subject ui))"
    unfolding Assign_effect(1) [OF assign.IH] using assign.hyps(2,3) by simp
  then show ?case using Assign_effect(4) [OF assign.IH] by force
qed (blast intro: inv_intros)+

lemma CheckPermission_entitled:
  "rbac_inv r \<Longrightarrow> fst (CheckPermission t1 t2 r u p) \<longleftrightarrow> entitled r u p"
  using GetUserPermissions_value [of r t1 t2 u] calculate_entitled
  by (simp add: CheckPermission_def case_prod_beta)

lemma roles_grant_frame:
  "role_grants (invalidateUserCache r u) i p = role_grants r i p"
  "role_grants (r\<lparr>rbac_userRoles := x\<rparr>) i p = role_grants r i p"
  by (simp_all add: role_grants_def)

definition sample_rbac :: RBACManager where
  "sample_rbac = snd (GrantRoleToUser (NewRBACManager 0 None) ''alice'' ''intent-operator'')"

definition sample_user :: "string \<Rightarrow> string \<Rightarrow> string list \<Rightarrow> UserInfo" where
  "sample_user subject provider orgs =
     \<lparr>ui_Subject = subject, ui_Provider = provider, ui_Organizations = orgs, ui_Groups = [], ui_Roles = [],
      ui_Attributes = None\<rparr>"

lemma sample_rbac_reach: "rbac_reach sample_rbac"
  unfolding sample_rbac_def by (intro rbac_reach.grant rbac_reach.start)

section \<open>Properties\<close>



text \<open>What a granted permission covers: itself, everything when it is the star, and with the suffix
  colon star exactly the permissions whose part before their first colon is its resource.\<close>

theorem matchesPermission_covers:
  "matchesPermission granted required \<longleftrightarrow>
     granted = ''*'' \<or> granted = required
     \<or> (\<exists>resource action. granted = resource @ '':*'' \<and> required = resource @ '':'' @ action \<and> CHR '':'' \<notin> set resource)"
proof -
  have "(length (strings_SplitN2 required (CHR '':'')) = 2 \<and> strings_SplitN2 required (CHR '':'') ! 0 = res) \<longleftrightarrow>
      (\<exists>action. required = res @ '':'' @ action \<and> CHR '':'' \<notin> set res)" for res
  proof
    assume "length (strings_SplitN2 required (CHR '':'')) = 2 \<and> strings_SplitN2 required (CHR '':'') ! 0 = res"
    then obtain b where "strings_SplitN2 required (CHR '':'') = [res, b]"
      by (auto simp: length_Suc_conv numeral_2_eq_2)
    then show "\<exists>action. required = res @ '':'' @ action \<and> CHR '':'' \<notin> set res" using SplitN2_two by fastforce
  next
    assume "\<exists>action. required = res @ '':'' @ action \<and> CHR '':'' \<notin> set res"
    then show "length (strings_SplitN2 required (CHR '':'')) = 2 \<and> strings_SplitN2 required (CHR '':'') ! 0 = res"
      by (auto simp: SplitN2_colon)
  qed
  note split = this
  show ?thesis
  proof (cases "\<exists>resource. granted = resource @ '':*''")
    case True
    then obtain resource where res: "granted = resource @ '':*''" by blast
    then have "strings_HasSuffix granted '':*''" "strings_TrimSuffix granted '':*'' = resource"
      by (simp_all add: HasSuffix_iff suffix_def TrimSuffix_append)
    with split [of resource] res show ?thesis by (auto simp: matchesPermission_def Let_def)
  next
    case False
    then have "\<not> strings_HasSuffix granted '':*''" by (auto simp: HasSuffix_iff suffix_def)
    with False show ?thesis by (auto simp: matchesPermission_def)
  qed
qed

text \<open>C39: Granting and revoking take effect at once in spite of the cache: after a grant the user has
  what the user had and what the role gives; after a revocation or the deletion of the role the user
  has exactly what the other roles give.\<close>

theorem grant_revoke_effective:
  assumes "rbac_reach r" and "fmlookup (rbac_roles r) i \<noteq> None"
  shows "(fst (CheckPermission t1 t2 (snd (GrantRoleToUser r u i)) u p) \<longleftrightarrow> entitled r u p \<or> role_grants r i p)
    \<and> (fst (CheckPermission t1 t2 (snd (RevokeRoleFromUser r u i)) u p) \<longleftrightarrow>
        (\<exists>j \<in> set (roles_of r u). j \<noteq> i \<and> role_grants r j p))
    \<and> (fst (CheckPermission t1 t2 (snd (DeleteRole r i)) u p) \<longleftrightarrow>
        (\<exists>j \<in> set (roles_of r u). j \<noteq> i \<and> role_grants r j p))"
proof -
  have inv: "rbac_inv r" using assms(1) by (rule rbac_reach_inv)
  note dist = rbac_inv_distinct [OF inv, of u]
  have "entitled (snd (GrantRoleToUser r u i)) u p \<longleftrightarrow> entitled r u p \<or> role_grants r i p"
    using assms(2) by (auto simp: GrantRoleToUser_def entitled_def roles_grant_frame)
  moreover have "entitled (snd (RevokeRoleFromUser r u i)) u p \<longleftrightarrow> (\<exists>j \<in> set (roles_of r u). j \<noteq> i \<and> role_grants r j p)"
    using dist by (auto simp: RevokeRoleFromUser_def entitled_def roles_grant_frame)
  moreover have "role_grants (snd (DeleteRole r i)) j p \<longleftrightarrow> j \<noteq> i \<and> role_grants r j p" for j
    using assms(2) by (simp add: DeleteRole_def role_grants_def)
  moreover have "roles_of (snd (DeleteRole r i)) u = remove1 i (roles_of r u)"
    using assms(2) by (auto simp: DeleteRole_def roles_of_DeleteRole)
  then have "entitled (snd (DeleteRole r i)) u p \<longleftrightarrow> (\<exists>j \<in> set (roles_of r u). j \<noteq> i \<and> role_grants r j p)"
    using dist calculation(3) by (auto simp: entitled_def)
  ultimately show ?thesis using inv by (simp add: CheckPermission_entitled inv_intros)
qed

theorem grant_revoke_effective_witness:
  "fst (CheckPermission 0 0 (snd (GrantRoleToUser sample_rbac ''alice'' ''e2-manager'')) ''alice'' ''e2:control'')
   \<and> \<not> fst (CheckPermission 0 0 (snd (RevokeRoleFromUser sample_rbac ''alice'' ''intent-operator'')) ''alice'' ''intent:read'')"
proof -
  have ex: "fmlookup (rbac_roles sample_rbac) ''e2-manager'' \<noteq> None" "fmlookup (rbac_roles sample_rbac) ''intent-operator'' \<noteq> None"
    "roles_of sample_rbac ''alice'' = [''intent-operator'']" by code_simp+
  obtain role where role: "fmlookup (rbac_roles sample_rbac) ''e2-manager'' = Some role" using ex(1) by blast
  have "list_ex (\<lambda>p. matchesPermission p ''e2:control'')
      (role_Permissions (the (fmlookup (rbac_roles sample_rbac) ''e2-manager'')))" by code_simp
  then have "role_grants sample_rbac ''e2-manager'' ''e2:control''"
    using role by (auto simp: role_grants_def list_ex_iff)
  with grant_revoke_effective [OF sample_rbac_reach ex(1), of 0 0 "''alice''" "''e2:control''"]
    grant_revoke_effective [OF sample_rbac_reach ex(2), of 0 0 "''alice''" "''intent:read''"] ex(3)
  show ?thesis by simp
qed

text \<open>After a login the user has exactly the roles that the claims map to and that exist, each once,
  whatever the user had before.\<close>

theorem claims_replace_roles:
  assumes "rbac_reach r"
  shows "set (GetUserRoles (AssignRolesFromClaims r ui) (ui_Subject ui))
      = {i \<in> set (getRoleMappings ui). fmlookup (rbac_roles r) i \<noteq> None}
    \<and> distinct (GetUserRoles (AssignRolesFromClaims r ui) (ui_Subject ui))"
  using Assign_effect [OF rbac_reach_inv [OF assms], of ui] by (simp add: GetUserRoles_def)

theorem claims_replace_roles_witness:
  "set (GetUserRoles (AssignRolesFromClaims sample_rbac (sample_user ''alice'' ''other'' [])) ''alice'') = {''read-only''}"
proof -
  have "getRoleMappings (sample_user ''alice'' ''other'' []) = [''read-only'']"
    "fmlookup (rbac_roles sample_rbac) ''read-only'' \<noteq> None" "ui_Subject (sample_user ''alice'' ''other'' []) = ''alice''"
    by code_simp+
  with claims_replace_roles [OF sample_rbac_reach, of "sample_user ''alice'' ''other'' []"] show ?thesis by auto
qed

text \<open>Stale permissions. When none of the roles the claims map to exists, the login takes all roles away
  but leaves the cache entry: until the cache expires, every check is answered from the roles the user
  had before.\<close>

theorem claims_leave_stale_cache:
  assumes "rbac_reach r" and "\<forall>i \<in> set (getRoleMappings ui). fmlookup (rbac_roles r) i = None"
    and "cached r (ui_Subject ui) = Some ps"
    and "time_Sub t1 (rcache_lastUpdated (rbac_cache (AssignRolesFromClaims r ui))) < rbac_cacheTTL (AssignRolesFromClaims r ui)"
  shows "GetUserRoles (AssignRolesFromClaims r ui) (ui_Subject ui) = []
    \<and> (fst (CheckPermission t1 t2 (AssignRolesFromClaims r ui) (ui_Subject ui) p) \<longleftrightarrow> any_matches ps p)"
proof -
  note eff = Assign_effect [OF rbac_reach_inv [OF assms(1)], of ui]
  have "set (roles_of (AssignRolesFromClaims r ui) (ui_Subject ui)) = {}" unfolding eff(1) using assms(2) by auto
  then have none: "roles_of (AssignRolesFromClaims r ui) (ui_Subject ui) = []" by simp
  with eff(5) assms(3) have "cached (AssignRolesFromClaims r ui) (ui_Subject ui) = Some ps" by simp
  with none assms(4) show ?thesis
    by (simp add: GetUserRoles_def CheckPermission_def GetUserPermissions_def cached_def Let_def)
qed

definition stale_rbac :: RBACManager where
  "stale_rbac = snd (GetUserPermissions 0 0 (snd (DeleteRole sample_rbac ''read-only'')) ''alice'')"

theorem claims_leave_stale_cache_witness:
  "GetUserRoles (AssignRolesFromClaims stale_rbac (sample_user ''alice'' ''other'' [])) ''alice'' = []
   \<and> fst (CheckPermission 5 5 (AssignRolesFromClaims stale_rbac (sample_user ''alice'' ''other'' [])) ''alice'' ''intent:delete'')"
proof -
  let ?u = "sample_user ''alice'' ''other'' []"
  have reach: "rbac_reach stale_rbac"
    unfolding stale_rbac_def by (intro rbac_reach.perms rbac_reach.delete_role sample_rbac_reach)
  have facts: "getRoleMappings ?u = [''read-only'']" "fmlookup (rbac_roles stale_rbac) ''read-only'' = None"
    "ui_Subject ?u = ''alice''" "cached stale_rbac ''alice'' \<noteq> None"
    "time_Sub 5 (rcache_lastUpdated (rbac_cache (AssignRolesFromClaims stale_rbac ?u))) < rbac_cacheTTL (AssignRolesFromClaims stale_rbac ?u)"
    "any_matches (the (cached stale_rbac ''alice'')) ''intent:delete''" by code_simp+
  then obtain ps where ps: "cached stale_rbac (ui_Subject ?u) = Some ps" "any_matches ps ''intent:delete''" by auto
  with claims_leave_stale_cache [OF reach _ ps(1) facts(5), of 5 "''intent:delete''"] facts show ?thesis by simp
qed

text \<open>A GitHub login gets the system administrator role, and with it every action on access control
  itself, as soon as the name of one organization of the user contains the letters admin anywhere.\<close>

theorem github_org_escalates:
  assumes "rbac_reach r" and "fmlookup (rbac_roles r) ''system-admin'' = Some (SystemAdminRole t)"
    and "ui_Provider ui = ''github''" and "org \<in> set (ui_Organizations ui)"
    and "sublist ''admin'' (strings_ToLower org)"
  shows "fst (CheckPermission t1 t2 (AssignRolesFromClaims r ui) (ui_Subject ui) (''rbac:'' @ action))"
proof -
  have map: "''system-admin'' \<in> set (getRoleMappings ui)"
    using assms(3-5) by (auto simp: getRoleMappings_def mapGitHubRoles_def Contains_iff list_ex_iff)
  with assms(1,2) have reach: "rbac_reach (AssignRolesFromClaims r ui)" by (intro rbac_reach.assign) auto
  note eff = Assign_effect [OF rbac_reach_inv [OF assms(1)], of ui]
  have "''system-admin'' \<in> set (roles_of (AssignRolesFromClaims r ui) (ui_Subject ui))"
    unfolding eff(1) using map assms(2) by simp
  moreover have "matchesPermission ''rbac:*'' (''rbac:'' @ action)"
    by (simp add: matchesPermission_def strings_HasSuffix_def strings_TrimSuffix_def strings_SplitN2_def Let_def)
  then have "role_grants (AssignRolesFromClaims r ui) ''system-admin'' (''rbac:'' @ action)"
    using eff(2) assms(2) by (simp add: role_grants_def SystemAdminRole_def mk_role_def)
  ultimately have "entitled (AssignRolesFromClaims r ui) (ui_Subject ui) (''rbac:'' @ action)"
    unfolding entitled_def by blast
  then show ?thesis by (simp add: CheckPermission_entitled [OF rbac_reach_inv [OF reach]])
qed

theorem github_org_escalates_witness:
  "fst (CheckPermission 0 0 (AssignRolesFromClaims sample_rbac (sample_user ''mallory'' ''github'' [''Badminton-Club'']))
     ''mallory'' (''rbac:'' @ ''manage''))"
proof -
  let ?u = "sample_user ''mallory'' ''github'' [''Badminton-Club'']"
  have role: "fmlookup (rbac_roles sample_rbac) ''system-admin'' = Some (SystemAdminRole 0)" by code_simp
  have "strings_Contains (strings_ToLower ''Badminton-Club'') ''admin''" by code_simp
  then have sub: "sublist ''admin'' (strings_ToLower ''Badminton-Club'')" by (simp only: Contains_iff)
  show ?thesis
    using github_org_escalates [OF sample_rbac_reach role _ _ sub, of ?u 0 0 "''manage''"] by (simp add: sample_user_def)
qed

text \<open>A role that \<open>CreateRole\<close> or \<open>UpdateRole\<close> accepts has only permissions of the table; so the
  predefined administrator role, whose wildcards are not in it, is refused by \<open>UpdateRole\<close> even
  unchanged.\<close>

theorem role_permissions_validated:
  "(fst (CreateRole now r role) = None \<longrightarrow> (\<forall>p \<in> set (role_Permissions role). fmlookup (rbac_permissions r) p \<noteq> None))
   \<and> (fst (UpdateRole now r role) = None \<longrightarrow> (\<forall>p \<in> set (role_Permissions role). fmlookup (rbac_permissions r) p \<noteq> None))
   \<and> fst (UpdateRole now (NewRBACManager t config) (SystemAdminRole t)) = Some (PermissionDoesNotExist ''system:*'')"
proof -
  have "unknown_permission r role = None \<Longrightarrow> \<forall>p \<in> set (role_Permissions role). fmlookup (rbac_permissions r) p \<noteq> None"
    by (auto simp: unknown_permission_def find_None_iff)
  moreover have "fst (UpdateRole now (NewRBACManager t config) (SystemAdminRole t)) = Some (PermissionDoesNotExist ''system:*'')"
    by (simp add: UpdateRole_def NewRBACManager_def initializeDefaults_def NephoranPermissions_def SystemAdminRole_def
        IntentOperatorRole_def E2ManagerRole_def ReadOnlyRole_def mk_role_def unknown_permission_def Let_def)
  ultimately show ?thesis
    by (auto simp: CreateRole_def UpdateRole_def split: if_splits option.splits)
qed

theorem role_permissions_validated_witness:
  "fst (UpdateRole 5 (NewRBACManager 0 None) (E2ManagerRole 3)) = None
   \<and> list_all (\<lambda>p. fmlookup (rbac_permissions (NewRBACManager 0 None)) p \<noteq> None) (role_Permissions (E2ManagerRole 3))"
proof -
  have "fst (UpdateRole 5 (NewRBACManager 0 None) (E2ManagerRole 3)) = None" by code_simp
  with role_permissions_validated [of 5 "NewRBACManager 0 None" "E2ManagerRole 3"] show ?thesis
    by (simp add: list_all_iff)
qed

end
