(* ===== verification/Go_Strconv.thy ===== *)
theory Go_Strconv
  imports Go_Prelude
begin

text \<open>
  \<open>strconv.Itoa\<close> and \<open>strconv.Atoi\<close>: decimal notation of a 64-bit \<open>int\<close>. An error of \<open>Atoi\<close> (bad syntax
  or out of range) is \<open>None\<close>.
\<close>

section \<open>Definitions\<close>

definition digit_char :: "nat \<Rightarrow> char" where
  "digit_char d = char_of (48 + d)"

definition is_digit :: "char \<Rightarrow> bool" where
  "is_digit c \<longleftrightarrow> 48 \<le> (of_char c :: nat) \<and> (of_char c :: nat) \<le> 57"

definition digit_val :: "char \<Rightarrow> nat" where
  "digit_val c = of_char c - 48"

fun nat_digits :: "nat \<Rightarrow> string" where
  "nat_digits n = (if n < 10 then [digit_char n] else nat_digits (n div 10) @ [digit_char (n mod 10)])"

declare nat_digits.simps [simp del]

definition strconv_Itoa :: "int \<Rightarrow> string" where
  "strconv_Itoa i = (if i < 0 then CHR ''-'' # nat_digits (nat (- i)) else nat_digits (nat i))"

definition digits_val :: "string \<Rightarrow> nat" where
  "digits_val s = foldl (\<lambda>v c. 10 * v + digit_val c) 0 s"

definition strconv_Atoi :: "string \<Rightarrow> int option" where
  "strconv_Atoi s =
     (let neg = (s \<noteq> [] \<and> hd s = CHR ''-'');
          ds = (if s \<noteq> [] \<and> (hd s = CHR ''-'' \<or> hd s = CHR ''+'') then tl s else s);
          v = (if neg then - int (digits_val ds) else int (digits_val ds))
      in if ds \<noteq> [] \<and> list_all is_digit ds \<and> int64_range v then Some v else None)"

section \<open>Lemmas\<close>

lemma digit_char_ok:
  assumes "d < 10"
  shows "is_digit (digit_char d)" "digit_val (digit_char d) = d"
proof -
  have "of_char (digit_char d) = (48 + d) mod 256" by (simp add: digit_char_def)
  then have "of_char (digit_char d) = 48 + d" using assms by simp
  then show "is_digit (digit_char d)" "digit_val (digit_char d) = d"
    using assms by (simp_all add: is_digit_def digit_val_def)
qed

text \<open>Evaluation of a digit without arithmetic on character codes.\<close>

lemma digit_char_code [code]: "digit_char d = (if d < 10 then ''0123456789'' ! d else char_of (48 + d))"
proof -
  have "\<forall>d \<in> set [0..<10]. digit_char d = ''0123456789'' ! d" by code_simp
  then show ?thesis by (simp add: digit_char_def)
qed

lemma nat_digits_ok: "nat_digits n \<noteq> [] \<and> list_all is_digit (nat_digits n) \<and> digits_val (nat_digits n) = n"
proof (induction n rule: nat_digits.induct)
  case (1 n)
  then show ?case
    by (cases "n < 10") (auto simp: nat_digits.simps [of n] digit_char_ok digits_val_def)
qed

lemma digits_not_sign: "list_all is_digit ds \<Longrightarrow> ds \<noteq> [] \<Longrightarrow> hd ds \<noteq> CHR ''-'' \<and> hd ds \<noteq> CHR ''+''"
  by (cases ds) (auto simp: is_digit_def)

lemma Atoi_Itoa [simp]: "int64_range i \<Longrightarrow> strconv_Atoi (strconv_Itoa i) = Some i"
  using nat_digits_ok [of "nat i"] nat_digits_ok [of "nat (- i)"] digits_not_sign [of "nat_digits (nat i)"]
  by (auto simp: strconv_Atoi_def strconv_Itoa_def Let_def)

lemma Itoa_nonempty [simp]: "strconv_Itoa i \<noteq> []"
  using nat_digits_ok by (simp add: strconv_Itoa_def)

lemma Atoi_range: "strconv_Atoi s = Some v \<Longrightarrow> int64_range v"
  by (auto simp: strconv_Atoi_def Let_def split: if_splits)

end
