(* ===== verification/State_Manager.thy ===== *)
theory State_Manager
  imports Go_Json Go_Strconv State_Cache Lock_Manager Execution_Queue
begin

text \<open>
  The state manager (\<open>pkg/shared/state_manager.go\<close>), the state of an intent (\<open>state_types.go\<close>) and the
  conversion between the phases of the pipeline and those of the API (\<open>phase_conversion.go\<close>). The
  manager hands out pointers to the states it caches, and every caller that has one writes to
  the same object: states live in a store, and the cache holds addresses. The Kubernetes client, the
  constants of the API package and \<open>NamespacedName.String\<close> are not part of the sources: they are the
  fields of the parameter \<open>K\<close>, and what the code relies on are the predicates of the section after
  the model. The object \<open>NetworkIntent\<close> is known by the fields the code uses; everything else in it
  is the extension of the record. Metrics and logging are left out.
\<close>

section \<open>Model\<close>

subsection \<open>Phases\<close>

type_synonym ProcessingPhase = string

definition PhaseIntentReceived :: ProcessingPhase where "PhaseIntentReceived = ''IntentReceived''"
definition PhaseReceived :: ProcessingPhase where "PhaseReceived = ''Received''"
definition PhaseLLMProcessing :: ProcessingPhase where "PhaseLLMProcessing = ''LLMProcessing''"
definition PhaseResourcePlanning :: ProcessingPhase where "PhaseResourcePlanning = ''ResourcePlanning''"
definition PhaseManifestGeneration :: ProcessingPhase where "PhaseManifestGeneration = ''ManifestGeneration''"
definition PhaseGitOpsCommit :: ProcessingPhase where "PhaseGitOpsCommit = ''GitOpsCommit''"
definition PhaseDeploymentVerification :: ProcessingPhase where
  "PhaseDeploymentVerification = ''DeploymentVerification''"
definition PhaseCompleted :: ProcessingPhase where "PhaseCompleted = ''Completed''"
definition PhaseFailed :: ProcessingPhase where "PhaseFailed = ''Failed''"

lemmas phase_defs = PhaseIntentReceived_def PhaseReceived_def PhaseLLMProcessing_def PhaseResourcePlanning_def
  PhaseManifestGeneration_def PhaseGitOpsCommit_def PhaseDeploymentVerification_def PhaseCompleted_def
  PhaseFailed_def

text \<open>The constants of the API package; their string values are a parameter.\<close>

datatype NetworkIntentPhase =
    NetworkIntentPhasePending | NetworkIntentPhaseProcessing | NetworkIntentPhaseDeploying
  | NetworkIntentPhaseActive | NetworkIntentPhaseReady | NetworkIntentPhaseDeployed
  | NetworkIntentPhaseFailed

definition ProcessingPhaseToNetworkIntentPhase :: "ProcessingPhase \<Rightarrow> NetworkIntentPhase" where
  "ProcessingPhaseToNetworkIntentPhase phase =
     (if phase = PhaseIntentReceived \<or> phase = PhaseReceived then NetworkIntentPhasePending
      else if phase = PhaseLLMProcessing then NetworkIntentPhaseProcessing
      else if phase = PhaseResourcePlanning \<or> phase = PhaseManifestGeneration then NetworkIntentPhaseDeploying
      else if phase = PhaseGitOpsCommit then NetworkIntentPhaseDeploying
      else if phase = PhaseDeploymentVerification then NetworkIntentPhaseActive
      else if phase = PhaseCompleted then NetworkIntentPhaseDeployed
      else if phase = PhaseFailed then NetworkIntentPhaseFailed
      else NetworkIntentPhasePending)"

definition NetworkIntentPhaseToProcessingPhase :: "(NetworkIntentPhase \<Rightarrow> string) \<Rightarrow> string \<Rightarrow> ProcessingPhase" where
  "NetworkIntentPhaseToProcessingPhase name phase =
     (if phase = name NetworkIntentPhasePending then PhaseIntentReceived
      else if phase = name NetworkIntentPhaseProcessing then PhaseLLMProcessing
      else if phase = name NetworkIntentPhaseDeploying then PhaseResourcePlanning
      else if phase = name NetworkIntentPhaseActive then PhaseDeploymentVerification
      else if phase = name NetworkIntentPhaseReady \<or> phase = name NetworkIntentPhaseDeployed then PhaseCompleted
      else if phase = name NetworkIntentPhaseFailed then PhaseFailed
      else PhaseIntentReceived)"

definition StringToNetworkIntentPhase :: "string \<Rightarrow> NetworkIntentPhase" where
  "StringToNetworkIntentPhase phase =
     (if phase = ''Pending'' then NetworkIntentPhasePending
      else if phase = ''Processing'' then NetworkIntentPhaseProcessing
      else if phase = ''Deploying'' then NetworkIntentPhaseDeploying
      else if phase = ''Active'' then NetworkIntentPhaseActive
      else if phase = ''Ready'' then NetworkIntentPhaseReady
      else if phase = ''Deployed'' then NetworkIntentPhaseDeployed
      else if phase = ''Failed'' then NetworkIntentPhaseFailed
      else NetworkIntentPhasePending)"

subsection \<open>The state of an intent\<close>

record PhaseTransition =
  pt_FromPhase :: ProcessingPhase
  pt_ToPhase :: ProcessingPhase
  pt_Timestamp :: time
  pt_Duration :: duration
  pt_TriggerReason :: string
  pt_Metadata :: "RawMessage option"
  pt_Success :: bool
  pt_ErrorMessage :: string

record StateCondition =
  co_Type :: string
  co_Status :: string
  co_LastTransitionTime :: time
  co_Reason :: string
  co_Message :: string
  co_Severity :: string

record IntentDependency =
  id_Intent :: string
  id_Phase :: ProcessingPhase
  id_Type :: string
  id_Timestamp :: time
  id_Condition :: string
  id_Timeout :: duration

text \<open>A value of type \<open>interface{}\<close> in the phase data is a JSON value, \<open>nil\<close> is \<open>Json_null\<close>. A nil map of
  phase data or errors reads like an empty one and is replaced by an empty one before a write, so both
  are the empty map. The fields for resources, locks, tags, dependents and phase metrics are
  not used by the managers and are left out.\<close>

record IntentState =
  is_NamespacedName :: NamespacedName
  is_Version :: string
  is_CreationTime :: time
  is_LastModified :: time
  is_CurrentPhase :: ProcessingPhase
  is_PhaseStartTime :: time
  is_PhaseTransitions :: "PhaseTransition list"
  is_PhaseData :: "(ProcessingPhase, json) fmap"
  is_PhaseErrors :: "(ProcessingPhase, string list) fmap"
  is_Conditions :: "StateCondition list"
  is_Dependencies :: "IntentDependency list"
  is_LastError :: string
  is_LastErrorTime :: time
  is_RetryCount :: int
  is_Metadata :: RawMessage

record StateChangeEvent =
  sce_Type :: string
  sce_IntentName :: NamespacedName
  sce_NewPhase :: ProcessingPhase
  sce_Version :: string
  sce_Timestamp :: time
  sce_Metadata :: RawMessage

subsection \<open>Kubernetes\<close>

record NetworkIntent =
  ni_Namespace :: string
  ni_Name :: string
  ni_CreationTimestamp :: time
  ni_ResourceVersion :: string
  ni_Annotations :: "(string, string) fmap option"
  ni_Status_Phase :: string
  ni_Status_LastUpdateTime :: time
  ni_Status_LastMessage :: string

type_synonym kube_error = string

text \<open>The cluster is a value of type \<open>'k\<close> that other actors change as well.\<close>

record ('k, 'o) Kube =
  kb_String :: "NamespacedName \<Rightarrow> string"
  kb_phase :: "NetworkIntentPhase \<Rightarrow> string"
  kb_Get :: "'k \<Rightarrow> NamespacedName \<Rightarrow> kube_error + 'o NetworkIntent_scheme"
  kb_List :: "'k \<Rightarrow> string \<Rightarrow> (string, string) fmap \<Rightarrow> kube_error + 'o NetworkIntent_scheme list"
  kb_StatusUpdate :: "'k \<Rightarrow> 'o NetworkIntent_scheme \<Rightarrow> kube_error option \<times> 'k"

subsection \<open>The manager\<close>

record StateManagerConfig =
  smc_CacheSize :: int
  smc_CacheTTL :: duration
  smc_CacheCleanupInterval :: duration
  smc_LockTimeout :: duration
  smc_LockRetryInterval :: duration
  smc_MaxLockRetries :: int
  smc_SyncInterval :: duration
  smc_StateValidationEnabled :: bool
  smc_ConflictResolutionMode :: string
  smc_BatchStateUpdates :: bool
  smc_BatchSize :: int
  smc_BatchTimeout :: duration

definition DefaultStateManagerConfig :: StateManagerConfig where
  "DefaultStateManagerConfig =
     \<lparr>smc_CacheSize = 10000, smc_CacheTTL = 30 * Minute, smc_CacheCleanupInterval = 5 * Minute,
      smc_LockTimeout = 30 * Second, smc_LockRetryInterval = 1 * Second, smc_MaxLockRetries = 10,
      smc_SyncInterval = 10 * Second, smc_StateValidationEnabled = True,
      smc_ConflictResolutionMode = ''latest'', smc_BatchStateUpdates = True, smc_BatchSize = 50,
      smc_BatchTimeout = 5 * Second\<rparr>"

text \<open>\<open>sm_cluster\<close> is the cluster behind the client, \<open>sm_states\<close> the store of states with the next free
  address, \<open>sm_eventBus\<close> the events handed to the event bus, latest last; \<open>None\<close> is a nil event bus.\<close>

record 'k StateManager =
  sm_cluster :: 'k
  sm_states :: "addr \<Rightarrow> IntentState"
  sm_next :: addr
  sm_stateCache :: "addr StateCache"
  sm_stateLocks :: LockManager
  sm_eventBus :: "StateChangeEvent list option"
  sm_config :: StateManagerConfig
  sm_started :: bool

definition NewStateManager ::
    "'k \<Rightarrow> (addr \<Rightarrow> IntentState) \<Rightarrow> (addr \<Rightarrow> addr CacheEntry) \<Rightarrow> bool \<Rightarrow> 'k StateManager" where
  "NewStateManager cluster mem cmem hasBus =
     (let config = DefaultStateManagerConfig
      in \<lparr>sm_cluster = cluster, sm_states = mem, sm_next = 0,
          sm_stateCache = NewStateCache cmem (smc_CacheSize config) (smc_CacheTTL config),
          sm_stateLocks = NewLockManager (smc_LockTimeout config) (smc_LockRetryInterval config)
            (smc_MaxLockRetries config),
          sm_eventBus = (if hasBus then Some [] else None), sm_config = config, sm_started = False\<rparr>)"

datatype sm_error =
    AlreadyStarted
  | GetIntentFailed kube_error
  | LockFailed string lock_error
  | GetStateFailed sm_error
  | UpdateFailed string
  | PhaseEmpty
  | VersionEmpty
  | PhaseMismatch
  | DependencyNameEmpty
  | ValidationFailed sm_error
  | KubernetesUpdateFailed kube_error
  | ListFailed kube_error

definition SM_Start :: "'k StateManager \<Rightarrow> sm_error option \<times> 'k StateManager" where
  "SM_Start sm = (if sm_started sm then (Some AlreadyStarted, sm) else (None, sm\<lparr>sm_started := True\<rparr>))"

definition SM_Stop :: "'k StateManager \<Rightarrow> 'k StateManager" where
  "SM_Stop sm = (if \<not> sm_started sm then sm else sm\<lparr>sm_started := False\<rparr>)"

text \<open>An operation is a sequence of sections. The environment of a call gives the attempts to lock,
  the readings of the clock, and what other goroutines and the cluster do between the sections.\<close>

datatype sm_point =
    BeforeLock | BeforeFetch | BeforeCaching | BeforeApply | BeforeKubeGet | BeforeKubeUpdate | BeforeFinalSet

datatype sm_reading = CacheExpiry | CacheAccess | Converted | Cached | Modified | FinalSet | Published

record 'k sm_env =
  se_lock :: "int \<Rightarrow> attempt_env"
  se_clock :: "sm_reading \<Rightarrow> time"
  se_others :: "sm_point \<Rightarrow> 'k StateManager \<Rightarrow> 'k StateManager"

definition convertToIntentState :: "time \<Rightarrow> 'o NetworkIntent_scheme \<Rightarrow> IntentState" where
  "convertToIntentState now intent =
     \<lparr>is_NamespacedName = \<lparr>nn_Namespace = ni_Namespace intent, nn_Name = ni_Name intent\<rparr>,
      is_Version = ni_ResourceVersion intent,
      is_CreationTime = ni_CreationTimestamp intent,
      is_LastModified = now,
      is_CurrentPhase = ni_Status_Phase intent,
      is_PhaseStartTime = (if ni_Status_LastUpdateTime intent \<noteq> zero_time
        then ni_Status_LastUpdateTime intent else zero_time),
      is_PhaseTransitions = [], is_PhaseData = fmempty, is_PhaseErrors = fmempty,
      is_Conditions = (if ni_Status_Phase intent \<noteq> []
        then [\<lparr>co_Type = ''Ready'', co_Status = ''True'',
               co_LastTransitionTime = ni_Status_LastUpdateTime intent, co_Reason = ''PhaseSet'',
               co_Message = ni_Status_LastMessage intent, co_Severity = []\<rparr>]
        else []),
      is_Dependencies = [], is_LastError = [], is_LastErrorTime = zero_time, is_RetryCount = 0,
      is_Metadata = (case ni_Annotations intent of
          None \<Rightarrow> Raw (Json_object fmempty)
        | Some annotations \<Rightarrow>
            (case fmlookup annotations ''nephoran.io/dependencies'' of
               None \<Rightarrow> Raw (Json_object fmempty)
             | Some v \<Rightarrow> Raw (Json_object (fmupd ''dependencies'' (Json_string v) fmempty))))\<rparr>"

definition set_cache :: "'k StateManager \<Rightarrow> addr StateCache \<Rightarrow> 'k StateManager" where
  "set_cache sm c = sm\<lparr>sm_stateCache := c\<rparr>"

definition write_state :: "'k StateManager \<Rightarrow> addr \<Rightarrow> IntentState \<Rightarrow> 'k StateManager" where
  "write_state sm a s = sm\<lparr>sm_states := (sm_states sm)(a := s)\<rparr>"

text \<open>\<open>None\<close> as the result of an operation is a call that never returns (the eviction loop of the
  cache). The result of \<open>GetIntentState\<close> is a pointer.\<close>

definition GetIntentState ::
    "('k, 'o) Kube \<Rightarrow> 'k sm_env \<Rightarrow> 'k StateManager \<Rightarrow> NamespacedName
       \<Rightarrow> ((sm_error + addr) \<times> 'k StateManager) option" where
  "GetIntentState K env sm n =
     (let (cached, c) = Cache_Get (se_clock env CacheExpiry) (se_clock env CacheAccess) (sm_stateCache sm) (kb_String K n);
          sm1 = set_cache sm c
      in case cached of
           Some a \<Rightarrow> Some (Inr a, sm1)
         | None \<Rightarrow>
             let sm2 = se_others env BeforeFetch sm1
             in case kb_Get K (sm_cluster sm2) n of
                  Inl err \<Rightarrow> Some (Inl (GetIntentFailed err), sm2)
                | Inr intent \<Rightarrow>
                    let a = sm_next sm2;
                        sm3 = (write_state sm2 a (convertToIntentState (se_clock env Converted) intent))
                                \<lparr>sm_next := Suc a\<rparr>;
                        sm4 = se_others env BeforeCaching sm3
                    in case Cache_Set (se_clock env Cached) (sm_stateCache sm4) (kb_String K n) a
                              (smc_CacheTTL (sm_config sm4)) of
                         None \<Rightarrow> None
                       | Some c' \<Rightarrow> Some (Inr a, set_cache sm4 c'))"

definition validateState :: "IntentState \<Rightarrow> sm_error option" where
  "validateState s =
     (if is_CurrentPhase s = [] then Some PhaseEmpty
      else if is_Version s = [] then Some VersionEmpty
      else if is_PhaseTransitions s \<noteq> [] \<and> pt_ToPhase (last (is_PhaseTransitions s)) \<noteq> is_CurrentPhase s
        then Some PhaseMismatch
      else if list_ex (\<lambda>dep. id_Intent dep = []) (is_Dependencies s) then Some DependencyNameEmpty
      else None)"

text \<open>The object written back: the status of what the second \<open>Get\<close> returned, with three fields set.\<close>

definition status_of :: "('k, 'o) Kube \<Rightarrow> 'o NetworkIntent_scheme \<Rightarrow> IntentState \<Rightarrow> 'o NetworkIntent_scheme" where
  "status_of K intent s =
     (let i1 = intent\<lparr>ni_Status_Phase := kb_phase K (ProcessingPhaseToNetworkIntentPhase (is_CurrentPhase s))\<rparr>;
          i2 = (if is_Conditions s \<noteq> [] then i1\<lparr>ni_Status_LastMessage := co_Message (hd (is_Conditions s))\<rparr> else i1);
          i3 = (if is_PhaseStartTime s \<noteq> zero_time then i2\<lparr>ni_Status_LastUpdateTime := is_PhaseStartTime s\<rparr> else i2)
      in if is_LastError s \<noteq> [] \<and> is_LastErrorTime s \<noteq> zero_time
         then i3\<lparr>ni_Status_LastUpdateTime := is_LastErrorTime s\<rparr> else i3)"

definition updateKubernetesState ::
    "('k, 'o) Kube \<Rightarrow> 'k sm_env \<Rightarrow> 'k StateManager \<Rightarrow> NamespacedName \<Rightarrow> addr
       \<Rightarrow> kube_error option \<times> 'k StateManager" where
  "updateKubernetesState K env sm n a =
     (let sm1 = se_others env BeforeKubeGet sm
      in case kb_Get K (sm_cluster sm1) n of
           Inl err \<Rightarrow> (Some err, sm1)
         | Inr intent \<Rightarrow>
             let sm2 = se_others env BeforeKubeUpdate sm1;
                 (err, cluster) = kb_StatusUpdate K (sm_cluster sm2) (status_of K intent (sm_states sm2 a))
             in (err, sm2\<lparr>sm_cluster := cluster\<rparr>))"

definition publishStateChangeEvent ::
    "time \<Rightarrow> 'k StateManager \<Rightarrow> NamespacedName \<Rightarrow> IntentState \<Rightarrow> 'k StateManager" where
  "publishStateChangeEvent now sm n s =
     (case sm_eventBus sm of
        None \<Rightarrow> sm
      | Some events \<Rightarrow>
          sm\<lparr>sm_eventBus := Some (events @
            [\<lparr>sce_Type = ''state.changed'', sce_IntentName = n, sce_NewPhase = is_CurrentPhase s,
              sce_Version = is_Version s, sce_Timestamp = now, sce_Metadata = is_Metadata s\<rparr>])\<rparr>)"

definition next_version :: "string \<Rightarrow> string" where
  "next_version v =
     strconv_Itoa (if v \<noteq> [] then (case strconv_Atoi v of None \<Rightarrow> 1 | Some i \<Rightarrow> wrap64 (i + 1)) else 1)"

text \<open>The part of \<open>UpdateIntentState\<close> between the lock and its release. The update function runs on the
  shared object: what it has written stays even when it or a later step fails.\<close>

definition update_locked ::
    "('k, 'o) Kube \<Rightarrow> 'k sm_env \<Rightarrow> 'k StateManager \<Rightarrow> NamespacedName
       \<Rightarrow> (IntentState \<Rightarrow> string option \<times> IntentState) \<Rightarrow> (sm_error option \<times> 'k StateManager) option" where
  "update_locked K env sm n updateFn =
     (case GetIntentState K env sm n of
        None \<Rightarrow> None
      | Some (Inl err, sm1) \<Rightarrow> Some (Some (GetStateFailed err), sm1)
      | Some (Inr a, sm1) \<Rightarrow>
          let sm2 = se_others env BeforeApply sm1;
              oldVersion = is_Version (sm_states sm2 a);
              (err, s1) = updateFn (sm_states sm2 a)
          in case err of
               Some e \<Rightarrow> Some (Some (UpdateFailed e), write_state sm2 a s1)
             | None \<Rightarrow>
                 let s2 = s1\<lparr>is_Version := next_version (is_Version s1), is_LastModified := se_clock env Modified\<rparr>;
                     sm3 = write_state sm2 a s2
                 in case (if smc_StateValidationEnabled (sm_config sm3) then validateState s2 else None) of
                      Some e \<Rightarrow> Some (Some (ValidationFailed e), sm3)
                    | None \<Rightarrow>
                        (case updateKubernetesState K env sm3 n a of
                           (Some e, sm4) \<Rightarrow>
                             Some (Some (KubernetesUpdateFailed e),
                                   write_state sm4 a ((sm_states sm4 a)\<lparr>is_Version := oldVersion\<rparr>))
                         | (None, sm4) \<Rightarrow>
                             let sm5 = se_others env BeforeFinalSet sm4
                             in case Cache_Set (se_clock env FinalSet) (sm_stateCache sm5) (kb_String K n) a
                                       (smc_CacheTTL (sm_config sm5)) of
                                  None \<Rightarrow> None
                                | Some c \<Rightarrow>
                                    Some (None, publishStateChangeEvent (se_clock env Published) (set_cache sm5 c) n
                                            (sm_states sm5 a))))"

definition UpdateIntentState ::
    "('k, 'o) Kube \<Rightarrow> 'k sm_env \<Rightarrow> 'k StateManager \<Rightarrow> NamespacedName
       \<Rightarrow> (IntentState \<Rightarrow> string option \<times> IntentState) \<Rightarrow> (sm_error option \<times> 'k StateManager) option" where
  "UpdateIntentState K env sm n updateFn =
     (let lockKey = kb_String K n;
          sm0 = se_others env BeforeLock sm;
          (lerr, locks) = AcquireLock (se_lock env) (sm_stateLocks sm0) lockKey;
          sm1 = sm0\<lparr>sm_stateLocks := locks\<rparr>
      in case lerr of
           Some e \<Rightarrow> Some (Some (LockFailed lockKey e), sm1)
         | None \<Rightarrow>
             map_option (\<lambda>(r, sm'). (r, sm'\<lparr>sm_stateLocks := snd (ReleaseLock_body (sm_stateLocks sm') lockKey)\<rparr>))
               (update_locked K env sm1 n updateFn))"

subsection \<open>Updates\<close>

definition transition_state ::
    "time \<Rightarrow> time \<Rightarrow> ProcessingPhase \<Rightarrow> (string, json) fmap option \<Rightarrow> IntentState \<Rightarrow> IntentState" where
  "transition_state t1 t2 newPhase metadata s =
     (let metadataBytes = (case metadata of Some m \<Rightarrow> Raw (Json_object m) | None \<Rightarrow> Raw (Json_object fmempty));
          transition = \<lparr>pt_FromPhase = is_CurrentPhase s, pt_ToPhase = newPhase, pt_Timestamp = t1, pt_Duration = 0,
            pt_TriggerReason = [], pt_Metadata = Some metadataBytes, pt_Success = False, pt_ErrorMessage = []\<rparr>;
          s1 = s\<lparr>is_PhaseTransitions := is_PhaseTransitions s @ [transition], is_CurrentPhase := newPhase,
                 is_PhaseStartTime := t2\<rparr>
      in case metadata of
           Some m \<Rightarrow> s1\<lparr>is_PhaseData := fmupd newPhase (Json_object m) (is_PhaseData s1)\<rparr>
         | None \<Rightarrow> s1)"

definition SM_TransitionPhase ::
    "('k, 'o) Kube \<Rightarrow> 'k sm_env \<Rightarrow> time \<Rightarrow> time \<Rightarrow> 'k StateManager \<Rightarrow> NamespacedName \<Rightarrow> ProcessingPhase
       \<Rightarrow> (string, json) fmap option \<Rightarrow> (sm_error option \<times> 'k StateManager) option" where
  "SM_TransitionPhase K env t1 t2 sm n newPhase metadata =
     UpdateIntentState K env sm n (\<lambda>s. (None, transition_state t1 t2 newPhase metadata s))"

definition phase_error_state :: "time \<Rightarrow> ProcessingPhase \<Rightarrow> string \<Rightarrow> IntentState \<Rightarrow> IntentState" where
  "phase_error_state t phase msg s =
     s\<lparr>is_PhaseErrors := fmupd phase
          ((case fmlookup (is_PhaseErrors s) phase of None \<Rightarrow> [] | Some es \<Rightarrow> es) @ [msg]) (is_PhaseErrors s),
       is_LastError := msg, is_LastErrorTime := t\<rparr>"

definition SetPhaseError ::
    "('k, 'o) Kube \<Rightarrow> 'k sm_env \<Rightarrow> time \<Rightarrow> 'k StateManager \<Rightarrow> NamespacedName \<Rightarrow> ProcessingPhase \<Rightarrow> string
       \<Rightarrow> (sm_error option \<times> 'k StateManager) option" where
  "SetPhaseError K env t sm n phase msg = UpdateIntentState K env sm n (\<lambda>s. (None, phase_error_state t phase msg s))"

definition GetPhaseData ::
    "('k, 'o) Kube \<Rightarrow> 'k sm_env \<Rightarrow> 'k StateManager \<Rightarrow> NamespacedName \<Rightarrow> ProcessingPhase
       \<Rightarrow> ((sm_error + json) \<times> 'k StateManager) option" where
  "GetPhaseData K env sm n phase =
     (case GetIntentState K env sm n of
        None \<Rightarrow> None
      | Some (Inl err, sm1) \<Rightarrow> Some (Inl err, sm1)
      | Some (Inr a, sm1) \<Rightarrow>
          Some (Inr (case fmlookup (is_PhaseData (sm_states sm1 a)) phase of None \<Rightarrow> Json_null | Some d \<Rightarrow> d), sm1))"

definition SetPhaseData ::
    "('k, 'o) Kube \<Rightarrow> 'k sm_env \<Rightarrow> 'k StateManager \<Rightarrow> NamespacedName \<Rightarrow> ProcessingPhase \<Rightarrow> json
       \<Rightarrow> (sm_error option \<times> 'k StateManager) option" where
  "SetPhaseData K env sm n phase data =
     UpdateIntentState K env sm n (\<lambda>s. (None, s\<lparr>is_PhaseData := fmupd phase data (is_PhaseData s)\<rparr>))"

definition dependency_state :: "time \<Rightarrow> string \<Rightarrow> IntentState \<Rightarrow> IntentState" where
  "dependency_state t dep s =
     (if list_ex (\<lambda>d. id_Intent d = dep) (is_Dependencies s) then s
      else s\<lparr>is_Dependencies := is_Dependencies s @
             [\<lparr>id_Intent = dep, id_Phase = PhaseCompleted, id_Type = [], id_Timestamp = t, id_Condition = [],
               id_Timeout = 0\<rparr>]\<rparr>)"

definition AddDependency ::
    "('k, 'o) Kube \<Rightarrow> 'k sm_env \<Rightarrow> time \<Rightarrow> 'k StateManager \<Rightarrow> NamespacedName \<Rightarrow> NamespacedName
       \<Rightarrow> (sm_error option \<times> 'k StateManager) option" where
  "AddDependency K env t sm n dependsOn =
     UpdateIntentState K env sm n (\<lambda>s. (None, dependency_state t (kb_String K dependsOn) s))"

subsection \<open>Dependencies between intents\<close>

definition phaseOrder :: "ProcessingPhase list" where
  "phaseOrder = [PhaseIntentReceived, PhaseLLMProcessing, PhaseResourcePlanning, PhaseManifestGeneration,
     PhaseGitOpsCommit, PhaseDeploymentVerification, PhaseCompleted]"

text \<open>The loop keeps the index of the last match, \<open>-1\<close> when there is none.\<close>

definition phase_index :: "ProcessingPhase \<Rightarrow> int" where
  "phase_index p = fold (\<lambda>(i, q) r. if q = p then int i else r) (enumerate 0 phaseOrder) (- 1)"

definition isPhaseSatisfied :: "IntentState \<Rightarrow> ProcessingPhase \<Rightarrow> bool" where
  "isPhaseSatisfied s requiredPhase \<longleftrightarrow> phase_index (is_CurrentPhase s) \<ge> phase_index requiredPhase"

definition parseNamespacedName :: "string \<Rightarrow> string + NamespacedName" where
  "parseNamespacedName nameStr =
     (let parts = replicate 2 []
      in if length parts \<noteq> 2 then Inl nameStr else Inr \<lparr>nn_Namespace = parts ! 0, nn_Name = parts ! 1\<rparr>)"

datatype unsatisfied = InvalidDependency string | DependencyNotFound string | NotAtPhase string ProcessingPhase

fun check_deps ::
    "('k, 'o) Kube \<Rightarrow> (nat \<Rightarrow> 'k sm_env) \<Rightarrow> nat \<Rightarrow> IntentDependency list \<Rightarrow> 'k StateManager \<Rightarrow> unsatisfied list
       \<Rightarrow> (unsatisfied list \<times> 'k StateManager) option" where
  "check_deps K env i [] sm acc = Some (acc, sm)"
| "check_deps K env i (dep # deps) sm acc =
     (case parseNamespacedName (id_Intent dep) of
        Inl _ \<Rightarrow> check_deps K env (Suc i) deps sm (acc @ [InvalidDependency (id_Intent dep)])
      | Inr nn \<Rightarrow>
          (case GetIntentState K (env i) sm nn of
             None \<Rightarrow> None
           | Some (Inl _, sm1) \<Rightarrow> check_deps K env (Suc i) deps sm1 (acc @ [DependencyNotFound (id_Intent dep)])
           | Some (Inr a, sm1) \<Rightarrow>
               check_deps K env (Suc i) deps sm1
                 (if isPhaseSatisfied (sm_states sm1 a) (id_Phase dep) then acc
                  else acc @ [NotAtPhase (id_Intent dep) (id_Phase dep)])))"

text \<open>Call number 0 gets the state of the intent, call \<open>i\<close> that of its dependency number \<open>i\<close>.\<close>

definition CheckDependencies ::
    "('k, 'o) Kube \<Rightarrow> (nat \<Rightarrow> 'k sm_env) \<Rightarrow> 'k StateManager \<Rightarrow> NamespacedName
       \<Rightarrow> ((sm_error + bool \<times> unsatisfied list) \<times> 'k StateManager) option" where
  "CheckDependencies K env sm n =
     (case GetIntentState K (env 0) sm n of
        None \<Rightarrow> None
      | Some (Inl err, sm1) \<Rightarrow> Some (Inl err, sm1)
      | Some (Inr a, sm1) \<Rightarrow>
          map_option (\<lambda>(unsat, sm'). (Inr (unsat = [], unsat), sm'))
            (check_deps K env 1 (is_Dependencies (sm_states sm1 a)) sm1 []))"

definition ListStates ::
    "('k, 'o) Kube \<Rightarrow> (nat \<Rightarrow> time) \<Rightarrow> 'k StateManager \<Rightarrow> string \<Rightarrow> (string, string) fmap
       \<Rightarrow> sm_error + IntentState list" where
  "ListStates K clock sm namespace labelSelector =
     (case kb_List K (sm_cluster sm) namespace labelSelector of
        Inl err \<Rightarrow> Inl (ListFailed err)
      | Inr items \<Rightarrow> Inr (map (\<lambda>(i, intent). convertToIntentState (clock i) intent) (enumerate 0 items)))"

text \<open>A tick of \<open>runCacheCleanup\<close>.\<close>

definition cacheCleanup_tick :: "time \<Rightarrow> string list \<Rightarrow> 'k StateManager \<Rightarrow> 'k StateManager" where
  "cacheCleanup_tick now it sm = set_cache sm (snd (Cache_Cleanup now it (sm_stateCache sm)))"

section \<open>Documented behaviour of Kubernetes\<close>

text \<open>\<open>NamespacedName.String\<close> joins namespace and name with a slash; \<open>Get\<close> returns the object it is
  asked for, and no object has an empty name or a slash in its name or namespace; a status update that succeeds is what the next \<open>Get\<close> returns;
  the constants of the API package have the values that \<open>StringToNetworkIntentPhase\<close> decodes.\<close>

definition kube_names :: "('k, 'o) Kube \<Rightarrow> bool" where
  "kube_names K \<longleftrightarrow> (\<forall>n. kb_String K n = nn_Namespace n @ ''/'' @ nn_Name n)"

definition valid_name :: "string \<Rightarrow> string \<Rightarrow> bool" where
  "valid_name namespace name \<longleftrightarrow> name \<noteq> [] \<and> CHR ''/'' \<notin> set name \<and> CHR ''/'' \<notin> set namespace"

definition kube_get :: "('k, 'o) Kube \<Rightarrow> bool" where
  "kube_get K \<longleftrightarrow> (\<forall>k n i. kb_Get K k n = Inr i \<longrightarrow>
     ni_Namespace i = nn_Namespace n \<and> ni_Name i = nn_Name n \<and> valid_name (nn_Namespace n) (nn_Name n))"

definition kube_update :: "('k, 'o) Kube \<Rightarrow> bool" where
  "kube_update K \<longleftrightarrow> (\<forall>k i k'. kb_StatusUpdate K k i = (None, k') \<longrightarrow>
     (\<exists>j. kb_Get K k' \<lparr>nn_Namespace = ni_Namespace i, nn_Name = ni_Name i\<rparr> = Inr j
        \<and> ni_Status_Phase j = ni_Status_Phase i \<and> ni_Status_LastUpdateTime j = ni_Status_LastUpdateTime i
        \<and> ni_Status_LastMessage j = ni_Status_LastMessage i))"

definition kube_phases :: "('k, 'o) Kube \<Rightarrow> bool" where
  "kube_phases K \<longleftrightarrow>
     kb_phase K NetworkIntentPhasePending = ''Pending'' \<and> kb_phase K NetworkIntentPhaseProcessing = ''Processing''
     \<and> kb_phase K NetworkIntentPhaseDeploying = ''Deploying'' \<and> kb_phase K NetworkIntentPhaseActive = ''Active''
     \<and> kb_phase K NetworkIntentPhaseReady = ''Ready'' \<and> kb_phase K NetworkIntentPhaseDeployed = ''Deployed''
     \<and> kb_phase K NetworkIntentPhaseFailed = ''Failed''"

section \<open>Invariant\<close>

text \<open>The transitions of a state form a chain that ends in the current phase, its only conditions are
  the ones that \<open>convertToIntentState\<close> makes, and it has the name of an object.\<close>

definition intent_ok :: "IntentState \<Rightarrow> bool" where
  "intent_ok s \<longleftrightarrow>
     successively (\<lambda>t u. pt_ToPhase t = pt_FromPhase u) (is_PhaseTransitions s)
     \<and> (is_PhaseTransitions s \<noteq> [] \<longrightarrow> pt_ToPhase (last (is_PhaseTransitions s)) = is_CurrentPhase s)
     \<and> list_all (\<lambda>c. co_Type c = ''Ready'') (is_Conditions s)
     \<and> valid_name (nn_Namespace (is_NamespacedName s)) (nn_Name (is_NamespacedName s))"

definition cached_at :: "('k, 'o) Kube \<Rightarrow> 'k StateManager \<Rightarrow> NamespacedName \<Rightarrow> (addr \<times> time) option" where
  "cached_at K sm n = map_of (cache_abs (sm_stateCache sm)) (kb_String K n)"

definition sm_inv :: "('k, 'o) Kube \<Rightarrow> 'k StateManager \<Rightarrow> bool" where
  "sm_inv K sm \<longleftrightarrow>
     usable_cache (sm_stateCache sm) \<and> smc_CacheTTL (sm_config sm) \<noteq> 0
     \<and> (\<forall>a < sm_next sm. intent_ok (sm_states sm a))
     \<and> (\<forall>key a x. map_of (cache_abs (sm_stateCache sm)) key = Some (a, x) \<longrightarrow>
          a < sm_next sm \<and> kb_String K (is_NamespacedName (sm_states sm a)) = key)"

text \<open>What a step of a goroutine may do, seen by the others: keep the invariant, allocate, never rename
  a state, never change the configuration.\<close>

definition sm_rel :: "('k, 'o) Kube \<Rightarrow> 'k StateManager \<Rightarrow> 'k StateManager \<Rightarrow> bool" where
  "sm_rel K sm sm' \<longleftrightarrow> (sm_inv K sm \<longrightarrow>
     sm_inv K sm' \<and> sm_next sm \<le> sm_next sm' \<and> sm_config sm' = sm_config sm
     \<and> (\<forall>a < sm_next sm. is_NamespacedName (sm_states sm' a) = is_NamespacedName (sm_states sm a)))"

definition env_ok :: "('k, 'o) Kube \<Rightarrow> 'k sm_env \<Rightarrow> bool" where
  "env_ok K env \<longleftrightarrow> (\<forall>p sm. sm_rel K sm (se_others env p sm))"

definition update_ok :: "(IntentState \<Rightarrow> string option \<times> IntentState) \<Rightarrow> bool" where
  "update_ok f \<longleftrightarrow> (\<forall>s. intent_ok s \<longrightarrow>
     intent_ok (snd (f s)) \<and> is_NamespacedName (snd (f s)) = is_NamespacedName s)"

lemma sm_rel_refl [simp]: "sm_rel K sm sm"
  by (simp add: sm_rel_def)

lemma sm_rel_trans [trans]: "sm_rel K sm sm' \<Longrightarrow> sm_rel K sm' sm'' \<Longrightarrow> sm_rel K sm sm''"
  unfolding sm_rel_def by (simp add: order_less_le_trans) (metis le_trans)

lemma sm_relD:
  assumes "sm_rel K sm sm'" "sm_inv K sm"
  shows "sm_inv K sm'" "sm_next sm \<le> sm_next sm'" "sm_config sm' = sm_config sm"
    "a < sm_next sm \<Longrightarrow> is_NamespacedName (sm_states sm' a) = is_NamespacedName (sm_states sm a)"
  using assms by (simp_all add: sm_rel_def)

lemma env_okD: "env_ok K env \<Longrightarrow> sm_rel K sm (se_others env p sm)"
  by (simp add: env_ok_def)

lemma sm_invD:
  assumes "sm_inv K sm"
  shows "usable_cache (sm_stateCache sm)" "smc_CacheTTL (sm_config sm) \<noteq> 0"
    "a < sm_next sm \<Longrightarrow> intent_ok (sm_states sm a)"
    "map_of (cache_abs (sm_stateCache sm)) key = Some (a, x) \<Longrightarrow> a < sm_next sm"
    "map_of (cache_abs (sm_stateCache sm)) key = Some (a, x) \<Longrightarrow> kb_String K (is_NamespacedName (sm_states sm a)) = key"
  using assms unfolding sm_inv_def by blast+

subsection \<open>The sections keep the invariant\<close>

lemma cache_rel:
  assumes "usable_cache c"
    and "\<And>key a x. map_of (cache_abs c) key = Some (a, x) \<Longrightarrow>
      a < sm_next sm \<and> kb_String K (is_NamespacedName (sm_states sm a)) = key"
  shows "sm_rel K sm (set_cache sm c)"
  using assms by (simp add: sm_rel_def sm_inv_def set_cache_def)

lemma cache_get_rel: "sm_rel K sm (set_cache sm (snd (Cache_Get t1 t2 (sm_stateCache sm) k)))"
proof (cases "sm_inv K sm")
  case True
  then show ?thesis
    by (intro cache_rel state_cache.get_good)
      (use sm_invD [OF True] state_cache.get_others [OF sm_invD(1) [OF True], of t1 t2 k] in \<open>metis option.distinct(1)\<close>)+
qed (simp add: sm_rel_def)

lemma cache_set_rel:
  assumes inv: "sm_inv K sm" and set: "Cache_Set now (sm_stateCache sm) (kb_String K n) a ttl = Some c" "ttl \<noteq> 0"
    and a: "a < sm_next sm" "kb_String K (is_NamespacedName (sm_states sm a)) = kb_String K n"
  shows "sm_rel K sm (set_cache sm c)"
proof (rule cache_rel)
  note u = sm_invD(1) [OF inv]
  show "usable_cache c" by (rule state_cache.put_good [OF u set(1)])
  fix key b x assume m: "map_of (cache_abs c) key = Some (b, x)"
  show "b < sm_next sm \<and> kb_String K (is_NamespacedName (sm_states sm b)) = key"
  proof (cases "key = kb_String K n")
    case True
    with m state_cache.put_stores [OF u set(2,1)] a show ?thesis by simp
  next
    case False
    with m state_cache.put_others [OF u set(1) False] show ?thesis
      by (metis inv option.distinct(1) sm_invD(4,5))
  qed
qed

lemma write_rel:
  assumes "intent_ok s" "is_NamespacedName s = is_NamespacedName (sm_states sm a)"
  shows "sm_rel K sm (write_state sm a s)"
  using assms by (simp add: sm_rel_def sm_inv_def write_state_def)

lemma frame_rel:
  assumes "sm_states sm' = sm_states sm" "sm_next sm' = sm_next sm" "sm_stateCache sm' = sm_stateCache sm"
    "sm_config sm' = sm_config sm"
  shows "sm_rel K sm sm'"
  using assms by (simp add: sm_rel_def sm_inv_def)

lemma convert_ok [simp]: "intent_ok (convertToIntentState t i) \<longleftrightarrow> valid_name (ni_Namespace i) (ni_Name i)"
  by (simp add: intent_ok_def convertToIntentState_def)

lemma alloc_rel: "intent_ok s \<Longrightarrow> sm_rel K sm ((write_state sm (sm_next sm) s)\<lparr>sm_next := Suc (sm_next sm)\<rparr>)"
  by (auto simp: sm_rel_def sm_inv_def write_state_def less_Suc_eq)

subsection \<open>The operations keep the invariant and return\<close>

definition get_post :: "('k, 'o) Kube \<Rightarrow> 'k StateManager \<Rightarrow> NamespacedName \<Rightarrow> sm_error + addr \<Rightarrow> 'k StateManager \<Rightarrow> bool" where
  "get_post K sm n r sm' \<longleftrightarrow> sm_rel K sm sm' \<and>
     (\<forall>a. r = Inr a \<longrightarrow> a < sm_next sm' \<and> kb_String K (is_NamespacedName (sm_states sm' a)) = kb_String K n)"

lemma GetIntentState_hit:
  assumes "sm_inv K sm" "Cache_Get t1 t2 (sm_stateCache sm) (kb_String K n) = (Some a, c)"
  shows "get_post K sm n (Inr a) (set_cache sm c)"
proof -
  have "fst (Cache_Get t1 t2 (sm_stateCache sm) (kb_String K n)) = Some a" using assms(2) by simp
  then obtain x where "map_of (cache_abs (sm_stateCache sm)) (kb_String K n) = Some (a, x)"
    by (auto simp: state_cache.get_value [OF sm_invD(1) [OF assms(1)]] split: option.splits if_splits)
  with sm_invD(4,5) [OF assms(1)] cache_get_rel [of K sm t1 t2 "kb_String K n"] assms(2) show ?thesis
    by (simp add: get_post_def set_cache_def)
qed

lemma GetIntentState_fetch:
  assumes inv: "sm_inv K sm" and env: "env_ok K env" and get: "kube_get K" "kb_Get K k n = Inr intent"
    and sm1: "sm1 = (write_state sm (sm_next sm) (convertToIntentState t intent))\<lparr>sm_next := Suc (sm_next sm)\<rparr>"
  shows "\<exists>c. Cache_Set now (sm_stateCache (se_others env p sm1)) (kb_String K n) (sm_next sm)
        (smc_CacheTTL (sm_config (se_others env p sm1))) = Some c
      \<and> get_post K sm n (Inr (sm_next sm)) (set_cache (se_others env p sm1) c)"
proof -
  let ?sm2 = "se_others env p sm1" and ?a = "sm_next sm"
  have r1: "sm_rel K sm sm1" unfolding sm1 using get by (intro alloc_rel) (simp add: kube_get_def)
  have r2: "sm_rel K sm1 ?sm2" by (rule env_okD [OF env])
  have inv1: "sm_inv K sm1" by (rule sm_relD(1) [OF r1 inv])
  have inv2: "sm_inv K ?sm2" by (rule sm_relD(1) [OF r2 inv1])
  have "is_NamespacedName (sm_states sm1 ?a) = n"
    using get by (simp add: sm1 write_state_def convertToIntentState_def kube_get_def)
  moreover have "?a < sm_next sm1" by (simp add: sm1)
  ultimately have a: "?a < sm_next ?sm2" "kb_String K (is_NamespacedName (sm_states ?sm2 ?a)) = kb_String K n"
    using sm_relD(2,4) [OF r2 inv1] by (simp_all add: order_less_le_trans)
  obtain c where c: "Cache_Set now (sm_stateCache ?sm2) (kb_String K n) ?a (smc_CacheTTL (sm_config ?sm2)) = Some c"
    using state_cache.put_returns [OF sm_invD(1) [OF inv2]] by blast
  have "sm_rel K ?sm2 (set_cache ?sm2 c)" by (rule cache_set_rel [OF inv2 c sm_invD(2) [OF inv2] a])
  with r1 r2 c a show ?thesis unfolding get_post_def by (auto intro: sm_rel_trans simp: set_cache_def)
qed

lemma GetIntentState_ok:
  assumes inv: "sm_inv K sm" and env: "env_ok K env" and get: "kube_get K"
  shows "\<exists>r sm'. GetIntentState K env sm n = Some (r, sm') \<and> get_post K sm n r sm'"
proof -
  obtain v c where g: "Cache_Get (se_clock env CacheExpiry) (se_clock env CacheAccess) (sm_stateCache sm) (kb_String K n) = (v, c)"
    by fastforce
  let ?sm1 = "set_cache sm c" let ?sm2 = "se_others env BeforeFetch ?sm1"
  have r2: "sm_rel K sm ?sm2" using cache_get_rel [of K sm] g env_okD [OF env] by (metis sm_rel_trans snd_conv)
  note inv2 = sm_relD(1) [OF r2 inv]
  show ?thesis
  proof (cases v)
    case (Some a)
    then show ?thesis using GetIntentState_hit [OF inv] g by (simp add: GetIntentState_def)
  next
    case None
    show ?thesis
    proof (cases "kb_Get K (sm_cluster ?sm2) n")
      case (Inl err)
      then show ?thesis using r2 g None by (simp add: GetIntentState_def get_post_def)
    next
      case (Inr intent)
      from GetIntentState_fetch [OF inv2 env get Inr refl, of "se_clock env Cached" BeforeCaching "se_clock env Converted"]
      show ?thesis using g None Inr r2
        by (auto simp: GetIntentState_def Let_def get_post_def intro: sm_rel_trans)
    qed
  qed
qed

lemma updateKubernetesState_rel: "env_ok K env \<Longrightarrow> sm_rel K sm (snd (updateKubernetesState K env sm n a))"
proof -
  assume env: "env_ok K env"
  let ?sm1 = "se_others env BeforeKubeGet sm" let ?sm2 = "se_others env BeforeKubeUpdate ?sm1"
  have "sm_rel K sm ?sm1" "sm_rel K sm ?sm2" using env_okD [OF env] by (blast intro: sm_rel_trans)+
  moreover have "sm_rel K ?sm2 (?sm2\<lparr>sm_cluster := k\<rparr>)" for k by (rule frame_rel) simp_all
  ultimately show ?thesis
    by (auto simp: updateKubernetesState_def Let_def case_prod_beta intro: sm_rel_trans split: sum.splits)
qed

lemma publish_rel: "sm_rel K sm (publishStateChangeEvent now sm n s)"
  by (rule frame_rel) (simp_all add: publishStateChangeEvent_def split: option.splits)

lemma intent_ok_fields [simp]:
  "intent_ok (s\<lparr>is_Version := v\<rparr>) = intent_ok s" "intent_ok (s\<lparr>is_LastModified := t\<rparr>) = intent_ok s"
  "intent_ok (s\<lparr>is_RetryCount := r\<rparr>) = intent_ok s" "intent_ok (s\<lparr>is_PhaseData := d\<rparr>) = intent_ok s"
  "intent_ok (s\<lparr>is_PhaseErrors := e\<rparr>) = intent_ok s" "intent_ok (s\<lparr>is_LastError := msg\<rparr>) = intent_ok s"
  "intent_ok (s\<lparr>is_LastErrorTime := t\<rparr>) = intent_ok s" "intent_ok (s\<lparr>is_Dependencies := ds\<rparr>) = intent_ok s"
  by (simp_all add: intent_ok_def)

text \<open>The steps after the state has been fetched: \<open>a\<close> stays a pointer to the state of \<open>n\<close>.\<close>

definition points_to :: "('k, 'o) Kube \<Rightarrow> 'k StateManager \<Rightarrow> addr \<Rightarrow> NamespacedName \<Rightarrow> bool" where
  "points_to K sm a n \<longleftrightarrow> sm_inv K sm \<and> a < sm_next sm \<and> kb_String K (is_NamespacedName (sm_states sm a)) = kb_String K n"

lemma points_to_rel: "points_to K sm a n \<Longrightarrow> sm_rel K sm sm' \<Longrightarrow> points_to K sm' a n"
  by (auto simp: points_to_def sm_rel_def)

lemma points_to_ok: "points_to K sm a n \<Longrightarrow> intent_ok (sm_states sm a)"
  unfolding points_to_def by (metis sm_invD(3))

lemma final_set_ok:
  assumes "points_to K sm a n"
  shows "\<exists>c. Cache_Set now (sm_stateCache sm) (kb_String K n) a (smc_CacheTTL (sm_config sm)) = Some c
    \<and> sm_rel K sm (set_cache sm c)"
proof -
  have inv: "sm_inv K sm" and a: "a < sm_next sm" "kb_String K (is_NamespacedName (sm_states sm a)) = kb_String K n"
    using assms by (simp_all add: points_to_def)
  obtain c where c: "Cache_Set now (sm_stateCache sm) (kb_String K n) a (smc_CacheTTL (sm_config sm)) = Some c"
    using state_cache.put_returns [OF sm_invD(1) [OF inv]] by blast
  with cache_set_rel [OF inv c sm_invD(2) [OF inv] a] show ?thesis by blast
qed

lemma write_version_rel: "points_to K sm a n \<Longrightarrow> sm_rel K sm (write_state sm a ((sm_states sm a)\<lparr>is_Version := v\<rparr>))"
  by (rule write_rel) (simp_all add: points_to_ok)

lemma update_locked_ok:
  assumes inv: "sm_inv K sm" and env: "env_ok K env" and get: "kube_get K" and f: "update_ok f"
  shows "\<exists>r sm'. update_locked K env sm n f = Some (r, sm') \<and> sm_rel K sm sm'"
proof -
  obtain g sm1 where g: "GetIntentState K env sm n = Some (g, sm1)" "get_post K sm n g sm1"
    using GetIntentState_ok [OF inv env get] by blast
  have r1: "sm_rel K sm sm1" using g(2) by (simp add: get_post_def)
  show ?thesis
  proof (cases g)
    case (Inl err)
    then show ?thesis using g r1 by (simp add: update_locked_def)
  next
    case (Inr a)
    let ?sm2 = "se_others env BeforeApply sm1"
    obtain e s1 where fs: "f (sm_states ?sm2 a) = (e, s1)" by fastforce
    have r2: "sm_rel K sm ?sm2" using r1 env_okD [OF env] by (rule sm_rel_trans)
    have "points_to K sm1 a n" using g(2) Inr sm_relD(1) [OF r1 inv] by (simp add: points_to_def get_post_def)
    then have p2: "points_to K ?sm2 a n" using env_okD [OF env] by (rule points_to_rel)
    have s1: "intent_ok s1" "is_NamespacedName s1 = is_NamespacedName (sm_states ?sm2 a)"
      using f points_to_ok [OF p2] fs unfolding update_ok_def by (metis snd_conv)+
    let ?s2 = "s1\<lparr>is_Version := next_version (is_Version s1), is_LastModified := se_clock env Modified\<rparr>"
    let ?sm3 = "write_state ?sm2 a ?s2"
    have w: "sm_rel K sm (write_state ?sm2 a s)" if "s = s1 \<or> s = ?s2" for s
      using that s1 by (intro sm_rel_trans [OF r2] write_rel) auto
    have p3: "points_to K ?sm3 a n" using p2 by (rule points_to_rel) (use s1 in \<open>auto intro!: write_rel\<close>)
    obtain ke sm4 where k: "updateKubernetesState K env ?sm3 n a = (ke, sm4)" by fastforce
    let ?sm5 = "se_others env BeforeFinalSet sm4"
    have r34: "sm_rel K ?sm3 sm4" using updateKubernetesState_rel [OF env, of ?sm3 n a] k by simp
    have p4: "points_to K sm4 a n" using p3 r34 by (rule points_to_rel)
    then have p5: "points_to K ?sm5 a n" using env_okD [OF env] by (rule points_to_rel)
    from final_set_ok [OF this, of "se_clock env FinalSet"] obtain c where
      c: "Cache_Set (se_clock env FinalSet) (sm_stateCache ?sm5) (kb_String K n) a (smc_CacheTTL (sm_config ?sm5)) = Some c"
         "sm_rel K ?sm5 (set_cache ?sm5 c)" by blast
    have r4: "sm_rel K sm sm4" using w [of ?s2] r34 by (blast intro: sm_rel_trans)
    moreover have "sm_rel K sm (publishStateChangeEvent t (set_cache ?sm5 c) n s)" for t s
      using r4 env_okD [OF env] c(2) publish_rel by (blast intro: sm_rel_trans)
    ultimately show ?thesis using g Inr fs k c(1) w write_version_rel [OF p4]
      by (auto simp: update_locked_def Let_def intro: sm_rel_trans split: option.splits)
  qed
qed

lemma UpdateIntentState_ok:
  assumes inv: "sm_inv K sm" and env: "env_ok K env" and get: "kube_get K" and f: "update_ok f"
  shows "\<exists>r sm'. UpdateIntentState K env sm n f = Some (r, sm') \<and> sm_rel K sm sm'"
proof -
  let ?sm0 = "se_others env BeforeLock sm"
  obtain le lm where l: "AcquireLock (se_lock env) (sm_stateLocks ?sm0) (kb_String K n) = (le, lm)" by fastforce
  let ?sm1 = "?sm0\<lparr>sm_stateLocks := lm\<rparr>"
  have lock: "sm_rel K sm' (sm'\<lparr>sm_stateLocks := l\<rparr>)" for sm' l by (rule frame_rel) simp_all
  have r1: "sm_rel K sm ?sm1" using env_okD [OF env] lock by (rule sm_rel_trans)
  from update_locked_ok [OF sm_relD(1) [OF r1 inv] env get f, of n] obtain r sm' where
    "update_locked K env ?sm1 n f = Some (r, sm')" "sm_rel K ?sm1 sm'" by blast
  with r1 l lock show ?thesis
    by (auto simp: UpdateIntentState_def Let_def intro: sm_rel_trans split: option.splits)
qed

lemma update_okI:
  assumes "\<And>s. intent_ok s \<Longrightarrow> intent_ok (g s) \<and> is_NamespacedName (g s) = is_NamespacedName s"
  shows "update_ok (\<lambda>s. (err, g s))"
  using assms by (simp add: update_ok_def)

lemma transition_ok:
  assumes "intent_ok s" shows "intent_ok (transition_state t1 t2 p m s)"
  using assms by (auto simp: intent_ok_def transition_state_def Let_def successively_append_iff split: option.splits)

lemma own_updates_ok:
  "update_ok (\<lambda>s. (None, transition_state t1 t2 p m s))"
  "update_ok (\<lambda>s. (None, phase_error_state t p msg s))"
  "update_ok (\<lambda>s. (None, s\<lparr>is_PhaseData := fmupd p d (is_PhaseData s)\<rparr>))"
  "update_ok (\<lambda>s. (None, dependency_state t dep s))"
  "update_ok (\<lambda>s. (None, s\<lparr>is_RetryCount := inc64 (is_RetryCount s)\<rparr>))"
  by (intro update_okI; simp add: transition_ok phase_error_state_def dependency_state_def;
      simp add: transition_state_def Let_def split: option.splits)+

subsection \<open>Calls that no other goroutine disturbs\<close>

definition quiet :: "'k sm_env \<Rightarrow> bool" where
  "quiet env \<longleftrightarrow> (\<forall>p sm. se_others env p sm = sm)"

definition fetched :: "('k, 'o) Kube \<Rightarrow> 'k sm_env \<Rightarrow> 'k StateManager \<Rightarrow> NamespacedName \<Rightarrow> sm_error + IntentState" where
  "fetched K env sm n =
     (case kb_Get K (sm_cluster sm) n of
        Inl err \<Rightarrow> Inl (GetIntentFailed err)
      | Inr i \<Rightarrow> Inr (convertToIntentState (se_clock env Converted) i))"

text \<open>The state that a caller of \<open>GetIntentState\<close> sees, and the cached state with its expiry time.\<close>

definition current :: "('k, 'o) Kube \<Rightarrow> 'k sm_env \<Rightarrow> 'k StateManager \<Rightarrow> NamespacedName \<Rightarrow> sm_error + IntentState" where
  "current K env sm n =
     (case cached_at K sm n of
        None \<Rightarrow> fetched K env sm n
      | Some (a, x) \<Rightarrow> if se_clock env CacheExpiry > x then fetched K env sm n else Inr (sm_states sm a))"

definition cached_state :: "('k, 'o) Kube \<Rightarrow> 'k StateManager \<Rightarrow> NamespacedName \<Rightarrow> (IntentState \<times> time) option" where
  "cached_state K sm n = map_option (\<lambda>(a, x). (sm_states sm a, x)) (cached_at K sm n)"

definition same_rest :: "'k StateManager \<Rightarrow> 'k StateManager \<Rightarrow> bool" where
  "same_rest sm sm' \<longleftrightarrow> sm_cluster sm' = sm_cluster sm \<and> sm_stateLocks sm' = sm_stateLocks sm
     \<and> sm_eventBus sm' = sm_eventBus sm \<and> sm_config sm' = sm_config sm"

lemma quiet_env_ok: "quiet env \<Longrightarrow> env_ok K env"
  by (simp add: quiet_def env_ok_def)

lemma Cache_Set_view:
  assumes "usable_cache (sm_stateCache sm)" "smc_CacheTTL (sm_config sm) \<noteq> 0"
    and "Cache_Set now (sm_stateCache sm) (kb_String K n) a (smc_CacheTTL (sm_config sm)) = Some c"
  shows "cached_at K (set_cache sm c) n = Some (a, now + smc_CacheTTL (sm_config sm))"
  using state_cache.put_stores [OF assms] by (simp add: cached_at_def set_cache_def)

lemma GetIntentState_quiet:
  assumes inv: "sm_inv K sm" and q: "quiet env" and get: "kube_get K"
  shows "\<exists>sm'. same_rest sm sm' \<and>
    (case current K env sm n of
       Inl err \<Rightarrow> GetIntentState K env sm n = Some (Inl err, sm')
     | Inr s \<Rightarrow> \<exists>a x. GetIntentState K env sm n = Some (Inr a, sm') \<and> sm_states sm' a = s
         \<and> cached_at K sm' n = Some (a, x) \<and> points_to K sm' a n)"
proof -
  let ?key = "kb_String K n" and ?t = "se_clock env CacheExpiry"
  have cinv: "cache_inv (sm_stateCache sm)" using sm_invD(1) [OF inv] by (simp add: usable_cache_def)
  obtain v c where g: "Cache_Get ?t (se_clock env CacheAccess) (sm_stateCache sm) ?key = (v, c)" by fastforce
  with Cache_Get_refines(2,3) [OF cinv, of ?t "se_clock env CacheAccess" ?key]
  have v: "v = fst (lru_get ?t ?key (cache_abs (sm_stateCache sm)))"
    and c: "cache_abs c = snd (lru_get ?t ?key (cache_abs (sm_stateCache sm)))" by simp_all
  obtain r sm' where post: "GetIntentState K env sm n = Some (r, sm')" "get_post K sm n r sm'"
    using GetIntentState_ok [OF inv quiet_env_ok [OF q] get] by blast
  then have inv': "sm_inv K sm'" using inv by (simp add: get_post_def sm_rel_def)
  show ?thesis
  proof (cases v)
    case (Some a)
    then have eq: "r = Inr a" "sm' = set_cache sm c" using post(1) g by (simp_all add: GetIntentState_def)
    from Some v c have "current K env sm n = Inr (sm_states sm a)" "\<exists>x. cached_at K sm' n = Some (a, x)"
      by (auto simp: current_def cached_at_def eq(2) set_cache_def lru_get_def split: option.splits if_splits)
    then show ?thesis using post inv' eq
      by (auto simp: same_rest_def points_to_def get_post_def set_cache_def)
  next
    case None
    then have cur: "current K env sm n = fetched K env sm n"
      using v by (auto simp: current_def cached_at_def lru_get_def split: option.splits if_splits)
    show ?thesis
    proof (cases "kb_Get K (sm_cluster sm) n")
      case (Inl err)
      then show ?thesis using post(1) g None q cur
        by (auto simp: GetIntentState_def fetched_def quiet_def set_cache_def same_rest_def)
    next
      case (Inr i)
      let ?sm3 = "(write_state (set_cache sm c) (sm_next sm) (convertToIntentState (se_clock env Converted) i))
          \<lparr>sm_next := Suc (sm_next sm)\<rparr>"
      have inv3: "sm_inv K ?sm3"
        using alloc_rel [of "convertToIntentState (se_clock env Converted) i" K "set_cache sm c"]
          sm_relD(1) [OF cache_get_rel inv, of "?t" "se_clock env CacheAccess" ?key] g Inr get
        by (simp add: sm_rel_def set_cache_def kube_get_def)
      from post(1) g None q Inr obtain c' where
        s: "Cache_Set (se_clock env Cached) (sm_stateCache ?sm3) ?key (sm_next sm) (smc_CacheTTL (sm_config ?sm3)) = Some c'"
           "r = Inr (sm_next sm)" "sm' = set_cache ?sm3 c'"
        by (auto simp: GetIntentState_def Let_def quiet_def set_cache_def write_state_def split: option.splits)
      then show ?thesis using post inv' cur Inr Cache_Set_view [OF sm_invD(1,2) [OF inv3] s(1)]
        by (auto simp: same_rest_def points_to_def get_post_def set_cache_def fetched_def write_state_def)
    qed
  qed
qed

text \<open>The specification of an update: from the state the caller sees and the cluster, the result, the
  new cluster and the state that is cached afterwards.\<close>

definition updated :: "time \<Rightarrow> IntentState \<Rightarrow> IntentState" where
  "updated t s = s\<lparr>is_Version := next_version (is_Version s), is_LastModified := t\<rparr>"

definition update_spec ::
    "('k, 'o) Kube \<Rightarrow> bool \<Rightarrow> time \<Rightarrow> NamespacedName \<Rightarrow> (IntentState \<Rightarrow> string option \<times> IntentState)
       \<Rightarrow> 'k \<Rightarrow> sm_error + IntentState \<Rightarrow> sm_error option \<times> 'k \<times> IntentState option" where
  "update_spec K validate t n f k cur =
     (case cur of
        Inl err \<Rightarrow> (Some (GetStateFailed err), k, None)
      | Inr s \<Rightarrow>
          (case f s of
             (Some e, s1) \<Rightarrow> (Some (UpdateFailed e), k, Some s1)
           | (None, s1) \<Rightarrow>
               (case (if validate then validateState (updated t s1) else None) of
                  Some e \<Rightarrow> (Some (ValidationFailed e), k, Some (updated t s1))
                | None \<Rightarrow>
                    (case kb_Get K k n of
                       Inl e \<Rightarrow> (Some (KubernetesUpdateFailed e), k, Some ((updated t s1)\<lparr>is_Version := is_Version s\<rparr>))
                     | Inr i \<Rightarrow>
                         (case kb_StatusUpdate K k (status_of K i (updated t s1)) of
                            (Some e, k') \<Rightarrow>
                              (Some (KubernetesUpdateFailed e), k', Some ((updated t s1)\<lparr>is_Version := is_Version s\<rparr>))
                          | (None, k') \<Rightarrow> (None, k', Some (updated t s1)))))))"

definition refines_update ::
    "('k, 'o) Kube \<Rightarrow> 'k StateManager \<Rightarrow> NamespacedName \<Rightarrow> sm_error option \<times> 'k \<times> IntentState option
       \<Rightarrow> sm_error option \<Rightarrow> 'k StateManager \<Rightarrow> bool" where
  "refines_update K sm n spec r sm' \<longleftrightarrow>
     r = fst spec \<and> sm_cluster sm' = fst (snd spec)
     \<and> (snd (snd spec) \<noteq> None \<longrightarrow> map_option fst (cached_state K sm' n) = snd (snd spec))
     \<and> map_option length (sm_eventBus sm') = map_option (\<lambda>es. if r = None then Suc (length es) else length es) (sm_eventBus sm)
     \<and> sm_stateLocks sm' = sm_stateLocks sm"

lemma write_state_frame [simp]:
  "sm_cluster (write_state sm a s) = sm_cluster sm" "sm_next (write_state sm a s) = sm_next sm"
  "sm_stateCache (write_state sm a s) = sm_stateCache sm" "sm_stateLocks (write_state sm a s) = sm_stateLocks sm"
  "sm_eventBus (write_state sm a s) = sm_eventBus sm" "sm_config (write_state sm a s) = sm_config sm"
  "sm_states (write_state sm a s) a = s" "cached_at K (write_state sm a s) n = cached_at K sm n"
  "cached_at K (sm\<lparr>sm_cluster := k\<rparr>) n = cached_at K sm n"
  by (simp_all add: write_state_def cached_at_def)

lemma publish_frame [simp]:
  "sm_cluster (publishStateChangeEvent t sm n s) = sm_cluster sm"
  "sm_states (publishStateChangeEvent t sm n s) = sm_states sm"
  "sm_stateCache (publishStateChangeEvent t sm n s) = sm_stateCache sm"
  "sm_stateLocks (publishStateChangeEvent t sm n s) = sm_stateLocks sm"
  "cached_at K (publishStateChangeEvent t sm n s) m = cached_at K sm m"
  "map_option length (sm_eventBus (publishStateChangeEvent t sm n s)) = map_option (Suc \<circ> length) (sm_eventBus sm)"
  by (simp_all add: publishStateChangeEvent_def cached_at_def split: option.splits)

lemma set_cache_frame [simp]:
  "sm_cluster (set_cache sm c) = sm_cluster sm" "sm_states (set_cache sm c) = sm_states sm"
  "sm_next (set_cache sm c) = sm_next sm" "sm_stateCache (set_cache sm c) = c"
  "sm_stateLocks (set_cache sm c) = sm_stateLocks sm" "sm_eventBus (set_cache sm c) = sm_eventBus sm"
  "sm_config (set_cache sm c) = sm_config sm"
  by (simp_all add: set_cache_def)

lemma update_locked_quiet:
  assumes inv: "sm_inv K sm" and q: "quiet env" and get: "kube_get K"
  shows "\<exists>r sm'. update_locked K env sm n f = Some (r, sm') \<and> refines_update K sm n
      (update_spec K (smc_StateValidationEnabled (sm_config sm)) (se_clock env Modified) n f (sm_cluster sm) (current K env sm n)) r sm'"
proof -
  obtain sm1 where rest: "same_rest sm sm1" and g: "case current K env sm n of
      Inl err \<Rightarrow> GetIntentState K env sm n = Some (Inl err, sm1)
    | Inr s \<Rightarrow> \<exists>a x. GetIntentState K env sm n = Some (Inr a, sm1) \<and> sm_states sm1 a = s
        \<and> cached_at K sm1 n = Some (a, x) \<and> points_to K sm1 a n"
    using GetIntentState_quiet [OF inv q get, of n] by blast
  note others = q [unfolded quiet_def, rule_format]
  show ?thesis
  proof (cases "current K env sm n")
    case (Inl err)
    then show ?thesis using g rest
      by (simp add: update_locked_def update_spec_def refines_update_def same_rest_def)
  next
    case (Inr s)
    with g obtain a x where ga: "GetIntentState K env sm n = Some (Inr a, sm1)" "sm_states sm1 a = s"
      "cached_at K sm1 n = Some (a, x)" "points_to K sm1 a n" by auto
    obtain e s1 where fs: "f s = (e, s1)" by fastforce
    let ?sm3 = "write_state sm1 a (updated (se_clock env Modified) s1)"
    have u: "usable_cache (sm_stateCache sm1)" "smc_CacheTTL (sm_config sm1) \<noteq> 0"
      using ga(4) sm_invD(1,2) by (auto simp: points_to_def)
    obtain c where c: "Cache_Set (se_clock env FinalSet) (sm_stateCache sm1) (kb_String K n) a (smc_CacheTTL (sm_config sm1)) = Some c"
      using state_cache.put_returns [OF u(1)] by blast
    have view: "cached_at K sm' n = Some (a, se_clock env FinalSet + smc_CacheTTL (sm_config sm1))"
      if "sm_stateCache sm' = c" for sm'
      using Cache_Set_view [OF u c] that by (simp add: cached_at_def)
    show ?thesis
      using rest ga fs Inr c view others
      by (auto simp: update_locked_def Let_def update_spec_def refines_update_def same_rest_def cached_state_def
          updateKubernetesState_def updated_def [symmetric] option.map_id comp_def
          split: option.splits sum.splits prod.splits)
  qed
qed

lemma AcquireLock_free:
  assumes "fmlookup (lm_locks lm) key = None" "ae_before (env 0) = (\<lambda>lm. lm)"
  shows "\<exists>lm'. AcquireLock env lm key = (None, lm') \<and> fmlookup (lm_locks lm') key \<noteq> None"
  using assms
  by (simp add: AcquireLock_def AcquireLockWithOptions_def acquire_loop.simps [of env key _ 0] tryAcquireLock_def
      DefaultLockOptions_def Let_def)

lemma release_frees: "fmlookup (lm_locks (snd (ReleaseLock_body lm key))) key = None"
  by (simp add: ReleaseLock_body_def split: option.splits)

lemma locks_frame:
  "current K env (sm\<lparr>sm_stateLocks := lm\<rparr>) n = current K env sm n"
  "sm_inv K (sm\<lparr>sm_stateLocks := lm\<rparr>) = sm_inv K sm"
  "cached_state K (sm\<lparr>sm_stateLocks := lm\<rparr>) n = cached_state K sm n"
  by (simp_all add: current_def cached_at_def fetched_def sm_inv_def cached_state_def split: option.splits)

lemma UpdateIntentState_quiet:
  assumes inv: "sm_inv K sm" and q: "quiet env" and get: "kube_get K"
    and free: "fmlookup (lm_locks (sm_stateLocks sm)) (kb_String K n) = None"
      "ae_before (se_lock env 0) = (\<lambda>lm. lm)"
  shows "\<exists>r sm' lm. UpdateIntentState K env sm n f = Some (r, sm')
    \<and> refines_update K (sm\<lparr>sm_stateLocks := lm\<rparr>) n (update_spec K (smc_StateValidationEnabled (sm_config sm))
        (se_clock env Modified) n f (sm_cluster sm) (current K env sm n)) r (sm'\<lparr>sm_stateLocks := lm\<rparr>)
    \<and> fmlookup (lm_locks (sm_stateLocks sm')) (kb_String K n) = None"
proof -
  obtain lm where lm: "AcquireLock (se_lock env) (sm_stateLocks sm) (kb_String K n) = (None, lm)"
    using AcquireLock_free [of "sm_stateLocks sm" "kb_String K n" "se_lock env"] free by blast
  let ?sm1 = "sm\<lparr>sm_stateLocks := lm\<rparr>"
  have "sm_inv K ?sm1" using inv by (simp add: locks_frame)
  from update_locked_quiet [OF this q get, of n f, unfolded locks_frame] obtain r sm' where
    "update_locked K env ?sm1 n f = Some (r, sm')" and "refines_update K ?sm1 n (update_spec K
      (smc_StateValidationEnabled (sm_config sm)) (se_clock env Modified) n f (sm_cluster sm) (current K env sm n)) r sm'"
    by auto
  moreover have "sm_stateLocks sm' = lm" using calculation(2) by (simp add: refines_update_def)
  ultimately show ?thesis using lm q release_frees
    by (intro exI [of _ r] exI [of _ "sm'\<lparr>sm_stateLocks := snd (ReleaseLock_body (sm_stateLocks sm') (kb_String K n))\<rparr>"]
        exI [of _ lm])
      (auto simp: UpdateIntentState_def quiet_def refines_update_def locks_frame)
qed

subsection \<open>Runs\<close>

text \<open>A step of one goroutine: one call with an environment in which the others do such steps.\<close>

inductive sm_step :: "('k, 'o) Kube \<Rightarrow> 'k StateManager \<Rightarrow> 'k StateManager \<Rightarrow> bool" for K where
  step_get: "env_ok K env \<Longrightarrow> GetIntentState K env sm n = Some (r, sm') \<Longrightarrow> sm_step K sm sm'"
| step_transition: "env_ok K env \<Longrightarrow> SM_TransitionPhase K env t1 t2 sm n p m = Some (e, sm') \<Longrightarrow> sm_step K sm sm'"
| step_error: "env_ok K env \<Longrightarrow> SetPhaseError K env t sm n p msg = Some (e, sm') \<Longrightarrow> sm_step K sm sm'"
| step_data: "env_ok K env \<Longrightarrow> SetPhaseData K env sm n p d = Some (e, sm') \<Longrightarrow> sm_step K sm sm'"
| step_dependency: "env_ok K env \<Longrightarrow> AddDependency K env t sm n dep = Some (e, sm') \<Longrightarrow> sm_step K sm sm'"
| step_retry: "env_ok K env \<Longrightarrow>
    UpdateIntentState K env sm n (\<lambda>s. (None, s\<lparr>is_RetryCount := inc64 (is_RetryCount s)\<rparr>)) = Some (e, sm') \<Longrightarrow>
    sm_step K sm sm'"
| step_cleanup: "ranges_over (sc_entries (sm_stateCache sm)) it \<Longrightarrow> sm_step K sm (cacheCleanup_tick now it sm)"
| step_start: "sm_step K sm (snd (SM_Start sm))"
| step_stop: "sm_step K sm (SM_Stop sm)"
| step_cluster: "sm_step K sm (sm\<lparr>sm_cluster := k\<rparr>)"

inductive sm_reach :: "('k, 'o) Kube \<Rightarrow> 'k StateManager \<Rightarrow> bool" for K where
  start: "sm_reach K (NewStateManager k mem cmem hasBus)"
| step: "sm_reach K sm \<Longrightarrow> sm_step K sm sm' \<Longrightarrow> sm_reach K sm'"

lemma update_rel:
  assumes "env_ok K env" "kube_get K" "update_ok f" "UpdateIntentState K env sm n f = Some (e, sm')"
  shows "sm_rel K sm sm'"
proof (cases "sm_inv K sm")
  case True
  from UpdateIntentState_ok [OF True assms(1-3), of n] assms(4) show ?thesis by auto
qed (simp add: sm_rel_def)

lemma cleanup_rel:
  assumes "ranges_over (sc_entries (sm_stateCache sm)) it"
  shows "sm_rel K sm (cacheCleanup_tick now it sm)"
proof (cases "sm_inv K sm")
  case True
  let ?c = "sm_stateCache sm"
  have u: "cache_inv ?c" "cache_bounded ?c" "1 \<le> sc_maxSize ?c" using sm_invD(1) [OF True] by (simp_all add: usable_cache_def)
  note ref = Cache_Cleanup_refines [OF u(1) assms, of now]
  show ?thesis unfolding cacheCleanup_tick_def
  proof (rule cache_rel)
    show "usable_cache (snd (Cache_Cleanup now it ?c))"
      using ref Cache_Cleanup_bounded [OF u(1) assms u(2), of now] u(3) by (simp add: usable_cache_def)
  next
    fix key a x assume "map_of (cache_abs (snd (Cache_Cleanup now it ?c))) key = Some (a, x)"
    then have "(key, a, x) \<in> set (cache_abs ?c)" using ref by (auto dest: map_of_SomeD)
    then have "map_of (cache_abs ?c) key = Some (a, x)" by (simp add: map_of_is_SomeI [OF cache_abs_distinct [OF u(1)]])
    then show "a < sm_next sm \<and> kb_String K (is_NamespacedName (sm_states sm a)) = key"
      using sm_invD(4,5) [OF True] by blast
  qed
qed (simp add: sm_rel_def)

lemma sm_step_rel:
  assumes "kube_get K" "sm_step K sm sm'"
  shows "sm_rel K sm sm'"
  using assms(2)
proof cases
  case (step_get env n r)
  show ?thesis
  proof (cases "sm_inv K sm")
    case True
    from GetIntentState_ok [OF True step_get(1) assms(1), of n] step_get(2) show ?thesis by (auto simp: get_post_def)
  qed (simp add: sm_rel_def)
next
  case (step_cleanup it now)
  then show ?thesis by (simp add: cleanup_rel)
qed (auto simp: SM_TransitionPhase_def SetPhaseError_def SetPhaseData_def AddDependency_def SM_Start_def SM_Stop_def
    intro: update_rel [OF _ assms(1)] own_updates_ok frame_rel)

lemma NewStateManager_inv: "sm_inv K (NewStateManager k mem cmem hasBus)"
  by (simp add: sm_inv_def NewStateManager_def DefaultStateManagerConfig_def usable_cache_def NewStateCache_def
      cache_inv_def cache_bounded_def cache_abs_def wrap64_def Minute_def Second_def)

lemma sm_reach_inv:
  assumes "kube_get K" "sm_reach K sm" shows "sm_inv K sm"
  using assms(2) by (induction rule: sm_reach.induct) (auto simp: NewStateManager_inv intro: sm_relD(1) sm_step_rel [OF assms(1)])

subsection \<open>Consequences\<close>

lemma current_cached: "cached_state K sm n = Some (s, x) \<Longrightarrow> se_clock env CacheExpiry \<le> x \<Longrightarrow> current K env sm n = Inr s"
  by (auto simp: cached_state_def current_def)

lemma slash_split:
  assumes "ns @ ''/'' @ a = ms @ ''/'' @ b" "CHR ''/'' \<notin> set ns" "CHR ''/'' \<notin> set a"
  shows "ns = ms \<and> a = b"
  using assms by (auto simp: append_eq_append_conv2 Cons_eq_append_conv append_eq_Cons_conv)

text \<open>A name that no object can have is never cached, and the manager does not find it.\<close>

lemma invalid_name_uncached:
  assumes "sm_inv K sm" "kube_names K" "\<not> valid_name (nn_Namespace n) (nn_Name n)"
  shows "cached_at K sm n = None"
proof (rule ccontr)
  assume "cached_at K sm n \<noteq> None"
  then obtain a x where m: "map_of (cache_abs (sm_stateCache sm)) (kb_String K n) = Some (a, x)"
    by (auto simp: cached_at_def)
  let ?m = "is_NamespacedName (sm_states sm a)"
  have "valid_name (nn_Namespace ?m) (nn_Name ?m)"
    using sm_invD(3) [OF assms(1) sm_invD(4) [OF assms(1) m]] by (simp add: intent_ok_def)
  moreover have "nn_Namespace ?m @ ''/'' @ nn_Name ?m = nn_Namespace n @ ''/'' @ nn_Name n"
    using sm_invD(5) [OF assms(1) m] assms(2) by (simp add: kube_names_def)
  ultimately show False using assms(3) slash_split by (metis valid_name_def)
qed

lemma invalid_name_fails:
  assumes inv: "sm_inv K sm" and k: "kube_names K" "kube_get K" and env: "env_ok K env"
    and n: "\<not> valid_name (nn_Namespace n) (nn_Name n)"
  shows "\<exists>err sm'. GetIntentState K env sm n = Some (Inl err, sm') \<and> sm_inv K sm'"
proof -
  obtain r sm' where g: "GetIntentState K env sm n = Some (r, sm')" "get_post K sm n r sm'"
    using GetIntentState_ok [OF inv env k(2)] by blast
  then have inv': "sm_inv K sm'" using inv by (simp add: get_post_def sm_rel_def)
  have "kb_Get K c n \<noteq> Inr i" for c i using k(2) n unfolding kube_get_def by blast
  moreover have "fst (Cache_Get t1 t2 (sm_stateCache sm) (kb_String K n)) = None" for t1 t2
    using invalid_name_uncached [OF inv k(1) n] by (simp add: state_cache.get_value [OF sm_invD(1) [OF inv]] cached_at_def)
  ultimately have "\<exists>err. r = Inl err"
    using g(1) by (auto simp: GetIntentState_def Let_def case_prod_beta split: option.splits sum.splits)
  with g(1) inv' show ?thesis by blast
qed

lemma check_deps_fail:
  assumes "kube_names K" "kube_get K" "\<And>i. env_ok K (env i)" "sm_inv K sm"
  shows "\<exists>sm'. check_deps K env i deps sm acc = Some (acc @ map (\<lambda>d. DependencyNotFound (id_Intent d)) deps, sm')"
  using assms(4)
proof (induction deps arbitrary: i sm acc)
  case (Cons d deps)
  obtain err sm1 where "GetIntentState K (env i) sm \<lparr>nn_Namespace = [], nn_Name = []\<rparr> = Some (Inl err, sm1)" "sm_inv K sm1"
    using invalid_name_fails [OF Cons.prems assms(1,2) assms(3) [of i], of "\<lparr>nn_Namespace = [], nn_Name = []\<rparr>"]
    by (auto simp: valid_name_def)
  with Cons.IH [of sm1 "Suc i" "acc @ [DependencyNotFound (id_Intent d)]"] show ?case
    by (simp add: parseNamespacedName_def numeral_2_eq_2)
qed simp

lemma status_of_name [simp]:
  "ni_Namespace (status_of K i s) = ni_Namespace i" "ni_Name (status_of K i s) = ni_Name i"
  "ni_Status_Phase (status_of K i s) = kb_phase K (ProcessingPhaseToNetworkIntentPhase (is_CurrentPhase s))"
  by (simp_all add: status_of_def Let_def)

lemma transition_phase [simp]: "is_CurrentPhase (transition_state t1 t2 p m s) = p"
  by (simp add: transition_state_def Let_def split: option.splits)

lemma updated_phase [simp]: "is_CurrentPhase (updated t s) = is_CurrentPhase s"
  by (simp add: updated_def)

text \<open>The version a success leaves behind decodes to the old one plus one.\<close>

lemma next_version_counts:
  "strconv_Atoi v = Some i \<Longrightarrow> strconv_Atoi (next_version v) = Some (wrap64 (i + 1))"
  "strconv_Atoi v = None \<Longrightarrow> next_version v = ''1''"
  "next_version v \<noteq> []"
proof -
  have one: "strconv_Itoa 1 = ''1''" by code_simp
  show "strconv_Atoi v = None \<Longrightarrow> next_version v = ''1''" "next_version v \<noteq> []" by (simp_all add: next_version_def one)
  assume "strconv_Atoi v = Some i"
  moreover from this have "v \<noteq> []" by (auto simp: strconv_Atoi_def)
  ultimately show "strconv_Atoi (next_version v) = Some (wrap64 (i + 1))" by (simp add: next_version_def)
qed

lemma phase_index_eq:
  "phase_index p = (if p = PhaseIntentReceived then 0 else if p = PhaseLLMProcessing then 1
     else if p = PhaseResourcePlanning then 2 else if p = PhaseManifestGeneration then 3
     else if p = PhaseGitOpsCommit then 4 else if p = PhaseDeploymentVerification then 5
     else if p = PhaseCompleted then 6 else - 1)"
  by (auto simp: phase_index_def phaseOrder_def phase_defs)

subsection \<open>A Kubernetes for the witnesses\<close>

text \<open>Objects in a map, with the check of the resource version that guards concurrent updates.\<close>

type_synonym kmap = "(string, NetworkIntent) fmap"

definition map_Get :: "kmap \<Rightarrow> NamespacedName \<Rightarrow> kube_error + NetworkIntent" where
  "map_Get k n =
     (case fmlookup k (nn_Namespace n @ ''/'' @ nn_Name n) of
        None \<Rightarrow> Inl ''not found''
      | Some i \<Rightarrow> if valid_name (nn_Namespace n) (nn_Name n) \<and> ni_Namespace i = nn_Namespace n \<and> ni_Name i = nn_Name n then Inr i
                  else Inl ''not found'')"

definition map_StatusUpdate :: "kmap \<Rightarrow> NetworkIntent \<Rightarrow> kube_error option \<times> kmap" where
  "map_StatusUpdate k i =
     (case map_Get k \<lparr>nn_Namespace = ni_Namespace i, nn_Name = ni_Name i\<rparr> of
        Inl e \<Rightarrow> (Some e, k)
      | Inr j \<Rightarrow>
          if ni_ResourceVersion j \<noteq> ni_ResourceVersion i then (Some ''conflict'', k)
          else (None, fmupd (ni_Namespace i @ ''/'' @ ni_Name i)
            (j\<lparr>ni_Status_Phase := ni_Status_Phase i, ni_Status_LastUpdateTime := ni_Status_LastUpdateTime i,
               ni_Status_LastMessage := ni_Status_LastMessage i, ni_ResourceVersion := ni_ResourceVersion i @ ''0''\<rparr>) k))"

fun api_phase :: "NetworkIntentPhase \<Rightarrow> string" where
  "api_phase NetworkIntentPhasePending = ''Pending''"
| "api_phase NetworkIntentPhaseProcessing = ''Processing''"
| "api_phase NetworkIntentPhaseDeploying = ''Deploying''"
| "api_phase NetworkIntentPhaseActive = ''Active''"
| "api_phase NetworkIntentPhaseReady = ''Ready''"
| "api_phase NetworkIntentPhaseDeployed = ''Deployed''"
| "api_phase NetworkIntentPhaseFailed = ''Failed''"

definition map_kube :: "(kmap, unit) Kube" where
  "map_kube = \<lparr>kb_String = (\<lambda>n. nn_Namespace n @ ''/'' @ nn_Name n), kb_phase = api_phase, kb_Get = map_Get,
     kb_List = (\<lambda>k ns sel. Inl ''not supported''), kb_StatusUpdate = map_StatusUpdate\<rparr>"

lemma map_kube_ok:
  "kube_names map_kube" "kube_get map_kube" "kube_update map_kube" "kube_phases map_kube"
proof -
  show "kube_names map_kube" "kube_get map_kube" "kube_phases map_kube"
    by (auto simp: kube_names_def kube_get_def kube_phases_def map_kube_def map_Get_def
        split: option.splits if_splits)
  have "\<exists>j. map_Get k' \<lparr>nn_Namespace = ni_Namespace i, nn_Name = ni_Name i\<rparr> = Inr j
        \<and> ni_Status_Phase j = ni_Status_Phase i \<and> ni_Status_LastUpdateTime j = ni_Status_LastUpdateTime i
        \<and> ni_Status_LastMessage j = ni_Status_LastMessage i"
    if "map_StatusUpdate k i = (None, k')" for k i k'
    using that by (auto simp: map_StatusUpdate_def map_Get_def split: option.splits if_splits)
  then show "kube_update map_kube" by (simp add: kube_update_def map_kube_def)
qed

definition sample_name :: NamespacedName where
  "sample_name = \<lparr>nn_Namespace = ''default'', nn_Name = ''a''\<rparr>"

definition sample_intent :: "string \<Rightarrow> NetworkIntent" where
  "sample_intent phase = \<lparr>ni_Namespace = ''default'', ni_Name = ''a'', ni_CreationTimestamp = 1, ni_ResourceVersion = ''7'',
     ni_Annotations = None, ni_Status_Phase = phase, ni_Status_LastUpdateTime = 2, ni_Status_LastMessage = []\<rparr>"

definition sample_sm :: "string \<Rightarrow> kmap StateManager" where
  "sample_sm phase = NewStateManager (fmupd ''default/a'' (sample_intent phase) fmempty)
     (\<lambda>_. convertToIntentState 0 (sample_intent phase))
     (\<lambda>_. \<lparr>ce_Key = [], ce_Value = 0, ce_ExpiresAt = 0, ce_AccessCount = 0, ce_LastAccess = 0, ce_CreatedAt = 0, ce_Size = 0\<rparr>)
     True"

definition sample_env :: "time \<Rightarrow> 'k sm_env" where
  "sample_env t = \<lparr>se_lock = (\<lambda>_. quiet_env), se_clock = (\<lambda>_. t), se_others = (\<lambda>_ sm. sm)\<rparr>"

lemma sample_env_simps [simp]:
  "quiet (sample_env t)" "env_ok K (sample_env t)" "se_clock (sample_env t) c = t"
  "ae_before (se_lock (sample_env t) i) = (\<lambda>lm. lm)"
  by (simp_all add: quiet_def env_ok_def sample_env_def quiet_env_def)

lemma sample_sm_simps [simp]:
  "sm_reach map_kube (sample_sm p)" "sm_inv map_kube (sample_sm p)" "lm_locks (sm_stateLocks (sample_sm p)) = fmempty"
  "cached_at map_kube (sample_sm p) n = None" "sm_config (sample_sm p) = DefaultStateManagerConfig"
  "kb_Get map_kube (sm_cluster (sample_sm p)) sample_name = Inr (sample_intent p)"
proof -
  show "sm_reach map_kube (sample_sm p)" "sm_inv map_kube (sample_sm p)"
    unfolding sample_sm_def by (rule sm_reach.start, rule NewStateManager_inv)
qed (simp_all add: sample_sm_def NewStateManager_def NewLockManager_def Let_def cached_at_def NewStateCache_def
    cache_abs_def map_kube_def map_Get_def valid_name_def sample_name_def sample_intent_def)

lemma sample_current: "current map_kube (sample_env t) (sample_sm p) sample_name = Inr (convertToIntentState t (sample_intent p))"
  by (simp add: current_def fetched_def)

section \<open>Properties\<close>





text \<open>C8: A phase transition that reports an error after the state was found is visible all the same: until
  the cache entry expires every reader is told that the intent is in the new phase, although the
  update was refused and no event was published.\<close>

theorem failed_transition_visible:
  assumes "sm_inv K sm" and "quiet env" and "kube_get K"
    and "fmlookup (lm_locks (sm_stateLocks sm)) (kb_String K n) = None" and "ae_before (se_lock env 0) = (\<lambda>lm. lm)"
    and "current K env sm n = Inr s" and "SM_TransitionPhase K env t1 t2 sm n p m = Some (Some err, sm')"
  shows "\<exists>s' x. is_CurrentPhase s' = p \<and> cached_state K sm' n = Some (s', x)
    \<and> (\<forall>env'. se_clock env' CacheExpiry \<le> x \<longrightarrow> current K env' sm' n = Inr s')
    \<and> map_option length (sm_eventBus sm') = map_option length (sm_eventBus sm)"
proof -
  let ?f = "\<lambda>s. (None :: string option, transition_state t1 t2 p m s)"
  let ?spec = "update_spec K (smc_StateValidationEnabled (sm_config sm)) (se_clock env Modified) n ?f (sm_cluster sm) (Inr s)"
  from UpdateIntentState_quiet [OF assms(1-5), of ?f] assms(6,7) obtain lm where
    ref: "refines_update K (sm\<lparr>sm_stateLocks := lm\<rparr>) n ?spec (Some err) (sm'\<lparr>sm_stateLocks := lm\<rparr>)"
    by (auto simp: SM_TransitionPhase_def)
  have "\<exists>s'. snd (snd ?spec) = Some s' \<and> is_CurrentPhase s' = p"
    by (simp add: update_spec_def split: option.splits sum.splits prod.splits)
  then obtain s' where s': "snd (snd ?spec) = Some s'" "is_CurrentPhase s' = p" by blast
  with ref have "map_option fst (cached_state K sm' n) = Some s'"
    by (simp add: refines_update_def locks_frame)
  then obtain x where x: "cached_state K sm' n = Some (s', x)" by auto
  moreover have "map_option length (sm_eventBus sm') = map_option length (sm_eventBus sm)"
    using ref by (simp add: refines_update_def)
  ultimately show ?thesis using s'(2) current_cached [OF x] by blast
qed

definition gone_sm :: "kmap StateManager" where
  "gone_sm = (case GetIntentState map_kube (sample_env 5) (sample_sm ''IntentReceived'') sample_name of
     Some (_, sm) \<Rightarrow> sm\<lparr>sm_cluster := fmempty\<rparr>)"

lemma gone_sm_reach: "sm_reach map_kube gone_sm"
proof -
  obtain r sm' where g: "GetIntentState map_kube (sample_env 5) (sample_sm ''IntentReceived'') sample_name = Some (r, sm')"
    using GetIntentState_ok [OF sample_sm_simps(2) sample_env_simps(2) map_kube_ok(2)] by blast
  have "sm_reach map_kube sm'"
    by (rule sm_reach.step [OF sample_sm_simps(1) sm_step.step_get [OF sample_env_simps(2) g]])
  with g show ?thesis unfolding gone_sm_def by (auto intro: sm_reach.step [OF _ sm_step.step_cluster])
qed

theorem failed_transition_visible_witness:
  "\<exists>sm' s'. SM_TransitionPhase map_kube (sample_env 6) 6 6 gone_sm sample_name ''LLMProcessing'' None
       = Some (Some (KubernetesUpdateFailed ''not found''), sm')
     \<and> current map_kube (sample_env 7) sm' sample_name = Inr s' \<and> is_CurrentPhase s' = ''LLMProcessing''"
proof -
  let ?T = "SM_TransitionPhase map_kube (sample_env 6) 6 6 gone_sm sample_name ''LLMProcessing'' None"
  have inv: "sm_inv map_kube gone_sm" by (rule sm_reach_inv [OF map_kube_ok(2) gone_sm_reach])
  have e: "map_option fst ?T = Some (Some (KubernetesUpdateFailed ''not found''))" by code_simp
  then obtain sm' where t: "?T = Some (Some (KubernetesUpdateFailed ''not found''), sm')" by auto
  have x: "map_option (\<lambda>(r, sm). map_option snd (cached_state map_kube sm sample_name)) ?T = Some (Some (5 + 30 * Minute))"
    by code_simp
  have free: "fmlookup (lm_locks (sm_stateLocks gone_sm)) (kb_String map_kube sample_name) = None" by code_simp
  have "map_sum (\<lambda>_. ()) (\<lambda>_. ()) (current map_kube (sample_env 6) gone_sm sample_name) = Inr ()" by code_simp
  then obtain s where s: "current map_kube (sample_env 6) gone_sm sample_name = Inr s"
    by (cases "current map_kube (sample_env 6) gone_sm sample_name") auto
  from failed_transition_visible [OF inv _ map_kube_ok(2) free _ s t] obtain s' y where
    y: "is_CurrentPhase s' = ''LLMProcessing''" "cached_state map_kube sm' sample_name = Some (s', y)"
      "\<And>env'. se_clock env' CacheExpiry \<le> y \<Longrightarrow> current map_kube env' sm' sample_name = Inr s'" by auto
  have "y = 5 + 30 * Minute" using x t y(2) by simp
  then show ?thesis using t y(1) y(3) [of "sample_env 7"] by (auto simp: Minute_def Second_def)
qed

text \<open>\<open>CheckDependencies\<close> never finds a dependency: whatever the dependencies of an intent are and however
  far the other intents have got, each of them is reported as not found, so an intent is free of
  unmet dependencies only when it has none.\<close>

theorem dependencies_never_found:
  assumes "kube_names K" and "kube_get K" and "sm_reach K sm" and "\<And>i. env_ok K (env i)"
    and "CheckDependencies K env sm n = Some (Inr (ok, unsat), sm')"
  shows "\<exists>a sm1. GetIntentState K (env 0) sm n = Some (Inr a, sm1)
    \<and> unsat = map (\<lambda>d. DependencyNotFound (id_Intent d)) (is_Dependencies (sm_states sm1 a))
    \<and> (ok \<longleftrightarrow> is_Dependencies (sm_states sm1 a) = [])"
proof -
  note inv = sm_reach_inv [OF assms(2,3)]
  obtain r sm1 where g: "GetIntentState K (env 0) sm n = Some (r, sm1)" "get_post K sm n r sm1"
    using GetIntentState_ok [OF inv assms(4,2)] by blast
  then have "sm_inv K sm1" using inv by (simp add: get_post_def sm_rel_def)
  note fail = check_deps_fail [where env = env and i = 1 and acc = "[]", OF assms(1,2,4) this]
  show ?thesis
  proof (cases r)
    case (Inr a)
    obtain sm2 where "check_deps K env 1 (is_Dependencies (sm_states sm1 a)) sm1 []
        = Some ([] @ map (\<lambda>d. DependencyNotFound (id_Intent d)) (is_Dependencies (sm_states sm1 a)), sm2)"
      using fail by blast
    with Inr g(1) assms(5) show ?thesis by (auto simp: CheckDependencies_def)
  qed (use g(1) assms(5) in \<open>simp add: CheckDependencies_def\<close>)
qed

definition dep_sm :: "kmap StateManager" where
  "dep_sm = (case AddDependency map_kube (sample_env 5) 5 (sample_sm ''Completed'') sample_name sample_name of
     Some (_, sm) \<Rightarrow> sm)"

lemma dep_sm_reach: "sm_reach map_kube dep_sm"
proof -
  obtain e sm' where g: "AddDependency map_kube (sample_env 5) 5 (sample_sm ''Completed'') sample_name sample_name = Some (e, sm')"
    unfolding AddDependency_def
    using UpdateIntentState_ok [OF sample_sm_simps(2) sample_env_simps(2) map_kube_ok(2) own_updates_ok(4)] by blast
  have "sm_reach map_kube sm'"
    by (rule sm_reach.step [OF sample_sm_simps(1) sm_step.step_dependency [OF sample_env_simps(2) g]])
  with g show ?thesis by (simp add: dep_sm_def)
qed

text \<open>An intent that depends on itself and is completed: its dependency is not found.\<close>

theorem dependencies_never_found_witness:
  "\<exists>sm'. CheckDependencies map_kube (\<lambda>_. sample_env 6) dep_sm sample_name
     = Some (Inr (False, [DependencyNotFound ''default/a'']), sm')"
proof -
  let ?C = "CheckDependencies map_kube (\<lambda>_. sample_env 6) dep_sm sample_name"
  have "map_option (\<lambda>(r, _). isl r) ?C = Some False" by code_simp
  then obtain r sm' where "?C = Some (r, sm')" "\<not> isl r" by auto
  then obtain ok unsat where c: "?C = Some (Inr (ok, unsat), sm')" by (cases r) auto
  have d: "map_option (\<lambda>(r, sm). case r of Inl _ \<Rightarrow> [] | Inr a \<Rightarrow> map id_Intent (is_Dependencies (sm_states sm a)))
      (GetIntentState map_kube (sample_env 6) dep_sm sample_name) = Some [''default/a'']" by code_simp
  from dependencies_never_found [OF map_kube_ok(1,2) dep_sm_reach _ c] obtain a sm1 where
    g: "GetIntentState map_kube (sample_env 6) dep_sm sample_name = Some (Inr a, sm1)"
      "unsat = map (\<lambda>d. DependencyNotFound (id_Intent d)) (is_Dependencies (sm_states sm1 a))"
      "ok \<longleftrightarrow> is_Dependencies (sm_states sm1 a) = []" by auto
  with d have "map id_Intent (is_Dependencies (sm_states sm1 a)) = [''default/a'']" by simp
  with g c show ?thesis by auto
qed

text \<open>What a successful transition stores in the cluster is not what the manager reads back: once the cache
  entry is gone, the intent is loaded with the name of the API phase as its current phase, which is
  never the phase it was in, and without its history. (\<open>NetworkIntentPhaseToProcessingPhase\<close>, which
  would translate it back, is not called.)\<close>

theorem reload_loses_phase:
  assumes "sm_inv K sm" and "quiet env" and "kube_get K" and "kube_update K" and "kube_phases K"
    and "fmlookup (lm_locks (sm_stateLocks sm)) (kb_String K n) = None" and "ae_before (se_lock env 0) = (\<lambda>lm. lm)"
    and "SM_TransitionPhase K env t1 t2 sm n p m = Some (None, sm')" and "p \<in> set phaseOrder"
  shows "\<exists>s. fetched K env' sm' n = Inr s
    \<and> is_CurrentPhase s = kb_phase K (ProcessingPhaseToNetworkIntentPhase p) \<and> is_CurrentPhase s \<noteq> p
    \<and> is_PhaseTransitions s = []"
proof -
  let ?f = "\<lambda>s. (None :: string option, transition_state t1 t2 p m s)"
  from UpdateIntentState_quiet [OF assms(1-3,6,7), of ?f] assms(8) obtain lm where
    ref: "refines_update K (sm\<lparr>sm_stateLocks := lm\<rparr>) n (update_spec K (smc_StateValidationEnabled (sm_config sm))
        (se_clock env Modified) n ?f (sm_cluster sm) (current K env sm n)) None (sm'\<lparr>sm_stateLocks := lm\<rparr>)"
    by (auto simp: SM_TransitionPhase_def)
  then obtain s i where i: "kb_Get K (sm_cluster sm) n = Inr i"
    "kb_StatusUpdate K (sm_cluster sm) (status_of K i (updated (se_clock env Modified) (transition_state t1 t2 p m s)))
       = (None, sm_cluster sm')"
    by (auto simp: refines_update_def update_spec_def split: sum.splits option.splits prod.splits if_splits)
  moreover have "n = \<lparr>nn_Namespace = ni_Namespace i, nn_Name = ni_Name i\<rparr>"
    using i(1) assms(3) by (simp add: kube_get_def)
  ultimately obtain j where j: "kb_Get K (sm_cluster sm') n = Inr j"
    "ni_Status_Phase j = kb_phase K (ProcessingPhaseToNetworkIntentPhase p)"
    using assms(4) unfolding kube_update_def by (metis status_of_name transition_phase updated_phase)
  moreover have "kb_phase K (ProcessingPhaseToNetworkIntentPhase p) \<noteq> p"
    using assms(5,9) by (auto simp: kube_phases_def phaseOrder_def ProcessingPhaseToNetworkIntentPhase_def phase_defs)
  ultimately show ?thesis by (simp add: fetched_def convertToIntentState_def)
qed

theorem reload_loses_phase_witness:
  "\<exists>sm' s. SM_TransitionPhase map_kube (sample_env 5) 5 5 (sample_sm ''IntentReceived'') sample_name ''LLMProcessing'' None
       = Some (None, sm')
     \<and> fetched map_kube (sample_env 9) sm' sample_name = Inr s \<and> is_CurrentPhase s = ''Processing''"
proof -
  let ?T = "SM_TransitionPhase map_kube (sample_env 5) 5 5 (sample_sm ''IntentReceived'') sample_name ''LLMProcessing'' None"
  have "map_option fst ?T = Some None" by code_simp
  then obtain sm' where t: "?T = Some (None, sm')" by auto
  have p: "''LLMProcessing'' \<in> set phaseOrder" by code_simp
  have "ProcessingPhaseToNetworkIntentPhase ''LLMProcessing'' = NetworkIntentPhaseProcessing" by code_simp
  moreover have "kb_phase map_kube NetworkIntentPhaseProcessing = ''Processing''" by (simp add: map_kube_def)
  ultimately show ?thesis using reload_loses_phase [OF _ _ map_kube_ok(2-4) _ _ t p] t by auto
qed

end
