(* ===== verification/Coordination.thy ===== *)
theory Coordination
  imports State_Manager
begin

text \<open>
  The coordination manager (\<open>pkg/shared/coordination_manager.go\<close>): the table of phases, the choice of the
  next phase, the tasks it queues, the workers that execute them, the handling of errors, and the
  handlers of events. It runs on the models of the state manager and of the execution queue.
  Executors and error values come from outside and are arguments or fields; the environment of the
  calls to the state manager is a function of the number of the call. Logging, health checks (which
  only log) and the recovery manager are left out.
\<close>

section \<open>Model\<close>

record ErrorStrategy =
  st_Type :: string
  st_MaxRetries :: int
  st_RetryBackoff :: duration
  st_FallbackPhase :: string
  st_NotifyOnError :: bool

record CoordinationConfig =
  cfc_MaxConcurrentIntents :: int
  cfc_DefaultPhaseTimeout :: duration
  cfc_PhaseTransitionTimeout :: duration
  cfc_EnableParallelProcessing :: bool
  cfc_ParallelLimits :: "(ProcessingPhase, int) fmap"
  cfc_ParallelGroups :: "(string, ProcessingPhase list) fmap"
  cfc_MaxRetryAttempts :: int
  cfc_RetryBackoff :: duration
  cfc_ErrorStrategies :: "(ProcessingPhase, ErrorStrategy) fmap"
  cfc_HealthCheckInterval :: duration
  cfc_UnhealthyThreshold :: int
  cfc_WorkerPoolSize :: int
  cfc_QueueCapacity :: int
  cfc_BatchProcessing :: bool
  cfc_BatchSize :: int

definition DefaultCoordinationConfig :: CoordinationConfig where
  "DefaultCoordinationConfig =
     \<lparr>cfc_MaxConcurrentIntents = 100, cfc_DefaultPhaseTimeout = 5 * Minute,
      cfc_PhaseTransitionTimeout = 30 * Second, cfc_EnableParallelProcessing = True,
      cfc_ParallelLimits = fmap_of_list [(PhaseLLMProcessing, 10), (PhaseResourcePlanning, 20),
        (PhaseManifestGeneration, 15), (PhaseGitOpsCommit, 5), (PhaseDeploymentVerification, 10)],
      cfc_ParallelGroups = fmap_of_list [(''planning'', [PhaseResourcePlanning, PhaseManifestGeneration])],
      cfc_MaxRetryAttempts = 3, cfc_RetryBackoff = 2 * Second, cfc_ErrorStrategies = fmempty,
      cfc_HealthCheckInterval = 30 * Second, cfc_UnhealthyThreshold = 3, cfc_WorkerPoolSize = 10,
      cfc_QueueCapacity = 1000, cfc_BatchProcessing = False, cfc_BatchSize = 10\<rparr>"

text \<open>An executor may use the state manager; its error is a message.\<close>

record 'k PhaseExecutor =
  pe_Execute :: "NamespacedName \<Rightarrow> ProcessingPhase \<Rightarrow> json \<Rightarrow> 'k StateManager \<Rightarrow> string option \<times> 'k StateManager"
  pe_Validate :: "ProcessingPhase \<Rightarrow> json \<Rightarrow> string option"

text \<open>A timer that has been started is a number; \<open>cm_timers\<close> holds those that have neither fired nor been
  stopped, with the arguments of the function they will call.\<close>

record 'k CoordinationManager =
  cm_stateManager :: "'k StateManager"
  cm_dependencies :: "(ProcessingPhase, ProcessingPhase list) fmap"
  cm_transitions :: "(ProcessingPhase, ProcessingPhase list) fmap"
  cm_phaseExecutors :: "(ProcessingPhase, 'k PhaseExecutor) fmap"
  cm_executionQueue :: ExecutionQueue
  cm_nextTask :: addr
  cm_phaseTimeouts :: "(ProcessingPhase, duration) fmap"
  cm_activeTimeouts :: "(string, nat) fmap"
  cm_timers :: "(nat, string \<times> ProcessingPhase) fmap"
  cm_nextTimer :: nat
  cm_errorStrategies :: "(ProcessingPhase, ErrorStrategy) fmap"
  cm_config :: CoordinationConfig

subsection \<open>The tables\<close>

definition initializeDependencies :: "'k CoordinationManager \<Rightarrow> 'k CoordinationManager" where
  "initializeDependencies cm = cm\<lparr>cm_dependencies :=
     fmupd PhaseDeploymentVerification [PhaseGitOpsCommit] (fmupd PhaseGitOpsCommit [PhaseManifestGeneration]
       (fmupd PhaseManifestGeneration [PhaseResourcePlanning] (fmupd PhaseResourcePlanning [PhaseLLMProcessing]
         (fmupd PhaseLLMProcessing [] (cm_dependencies cm)))))\<rparr>"

definition initializeTransitions :: "'k CoordinationManager \<Rightarrow> 'k CoordinationManager" where
  "initializeTransitions cm = cm\<lparr>cm_transitions :=
     fmupd PhaseFailed [] (fmupd PhaseCompleted []
       (fmupd PhaseDeploymentVerification [PhaseCompleted, PhaseFailed]
         (fmupd PhaseGitOpsCommit [PhaseDeploymentVerification, PhaseFailed]
           (fmupd PhaseManifestGeneration [PhaseGitOpsCommit, PhaseFailed]
             (fmupd PhaseResourcePlanning [PhaseManifestGeneration, PhaseFailed]
               (fmupd PhaseLLMProcessing [PhaseResourcePlanning, PhaseFailed]
                 (fmupd PhaseIntentReceived [PhaseLLMProcessing] (cm_transitions cm))))))))\<rparr>"

definition initializeTimeouts :: "'k CoordinationManager \<Rightarrow> 'k CoordinationManager" where
  "initializeTimeouts cm = cm\<lparr>cm_phaseTimeouts :=
     fmupd PhaseDeploymentVerification (5 * Minute) (fmupd PhaseGitOpsCommit (1 * Minute)
       (fmupd PhaseManifestGeneration (30 * Second) (fmupd PhaseResourcePlanning (1 * Minute)
         (fmupd PhaseLLMProcessing (2 * Minute) (cm_phaseTimeouts cm)))))\<rparr>"

definition defaultStrategy :: ErrorStrategy where
  "defaultStrategy = \<lparr>st_Type = ''retry'', st_MaxRetries = 3, st_RetryBackoff = 2 * Second, st_FallbackPhase = [],
     st_NotifyOnError = True\<rparr>"

definition initializeErrorStrategies :: "'k CoordinationManager \<Rightarrow> 'k CoordinationManager" where
  "initializeErrorStrategies cm = cm\<lparr>cm_errorStrategies :=
     fold (\<lambda>phase m. if fmlookup m phase = None then fmupd phase defaultStrategy m else m)
       [PhaseLLMProcessing, PhaseResourcePlanning, PhaseManifestGeneration, PhaseGitOpsCommit,
        PhaseDeploymentVerification] (cm_errorStrategies cm)\<rparr>"

definition NewCoordinationManager ::
    "'k StateManager \<Rightarrow> task_mem \<Rightarrow> CoordinationConfig option \<Rightarrow> 'k CoordinationManager outcome" where
  "NewCoordinationManager sm mem config0 =
     (let config = (case config0 of None \<Rightarrow> DefaultCoordinationConfig | Some c \<Rightarrow> c)
      in case NewExecutionQueue mem (cfc_QueueCapacity config) of
           Panic msg \<Rightarrow> Panic msg
         | Ret q \<Rightarrow> Ret (initializeErrorStrategies (initializeTimeouts (initializeTransitions (initializeDependencies
             \<lparr>cm_stateManager = sm, cm_dependencies = fmempty, cm_transitions = fmempty, cm_phaseExecutors = fmempty,
              cm_executionQueue = q, cm_nextTask = 0, cm_phaseTimeouts = fmempty, cm_activeTimeouts = fmempty,
              cm_timers = fmempty, cm_nextTimer = 0, cm_errorStrategies = cfc_ErrorStrategies config,
              cm_config = config\<rparr>)))))"

definition RegisterPhaseExecutor ::
    "'k CoordinationManager \<Rightarrow> ProcessingPhase \<Rightarrow> 'k PhaseExecutor \<Rightarrow> 'k CoordinationManager" where
  "RegisterPhaseExecutor cm phase executor =
     cm\<lparr>cm_phaseExecutors := fmupd phase executor (cm_phaseExecutors cm)\<rparr>"

subsection \<open>Choosing and validating phases\<close>

definition determineNextPhase :: "'k CoordinationManager \<Rightarrow> IntentState \<Rightarrow> ProcessingPhase" where
  "determineNextPhase cm s =
     (if is_CurrentPhase s = PhaseCompleted \<or> is_CurrentPhase s = PhaseFailed then []
      else case fmlookup (cm_transitions cm) (is_CurrentPhase s) of
             None \<Rightarrow> PhaseFailed
           | Some [] \<Rightarrow> PhaseFailed
           | Some (p # ps) \<Rightarrow> p)"

definition isValidTransition :: "'k CoordinationManager \<Rightarrow> ProcessingPhase \<Rightarrow> ProcessingPhase \<Rightarrow> bool" where
  "isValidTransition cm from to =
     (case fmlookup (cm_transitions cm) from of None \<Rightarrow> False | Some ps \<Rightarrow> list_ex (\<lambda>p. p = to) ps)"

definition getNextPhase :: "'k CoordinationManager \<Rightarrow> ProcessingPhase \<Rightarrow> ProcessingPhase" where
  "getNextPhase cm p = (case fmlookup (cm_transitions cm) p of Some (q # qs) \<Rightarrow> q | _ \<Rightarrow> [])"

definition phase_condition_met :: "IntentState \<Rightarrow> ProcessingPhase \<Rightarrow> bool" where
  "phase_condition_met s phase = list_ex (\<lambda>c. co_Type c = phase \<and> co_Status c = ''True'') (is_Conditions s)"

text \<open>\<open>d.Minutes()\<close> in \<open>float64\<close>, then truncation to an integer.\<close>

definition quot :: "int \<Rightarrow> int \<Rightarrow> int" where
  "quot a b = sgn a * (\<bar>a\<bar> div b)"

definition duration_Minutes :: "duration \<Rightarrow> rat" where
  "duration_Minutes d =
     f64_round (of_int (quot d Minute) + f64_div_ints (d - quot d Minute * Minute) (60 * 1000000000))"

definition f64_to_int :: "rat \<Rightarrow> int" where
  "f64_to_int x = (if 0 \<le> x then \<lfloor>x\<rfloor> else \<lceil>x\<rceil>)"

definition calculatePriority :: "time \<Rightarrow> IntentState \<Rightarrow> int" where
  "calculatePriority now s =
     wrap64 (f64_to_int (duration_Minutes (time_Sub now (is_CreationTime s))) + wrap64 (is_RetryCount s * 10))"

definition getPhaseTimeout :: "'k CoordinationManager \<Rightarrow> ProcessingPhase \<Rightarrow> duration" where
  "getPhaseTimeout cm phase =
     (case fmlookup (cm_phaseTimeouts cm) phase of Some t \<Rightarrow> t | None \<Rightarrow> cfc_DefaultPhaseTimeout (cm_config cm))"

datatype cm_error =
    CM_GetState sm_error
  | CM_Enqueue queue_error
  | CM_InvalidTransition ProcessingPhase ProcessingPhase
  | CM_DependencyNotSatisfied ProcessingPhase
  | CM_NotMet cm_error
  | CM_State sm_error
  | CM_NoExecutor ProcessingPhase
  | CM_GetPhaseData sm_error
  | CM_Validation string
  | CM_Execution string

definition set_sm :: "'k CoordinationManager \<Rightarrow> 'k StateManager \<Rightarrow> 'k CoordinationManager" where
  "set_sm cm sm = cm\<lparr>cm_stateManager := sm\<rparr>"

text \<open>A call to the state manager whose error is passed on.\<close>

definition sm_call ::
    "'k CoordinationManager \<Rightarrow> (sm_error option \<times> 'k StateManager) option
       \<Rightarrow> (cm_error option \<times> 'k CoordinationManager) option" where
  "sm_call cm r = map_option (\<lambda>(e, sm). (map_option CM_State e, set_sm cm sm)) r"

subsection \<open>Queueing an intent\<close>

text \<open>A new task is allocated and enqueued. The clock readings of \<open>ProcessIntent\<close> are the age of the intent
  and the time stamp of the task.\<close>

definition submit_task ::
    "'k CoordinationManager \<Rightarrow> ExecutionTask \<Rightarrow> cm_error option \<times> 'k CoordinationManager" where
  "submit_task cm task =
     (let q = cm_executionQueue cm; addr = cm_nextTask cm;
          (err, q1) = Enqueue (q\<lparr>eq_mem := (eq_mem q)(addr := task)\<rparr>) addr
      in (map_option CM_Enqueue err, cm\<lparr>cm_executionQueue := q1, cm_nextTask := Suc addr\<rparr>))"

definition ProcessIntent ::
    "('k, 'o) Kube \<Rightarrow> 'k sm_env \<Rightarrow> time \<Rightarrow> time \<Rightarrow> 'k CoordinationManager \<Rightarrow> NamespacedName
       \<Rightarrow> (cm_error option \<times> 'k CoordinationManager) option" where
  "ProcessIntent K env t1 t2 cm n =
     (case GetIntentState K env (cm_stateManager cm) n of
        None \<Rightarrow> None
      | Some (Inl err, sm) \<Rightarrow> Some (Some (CM_GetState err), set_sm cm sm)
      | Some (Inr a, sm) \<Rightarrow>
          let s = sm_states sm a; nextPhase = determineNextPhase cm s; cm1 = set_sm cm sm
          in if nextPhase = [] then Some (None, cm1)
             else Some (submit_task cm1
                    \<lparr>et_IntentName = n, et_Phase = nextPhase, et_Priority = calculatePriority t1 s,
                     et_Timestamp = t2, et_Context = Some (Raw (Json_object fmempty)), et_RetryCount = 0,
                     et_MaxRetries = 0, et_Dependencies = [], et_index = 0\<rparr>))"

subsection \<open>Transitions\<close>

definition checkPhaseDependencies ::
    "('k, 'o) Kube \<Rightarrow> 'k sm_env \<Rightarrow> 'k CoordinationManager \<Rightarrow> NamespacedName \<Rightarrow> ProcessingPhase
       \<Rightarrow> (cm_error option \<times> 'k CoordinationManager) option" where
  "checkPhaseDependencies K env cm n phase =
     (let dependencies = (case fmlookup (cm_dependencies cm) phase of None \<Rightarrow> [] | Some ds \<Rightarrow> ds)
      in if dependencies = [] then Some (None, cm)
         else case GetIntentState K env (cm_stateManager cm) n of
                None \<Rightarrow> None
              | Some (Inl err, sm) \<Rightarrow> Some (Some (CM_State err), set_sm cm sm)
              | Some (Inr a, sm) \<Rightarrow>
                  Some (map_option CM_DependencyNotSatisfied
                          (List.find (\<lambda>d. \<not> phase_condition_met (sm_states sm a) d) dependencies), set_sm cm sm))"

definition executePhaseTransition ::
    "('k, 'o) Kube \<Rightarrow> 'k sm_env \<Rightarrow> time \<Rightarrow> time \<Rightarrow> 'k CoordinationManager \<Rightarrow> NamespacedName \<Rightarrow> ProcessingPhase
       \<Rightarrow> (cm_error option \<times> 'k CoordinationManager) option" where
  "executePhaseTransition K env t1 t2 cm n toPhase =
     sm_call cm (SM_TransitionPhase K env t1 t2 (cm_stateManager cm) n toPhase (Some fmempty))"

definition CM_TransitionPhase ::
    "('k, 'o) Kube \<Rightarrow> (nat \<Rightarrow> 'k sm_env) \<Rightarrow> time \<Rightarrow> time \<Rightarrow> 'k CoordinationManager \<Rightarrow> NamespacedName
       \<Rightarrow> ProcessingPhase \<Rightarrow> ProcessingPhase \<Rightarrow> (cm_error option \<times> 'k CoordinationManager) option" where
  "CM_TransitionPhase K env t1 t2 cm n fromPhase toPhase =
     (if \<not> isValidTransition cm fromPhase toPhase then Some (Some (CM_InvalidTransition fromPhase toPhase), cm)
      else case checkPhaseDependencies K (env 0) cm n toPhase of
             None \<Rightarrow> None
           | Some (Some err, cm1) \<Rightarrow> Some (Some (CM_NotMet err), cm1)
           | Some (None, cm1) \<Rightarrow> executePhaseTransition K (env 1) t1 t2 cm1 n toPhase)"

subsection \<open>Errors\<close>

definition failIntent ::
    "('k, 'o) Kube \<Rightarrow> 'k sm_env \<Rightarrow> time \<Rightarrow> time \<Rightarrow> 'k CoordinationManager \<Rightarrow> NamespacedName
       \<Rightarrow> (cm_error option \<times> 'k CoordinationManager) option" where
  "failIntent K env t1 t2 cm n =
     sm_call cm (SM_TransitionPhase K env t1 t2 (cm_stateManager cm) n PhaseFailed (Some fmempty))"

definition rollbackIntent ::
    "('k, 'o) Kube \<Rightarrow> 'k sm_env \<Rightarrow> time \<Rightarrow> time \<Rightarrow> 'k CoordinationManager \<Rightarrow> NamespacedName
       \<Rightarrow> (cm_error option \<times> 'k CoordinationManager) option" where
  "rollbackIntent K env t1 t2 cm n =
     sm_call cm (SM_TransitionPhase K env t1 t2 (cm_stateManager cm) n PhaseFailed (Some fmempty))"

definition skipPhase ::
    "('k, 'o) Kube \<Rightarrow> 'k sm_env \<Rightarrow> time \<Rightarrow> time \<Rightarrow> 'k CoordinationManager \<Rightarrow> NamespacedName \<Rightarrow> ProcessingPhase
       \<Rightarrow> (cm_error option \<times> 'k CoordinationManager) option" where
  "skipPhase K env t1 t2 cm n phase =
     (let nextPhase = getNextPhase cm phase
      in if nextPhase = [] then failIntent K env t1 t2 cm n
         else sm_call cm (SM_TransitionPhase K env t1 t2 (cm_stateManager cm) n nextPhase (Some fmempty)))"

definition retryPhase ::
    "('k, 'o) Kube \<Rightarrow> (nat \<Rightarrow> 'k sm_env) \<Rightarrow> time \<Rightarrow> time \<Rightarrow> 'k CoordinationManager \<Rightarrow> NamespacedName
       \<Rightarrow> ErrorStrategy \<Rightarrow> (cm_error option \<times> 'k CoordinationManager) option" where
  "retryPhase K env t1 t2 cm n strategy =
     (case GetIntentState K (env 0) (cm_stateManager cm) n of
        None \<Rightarrow> None
      | Some (Inl err, sm) \<Rightarrow> Some (Some (CM_State err), set_sm cm sm)
      | Some (Inr a, sm) \<Rightarrow>
          if is_RetryCount (sm_states sm a) \<ge> st_MaxRetries strategy then failIntent K (env 1) t1 t2 (set_sm cm sm) n
          else sm_call (set_sm cm sm) (UpdateIntentState K (env 1) sm n
                 (\<lambda>s. (None, s\<lparr>is_RetryCount := inc64 (is_RetryCount s)\<rparr>))))"

text \<open>The strategy of a phase that has none is the zero value, whose type is the empty string.\<close>

definition zeroStrategy :: ErrorStrategy where
  "zeroStrategy = \<lparr>st_Type = [], st_MaxRetries = 0, st_RetryBackoff = 0, st_FallbackPhase = [], st_NotifyOnError = False\<rparr>"

definition strategy_of :: "'k CoordinationManager \<Rightarrow> ProcessingPhase \<Rightarrow> ErrorStrategy" where
  "strategy_of cm phase = (case fmlookup (cm_errorStrategies cm) phase of None \<Rightarrow> zeroStrategy | Some s \<Rightarrow> s)"

definition handlePhaseError ::
    "('k, 'o) Kube \<Rightarrow> (nat \<Rightarrow> 'k sm_env) \<Rightarrow> time \<Rightarrow> time \<Rightarrow> 'k CoordinationManager \<Rightarrow> NamespacedName
       \<Rightarrow> ProcessingPhase \<Rightarrow> ErrorStrategy \<Rightarrow> (cm_error option \<times> 'k CoordinationManager) option" where
  "handlePhaseError K env t1 t2 cm n phase strategy =
     (if st_Type strategy = ''retry'' then retryPhase K env t1 t2 cm n strategy
      else if st_Type strategy = ''skip'' then skipPhase K (env 0) t1 t2 cm n phase
      else if st_Type strategy = ''fail'' then failIntent K (env 0) t1 t2 cm n
      else if st_Type strategy = ''rollback'' then rollbackIntent K (env 0) t1 t2 cm n
      else failIntent K (env 0) t1 t2 cm n)"

subsection \<open>Executing tasks\<close>

definition executePhase ::
    "('k, 'o) Kube \<Rightarrow> (nat \<Rightarrow> 'k sm_env) \<Rightarrow> time \<Rightarrow> time \<Rightarrow> 'k CoordinationManager \<Rightarrow> NamespacedName
       \<Rightarrow> ProcessingPhase \<Rightarrow> (cm_error option \<times> 'k CoordinationManager) option" where
  "executePhase K env t1 t2 cm n phase =
     (case fmlookup (cm_phaseExecutors cm) phase of
        None \<Rightarrow> Some (Some (CM_NoExecutor phase), cm)
      | Some executor \<Rightarrow>
          (case GetPhaseData K (env 0) (cm_stateManager cm) n phase of
             None \<Rightarrow> None
           | Some (Inl err, sm) \<Rightarrow> Some (Some (CM_GetPhaseData err), set_sm cm sm)
           | Some (Inr data, sm) \<Rightarrow>
               (case pe_Validate executor phase data of
                  Some e \<Rightarrow> Some (Some (CM_Validation e), set_sm cm sm)
                | None \<Rightarrow>
                    (case pe_Execute executor n phase data sm of
                       (Some e, sm1) \<Rightarrow> Some (Some (CM_Execution e), set_sm cm sm1)
                     | (None, sm1) \<Rightarrow>
                         let nextPhase = getNextPhase cm phase
                         in if nextPhase \<noteq> []
                            then sm_call cm (SM_TransitionPhase K (env 1) t1 t2 sm1 n nextPhase (Some fmempty))
                            else Some (None, set_sm cm sm1)))))"

definition setupPhaseTimeout :: "'k CoordinationManager \<Rightarrow> string \<Rightarrow> ProcessingPhase \<Rightarrow> 'k CoordinationManager" where
  "setupPhaseTimeout cm intentID phase =
     (let timer = cm_nextTimer cm
      in cm\<lparr>cm_nextTimer := Suc timer, cm_timers := fmupd timer (intentID, phase) (cm_timers cm),
            cm_activeTimeouts := fmupd intentID timer (cm_activeTimeouts cm)\<rparr>)"

definition cancelPhaseTimeout :: "'k CoordinationManager \<Rightarrow> string \<Rightarrow> 'k CoordinationManager" where
  "cancelPhaseTimeout cm intentID =
     (case fmlookup (cm_activeTimeouts cm) intentID of
        None \<Rightarrow> cm
      | Some timer \<Rightarrow> cm\<lparr>cm_timers := fmdrop timer (cm_timers cm),
                        cm_activeTimeouts := fmdrop intentID (cm_activeTimeouts cm)\<rparr>)"

text \<open>The error that \<open>handlePhaseError\<close> returns is dropped.\<close>

definition executeTask ::
    "('k, 'o) Kube \<Rightarrow> (nat \<Rightarrow> 'k sm_env) \<Rightarrow> (nat \<Rightarrow> 'k sm_env) \<Rightarrow> time \<Rightarrow> time \<Rightarrow> 'k CoordinationManager \<Rightarrow> addr
       \<Rightarrow> 'k CoordinationManager option" where
  "executeTask K env env' t1 t2 cm addr =
     (let task = eq_mem (cm_executionQueue cm) addr;
          n = et_IntentName task; phase = et_Phase task;
          cm1 = setupPhaseTimeout cm (kb_String K n) phase
      in case executePhase K env t1 t2 cm1 n phase of
           None \<Rightarrow> None
         | Some (err, cm2) \<Rightarrow>
             let cm3 = cancelPhaseTimeout cm2 (kb_String K n)
             in (case err of
                   None \<Rightarrow> Some cm3
                 | Some _ \<Rightarrow> map_option snd (handlePhaseError K env' t1 t2 cm3 n phase (strategy_of cm3 phase))))"

text \<open>One turn of a worker: nothing when the channel is empty.\<close>

definition worker_step ::
    "('k, 'o) Kube \<Rightarrow> (nat \<Rightarrow> 'k sm_env) \<Rightarrow> (nat \<Rightarrow> 'k sm_env) \<Rightarrow> time \<Rightarrow> time \<Rightarrow> 'k CoordinationManager
       \<Rightarrow> 'k CoordinationManager option" where
  "worker_step K env env' t1 t2 cm =
     (case receive_task (cm_executionQueue cm) of
        None \<Rightarrow> Some cm
      | Some (addr, q) \<Rightarrow> executeTask K env env' t1 t2 (cm\<lparr>cm_executionQueue := q\<rparr>) addr)"

subsection \<open>Events\<close>

record ProcessingEvent =
  pv_Type :: string
  pv_Source :: string
  pv_IntentID :: string
  pv_Phase :: string
  pv_Success :: bool

text \<open>\<open>PublishStateChange\<close> of the event bus: the event that its subscribers get.\<close>

definition processing_event :: "('k, 'o) Kube \<Rightarrow> StateChangeEvent \<Rightarrow> ProcessingEvent" where
  "processing_event K e =
     \<lparr>pv_Type = ''state.changed'', pv_Source = ''state-manager'', pv_IntentID = kb_String K (sce_IntentName e),
      pv_Phase = sce_NewPhase e, pv_Success = True\<rparr>"

definition parseIntentName :: "string \<Rightarrow> NamespacedName" where
  "parseIntentName intentID = \<lparr>nn_Namespace = ''default'', nn_Name = intentID\<rparr>"

definition handleStateChangeEvent ::
    "('k, 'o) Kube \<Rightarrow> 'k sm_env \<Rightarrow> time \<Rightarrow> time \<Rightarrow> 'k CoordinationManager \<Rightarrow> ProcessingEvent
       \<Rightarrow> (cm_error option \<times> 'k CoordinationManager) option" where
  "handleStateChangeEvent K env t1 t2 cm event = ProcessIntent K env t1 t2 cm (parseIntentName (pv_IntentID event))"

definition handlePhaseCompletionEvent ::
    "('k, 'o) Kube \<Rightarrow> 'k sm_env \<Rightarrow> time \<Rightarrow> time \<Rightarrow> 'k CoordinationManager \<Rightarrow> ProcessingEvent
       \<Rightarrow> (cm_error option \<times> 'k CoordinationManager) option" where
  "handlePhaseCompletionEvent K env t1 t2 cm event =
     ProcessIntent K env t1 t2 (cancelPhaseTimeout cm (pv_IntentID event)) (parseIntentName (pv_IntentID event))"

definition handlePhaseErrorEvent ::
    "('k, 'o) Kube \<Rightarrow> (nat \<Rightarrow> 'k sm_env) \<Rightarrow> time \<Rightarrow> time \<Rightarrow> 'k CoordinationManager \<Rightarrow> ProcessingEvent
       \<Rightarrow> (cm_error option \<times> 'k CoordinationManager) option" where
  "handlePhaseErrorEvent K env t1 t2 cm event =
     (let cm1 = cancelPhaseTimeout cm (pv_IntentID event); phase = pv_Phase event
      in handlePhaseError K env t1 t2 cm1 (parseIntentName (pv_IntentID event)) phase (strategy_of cm1 phase))"

text \<open>A timer fires.\<close>

definition handlePhaseTimeout ::
    "('k, 'o) Kube \<Rightarrow> (nat \<Rightarrow> 'k sm_env) \<Rightarrow> time \<Rightarrow> time \<Rightarrow> 'k CoordinationManager \<Rightarrow> nat
       \<Rightarrow> 'k CoordinationManager option" where
  "handlePhaseTimeout K env t1 t2 cm timer =
     (case fmlookup (cm_timers cm) timer of
        None \<Rightarrow> Some cm
      | Some (intentID, phase) \<Rightarrow>
          let cm1 = cm\<lparr>cm_timers := fmdrop timer (cm_timers cm)\<rparr>
          in map_option snd (handlePhaseError K env t1 t2 cm1 (parseIntentName intentID) phase (strategy_of cm1 phase)))"

section \<open>Lemmas\<close>

subsection \<open>The table of phases\<close>

text \<open>The tables that the constructor builds; no operation changes them.\<close>

definition std_tables :: "'k CoordinationManager \<Rightarrow> bool" where
  "std_tables cm \<longleftrightarrow>
     (\<forall>p. fmlookup (cm_transitions cm) p =
        (if p = PhaseIntentReceived then Some [PhaseLLMProcessing]
         else if p = PhaseLLMProcessing then Some [PhaseResourcePlanning, PhaseFailed]
         else if p = PhaseResourcePlanning then Some [PhaseManifestGeneration, PhaseFailed]
         else if p = PhaseManifestGeneration then Some [PhaseGitOpsCommit, PhaseFailed]
         else if p = PhaseGitOpsCommit then Some [PhaseDeploymentVerification, PhaseFailed]
         else if p = PhaseDeploymentVerification then Some [PhaseCompleted, PhaseFailed]
         else if p = PhaseCompleted \<or> p = PhaseFailed then Some [] else None))
     \<and> (\<forall>p. fmlookup (cm_dependencies cm) p =
        (if p = PhaseLLMProcessing then Some []
         else if p = PhaseResourcePlanning then Some [PhaseLLMProcessing]
         else if p = PhaseManifestGeneration then Some [PhaseResourcePlanning]
         else if p = PhaseGitOpsCommit then Some [PhaseManifestGeneration]
         else if p = PhaseDeploymentVerification then Some [PhaseGitOpsCommit] else None))"

lemma phases_distinct:
  "distinct [PhaseIntentReceived, PhaseReceived, PhaseLLMProcessing, PhaseResourcePlanning, PhaseManifestGeneration,
     PhaseGitOpsCommit, PhaseDeploymentVerification, PhaseCompleted, PhaseFailed, [], ''Ready'']"
  "distinct [''Ready'', [], PhaseFailed, PhaseCompleted, PhaseDeploymentVerification, PhaseGitOpsCommit,
     PhaseManifestGeneration, PhaseResourcePlanning, PhaseLLMProcessing, PhaseReceived, PhaseIntentReceived]"
  by code_simp+

lemmas phase_neq [simp] = phases_distinct [simplified]

lemma New_std_tables: "NewCoordinationManager sm mem cfg = Ret cm \<Longrightarrow> std_tables cm"
  by (auto simp: NewCoordinationManager_def std_tables_def initializeDependencies_def initializeTransitions_def
      initializeTimeouts_def initializeErrorStrategies_def Let_def split: outcome.splits)

lemma std_transition:
  "std_tables cm \<Longrightarrow> fmlookup (cm_transitions cm) p =
     (if p = PhaseIntentReceived then Some [PhaseLLMProcessing]
      else if p = PhaseLLMProcessing then Some [PhaseResourcePlanning, PhaseFailed]
      else if p = PhaseResourcePlanning then Some [PhaseManifestGeneration, PhaseFailed]
      else if p = PhaseManifestGeneration then Some [PhaseGitOpsCommit, PhaseFailed]
      else if p = PhaseGitOpsCommit then Some [PhaseDeploymentVerification, PhaseFailed]
      else if p = PhaseDeploymentVerification then Some [PhaseCompleted, PhaseFailed]
      else if p = PhaseCompleted \<or> p = PhaseFailed then Some [] else None)"
  by (simp add: std_tables_def)

lemma std_dependencies:
  "std_tables cm \<Longrightarrow> p \<in> set [PhaseResourcePlanning, PhaseManifestGeneration, PhaseGitOpsCommit, PhaseDeploymentVerification] \<Longrightarrow>
     \<exists>d. fmlookup (cm_dependencies cm) p = Some [d] \<and> d \<noteq> ''Ready''"
  by (auto simp: std_tables_def)

text \<open>The six phases in the order of the state manager, and the seventh that none leaves.\<close>

lemma getNextPhase_order:
  "std_tables cm \<Longrightarrow> i < 6 \<Longrightarrow> getNextPhase cm (phaseOrder ! i) = phaseOrder ! Suc i"
  by (auto simp: getNextPhase_def std_transition phaseOrder_def less_Suc_eq numeral_eq_Suc)

lemma next_of_next:
  assumes "std_tables cm" "is_CurrentPhase s \<in> set [PhaseIntentReceived, PhaseLLMProcessing, PhaseResourcePlanning,
     PhaseManifestGeneration, PhaseGitOpsCommit]"
  shows "determineNextPhase cm s = getNextPhase cm (is_CurrentPhase s)" "getNextPhase cm (is_CurrentPhase s) \<noteq> []"
    "getNextPhase cm (getNextPhase cm (is_CurrentPhase s)) \<noteq> []"
  using assms by (auto simp: determineNextPhase_def getNextPhase_def std_transition)

subsection \<open>What the operations leave alone\<close>

definition same_tables :: "'k CoordinationManager \<Rightarrow> 'k CoordinationManager \<Rightarrow> bool" where
  "same_tables cm cm' \<longleftrightarrow> cm_transitions cm' = cm_transitions cm \<and> cm_dependencies cm' = cm_dependencies cm
     \<and> cm_phaseExecutors cm' = cm_phaseExecutors cm \<and> cm_errorStrategies cm' = cm_errorStrategies cm"

definition same_queue :: "'k CoordinationManager \<Rightarrow> 'k CoordinationManager \<Rightarrow> bool" where
  "same_queue cm cm' \<longleftrightarrow> same_tables cm cm' \<and> cm_executionQueue cm' = cm_executionQueue cm \<and> cm_nextTask cm' = cm_nextTask cm"

lemma same_queue_simps [simp]:
  "same_queue cm cm" "same_queue cm (set_sm cm' sm) = same_queue cm cm'" "same_queue (set_sm cm sm) cm' = same_queue cm cm'"
  "same_queue cm (cancelPhaseTimeout cm' i) = same_queue cm cm'" "same_queue cm (setupPhaseTimeout cm' i p) = same_queue cm cm'"
  "same_queue (cancelPhaseTimeout cm i) cm' = same_queue cm cm'" "same_queue (setupPhaseTimeout cm i p) cm' = same_queue cm cm'"
  by (simp_all add: same_queue_def same_tables_def set_sm_def cancelPhaseTimeout_def setupPhaseTimeout_def Let_def
      split: option.splits)

lemma same_queue_trans: "same_queue cm cm' \<Longrightarrow> same_queue cm' cm'' \<Longrightarrow> same_queue cm cm''"
  by (simp add: same_queue_def same_tables_def)

lemma sm_call_queue: "sm_call cm r = Some (e, cm') \<Longrightarrow> same_queue cm cm'"
  by (auto simp: sm_call_def)

lemma failIntent_queue: "failIntent K env t1 t2 cm n = Some (e, cm') \<Longrightarrow> same_queue cm cm'"
  by (auto simp: failIntent_def dest: sm_call_queue)

lemma handlePhaseError_queue:
  "handlePhaseError K env t1 t2 cm n phase s = Some (e, cm') \<Longrightarrow> same_queue cm cm'"
  by (auto simp: handlePhaseError_def retryPhase_def skipPhase_def rollbackIntent_def Let_def
      dest!: sm_call_queue failIntent_queue split: if_splits option.splits sum.splits)

lemma executePhase_queue: "executePhase K env t1 t2 cm n phase = Some (e, cm') \<Longrightarrow> same_queue cm cm'"
  by (auto simp: executePhase_def Let_def dest!: sm_call_queue split: if_splits option.splits sum.splits prod.splits)

lemma executeTask_queue:
  assumes "executeTask K env env' t1 t2 cm a = Some cm'" shows "same_queue cm cm'"
proof -
  let ?t = "eq_mem (cm_executionQueue cm) a" let ?n = "et_IntentName ?t"
  from assms obtain e cm2 where e: "executePhase K env t1 t2 (setupPhaseTimeout cm (kb_String K ?n) (et_Phase ?t)) ?n (et_Phase ?t)
      = Some (e, cm2)" by (auto simp: executeTask_def Let_def split: option.splits)
  from executePhase_queue [OF this] have q: "same_queue cm cm2" by simp
  show ?thesis
  proof (cases e)
    case None
    with assms e q show ?thesis by (auto simp: executeTask_def Let_def)
  next
    case (Some err)
    with assms e obtain r where "handlePhaseError K env' t1 t2 (cancelPhaseTimeout cm2 (kb_String K ?n)) ?n (et_Phase ?t)
        (strategy_of (cancelPhaseTimeout cm2 (kb_String K ?n)) (et_Phase ?t)) = Some (r, cm')"
      by (auto simp: executeTask_def Let_def)
    from handlePhaseError_queue [OF this] q show ?thesis by (auto intro: same_queue_trans)
  qed
qed

subsection \<open>Runs\<close>

text \<open>The steps of the goroutines: queueing an intent, the processor of the queue, a worker, a transition asked
  for from outside, and the timers. The handlers of events are compositions of these.\<close>

inductive cm_step :: "('k, 'o) Kube \<Rightarrow> 'k CoordinationManager \<Rightarrow> 'k CoordinationManager \<Rightarrow> bool" for K where
  step_process: "ProcessIntent K env t1 t2 cm n = Some (e, cm') \<Longrightarrow> cm_step K cm cm'"
| step_queue: "cm_step K cm (cm\<lparr>cm_executionQueue := processQueue (cm_executionQueue cm)\<rparr>)"
| step_worker: "worker_step K env env' t1 t2 cm = Some cm' \<Longrightarrow> cm_step K cm cm'"
| step_transition: "CM_TransitionPhase K env t1 t2 cm n p q = Some (e, cm') \<Longrightarrow> cm_step K cm cm'"
| step_error: "handlePhaseError K env t1 t2 cm n p s = Some (e, cm') \<Longrightarrow> cm_step K cm cm'"
| step_cancel: "cm_step K cm (cancelPhaseTimeout cm i)"
| step_timeout: "handlePhaseTimeout K env t1 t2 cm timer = Some cm' \<Longrightarrow> cm_step K cm cm'"
| step_register: "cm_step K cm (RegisterPhaseExecutor cm p x)"
| step_state: "cm_step K cm (set_sm cm sm)"

text \<open>The queue is sound and its tasks are allocated.\<close>

definition cm_inv :: "'k CoordinationManager \<Rightarrow> bool" where
  "cm_inv cm \<longleftrightarrow> queue_inv (cm_executionQueue cm)
     \<and> (\<forall>a \<in> set (eq_heap (cm_executionQueue cm)). a < cm_nextTask cm)
     \<and> (\<forall>k a. fmlookup (eq_activeTasks (cm_executionQueue cm)) k = Some a \<longrightarrow> a < cm_nextTask cm)
     \<and> (\<forall>k a. fmlookup (eq_completedTasks (cm_executionQueue cm)) k = Some a \<longrightarrow> a < cm_nextTask cm)"

lemma queue_inv_alloc:
  assumes "queue_inv q" "a \<notin> set (eq_heap q)"
    and "\<And>k. fmlookup (eq_activeTasks q) k \<noteq> Some a" "\<And>k. fmlookup (eq_completedTasks q) k \<noteq> Some a"
  shows "queue_inv (q\<lparr>eq_mem := (eq_mem q)(a := t)\<rparr>)"
proof -
  have "getTaskKey (((eq_mem q)(a := t)) b) = getTaskKey (eq_mem q b)" if "b \<in> set (eq_heap q)" for b
    using assms(2) that by auto
  moreover have "keyed ((eq_mem q)(a := t)) (eq_activeTasks q)" "keyed ((eq_mem q)(a := t)) (eq_completedTasks q)"
    using assms(1,3,4) by (auto simp: queue_inv_def keyed_def)
  ultimately show ?thesis using assms(1) unfolding queue_inv_def
    by (simp add: heap_part_write [OF assms(2)] del: fun_upd_apply) metis
qed

lemma cm_inv_queue: "same_queue cm cm' \<Longrightarrow> cm_inv cm' = cm_inv cm"
  by (simp add: same_queue_def cm_inv_def)

lemma Enqueue_frame:
  "eq_activeTasks (snd (Enqueue q a)) = eq_activeTasks q" "eq_completedTasks (snd (Enqueue q a)) = eq_completedTasks q"
  by (simp_all add: Enqueue_def Let_def set_heap_def)

lemma Enqueue_heap:
  assumes "queue_inv q" shows "set (eq_heap (snd (Enqueue q a))) \<subseteq> insert a (set (eq_heap q))"
proof (cases "fmlookup (eq_activeTasks q) (getTaskKey (eq_mem q a)) = None
    \<and> fmlookup (eq_pendingTasks q) (getTaskKey (eq_mem q a)) = None \<and> map_len (eq_pendingTasks q) < eq_maxPendingTasks q")
  case True
  then have "mset (eq_heap (insert_task q a)) = add_mset a (mset (eq_heap q))" using assms by (intro insert_task_inv) simp_all
  then have "set (eq_heap (insert_task q a)) = insert a (set (eq_heap q))" by (metis set_mset_add_mset_insert set_mset_mset)
  with True show ?thesis by (simp add: Enqueue_accepts)
next
  case False
  then show ?thesis by (auto simp: Enqueue_def Let_def)
qed

lemma ProcessIntent_cases:
  assumes "ProcessIntent K env t1 t2 cm n = Some (e, cm')"
  shows "same_queue cm cm' \<or> (\<exists>sm task. et_IntentName task = n \<and> submit_task (set_sm cm sm) task = (e, cm'))"
  using assms
  by (auto simp: ProcessIntent_def Let_def split: option.splits sum.splits prod.splits if_splits)

lemma submit_task_inv:
  assumes "cm_inv cm" "submit_task cm task = (e, cm')"
  shows "cm_inv cm'" "eq_activeTasks (cm_executionQueue cm') = eq_activeTasks (cm_executionQueue cm)"
proof -
  let ?q = "cm_executionQueue cm" and ?a = "cm_nextTask cm"
  have q': "cm_executionQueue cm' = snd (Enqueue (?q\<lparr>eq_mem := (eq_mem ?q)(?a := task)\<rparr>) ?a)" "cm_nextTask cm' = Suc ?a"
    using assms(2) by (auto simp: submit_task_def Let_def split: prod.splits)
  have inv0: "queue_inv (?q\<lparr>eq_mem := (eq_mem ?q)(?a := task)\<rparr>)"
    using assms(1) by (intro queue_inv_alloc) (auto simp: cm_inv_def)
  with assms(1) Enqueue_inv [OF inv0] Enqueue_heap [OF inv0, of ?a] show "cm_inv cm'"
    unfolding cm_inv_def q' Enqueue_frame by (fastforce simp: less_Suc_eq)
  show "eq_activeTasks (cm_executionQueue cm') = eq_activeTasks ?q" by (simp add: q' Enqueue_frame)
qed

lemma ProcessIntent_inv:
  assumes "cm_inv cm" "ProcessIntent K env t1 t2 cm n = Some (e, cm')"
  shows "cm_inv cm'" "eq_activeTasks (cm_executionQueue cm') = eq_activeTasks (cm_executionQueue cm)"
proof -
  have "cm_inv cm' \<and> eq_activeTasks (cm_executionQueue cm') = eq_activeTasks (cm_executionQueue cm)"
    using ProcessIntent_cases [OF assms(2)]
  proof
    assume "same_queue cm cm'"
    with assms(1) show ?thesis by (simp add: cm_inv_queue) (simp add: same_queue_def)
  next
    assume "\<exists>sm task. et_IntentName task = n \<and> submit_task (set_sm cm sm) task = (e, cm')"
    then obtain sm task where s: "submit_task (set_sm cm sm) task = (e, cm')" by blast
    have "cm_inv (set_sm cm sm)" using assms(1) by (simp add: cm_inv_def set_sm_def)
    from submit_task_inv [OF this s] show ?thesis by (simp add: set_sm_def)
  qed
  then show "cm_inv cm'" "eq_activeTasks (cm_executionQueue cm') = eq_activeTasks (cm_executionQueue cm)" by simp_all
qed

lemma processQueue_frame:
  assumes "queue_inv q"
  shows "fmlookup (eq_activeTasks q) k = Some b \<Longrightarrow> fmlookup (eq_activeTasks (processQueue q)) k = Some b"
    "set (eq_heap (processQueue q)) \<subseteq> set (eq_heap q)" "eq_completedTasks (processQueue q) = eq_completedTasks q"
    "fmlookup (eq_activeTasks (processQueue q)) k = Some a \<Longrightarrow> fmlookup (eq_activeTasks q) k = Some a \<or> a \<in> set (eq_heap q)"
proof -
  have "(fmlookup (eq_activeTasks q) k = Some b \<longrightarrow> fmlookup (eq_activeTasks (processQueue q)) k = Some b)
    \<and> set (eq_heap (processQueue q)) \<subseteq> set (eq_heap q) \<and> eq_completedTasks (processQueue q) = eq_completedTasks q
    \<and> (fmlookup (eq_activeTasks (processQueue q)) k = Some a \<longrightarrow> fmlookup (eq_activeTasks q) k = Some a \<or> a \<in> set (eq_heap q))"
  proof (cases "eq_heap q = []")
    case True
    then show ?thesis by (simp add: processQueue_def Dequeue_def)
  next
    case False
    from Dequeue_spec [OF assms False] show ?thesis
    proof cases
      case (1 task m' h' P)
      let ?key = "getTaskKey (eq_mem q task)"
      have task: "task \<in> set (eq_heap q)" using 1(3) False by simp
      then have "fmlookup (eq_pendingTasks q) ?key = Some task" using assms by (simp add: queue_inv_def)
      then have free: "fmlookup (eq_activeTasks q) ?key = None"
        using assms unfolding queue_inv_def by (metis option.distinct(1))
      have h': "set (eq_heap q) = insert task (set h')" using 1(5) by (metis set_mset_add_mset_insert set_mset_mset)
      let ?q1 = "q\<lparr>eq_mem := m', eq_heap := h', eq_pendingTasks := P, eq_activeTasks := fmupd ?key task (eq_activeTasks q),
          eq_dequeuedCount := inc64 (eq_dequeuedCount q)\<rparr>"
      have key: "getTaskKey (m' task) = ?key" using same_tasks_fields(1) [OF 1(4)] .
      have inv1: "queue_inv ?q1" using Dequeue_inv [OF assms] 1(1) by simp
      have "fmlookup (eq_activeTasks ?q1) (getTaskKey (eq_mem ?q1 task)) = Some task" by (simp add: key)
      then have "mset (eq_heap (requeue ?q1 task)) = add_mset task (mset h')"
        unfolding requeue_eq using inv1
        by (subst insert_task_inv(2) [OF queue_inv_deactivate]) (auto simp: queue_inv_def)
      then have rh: "set (eq_heap (requeue ?q1 task)) = set (eq_heap q)"
        unfolding h' by (metis set_mset_add_mset_insert set_mset_mset)
      have ra: "eq_activeTasks (requeue ?q1 task) = fmdrop ?key (fmupd ?key task (eq_activeTasks q))"
        "eq_completedTasks (requeue ?q1 task) = eq_completedTasks q"
        by (simp_all add: requeue_def set_heap_def Let_def key)
      show ?thesis using 1(1) rh ra free task h' unfolding processQueue_def by auto
    qed
  qed
  then show "fmlookup (eq_activeTasks q) k = Some b \<Longrightarrow> fmlookup (eq_activeTasks (processQueue q)) k = Some b"
    "set (eq_heap (processQueue q)) \<subseteq> set (eq_heap q)" "eq_completedTasks (processQueue q) = eq_completedTasks q"
    "fmlookup (eq_activeTasks (processQueue q)) k = Some a \<Longrightarrow> fmlookup (eq_activeTasks q) k = Some a \<or> a \<in> set (eq_heap q)"
    by blast+
qed

text \<open>What every step keeps: the soundness of the queue, and that active tasks stay active.\<close>

lemma cm_step_keeps:
  assumes "cm_step K cm cm'" "cm_inv cm"
  shows "cm_inv cm'" "fmlookup (eq_activeTasks (cm_executionQueue cm)) k = Some b \<Longrightarrow>
    fmlookup (eq_activeTasks (cm_executionQueue cm')) k = Some b"
proof -
  have same: "cm_inv cm'' \<and> (fmlookup (eq_activeTasks (cm_executionQueue cm)) k = Some b \<longrightarrow>
      fmlookup (eq_activeTasks (cm_executionQueue cm'')) k = Some b)" if "same_queue cm cm''" for cm''
    using that assms(2) by (simp add: cm_inv_queue) (simp add: same_queue_def)
  have "cm_inv cm' \<and> (fmlookup (eq_activeTasks (cm_executionQueue cm)) k = Some b \<longrightarrow>
      fmlookup (eq_activeTasks (cm_executionQueue cm')) k = Some b)"
    using assms(1)
  proof cases
    case (step_process env t1 t2 n e)
    with ProcessIntent_inv [OF assms(2) step_process] show ?thesis by simp
  next
    case step_queue
    have q: "queue_inv (cm_executionQueue cm)" using assms(2) by (simp add: cm_inv_def)
    note pf = processQueue_frame [OF q]
    have "cm_inv cm'" using assms(2) processQueue_inv [OF q] pf(2,3) pf(4) unfolding cm_inv_def step_queue by fastforce
    with pf(1) show ?thesis by (simp add: step_queue)
  next
    case (step_worker env env' t1 t2)
    show ?thesis
    proof (cases "receive_task (cm_executionQueue cm)")
      case (Some r)
      then obtain a q where r: "receive_task (cm_executionQueue cm) = Some (a, q)" by (cases r) auto
      then have q: "\<exists>c. q = (cm_executionQueue cm)\<lparr>eq_channel := c\<rparr>" by (auto simp: receive_task_def split: list.splits)
      from step_worker r have "executeTask K env env' t1 t2 (cm\<lparr>cm_executionQueue := q\<rparr>) a = Some cm'"
        by (simp add: worker_step_def)
      from executeTask_queue [OF this] q assms(2) show ?thesis
        by (auto simp: same_queue_def cm_inv_def)
    qed (use step_worker assms(2) in \<open>simp add: worker_step_def\<close>)
  next
    case (step_transition env t1 t2 n p q e)
    then have "same_queue cm cm'"
      by (auto simp: CM_TransitionPhase_def checkPhaseDependencies_def executePhaseTransition_def Let_def
          dest!: sm_call_queue split: if_splits option.splits sum.splits)
    then show ?thesis by (rule same)
  next
    case (step_error env t1 t2 n p s e)
    from handlePhaseError_queue [OF step_error] show ?thesis by (rule same)
  next
    case (step_cancel i)
    show ?thesis unfolding step_cancel by (rule same) simp
  next
    case (step_timeout env t1 t2 timer)
    have "same_queue (cm\<lparr>cm_timers := f\<rparr>) cm' = same_queue cm cm'" for f by (simp add: same_queue_def same_tables_def)
    with step_timeout have "same_queue cm cm'"
      by (auto simp: handlePhaseTimeout_def Let_def split: option.splits dest!: handlePhaseError_queue)
    then show ?thesis by (rule same)
  qed (use assms(2) in \<open>auto simp: RegisterPhaseExecutor_def set_sm_def cm_inv_def\<close>)
  then show "cm_inv cm'" "fmlookup (eq_activeTasks (cm_executionQueue cm)) k = Some b \<Longrightarrow>
    fmlookup (eq_activeTasks (cm_executionQueue cm')) k = Some b" by simp_all
qed

lemma cm_steps_keep:
  assumes "(cm_step K)\<^sup>*\<^sup>* cm cm'" "cm_inv cm"
  shows "cm_inv cm' \<and> (fmlookup (eq_activeTasks (cm_executionQueue cm)) k = Some b \<longrightarrow>
    fmlookup (eq_activeTasks (cm_executionQueue cm')) k = Some b)"
  using assms by (induction rule: rtranclp_induct) (auto dest: cm_step_keeps)

lemma NewExecutionQueue_empty:
  "NewExecutionQueue mem c = Ret q \<Longrightarrow> eq_activeTasks q = fmempty \<and> eq_pendingTasks q = fmempty
     \<and> eq_completedTasks q = fmempty \<and> eq_heap q = [] \<and> eq_channel q = []"
  by (auto simp: NewExecutionQueue_def Let_def set_heap_def heap_Init_def TaskHeap_def TaskHeap_Len_def split: if_splits)

lemma New_queue:
  assumes "NewCoordinationManager sm mem cfg = Ret cm"
  shows "cm_inv cm" "eq_activeTasks (cm_executionQueue cm) = fmempty" "eq_pendingTasks (cm_executionQueue cm) = fmempty"
    "eq_heap (cm_executionQueue cm) = []" "eq_channel (cm_executionQueue cm) = []"
proof -
  from assms obtain c where c: "NewExecutionQueue mem c = Ret (cm_executionQueue cm)"
    by (auto simp: NewCoordinationManager_def initializeDependencies_def initializeTransitions_def initializeTimeouts_def
        initializeErrorStrategies_def Let_def simp del: fold_simps split: outcome.splits)
  from NewExecutionQueue_empty [OF this] NewExecutionQueue_inv [OF this]
  show "eq_activeTasks (cm_executionQueue cm) = fmempty" "eq_pendingTasks (cm_executionQueue cm) = fmempty"
    "eq_heap (cm_executionQueue cm) = []" "eq_channel (cm_executionQueue cm) = []" "cm_inv cm"
    by (simp_all add: cm_inv_def)
qed

subsection \<open>One task through an idle queue\<close>

definition idle :: "ExecutionQueue \<Rightarrow> bool" where
  "idle q \<longleftrightarrow> eq_heap q = [] \<and> eq_channel q = [] \<and> 0 < eq_capacity q \<and> 0 < eq_maxPendingTasks q"

lemma queue_passes:
  assumes inv: "queue_inv q" and idle: "idle q" and free: "fmlookup (eq_activeTasks q) (getTaskKey (eq_mem q a)) = None"
    and deps: "et_Dependencies (eq_mem q a) = []"
  shows "\<exists>q1 q2. Enqueue q a = (None, q1) \<and> receive_task (processQueue q1) = Some (a, q2) \<and> idle q2
    \<and> fmlookup (eq_activeTasks q2) (getTaskKey (eq_mem q a)) = Some a
    \<and> et_Phase (eq_mem q2 a) = et_Phase (eq_mem q a) \<and> et_IntentName (eq_mem q2 a) = et_IntentName (eq_mem q a)"
proof -
  let ?key = "getTaskKey (eq_mem q a)"
  have "fmlookup (eq_pendingTasks q) k = None" for k
    using inv idle unfolding queue_inv_def idle_def by (metis list.set(1) empty_iff not_Some_eq)
  then have pend: "eq_pendingTasks q = fmempty" by (simp add: fmap_ext)
  let ?q1 = "(insert_task q a)\<lparr>eq_enqueuedCount := inc64 (eq_enqueuedCount q)\<rparr>"
  have e: "Enqueue q a = (None, ?q1)" using free pend idle by (intro Enqueue_accepts) (auto simp: idle_def)
  have ins: "queue_inv (insert_task q a)" "mset (eq_heap (insert_task q a)) = add_mset a (mset (eq_heap q))"
    "same_tasks (eq_mem q) (eq_mem (insert_task q a))"
    by (rule insert_task_inv [OF inv]; simp add: free pend)+
  have heap: "eq_heap ?q1 = [a]" using ins(2) idle by (simp add: idle_def)
  have frame: "eq_channel ?q1 = []" "eq_capacity ?q1 = eq_capacity q" "eq_maxPendingTasks ?q1 = eq_maxPendingTasks q"
    using idle by (simp_all add: insert_task_def Let_def set_heap_def idle_def)
  have inv1: "queue_inv ?q1" using ins(1) by simp
  have ne: "eq_heap ?q1 \<noteq> []" using heap by simp
  from Dequeue_spec [OF inv1 ne] show ?thesis
  proof cases
    case (1 task m' h' P)
    have task: "task = a" "h' = []" using 1(3,5) heap by simp_all
    have same: "same_tasks (eq_mem q) m'" using ins(3) 1(4) by (simp add: same_tasks_def)
    have strip: "strip_index (m' a) = strip_index (eq_mem q a)" using same by (simp add: same_tasks_def)
    have et: "et_Phase (m' a) = et_Phase (eq_mem q a)" "et_IntentName (m' a) = et_IntentName (eq_mem q a)"
      using strip unfolding strip_index_def
      by (metis ExecutionTask.select_convs(1,2) ExecutionTask.surjective ExecutionTask.update_convs(9))+
    have "et_Dependencies (m' a) = []" using same_tasks_fields(5) [OF same] deps by simp
    moreover have "getTaskKey (eq_mem ?q1 a) = ?key" using same_tasks_fields(1) [OF ins(3)] by simp
    ultimately have "receive_task (processQueue ?q1) = Some (a, (snd (Dequeue ?q1))\<lparr>eq_channel := []\<rparr>)"
      using 1(1) task frame idle unfolding processQueue_def
      by (simp add: checkTaskDependencies_def receive_task_def idle_def)
    moreover have "idle ((snd (Dequeue ?q1))\<lparr>eq_channel := []\<rparr>)" using 1(1) task frame idle by (simp add: idle_def)
    moreover have "fmlookup (eq_activeTasks ((snd (Dequeue ?q1))\<lparr>eq_channel := []\<rparr>)) ?key = Some a"
      using 1(1) task \<open>getTaskKey (eq_mem ?q1 a) = ?key\<close> by simp
    moreover have "eq_mem ((snd (Dequeue ?q1))\<lparr>eq_channel := []\<rparr>) = m'" using 1(1) by simp
    ultimately show ?thesis using e et by metis
  qed
qed

subsection \<open>Calls that hit the cache\<close>

lemma GetIntentState_cached:
  assumes inv: "sm_inv K sm" and c: "cached_at K sm n = Some (a, x)" and t: "se_clock env CacheExpiry \<le> x"
  shows "\<exists>sm'. GetIntentState K env sm n = Some (Inr a, sm') \<and> sm_inv K sm' \<and> cached_at K sm' n = Some (a, x)
    \<and> sm_states sm' = sm_states sm \<and> same_rest sm sm'"
proof -
  have cinv: "cache_inv (sm_stateCache sm)" using sm_invD(1) [OF inv] by (simp add: usable_cache_def)
  obtain v d where g: "Cache_Get (se_clock env CacheExpiry) (se_clock env CacheAccess) (sm_stateCache sm) (kb_String K n) = (v, d)"
    by fastforce
  with Cache_Get_refines(2,3) [OF cinv, of "se_clock env CacheExpiry" "se_clock env CacheAccess" "kb_String K n"] c t
  have "v = Some a" "map_of (cache_abs d) (kb_String K n) = Some (a, x)"
    by (auto simp: cached_at_def lru_get_def)
  moreover have "sm_inv K (set_cache sm d)" using sm_relD(1) [OF cache_get_rel inv] g by (metis snd_conv)
  ultimately show ?thesis using g by (auto simp: GetIntentState_def cached_at_def same_rest_def)
qed

lemma cached_stateE:
  assumes "cached_state K sm n = Some (s, x)"
  obtains a where "cached_at K sm n = Some (a, x)" "sm_states sm a = s"
  using assms by (auto simp: cached_state_def)

lemma current_hit: "cached_at K sm n = Some (a, x) \<Longrightarrow> se_clock env CacheExpiry \<le> x \<Longrightarrow> current K env sm n = Inr (sm_states sm a)"
  by (simp add: current_def)

text \<open>A Kubernetes that keeps serving the intent: in every cluster that updates can lead to, the object is
  found and its status can be updated.\<close>

definition kube_serves :: "('k, 'o) Kube \<Rightarrow> NamespacedName \<Rightarrow> ('k \<Rightarrow> bool) \<Rightarrow> bool" where
  "kube_serves K n up \<longleftrightarrow> (\<forall>k. up k \<longrightarrow> (\<exists>i. kb_Get K k n = Inr i \<and>
     (\<forall>s. \<exists>k'. kb_StatusUpdate K k (status_of K i s) = (None, k') \<and> up k')))"

lemma transition_valid:
  assumes "p \<noteq> []" "list_all (\<lambda>d. id_Intent d \<noteq> []) (is_Dependencies s)"
  shows "validateState (updated t (transition_state t1 t2 p m s)) = None"
proof -
  have "is_Dependencies (transition_state t1 t2 p m s) = is_Dependencies s"
    "is_PhaseTransitions (transition_state t1 t2 p m s) \<noteq> []"
    "pt_ToPhase (last (is_PhaseTransitions (transition_state t1 t2 p m s))) = p"
    by (simp_all add: transition_state_def Let_def split: option.splits)
  with assms next_version_counts(3) show ?thesis
    by (auto simp: validateState_def updated_def list_ex_iff list_all_iff)
qed

lemma transition_succeeds:
  assumes inv: "sm_inv K sm" and q: "quiet env" and get: "kube_get K"
    and free: "fmlookup (lm_locks (sm_stateLocks sm)) (kb_String K n) = None" "ae_before (se_lock env 0) = (\<lambda>lm. lm)"
    and cur: "current K env sm n = Inr s" and up: "kube_serves K n up" "up (sm_cluster sm)"
    and ok: "p \<noteq> []" "list_all (\<lambda>d. id_Intent d \<noteq> []) (is_Dependencies s)"
  shows "\<exists>sm' s' x. SM_TransitionPhase K env t1 t2 sm n p m = Some (None, sm') \<and> cached_state K sm' n = Some (s', x)
    \<and> is_CurrentPhase s' = p \<and> up (sm_cluster sm')"
proof -
  let ?f = "\<lambda>s. (None :: string option, transition_state t1 t2 p m s)"
  let ?s = "updated (se_clock env Modified) (transition_state t1 t2 p m s)"
  from up obtain i k' where i: "kb_Get K (sm_cluster sm) n = Inr i"
    "kb_StatusUpdate K (sm_cluster sm) (status_of K i ?s) = (None, k')" "up k'"
    unfolding kube_serves_def by blast
  then have spec: "update_spec K b (se_clock env Modified) n ?f (sm_cluster sm) (Inr s) = (None, k', Some ?s)" for b
    using transition_valid [OF ok] by (simp add: update_spec_def)
  from UpdateIntentState_quiet [OF inv q get free, of ?f, unfolded cur spec] obtain r sm' lm where
    u: "UpdateIntentState K env sm n ?f = Some (r, sm')" and
    ref: "refines_update K (sm\<lparr>sm_stateLocks := lm\<rparr>) n (None, k', Some ?s) r (sm'\<lparr>sm_stateLocks := lm\<rparr>)" by blast
  from ref have "r = None" "sm_cluster sm' = k'" "map_option fst (cached_state K sm' n) = Some ?s"
    by (simp_all add: refines_update_def locks_frame)
  with u i(3) show ?thesis by (auto simp: SM_TransitionPhase_def)
qed

subsection \<open>One round of the pipeline\<close>

text \<open>An intent is queued, the processor hands the task to a worker, and the worker executes it.\<close>

definition pipeline_round ::
    "('k, 'o) Kube \<Rightarrow> (nat \<Rightarrow> 'k sm_env) \<Rightarrow> time \<Rightarrow> 'k CoordinationManager \<Rightarrow> NamespacedName
       \<Rightarrow> 'k CoordinationManager option" where
  "pipeline_round K env t cm n =
     (case ProcessIntent K (env 0) t t cm n of
        None \<Rightarrow> None
      | Some (_, cm1) \<Rightarrow>
          worker_step K (\<lambda>i. env (Suc i)) (\<lambda>i. env (i + 3)) t t
            (cm1\<lparr>cm_executionQueue := processQueue (cm_executionQueue cm1)\<rparr>))"

text \<open>A manager at rest: nothing queued, the lock of the intent free, its state cached.\<close>

definition sm_at_rest :: "('k, 'o) Kube \<Rightarrow> ('k \<Rightarrow> bool) \<Rightarrow> 'k StateManager \<Rightarrow> NamespacedName \<Rightarrow> IntentState \<Rightarrow> time \<Rightarrow> bool" where
  "sm_at_rest K up sm n s x \<longleftrightarrow> sm_inv K sm \<and> up (sm_cluster sm)
     \<and> fmlookup (lm_locks (sm_stateLocks sm)) (kb_String K n) = None
     \<and> cached_state K sm n = Some (s, x) \<and> list_all (\<lambda>d. id_Intent d \<noteq> []) (is_Dependencies s)"

definition at_rest :: "('k, 'o) Kube \<Rightarrow> ('k \<Rightarrow> bool) \<Rightarrow> 'k CoordinationManager \<Rightarrow> NamespacedName \<Rightarrow> IntentState \<Rightarrow> time \<Rightarrow> bool" where
  "at_rest K up cm n s x \<longleftrightarrow> std_tables cm \<and> cm_inv cm \<and> idle (cm_executionQueue cm) \<and> sm_at_rest K up (cm_stateManager cm) n s x"

definition calm :: "(nat \<Rightarrow> 'k sm_env) \<Rightarrow> time \<Rightarrow> bool" where
  "calm env x \<longleftrightarrow> (\<forall>i. quiet (env i) \<and> ae_before (se_lock (env i) 0) = (\<lambda>lm. lm) \<and> se_clock (env i) CacheExpiry \<le> x)"

lemma submit_idle:
  assumes rest: "cm_inv cm" "idle (cm_executionQueue cm)" and deps: "et_Dependencies task = []"
    and free: "fmlookup (eq_activeTasks (cm_executionQueue cm)) (getTaskKey task) = None"
  shows "\<exists>cm1 q2. submit_task cm task = (None, cm1) \<and> cm1 = cm\<lparr>cm_executionQueue := cm_executionQueue cm1, cm_nextTask := cm_nextTask cm1\<rparr>
    \<and> receive_task (processQueue (cm_executionQueue cm1)) = Some (cm_nextTask cm, q2)
    \<and> et_Phase (eq_mem q2 (cm_nextTask cm)) = et_Phase task \<and> et_IntentName (eq_mem q2 (cm_nextTask cm)) = et_IntentName task
    \<and> fmlookup (eq_activeTasks q2) (getTaskKey task) \<noteq> None"
proof -
  let ?q = "cm_executionQueue cm" and ?a = "cm_nextTask cm"
  let ?q0 = "?q\<lparr>eq_mem := (eq_mem ?q)(?a := task)\<rparr>"
  have inv0: "queue_inv ?q0" using rest(1) by (intro queue_inv_alloc) (auto simp: cm_inv_def)
  have idle0: "idle ?q0" using rest(2) by (simp add: idle_def)
  from queue_passes [OF inv0 idle0, of ?a] free deps obtain q1 q2 where
    "Enqueue ?q0 ?a = (None, q1)" "receive_task (processQueue q1) = Some (?a, q2)"
    "fmlookup (eq_activeTasks q2) (getTaskKey task) = Some ?a"
    "et_Phase (eq_mem q2 ?a) = et_Phase task" "et_IntentName (eq_mem q2 ?a) = et_IntentName task" by auto
  then show ?thesis by (auto simp: submit_task_def)
qed

lemma GetIntentState_at_rest:
  assumes "sm_at_rest K up sm n s x" "se_clock env CacheExpiry \<le> x"
  shows "\<exists>a sm'. GetIntentState K env sm n = Some (Inr a, sm') \<and> sm_states sm' a = s \<and> sm_at_rest K up sm' n s x"
proof -
  have r: "sm_inv K sm" "up (sm_cluster sm)" "fmlookup (lm_locks (sm_stateLocks sm)) (kb_String K n) = None"
    "cached_state K sm n = Some (s, x)" "list_all (\<lambda>d. id_Intent d \<noteq> []) (is_Dependencies s)"
    using assms(1) by (simp_all add: sm_at_rest_def)
  from r(4) obtain b where b: "cached_at K sm n = Some (b, x)" "sm_states sm b = s" by (rule cached_stateE)
  from GetIntentState_cached [OF r(1) b(1) assms(2)] b(2) r show ?thesis
    by (fastforce simp: sm_at_rest_def cached_state_def same_rest_def)
qed

lemma executeTask_success:
  assumes rest: "sm_at_rest K up (cm_stateManager cm) n s x" and calm: "calm env x" and k: "kube_get K" "kube_serves K n up"
    and task: "et_Phase (eq_mem (cm_executionQueue cm) a) = q" "et_IntentName (eq_mem (cm_executionQueue cm) a) = n"
    and ex: "fmlookup (cm_phaseExecutors cm) q = Some x'" "\<And>d. pe_Validate x' q d = None" "\<And>d sm. pe_Execute x' n q d sm = (None, sm)"
    and r: "getNextPhase cm q \<noteq> []"
  shows "\<exists>cm' s' y. executeTask K env env' t1 t2 cm a = Some cm' \<and> cached_state K (cm_stateManager cm') n = Some (s', y)
    \<and> is_CurrentPhase s' = getNextPhase cm q"
proof -
  have c: "quiet (env i)" "ae_before (se_lock (env i) 0) = (\<lambda>lm. lm)" "se_clock (env i) CacheExpiry \<le> x" for i
    using calm by (simp_all add: calm_def)
  from GetIntentState_at_rest [OF rest c(3) [of 0]] obtain b sm1 where
    g: "GetIntentState K (env 0) (cm_stateManager cm) n = Some (Inr b, sm1)" "sm_at_rest K up sm1 n s x" by blast
  then have rest1: "sm_inv K sm1" "up (sm_cluster sm1)" "fmlookup (lm_locks (sm_stateLocks sm1)) (kb_String K n) = None"
    "list_all (\<lambda>d. id_Intent d \<noteq> []) (is_Dependencies s)" "current K (env 1) sm1 n = Inr s"
    using current_cached [OF _ c(3)] by (auto simp: sm_at_rest_def)
  from transition_succeeds [OF rest1(1) c(1) k(1) rest1(3) c(2) rest1(5) k(2) rest1(2) r rest1(4)] obtain sm' s' y where
    t: "SM_TransitionPhase K (env 1) t1 t2 sm1 n (getNextPhase cm q) (Some fmempty) = Some (None, sm')"
       "cached_state K sm' n = Some (s', y)" "is_CurrentPhase s' = getNextPhase cm q" by blast
  have gnp: "getNextPhase (setupPhaseTimeout cm i p) q = getNextPhase cm q" for i p
    by (simp add: getNextPhase_def setupPhaseTimeout_def Let_def)
  have "executePhase K env t1 t2 (setupPhaseTimeout cm i p) n q = Some (None, set_sm (setupPhaseTimeout cm i p) sm')" for i p
    using ex r t(1) g(1) unfolding executePhase_def gnp
    by (simp add: setupPhaseTimeout_def Let_def GetPhaseData_def sm_call_def)
  then show ?thesis using task t(2,3)
    by (auto simp: executeTask_def Let_def cancelPhaseTimeout_def set_sm_def split: option.splits)
qed

section \<open>Properties\<close>


text \<open>The manager of the witnesses: the default one over the sample state manager, with the state of the intent
  cached, and one executor that always succeeds.\<close>

definition ok_executor :: "'k PhaseExecutor" where
  "ok_executor = \<lparr>pe_Execute = (\<lambda>n p d sm. (None, sm)), pe_Validate = (\<lambda>p d. None)\<rparr>"

definition sample_cm :: "string \<Rightarrow> kmap CoordinationManager" where
  "sample_cm phase =
     (case (GetIntentState map_kube (sample_env 5) (sample_sm phase) sample_name, NewCoordinationManager (sample_sm phase) sample_mem None) of
        (Some (_, sm), Ret cm) \<Rightarrow> RegisterPhaseExecutor (set_sm cm sm) PhaseLLMProcessing ok_executor)"

lemma sample_cmE:
  obtains a sm cm where "GetIntentState map_kube (sample_env 5) (sample_sm p) sample_name = Some (Inr a, sm)"
    "sm_states sm a = convertToIntentState 5 (sample_intent p)" "sm_inv map_kube sm" "same_rest (sample_sm p) sm"
    "\<exists>x. cached_at map_kube sm sample_name = Some (a, x)"
    "NewCoordinationManager (sample_sm p) sample_mem None = Ret cm"
    "sample_cm p = RegisterPhaseExecutor (set_sm cm sm) PhaseLLMProcessing ok_executor"
proof -
  from GetIntentState_quiet [of map_kube "sample_sm p" "sample_env 5" sample_name] map_kube_ok(2) obtain sm a x where
    g: "GetIntentState map_kube (sample_env 5) (sample_sm p) sample_name = Some (Inr a, sm)" "same_rest (sample_sm p) sm"
    "sm_states sm a = convertToIntentState 5 (sample_intent p)" "cached_at map_kube sm sample_name = Some (a, x)"
    "points_to map_kube sm a sample_name" by (auto simp: sample_current)
  obtain cm where cm: "NewCoordinationManager (sample_sm p) sample_mem None = Ret cm"
    by (cases "NewCoordinationManager (sample_sm p) sample_mem None")
      (auto simp: NewCoordinationManager_def NewExecutionQueue_def DefaultCoordinationConfig_def Let_def)
  show ?thesis by (rule that [OF g(1,3) _ g(2) _ cm]) (use g cm in \<open>auto simp: points_to_def sample_cm_def\<close>)
qed

lemma sample_cm_rest:
  "std_tables (sample_cm p)" "cm_inv (sample_cm p)" "idle (cm_executionQueue (sample_cm p))"
  "eq_activeTasks (cm_executionQueue (sample_cm p)) = fmempty" "sm_inv map_kube (cm_stateManager (sample_cm p))"
proof -
  obtain a sm cm where s: "sm_inv map_kube sm" "NewCoordinationManager (sample_sm p) sample_mem None = Ret cm"
    "sample_cm p = RegisterPhaseExecutor (set_sm cm sm) PhaseLLMProcessing ok_executor" by (rule sample_cmE)
  note n = New_queue [OF s(2)] New_std_tables [OF s(2)]
  have "0 < eq_capacity (cm_executionQueue cm) \<and> 0 < eq_maxPendingTasks (cm_executionQueue cm)"
    using s(2) by (auto simp: NewCoordinationManager_def NewExecutionQueue_def DefaultCoordinationConfig_def set_heap_def wrap64_def
        initializeDependencies_def initializeTransitions_def initializeTimeouts_def initializeErrorStrategies_def Let_def
        simp del: fold_simps)
  with n s show "std_tables (sample_cm p)" "cm_inv (sample_cm p)" "idle (cm_executionQueue (sample_cm p))"
    "eq_activeTasks (cm_executionQueue (sample_cm p)) = fmempty" "sm_inv map_kube (cm_stateManager (sample_cm p))"
    by (simp_all add: RegisterPhaseExecutor_def set_sm_def std_tables_def cm_inv_def idle_def)
qed


text \<open>An intent whose phase is not one of the processing phases, such as every intent loaded from the
  cluster with the name of an API phase, is driven to \<open>Failed\<close> by its first round: the manager queues
  a task for the phase \<open>Failed\<close>, finds no executor for it, and fails the intent.\<close>

theorem unknown_phase_fails:
  assumes "at_rest K up cm n s x" and "calm env x" and "kube_get K" and "kube_serves K n up"
    and "is_CurrentPhase s \<notin> set (PhaseFailed # phaseOrder)"
    and "fmlookup (eq_activeTasks (cm_executionQueue cm)) (task_key n PhaseFailed) = None"
    and "fmlookup (cm_phaseExecutors cm) PhaseFailed = None" and "fmlookup (cm_errorStrategies cm) PhaseFailed = None"
  shows "\<exists>cm' s' y. pipeline_round K env t cm n = Some cm' \<and> cached_state K (cm_stateManager cm') n = Some (s', y)
    \<and> is_CurrentPhase s' = PhaseFailed"
proof -
  have rest: "std_tables cm" "cm_inv cm" "idle (cm_executionQueue cm)" "sm_at_rest K up (cm_stateManager cm) n s x"
    using assms(1) by (simp_all add: at_rest_def)
  have c: "quiet (env i)" "ae_before (se_lock (env i) 0) = (\<lambda>lm. lm)" "se_clock (env i) CacheExpiry \<le> x" for i
    using assms(2) by (simp_all add: calm_def)
  from GetIntentState_at_rest [OF rest(4) c(3)] obtain b sm1 where
    g: "GetIntentState K (env 0) (cm_stateManager cm) n = Some (Inr b, sm1)" "sm_states sm1 b = s" "sm_at_rest K up sm1 n s x"
    by blast
  have nxt: "determineNextPhase cm s = PhaseFailed"
    using assms(5) rest(1) by (auto simp: determineNextPhase_def std_transition phaseOrder_def)
  let ?task = "\<lparr>et_IntentName = n, et_Phase = PhaseFailed, et_Priority = calculatePriority t s, et_Timestamp = t,
      et_Context = Some (Raw (Json_object fmempty)), et_RetryCount = 0, et_MaxRetries = 0, et_Dependencies = [], et_index = 0\<rparr>"
  have pi: "ProcessIntent K (env 0) t t cm n = Some (submit_task (set_sm cm sm1) ?task)"
    using g(1,2) nxt by (simp add: ProcessIntent_def)
  have "cm_inv (set_sm cm sm1)" "idle (cm_executionQueue (set_sm cm sm1))"
    "fmlookup (eq_activeTasks (cm_executionQueue (set_sm cm sm1))) (getTaskKey ?task) = None"
    using rest(2,3) assms(6) by (simp_all add: set_sm_def cm_inv_def getTaskKey_def)
  from submit_idle [OF this(1,2) _ this(3)] obtain cm1 q2 where s1: "submit_task (set_sm cm sm1) ?task = (None, cm1)"
    "cm1 = (set_sm cm sm1)\<lparr>cm_executionQueue := cm_executionQueue cm1, cm_nextTask := cm_nextTask cm1\<rparr>"
    "receive_task (processQueue (cm_executionQueue cm1)) = Some (cm_nextTask (set_sm cm sm1), q2)"
    "et_Phase (eq_mem q2 (cm_nextTask (set_sm cm sm1))) = PhaseFailed" "et_IntentName (eq_mem q2 (cm_nextTask (set_sm cm sm1))) = n"
    by auto
  let ?cm2 = "cancelPhaseTimeout (setupPhaseTimeout (cm1\<lparr>cm_executionQueue := q2\<rparr>) (kb_String K n) PhaseFailed) (kb_String K n)"
  have cm1: "cm_stateManager cm1 = sm1" "cm_phaseExecutors cm1 = cm_phaseExecutors cm" "cm_errorStrategies cm1 = cm_errorStrategies cm"
    by (subst s1(2), simp add: set_sm_def)+
  then have cm2: "cm_stateManager ?cm2 = sm1" "strategy_of ?cm2 PhaseFailed = zeroStrategy"
    using assms(8) by (simp_all add: strategy_of_def cancelPhaseTimeout_def setupPhaseTimeout_def Let_def)
  have rest1: "sm_inv K sm1" "up (sm_cluster sm1)" "fmlookup (lm_locks (sm_stateLocks sm1)) (kb_String K n) = None"
    "list_all (\<lambda>d. id_Intent d \<noteq> []) (is_Dependencies s)" "current K (env 3) sm1 n = Inr s"
    using g(3) current_cached [OF _ c(3)] by (auto simp: sm_at_rest_def)
  from transition_succeeds [OF rest1(1) c(1) assms(3) rest1(3) c(2) rest1(5) assms(4) rest1(2) _ rest1(4), of PhaseFailed t t "Some fmempty"]
  obtain sm' s' y where t: "SM_TransitionPhase K (env 3) t t sm1 n PhaseFailed (Some fmempty) = Some (None, sm')"
    "cached_state K sm' n = Some (s', y)" "is_CurrentPhase s' = PhaseFailed" by auto
  have "handlePhaseError K (\<lambda>i. env (i + 3)) t t ?cm2 n PhaseFailed zeroStrategy = Some (None, set_sm ?cm2 sm')"
    using t(1) cm2(1) by (simp add: handlePhaseError_def zeroStrategy_def failIntent_def sm_call_def)
  moreover have "executePhase K e t t (setupPhaseTimeout (cm1\<lparr>cm_executionQueue := q2\<rparr>) (kb_String K n) PhaseFailed) n PhaseFailed
      = Some (Some (CM_NoExecutor PhaseFailed), setupPhaseTimeout (cm1\<lparr>cm_executionQueue := q2\<rparr>) (kb_String K n) PhaseFailed)" for e
    using cm1(2) assms(7) by (simp add: executePhase_def setupPhaseTimeout_def Let_def)
  ultimately have "pipeline_round K env t cm n = Some (set_sm ?cm2 sm')"
    using pi s1 cm2(2) by (simp add: pipeline_round_def worker_step_def executeTask_def Let_def)
  then show ?thesis using t(2,3) by (simp add: set_sm_def)
qed

theorem unknown_phase_fails_witness:
  "\<exists>cm' s' y. pipeline_round map_kube (\<lambda>_. sample_env 6) 6 (sample_cm ''Pending'') sample_name = Some cm'
     \<and> cached_state map_kube (cm_stateManager cm') sample_name = Some (s', y) \<and> is_CurrentPhase s' = PhaseFailed"
proof -
  let ?cm = "sample_cm ''Pending''"
  let ?s = "convertToIntentState 5 (sample_intent ''Pending'')"
  let ?up = "\<lambda>k. \<exists>i. map_Get k sample_name = Inr i"
  have up: "kube_serves map_kube sample_name ?up"
    by (auto simp: kube_serves_def map_kube_def map_StatusUpdate_def map_Get_def status_of_def sample_name_def Let_def
        split: option.splits if_splits)
  have x: "map_option snd (cached_state map_kube (cm_stateManager ?cm) sample_name) = Some (5 + 30 * Minute)"
    and l: "fmlookup (lm_locks (sm_stateLocks (cm_stateManager ?cm))) (kb_String map_kube sample_name) = None"
    and u: "\<not> isl (map_Get (sm_cluster (cm_stateManager ?cm)) sample_name)"
    and d: "list_all (\<lambda>d. id_Intent d \<noteq> []) (is_Dependencies ?s)"
    and q: "fmlookup (cm_errorStrategies ?cm) PhaseFailed = None"
    and p: "is_CurrentPhase ?s \<notin> set (PhaseFailed # phaseOrder)" by code_simp+
  have c: "map_option fst (cached_state map_kube (cm_stateManager ?cm) sample_name) = Some ?s"
    by (rule sample_cmE [of "''Pending''"]) (auto simp: RegisterPhaseExecutor_def set_sm_def cached_state_def)
  have e: "fmlookup (cm_phaseExecutors ?cm) PhaseFailed = None"
    by (rule sample_cmE [of "''Pending''"]) (auto simp: RegisterPhaseExecutor_def set_sm_def NewCoordinationManager_def
        initializeDependencies_def initializeTransitions_def initializeTimeouts_def initializeErrorStrategies_def Let_def
        simp del: fold_simps split: outcome.splits)
  have "?up (sm_cluster (cm_stateManager ?cm))" using u by (metis isl_def sum.exhaust_sel)
  with x l d c sample_cm_rest [of "''Pending''"] have rest: "at_rest map_kube ?up ?cm sample_name ?s (5 + 30 * Minute)"
    unfolding at_rest_def sm_at_rest_def by (cases "cached_state map_kube (cm_stateManager ?cm) sample_name") auto
  have calm: "calm (\<lambda>_. sample_env 6) (5 + 30 * Minute)" by (simp add: calm_def Minute_def Second_def)
  show ?thesis
    using unknown_phase_fails [OF rest calm map_kube_ok(2) up p _ e q, of 6] sample_cm_rest(4) by simp
qed

text \<open>The transitions that the manager accepts are the steps of the processing order and the failures: a
  phase may be followed by the next one in the order, and every phase but the first and the last by
  \<open>Failed\<close>; nothing leaves \<open>Completed\<close> or \<open>Failed\<close>, and no other phase is known.\<close>

theorem transitions_follow_order:
  assumes "NewCoordinationManager sm mem cfg = Ret cm"
  shows "isValidTransition cm p q \<longleftrightarrow>
    (p, q) \<in> set (zip phaseOrder (tl phaseOrder)) \<or> (q = PhaseFailed \<and> p \<in> set (tl (butlast phaseOrder)))"
  using New_std_tables [OF assms] by (auto simp: isValidTransition_def std_transition phaseOrder_def)

theorem transitions_follow_order_witness:
  "\<exists>cm. NewCoordinationManager (sample_sm ''Pending'') sample_mem None = Ret cm
     \<and> isValidTransition cm PhaseGitOpsCommit PhaseDeploymentVerification
     \<and> \<not> isValidTransition cm PhaseIntentReceived PhaseFailed"
proof -
  obtain cm where cm: "NewCoordinationManager (sample_sm ''Pending'') sample_mem None = Ret cm" by (rule sample_cmE)
  have "isValidTransition cm PhaseGitOpsCommit PhaseDeploymentVerification"
    unfolding transitions_follow_order [OF cm] by code_simp
  moreover have "\<not> isValidTransition cm PhaseIntentReceived PhaseFailed"
    unfolding transitions_follow_order [OF cm] by code_simp
  ultimately show ?thesis using cm by blast
qed

text \<open>\<open>TransitionPhase\<close> never reaches \<open>ResourcePlanning\<close>, \<open>ManifestGeneration\<close>, \<open>GitOpsCommit\<close> or
  \<open>DeploymentVerification\<close>: it looks for a condition whose type is the name of the phase before, and the
  only conditions that the state manager makes have the type \<open>Ready\<close>. The call returns, with an
  error, and the queue is as it was.\<close>

theorem TransitionPhase_blocked:
  assumes "std_tables cm" and "sm_inv K (cm_stateManager cm)" and "kube_get K" and "env_ok K (env 0)"
    and "q \<in> set [PhaseResourcePlanning, PhaseManifestGeneration, PhaseGitOpsCommit, PhaseDeploymentVerification]"
  shows "\<exists>e cm'. CM_TransitionPhase K env t1 t2 cm n p q = Some (Some e, cm')
    \<and> (e = CM_InvalidTransition p q \<or> (\<exists>d. e = CM_NotMet d)) \<and> same_queue cm cm'"
proof -
  from std_dependencies [OF assms(1,5)] obtain d where
    d: "fmlookup (cm_dependencies cm) q = Some [d]" "d \<noteq> ''Ready''" by blast
  from GetIntentState_ok [OF assms(2,4,3), of n] obtain r sm' where
    g: "GetIntentState K (env 0) (cm_stateManager cm) n = Some (r, sm')" "get_post K (cm_stateManager cm) n r sm'" by blast
  have "\<not> phase_condition_met (sm_states sm' a) d" if "r = Inr a" for a
  proof -
    have "intent_ok (sm_states sm' a)"
      using g(2) that sm_relD(1) [OF _ assms(2)] sm_invD(3) by (auto simp: get_post_def points_to_def)
    with d(2) show ?thesis by (auto simp: intent_ok_def phase_condition_met_def list_all_iff list_ex_iff)
  qed
  then have "\<exists>e. checkPhaseDependencies K (env 0) cm n q = Some (Some e, set_sm cm sm')"
    using d(1) g(1) by (auto simp: checkPhaseDependencies_def split: sum.splits)
  then show ?thesis by (auto simp: CM_TransitionPhase_def)
qed

theorem TransitionPhase_blocked_witness:
  "\<exists>e cm'. CM_TransitionPhase map_kube (\<lambda>_. sample_env 6) 6 6 (sample_cm ''LLMProcessing'') sample_name
      PhaseLLMProcessing PhaseResourcePlanning = Some (Some e, cm')"
  using TransitionPhase_blocked [OF sample_cm_rest(1,5) map_kube_ok(2), of "\<lambda>_. sample_env 6" PhaseResourcePlanning]
  by fastforce

text \<open>Every state change that the state manager publishes is lost on its way to the coordination manager:
  the handler takes the text \<open>namespace/name\<close> of the event for a name in the namespace \<open>default\<close>, no
  such object exists, and the handler returns an error without queueing anything.\<close>

theorem state_events_lost:
  assumes "kube_names K" and "kube_get K" and "env_ok K env" and "sm_inv K (cm_stateManager cm)"
  shows "\<exists>err cm'. handleStateChangeEvent K env t1 t2 cm (processing_event K ev) = Some (Some (CM_GetState err), cm')
    \<and> same_queue cm cm'"
proof -
  let ?n = "parseIntentName (pv_IntentID (processing_event K ev))"
  have "\<not> valid_name (nn_Namespace ?n) (nn_Name ?n)"
    using assms(1) by (simp add: parseIntentName_def processing_event_def valid_name_def kube_names_def)
  from invalid_name_fails [OF assms(4,1-3) this] show ?thesis
    by (auto simp: handleStateChangeEvent_def ProcessIntent_def)
qed

theorem state_events_lost_witness:
  "\<exists>err cm'. handleStateChangeEvent map_kube (sample_env 6) 6 6 (sample_cm ''LLMProcessing'')
      (processing_event map_kube \<lparr>sce_Type = ''state.changed'', sce_IntentName = sample_name, sce_NewPhase = PhaseFailed,
         sce_Version = ''2'', sce_Timestamp = 6, sce_Metadata = Raw (Json_object fmempty)\<rparr>)
    = Some (Some (CM_GetState err), cm')"
  using state_events_lost [OF map_kube_ok(1,2) sample_env_simps(2) sample_cm_rest(5)] by blast

text \<open>C10: A phase of an intent is executed at most once. When its task has become active, no step of the
  manager ends that: the workers never report completion or failure to the queue. So in every
  later state the task is active and not pending, and queueing the phase again is refused, also
  after the retry strategy has counted a retry.\<close>

theorem tasks_run_once:
  assumes "cm_inv cm" and "fmlookup (eq_activeTasks (cm_executionQueue cm)) (task_key n q) = Some a"
    and "(cm_step K)\<^sup>*\<^sup>* cm cm'"
  shows "fmlookup (eq_activeTasks (cm_executionQueue cm')) (task_key n q) = Some a
    \<and> fmlookup (eq_pendingTasks (cm_executionQueue cm')) (task_key n q) = None
    \<and> (\<forall>env t1 t2 b sm. GetIntentState K env (cm_stateManager cm') n = Some (Inr b, sm)
         \<longrightarrow> determineNextPhase cm' (sm_states sm b) = q \<longrightarrow> q \<noteq> []
         \<longrightarrow> map_option fst (ProcessIntent K env t1 t2 cm' n) = Some (Some (CM_Enqueue (TaskAlreadyActive (task_key n q)))))"
proof -
  from cm_steps_keep [OF assms(3,1)] assms(2) have inv: "cm_inv cm'"
    and act: "fmlookup (eq_activeTasks (cm_executionQueue cm')) (task_key n q) = Some a" by blast+
  then have "fmlookup (eq_pendingTasks (cm_executionQueue cm')) (task_key n q) = None"
    unfolding cm_inv_def queue_inv_def by (metis option.distinct(1))
  moreover have "fst (submit_task (set_sm cm' sm) task) = Some (CM_Enqueue (TaskAlreadyActive (task_key n q)))"
    if "getTaskKey task = task_key n q" for sm task
    using act that by (simp add: submit_task_def set_sm_def Enqueue_def Let_def case_prod_beta)
  ultimately show ?thesis using act by (simp add: ProcessIntent_def getTaskKey_def)
qed

theorem tasks_run_once_witness:
  "\<exists>(cm :: kmap CoordinationManager) a. fmlookup (eq_activeTasks (cm_executionQueue cm)) (task_key sample_name PhaseLLMProcessing) = Some a
     \<and> fmlookup (eq_activeTasks (processQueue (cm_executionQueue cm))) (task_key sample_name PhaseLLMProcessing) = Some a
     \<and> fmlookup (eq_pendingTasks (processQueue (cm_executionQueue cm))) (task_key sample_name PhaseLLMProcessing) = None"
proof -
  let ?cm = "sample_cm PhaseIntentReceived"
  let ?task = "\<lparr>et_IntentName = sample_name, et_Phase = PhaseLLMProcessing, et_Priority = 0, et_Timestamp = 6,
      et_Context = None, et_RetryCount = 0, et_MaxRetries = 0, et_Dependencies = [], et_index = 0\<rparr>"
  have "fmlookup (eq_activeTasks (cm_executionQueue ?cm)) (getTaskKey ?task) = None" by (simp add: sample_cm_rest(4))
  from submit_idle [OF sample_cm_rest(2,3) _ this] obtain cm1 q2 where
    s: "submit_task ?cm ?task = (None, cm1)" "receive_task (processQueue (cm_executionQueue cm1)) = Some (cm_nextTask ?cm, q2)"
    "fmlookup (eq_activeTasks q2) (getTaskKey ?task) \<noteq> None" by auto
  define cm2 where "cm2 = cm1\<lparr>cm_executionQueue := processQueue (cm_executionQueue cm1)\<rparr>"
  have "cm_inv cm2" unfolding cm2_def
    by (rule cm_step_keeps(1) [OF step_queue submit_task_inv(1) [OF sample_cm_rest(2) s(1)]])
  moreover from s(2,3) obtain a where
    a: "fmlookup (eq_activeTasks (cm_executionQueue cm2)) (task_key sample_name PhaseLLMProcessing) = Some a"
    by (auto simp: cm2_def receive_task_def getTaskKey_def split: list.splits)
  moreover have "(cm_step map_kube)\<^sup>*\<^sup>* cm2 (cm2\<lparr>cm_executionQueue := processQueue (cm_executionQueue cm2)\<rparr>)"
    by (rule r_into_rtranclp) (rule step_queue)
  ultimately show ?thesis
    using tasks_run_once [of cm2 sample_name PhaseLLMProcessing a map_kube "cm2\<lparr>cm_executionQueue := processQueue (cm_executionQueue cm2)\<rparr>"]
    by auto
qed

end
