(* ===== verification/Porch_Types.thy ===== *)
theory Porch_Types
  imports Go_Prelude
begin

text \<open>
  References to package revisions (\<open>pkg/nephio/porch/types.go\<close>), which the version solver, the client and the life-cycle
  manager share, and the key that identifies one.
\<close>

record PackageReference =
  rf_Repository :: string
  rf_PackageName :: string
  rf_Revision :: string

definition GetPackageKey :: "PackageReference \<Rightarrow> string" where
  "GetPackageKey pr = rf_Repository pr @ ''/'' @ rf_PackageName pr @ ''@'' @ rf_Revision pr"

end
