(* ===== verification/Sat_Solver.thy ===== *)
theory Sat_Solver
  imports Porch_Types Go_Strconv "HOL-Library.List_Lexorder" "HOL-Library.Char_ord"
begin

text \<open>
  The version solver of the dependency resolution (\<open>pkg/nephio/porch/dependency_sat_solver.go\<close>): it turns version
  requirements into clauses (one version of each package, not two) and searches an assignment
  with unit propagation, decisions, learning and restarts.

  Variables and clauses are shared through pointers and written through them, so they live in two
  stores. The package \<open>semver\<close> is a parameter. The order in which a map is visited and the state of the
  context in each iteration of the main loop are an environment; the pointers in the requirements are
  not nil.
\<close>

section \<open>Model\<close>

subsection \<open>Data\<close>

record VersionConstraint =
  vc_Type :: string
  vc_Expression :: string
  vc_Priority :: int
  vc_Operator :: string
  vc_Version :: string

record VersionRequirement =
  vr_Name :: string
  vr_Version :: string
  vr_Constraint :: string
  vr_PackageRef :: PackageReference
  vr_Constraints :: "VersionConstraint list"

record SATVariable =
  va_ID :: string
  va_PackageRef :: PackageReference
  va_Version :: string
  va_Domain :: "string list"
  va_Constraints :: "VersionConstraint list"
  va_DecisionLevel :: int
  va_Reason :: "addr option"
  va_Watched :: "addr list"

record SATLiteral =
  li_Variable :: addr
  li_Positive :: bool
  li_Version :: string

record SATClause =
  cl_ID :: string
  cl_Literals :: "SATLiteral list"
  cl_Satisfied :: bool
  cl_Watched :: "int \<times> int"
  cl_Learned :: bool
  cl_Activity :: rat

record SATStatistics =
  ss_Variables :: int
  ss_Clauses :: int
  ss_Decisions :: int
  ss_Conflicts :: int
  ss_Propagations :: int
  ss_Backtracks :: int
  ss_LearnedClauses :: int
  ss_Restarts :: int
  ss_SolveTime :: duration

record SATSolverConfigImpl =
  sf_MaxDecisions :: int
  sf_MaxConflicts :: int
  sf_RestartThreshold :: int
  sf_DecayFactor :: rat
  sf_ClauseDecay :: rat
  sf_RandomSeed :: int
  sf_Timeout :: duration
  sf_EnableLearning :: bool
  sf_EnableVSIDS :: bool

text \<open>The solver; \<open>so_var\<close> and \<open>so_clause\<close> are the stores. Its fields that no function uses are left out.\<close>

record SATSolverImpl =
  so_variables :: "(string, addr) fmap"
  so_var :: "addr \<Rightarrow> SATVariable"
  so_nextVar :: addr
  so_clauses :: "addr list"
  so_clause :: "addr \<Rightarrow> SATClause"
  so_nextClause :: addr
  so_assignments :: "(string, bool) fmap"
  so_statistics :: SATStatistics
  so_config :: SATSolverConfigImpl

text \<open>The solution; its fields that the solver leaves at their zero value are left out.\<close>

record VersionSelection =
  sel_SelectedVersion :: string
  sel_Reason :: string
  sel_Alternatives :: "string list"
  sel_Confidence :: rat

record SolutionStatistics =
  sol_Variables :: int
  sol_Clauses :: int
  sol_Decisions :: int
  sol_Conflicts :: int
  sol_Propagations :: int
  sol_Backtracks :: int
  sol_LearnedClauses :: int
  sol_SolveTime :: duration

record VersionSolution =
  vs_Success :: bool
  vs_Solutions :: "(string, VersionSelection) fmap"
  vs_Algorithm :: string
  vs_Statistics :: "SolutionStatistics option"

datatype sat_error =
    SAT_AvailableVersions string string
  | SAT_NoValidVersions string
  | SAT_Initialize sat_error
  | SAT_Timeout
  | SAT_Unsatisfiable
  | SAT_NoUnassigned
  | SAT_MaxDecisions
  | SAT_MaxConflicts

text \<open>The functions of \<open>Masterminds/semver\<close> that are called, and the choices of the run time: whether the
  context is done and the order of the variables, in each iteration; the order in which clauses are
  created for each requirement; the order of the assignments.\<close>

record ('v, 'c) SemVer =
  sv_NewVersion :: "string \<Rightarrow> string + 'v"
  sv_NewConstraint :: "string \<Rightarrow> string + 'c"
  sv_Check :: "'c \<Rightarrow> 'v \<Rightarrow> bool"

record sat_env =
  sn_done :: "nat \<Rightarrow> bool"
  sn_select :: "nat \<Rightarrow> (string, addr) fmap \<Rightarrow> string list"
  sn_create :: "nat \<Rightarrow> (string, addr) fmap \<Rightarrow> string list"
  sn_convert :: "(string, bool) fmap \<Rightarrow> string list"

definition sat_env_ok :: "sat_env \<Rightarrow> bool" where
  "sat_env_ok env \<longleftrightarrow> (\<forall>i m. ranges_over m (sn_select env i m)) \<and> (\<forall>i m. ranges_over m (sn_create env i m))
     \<and> (\<forall>m. ranges_over m (sn_convert env m))"

definition zeroStatistics :: SATStatistics where
  "zeroStatistics = \<lparr>ss_Variables = 0, ss_Clauses = 0, ss_Decisions = 0, ss_Conflicts = 0, ss_Propagations = 0,
     ss_Backtracks = 0, ss_LearnedClauses = 0, ss_Restarts = 0, ss_SolveTime = 0\<rparr>"

definition DefaultSATConfig :: SATSolverConfigImpl where
  "DefaultSATConfig = \<lparr>sf_MaxDecisions = 10000, sf_MaxConflicts = 1000, sf_RestartThreshold = 100,
     sf_DecayFactor = f64_round (95 / 100), sf_ClauseDecay = f64_round (999 / 1000), sf_RandomSeed = 0,
     sf_Timeout = 5 * Minute, sf_EnableLearning = True, sf_EnableVSIDS = True\<rparr>"

text \<open>The stores start with arbitrary contents; no address is allocated.\<close>

definition NewSATSolver :: "(addr \<Rightarrow> SATVariable) \<Rightarrow> (addr \<Rightarrow> SATClause) \<Rightarrow> SATSolverConfigImpl option \<Rightarrow> SATSolverImpl" where
  "NewSATSolver vars0 clauses0 config0 =
     \<lparr>so_variables = fmempty, so_var = vars0, so_nextVar = 0, so_clauses = [], so_clause = clauses0, so_nextClause = 0,
      so_assignments = fmempty, so_statistics = zeroStatistics,
      so_config = (case config0 of None \<Rightarrow> DefaultSATConfig | Some c \<Rightarrow> c)\<rparr>"

subsection \<open>Versions and constraints\<close>

definition getAvailableVersions :: "PackageReference \<Rightarrow> string + string list" where
  "getAvailableVersions ref = Inr [''1.0.0'', ''1.1.0'', ''1.2.0'', ''2.0.0'', ''2.1.0'']"

definition constraintToSemver :: "VersionConstraint \<Rightarrow> string" where
  "constraintToSemver c =
     (if vc_Operator c = ''='' then ''= '' @ vc_Version c
      else if vc_Operator c = ''>'' then ''> '' @ vc_Version c
      else if vc_Operator c = ''>='' then ''>= '' @ vc_Version c
      else if vc_Operator c = ''<'' then ''< '' @ vc_Version c
      else if vc_Operator c = ''<='' then ''<= '' @ vc_Version c
      else if vc_Operator c = ''~'' then ''~ '' @ vc_Version c
      else if vc_Operator c = ''^'' then ''^ '' @ vc_Version c
      else vc_Version c)"

definition satisfiesConstraints :: "('v, 'c) SemVer \<Rightarrow> string \<Rightarrow> VersionConstraint list \<Rightarrow> bool" where
  "satisfiesConstraints S version constraints =
     (case sv_NewVersion S version of
        Inl _ \<Rightarrow> False
      | Inr v \<Rightarrow> list_all (\<lambda>constraint.
          case sv_NewConstraint S (constraintToSemver constraint) of Inl _ \<Rightarrow> False | Inr c \<Rightarrow> sv_Check S c v) constraints)"

definition filterVersionsByConstraints ::
    "('v, 'c) SemVer \<Rightarrow> string list \<Rightarrow> VersionConstraint list \<Rightarrow> string list" where
  "filterVersionsByConstraints S versions constraints =
     filter (\<lambda>version. satisfiesConstraints S version constraints) versions"

subsection \<open>Building the problem\<close>

definition set_stat :: "(SATStatistics \<Rightarrow> SATStatistics) \<Rightarrow> SATSolverImpl \<Rightarrow> SATSolverImpl" where
  "set_stat f s = s\<lparr>so_statistics := f (so_statistics s)\<rparr>"

definition add_variable :: "SATVariable \<Rightarrow> SATSolverImpl \<Rightarrow> SATSolverImpl" where
  "add_variable v s = s\<lparr>so_var := (so_var s)(so_nextVar s := v), so_nextVar := Suc (so_nextVar s),
     so_variables := fmupd (va_ID v) (so_nextVar s) (so_variables s)\<rparr>"

definition add_clause :: "SATClause \<Rightarrow> SATSolverImpl \<Rightarrow> SATSolverImpl" where
  "add_clause c s = s\<lparr>so_clause := (so_clause s)(so_nextClause s := c), so_nextClause := Suc (so_nextClause s),
     so_clauses := so_clauses s @ [so_nextClause s]\<rparr>"

definition createVariables ::
    "('v, 'c) SemVer \<Rightarrow> VersionRequirement \<Rightarrow> SATSolverImpl \<Rightarrow> sat_error option \<times> SATSolverImpl" where
  "createVariables S req s =
     (let packageKey = GetPackageKey (vr_PackageRef req)
      in case getAvailableVersions (vr_PackageRef req) of
           Inl err \<Rightarrow> (Some (SAT_AvailableVersions packageKey err), s)
         | Inr availableVersions \<Rightarrow>
             let validVersions = filterVersionsByConstraints S availableVersions (vr_Constraints req)
             in if validVersions = [] then (Some (SAT_NoValidVersions packageKey), s)
                else (None, fold (\<lambda>version. add_variable
                        \<lparr>va_ID = packageKey @ ''@'' @ version, va_PackageRef = vr_PackageRef req, va_Version = version,
                         va_Domain = validVersions, va_Constraints = vr_Constraints req, va_DecisionLevel = 0,
                         va_Reason = None, va_Watched = []\<rparr>) validVersions s))"

definition new_clause :: "string \<Rightarrow> SATLiteral list \<Rightarrow> bool \<Rightarrow> SATClause" where
  "new_clause cid literals learned = \<lparr>cl_ID = cid, cl_Literals = literals, cl_Satisfied = False, cl_Watched = (0, 0),
     cl_Learned = learned, cl_Activity = 1\<rparr>"

text \<open>The clauses of one requirement, in the order in which they are appended.\<close>

definition at_most_one :: "string \<Rightarrow> SATLiteral list \<Rightarrow> SATClause list" where
  "at_most_one packageKey literals =
     concat (map (\<lambda>i. map (\<lambda>j. new_clause (''at-most-one-'' @ packageKey @ ''-'' @ strconv_Itoa (int i) @ ''-'' @ strconv_Itoa (int j))
         [(literals ! i)\<lparr>li_Positive := False\<rparr>, (literals ! j)\<lparr>li_Positive := False\<rparr>] False)
       [i + 1..<length literals]) [0..<length literals])"

definition package_literals :: "string list \<Rightarrow> string \<Rightarrow> SATSolverImpl \<Rightarrow> SATLiteral list" where
  "package_literals order packageKey s =
     map (\<lambda>varID. let a = the (fmlookup (so_variables s) varID)
            in \<lparr>li_Variable = a, li_Positive = True, li_Version = va_Version (so_var s a)\<rparr>)
       (filter (\<lambda>varID. strings_HasPrefix varID (packageKey @ ''@'')) order)"

definition createClauses :: "string list \<Rightarrow> VersionRequirement \<Rightarrow> SATSolverImpl \<Rightarrow> SATSolverImpl" where
  "createClauses order req s =
     (let packageKey = GetPackageKey (vr_PackageRef req);
          literals = package_literals order packageKey s;
          s1 = (if literals \<noteq> [] then add_clause (new_clause (''at-least-one-'' @ packageKey) literals False) s else s)
      in fold add_clause (at_most_one packageKey literals) s1)"

definition initializeWatchedLiterals :: "SATSolverImpl \<Rightarrow> SATSolverImpl" where
  "initializeWatchedLiterals s =
     s\<lparr>so_clause := (\<lambda>c. if c \<in> set (so_clauses s) \<and> 2 \<le> length (cl_Literals (so_clause s c))
                       then (so_clause s c)\<lparr>cl_Watched := (0, 1)\<rparr> else so_clause s c)\<rparr>"

definition addConflictClauses :: "SATSolverImpl \<Rightarrow> sat_error option \<times> SATSolverImpl" where
  "addConflictClauses s = (None, s)"

fun create_all_variables ::
    "('v, 'c) SemVer \<Rightarrow> VersionRequirement list \<Rightarrow> SATSolverImpl \<Rightarrow> sat_error option \<times> SATSolverImpl" where
  "create_all_variables S [] s = (None, s)"
| "create_all_variables S (req # reqs) s =
     (case createVariables S req s of
        (Some err, s1) \<Rightarrow> (Some err, s1)
      | (None, s1) \<Rightarrow> create_all_variables S reqs s1)"

fun create_all_clauses :: "sat_env \<Rightarrow> nat \<Rightarrow> VersionRequirement list \<Rightarrow> SATSolverImpl \<Rightarrow> SATSolverImpl" where
  "create_all_clauses env i [] s = s"
| "create_all_clauses env i (req # reqs) s =
     create_all_clauses env (Suc i) reqs (createClauses (sn_create env i (so_variables s)) req s)"

definition initialize ::
    "('v, 'c) SemVer \<Rightarrow> sat_env \<Rightarrow> VersionRequirement list \<Rightarrow> SATSolverImpl \<Rightarrow> sat_error option \<times> SATSolverImpl" where
  "initialize S env reqs s =
     (case create_all_variables S reqs s of
        (Some err, s1) \<Rightarrow> (Some err, s1)
      | (None, s1) \<Rightarrow>
          (case addConflictClauses (create_all_clauses env 0 reqs s1) of
             (Some err, s2) \<Rightarrow> (Some err, s2)
           | (None, s2) \<Rightarrow>
               let s3 = initializeWatchedLiterals s2
               in (None, set_stat (\<lambda>st. st\<lparr>ss_Variables := map_len (so_variables s3),
                                          ss_Clauses := int (length (so_clauses s3))\<rparr>) s3)))"

subsection \<open>Propagation\<close>

definition assign :: "addr \<Rightarrow> bool \<Rightarrow> int \<Rightarrow> addr option \<Rightarrow> SATSolverImpl \<Rightarrow> SATSolverImpl" where
  "assign variable val level reason s =
     s\<lparr>so_assignments := fmupd (va_ID (so_var s variable)) val (so_assignments s),
       so_var := (so_var s)(variable := (so_var s variable)\<lparr>va_DecisionLevel := level, va_Reason := reason\<rparr>)\<rparr>"

definition getAssignment :: "SATSolverImpl \<Rightarrow> addr \<Rightarrow> bool option" where
  "getAssignment s variable = fmlookup (so_assignments s) (va_ID (so_var s variable))"

definition allVariablesAssigned :: "SATSolverImpl \<Rightarrow> bool" where
  "allVariablesAssigned s \<longleftrightarrow> map_len (so_assignments s) = map_len (so_variables s)"

text \<open>The loop over the literals of a clause: whether one is true, and the unassigned ones before it.\<close>

fun scan_literals :: "SATSolverImpl \<Rightarrow> SATLiteral list \<Rightarrow> SATLiteral list \<Rightarrow> bool \<times> SATLiteral list" where
  "scan_literals s [] unassigned = (False, unassigned)"
| "scan_literals s (literal # literals) unassigned =
     (case getAssignment s (li_Variable literal) of
        None \<Rightarrow> scan_literals s literals (unassigned @ [literal])
      | Some val \<Rightarrow>
          if (li_Positive literal \<and> val) \<or> (\<not> li_Positive literal \<and> \<not> val) then (True, unassigned)
          else scan_literals s literals unassigned)"

text \<open>The body of the loop over the clauses: a conflict, whether something was assigned, the new state.\<close>

definition propagate_clause :: "int \<Rightarrow> SATSolverImpl \<Rightarrow> addr \<Rightarrow> addr option \<times> bool \<times> SATSolverImpl" where
  "propagate_clause level s c =
     (if cl_Satisfied (so_clause s c) then (None, False, s)
      else let (hasTrue, unassigned) = scan_literals s (cl_Literals (so_clause s c)) []
           in if hasTrue
              then (None, False, s\<lparr>so_clause := (so_clause s)(c := (so_clause s c)\<lparr>cl_Satisfied := True\<rparr>)\<rparr>)
              else (case unassigned of
                      [] \<Rightarrow> (Some c, False, s)
                    | [literal] \<Rightarrow>
                        (None, True, set_stat (\<lambda>st. st\<lparr>ss_Propagations := inc64 (ss_Propagations st)\<rparr>)
                           (assign (li_Variable literal) (li_Positive literal) level (Some c) s))
                    | _ \<Rightarrow> (None, False, s)))"

fun propagate_pass :: "int \<Rightarrow> SATSolverImpl \<Rightarrow> addr list \<Rightarrow> bool \<Rightarrow> addr option \<times> bool \<times> SATSolverImpl" where
  "propagate_pass level s [] changed = (None, changed, s)"
| "propagate_pass level s (c # cs) changed =
     (case propagate_clause level s c of
        (Some conflict, _, s1) \<Rightarrow> (Some conflict, changed, s1)
      | (None, ch, s1) \<Rightarrow> propagate_pass level s1 cs (changed \<or> ch))"

subsection \<open>Conflicts\<close>

definition backtrack :: "int \<Rightarrow> SATSolverImpl \<Rightarrow> int \<times> SATSolverImpl" where
  "backtrack level s =
     (let undone = (\<lambda>a. a |\<in>| fmran (so_variables s) \<and> va_DecisionLevel (so_var s a) > level)
      in (level, s\<lparr>so_assignments := fmfilter (\<lambda>x. \<not> fBex (fmran (so_variables s)) (\<lambda>a. undone a \<and> va_ID (so_var s a) = x)) (so_assignments s),
            so_var := (\<lambda>a. if undone a then (so_var s a)\<lparr>va_DecisionLevel := - 1, va_Reason := None\<rparr> else so_var s a),
            so_clause := (\<lambda>c. if c \<in> set (so_clauses s) then (so_clause s c)\<lparr>cl_Satisfied := False\<rparr> else so_clause s c)\<rparr>))"

definition restart :: "SATSolverImpl \<Rightarrow> int \<times> SATSolverImpl" where
  "restart s =
     (0, s\<lparr>so_assignments := fmempty,
           so_var := (\<lambda>a. if a |\<in>| fmran (so_variables s) then (so_var s a)\<lparr>va_DecisionLevel := - 1, va_Reason := None\<rparr> else so_var s a),
           so_clause := (\<lambda>c. if c \<in> set (so_clauses s) then (so_clause s c)\<lparr>cl_Satisfied := False\<rparr> else so_clause s c)\<rparr>)"

text \<open>The map of seen variables is written and never read.\<close>

fun collect_literals ::
    "SATSolverImpl \<Rightarrow> int \<Rightarrow> SATLiteral list \<Rightarrow> SATLiteral list \<Rightarrow> int \<Rightarrow> SATLiteral list \<times> int" where
  "collect_literals s decisionLevel [] learned backtrackLevel = (learned, backtrackLevel)"
| "collect_literals s decisionLevel (literal # literals) learned backtrackLevel =
     (let l = va_DecisionLevel (so_var s (li_Variable literal))
      in if l = decisionLevel then collect_literals s decisionLevel literals learned backtrackLevel
         else if l > 0
              then collect_literals s decisionLevel literals
                     (learned @ [literal\<lparr>li_Positive := \<not> li_Positive literal\<rparr>])
                     (if l > backtrackLevel then l else backtrackLevel)
              else collect_literals s decisionLevel literals learned backtrackLevel)"

definition analyzeConflict :: "SATSolverImpl \<Rightarrow> addr \<Rightarrow> int \<Rightarrow> SATClause option \<times> int" where
  "analyzeConflict s conflict decisionLevel =
     (let (learned, backtrackLevel) = collect_literals s decisionLevel (cl_Literals (so_clause s conflict)) [] 0
      in if learned \<noteq> []
         then (Some (new_clause (''learned-'' @ strconv_Itoa (ss_LearnedClauses (so_statistics s))) learned True), backtrackLevel)
         else (None, wrap64 (decisionLevel - 1)))"

subsection \<open>The propagation loop ends\<close>

text \<open>What a clause means under the assignments, and what propagation leaves alone.\<close>

definition lit_true :: "SATSolverImpl \<Rightarrow> SATLiteral \<Rightarrow> bool" where
  "lit_true s l \<longleftrightarrow> getAssignment s (li_Variable l) = Some (li_Positive l)"

definition lit_id :: "SATSolverImpl \<Rightarrow> SATLiteral \<Rightarrow> string" where
  "lit_id s l = va_ID (so_var s (li_Variable l))"

definition clause_true :: "SATSolverImpl \<Rightarrow> addr \<Rightarrow> bool" where
  "clause_true s c \<longleftrightarrow> (\<exists>l \<in> set (cl_Literals (so_clause s c)). lit_true s l)"

definition same_problem :: "SATSolverImpl \<Rightarrow> SATSolverImpl \<Rightarrow> bool" where
  "same_problem s s' \<longleftrightarrow> so_variables s' = so_variables s \<and> so_clauses s' = so_clauses s
     \<and> so_nextVar s' = so_nextVar s \<and> so_nextClause s' = so_nextClause s \<and> so_config s' = so_config s
     \<and> (\<forall>a. va_ID (so_var s' a) = va_ID (so_var s a)) \<and> (\<forall>a. va_Watched (so_var s' a) = va_Watched (so_var s a))
     \<and> (\<forall>c. cl_Literals (so_clause s' c) = cl_Literals (so_clause s c))"

definition clause_ids :: "SATSolverImpl \<Rightarrow> string set" where
  "clause_ids s = (\<Union>c \<in> set (so_clauses s). lit_id s ` set (cl_Literals (so_clause s c)))"

lemma same_problem_refl [simp]: "same_problem s s"
  by (simp add: same_problem_def)

lemma same_problem_trans [trans]: "same_problem s s' \<Longrightarrow> same_problem s' s'' \<Longrightarrow> same_problem s s''"
  by (simp add: same_problem_def)

lemma same_problemD:
  assumes "same_problem s s'"
  shows "so_variables s' = so_variables s" "so_clauses s' = so_clauses s" "so_nextVar s' = so_nextVar s"
    "so_nextClause s' = so_nextClause s" "so_config s' = so_config s" "va_ID (so_var s' a) = va_ID (so_var s a)"
    "va_Watched (so_var s' a) = va_Watched (so_var s a)" "cl_Literals (so_clause s' c) = cl_Literals (so_clause s c)"
    "lit_id s' l = lit_id s l" "clause_ids s' = clause_ids s"
  using assms by (simp_all add: same_problem_def lit_id_def clause_ids_def)

lemma same_problem_simps [simp]:
  "same_problem s (set_stat f s') = same_problem s s'"
  "same_problem s (assign a v l r s') = same_problem s s'"
  by (auto simp: same_problem_def set_stat_def assign_def)

lemma set_stat_simps [simp]:
  "so_variables (set_stat f s) = so_variables s" "so_var (set_stat f s) = so_var s" "so_clauses (set_stat f s) = so_clauses s"
  "so_clause (set_stat f s) = so_clause s" "so_assignments (set_stat f s) = so_assignments s"
  "so_config (set_stat f s) = so_config s" "so_nextVar (set_stat f s) = so_nextVar s" "so_nextClause (set_stat f s) = so_nextClause s"
  "so_statistics (set_stat f s) = f (so_statistics s)"
  by (simp_all add: set_stat_def)

lemma assign_simps [simp]:
  "so_assignments (assign a v l r s) = fmupd (va_ID (so_var s a)) v (so_assignments s)"
  "so_variables (assign a v l r s) = so_variables s" "so_clauses (assign a v l r s) = so_clauses s"
  "so_clause (assign a v l r s) = so_clause s" "so_config (assign a v l r s) = so_config s"
  "so_statistics (assign a v l r s) = so_statistics s" "so_nextVar (assign a v l r s) = so_nextVar s"
  "so_nextClause (assign a v l r s) = so_nextClause s"
  "so_var (assign a v l r s) b = (if b = a then (so_var s a)\<lparr>va_DecisionLevel := l, va_Reason := r\<rparr> else so_var s b)"
  by (simp_all add: assign_def)

lemma scan_literals_false:
  "scan_literals s ls un = (False, un') \<Longrightarrow>
     un' = un @ filter (\<lambda>l. getAssignment s (li_Variable l) = None) ls \<and> (\<forall>l \<in> set ls. \<not> lit_true s l)"
  by (induction ls arbitrary: un) (fastforce simp: lit_true_def split: option.splits if_splits)+

lemma scan_literals_true: "scan_literals s ls un = (True, un') \<Longrightarrow> \<exists>l \<in> set ls. lit_true s l"
  by (induction ls arbitrary: un) (auto simp: lit_true_def split: option.splits if_splits)

text \<open>The four outcomes for a clause.\<close>

lemma propagate_clause_cases:
  obtains (kept) "propagate_clause level s c = (None, False, s)"
      "cl_Satisfied (so_clause s c) \<or> (\<forall>l \<in> set (cl_Literals (so_clause s c)). \<not> lit_true s l)
         \<and> 2 \<le> length (filter (\<lambda>l. getAssignment s (li_Variable l) = None) (cl_Literals (so_clause s c)))"
  | (marked) "propagate_clause level s c = (None, False, s\<lparr>so_clause := (so_clause s)(c := (so_clause s c)\<lparr>cl_Satisfied := True\<rparr>)\<rparr>)"
      "clause_true s c"
  | (conflict) "propagate_clause level s c = (Some c, False, s)" "\<not> cl_Satisfied (so_clause s c)"
      "\<forall>l \<in> set (cl_Literals (so_clause s c)). getAssignment s (li_Variable l) = Some (\<not> li_Positive l)"
  | (unit) l where "propagate_clause level s c = (None, True, set_stat (\<lambda>st. st\<lparr>ss_Propagations := inc64 (ss_Propagations st)\<rparr>)
         (assign (li_Variable l) (li_Positive l) level (Some c) s))"
      "filter (\<lambda>l. getAssignment s (li_Variable l) = None) (cl_Literals (so_clause s c)) = [l]"
      "\<forall>l \<in> set (cl_Literals (so_clause s c)). \<not> lit_true s l"
proof (cases "cl_Satisfied (so_clause s c)")
  case True
  then show ?thesis by (intro kept) (simp_all add: propagate_clause_def)
next
  case ns: False
  obtain b un where sc: "scan_literals s (cl_Literals (so_clause s c)) [] = (b, un)" by fastforce
  show ?thesis
  proof (cases b)
    case True
    with sc show ?thesis using scan_literals_true [of s] ns
      by (intro marked) (auto simp: propagate_clause_def clause_true_def)
  next
    case False
    with sc have sf: "scan_literals s (cl_Literals (so_clause s c)) [] = (False, un)" by simp
    from scan_literals_false [OF sf] have un: "un = filter (\<lambda>l. getAssignment s (li_Variable l) = None) (cl_Literals (so_clause s c))"
      and nt: "\<forall>l \<in> set (cl_Literals (so_clause s c)). \<not> lit_true s l"
      by simp_all
    show ?thesis
    proof (cases un rule: remdups_adj.cases)
      case 1
      have "getAssignment s (li_Variable l) = Some (\<not> li_Positive l)" if l: "l \<in> set (cl_Literals (so_clause s c))" for l
      proof -
        from 1 un l have "getAssignment s (li_Variable l) \<noteq> None" by (auto simp: filter_empty_conv dest: sym)
        with nt l show ?thesis by (auto simp: lit_true_def)
      qed
      with 1 ns sc False show ?thesis by (intro conflict) (auto simp: propagate_clause_def)
    next
      case (2 l)
      show ?thesis by (rule unit [of l]) (use ns sf 2 un nt in \<open>simp_all add: propagate_clause_def\<close>)
    next
      case (3 l l' ls)
      then have "2 \<le> length un" by simp
      with un nt have "(\<forall>l \<in> set (cl_Literals (so_clause s c)). \<not> lit_true s l)
         \<and> 2 \<le> length (filter (\<lambda>l. getAssignment s (li_Variable l) = None) (cl_Literals (so_clause s c)))" by blast
      with 3 ns sf show ?thesis by (intro kept) (simp_all add: propagate_clause_def)
    qed
  qed
qed

definition extends_assignment :: "SATSolverImpl \<Rightarrow> SATSolverImpl \<Rightarrow> bool" where
  "extends_assignment s s' \<longleftrightarrow> (\<forall>x v. fmlookup (so_assignments s) x = Some v \<longrightarrow> fmlookup (so_assignments s') x = Some v)"

lemma propagate_clause_frame:
  assumes "propagate_clause level s c = (k, ch, s')"
  shows "same_problem s s' \<and> extends_assignment s s'"
proof (cases rule: propagate_clause_cases [of level s c])
  case (unit l)
  have "l \<in> set (filter (\<lambda>l. getAssignment s (li_Variable l) = None) (cl_Literals (so_clause s c)))" by (simp add: unit(2))
  then have "fmlookup (so_assignments s) (va_ID (so_var s (li_Variable l))) = None" by (simp add: getAssignment_def)
  moreover have "s' = set_stat (\<lambda>st. st\<lparr>ss_Propagations := inc64 (ss_Propagations st)\<rparr>)
      (assign (li_Variable l) (li_Positive l) level (Some c) s)" using unit(1) assms by simp
  ultimately show ?thesis by (auto simp: extends_assignment_def)
qed (use assms in \<open>auto simp: same_problem_def extends_assignment_def\<close>)

lemma propagate_clause_changed:
  assumes "propagate_clause level s c = (k, True, s')"
  shows "\<exists>l \<in> set (cl_Literals (so_clause s c)). fmlookup (so_assignments s) (lit_id s l) = None
    \<and> fmlookup (so_assignments s') (lit_id s l) \<noteq> None"
proof (cases rule: propagate_clause_cases [of level s c])
  case (unit l)
  have "l \<in> set (filter (\<lambda>l. getAssignment s (li_Variable l) = None) (cl_Literals (so_clause s c)))" by (simp add: unit(2))
  then have l: "l \<in> set (cl_Literals (so_clause s c))" "fmlookup (so_assignments s) (lit_id s l) = None"
    by (auto simp: getAssignment_def lit_id_def)
  moreover have "fmlookup (so_assignments s') (lit_id s l) = Some (li_Positive l)"
    using unit(1) assms by (auto simp: assign_def lit_id_def)
  ultimately show ?thesis by auto
qed (use assms in auto)

lemma propagate_pass_frame:
  "propagate_pass level s cs ch = (k, ch', s') \<Longrightarrow> same_problem s s' \<and> extends_assignment s s'"
proof (induction cs arbitrary: s ch)
  case (Cons c cs)
  obtain k1 c1 s1 where p: "propagate_clause level s c = (k1, c1, s1)" by (metis prod_cases3)
  note f = propagate_clause_frame [OF p]
  show ?case
  proof (cases k1)
    case None
    with Cons.prems p have "propagate_pass level s1 cs (ch \<or> c1) = (k, ch', s')" by simp
    from Cons.IH [OF this] f show ?thesis by (auto simp: extends_assignment_def intro: same_problem_trans)
  qed (use Cons.prems p f in auto)
qed (simp add: extends_assignment_def)

lemma propagate_pass_changed:
  assumes "propagate_pass level s cs ch = (None, True, s')" "\<not> ch"
  shows "\<exists>c \<in> set cs. \<exists>l \<in> set (cl_Literals (so_clause s c)). fmlookup (so_assignments s) (lit_id s l) = None
    \<and> fmlookup (so_assignments s') (lit_id s l) \<noteq> None"
  using assms
proof (induction cs arbitrary: s)
  case (Cons c cs)
  obtain k1 c1 s1 where p: "propagate_clause level s c = (k1, c1, s1)" by (metis prod_cases3)
  note f = propagate_clause_frame [OF p]
  from Cons.prems p have k: "k1 = None" by (auto split: option.splits)
  with Cons.prems p have pp: "propagate_pass level s1 cs c1 = (None, True, s')" by simp
  note f' = propagate_pass_frame [OF pp]
  show ?case
  proof (cases c1)
    case True
    with p have "propagate_clause level s c = (k1, True, s1)" by simp
    from propagate_clause_changed [OF this] f' show ?thesis
      by (auto simp: extends_assignment_def)
  next
    case False
    with pp have "propagate_pass level s1 cs ch = (None, True, s')" using Cons.prems(2) by simp
    from Cons.IH [OF this Cons.prems(2)] obtain d l where l: "d \<in> set cs" "l \<in> set (cl_Literals (so_clause s d))"
      "fmlookup (so_assignments s1) (lit_id s l) = None" "fmlookup (so_assignments s') (lit_id s l) \<noteq> None"
      using f by (auto simp: same_problemD)
    moreover from l(3) f have "fmlookup (so_assignments s) (lit_id s l) = None"
      unfolding extends_assignment_def by (metis option.exhaust)
    ultimately show ?thesis by auto
  qed
qed simp

function (sequential) unitPropagate :: "int \<Rightarrow> SATSolverImpl \<Rightarrow> addr option \<times> SATSolverImpl" where
  "unitPropagate level s =
     (case propagate_pass level s (so_clauses s) False of
        (Some conflict, _, s1) \<Rightarrow> (Some conflict, s1)
      | (None, True, s1) \<Rightarrow> unitPropagate level s1
      | (None, False, s1) \<Rightarrow> (None, s1))"
  by pat_completeness auto

termination
proof (relation "measure (\<lambda>(level, s). card (clause_ids s - fset (fmdom (so_assignments s))))")
  fix level :: int and s s1 k q ch
  assume "(k, q) = propagate_pass level s (so_clauses s) False" "k = None" "(ch, s1) = q" "ch = True"
  then have p: "propagate_pass level s (so_clauses s) False = (None, True, s1)" by simp
  note f = propagate_pass_frame [OF p]
  from propagate_pass_changed [OF p] obtain x where x: "x \<in> clause_ids s" "fmlookup (so_assignments s) x = None"
    "fmlookup (so_assignments s1) x \<noteq> None" by (auto simp: clause_ids_def)
  have "fset (fmdom (so_assignments s)) \<subseteq> fset (fmdom (so_assignments s1))"
    using f by (auto simp: extends_assignment_def fmlookup_dom_iff)
  moreover have "x \<in> clause_ids s - fset (fmdom (so_assignments s))" "x \<in> fset (fmdom (so_assignments s1))"
    using x by (auto simp: fmlookup_dom_iff)
  moreover have "finite (clause_ids s)" by (simp add: clause_ids_def)
  ultimately have "clause_ids s - fset (fmdom (so_assignments s1)) \<subset> clause_ids s - fset (fmdom (so_assignments s))" by blast
  moreover have "clause_ids s1 = clause_ids s" using f same_problemD(10) by blast
  ultimately show "((level, s1), level, s) \<in> measure (\<lambda>(level, s). card (clause_ids s - fset (fmdom (so_assignments s))))"
    using \<open>finite (clause_ids s)\<close> by (simp add: psubset_card_mono)
qed simp

declare unitPropagate.simps [simp del]

subsection \<open>The search\<close>

definition calculateVariableActivity :: "SATSolverImpl \<Rightarrow> addr \<Rightarrow> rat" where
  "calculateVariableActivity s variable =
     fold (\<lambda>c activity. f64_round (activity + cl_Activity (so_clause s c))) (va_Watched (so_var s variable)) 0"

definition unassigned_variables :: "string list \<Rightarrow> SATSolverImpl \<Rightarrow> addr list" where
  "unassigned_variables order s =
     filter (\<lambda>a. getAssignment s a = None) (map (\<lambda>x. the (fmlookup (so_variables s) x)) order)"

definition selectVariable :: "string list \<Rightarrow> SATSolverImpl \<Rightarrow> addr option" where
  "selectVariable order s =
     (if \<not> sf_EnableVSIDS (so_config s)
      then (case unassigned_variables order s of [] \<Rightarrow> None | a # _ \<Rightarrow> Some a)
      else fst (fold (\<lambda>a (best, bestActivity).
                  let activity = calculateVariableActivity s a
                  in if activity > bestActivity then (Some a, activity) else (best, bestActivity))
                (unassigned_variables order s) (None, 0)))"

definition handle_conflict :: "addr \<Rightarrow> int \<Rightarrow> SATSolverImpl \<Rightarrow> int \<times> SATSolverImpl" where
  "handle_conflict conflict level s =
     (if sf_EnableLearning (so_config s)
      then let (learnedClause, backtrackLevel) = analyzeConflict s conflict level;
               s1 = (case learnedClause of
                       None \<Rightarrow> s
                     | Some c \<Rightarrow> set_stat (\<lambda>st. st\<lparr>ss_LearnedClauses := inc64 (ss_LearnedClauses st)\<rparr>) (add_clause c s));
               (level1, s2) = backtrack backtrackLevel s1
           in (level1, set_stat (\<lambda>st. st\<lparr>ss_Backtracks := inc64 (ss_Backtracks st)\<rparr>) s2)
      else let (level1, s2) = backtrack (wrap64 (level - 1)) s
           in (level1, set_stat (\<lambda>st. st\<lparr>ss_Backtracks := inc64 (ss_Backtracks st)\<rparr>) s2))"

text \<open>One iteration of the main loop: a result, or the decision level and state of the next one. The
  remainder panics for a zero threshold.\<close>

datatype dpll_next =
    Return "((sat_error + (string, bool) fmap) \<times> SATSolverImpl) outcome"
  | Continue int SATSolverImpl

definition dpll_step :: "sat_env \<Rightarrow> nat \<Rightarrow> int \<Rightarrow> SATSolverImpl \<Rightarrow> dpll_next" where
  "dpll_step env i decisionLevel s =
     (if sn_done env i then Return (Ret (Inl SAT_Timeout, s))
      else case unitPropagate decisionLevel s of
        (Some conflict, s1) \<Rightarrow>
          let s2 = set_stat (\<lambda>st. st\<lparr>ss_Conflicts := inc64 (ss_Conflicts st)\<rparr>) s1
          in if decisionLevel = 0 then Return (Ret (Inl SAT_Unsatisfiable, s2))
             else let (level, s3) = handle_conflict conflict decisionLevel s2
                  in if ss_Conflicts (so_statistics s3) > 0
                     then if sf_RestartThreshold (so_config s3) = 0 then Return (Panic ''integer divide by zero'')
                          else if ss_Conflicts (so_statistics s3) smod sf_RestartThreshold (so_config s3) = 0
                               then let (level', s4) = restart (set_stat (\<lambda>st. st\<lparr>ss_Restarts := inc64 (ss_Restarts st)\<rparr>) s3)
                                    in Continue level' s4
                               else Continue level s3
                     else Continue level s3
      | (None, s1) \<Rightarrow>
          if allVariablesAssigned s1 then Return (Ret (Inr (so_assignments s1), s1))
          else case selectVariable (sn_select env i (so_variables s1)) s1 of
                 None \<Rightarrow> Return (Ret (Inl SAT_NoUnassigned, s1))
               | Some variable \<Rightarrow>
                   let level = inc64 decisionLevel;
                       s2 = set_stat (\<lambda>st. st\<lparr>ss_Decisions := inc64 (ss_Decisions st)\<rparr>) s1;
                       s3 = assign variable True level None s2
                   in if ss_Decisions (so_statistics s3) > sf_MaxDecisions (so_config s3)
                      then Return (Ret (Inl SAT_MaxDecisions, s3))
                      else if ss_Conflicts (so_statistics s3) > sf_MaxConflicts (so_config s3)
                           then Return (Ret (Inl SAT_MaxConflicts, s3))
                           else Continue level s3)"

partial_function (option) dpll_loop ::
    "sat_env \<Rightarrow> nat \<Rightarrow> int \<Rightarrow> SATSolverImpl \<Rightarrow> ((sat_error + (string, bool) fmap) \<times> SATSolverImpl) outcome option" where
  "dpll_loop env i level s =
     (case dpll_step env i level s of
        Return r \<Rightarrow> Some r
      | Continue level' s' \<Rightarrow> dpll_loop env (Suc i) level' s')"

definition dpllWithCDCL ::
    "sat_env \<Rightarrow> SATSolverImpl \<Rightarrow> ((sat_error + (string, bool) fmap) \<times> SATSolverImpl) outcome option" where
  "dpllWithCDCL env s = dpll_loop env 0 0 s"

subsection \<open>Solutions\<close>

text \<open>The versions of each package, in the order in which the assignments are visited.\<close>

definition group_version :: "string \<Rightarrow> (string, string list) fmap \<Rightarrow> (string, string list) fmap" where
  "group_version varID packageVersions =
     (let parts = strings_Split varID CHR ''@''
      in if length parts = 2
         then let old = (case fmlookup packageVersions (parts ! 0) of None \<Rightarrow> [] | Some vs \<Rightarrow> vs)
              in fmupd (parts ! 0) (old @ [parts ! 1]) packageVersions
         else packageVersions)"

definition convertToVersionSolution :: "string list \<Rightarrow> (string, bool) fmap option \<Rightarrow> VersionSolution" where
  "convertToVersionSolution order assignments0 =
     (case assignments0 of
        None \<Rightarrow> \<lparr>vs_Success = False, vs_Solutions = fmempty, vs_Algorithm = ''DPLL-CDCL'', vs_Statistics = None\<rparr>
      | Some assignments \<Rightarrow>
          let packageVersions = fold (\<lambda>varID m. if fmlookup assignments varID = Some True then group_version varID m else m)
                order fmempty
          in \<lparr>vs_Success = True,
              vs_Solutions = fmmap (\<lambda>versions. \<lparr>sel_SelectedVersion = last (sort versions),
                  sel_Reason = ''constraint_satisfaction'', sel_Alternatives = sort versions, sel_Confidence = 1\<rparr>)
                (fmfilter (\<lambda>packageKey. fmlookup packageVersions packageKey \<noteq> Some []) packageVersions),
              vs_Algorithm = ''DPLL-CDCL'', vs_Statistics = None\<rparr>)"

text \<open>\<open>Solve\<close>, with the clock at its start and after the search.\<close>

definition Solve ::
    "('v, 'c) SemVer \<Rightarrow> sat_env \<Rightarrow> time \<Rightarrow> time \<Rightarrow> VersionRequirement list \<Rightarrow> SATSolverImpl
       \<Rightarrow> ((sat_error + VersionSolution) \<times> SATSolverImpl) outcome option" where
  "Solve S env startTime endTime requirements s =
     (case initialize S env requirements s of
        (Some err, s1) \<Rightarrow> Some (Ret (Inl (SAT_Initialize err), s1))
      | (None, s1) \<Rightarrow>
          (case dpllWithCDCL env s1 of
             None \<Rightarrow> None
           | Some (Panic msg) \<Rightarrow> Some (Panic msg)
           | Some (Ret (Inl err, s2)) \<Rightarrow> Some (Ret (Inl err, s2))
           | Some (Ret (Inr solution, s2)) \<Rightarrow>
               let s3 = set_stat (\<lambda>st. st\<lparr>ss_SolveTime := time_Sub endTime startTime\<rparr>) s2;
                   st = so_statistics s3;
                   versionSolution = convertToVersionSolution (sn_convert env solution) (Some solution)
               in Some (Ret (Inr (versionSolution\<lparr>vs_Statistics := Some
                    \<lparr>sol_Variables = ss_Variables st, sol_Clauses = ss_Clauses st, sol_Decisions = ss_Decisions st,
                     sol_Conflicts = ss_Conflicts st, sol_Propagations = ss_Propagations st, sol_Backtracks = ss_Backtracks st,
                     sol_LearnedClauses = ss_LearnedClauses st, sol_SolveTime = ss_SolveTime st\<rparr>\<rparr>), s3))))"

section \<open>Lemmas\<close>

subsection \<open>What propagation guarantees\<close>

lemma unitPropagate_induct [consumes 1, case_names step]:
  assumes "unitPropagate level s = (k, s')"
    and "\<And>s s1 ch k1. propagate_pass level s (so_clauses s) False = (k1, ch, s1) \<Longrightarrow>
      (k1 = None \<Longrightarrow> ch \<Longrightarrow> P s1) \<Longrightarrow>
      (\<not> (k1 = None \<and> ch) \<Longrightarrow> k = k1 \<and> s' = s1) \<Longrightarrow> P s"
  shows "P s"
proof -
  have "l = level \<Longrightarrow> unitPropagate l s = (k, s') \<Longrightarrow> P s" for l
  proof (induction l s rule: unitPropagate.induct)
    case (1 l s)
    obtain k1 ch s1 where p: "propagate_pass level s (so_clauses s) False = (k1, ch, s1)" by (metis prod_cases3)
    show ?case
      by (rule assms(2) [OF p]) (use 1 p in \<open>auto simp: unitPropagate.simps [of level s] split: option.splits bool.splits\<close>)
  qed
  with assms(1) show ?thesis by blast
qed

lemma unitPropagate_frame: "unitPropagate level s = (k, s') \<Longrightarrow> same_problem s s' \<and> extends_assignment s s'"
proof (induction rule: unitPropagate_induct)
  case (step s s1 ch k1)
  from propagate_pass_frame [OF step(1)] step(2,3) show ?case
    by (cases "k1 = None \<and> ch") (auto simp: extends_assignment_def intro: same_problem_trans)
qed

text \<open>What every assignment keeps, propagation keeps.\<close>

lemma propagate_pass_inv:
  assumes "\<And>s c k ch s'. I s \<Longrightarrow> c \<in> set (so_clauses s) \<Longrightarrow> propagate_clause level s c = (k, ch, s') \<Longrightarrow> I s'"
    and "propagate_pass level s cs ch = (k, ch', s')" "I s" "set cs \<subseteq> set (so_clauses s)"
  shows "I s'"
  using assms(2-)
proof (induction cs arbitrary: s ch)
  case (Cons c cs)
  obtain k1 c1 s1 where p: "propagate_clause level s c = (k1, c1, s1)" by (metis prod_cases3)
  have i: "I s1" "so_clauses s1 = so_clauses s" using assms(1) [OF Cons.prems(2) _ p] Cons.prems(3) propagate_clause_frame [OF p]
    by (auto simp: same_problemD)
  show ?case
  proof (cases k1)
    case None
    with Cons.prems p have "propagate_pass level s1 cs (ch \<or> c1) = (k, ch', s')" by simp
    from Cons.IH [OF this i(1)] i(2) Cons.prems(3) show ?thesis by simp
  qed (use Cons.prems p i in auto)
qed simp

lemma unitPropagate_inv:
  assumes "\<And>s c k ch s'. I s \<Longrightarrow> c \<in> set (so_clauses s) \<Longrightarrow> propagate_clause level s c = (k, ch, s') \<Longrightarrow> I s'"
    and "unitPropagate level s = (k, s')" "I s"
  shows "I s'"
  using assms(2,3)
proof (induction rule: unitPropagate_induct)
  case (step s s1 ch k1)
  have "I s1" by (rule propagate_pass_inv [OF assms(1) step(1)]) (use step(4) in auto)
  with step(2,3) show ?case by (cases "k1 = None \<and> ch") auto
qed

text \<open>A conflict is a clause all of whose literals are false.\<close>

lemma propagate_pass_conflict:
  "propagate_pass level s cs ch = (Some c, ch', s') \<Longrightarrow> c \<in> set cs
     \<and> (\<forall>l \<in> set (cl_Literals (so_clause s' c)). getAssignment s' (li_Variable l) = Some (\<not> li_Positive l))"
proof (induction cs arbitrary: s ch)
  case (Cons d cs)
  show ?case
    by (cases rule: propagate_clause_cases [of level s d]) (use Cons in auto)
qed simp

lemma unitPropagate_conflict:
  "unitPropagate level s = (Some c, s') \<Longrightarrow> c \<in> set (so_clauses s')
     \<and> (\<forall>l \<in> set (cl_Literals (so_clause s' c)). getAssignment s' (li_Variable l) = Some (\<not> li_Positive l))"
proof (induction rule: unitPropagate_induct)
  case (step s s1 ch k1)
  show ?case
  proof (cases "k1 = None \<and> ch")
    case False
    with step.hyps have p: "propagate_pass level s (so_clauses s) False = (Some c, ch, s')" by simp
    from propagate_pass_conflict [OF p] same_problemD(2) [OF conjunct1 [OF propagate_pass_frame [OF p]]] show ?thesis by simp
  qed (use step.IH in auto)
qed

text \<open>Without a conflict every clause is marked or has two unassigned literals.\<close>

definition settled :: "SATSolverImpl \<Rightarrow> addr \<Rightarrow> bool" where
  "settled s c \<longleftrightarrow> cl_Satisfied (so_clause s c)
     \<or> 2 \<le> length (filter (\<lambda>l. getAssignment s (li_Variable l) = None) (cl_Literals (so_clause s c)))"

lemma propagate_pass_settles:
  assumes "propagate_pass level s cs False = (None, False, s')"
  shows "so_assignments s' = so_assignments s \<and> (\<forall>d. settled s d \<longrightarrow> settled s' d) \<and> (\<forall>c \<in> set cs. settled s' c)"
  using assms
proof (induction cs arbitrary: s)
  case (Cons c cs)
  have quiet: ?case if "propagate_clause level s c = (None, False, s1)" "so_assignments s1 = so_assignments s"
    "\<And>d. settled s d \<Longrightarrow> settled s1 d" "settled s1 c" for s1
    using that Cons.IH [of s1] Cons.prems by auto
  have ch: "propagate_pass level t ds True \<noteq> (None, False, t')" for t ds t'
  proof (induction ds arbitrary: t)
    case (Cons d ds)
    then show ?case by (cases "propagate_clause level t d" rule: prod_cases3) (auto split: option.splits)
  qed simp
  show ?case
  proof (cases rule: propagate_clause_cases [of level s c])
    case kept
    show ?thesis by (rule quiet [OF kept(1)]) (use kept(2) in \<open>auto simp: settled_def\<close>)
  next
    case marked
    show ?thesis by (rule quiet [OF marked(1)]) (auto simp: settled_def getAssignment_def)
  next
    case conflict
    with Cons.prems show ?thesis by simp
  next
    case (unit l)
    with Cons.prems ch show ?thesis by auto
  qed
qed simp

lemma unitPropagate_settles: "unitPropagate level s = (None, s') \<Longrightarrow> \<forall>c \<in> set (so_clauses s'). settled s' c"
proof (induction rule: unitPropagate_induct)
  case (step s s1 ch k1)
  show ?case
  proof (cases "k1 = None \<and> ch")
    case False
    with step.hyps have p: "propagate_pass level s (so_clauses s) False = (None, False, s')" by auto
    from propagate_pass_settles [OF p] same_problemD(2) [OF conjunct1 [OF propagate_pass_frame [OF p]]] show ?thesis by simp
  qed (use step.IH in auto)
qed

subsection \<open>Well-formed problems\<close>

text \<open>Literals point to the variables of the map, which is keyed by the identifiers; only variables are
  assigned; and a clause marked as satisfied has a true literal.\<close>

definition sat_wf :: "SATSolverImpl \<Rightarrow> bool" where
  "sat_wf s \<longleftrightarrow> (\<forall>c \<in> set (so_clauses s). c < so_nextClause s
       \<and> (\<forall>l \<in> set (cl_Literals (so_clause s c)). fmlookup (so_variables s) (lit_id s l) = Some (li_Variable l))
       \<and> (cl_Satisfied (so_clause s c) \<longrightarrow> clause_true s c))
     \<and> (\<forall>x a. fmlookup (so_variables s) x = Some a \<longrightarrow> va_ID (so_var s a) = x \<and> a < so_nextVar s)
     \<and> fset (fmdom (so_assignments s)) \<subseteq> fset (fmdom (so_variables s))"

definition levels_below :: "int \<Rightarrow> SATSolverImpl \<Rightarrow> bool" where
  "levels_below level s \<longleftrightarrow> (\<forall>x a. fmlookup (so_variables s) x = Some a \<longrightarrow> va_DecisionLevel (so_var s a) \<le> level)"

lemma sat_wfD:
  assumes "sat_wf s"
  shows "c \<in> set (so_clauses s) \<Longrightarrow> c < so_nextClause s"
    "c \<in> set (so_clauses s) \<Longrightarrow> l \<in> set (cl_Literals (so_clause s c)) \<Longrightarrow> fmlookup (so_variables s) (lit_id s l) = Some (li_Variable l)"
    "fmlookup (so_variables s) x = Some a \<Longrightarrow> va_ID (so_var s a) = x"
    "fset (fmdom (so_assignments s)) \<subseteq> fset (fmdom (so_variables s))"
    "c \<in> set (so_clauses s) \<Longrightarrow> cl_Satisfied (so_clause s c) \<Longrightarrow> clause_true s c"
    "fmlookup (so_variables s) x = Some a \<Longrightarrow> a < so_nextVar s"
  using assms unfolding sat_wf_def by blast+

lemma lit_true_extends: "lit_true s l \<Longrightarrow> same_problem s s' \<Longrightarrow> extends_assignment s s' \<Longrightarrow> lit_true s' l"
  by (simp add: lit_true_def getAssignment_def extends_assignment_def same_problemD)

lemma clause_true_extends: "clause_true s c \<Longrightarrow> same_problem s s' \<Longrightarrow> extends_assignment s s' \<Longrightarrow> clause_true s' c"
  by (auto simp: clause_true_def same_problemD intro: lit_true_extends)

lemma sat_wf_extends:
  assumes "sat_wf s" "same_problem s s'" "extends_assignment s s'"
    and "\<And>c. c \<in> set (so_clauses s) \<Longrightarrow> cl_Satisfied (so_clause s' c) \<Longrightarrow> cl_Satisfied (so_clause s c) \<or> clause_true s c"
    and "fset (fmdom (so_assignments s')) \<subseteq> fset (fmdom (so_variables s))"
  shows "sat_wf s'"
  using assms clause_true_extends [OF _ assms(2,3)] unfolding sat_wf_def by (auto simp: same_problemD)

lemma propagate_clause_wf:
  assumes "sat_wf s" "c \<in> set (so_clauses s)" "propagate_clause level s c = (k, ch, s')"
  shows "sat_wf s'" "levels_below level s \<Longrightarrow> levels_below level s'"
proof -
  have "sat_wf s' \<and> (levels_below level s \<longrightarrow> levels_below level s')"
  proof (cases rule: propagate_clause_cases [of level s c])
    case marked
    then have s': "s' = s\<lparr>so_clause := (so_clause s)(c := (so_clause s c)\<lparr>cl_Satisfied := True\<rparr>)\<rparr>" using assms(3) by simp
    have "sat_wf s'"
      by (rule sat_wf_extends [OF assms(1)])
        (use s' marked(2) assms(1) propagate_clause_frame [OF assms(3)] in \<open>auto simp: sat_wf_def split: if_splits\<close>)
    then show ?thesis by (simp add: s' levels_below_def)
  next
    case (unit l)
    then have s': "s' = set_stat (\<lambda>st. st\<lparr>ss_Propagations := inc64 (ss_Propagations st)\<rparr>) (assign (li_Variable l) (li_Positive l) level (Some c) s)"
      using assms(3) by simp
    have "l \<in> set (filter (\<lambda>l. getAssignment s (li_Variable l) = None) (cl_Literals (so_clause s c)))" by (simp add: unit(2))
    with assms(1,2) have l: "fmlookup (so_variables s) (lit_id s l) = Some (li_Variable l)" by (auto simp: sat_wf_def)
    have "fset (fmdom (so_assignments s')) \<subseteq> fset (fmdom (so_variables s))"
      using sat_wfD(4) [OF assms(1)] fmdomI [OF l] by (simp add: s' lit_id_def)
    moreover have "so_clause s' = so_clause s" by (simp add: s')
    ultimately have "sat_wf s'"
      using sat_wf_extends [OF assms(1) conjunct1 conjunct2, OF propagate_clause_frame propagate_clause_frame, OF assms(3) assms(3)] by simp
    then show ?thesis by (auto simp: s' levels_below_def)
  qed (use assms in auto)
  then show "sat_wf s'" "levels_below level s \<Longrightarrow> levels_below level s'" by simp_all
qed

lemma unitPropagate_wf:
  assumes "unitPropagate level s = (k, s')" "sat_wf s"
  shows "sat_wf s'" "levels_below level s \<Longrightarrow> levels_below level s'"
proof -
  show "sat_wf s'" by (rule unitPropagate_inv [OF _ assms(1), where I = sat_wf]) (use assms(2) propagate_clause_wf(1) in blast)+
  have "sat_wf s' \<and> levels_below level s'" if "levels_below level s"
    by (rule unitPropagate_inv [OF _ assms(1), where I = "\<lambda>s. sat_wf s \<and> levels_below level s"])
      (use that assms(2) propagate_clause_wf in blast)+
  then show "levels_below level s \<Longrightarrow> levels_below level s'" by blast
qed

lemma all_assigned:
  assumes "sat_wf s" "allVariablesAssigned s"
  shows "fmdom (so_assignments s) = fmdom (so_variables s)"
proof -
  have sub: "fmdom (so_assignments s) |\<subseteq>| fmdom (so_variables s)" using assms(1) by (auto simp: sat_wf_def)
  have "fcard (fmdom (so_variables s)) \<le> fcard (fmdom (so_assignments s))"
    using assms(2) by (simp add: allVariablesAssigned_def map_len_def)
  with sub show ?thesis by (metis card_seteq fcard.rep_eq finite_fset fset_inject less_eq_fset.rep_eq)
qed

lemma settled_assigned:
  assumes "sat_wf s" "allVariablesAssigned s" "c \<in> set (so_clauses s)" "settled s c"
  shows "clause_true s c"
proof -
  have "getAssignment s (li_Variable l) \<noteq> None" if "l \<in> set (cl_Literals (so_clause s c))" for l
  proof -
    from assms(1,3) that have "lit_id s l |\<in>| fmdom (so_variables s)" by (auto simp: sat_wf_def intro: fmdomI)
    then have "lit_id s l |\<in>| fmdom (so_assignments s)" by (simp add: all_assigned [OF assms(1,2)])
    then show ?thesis by (auto simp: getAssignment_def lit_id_def)
  qed
  then have "filter (\<lambda>l. getAssignment s (li_Variable l) = None) (cl_Literals (so_clause s c)) = []" by (simp add: filter_empty_conv)
  with assms show ?thesis by (auto simp: settled_def sat_wf_def)
qed

subsection \<open>Decisions and conflicts\<close>

lemma selectVariable_elem: "selectVariable order s = Some a \<Longrightarrow> a \<in> set (unassigned_variables order s)"
proof -
  let ?f = "\<lambda>a (best, bestActivity). let activity = calculateVariableActivity s a
    in if activity > bestActivity then (Some a, activity) else (best, bestActivity)"
  have "fst (fold ?f as (b, x)) = Some a \<Longrightarrow> a \<in> set as \<or> b = Some a" for as b x
    by (induction as arbitrary: b x) (fastforce simp: Let_def split: if_splits)+
  then show "selectVariable order s = Some a \<Longrightarrow> a \<in> set (unassigned_variables order s)"
    by (force simp: selectVariable_def split: if_splits list.splits)
qed

lemma unassigned_variables_elem:
  assumes "sat_wf s" "ranges_over (so_variables s) order"
  shows "a \<in> set (unassigned_variables order s) \<longleftrightarrow>
    (\<exists>x. fmlookup (so_variables s) x = Some a \<and> fmlookup (so_assignments s) x = None)"
proof -
  have "x \<in> set order \<longleftrightarrow> (\<exists>a. fmlookup (so_variables s) x = Some a)" for x
    using ranges_overD(2) [OF assms(2)] by (auto simp: fmlookup_dom_iff)
  then show ?thesis using sat_wfD(3) [OF assms(1)]
    by (force simp: unassigned_variables_def getAssignment_def image_iff)
qed

lemma selectVariable_unassigned:
  assumes "sat_wf s" "ranges_over (so_variables s) order" "selectVariable order s = Some a"
  obtains x where "fmlookup (so_variables s) x = Some a" "fmlookup (so_assignments s) x = None" "va_ID (so_var s a) = x"
  using selectVariable_elem [OF assms(3)] unassigned_variables_elem [OF assms(1,2)] sat_wfD(3) [OF assms(1)] by blast

lemma decide_wf:
  assumes "sat_wf s" "levels_below level s" "level \<le> level'"
    and x: "fmlookup (so_variables s) x = Some a" "fmlookup (so_assignments s) x = None" "va_ID (so_var s a) = x"
  shows "sat_wf (assign a v level' r s)" "levels_below level' (assign a v level' r s)"
proof -
  have "same_problem s (assign a v level' r s)" by simp
  moreover have "extends_assignment s (assign a v level' r s)" using x by (auto simp: extends_assignment_def)
  moreover have "fset (fmdom (so_assignments (assign a v level' r s))) \<subseteq> fset (fmdom (so_variables s))"
    using sat_wfD(4) [OF assms(1)] fmdomI [OF x(1)] x(3) by simp
  ultimately show "sat_wf (assign a v level' r s)" by (intro sat_wf_extends [OF assms(1)]) simp_all
  show "levels_below level' (assign a v level' r s)" using assms(2,3) by (auto simp: levels_below_def intro: order_trans)
qed

lemma wf_reset:
  assumes "sat_wf s" "same_problem s s'" "\<And>c. c \<in> set (so_clauses s) \<Longrightarrow> \<not> cl_Satisfied (so_clause s' c)"
    and "fset (fmdom (so_assignments s')) \<subseteq> fset (fmdom (so_variables s))"
  shows "sat_wf s'"
  using assms(1,3,4) unfolding sat_wf_def same_problemD [OF assms(2)] by blast

lemma backtrack_wf:
  assumes "sat_wf s" "backtrack level s = (level', s')"
  shows "level' = level" "same_problem s s'" "sat_wf s'" "0 \<le> level \<Longrightarrow> levels_below level s'" "so_statistics s' = so_statistics s"
proof -
  show eq: "level' = level" "so_statistics s' = so_statistics s" using assms(2) by (auto simp: backtrack_def Let_def)
  show same: "same_problem s s'" using assms(2) by (auto simp: backtrack_def Let_def same_problem_def)
  have "fset (fmdom (so_assignments s')) \<subseteq> fset (fmdom (so_assignments s))" using assms(2) by (auto simp: backtrack_def Let_def)
  with sat_wfD(4) [OF assms(1)] show "sat_wf s'" using assms(2) by (intro wf_reset [OF assms(1) same]) (auto simp: backtrack_def Let_def)
  show "0 \<le> level \<Longrightarrow> levels_below level s'"
    using assms(2) by (auto simp: backtrack_def Let_def levels_below_def fmlookup_ran_iff)
qed

lemma restart_wf:
  assumes "sat_wf s" "restart s = (level', s')"
  shows "level' = 0" "same_problem s s'" "sat_wf s'" "levels_below 0 s'" "so_statistics s' = so_statistics s"
proof -
  show eq: "level' = 0" "so_statistics s' = so_statistics s" using assms(2) by (auto simp: restart_def)
  show same: "same_problem s s'" using assms(2) by (auto simp: restart_def same_problem_def)
  show "sat_wf s'" using assms(2) by (intro wf_reset [OF assms(1) same]) (auto simp: restart_def)
  show "levels_below 0 s'" using assms(2) by (auto simp: restart_def levels_below_def fmlookup_ran_iff)
qed

lemma add_clause_simps [simp]:
  "so_variables (add_clause c s) = so_variables s" "so_var (add_clause c s) = so_var s" "so_nextVar (add_clause c s) = so_nextVar s"
  "so_assignments (add_clause c s) = so_assignments s" "so_statistics (add_clause c s) = so_statistics s"
  "so_config (add_clause c s) = so_config s" "so_clauses (add_clause c s) = so_clauses s @ [so_nextClause s]"
  "so_nextClause (add_clause c s) = Suc (so_nextClause s)" "lit_true (add_clause c s) l = lit_true s l" "lit_id (add_clause c s) l = lit_id s l"
  "so_clause (add_clause c s) d = (if d = so_nextClause s then c else so_clause s d)"
  by (simp_all add: add_clause_def lit_true_def getAssignment_def lit_id_def)

lemma add_clause_wf:
  assumes "sat_wf s" "\<not> cl_Satisfied c" "\<And>l. l \<in> set (cl_Literals c) \<Longrightarrow> fmlookup (so_variables s) (lit_id s l) = Some (li_Variable l)"
  shows "sat_wf (add_clause c s)"
proof -
  have "d \<noteq> so_nextClause s" if "d \<in> set (so_clauses s)" for d using sat_wfD(1) [OF assms(1) that] by simp
  with assms show ?thesis unfolding sat_wf_def clause_true_def by (auto simp: less_SucI)
qed

text \<open>The literals that are learned are those of the conflict, with the opposite sign, decided below the
  current level; the level to return to is below it too.\<close>

lemma collect_literals_spec:
  assumes "collect_literals s level ls acc bl = (learned, bl')"
  shows "learned = acc @ map (\<lambda>l. l\<lparr>li_Positive := \<not> li_Positive l\<rparr>)
      (filter (\<lambda>l. va_DecisionLevel (so_var s (li_Variable l)) \<noteq> level \<and> 0 < va_DecisionLevel (so_var s (li_Variable l))) ls)"
    and "(\<forall>l \<in> set ls. va_DecisionLevel (so_var s (li_Variable l)) \<le> level) \<Longrightarrow> 0 \<le> bl \<Longrightarrow> bl < level \<Longrightarrow> 0 \<le> bl' \<and> bl' < level"
  using assms
proof (induction ls arbitrary: acc bl)
  case (Cons l ls)
  { case 1 then show ?case using Cons.IH(1) by (fastforce simp: Let_def split: if_splits) }
  { case 2
    then obtain acc0 bl0 where "collect_literals s level ls acc0 bl0 = (learned, bl')" "0 \<le> bl0" "bl0 < level"
      by (auto simp: Let_def split: if_splits)
    from Cons.IH(2) [OF _ this(2,3,1)] 2(1) show ?case by simp }
qed simp_all

lemma analyzeConflict_spec:
  assumes "analyzeConflict s conflict level = (lc, bl)"
  shows "\<And>c. lc = Some c \<Longrightarrow> \<not> cl_Satisfied c \<and> (\<forall>l \<in> set (cl_Literals c). \<exists>l' \<in> set (cl_Literals (so_clause s conflict)).
      l = l'\<lparr>li_Positive := \<not> li_Positive l'\<rparr> \<and> va_DecisionLevel (so_var s (li_Variable l')) \<noteq> level)"
    and "(\<forall>l \<in> set (cl_Literals (so_clause s conflict)). va_DecisionLevel (so_var s (li_Variable l)) \<le> level) \<Longrightarrow>
      0 < level \<Longrightarrow> level < 2 ^ 63 \<Longrightarrow> 0 \<le> bl \<and> bl < level"
proof -
  obtain learned b where c: "collect_literals s level (cl_Literals (so_clause s conflict)) [] 0 = (learned, b)" by fastforce
  note spec = collect_literals_spec [OF c]
  show "\<And>c. lc = Some c \<Longrightarrow> \<not> cl_Satisfied c \<and> (\<forall>l \<in> set (cl_Literals c). \<exists>l' \<in> set (cl_Literals (so_clause s conflict)).
      l = l'\<lparr>li_Positive := \<not> li_Positive l'\<rparr> \<and> va_DecisionLevel (so_var s (li_Variable l')) \<noteq> level)"
    using assms c spec(1) by (auto simp: analyzeConflict_def new_clause_def split: if_splits)
  show "(\<forall>l \<in> set (cl_Literals (so_clause s conflict)). va_DecisionLevel (so_var s (li_Variable l)) \<le> level) \<Longrightarrow>
      0 < level \<Longrightarrow> level < 2 ^ 63 \<Longrightarrow> 0 \<le> bl \<and> bl < level"
    using assms c spec(2) by (auto simp: analyzeConflict_def int64_range_def split: if_splits)
qed

lemma set_stat_inv [simp]:
  "sat_wf (set_stat f s) = sat_wf s" "levels_below level (set_stat f s) = levels_below level s"
  by (simp_all add: sat_wf_def lit_id_def clause_true_def lit_true_def getAssignment_def levels_below_def)

lemma handle_conflict_wf:
  assumes wf: "sat_wf s" "levels_below level s" and level: "0 < level" "level < 2 ^ 63"
    and c: "conflict \<in> set (so_clauses s)" and h: "handle_conflict conflict level s = (level', s')"
  shows "0 \<le> level'" "level' < level" "sat_wf s'" "levels_below level' s'" "so_config s' = so_config s"
    "so_variables s' = so_variables s" "set (so_clauses s) \<subseteq> set (so_clauses s')"
    "\<And>d. d \<in> set (so_clauses s) \<Longrightarrow> cl_Literals (so_clause s' d) = cl_Literals (so_clause s d)"
    "\<And>a. va_ID (so_var s' a) = va_ID (so_var s a)" "\<And>a. va_Watched (so_var s' a) = va_Watched (so_var s a)"
    "ss_Decisions (so_statistics s') = ss_Decisions (so_statistics s)" "ss_Conflicts (so_statistics s') = ss_Conflicts (so_statistics s)"
proof -
  obtain s1 bl s2 l2 where s1: "s1 = s \<or> (\<exists>k f. s1 = set_stat f (add_clause k s) \<and> sat_wf (add_clause k s)
        \<and> ss_Decisions (f (so_statistics s)) = ss_Decisions (so_statistics s) \<and> ss_Conflicts (f (so_statistics s)) = ss_Conflicts (so_statistics s))"
    and b: "backtrack bl s1 = (l2, s2)" "0 \<le> bl" "bl < level" "level' = l2"
    "s' = set_stat (\<lambda>st. st\<lparr>ss_Backtracks := inc64 (ss_Backtracks st)\<rparr>) s2"
  proof (cases "sf_EnableLearning (so_config s)")
    case True
    obtain lc bl where a: "analyzeConflict s conflict level = (lc, bl)" by fastforce
    have below: "va_DecisionLevel (so_var s (li_Variable l)) \<le> level" if "l \<in> set (cl_Literals (so_clause s conflict))" for l
      using sat_wfD(2) [OF wf(1) c that] wf(2) by (auto simp: levels_below_def)
    have bl: "0 \<le> bl" "bl < level" using analyzeConflict_spec(2) [OF a] below level by auto
    show ?thesis
    proof (cases lc)
      case None
      with True a h bl show ?thesis
        by (cases "backtrack bl s") (auto simp: handle_conflict_def intro: that [of s])
    next
      case (Some k)
      have wk: "sat_wf (add_clause k s)"
        using analyzeConflict_spec(1) [OF a Some] sat_wfD(2) [OF wf(1) c]
        by (intro add_clause_wf [OF wf(1)]) (auto simp: lit_id_def)
      let ?f = "\<lambda>st. st\<lparr>ss_LearnedClauses := inc64 (ss_LearnedClauses st)\<rparr>"
      let ?s1 = "set_stat (\<lambda>st. st\<lparr>ss_LearnedClauses := inc64 (ss_LearnedClauses st)\<rparr>) (add_clause k s)"
      obtain l2 s2 where b: "backtrack bl ?s1 = (l2, s2)" by fastforce
      show ?thesis
        by (rule that [OF disjI2 b bl], intro exI [of _ k] exI [of _ ?f]) (use wk Some True a h b in \<open>auto simp: handle_conflict_def\<close>)
    qed
  next
    case False
    with h level show ?thesis
      by (cases "backtrack (level - 1) s") (auto simp: handle_conflict_def int64_range_def intro: that [of s "level - 1"])
  qed
  have wf1: "sat_wf s1" using s1 wf(1) by auto
  note bt = backtrack_wf [OF wf1 b(1)]
  show "0 \<le> level'" "level' < level" "sat_wf s'" "levels_below level' s'" using bt(1) b bt(3,4) by simp_all
  have fresh: "d \<noteq> so_nextClause s" if "d \<in> set (so_clauses s)" for d using sat_wfD(1) [OF wf(1) that] by simp
  show "so_config s' = so_config s" "so_variables s' = so_variables s" "set (so_clauses s) \<subseteq> set (so_clauses s')"
    "\<And>d. d \<in> set (so_clauses s) \<Longrightarrow> cl_Literals (so_clause s' d) = cl_Literals (so_clause s d)"
    "\<And>a. va_ID (so_var s' a) = va_ID (so_var s a)" "\<And>a. va_Watched (so_var s' a) = va_Watched (so_var s a)"
    "ss_Decisions (so_statistics s') = ss_Decisions (so_statistics s)" "ss_Conflicts (so_statistics s') = ss_Conflicts (so_statistics s)"
    using s1 b(5) bt(5) same_problemD [OF bt(2)] fresh by auto
qed

subsection \<open>The main loop\<close>

text \<open>The invariant of the loop: the problem is well formed, no variable is above the decision level, and the
  level is at most the number of decisions, which is within its bound.\<close>

definition dpll_inv :: "int \<Rightarrow> SATSolverImpl \<Rightarrow> bool" where
  "dpll_inv level s \<longleftrightarrow> sat_wf s \<and> levels_below level s \<and> 0 \<le> level \<and> level \<le> ss_Decisions (so_statistics s)
     \<and> ss_Decisions (so_statistics s) \<le> max 0 (sf_MaxDecisions (so_config s)) \<and> sf_MaxDecisions (so_config s) < 2 ^ 63 - 1"

text \<open>The clauses are kept with their literals, the variables with their identifiers and (empty) lists of
  watching clauses.\<close>

definition grows :: "SATSolverImpl \<Rightarrow> SATSolverImpl \<Rightarrow> bool" where
  "grows s s' \<longleftrightarrow> so_config s' = so_config s \<and> so_variables s' = so_variables s \<and> set (so_clauses s) \<subseteq> set (so_clauses s')
     \<and> (\<forall>d \<in> set (so_clauses s). cl_Literals (so_clause s' d) = cl_Literals (so_clause s d))
     \<and> (\<forall>a. va_ID (so_var s' a) = va_ID (so_var s a)) \<and> (\<forall>a. va_Watched (so_var s' a) = va_Watched (so_var s a))"

lemma grows_refl [simp]: "grows s s" by (simp add: grows_def)

lemma grows_trans [trans]: "grows s s' \<Longrightarrow> grows s' s'' \<Longrightarrow> grows s s''" by (auto simp: grows_def)

lemma same_problem_grows: "same_problem s s' \<Longrightarrow> grows s s'" by (simp add: grows_def same_problemD)

lemma unitPropagate_stats:
  "unitPropagate level s = (k, s') \<Longrightarrow> ss_Decisions (so_statistics s') = ss_Decisions (so_statistics s)
     \<and> ss_Conflicts (so_statistics s') = ss_Conflicts (so_statistics s)"
proof -
  assume u: "unitPropagate level s = (k, s')"
  let ?I = "\<lambda>t. ss_Decisions (so_statistics t) = ss_Decisions (so_statistics s) \<and> ss_Conflicts (so_statistics t) = ss_Conflicts (so_statistics s)"
  have "ss_Decisions (so_statistics t') = ss_Decisions (so_statistics t) \<and> ss_Conflicts (so_statistics t') = ss_Conflicts (so_statistics t)"
    if "propagate_clause level t c = (k, ch, t')" for t c k ch t'
    by (cases rule: propagate_clause_cases [of level t c]) (use that in auto)
  then show "?I s'" by (intro unitPropagate_inv [OF _ u, where I = ?I]) metis+
qed

text \<open>Each iteration that goes on either takes a decision, or has had a conflict and lowers the level.\<close>

lemma dpll_step_Continue:
  assumes inv: "dpll_inv level s" and env: "sat_env_ok env" and st: "dpll_step env i level s = Continue level' s'"
  shows "dpll_inv level' s'" "grows s s'"
    "ss_Decisions (so_statistics s') = ss_Decisions (so_statistics s) + 1 \<and> ss_Decisions (so_statistics s') \<le> sf_MaxDecisions (so_config s)
      \<or> ss_Decisions (so_statistics s') = ss_Decisions (so_statistics s) \<and> level' < level"
proof -
  have i: "sat_wf s" "levels_below level s" "0 \<le> level" "level \<le> ss_Decisions (so_statistics s)"
    "ss_Decisions (so_statistics s) \<le> max 0 (sf_MaxDecisions (so_config s))" "sf_MaxDecisions (so_config s) < 2 ^ 63 - 1"
    using inv by (auto simp: dpll_inv_def)
  obtain k s1 where u: "unitPropagate level s = (k, s1)" by fastforce
  note wf1 = unitPropagate_wf(1) [OF u i(1)] unitPropagate_wf(2) [OF u i(1,2)]
  note frame = conjunct1 [OF unitPropagate_frame [OF u]]
  note st1 = unitPropagate_stats [OF u]
  have bound: "ss_Decisions (so_statistics s) < 2 ^ 63 - 1" using i(5,6) by simp
  have "dpll_inv level' s' \<and> grows s s' \<and>
    (ss_Decisions (so_statistics s') = ss_Decisions (so_statistics s) + 1 \<and> ss_Decisions (so_statistics s') \<le> sf_MaxDecisions (so_config s)
      \<or> ss_Decisions (so_statistics s') = ss_Decisions (so_statistics s) \<and> level' < level)"
  proof (cases k)
    case None
    with st u obtain a where a: "selectVariable (sn_select env i (so_variables s1)) s1 = Some a"
      by (auto simp: dpll_step_def Let_def split: if_splits option.splits)
    have r: "ranges_over (so_variables s1) (sn_select env i (so_variables s1))" using env by (simp add: sat_env_ok_def)
    from selectVariable_unassigned [OF wf1(1) r a] obtain x where x: "fmlookup (so_variables s1) x = Some a"
      "fmlookup (so_assignments s1) x = None" "va_ID (so_var s1 a) = x" by blast
    have lv: "inc64 level = level + 1" using i(3,4) bound by (intro inc64_small) auto
    have dv: "inc64 (ss_Decisions (so_statistics s)) = ss_Decisions (so_statistics s) + 1" using i(3,4) bound by (intro inc64_small) auto
    let ?s2 = "set_stat (\<lambda>st. st\<lparr>ss_Decisions := inc64 (ss_Decisions st)\<rparr>) s1"
    from st u None a have c: "level' = level + 1" "s' = assign a True (level + 1) None ?s2"
      "inc64 (ss_Decisions (so_statistics s1)) \<le> sf_MaxDecisions (so_config s1)"
      by (auto simp: dpll_step_def Let_def lv split: if_splits)
    have "sat_wf s'" "levels_below level' s'" unfolding c(1,2)
      by (rule decide_wf [where x = x and level = level], use wf1 x in simp_all)+
    moreover have "grows s s'" using same_problem_grows frame c(2) by simp
    ultimately show ?thesis using c st1 i dv same_problemD(5) [OF frame] by (auto simp: dpll_inv_def)
  next
    case (Some conflict)
    let ?s2 = "set_stat (\<lambda>st. st\<lparr>ss_Conflicts := inc64 (ss_Conflicts st)\<rparr>) s1"
    obtain l3 s3 where h: "handle_conflict conflict level ?s2 = (l3, s3)" by fastforce
    have lv: "0 < level" using st u Some i(3) by (auto simp: dpll_step_def Let_def split: if_splits)
    have cf: "conflict \<in> set (so_clauses ?s2)" using unitPropagate_conflict u Some by simp
    have "level < 2 ^ 63" using i(4) bound by simp
    have wf2: "sat_wf ?s2" "levels_below level ?s2" using wf1 by simp_all
    note hc = handle_conflict_wf [OF wf2 lv \<open>level < 2 ^ 63\<close> cf h]
    have g: "grows s s3" using same_problem_grows [OF frame] hc(5-10) by (auto simp: grows_def)
    have inv3: "dpll_inv l3 s3" using hc i st1 same_problemD(5) [OF frame] by (auto simp: dpll_inv_def)
    obtain l4 s4 where r: "restart (set_stat (\<lambda>st. st\<lparr>ss_Restarts := inc64 (ss_Restarts st)\<rparr>) s3) = (l4, s4)" by fastforce
    note rw = restart_wf [OF _ r, simplified, OF hc(3)]
    have "dpll_inv l4 s4" "grows s3 s4" "ss_Decisions (so_statistics s4) = ss_Decisions (so_statistics s3)"
      using rw inv3 same_problemD(5) [OF rw(2)] hc(1) same_problem_grows [OF rw(2)] by (auto simp: dpll_inv_def grows_def)
    moreover have "(level' = l3 \<and> s' = s3) \<or> (level' = l4 \<and> s' = s4)"
      using st u Some h r lv by (auto simp: dpll_step_def Let_def split: if_splits)
    ultimately show ?thesis using inv3 g hc rw(1) st1 lv by (auto intro: grows_trans)
  qed
  then show "dpll_inv level' s'" "grows s s'"
    "ss_Decisions (so_statistics s') = ss_Decisions (so_statistics s) + 1 \<and> ss_Decisions (so_statistics s') \<le> sf_MaxDecisions (so_config s)
      \<or> ss_Decisions (so_statistics s') = ss_Decisions (so_statistics s) \<and> level' < level" by blast+
qed

text \<open>The loop returns, and its result is the one of an iteration on a state that it has reached.\<close>

lemma dpll_loop_returns:
  assumes "sat_env_ok env"
    and J: "\<And>i level s level' s'. J s \<Longrightarrow> dpll_inv level s \<Longrightarrow> dpll_step env i level s = Continue level' s' \<Longrightarrow> J s'"
  shows "dpll_inv level s \<Longrightarrow> J s \<Longrightarrow> \<exists>r i' level' s'. dpll_loop env i level s = Some r \<and> dpll_inv level' s' \<and> J s' \<and> grows s s'
    \<and> i \<le> i' \<and> dpll_step env i' level' s' = Return r"
proof (induction "(nat (sf_MaxDecisions (so_config s) - ss_Decisions (so_statistics s)), nat level)" arbitrary: i level s
    rule: wf_induct_rule [OF wf_lex_prod [OF wf_less_than wf_less_than]])
  case 1
  show ?case
  proof (cases "dpll_step env i level s")
    case (Return r)
    with 1(2,3) show ?thesis by (intro exI [of _ r] exI [of _ i] exI [of _ level] exI [of _ s]) (simp add: dpll_loop.simps)
  next
    case (Continue level' s')
    note c = dpll_step_Continue [OF 1(2) assms(1) Continue]
    have "so_config s' = so_config s" using c(2) by (simp add: grows_def)
    moreover have "0 \<le> level'" "0 \<le> level" using c(1) 1(2) by (simp_all add: dpll_inv_def)
    ultimately have "((nat (sf_MaxDecisions (so_config s') - ss_Decisions (so_statistics s')), nat level'),
        (nat (sf_MaxDecisions (so_config s) - ss_Decisions (so_statistics s)), nat level)) \<in> less_than <*lex*> less_than"
      using c(3) by auto
    from 1(1) [OF this c(1) J [OF 1(3,2) Continue], of "Suc i"] obtain r i' level'' s'' where
      "dpll_loop env (Suc i) level' s' = Some r" "dpll_inv level'' s''" "J s''" "grows s' s''" "Suc i \<le> i'" "dpll_step env i' level'' s'' = Return r" by blast
    moreover have "grows s s''" using c(2) \<open>grows s' s''\<close> by (rule grows_trans)
    ultimately show ?thesis using Continue
      by (intro exI [of _ r] exI [of _ i'] exI [of _ level''] exI [of _ s'']) (simp add: dpll_loop.simps [of env i])
  qed
qed

text \<open>An iteration that returns an assignment has found a model.\<close>

definition model_of :: "SATSolverImpl \<Rightarrow> (string, bool) fmap \<Rightarrow> bool" where
  "model_of s a \<longleftrightarrow> fmdom a = fmdom (so_variables s)
     \<and> (\<forall>c \<in> set (so_clauses s). \<exists>l \<in> set (cl_Literals (so_clause s c)). fmlookup a (lit_id s l) = Some (li_Positive l))"

lemma dpll_step_model:
  assumes "dpll_inv level s" "dpll_step env i level s = Return (Ret (Inr a, s'))"
  shows "model_of s' a" "grows s s'" "so_assignments s' = a" "sat_wf s'"
proof -
  from assms(2) have u: "unitPropagate level s = (None, s')" and a: "allVariablesAssigned s'" "so_assignments s' = a"
    by (auto simp: dpll_step_def Let_def split: if_splits option.splits prod.splits)
  have wf: "sat_wf s'" using unitPropagate_wf(1) [OF u] assms(1) by (simp add: dpll_inv_def)
  have "clause_true s' c" if "c \<in> set (so_clauses s')" for c
    using settled_assigned [OF wf a(1) that] unitPropagate_settles [OF u] that by blast
  then show "model_of s' a" using all_assigned [OF wf a(1)] a(2)
    by (auto simp: model_of_def clause_true_def lit_true_def getAssignment_def lit_id_def)
  show "grows s s'" using unitPropagate_frame [OF u] same_problem_grows by blast
  show "so_assignments s' = a" "sat_wf s'" by (rule a(2), rule wf)
qed

subsection \<open>The problem of a list of requirements\<close>

definition valid_versions :: "('v, 'c) SemVer \<Rightarrow> VersionRequirement \<Rightarrow> string list" where
  "valid_versions S req = filterVersionsByConstraints S [''1.0.0'', ''1.1.0'', ''1.2.0'', ''2.0.0'', ''2.1.0''] (vr_Constraints req)"

definition req_key :: "VersionRequirement \<Rightarrow> string" where
  "req_key req = GetPackageKey (vr_PackageRef req)"

definition var_id :: "string \<Rightarrow> string \<Rightarrow> string" where
  "var_id packageKey version = packageKey @ ''@'' @ version"

definition variable_ids :: "('v, 'c) SemVer \<Rightarrow> VersionRequirement list \<Rightarrow> string set" where
  "variable_ids S reqs = (\<Union>req \<in> set reqs. var_id (req_key req) ` set (valid_versions S req))"

text \<open>Variables as they are created.\<close>

definition fresh_variables :: "SATSolverImpl \<Rightarrow> bool" where
  "fresh_variables s \<longleftrightarrow> (\<forall>x a. fmlookup (so_variables s) x = Some a \<longrightarrow> va_ID (so_var s a) = x \<and> a < so_nextVar s
     \<and> va_DecisionLevel (so_var s a) = 0 \<and> va_Watched (so_var s a) = [])"

lemma add_variable_fresh:
  assumes "fresh_variables s" "va_DecisionLevel v = 0" "va_Watched v = []"
  shows "fresh_variables (add_variable v s)"
  using assms by (fastforce simp: fresh_variables_def add_variable_def)

definition only_variables :: "SATSolverImpl \<Rightarrow> SATSolverImpl \<Rightarrow> bool" where
  "only_variables s s' \<longleftrightarrow> so_clauses s' = so_clauses s \<and> so_clause s' = so_clause s \<and> so_nextClause s' = so_nextClause s
     \<and> so_assignments s' = so_assignments s \<and> so_statistics s' = so_statistics s \<and> so_config s' = so_config s"

lemma add_variables_fresh:
  assumes "fresh_variables s" "\<And>x. va_DecisionLevel (f x) = 0" "\<And>x. va_Watched (f x) = []"
  shows "fresh_variables (fold (\<lambda>x. add_variable (f x)) xs s) \<and> only_variables s (fold (\<lambda>x. add_variable (f x)) xs s)
    \<and> fset (fmdom (so_variables (fold (\<lambda>x. add_variable (f x)) xs s))) = fset (fmdom (so_variables s)) \<union> (\<lambda>x. va_ID (f x)) ` set xs"
  using assms(1)
proof (induction xs arbitrary: s)
  case (Cons x xs)
  from Cons.IH [OF add_variable_fresh [OF Cons.prems assms(2,3)], of x] show ?case
    by (auto simp: only_variables_def add_variable_def)
qed (simp add: only_variables_def)

lemma createVariables_spec:
  assumes "fresh_variables s" "createVariables S req s = (e, s')"
  shows "e = None \<longleftrightarrow> valid_versions S req \<noteq> []"
    "fresh_variables s' \<and> only_variables s s'"
    "e = None \<Longrightarrow> fset (fmdom (so_variables s')) = fset (fmdom (so_variables s)) \<union> var_id (req_key req) ` set (valid_versions S req)"
proof -
  let ?f = "\<lambda>version. \<lparr>va_ID = var_id (req_key req) version, va_PackageRef = vr_PackageRef req, va_Version = version,
      va_Domain = valid_versions S req, va_Constraints = vr_Constraints req, va_DecisionLevel = 0, va_Reason = None, va_Watched = []\<rparr>"
  have "createVariables S req s = (if valid_versions S req = [] then (Some (SAT_NoValidVersions (req_key req)), s)
      else (None, fold (\<lambda>x. add_variable (?f x)) (valid_versions S req) s))"
    by (simp add: createVariables_def getAvailableVersions_def valid_versions_def req_key_def var_id_def Let_def)
  with assms(2) add_variables_fresh [OF assms(1), of ?f "valid_versions S req"]
  show "e = None \<longleftrightarrow> valid_versions S req \<noteq> []" "fresh_variables s' \<and> only_variables s s'"
    "e = None \<Longrightarrow> fset (fmdom (so_variables s')) = fset (fmdom (so_variables s)) \<union> var_id (req_key req) ` set (valid_versions S req)"
    using assms(1) by (auto simp: only_variables_def split: if_splits)
qed

lemma create_all_variables_spec:
  assumes "fresh_variables s" "create_all_variables S reqs s = (e, s')"
  shows "(e = None \<longleftrightarrow> (\<forall>req \<in> set reqs. valid_versions S req \<noteq> [])) \<and> fresh_variables s' \<and> only_variables s s'
    \<and> (e = None \<longrightarrow> fset (fmdom (so_variables s')) = fset (fmdom (so_variables s)) \<union> variable_ids S reqs)"
  using assms
proof (induction reqs arbitrary: s)
  case Nil
  then show ?case by (simp add: only_variables_def variable_ids_def)
next
  case (Cons req reqs)
  obtain e1 s1 where c: "createVariables S req s = (e1, s1)" by fastforce
  note s1 = createVariables_spec [OF Cons.prems(1) c]
  show ?case
  proof (cases e1)
    case None
    with Cons.prems c have c': "create_all_variables S reqs s1 = (e, s')" by simp
    have "fresh_variables s1" using s1(2) by blast
    from Cons.IH [OF this c'] s1 None show ?thesis by (auto simp: only_variables_def variable_ids_def)
  qed (use Cons.prems c s1 in auto)
qed

text \<open>The clauses as lists of identifiers with signs.\<close>

definition content :: "SATSolverImpl \<Rightarrow> SATClause \<Rightarrow> (string \<times> bool) list" where
  "content s c = map (\<lambda>l. (lit_id s l, li_Positive l)) (cl_Literals c)"

definition problem :: "SATSolverImpl \<Rightarrow> (string \<times> bool) list list" where
  "problem s = map (\<lambda>c. content s (so_clause s c)) (so_clauses s)"

definition req_clauses :: "string list \<Rightarrow> (string \<times> bool) list list" where
  "req_clauses xs = (if xs \<noteq> [] then [map (\<lambda>x. (x, True)) xs] else [])
     @ concat (map (\<lambda>i. map (\<lambda>j. [(xs ! i, False), (xs ! j, False)]) [i + 1..<length xs]) [0..<length xs])"

definition only_clauses :: "SATSolverImpl \<Rightarrow> SATSolverImpl \<Rightarrow> bool" where
  "only_clauses s s' \<longleftrightarrow> so_variables s' = so_variables s \<and> so_var s' = so_var s \<and> so_nextVar s' = so_nextVar s
     \<and> so_assignments s' = so_assignments s \<and> so_statistics s' = so_statistics s \<and> so_config s' = so_config s"

definition points_well :: "SATSolverImpl \<Rightarrow> SATClause \<Rightarrow> bool" where
  "points_well s c \<longleftrightarrow> \<not> cl_Satisfied c \<and> (\<forall>l \<in> set (cl_Literals c). fmlookup (so_variables s) (lit_id s l) = Some (li_Variable l))"

lemma only_clausesD:
  assumes "only_clauses s s'"
  shows "lit_id s' l = lit_id s l" "content s' c = content s c" "points_well s' c = points_well s c" "fresh_variables s' = fresh_variables s"
  using assms by (simp_all add: only_clauses_def lit_id_def content_def points_well_def fresh_variables_def)

lemma fold_add_clause:
  assumes "sat_wf s" "list_all (points_well s) cs"
  shows "sat_wf (fold add_clause cs s) \<and> only_clauses s (fold add_clause cs s) \<and> problem (fold add_clause cs s) = problem s @ map (content s) cs"
  using assms
proof (induction cs arbitrary: s)
  case (Cons c cs)
  have oc: "only_clauses s (add_clause c s)" by (simp add: only_clauses_def)
  note d = only_clausesD [OF oc]
  have wf: "sat_wf (add_clause c s)" using Cons.prems by (intro add_clause_wf) (auto simp: points_well_def)
  have "list_all (points_well (add_clause c s)) cs" using Cons.prems(2) by (simp add: d list_all_iff)
  note ih = Cons.IH [OF wf this]
  have "so_nextClause s \<notin> set (so_clauses s)" using sat_wfD(1) [OF Cons.prems(1)] by blast
  then have "problem (add_clause c s) = problem s @ [content s c]" unfolding problem_def d by auto
  with ih oc show ?case by (auto simp: only_clauses_def d)
qed (simp add: only_clauses_def)

lemma package_literals_content:
  assumes "fresh_variables s" "ranges_over (so_variables s) order"
  shows "map (\<lambda>l. (lit_id s l, li_Positive l)) (package_literals order k s)
      = map (\<lambda>x. (x, True)) (filter (\<lambda>x. strings_HasPrefix x (k @ ''@'')) order)"
    "l \<in> set (package_literals order k s) \<Longrightarrow> fmlookup (so_variables s) (lit_id s l) = Some (li_Variable l)"
proof -
  have look: "\<exists>a. fmlookup (so_variables s) x = Some a \<and> va_ID (so_var s a) = x" if "x \<in> set order" for x
    using that ranges_overD(2) [OF assms(2)] assms(1) by (auto simp: fmlookup_dom_iff fresh_variables_def)
  show "map (\<lambda>l. (lit_id s l, li_Positive l)) (package_literals order k s)
      = map (\<lambda>x. (x, True)) (filter (\<lambda>x. strings_HasPrefix x (k @ ''@'')) order)"
    using look by (fastforce simp: package_literals_def lit_id_def Let_def)
  show "l \<in> set (package_literals order k s) \<Longrightarrow> fmlookup (so_variables s) (lit_id s l) = Some (li_Variable l)"
    using look by (fastforce simp: package_literals_def lit_id_def Let_def)
qed

lemma createClauses_spec:
  assumes "sat_wf s" "fresh_variables s" "ranges_over (so_variables s) order"
  shows "sat_wf (createClauses order req s) \<and> only_clauses s (createClauses order req s)
    \<and> problem (createClauses order req s) = problem s @ req_clauses (filter (\<lambda>x. strings_HasPrefix x (req_key req @ ''@'')) order)"
proof -
  let ?ls = "package_literals order (req_key req) s"
  let ?xs = "filter (\<lambda>x. strings_HasPrefix x (req_key req @ ''@'')) order"
  note pl = package_literals_content [OF assms(2,3), where k = "req_key req"]
  let ?cs = "(if ?ls \<noteq> [] then [new_clause (''at-least-one-'' @ req_key req) ?ls False] else []) @ at_most_one (req_key req) ?ls"
  have len: "length ?ls = length ?xs" using pl(1) by (metis length_map)
  have nth: "lit_id s (?ls ! i) = ?xs ! i" if "i < length ?xs" for i
    using arg_cong [OF pl(1), of "\<lambda>ys. fst (ys ! i)"] that len by simp
  have ids: "lit_id s (l\<lparr>li_Positive := b\<rparr>) = lit_id s l" for l b by (simp add: lit_id_def)
  have "\<forall>c \<in> set (at_most_one (req_key req) ?ls). points_well s c"
    using pl(2) [OF nth_mem] by (auto simp: at_most_one_def new_clause_def points_well_def ids)
  moreover have "points_well s (new_clause cid ?ls False)" for cid using pl(2) by (simp add: new_clause_def points_well_def)
  ultimately have pw: "list_all (points_well s) ?cs" by (auto simp: list_all_iff)
  have "content s (new_clause cid ?ls False) = map (\<lambda>x. (x, True)) ?xs" for cid using pl(1) by (simp add: content_def new_clause_def)
  moreover have "map (content s) (at_most_one (req_key req) ?ls)
      = concat (map (\<lambda>i. map (\<lambda>j. [(?xs ! i, False), (?xs ! j, False)]) [i + 1..<length ?xs]) [0..<length ?xs])"
    unfolding at_most_one_def map_concat map_map comp_def len
    by (intro arg_cong [where f = concat] map_cong refl) (auto simp: content_def new_clause_def ids nth)
  ultimately have "map (content s) ?cs = req_clauses ?xs" using len by (auto simp: req_clauses_def)
  moreover have "createClauses order req s = fold add_clause ?cs s" by (simp add: createClauses_def Let_def req_key_def)
  ultimately show ?thesis using fold_add_clause [OF assms(1) pw] by simp
qed

lemma create_all_clauses_spec:
  assumes "sat_wf s" "fresh_variables s" "sat_env_ok env"
  shows "sat_wf (create_all_clauses env i reqs s) \<and> only_clauses s (create_all_clauses env i reqs s)
    \<and> (\<exists>os. length os = length reqs \<and> (\<forall>order \<in> set os. ranges_over (so_variables s) order) \<and>
        problem (create_all_clauses env i reqs s) = problem s
          @ concat (map2 (\<lambda>order req. req_clauses (filter (\<lambda>x. strings_HasPrefix x (req_key req @ ''@'')) order)) os reqs))"
  using assms(1,2)
proof (induction reqs arbitrary: i s)
  case (Cons req reqs)
  let ?o = "sn_create env i (so_variables s)" let ?s1 = "createClauses ?o req s"
  have o: "ranges_over (so_variables s) ?o" using assms(3) by (simp add: sat_env_ok_def)
  note c = createClauses_spec [OF Cons.prems o, of req]
  then have "fresh_variables ?s1" using Cons.prems(2) only_clausesD(4) by blast
  from Cons.IH [of ?s1 "Suc i"] c this obtain os where "length os = length reqs" "\<forall>order \<in> set os. ranges_over (so_variables ?s1) order"
    "problem (create_all_clauses env (Suc i) reqs ?s1) = problem ?s1
      @ concat (map2 (\<lambda>order req. req_clauses (filter (\<lambda>x. strings_HasPrefix x (req_key req @ ''@'')) order)) os reqs)"
    "sat_wf (create_all_clauses env (Suc i) reqs ?s1)" "only_clauses ?s1 (create_all_clauses env (Suc i) reqs ?s1)" by blast
  with c o show ?case by (intro conjI exI [of _ "?o # os"]) (auto simp: only_clauses_def)
qed (auto simp: only_clauses_def)

text \<open>The variables of a package, and the two kinds of clauses: one of a set, and not two of it.\<close>

definition pkg_group :: "SATSolverImpl \<Rightarrow> string \<Rightarrow> string set" where
  "pkg_group s k = {x. x |\<in>| fmdom (so_variables s) \<and> strings_HasPrefix x (k @ ''@'')}"

definition at_least :: "string set \<Rightarrow> (string \<times> bool) list \<Rightarrow> bool" where
  "at_least G cl \<longleftrightarrow> (\<exists>xs. distinct xs \<and> set xs = G \<and> xs \<noteq> [] \<and> cl = map (\<lambda>x. (x, True)) xs)"

definition at_most :: "string set \<Rightarrow> (string \<times> bool) list \<Rightarrow> bool" where
  "at_most G cl \<longleftrightarrow> (\<exists>x \<in> G. \<exists>y \<in> G. x \<noteq> y \<and> cl = [(x, False), (y, False)])"

definition problem_shape :: "string set \<Rightarrow> SATSolverImpl \<Rightarrow> bool" where
  "problem_shape keys s \<longleftrightarrow>
     (\<forall>cl \<in> set (problem s). \<exists>k \<in> keys. at_least (pkg_group s k) cl \<or> at_most (pkg_group s k) cl)
     \<and> (\<forall>k \<in> keys. pkg_group s k \<noteq> {} \<longrightarrow> (\<exists>cl \<in> set (problem s). at_least (pkg_group s k) cl))
     \<and> (\<forall>k \<in> keys. \<forall>x \<in> pkg_group s k. \<forall>y \<in> pkg_group s k. x \<noteq> y \<longrightarrow>
          [(x, False), (y, False)] \<in> set (problem s) \<or> [(y, False), (x, False)] \<in> set (problem s))"

lemma req_clauses_shape:
  assumes "distinct xs"
  shows "cl \<in> set (req_clauses xs) \<Longrightarrow> at_least (set xs) cl \<or> at_most (set xs) cl"
    "xs \<noteq> [] \<Longrightarrow> \<exists>cl \<in> set (req_clauses xs). at_least (set xs) cl"
    "x \<in> set xs \<Longrightarrow> y \<in> set xs \<Longrightarrow> x \<noteq> y \<Longrightarrow>
       [(x, False), (y, False)] \<in> set (req_clauses xs) \<or> [(y, False), (x, False)] \<in> set (req_clauses xs)"
proof -
  assume "cl \<in> set (req_clauses xs)"
  then consider "xs \<noteq> []" "cl = map (\<lambda>x. (x, True)) xs"
    | i j where "i < j" "j < length xs" "cl = [(xs ! i, False), (xs ! j, False)]"
    by (auto simp: req_clauses_def Suc_le_eq split: if_splits)
  then show "at_least (set xs) cl \<or> at_most (set xs) cl"
  proof cases
    case 1
    with assms show ?thesis unfolding at_least_def by blast
  next
    case (2 i j)
    with assms have "xs ! i \<noteq> xs ! j" "xs ! i \<in> set xs" "xs ! j \<in> set xs" by (auto simp: nth_eq_iff_index_eq)
    with 2 show ?thesis unfolding at_most_def by blast
  qed
next
  assume "xs \<noteq> []"
  with assms show "\<exists>cl \<in> set (req_clauses xs). at_least (set xs) cl" by (auto simp: req_clauses_def at_least_def)
next
  assume "x \<in> set xs" "y \<in> set xs" "x \<noteq> y"
  then obtain i j where "i < length xs" "j < length xs" "x = xs ! i" "y = xs ! j" "i < j \<or> j < i"
    by (metis in_set_conv_nth linorder_neqE_nat)
  then show "[(x, False), (y, False)] \<in> set (req_clauses xs) \<or> [(y, False), (x, False)] \<in> set (req_clauses xs)"
    by (force simp: req_clauses_def)
qed

lemma filter_group:
  assumes "ranges_over (so_variables s) order"
  shows "set (filter (\<lambda>x. strings_HasPrefix x (k @ ''@'')) order) = pkg_group s k"
  using ranges_overD(2) [OF assms] by (auto simp: pkg_group_def)

lemma problem_shape_of_orders:
  assumes "length os = length reqs" "\<forall>order \<in> set os. ranges_over (so_variables s) order"
    and p: "problem s = concat (map2 (\<lambda>order req. req_clauses (filter (\<lambda>x. strings_HasPrefix x (req_key req @ ''@'')) order)) os reqs)"
  shows "problem_shape (req_key ` set reqs) s"
proof -
  let ?xs = "\<lambda>order req. filter (\<lambda>x. strings_HasPrefix x (req_key req @ ''@'')) order"
  have elem: "cl \<in> set (problem s) \<longleftrightarrow> (\<exists>order req. (order, req) \<in> set (zip os reqs) \<and> cl \<in> set (req_clauses (?xs order req)))" for cl
    unfolding p by auto
  have ok: "distinct (?xs order req)" "set (?xs order req) = pkg_group s (req_key req)" if "(order, req) \<in> set (zip os reqs)" for order req
    using assms(2) set_zip_leftD [OF that] filter_group [of s] distinct_filter [OF ranges_overD(1)] by blast+
  have ex: "\<exists>order. (order, req) \<in> set (zip os reqs)" if "req \<in> set reqs" for req
    using that assms(1) by (metis in_set_impl_in_set_zip2)
  have "\<exists>k \<in> req_key ` set reqs. at_least (pkg_group s k) cl \<or> at_most (pkg_group s k) cl" if cl: "cl \<in> set (problem s)" for cl
  proof -
    from cl elem obtain order req where e: "(order, req) \<in> set (zip os reqs)" "cl \<in> set (req_clauses (?xs order req))" by blast
    from req_clauses_shape(1) [OF ok(1) [OF e(1)] e(2)] ok(2) [OF e(1)] set_zip_rightD [OF e(1)] show ?thesis by auto
  qed
  moreover have "\<exists>cl \<in> set (problem s). at_least (pkg_group s (req_key req)) cl" if "req \<in> set reqs" "pkg_group s (req_key req) \<noteq> {}" for req
  proof -
    from ex [OF that(1)] obtain order where e: "(order, req) \<in> set (zip os reqs)" by blast
    with that(2) ok(2) [OF e] have "?xs order req \<noteq> []" by (metis list.set(1))
    from req_clauses_shape(2) [OF ok(1) [OF e] this, unfolded ok(2) [OF e]] elem e show ?thesis by blast
  qed
  moreover have "[(x, False), (y, False)] \<in> set (problem s) \<or> [(y, False), (x, False)] \<in> set (problem s)"
    if "req \<in> set reqs" "x \<in> pkg_group s (req_key req)" "y \<in> pkg_group s (req_key req)" "x \<noteq> y" for req x y
  proof -
    from ex [OF that(1)] obtain order where e: "(order, req) \<in> set (zip os reqs)" by blast
    from req_clauses_shape(3) [OF ok(1) [OF e], of x y] that ok(2) [OF e] elem e show ?thesis by metis
  qed
  ultimately show ?thesis unfolding problem_shape_def by blast
qed

lemma initialize_spec:
  assumes "sat_env_ok env" "initialize S env reqs (NewSATSolver v0 c0 cfg) = (e, s)"
  shows "e = None \<longleftrightarrow> (\<forall>req \<in> set reqs. valid_versions S req \<noteq> [])"
    and "e = None \<Longrightarrow> sat_wf s \<and> fresh_variables s \<and> so_assignments s = fmempty \<and> problem_shape (req_key ` set reqs) s
      \<and> fset (fmdom (so_variables s)) = variable_ids S reqs \<and> so_config s = (case cfg of None \<Rightarrow> DefaultSATConfig | Some c \<Rightarrow> c)
      \<and> ss_Decisions (so_statistics s) = 0 \<and> ss_Conflicts (so_statistics s) = 0"
proof -
  let ?s0 = "NewSATSolver v0 c0 cfg"
  obtain e1 s1 where c: "create_all_variables S reqs ?s0 = (e1, s1)" by fastforce
  have f0: "fresh_variables ?s0" by (simp add: fresh_variables_def NewSATSolver_def)
  note v = create_all_variables_spec [OF f0 c]
  show "e = None \<longleftrightarrow> (\<forall>req \<in> set reqs. valid_versions S req \<noteq> [])"
    using v assms(2) c by (auto simp: initialize_def addConflictClauses_def Let_def split: option.splits)
  show "e = None \<Longrightarrow> sat_wf s \<and> fresh_variables s \<and> so_assignments s = fmempty \<and> problem_shape (req_key ` set reqs) s
      \<and> fset (fmdom (so_variables s)) = variable_ids S reqs \<and> so_config s = (case cfg of None \<Rightarrow> DefaultSATConfig | Some c \<Rightarrow> c)
      \<and> ss_Decisions (so_statistics s) = 0 \<and> ss_Conflicts (so_statistics s) = 0"
  proof -
    assume "e = None"
    with assms(2) c have e1: "e1 = None" by (auto simp: initialize_def split: option.splits)
    let ?s2 = "create_all_clauses env 0 reqs s1"
    have o: "only_variables ?s0 s1" "fresh_variables s1" using v by blast+
    then have "sat_wf s1" "problem s1 = []" by (auto simp: sat_wf_def fresh_variables_def only_variables_def NewSATSolver_def problem_def)
    with create_all_clauses_spec [OF _ o(2) assms(1), of 0 reqs] obtain os where
      s2: "sat_wf ?s2" "only_clauses s1 ?s2" "length os = length reqs" "\<forall>order \<in> set os. ranges_over (so_variables ?s2) order"
        "problem ?s2 = concat (map2 (\<lambda>order req. req_clauses (filter (\<lambda>x. strings_HasPrefix x (req_key req @ ''@'')) order)) os reqs)"
      by (auto simp: only_clauses_def)
    let ?s3 = "initializeWatchedLiterals ?s2"
    have eq: "s = set_stat (\<lambda>st. st\<lparr>ss_Variables := map_len (so_variables ?s3), ss_Clauses := int (length (so_clauses ?s3))\<rparr>) ?s3"
      using assms(2) c e1 by (simp add: initialize_def addConflictClauses_def Let_def)
    have lits: "cl_Literals (so_clause s d) = cl_Literals (so_clause ?s2 d)" "cl_Satisfied (so_clause s d) = cl_Satisfied (so_clause ?s2 d)" for d
      by (simp_all add: eq initializeWatchedLiterals_def)
    have same: "so_variables s = so_variables ?s2" "so_clauses s = so_clauses ?s2" "so_var s = so_var ?s2" "so_assignments s = so_assignments ?s2"
      "so_nextVar s = so_nextVar ?s2" "so_nextClause s = so_nextClause ?s2" "so_config s = so_config ?s2"
      "ss_Decisions (so_statistics s) = ss_Decisions (so_statistics ?s2)" "ss_Conflicts (so_statistics s) = ss_Conflicts (so_statistics ?s2)"
      by (simp_all add: eq initializeWatchedLiterals_def)
    have "sat_wf s" using s2(1) by (simp add: sat_wf_def lits same lit_id_def clause_true_def lit_true_def getAssignment_def)
    moreover have "problem s = problem ?s2" by (simp add: problem_def content_def same lits lit_id_def)
    then have "problem_shape (req_key ` set reqs) s" using s2(3-5) by (intro problem_shape_of_orders) (simp_all add: same)
    ultimately show ?thesis using o s2(2) v e1
      by (simp add: same only_variables_def only_clauses_def fresh_variables_def NewSATSolver_def zeroStatistics_def)
  qed
qed

end
