(* ===== verification/Version_Resolution.thy ===== *)
theory Version_Resolution
  imports Sat_Solver
begin

text \<open>
  What the version solver does for version requirements: the clauses it builds say that each package has
  one of its candidate versions and not two, and on such clauses the search never meets a conflict. The
  theorems state when \<open>Solve\<close> returns a solution, what it is, and that the search ends and is sound for any
  clauses.
\<close>

section \<open>Packages have disjoint variables\<close>

text \<open>A reference without the separator \<open>@\<close> in its parts.\<close>

definition plain_ref :: "PackageReference \<Rightarrow> bool" where
  "plain_ref pr \<longleftrightarrow> CHR ''@'' \<notin> set (rf_Repository pr) \<union> set (rf_PackageName pr) \<union> set (rf_Revision pr)"

lemma key_prefix:
  assumes "plain_ref p" "plain_ref q" "strings_HasPrefix (var_id (GetPackageKey p) v) (GetPackageKey q @ ''@'')"
  shows "GetPackageKey p = GetPackageKey q"
proof -
  let ?h = "\<lambda>r. rf_Repository r @ ''/'' @ rf_PackageName r"
  from assms(3) obtain w where "GetPackageKey p @ ''@'' @ v = GetPackageKey q @ ''@'' @ w"
    by (auto simp: HasPrefix_iff prefix_def var_id_def)
  then have "?h p @ CHR ''@'' # (rf_Revision p @ CHR ''@'' # v) = ?h q @ CHR ''@'' # (rf_Revision q @ CHR ''@'' # w)"
    by (simp add: GetPackageKey_def)
  then have "?h p = ?h q \<and> rf_Revision p @ CHR ''@'' # v = rf_Revision q @ CHR ''@'' # w"
    using assms(1,2) by (intro first_separator) (auto simp: plain_ref_def)
  moreover from this have "rf_Revision p = rf_Revision q \<and> v = w"
    using assms(1,2) by (intro first_separator) (auto simp: plain_ref_def)
  ultimately show ?thesis by (simp add: GetPackageKey_def)
qed

definition groups_ok :: "string set \<Rightarrow> SATSolverImpl \<Rightarrow> bool" where
  "groups_ok keys s \<longleftrightarrow> finite keys \<and> (\<forall>k \<in> keys. \<forall>k' \<in> keys. pkg_group s k \<inter> pkg_group s k' \<noteq> {} \<longrightarrow> k = k')
     \<and> (\<forall>x. x |\<in>| fmdom (so_variables s) \<longrightarrow> (\<exists>k \<in> keys. x \<in> pkg_group s k)) \<and> (\<forall>k \<in> keys. pkg_group s k \<noteq> {})"

text \<open>The candidates of a package: the versions that some requirement on it admits.\<close>

definition candidates :: "('v, 'c) SemVer \<Rightarrow> VersionRequirement list \<Rightarrow> string \<Rightarrow> string set" where
  "candidates S reqs k = (\<Union>req \<in> {req \<in> set reqs. req_key req = k}. set (valid_versions S req))"

lemma pkg_group_candidates:
  assumes "\<forall>req \<in> set reqs. plain_ref (vr_PackageRef req)" "fset (fmdom (so_variables s)) = variable_ids S reqs" "req \<in> set reqs"
  shows "pkg_group s (req_key req) = var_id (req_key req) ` candidates S reqs (req_key req)"
proof
  show "pkg_group s (req_key req) \<subseteq> var_id (req_key req) ` candidates S reqs (req_key req)"
  proof
    fix x assume x: "x \<in> pkg_group s (req_key req)"
    then have "x \<in> variable_ids S reqs" using assms(2) by (auto simp: pkg_group_def)
    then obtain r v where r: "r \<in> set reqs" "v \<in> set (valid_versions S r)" "x = var_id (req_key r) v" by (auto simp: variable_ids_def)
    have "strings_HasPrefix (var_id (req_key r) v) (req_key req @ ''@'')" using x r(3) by (simp add: pkg_group_def)
    from key_prefix [OF bspec [OF assms(1) r(1)] bspec [OF assms(1,3)] this [unfolded req_key_def]]
    have "req_key r = req_key req" by (simp add: req_key_def)
    with r show "x \<in> var_id (req_key req) ` candidates S reqs (req_key req)" by (auto simp: candidates_def)
  qed
  have "x \<in> pkg_group s (req_key req)" if "v \<in> candidates S reqs (req_key req)" "x = var_id (req_key req) v" for x v
  proof -
    from that(1) obtain r where "r \<in> set reqs" "req_key r = req_key req" "v \<in> set (valid_versions S r)" by (auto simp: candidates_def)
    then have "x \<in> variable_ids S reqs" unfolding variable_ids_def that(2) by (metis UN_I image_eqI)
    then have "x |\<in>| fmdom (so_variables s)" using assms(2) by simp
    with that(2) show ?thesis by (simp add: pkg_group_def HasPrefix_iff var_id_def)
  qed
  then show "var_id (req_key req) ` candidates S reqs (req_key req) \<subseteq> pkg_group s (req_key req)" by blast
qed

lemma groups_ok_requirements:
  assumes plain: "\<forall>req \<in> set reqs. plain_ref (vr_PackageRef req)" and dom: "fset (fmdom (so_variables s)) = variable_ids S reqs"
    and some: "\<forall>req \<in> set reqs. valid_versions S req \<noteq> []"
  shows "groups_ok (req_key ` set reqs) s"
  unfolding groups_ok_def
proof (intro conjI ballI allI impI)
  fix k k' assume "k \<in> req_key ` set reqs" "k' \<in> req_key ` set reqs" and ne: "pkg_group s k \<inter> pkg_group s k' \<noteq> {}"
  then obtain r r' where r: "r \<in> set reqs" "k = req_key r" "r' \<in> set reqs" "k' = req_key r'" by auto
  from ne obtain v where "strings_HasPrefix (var_id (req_key r) v) (req_key r' @ ''@'')"
    unfolding r pkg_group_candidates [OF plain dom r(1)] by (auto simp: pkg_group_def)
  with plain r show "k = k'" unfolding req_key_def by (blast intro: key_prefix)
next
  fix x assume "x |\<in>| fmdom (so_variables s)"
  then have "x \<in> variable_ids S reqs" using dom by simp
  then obtain r v where "r \<in> set reqs" "v \<in> set (valid_versions S r)" "x = var_id (req_key r) v" by (auto simp: variable_ids_def)
  then have "x \<in> pkg_group s (req_key r)" using pkg_group_candidates [OF plain dom] by (auto simp: candidates_def)
  with \<open>r \<in> set reqs\<close> show "\<exists>k \<in> req_key ` set reqs. x \<in> pkg_group s k" by blast
next
  fix k assume "k \<in> req_key ` set reqs"
  then obtain r where r: "r \<in> set reqs" "k = req_key r" by auto
  with some obtain v where "v \<in> set (valid_versions S r)" by (metis ex_in_conv list.set(1) set_empty)
  with r show "pkg_group s k \<noteq> {}" using pkg_group_candidates [OF plain dom] by (auto simp: candidates_def)
qed simp

section \<open>The search on such clauses\<close>

text \<open>No package has two versions, and a package with an assigned variable has one.\<close>

definition picks :: "string set \<Rightarrow> SATSolverImpl \<Rightarrow> bool" where
  "picks keys s \<longleftrightarrow> (\<forall>k \<in> keys.
     (\<forall>x \<in> pkg_group s k. \<forall>y \<in> pkg_group s k. fmlookup (so_assignments s) x = Some True \<longrightarrow> fmlookup (so_assignments s) y = Some True \<longrightarrow> x = y)
     \<and> ((\<exists>x \<in> pkg_group s k. fmlookup (so_assignments s) x \<noteq> None) \<longrightarrow> (\<exists>y \<in> pkg_group s k. fmlookup (so_assignments s) y = Some True)))"

lemma same_problem_content:
  assumes "same_problem s s'"
  shows "content s' (so_clause s' c) = content s (so_clause s c)" "problem s' = problem s" "pkg_group s' k = pkg_group s k"
    "problem_shape keys s' = problem_shape keys s" "groups_ok keys s' = groups_ok keys s"
proof -
  show c: "content s' (so_clause s' c) = content s (so_clause s c)" for c
    by (simp add: content_def same_problemD(8) [OF assms] same_problemD(9) [OF assms])
  show p: "problem s' = problem s" by (simp add: problem_def c same_problemD(2) [OF assms])
  show g: "pkg_group s' k = pkg_group s k" for k by (simp add: pkg_group_def same_problemD(1) [OF assms])
  show "problem_shape keys s' = problem_shape keys s" "groups_ok keys s' = groups_ok keys s"
    by (simp_all add: problem_shape_def groups_ok_def p g same_problemD(1) [OF assms])
qed

text \<open>The effect of a clause, by its content.\<close>

lemma propagate_content:
  assumes "propagate_clause level s c = (k, ch, s')"
  obtains (conflict) "k = Some c" "\<forall>(x, b) \<in> set (content s (so_clause s c)). fmlookup (so_assignments s) x = Some (\<not> b)"
  | (same) "k = None" "so_assignments s' = so_assignments s"
  | (unit) x b where "k = None" "so_assignments s' = fmupd x b (so_assignments s)"
      "filter (\<lambda>(y, d). fmlookup (so_assignments s) y = None) (content s (so_clause s c)) = [(x, b)]"
      "\<forall>(y, d) \<in> set (content s (so_clause s c)). fmlookup (so_assignments s) y \<noteq> Some d"
proof (cases rule: propagate_clause_cases [of level s c])
  case kept
  with assms show ?thesis by (intro same) auto
next
  case marked
  with assms show ?thesis by (intro same) auto
next
  case conflict
  with assms show ?thesis by (intro that(1)) (auto simp: content_def getAssignment_def lit_id_def)
next
  case (unit l)
  have "filter (\<lambda>(y, d). fmlookup (so_assignments s) y = None) (content s (so_clause s c))
      = map (\<lambda>l. (lit_id s l, li_Positive l)) (filter (\<lambda>l. getAssignment s (li_Variable l) = None) (cl_Literals (so_clause s c)))"
    by (simp add: content_def filter_map comp_def lit_id_def getAssignment_def)
  with unit assms show ?thesis
    by (intro that(3) [of "lit_id s l" "li_Positive l"]) (auto simp: content_def lit_true_def getAssignment_def lit_id_def)
qed

lemma clause_shape:
  assumes "problem_shape keys s" "c \<in> set (so_clauses s)"
  obtains k xs where "k \<in> keys" "distinct xs" "set xs = pkg_group s k" "xs \<noteq> []" "content s (so_clause s c) = map (\<lambda>x. (x, True)) xs"
  | k x y where "k \<in> keys" "x \<in> pkg_group s k" "y \<in> pkg_group s k" "x \<noteq> y" "content s (so_clause s c) = [(x, False), (y, False)]"
proof -
  have "content s (so_clause s c) \<in> set (problem s)" using assms(2) by (simp add: problem_def)
  with assms(1) that show ?thesis unfolding problem_shape_def at_least_def at_most_def by metis
qed

lemma picks_no_conflict:
  assumes "problem_shape keys s" "picks keys s" "c \<in> set (so_clauses s)"
  shows "\<not> (\<forall>(x, b) \<in> set (content s (so_clause s c)). fmlookup (so_assignments s) x = Some (\<not> b))"
  using assms(1,3)
proof (cases rule: clause_shape)
  case (1 k xs)
  show ?thesis
  proof
    assume "\<forall>(x, b) \<in> set (content s (so_clause s c)). fmlookup (so_assignments s) x = Some (\<not> b)"
    then have f: "fmlookup (so_assignments s) x = Some False" if "x \<in> pkg_group s k" for x using 1 that by auto
    moreover obtain x where "x \<in> pkg_group s k" using 1(3,4) by (metis last_in_set)
    ultimately obtain y where "y \<in> pkg_group s k" "fmlookup (so_assignments s) y = Some True"
      using assms(2) 1(1) unfolding picks_def by (metis option.distinct(1))
    with f show False by simp
  qed
next
  case (2 k x y)
  with assms(2) show ?thesis by (auto simp: picks_def)
qed

text \<open>Assigning keeps the choice when the value is false and another variable of the package is true, or when
  the value is true and none is assigned.\<close>

lemma picks_update:
  assumes "picks keys s" "groups_ok keys s" "k \<in> keys" "x \<in> pkg_group s k" "so_variables s' = so_variables s"
    and a: "so_assignments s' = fmupd x b (so_assignments s)"
    and "\<not> b \<and> (\<exists>y \<in> pkg_group s k. y \<noteq> x \<and> fmlookup (so_assignments s) y = Some True)
      \<or> b \<and> (\<forall>y \<in> pkg_group s k. fmlookup (so_assignments s) y = None)"
  shows "picks keys s'"
proof -
  have g: "pkg_group s' j = pkg_group s j" for j by (simp add: pkg_group_def assms(5))
  have "x \<notin> pkg_group s j" if "j \<in> keys" "j \<noteq> k" for j using assms(2,3,4) that unfolding groups_ok_def by blast
  then have other: "fmlookup (so_assignments s') y = fmlookup (so_assignments s) y" if "j \<in> keys" "j \<noteq> k" "y \<in> pkg_group s j" for j y
    using that by (auto simp: a)
  show ?thesis unfolding picks_def g
  proof (intro ballI)
    fix j assume j: "j \<in> keys"
    show "(\<forall>x \<in> pkg_group s j. \<forall>y \<in> pkg_group s j. fmlookup (so_assignments s') x = Some True \<longrightarrow> fmlookup (so_assignments s') y = Some True \<longrightarrow> x = y)
      \<and> ((\<exists>x \<in> pkg_group s j. fmlookup (so_assignments s') x \<noteq> None) \<longrightarrow> (\<exists>y \<in> pkg_group s j. fmlookup (so_assignments s') y = Some True))"
    proof (cases "j = k")
      case True
      with assms(1,3,4,7) show ?thesis unfolding picks_def by (auto simp: a)
    next
      case False
      with assms(1) j show ?thesis unfolding picks_def by (simp add: other)
    qed
  qed
qed

lemma picks_propagate:
  assumes shape: "problem_shape keys s" "groups_ok keys s" "picks keys s" and c: "c \<in> set (so_clauses s)"
    and p: "propagate_clause level s c = (k, ch, s')"
  shows "picks keys s'"
proof -
  have v: "so_variables s' = so_variables s" using propagate_clause_frame [OF p] same_problemD(1) by blast
  from p show ?thesis
  proof (cases rule: propagate_content)
    case conflict
    with picks_no_conflict [OF shape(1,3) c] show ?thesis by blast
  next
    case same
    with shape(3) v show ?thesis by (simp add: picks_def pkg_group_def)
  next
    case (unit x b)
    have "(x, b) \<in> set (filter (\<lambda>(y, d). fmlookup (so_assignments s) y = None) (content s (so_clause s c)))" by (simp add: unit(3))
    then have xb: "(x, b) \<in> set (content s (so_clause s c))" by auto
    from shape(1) c show ?thesis
    proof (cases rule: clause_shape)
      case (1 j xs)
      from xb 1 have x: "x \<in> pkg_group s j" "b" by auto
      have "fmlookup (so_assignments s) y \<noteq> Some True" if "y \<in> pkg_group s j" for y using unit(4) 1 that by auto
      then have "\<forall>y \<in> pkg_group s j. fmlookup (so_assignments s) y = None"
        using shape(3) 1(1) unfolding picks_def by metis
      with x show ?thesis by (intro picks_update [OF shape(3,2) 1(1) x(1) v unit(2)]) simp
    next
      case (2 j y z)
      from xb 2 have "\<not> b" "x = y \<or> x = z" by auto
      moreover have "fmlookup (so_assignments s) y \<noteq> Some False" "fmlookup (so_assignments s) z \<noteq> Some False"
        using unit(4) 2(5) by auto
      then have "fmlookup (so_assignments s) y = Some True \<and> x = z \<or> fmlookup (so_assignments s) z = Some True \<and> x = y"
        using unit(3) 2(5) by (cases "fmlookup (so_assignments s) y"; cases "fmlookup (so_assignments s) z") auto
      ultimately have "\<exists>w \<in> pkg_group s j. w \<noteq> x \<and> fmlookup (so_assignments s) w = Some True"
        using 2(2-4) by auto
      moreover have "x \<in> pkg_group s j" using \<open>x = y \<or> x = z\<close> 2(2,3) by auto
      ultimately show ?thesis using \<open>\<not> b\<close> by (intro picks_update [OF shape(3,2) 2(1) _ v unit(2)]) simp_all
    qed
  qed
qed

lemma unitPropagate_picks:
  assumes "problem_shape keys s" "groups_ok keys s" "picks keys s" "unitPropagate level s = (k, s')"
  shows "k = None" "picks keys s'" "problem_shape keys s'" "groups_ok keys s'"
proof -
  let ?I = "\<lambda>t. problem_shape keys t \<and> groups_ok keys t \<and> picks keys t"
  have "?I t'" if "?I t" "c \<in> set (so_clauses t)" "propagate_clause level t c = (k, ch, t')" for t c k ch t'
    using that picks_propagate same_problem_content(4,5) propagate_clause_frame by blast
  then have i: "?I s'" by (intro unitPropagate_inv [OF _ assms(4), where I = ?I]) (use assms in blast)+
  then show "picks keys s'" "problem_shape keys s'" "groups_ok keys s'" by blast+
  show "k = None"
  proof (rule ccontr)
    assume "k \<noteq> None"
    then obtain c where "k = Some c" by blast
    with unitPropagate_conflict assms(4) have "c \<in> set (so_clauses s')"
      "\<forall>(x, b) \<in> set (content s' (so_clause s' c)). fmlookup (so_assignments s') x = Some (\<not> b)"
      by (auto simp: content_def getAssignment_def lit_id_def)
    with picks_no_conflict i show False by blast
  qed
qed

text \<open>When propagation is done, a package has all its variables assigned or none.\<close>

lemma settled_group:
  assumes shape: "problem_shape keys s" "picks keys s" "sat_wf s" "\<forall>c \<in> set (so_clauses s). settled s c"
    and x: "k \<in> keys" "x \<in> pkg_group s k" "fmlookup (so_assignments s) x \<noteq> None" and y: "y \<in> pkg_group s k"
  shows "fmlookup (so_assignments s) y \<noteq> None"
proof -
  from shape(2) x obtain z where z: "z \<in> pkg_group s k" "fmlookup (so_assignments s) z = Some True" unfolding picks_def by blast
  show ?thesis
  proof (cases "y = z")
    case False
    with shape(1) x(1) y z have "[(y, False), (z, False)] \<in> set (problem s) \<or> [(z, False), (y, False)] \<in> set (problem s)"
      unfolding problem_shape_def by blast
    then obtain c where c: "c \<in> set (so_clauses s)" "content s (so_clause s c) = [(y, False), (z, False)] \<or> content s (so_clause s c) = [(z, False), (y, False)]"
      by (auto simp: problem_def)
    have len: "length (filter (\<lambda>l. getAssignment s (li_Variable l) = None) (cl_Literals (so_clause s c)))
        = length (filter (\<lambda>(x, d). fmlookup (so_assignments s) x = None) (content s (so_clause s c)))"
      by (simp add: content_def filter_map comp_def lit_id_def getAssignment_def)
    from shape(4) c(1) have "settled s c" by blast
    then have "clause_true s c \<or> 2 \<le> length (filter (\<lambda>(x, d). fmlookup (so_assignments s) x = None) (content s (so_clause s c)))"
      unfolding settled_def len using sat_wfD(5) [OF shape(3) c(1)] by blast
    moreover have "clause_true s c \<longleftrightarrow> (\<exists>(x, b) \<in> set (content s (so_clause s c)). fmlookup (so_assignments s) x = Some b)"
      by (auto simp: clause_true_def lit_true_def getAssignment_def content_def lit_id_def)
    ultimately show ?thesis using c(2) z(2) by (auto split: if_splits)
  qed (use z in simp)
qed

text \<open>The packages not yet touched bound the decisions still to come.\<close>

definition untouched :: "string set \<Rightarrow> SATSolverImpl \<Rightarrow> string set" where
  "untouched keys s = {k \<in> keys. \<forall>x \<in> pkg_group s k. fmlookup (so_assignments s) x = None}"

definition search_inv :: "string set \<Rightarrow> SATSolverImpl \<Rightarrow> bool" where
  "search_inv keys s \<longleftrightarrow> problem_shape keys s \<and> groups_ok keys s \<and> picks keys s \<and> ss_Conflicts (so_statistics s) = 0
     \<and> ss_Decisions (so_statistics s) + int (card (untouched keys s)) \<le> int (card keys)"

lemma search_inv_propagate:
  assumes "search_inv keys s" "unitPropagate level s = (k, s')"
  shows "k = None" "search_inv keys s'"
proof -
  have s: "problem_shape keys s" "groups_ok keys s" "picks keys s" "finite keys" using assms(1) by (auto simp: search_inv_def groups_ok_def)
  note p = unitPropagate_picks [OF s(1-3) assms(2)]
  show "k = None" by (rule p(1))
  have f: "same_problem s s'" "extends_assignment s s'" using unitPropagate_frame [OF assms(2)] by blast+
  have "untouched keys s' \<subseteq> untouched keys s"
    using f(2) unfolding untouched_def same_problem_content(3) [OF f(1)] extends_assignment_def by (auto, metis not_None_eq)
  then have "card (untouched keys s') \<le> card (untouched keys s)" using s(4) by (intro card_mono) (auto simp: untouched_def)
  with p assms(1) unitPropagate_stats [OF assms(2)] show "search_inv keys s'" by (auto simp: search_inv_def)
qed

lemma not_all_assigned:
  assumes "sat_wf s" "\<not> allVariablesAssigned s"
  obtains x where "x |\<in>| fmdom (so_variables s)" "fmlookup (so_assignments s) x = None"
proof -
  have "fmdom (so_variables s) \<noteq> fmdom (so_assignments s)" using assms(2) by (auto simp: allVariablesAssigned_def map_len_def)
  with sat_wfD(4) [OF assms(1)] obtain x where "x |\<in>| fmdom (so_variables s)" "x |\<notin>| fmdom (so_assignments s)" by blast
  with that show ?thesis by (auto simp: fmdom_notD)
qed

lemma select_unassigned:
  assumes "sat_wf s" "ranges_over (so_variables s) order" "\<not> allVariablesAssigned s" "\<not> sf_EnableVSIDS (so_config s)"
  shows "selectVariable order s \<noteq> None"
proof -
  from not_all_assigned [OF assms(1,3)] obtain x where x: "x |\<in>| fmdom (so_variables s)" "fmlookup (so_assignments s) x = None" .
  then obtain a where "fmlookup (so_variables s) x = Some a" by (auto simp: fmlookup_dom_iff)
  with x unassigned_variables_elem [OF assms(1,2)] have "a \<in> set (unassigned_variables order s)" by blast
  with assms(4) show ?thesis by (auto simp: selectVariable_def split: list.splits)
qed

lemma search_inv_decide:
  assumes inv: "search_inv keys s" "sat_wf s" "\<forall>c \<in> set (so_clauses s). settled s c"
    and x: "fmlookup (so_variables s) x = Some a" "fmlookup (so_assignments s) x = None" "va_ID (so_var s a) = x"
    and d: "0 \<le> ss_Decisions (so_statistics s)" "ss_Decisions (so_statistics s) < 2 ^ 63 - 1"
  shows "search_inv keys (assign a True l None (set_stat (\<lambda>st. st\<lparr>ss_Decisions := inc64 (ss_Decisions st)\<rparr>) s))"
    "ss_Decisions (so_statistics s) + 1 \<le> int (card keys)"
proof -
  let ?s = "assign a True l None (set_stat (\<lambda>st. st\<lparr>ss_Decisions := inc64 (ss_Decisions st)\<rparr>) s)"
  have s: "problem_shape keys s" "groups_ok keys s" "picks keys s" "finite keys" using inv(1) by (auto simp: search_inv_def groups_ok_def)
  from s(2) fmdomI [OF x(1)] obtain k where k: "k \<in> keys" "x \<in> pkg_group s k" unfolding groups_ok_def by blast
  have none: "\<forall>y \<in> pkg_group s k. fmlookup (so_assignments s) y = None"
    using settled_group [OF s(1,3) inv(2,3) k(1) _ _ k(2)] x(2) by blast
  have same: "same_problem s ?s" by simp
  have a: "so_assignments ?s = fmupd x True (so_assignments s)" using x(3) by simp
  have p: "picks keys ?s" by (rule picks_update [OF s(3,2) k _ a]) (use none in auto)
  have "untouched keys ?s \<subseteq> untouched keys s - {k}"
    using k a unfolding untouched_def same_problem_content(3) [OF same] by (auto split: if_splits)
  moreover have u: "k \<in> untouched keys s" "finite (untouched keys s)" using k none s(4) by (auto simp: untouched_def)
  ultimately have "card (untouched keys ?s) \<le> card (untouched keys s - {k})" by (intro card_mono) auto
  with card_Suc_Diff1 [OF u(2,1)] have c: "card (untouched keys ?s) + 1 \<le> card (untouched keys s)" by linarith
  with inv(1) show "ss_Decisions (so_statistics s) + 1 \<le> int (card keys)" by (auto simp: search_inv_def)
  show "search_inv keys ?s"
    using inv(1) c p s(1,2) same_problem_content(4,5) [OF same, of keys] d by (auto simp: search_inv_def)
qed

text \<open>With the simple choice of variables, the search goes on or returns an assignment.\<close>

definition roomy :: "string set \<Rightarrow> SATSolverImpl \<Rightarrow> bool" where
  "roomy keys s \<longleftrightarrow> \<not> sf_EnableVSIDS (so_config s) \<and> int (card keys) \<le> sf_MaxDecisions (so_config s) \<and> 0 \<le> sf_MaxConflicts (so_config s)"

lemma search_step:
  assumes inv: "dpll_inv level s" "search_inv keys s" and room: "roomy keys s" and env: "sat_env_ok env" "\<not> sn_done env i"
  shows "(\<exists>level' s'. dpll_step env i level s = Continue level' s' \<and> search_inv keys s')
    \<or> (\<exists>s'. dpll_step env i level s = Return (Ret (Inr (so_assignments s'), s')) \<and> search_inv keys s')"
proof -
  obtain k s1 where u: "unitPropagate level s = (k, s1)" by fastforce
  note p = search_inv_propagate [OF inv(2) u]
  have u': "unitPropagate level s = (None, s1)" using u p(1) by simp
  have wf: "sat_wf s1" using unitPropagate_wf(1) [OF u] inv(1) by (simp add: dpll_inv_def)
  have cfg: "so_config s1 = so_config s" using unitPropagate_frame [OF u] same_problemD(5) by blast
  show ?thesis
  proof (cases "allVariablesAssigned s1")
    case True
    with u' env(2) p(2) show ?thesis by (auto simp: dpll_step_def)
  next
    case False
    let ?o = "sn_select env i (so_variables s1)"
    have o: "ranges_over (so_variables s1) ?o" using env(1) by (simp add: sat_env_ok_def)
    from select_unassigned [OF wf o False] room cfg obtain a where a: "selectVariable ?o s1 = Some a" by (auto simp: roomy_def)
    from selectVariable_unassigned [OF wf o a] obtain x where x: "fmlookup (so_variables s1) x = Some a"
      "fmlookup (so_assignments s1) x = None" "va_ID (so_var s1 a) = x" by blast
    have d: "0 \<le> ss_Decisions (so_statistics s1)" "ss_Decisions (so_statistics s1) < 2 ^ 63 - 1"
      using inv(1) unitPropagate_stats [OF u] by (auto simp: dpll_inv_def)
    note dec = search_inv_decide [OF p(2) wf unitPropagate_settles [OF u'] x d]
    have "ss_Conflicts (so_statistics s1) = 0" using p(2) by (simp add: search_inv_def)
    with u' env(2) False a dec room cfg d show ?thesis by (auto simp: dpll_step_def Let_def roomy_def)
  qed
qed

lemma search_result:
  assumes env: "sat_env_ok env" "\<forall>i. \<not> sn_done env i" and inv: "dpll_inv 0 s" "search_inv keys s" "roomy keys s"
  shows "\<exists>s'. dpllWithCDCL env s = Some (Ret (Inr (so_assignments s'), s')) \<and> search_inv keys s' \<and> model_of s' (so_assignments s')
    \<and> grows s s' \<and> sat_wf s'"
proof -
  let ?J = "\<lambda>s. search_inv keys s \<and> roomy keys s"
  have J: "?J s'" if "?J s" "dpll_inv level s" "dpll_step env i level s = Continue level' s'" for i level s level' s'
    using search_step [OF that(2) _ _ env(1), of keys i] env(2) that dpll_step_Continue(2) [OF that(2) env(1) that(3)]
    by (auto simp: roomy_def grows_def)
  have "\<exists>r i level t. dpll_loop env 0 0 s = Some r \<and> dpll_inv level t \<and> ?J t \<and> grows s t \<and> 0 \<le> i \<and> dpll_step env i level t = Return r"
    by (rule dpll_loop_returns [where J = ?J, OF env(1) _ inv(1)]) (use J inv in blast)+
  then obtain r i level t where
    t: "dpll_loop env 0 0 s = Some r" "dpll_inv level t" "search_inv keys t" "roomy keys t" "grows s t" "dpll_step env i level t = Return r"
    by blast
  from search_step [OF t(2-4) env(1), of i] env(2) t(6) obtain s' where s': "r = Ret (Inr (so_assignments s'), s')" "search_inv keys s'"
    by auto
  from dpll_step_model [OF t(2) t(6) [unfolded s'(1)]] t(5) s' t(1) show ?thesis
    by (auto simp: dpllWithCDCL_def intro: grows_trans)
qed

lemma initial_search:
  assumes env: "sat_env_ok env" and init: "initialize S env reqs (NewSATSolver v0 c0 (Some cfg)) = (None, s)"
    and max: "sf_MaxDecisions cfg < 2 ^ 63 - 1"
  shows "dpll_inv 0 s" "so_config s = cfg" "fset (fmdom (so_variables s)) = variable_ids S reqs"
    "\<forall>req \<in> set reqs. plain_ref (vr_PackageRef req) \<Longrightarrow> search_inv (req_key ` set reqs) s"
proof -
  note i = initialize_spec [OF env init]
  have f: "sat_wf s" "fresh_variables s" "so_assignments s = fmempty" "problem_shape (req_key ` set reqs) s"
    "fset (fmdom (so_variables s)) = variable_ids S reqs" "so_config s = cfg"
    "ss_Decisions (so_statistics s) = 0" "ss_Conflicts (so_statistics s) = 0" "\<forall>req \<in> set reqs. valid_versions S req \<noteq> []"
    using i by simp_all
  then show "so_config s = cfg" "fset (fmdom (so_variables s)) = variable_ids S reqs" by simp_all
  show "dpll_inv 0 s" using f max by (auto simp: dpll_inv_def levels_below_def fresh_variables_def)
  assume p: "\<forall>req \<in> set reqs. plain_ref (vr_PackageRef req)"
  have g: "groups_ok (req_key ` set reqs) s" by (rule groups_ok_requirements [OF p f(5,9)])
  have "card (untouched (req_key ` set reqs) s) \<le> card (req_key ` set reqs)" by (rule card_mono) (auto simp: untouched_def)
  moreover have "picks (req_key ` set reqs) s" by (simp add: picks_def f(3))
  ultimately show "search_inv (req_key ` set reqs) s" using f g by (simp add: search_inv_def)
qed

text \<open>With every variable assigned, each package has exactly one version.\<close>

lemma one_version:
  assumes plain: "\<forall>req \<in> set reqs. plain_ref (vr_PackageRef req)" and dom: "fset (fmdom (so_variables s)) = variable_ids S reqs"
    and inv: "search_inv (req_key ` set reqs) s" "fmdom (so_assignments s) = fmdom (so_variables s)" and req: "req \<in> set reqs"
  shows "\<exists>!v. v \<in> candidates S reqs (req_key req) \<and> fmlookup (so_assignments s) (var_id (req_key req) v) = Some True"
proof -
  let ?k = "req_key req"
  have g: "pkg_group s ?k = var_id ?k ` candidates S reqs ?k" by (rule pkg_group_candidates [OF plain dom req])
  have p: "picks (req_key ` set reqs) s" "pkg_group s ?k \<noteq> {}" using inv(1) req by (auto simp: search_inv_def groups_ok_def)
  then obtain x where x: "x \<in> pkg_group s ?k" by blast
  then have "x |\<in>| fmdom (so_assignments s)" using inv(2) by (simp add: pkg_group_def)
  then have "fmlookup (so_assignments s) x \<noteq> None" by (auto simp: fmlookup_dom_iff)
  with x p(1) req obtain y where y: "y \<in> pkg_group s ?k" "fmlookup (so_assignments s) y = Some True" unfolding picks_def by blast
  then obtain v where v: "v \<in> candidates S reqs ?k" "y = var_id ?k v" using g by blast
  moreover have "w = v" if "w \<in> candidates S reqs ?k" "fmlookup (so_assignments s) (var_id ?k w) = Some True" for w
  proof -
    have "var_id ?k w \<in> pkg_group s ?k" using g that(1) by blast
    with that(2) y p(1) req have "var_id ?k w = y" unfolding picks_def by blast
    with v(2) show ?thesis by (simp add: var_id_def)
  qed
  ultimately show ?thesis using y(2) by blast
qed

text \<open>Before the first decision only packages with a single candidate have assigned variables.\<close>

definition lonely :: "string set \<Rightarrow> SATSolverImpl \<Rightarrow> bool" where
  "lonely keys s \<longleftrightarrow> (\<forall>k \<in> keys. \<forall>x \<in> pkg_group s k. \<forall>y \<in> pkg_group s k. x \<noteq> y \<longrightarrow> fmlookup (so_assignments s) x = None)"

lemma lonely_propagate:
  assumes shape: "problem_shape keys s" "groups_ok keys s" "lonely keys s" and c: "c \<in> set (so_clauses s)"
    and p: "propagate_clause level s c = (k, ch, s')"
  shows "lonely keys s'"
proof -
  have g: "pkg_group s' j = pkg_group s j" for j
    using propagate_clause_frame [OF p] same_problem_content(3) by blast
  show ?thesis
  proof (cases "so_assignments s' = so_assignments s")
    case True
    with shape(3) g show ?thesis by (simp add: lonely_def)
  next
    case False
    from p show ?thesis
    proof (cases rule: propagate_content)
      case conflict
      with p False show ?thesis by (cases rule: propagate_clause_cases [of level s c]) auto
    next
      case (unit x b)
      have "(x, b) \<in> set (filter (\<lambda>(y, d). fmlookup (so_assignments s) y = None) (content s (so_clause s c)))" by (simp add: unit(3))
      then have xb: "(x, b) \<in> set (content s (so_clause s c))" by auto
      from shape(1) c obtain j where j: "j \<in> keys" "pkg_group s j = {x}"
      proof (cases rule: clause_shape)
        case (1 j xs)
        have x: "x \<in> pkg_group s j" using xb 1(3,5) by auto
        have "y = x" if y: "y \<in> pkg_group s j" for y
        proof (rule ccontr)
          assume "y \<noteq> x"
          with shape(3) 1(1) x y have "fmlookup (so_assignments s) y = None" unfolding lonely_def by blast
          with 1(3,5) y have "(y, True) \<in> set (filter (\<lambda>(y, d). fmlookup (so_assignments s) y = None) (content s (so_clause s c)))" by auto
          with unit(3) \<open>y \<noteq> x\<close> show False by simp
        qed
        with x that 1(1) show ?thesis by blast
      next
        case (2 j y z)
        then have "fmlookup (so_assignments s) y = None" "fmlookup (so_assignments s) z = None" using shape(3) unfolding lonely_def by metis+
        with 2(5) unit(3) show ?thesis by simp
      qed
      have "x \<notin> pkg_group s i" if "i \<in> keys" "y \<in> pkg_group s i" "y \<noteq> x" for i y
        using that j shape(2) unfolding groups_ok_def by blast
      then show ?thesis using shape(3) unfolding lonely_def g unit(2) by (auto split: if_splits)
    qed (use False in blast)
  qed
qed

lemma unitPropagate_lonely:
  assumes "problem_shape keys s" "groups_ok keys s" "lonely keys s" "unitPropagate level s = (k, s')"
  shows "lonely keys s'"
proof -
  let ?I = "\<lambda>t. problem_shape keys t \<and> groups_ok keys t \<and> lonely keys t"
  have "?I t'" if "?I t" "c \<in> set (so_clauses t)" "propagate_clause level t c = (k, ch, t')" for t c k ch t'
    using that lonely_propagate same_problem_content(4,5) propagate_clause_frame by blast
  then have "?I s'" by (intro unitPropagate_inv [OF _ assms(4), where I = ?I]) (use assms in blast)+
  then show ?thesis by blast
qed

lemma single_assigned:
  assumes shape: "problem_shape keys s" "sat_wf s" "\<forall>c \<in> set (so_clauses s). settled s c" and k: "k \<in> keys" "pkg_group s k = {x}"
  shows "fmlookup (so_assignments s) x \<noteq> None"
proof -
  from shape(1) k obtain cl where "cl \<in> set (problem s)" "at_least {x} cl" unfolding problem_shape_def by fastforce
  then obtain c xs where c: "c \<in> set (so_clauses s)" "distinct xs" "set xs = {x}" "content s (so_clause s c) = map (\<lambda>x. (x, True)) xs"
    by (auto simp: problem_def at_least_def)
  have "length xs = 1" using distinct_card [OF c(2)] c(3) by simp
  then have xs: "content s (so_clause s c) = [(x, True)]" using c(3,4) by (cases xs) auto
  then obtain l where l: "cl_Literals (so_clause s c) = [l]" "lit_id s l = x" by (auto simp: content_def)
  from shape(3) c(1) have "settled s c" by blast
  then have "clause_true s c" using l sat_wfD(5) [OF shape(2) c(1)] by (auto simp: settled_def split: if_splits)
  then show ?thesis using l by (auto simp: clause_true_def lit_true_def getAssignment_def lit_id_def)
qed

lemma select_VSIDS:
  assumes "sf_EnableVSIDS (so_config s)" "\<And>x a. fmlookup (so_variables s) x = Some a \<Longrightarrow> va_Watched (so_var s a) = []"
    and "sat_wf s" "ranges_over (so_variables s) order"
  shows "selectVariable order s = None"
proof -
  let ?f = "\<lambda>a (best, bestActivity). let activity = calculateVariableActivity s a
    in if activity > bestActivity then (Some a, activity) else (best, bestActivity)"
  have act: "calculateVariableActivity s a = 0" if "a \<in> set (unassigned_variables order s)" for a
    using that unassigned_variables_elem [OF assms(3,4)] assms(2) by (auto simp: calculateVariableActivity_def)
  have "fold ?f as (None, 0) = (None, 0)" if "set as \<subseteq> set (unassigned_variables order s)" for as
    using that by (induction as) (auto simp: act)
  then show ?thesis using assms(1) by (simp add: selectVariable_def)
qed

lemma solve_search:
  assumes env: "sat_env_ok env" "\<forall>i. \<not> sn_done env i"
    and cfg: "\<not> sf_EnableVSIDS cfg" "int (length reqs) \<le> sf_MaxDecisions cfg" "sf_MaxDecisions cfg < 2 ^ 63 - 1" "0 \<le> sf_MaxConflicts cfg"
    and reqs: "\<forall>req \<in> set reqs. plain_ref (vr_PackageRef req) \<and> valid_versions S req \<noteq> []"
  obtains sol s' where "Solve S env t0 t1 reqs (NewSATSolver v0 c0 (Some cfg)) = Some (Ret (Inr sol, s'))" "vs_Success sol"
    "\<And>req. req \<in> set reqs \<Longrightarrow> \<exists>!v. v \<in> candidates S reqs (req_key req) \<and> fmlookup (so_assignments s') (var_id (req_key req) v) = Some True"
proof -
  obtain e s where i: "initialize S env reqs (NewSATSolver v0 c0 (Some cfg)) = (e, s)" by fastforce
  with initialize_spec(1) [OF env(1) i] reqs have i: "initialize S env reqs (NewSATSolver v0 c0 (Some cfg)) = (None, s)" by simp
  have plain: "\<forall>req \<in> set reqs. plain_ref (vr_PackageRef req)" using reqs by simp
  note s = initial_search [OF env(1) i cfg(3)]
  have "card (req_key ` set reqs) \<le> length reqs" using card_image_le card_length le_trans by blast
  then have room: "roomy (req_key ` set reqs) s" using s(2) cfg by (simp add: roomy_def)
  from search_result [OF env s(1) s(4) [OF plain] room] obtain s' where
    s': "dpllWithCDCL env s = Some (Ret (Inr (so_assignments s'), s'))" "search_inv (req_key ` set reqs) s'"
      "model_of s' (so_assignments s')" "grows s s'" by blast
  have dom: "fset (fmdom (so_variables s')) = variable_ids S reqs" "fmdom (so_assignments s') = fmdom (so_variables s')"
    using s'(3,4) s(3) by (simp_all add: grows_def model_of_def)
  from i s'(1) obtain sol s'' where "Solve S env t0 t1 reqs (NewSATSolver v0 c0 (Some cfg)) = Some (Ret (Inr sol, s''))" "vs_Success sol"
    "so_assignments s'' = so_assignments s'" by (simp add: Solve_def Let_def convertToVersionSolution_def)
  with one_version [OF plain dom(1) s'(2) dom(2)] that show ?thesis by metis
qed

section \<open>Properties\<close>

text \<open>C12: \<open>Solve\<close> on a new solver ends, whatever the requirements, the orders in which maps are visited and the
  moment at which the context is done: decisions are bounded by the configuration, and a conflict lowers the
  decision level. It panics only when the restart threshold is zero.\<close>

theorem Solve_terminates:
  assumes "sat_env_ok env" and "sf_MaxDecisions cfg < 2 ^ 63 - 1" and "sf_RestartThreshold cfg \<noteq> 0"
  shows "\<exists>r s'. Solve S env t0 t1 reqs (NewSATSolver v0 c0 (Some cfg)) = Some (Ret (r, s'))"
proof -
  obtain e s where i: "initialize S env reqs (NewSATSolver v0 c0 (Some cfg)) = (e, s)" by fastforce
  show ?thesis
  proof (cases e)
    case None
    note s = initial_search [OF assms(1) i [unfolded None] assms(2)]
    from dpll_loop_returns [where J = "\<lambda>_. True" and i = 0, OF assms(1) TrueI s(1) TrueI] obtain r j level t where
      t: "dpll_loop env 0 0 s = Some r" "grows s t" "dpll_step env j level t = Return r" "dpll_inv level t" by blast
    have "r \<noteq> Panic m" for m
    proof
      assume r: "r = Panic m"
      then have "\<exists>k l s1 s3. unitPropagate level t = (Some k, s1) \<and> 0 < level
          \<and> handle_conflict k level (set_stat (\<lambda>st. st\<lparr>ss_Conflicts := inc64 (ss_Conflicts st)\<rparr>) s1) = (l, s3) \<and> sf_RestartThreshold (so_config s3) = 0"
        using t(3,4) by (auto simp: dpll_step_def dpll_inv_def Let_def split: if_splits option.splits prod.splits)
      then obtain k l s1 s3 where u: "unitPropagate level t = (Some k, s1)" "0 < level"
        "handle_conflict k level (set_stat (\<lambda>st. st\<lparr>ss_Conflicts := inc64 (ss_Conflicts st)\<rparr>) s1) = (l, s3)" "sf_RestartThreshold (so_config s3) = 0" by blast
      have "sat_wf s1" "levels_below level s1" "level < 2 ^ 63" "k \<in> set (so_clauses s1)"
        using unitPropagate_wf [OF u(1)] t(4) unitPropagate_conflict [OF u(1)] by (auto simp: dpll_inv_def)
      then have "so_config s3 = so_config s1" using handle_conflict_wf(5) [OF _ _ u(2) _ _ u(3)] by simp
      also have "\<dots> = so_config t" using unitPropagate_frame [OF u(1)] same_problemD(5) by blast
      also have "\<dots> = cfg" using t(2) s(2) by (simp add: grows_def)
      finally show False using u(4) assms(3) by simp
    qed
    then obtain x s' where "r = Ret (x, s')" by (cases r) auto
    with i None t(1) show ?thesis by (cases x) (auto simp: Solve_def dpllWithCDCL_def Let_def)
  qed (use i in \<open>simp add: Solve_def\<close>)
qed

text \<open>C11: An assignment that the search returns is a model: it assigns every variable, and every clause, of the
  problem or learned, has a true literal. This holds for any well-formed clauses, not only those of version
  requirements.\<close>

theorem dpll_sound:
  assumes "sat_env_ok env" and "dpll_inv 0 s" and "dpllWithCDCL env s = Some (Ret (Inr a, s'))"
  shows "fmdom a = fmdom (so_variables s) \<and> set (so_clauses s) \<subseteq> set (so_clauses s')
    \<and> (\<forall>c \<in> set (so_clauses s'). \<exists>l \<in> set (cl_Literals (so_clause s' c)). fmlookup a (va_ID (so_var s' (li_Variable l))) = Some (li_Positive l))
    \<and> (\<forall>c \<in> set (so_clauses s). cl_Literals (so_clause s' c) = cl_Literals (so_clause s c))"
proof -
  from dpll_loop_returns [where J = "\<lambda>_. True" and i = 0, OF assms(1) TrueI assms(2) TrueI] assms(3) obtain i level t where
    t: "grows s t" "dpll_step env i level t = Return (Ret (Inr a, s'))" "dpll_inv level t" by (auto simp: dpllWithCDCL_def)
  from dpll_step_model(1,2) [OF t(3,2)] t(1) have "model_of s' a" "grows s s'" by (auto intro: grows_trans)
  then show ?thesis by (simp add: model_of_def grows_def lit_id_def)
qed


text \<open>The variables of a requirement have at least two separators in their names, so no name splits into a key and
  a version.\<close>

lemma group_version_none:
  assumes "x \<in> variable_ids S reqs"
  shows "group_version x m = m"
proof -
  from assms obtain pr v where "x = var_id (GetPackageKey pr) v" by (auto simp: variable_ids_def req_key_def)
  then have "2 \<le> count_list x CHR ''@''" by (simp add: var_id_def GetPackageKey_def)
  then have "length (strings_Split x CHR ''@'') \<noteq> 2" by (simp add: Split_length)
  then show ?thesis by (simp add: group_version_def)
qed

text \<open>A solution never names a version: the key of a package contains the separator \<open>@\<close>, so the
  identifier of every variable splits into more than two parts, and \<open>convertToVersionSolution\<close> passes over it.
  \<open>Solve\<close> reports success with an empty map of selected versions.\<close>

theorem solutions_empty:
  assumes "sat_env_ok env" and "sf_MaxDecisions cfg < 2 ^ 63 - 1"
    and "Solve S env t0 t1 reqs (NewSATSolver v0 c0 (Some cfg)) = Some (Ret (Inr sol, s'))"
  shows "vs_Success sol \<and> vs_Solutions sol = fmempty"
proof -
  obtain e s where i: "initialize S env reqs (NewSATSolver v0 c0 (Some cfg)) = (e, s)" by fastforce
  with assms(3) have i: "initialize S env reqs (NewSATSolver v0 c0 (Some cfg)) = (None, s)" by (cases e) (auto simp: Solve_def)
  note s = initial_search [OF assms(1) i assms(2)]
  from assms(3) i obtain a t where a: "dpllWithCDCL env s = Some (Ret (Inr a, t))"
    "vs_Success sol" "vs_Solutions sol = vs_Solutions (convertToVersionSolution (sn_convert env a) (Some a))"
    by (auto simp: Solve_def Let_def convertToVersionSolution_def split: option.splits outcome.splits sum.splits)
  from dpll_loop_returns [where J = "\<lambda>_. True" and i = 0, OF assms(1) TrueI s(1) TrueI] a(1) obtain j level u where
    u: "grows s u" "dpll_step env j level u = Return (Ret (Inr a, t))" "dpll_inv level u" by (auto simp: dpllWithCDCL_def)
  have "fset (fmdom a) = variable_ids S reqs" using dpll_step_model(1,2) [OF u(3,2)] u(1) s(3) by (simp add: model_of_def grows_def)
  moreover have "ranges_over a (sn_convert env a)" using assms(1) by (simp add: sat_env_ok_def)
  ultimately have "set (sn_convert env a) \<subseteq> variable_ids S reqs" using ranges_overD(2) [of a] by auto
  then have "fold (\<lambda>x m. if fmlookup a x = Some True then group_version x m else m) xs m = m" if "set xs \<subseteq> set (sn_convert env a)" for xs m
    using that by (induction xs arbitrary: m) (auto simp: group_version_none)
  then show ?thesis using a(2,3) by (simp add: convertToVersionSolution_def Let_def)
qed

text \<open>The clause that conflict analysis learns does not exclude the assignment that led to the conflict: each of its
  literals is true under that assignment, because the signs of the literals of the conflict are
  turned around.\<close>

theorem learned_clause_true:
  assumes "unitPropagate level s = (Some conflict, s')" and "analyzeConflict s' conflict decisionLevel = (Some learned, backtrackLevel)"
  shows "\<forall>l \<in> set (cl_Literals learned). getAssignment s' (li_Variable l) = Some (li_Positive l)"
proof
  fix l assume "l \<in> set (cl_Literals learned)"
  with analyzeConflict_spec(1) [OF assms(2) refl] obtain l' where
    "l' \<in> set (cl_Literals (so_clause s' conflict))" "l = l'\<lparr>li_Positive := \<not> li_Positive l'\<rparr>" by blast
  with unitPropagate_conflict [OF assms(1)] show "getAssignment s' (li_Variable l) = Some (li_Positive l)" by simp
qed

text \<open>Requirements on the same package are not combined: when two of them admit no common version, \<open>Solve\<close> still
  succeeds, and the version that it picks for the package violates one of them.\<close>

theorem conflicting_requirements_accepted:
  assumes "sat_env_ok env" and "\<forall>i. \<not> sn_done env i"
    and "\<not> sf_EnableVSIDS cfg" and "int (length reqs) \<le> sf_MaxDecisions cfg" and "sf_MaxDecisions cfg < 2 ^ 63 - 1" and "0 \<le> sf_MaxConflicts cfg"
    and "\<forall>req \<in> set reqs. plain_ref (vr_PackageRef req) \<and> valid_versions S req \<noteq> []"
    and "r1 \<in> set reqs" and "r2 \<in> set reqs" and "req_key r1 = req_key r2" and "set (valid_versions S r1) \<inter> set (valid_versions S r2) = {}"
  shows "\<exists>sol s' v r. Solve S env t0 t1 reqs (NewSATSolver v0 c0 (Some cfg)) = Some (Ret (Inr sol, s')) \<and> vs_Success sol
    \<and> fmlookup (so_assignments s') (var_id (req_key r1) v) = Some True \<and> r \<in> {r1, r2} \<and> v \<notin> set (valid_versions S r)"
proof -
  obtain sol s' where s: "Solve S env t0 t1 reqs (NewSATSolver v0 c0 (Some cfg)) = Some (Ret (Inr sol, s'))" "vs_Success sol"
    "\<And>req. req \<in> set reqs \<Longrightarrow> \<exists>!v. v \<in> candidates S reqs (req_key req) \<and> fmlookup (so_assignments s') (var_id (req_key req) v) = Some True"
    by (rule solve_search [OF assms(1-7), of t0 t1 v0 c0]) (rule that)
  from s(3) [OF assms(8)] obtain v where "fmlookup (so_assignments s') (var_id (req_key r1) v) = Some True" by blast
  with s(1,2) assms(11) show ?thesis by blast
qed

text \<open>With the activity heuristic, which the default configuration and the version solver switch on, no decision is ever taken:
  the lists of watching clauses stay empty, every activity is zero, and no variable is selected. \<open>Solve\<close> succeeds
  exactly when every package has a single candidate version; otherwise it fails with the error that there is no
  unassigned variable.\<close>

theorem Solve_VSIDS:
  assumes "sat_env_ok env" and "\<not> sn_done env 0" and "sf_EnableVSIDS cfg" and "sf_MaxDecisions cfg < 2 ^ 63 - 1"
    and "\<forall>req \<in> set reqs. plain_ref (vr_PackageRef req) \<and> valid_versions S req \<noteq> []"
  shows "\<exists>r s'. Solve S env t0 t1 reqs (NewSATSolver v0 c0 (Some cfg)) = Some (Ret (r, s'))
    \<and> (if \<forall>req \<in> set reqs. card (candidates S reqs (req_key req)) = 1 then \<exists>sol. r = Inr sol \<and> vs_Success sol else r = Inl SAT_NoUnassigned)"
proof -
  let ?keys = "req_key ` set reqs"
  obtain e s where i: "initialize S env reqs (NewSATSolver v0 c0 (Some cfg)) = (e, s)" by fastforce
  with initialize_spec(1) [OF assms(1) i] assms(5) have i: "initialize S env reqs (NewSATSolver v0 c0 (Some cfg)) = (None, s)" by simp
  have plain: "\<forall>req \<in> set reqs. plain_ref (vr_PackageRef req)" using assms(5) by simp
  note s = initial_search [OF assms(1) i assms(4)]
  have inv: "problem_shape ?keys s" "groups_ok ?keys s" "search_inv ?keys s" using s(4) [OF plain] by (auto simp: search_inv_def)
  have fresh: "fresh_variables s" "so_assignments s = fmempty" using initialize_spec(2) [OF assms(1) i] by auto
  obtain k s1 where u: "unitPropagate 0 s = (k, s1)" by fastforce
  note p = search_inv_propagate [OF inv(3) u]
  have wf: "sat_wf s1" using unitPropagate_wf(1) [OF u] s(1) by (simp add: dpll_inv_def)
  note frame = conjunct1 [OF unitPropagate_frame [OF u]]
  have lonely: "lonely ?keys s1" by (rule unitPropagate_lonely [OF inv(1,2) _ u]) (simp add: lonely_def fresh(2))
  have u': "unitPropagate 0 s = (None, s1)" using u p(1) by simp
  have shape1: "problem_shape ?keys s1" "groups_ok ?keys s1" using p(2) by (auto simp: search_inv_def)
  have dom1: "fset (fmdom (so_variables s1)) = variable_ids S reqs" using s(3) same_problemD(1) [OF frame] by simp
  have sel: "selectVariable (sn_select env 0 (so_variables s1)) s1 = None"
    by (rule select_VSIDS) (use assms(1,3) s(2) wf fresh(1) same_problemD [OF frame] in \<open>auto simp: sat_env_ok_def fresh_variables_def\<close>)
  have inj: "inj_on (var_id key) A" for key A by (auto simp: inj_on_def var_id_def)
  have all: "allVariablesAssigned s1 \<longleftrightarrow> (\<forall>req \<in> set reqs. card (candidates S reqs (req_key req)) = 1)"
  proof
    assume "allVariablesAssigned s1"
    note aa = all_assigned [OF wf this]
    show "\<forall>req \<in> set reqs. card (candidates S reqs (req_key req)) = 1"
    proof
      fix req assume r: "req \<in> set reqs"
      have "fmlookup (so_assignments s1) x \<noteq> None" if "x \<in> pkg_group s1 (req_key req)" for x
      proof -
        have "x |\<in>| fmdom (so_assignments s1)" using that by (simp add: pkg_group_def aa)
        then show ?thesis by (auto simp: fmlookup_dom_iff)
      qed
      moreover obtain x where "x \<in> pkg_group s1 (req_key req)" using shape1(2) r unfolding groups_ok_def by blast
      ultimately have "pkg_group s1 (req_key req) = {x}" using lonely r unfolding lonely_def by blast
      then have "card (var_id (req_key req) ` candidates S reqs (req_key req)) = 1"
        using pkg_group_candidates [OF plain dom1 r] by simp
      then show "card (candidates S reqs (req_key req)) = 1" by (simp add: card_image [OF inj])
    qed
  next
    assume one: "\<forall>req \<in> set reqs. card (candidates S reqs (req_key req)) = 1"
    show "allVariablesAssigned s1"
    proof (rule ccontr)
      assume "\<not> allVariablesAssigned s1"
      from not_all_assigned [OF wf this] obtain x where x: "x |\<in>| fmdom (so_variables s1)" "fmlookup (so_assignments s1) x = None" .
      with shape1(2) obtain req where r: "req \<in> set reqs" "x \<in> pkg_group s1 (req_key req)" unfolding groups_ok_def by blast
      have "card (pkg_group s1 (req_key req)) = 1"
        using one r(1) pkg_group_candidates [OF plain dom1 r(1)] by (simp add: card_image [OF inj])
      then obtain z where "pkg_group s1 (req_key req) = {z}" by (rule card_1_singletonE)
      with r(2) have "pkg_group s1 (req_key req) = {x}" by simp
      with single_assigned [OF shape1(1) wf unitPropagate_settles [OF u'], of "req_key req" x] r(1) x(2) show False by simp
    qed
  qed
  have "dpllWithCDCL env s = (if allVariablesAssigned s1 then Some (Ret (Inr (so_assignments s1), s1)) else Some (Ret (Inl SAT_NoUnassigned, s1)))"
    using assms(2) u' sel by (simp add: dpllWithCDCL_def dpll_loop.simps [of env 0] dpll_step_def)
  with i all show ?thesis by (auto simp: Solve_def Let_def convertToVersionSolution_def)
qed

subsection \<open>Witnesses\<close>

text \<open>Versions as strings, and constraints that name one version.\<close>

definition pin_semver :: "(string, string) SemVer" where
  "pin_semver = \<lparr>sv_NewVersion = Inr, sv_NewConstraint = (\<lambda>c. if strings_HasPrefix c ''= '' then Inr (drop 2 c) else Inl ''improper constraint''),
     sv_Check = (\<lambda>c v. c = v)\<rparr>"

definition sorted_env :: sat_env where
  "sorted_env = \<lparr>sn_done = (\<lambda>_. False), sn_select = (\<lambda>_ m. sorted_list_of_fset (fmdom m)),
     sn_create = (\<lambda>_ m. sorted_list_of_fset (fmdom m)), sn_convert = (\<lambda>m. sorted_list_of_fset (fmdom m))\<rparr>"

definition sample_ref :: PackageReference where
  "sample_ref = \<lparr>rf_Repository = ''catalog'', rf_PackageName = ''upf'', rf_Revision = ''v1''\<rparr>"

definition sample_req :: "VersionConstraint list \<Rightarrow> VersionRequirement" where
  "sample_req cs = \<lparr>vr_Name = [], vr_Version = [], vr_Constraint = [], vr_PackageRef = sample_ref, vr_Constraints = cs\<rparr>"

definition pin :: "string \<Rightarrow> VersionConstraint" where
  "pin v = \<lparr>vc_Type = ''exact'', vc_Expression = [], vc_Priority = 0, vc_Operator = ''='', vc_Version = v\<rparr>"

definition plainConfig :: SATSolverConfigImpl where
  "plainConfig = DefaultSATConfig\<lparr>sf_EnableVSIDS := False\<rparr>"

definition blank_vars :: "addr \<Rightarrow> SATVariable" where
  "blank_vars = (\<lambda>_. \<lparr>va_ID = [], va_PackageRef = sample_ref, va_Version = [], va_Domain = [], va_Constraints = [],
     va_DecisionLevel = 0, va_Reason = None, va_Watched = []\<rparr>)"

definition blank_clauses :: "addr \<Rightarrow> SATClause" where
  "blank_clauses = (\<lambda>_. new_clause [] [] False)"

lemma sorted_order: "ranges_over m (sorted_list_of_fset (fmdom m))"
  by (simp add: ranges_over_def sorted_list_of_fset_def sorted_list_of_fset.rep_eq fset_of_list.abs_eq fset_inverse)

lemma sorted_env_ok: "sat_env_ok sorted_env" "\<not> sn_done sorted_env i"
  by (simp_all add: sat_env_ok_def sorted_env_def sorted_order)

lemma plainConfig_simps [simp]:
  "\<not> sf_EnableVSIDS plainConfig" "sf_MaxDecisions plainConfig = 10000" "sf_MaxConflicts plainConfig = 1000" "sf_RestartThreshold plainConfig = 100"
  "sf_EnableVSIDS DefaultSATConfig" "sf_MaxDecisions DefaultSATConfig = 10000" "sf_RestartThreshold DefaultSATConfig = 100"
  by (simp_all add: plainConfig_def DefaultSATConfig_def)

lemma sample_simps [simp]:
  "vr_PackageRef (sample_req cs) = sample_ref" "plain_ref sample_ref" "req_key (sample_req cs) = ''catalog/upf@v1''"
  "valid_versions pin_semver (sample_req []) = [''1.0.0'', ''1.1.0'', ''1.2.0'', ''2.0.0'', ''2.1.0'']"
  "valid_versions pin_semver (sample_req [pin ''1.1.0'']) = [''1.1.0'']"
  "valid_versions pin_semver (sample_req [pin ''2.0.0'']) = [''2.0.0'']"
  by (simp_all add: sample_req_def plain_ref_def sample_ref_def req_key_def GetPackageKey_def valid_versions_def filterVersionsByConstraints_def
      satisfiesConstraints_def pin_semver_def constraintToSemver_def pin_def strings_HasPrefix_def)

theorem Solve_terminates_witness:
  "\<exists>r s'. Solve pin_semver sorted_env 0 1 [sample_req []] (NewSATSolver blank_vars blank_clauses (Some DefaultSATConfig)) = Some (Ret (r, s'))"
  using Solve_terminates [OF sorted_env_ok(1), of DefaultSATConfig pin_semver 0 1 "[sample_req []]" blank_vars blank_clauses] by simp


theorem Solve_VSIDS_witness:
  "(\<exists>s'. Solve pin_semver sorted_env 0 1 [sample_req []] (NewSATSolver blank_vars blank_clauses (Some DefaultSATConfig))
      = Some (Ret (Inl SAT_NoUnassigned, s')))
   \<and> (\<exists>sol s'. Solve pin_semver sorted_env 0 1 [sample_req [pin ''1.1.0'']] (NewSATSolver blank_vars blank_clauses (Some DefaultSATConfig))
      = Some (Ret (Inr sol, s')))"
proof -
  have "card (candidates pin_semver [sample_req []] ''catalog/upf@v1'') \<noteq> 1"
    "card (candidates pin_semver [sample_req [pin ''1.1.0'']] ''catalog/upf@v1'') = 1" by (simp_all add: candidates_def)
  then show ?thesis
    using Solve_VSIDS [OF sorted_env_ok, of DefaultSATConfig "[sample_req []]" pin_semver 0 1 blank_vars blank_clauses]
      Solve_VSIDS [OF sorted_env_ok, of DefaultSATConfig "[sample_req [pin ''1.1.0'']]" pin_semver 0 1 blank_vars blank_clauses]
    by simp blast
qed

theorem conflicting_requirements_accepted_witness:
  "\<exists>sol s'. Solve pin_semver sorted_env 0 1 [sample_req [pin ''1.1.0''], sample_req [pin ''2.0.0'']]
       (NewSATSolver blank_vars blank_clauses (Some plainConfig)) = Some (Ret (Inr sol, s')) \<and> vs_Success sol"
  using conflicting_requirements_accepted [OF sorted_env_ok(1), of plainConfig "[sample_req [pin ''1.1.0''], sample_req [pin ''2.0.0'']]" pin_semver
      "sample_req [pin ''1.1.0'']" "sample_req [pin ''2.0.0'']" 0 1 blank_vars blank_clauses]
  by (simp add: sorted_env_ok) blast

theorem dpll_sound_witness:
  "\<exists>a s'. dpllWithCDCL sorted_env (snd (initialize pin_semver sorted_env [sample_req []] (NewSATSolver blank_vars blank_clauses (Some plainConfig))))
      = Some (Ret (Inr a, s'))
    \<and> fmdom a = fmdom (so_variables (snd (initialize pin_semver sorted_env [sample_req []] (NewSATSolver blank_vars blank_clauses (Some plainConfig)))))"
proof -
  obtain e s where i: "initialize pin_semver sorted_env [sample_req []] (NewSATSolver blank_vars blank_clauses (Some plainConfig)) = (e, s)" by fastforce
  with initialize_spec(1) [OF sorted_env_ok(1) i]
  have i: "initialize pin_semver sorted_env [sample_req []] (NewSATSolver blank_vars blank_clauses (Some plainConfig)) = (None, s)" by simp
  have max: "sf_MaxDecisions plainConfig < 2 ^ 63 - 1" by simp
  note s = initial_search [OF sorted_env_ok(1) i max]
  have inv: "search_inv {''catalog/upf@v1''} s" using s(4) by simp
  have "roomy {''catalog/upf@v1''} s" using s(2) by (simp add: roomy_def)
  from search_result [OF sorted_env_ok(1) _ s(1) inv this] sorted_env_ok(2) obtain s' where
    "dpllWithCDCL sorted_env s = Some (Ret (Inr (so_assignments s'), s'))" by blast
  with dpll_sound [OF sorted_env_ok(1) s(1) this] i show ?thesis by auto
qed

theorem solutions_empty_witness:
  "\<exists>sol s'. Solve pin_semver sorted_env 0 1 [sample_req []] (NewSATSolver blank_vars blank_clauses (Some plainConfig)) = Some (Ret (Inr sol, s'))
     \<and> vs_Solutions sol = fmempty"
proof -
  obtain sol s' where s: "Solve pin_semver sorted_env 0 1 [sample_req []] (NewSATSolver blank_vars blank_clauses (Some plainConfig)) = Some (Ret (Inr sol, s'))"
    using solve_search [OF sorted_env_ok(1), of plainConfig "[sample_req []]" pin_semver 0 1 blank_vars blank_clauses] sorted_env_ok(2) by fastforce
  with solutions_empty [OF sorted_env_ok(1) _ s] show ?thesis by auto
qed

text \<open>Two variables assigned true at levels 1 and 2, and a clause that forbids both.\<close>

definition clash :: SATSolverImpl where
  "clash = add_clause (new_clause ''c'' [\<lparr>li_Variable = 0, li_Positive = False, li_Version = []\<rparr>, \<lparr>li_Variable = 1, li_Positive = False, li_Version = []\<rparr>] False)
     (assign 1 True 2 None (assign 0 True 1 None
       (add_variable ((blank_vars 0)\<lparr>va_ID := ''y''\<rparr>) (add_variable ((blank_vars 0)\<lparr>va_ID := ''x''\<rparr>) (NewSATSolver blank_vars blank_clauses None)))))"

theorem learned_clause_true_witness:
  "\<exists>s' learned. unitPropagate 2 clash = (Some 0, s') \<and> analyzeConflict s' 0 2 = (Some learned, 1) \<and> cl_Literals learned \<noteq> []
     \<and> getAssignment s' (li_Variable (hd (cl_Literals learned))) = Some (li_Positive (hd (cl_Literals learned)))"
proof -
  have u: "unitPropagate 2 clash = (Some 0, clash)"
    by (simp add: unitPropagate.simps clash_def propagate_clause_def getAssignment_def new_clause_def add_variable_def NewSATSolver_def blank_vars_def)
  obtain learned where a: "analyzeConflict clash 0 2 = (Some learned, 1)" "cl_Literals learned \<noteq> []"
    by (simp add: analyzeConflict_def clash_def new_clause_def add_variable_def NewSATSolver_def blank_vars_def)
  from learned_clause_true [OF u a(1)] a u show ?thesis by auto
qed

end
