(* ===== verification/Audit_Events.thy ===== *)
theory Audit_Events
  imports Go_Prelude Go_Json
begin

text \<open>
  The events of the audit trail (\<open>pkg/audit/types/events.go\<close>): their data, validation, risk level, retention
  period and category, and the builder. The package \<open>uuid\<close> and \<open>net.ParseIP\<close> are arguments: a test for valid
  identifiers, a fresh identifier, the bytes of an address (none for nil).
\<close>

section \<open>Model\<close>

subsection \<open>Severities, types of events, results and standards\<close>

type_synonym Severity = int

definition SeverityEmergency :: Severity where "SeverityEmergency = 0"
definition SeverityAlert :: Severity where "SeverityAlert = 1"
definition SeverityCritical :: Severity where "SeverityCritical = 2"
definition SeverityError :: Severity where "SeverityError = 3"
definition SeverityWarning :: Severity where "SeverityWarning = 4"
definition SeverityNotice :: Severity where "SeverityNotice = 5"
definition SeverityInfo :: Severity where "SeverityInfo = 6"
definition SeverityDebug :: Severity where "SeverityDebug = 7"

definition Severity_String :: "Severity \<Rightarrow> string" where
  "Severity_String s =
     (if s = SeverityEmergency then ''emergency''
      else if s = SeverityAlert then ''alert''
      else if s = SeverityCritical then ''critical''
      else if s = SeverityError then ''error''
      else if s = SeverityWarning then ''warning''
      else if s = SeverityNotice then ''notice''
      else if s = SeverityInfo then ''info''
      else if s = SeverityDebug then ''debug''
      else ''unknown'')"

type_synonym EventType = string
type_synonym EventResult = string
type_synonym ComplianceStandard = string

definition ResultSuccess :: EventResult where "ResultSuccess = ''success''"
definition ResultFailure :: EventResult where "ResultFailure = ''failure''"
definition ResultError :: EventResult where "ResultError = ''error''"

definition ComplianceSOC2 :: ComplianceStandard where "ComplianceSOC2 = ''soc2''"
definition ComplianceISO27001 :: ComplianceStandard where "ComplianceISO27001 = ''iso27001''"
definition CompliancePCIDSS :: ComplianceStandard where "CompliancePCIDSS = ''pci_dss''"
definition ComplianceHIPAA :: ComplianceStandard where "ComplianceHIPAA = ''hipaa''"
definition ComplianceGDPR :: ComplianceStandard where "ComplianceGDPR = ''gdpr''"

subsection \<open>Contexts\<close>

record UserContext =
  uc_UserID :: string
  uc_Username :: string
  uc_Email :: string
  uc_Role :: string
  uc_Groups :: "string list"
  uc_Permissions :: "string list"
  uc_SessionID :: string
  uc_ClientID :: string
  uc_ServiceAccount :: bool
  uc_AuthMethod :: string
  uc_AuthProvider :: string
  uc_Metadata :: "(string, string) fmap option"

record NetworkContext =
  nc_SourceIP :: string
  nc_DestinationIP :: string
  nc_SourcePort :: int
  nc_DestinationPort :: int
  nc_Protocol :: string
  nc_UserAgent :: string
  nc_Referrer :: string
  nc_RequestID :: string
  nc_Country :: string
  nc_ASN :: string
  nc_Headers :: "(string, string) fmap option"

record SystemContext =
  sx_Hostname :: string
  sx_ProcessID :: int
  sx_ProcessName :: string
  sx_ThreadID :: int
  sx_ServiceName :: string
  sx_Version :: string
  sx_Environment :: string
  sx_Cluster :: string
  sx_Namespace :: string
  sx_PodName :: string
  sx_NodeName :: string

record ResourceContext =
  rx_ResourceType :: string
  rx_ResourceID :: string
  rx_ResourceName :: string
  rx_Namespace :: string
  rx_APIVersion :: string
  rx_Kind :: string
  rx_Operation :: string
  rx_Path :: string
  rx_Query :: "(string, string) fmap option"
  rx_Tags :: "(string, string) fmap option"

definition zeroUserContext :: UserContext where
  "zeroUserContext = \<lparr>uc_UserID = [], uc_Username = [], uc_Email = [], uc_Role = [], uc_Groups = [], uc_Permissions = [],
     uc_SessionID = [], uc_ClientID = [], uc_ServiceAccount = False, uc_AuthMethod = [], uc_AuthProvider = [], uc_Metadata = None\<rparr>"

definition zeroNetworkContext :: NetworkContext where
  "zeroNetworkContext = \<lparr>nc_SourceIP = [], nc_DestinationIP = [], nc_SourcePort = 0, nc_DestinationPort = 0, nc_Protocol = [],
     nc_UserAgent = [], nc_Referrer = [], nc_RequestID = [], nc_Country = [], nc_ASN = [], nc_Headers = None\<rparr>"

definition zeroSystemContext :: SystemContext where
  "zeroSystemContext = \<lparr>sx_Hostname = [], sx_ProcessID = 0, sx_ProcessName = [], sx_ThreadID = 0, sx_ServiceName = [],
     sx_Version = [], sx_Environment = [], sx_Cluster = [], sx_Namespace = [], sx_PodName = [], sx_NodeName = []\<rparr>"

definition zeroResourceContext :: ResourceContext where
  "zeroResourceContext = \<lparr>rx_ResourceType = [], rx_ResourceID = [], rx_ResourceName = [], rx_Namespace = [], rx_APIVersion = [],
     rx_Kind = [], rx_Operation = [], rx_Path = [], rx_Query = None, rx_Tags = None\<rparr>"

text \<open>The regular expression of the e-mail check,
  \<open>^[a-zA-Z0-9._%+-]+@[a-zA-Z0-9.-]+\.[a-zA-Z]{2,}$\<close>: the text is cut at its first \<open>@\<close>, the rest at its last dot.\<close>

definition is_letter :: "char \<Rightarrow> bool" where
  "is_letter c \<longleftrightarrow> (let n = of_char c :: nat in 65 \<le> n \<and> n \<le> 90 \<or> 97 \<le> n \<and> n \<le> 122)"

definition is_alnum :: "char \<Rightarrow> bool" where
  "is_alnum c \<longleftrightarrow> is_letter c \<or> (let n = of_char c :: nat in 48 \<le> n \<and> n \<le> 57)"

definition local_char :: "char \<Rightarrow> bool" where
  "local_char c \<longleftrightarrow> is_alnum c \<or> c \<in> set ''._%+-''"

definition domain_char :: "char \<Rightarrow> bool" where
  "domain_char c \<longleftrightarrow> is_alnum c \<or> c \<in> set ''.-''"

definition emailRegex :: "string \<Rightarrow> bool" where
  "emailRegex s =
     (case strings_SplitN2 s CHR ''@'' of
        [name, rest] \<Rightarrow>
          name \<noteq> [] \<and> list_all local_char name \<and>
          (case strings_SplitN2 (rev rest) CHR ''.'' of
             [tld, domain] \<Rightarrow> domain \<noteq> [] \<and> list_all domain_char domain \<and> 2 \<le> length tld \<and> list_all is_letter tld
           | _ \<Rightarrow> False)
      | _ \<Rightarrow> False)"

datatype context_error =
    UserIDRequired | UserIDTooLong | InvalidEmail string | InvalidRole
  | InvalidSourcePort int | InvalidDestinationPort int | ResourceTypeRequired | OperationRequired

definition UserContext_Validate :: "UserContext \<Rightarrow> context_error option" where
  "UserContext_Validate uc =
     (if uc_UserID uc = [] then Some UserIDRequired
      else if length (uc_UserID uc) > 256 then Some UserIDTooLong
      else if uc_Email uc \<noteq> [] \<and> \<not> emailRegex (uc_Email uc) then Some (InvalidEmail (uc_Email uc))
      else if list_ex (\<lambda>c. c \<in> {CHR ''<'', CHR ''>'', CHR 0x22, CHR 0x27}) (uc_Role uc) then Some InvalidRole
      else None)"

definition NetworkContext_Validate :: "NetworkContext \<Rightarrow> context_error option" where
  "NetworkContext_Validate nc =
     (if nc_SourcePort nc < 0 \<or> nc_SourcePort nc > 65535 then Some (InvalidSourcePort (nc_SourcePort nc))
      else if nc_DestinationPort nc < 0 \<or> nc_DestinationPort nc > 65535 then Some (InvalidDestinationPort (nc_DestinationPort nc))
      else None)"

definition ResourceContext_Validate :: "ResourceContext \<Rightarrow> context_error option" where
  "ResourceContext_Validate rc =
     (if rx_ResourceType rc = [] then Some ResourceTypeRequired
      else if rx_Operation rc = [] then Some OperationRequired
      else None)"

subsection \<open>Events\<close>

record AuditEvent =
  ae_ID :: string
  ae_Version :: string
  ae_Timestamp :: time
  ae_EventType :: EventType
  ae_Category :: string
  ae_Severity :: Severity
  ae_Result :: EventResult
  ae_Component :: string
  ae_Action :: string
  ae_Description :: string
  ae_Message :: string
  ae_UserContext :: "UserContext option"
  ae_NetworkContext :: "NetworkContext option"
  ae_SystemContext :: "SystemContext option"
  ae_ResourceContext :: "ResourceContext option"
  ae_Data :: "(string, json) fmap option"
  ae_RiskLevel :: string
  ae_ComplianceMetadata :: "(string, json) fmap option"
  ae_DataClassification :: string
  ae_RetentionPeriod :: string
  ae_Error :: string
  ae_ErrorCode :: string
  ae_StackTrace :: string
  ae_Warnings :: "string list"
  ae_Duration :: duration
  ae_ResponseSize :: int
  ae_RequestSize :: int
  ae_Metrics :: "(string, json) fmap option"
  ae_TraceID :: string
  ae_SpanID :: string
  ae_ParentID :: string
  ae_CorrelationID :: string
  ae_CausationID :: string
  ae_RelatedEvents :: "string list"
  ae_Signature :: string
  ae_Hash :: string
  ae_PreviousHash :: string
  ae_IntegrityFields :: "string list"

definition zeroAuditEvent :: AuditEvent where
  "zeroAuditEvent = \<lparr>ae_ID = [], ae_Version = [], ae_Timestamp = zero_time, ae_EventType = [], ae_Category = [], ae_Severity = 0,
     ae_Result = [], ae_Component = [], ae_Action = [], ae_Description = [], ae_Message = [], ae_UserContext = None,
     ae_NetworkContext = None, ae_SystemContext = None, ae_ResourceContext = None, ae_Data = None, ae_RiskLevel = [],
     ae_ComplianceMetadata = None, ae_DataClassification = [], ae_RetentionPeriod = [], ae_Error = [], ae_ErrorCode = [],
     ae_StackTrace = [], ae_Warnings = [], ae_Duration = 0, ae_ResponseSize = 0, ae_RequestSize = 0, ae_Metrics = None,
     ae_TraceID = [], ae_SpanID = [], ae_ParentID = [], ae_CorrelationID = [], ae_CausationID = [], ae_RelatedEvents = [],
     ae_Signature = [], ae_Hash = [], ae_PreviousHash = [], ae_IntegrityFields = []\<rparr>"

datatype event_error =
    EventIDRequired | EventIDInvalid | EventTypeRequired | ComponentRequired | ActionRequired | TimestampRequired
  | InvalidNetworkContext context_error | InvalidUserContext context_error | InvalidResourceContext context_error

definition AuditEvent_Validate :: "(string \<Rightarrow> bool) \<Rightarrow> AuditEvent \<Rightarrow> event_error option" where
  "AuditEvent_Validate isValidUUID ae =
     (if ae_ID ae = [] then Some EventIDRequired
      else if \<not> isValidUUID (ae_ID ae) then Some EventIDInvalid
      else if ae_EventType ae = [] then Some EventTypeRequired
      else if ae_Component ae = [] then Some ComponentRequired
      else if ae_Action ae = [] then Some ActionRequired
      else if ae_Timestamp ae = zero_time then Some TimestampRequired
      else case Option.bind (ae_NetworkContext ae) NetworkContext_Validate of
        Some e \<Rightarrow> Some (InvalidNetworkContext e)
      | None \<Rightarrow>
          (case Option.bind (ae_UserContext ae) UserContext_Validate of
             Some e \<Rightarrow> Some (InvalidUserContext e)
           | None \<Rightarrow>
               (case Option.bind (ae_ResourceContext ae) ResourceContext_Validate of
                  Some e \<Rightarrow> Some (InvalidResourceContext e)
                | None \<Rightarrow> None)))"

definition SetRiskLevel :: "AuditEvent \<Rightarrow> AuditEvent" where
  "SetRiskLevel ae = ae\<lparr>ae_RiskLevel :=
     (if ae_EventType ae \<in> {''authentication_failed'', ''intrusion_attempt'', ''malware_detection''} then ''high''
      else if ae_EventType ae \<in> {''security_violation'', ''anomaly_detection''} then ''medium''
      else if ae_EventType ae \<in> {''data_access'', ''system_change''}
           then if ae_Severity ae \<ge> SeverityError then ''high''
                else if ae_Severity ae \<ge> SeverityWarning then ''medium'' else ''low''
      else ''low'')\<rparr>"

definition retention_standard :: "EventType \<Rightarrow> ComplianceStandard \<Rightarrow> string \<Rightarrow> string" where
  "retention_standard eventType standard maxRetention =
     (if standard = ComplianceSOC2 then ''7y''
      else if standard = ComplianceISO27001 then ''3y''
      else if standard = CompliancePCIDSS then ''1y''
      else if standard = ComplianceHIPAA then ''6y''
      else if standard = ComplianceGDPR
           then if eventType = ''data_access'' \<or> eventType = ''data_processing'' then ''3y'' else maxRetention
      else maxRetention)"

definition SetRetentionPeriod :: "ComplianceStandard list \<Rightarrow> AuditEvent \<Rightarrow> AuditEvent" where
  "SetRetentionPeriod complianceMode ae =
     (let maxRetention = fold (retention_standard (ae_EventType ae)) complianceMode ''1y''
      in ae\<lparr>ae_RetentionPeriod :=
           (if ae_EventType ae \<in> {''security_violation'', ''intrusion_attempt'', ''malware_detection''} then ''7y''
            else if ae_EventType ae = ''incident_response'' then ''10y''
            else maxRetention)\<rparr>)"

definition GetEventCategory :: "AuditEvent \<Rightarrow> string" where
  "GetEventCategory ae =
     (if ae_EventType ae \<in> {''authentication'', ''authentication_failed'', ''authentication_success'', ''authorization'',
           ''authorization_failed'', ''authorization_success'', ''session_start'', ''session_end'', ''password_change'',
           ''token_issuance'', ''token_revocation''} then ''authentication_authorization''
      else if ae_EventType ae \<in> {''data_access'', ''data_create'', ''data_read'', ''data_update'', ''data_delete'',
           ''data_export'', ''data_import'', ''data_backup'', ''data_restore''} then ''data_access''
      else if ae_EventType ae \<in> {''system_change'', ''config_change'', ''user_management'', ''role_management'',
           ''policy_change'', ''system_startup'', ''system_shutdown'', ''service_start'', ''service_stop'', ''maintenance_mode''}
           then ''system_management''
      else if ae_EventType ae \<in> {''security_violation'', ''intrusion_attempt'', ''malware_detection'', ''anomaly_detection'',
           ''compliance_check'', ''vulnerability'', ''incident_response''} then ''security''
      else if ae_EventType ae \<in> {''network_access'', ''firewall_rule'', ''network_anomaly'', ''resource_access'',
           ''capacity_change'', ''performance_alert''} then ''network_infrastructure''
      else if ae_EventType ae \<in> {''api_call'', ''workflow_execution'', ''job_execution'', ''deployment'', ''rollback'',
           ''health_check''} then ''application''
      else if ae_EventType ae \<in> {''intent_processing'', ''network_function'', ''ric_management'', ''a1_interface'',
           ''o1_interface'', ''e2_interface'', ''slice_management''} then ''oran_telecom''
      else ''general'')"

subsection \<open>The builder\<close>

text \<open>The builder's event, which every method updates and \<open>Build\<close> returns.\<close>

definition NewEventBuilder :: "string \<Rightarrow> time \<Rightarrow> AuditEvent" where
  "NewEventBuilder newID now = zeroAuditEvent\<lparr>ae_ID := newID, ae_Version := ''1.0'', ae_Timestamp := now, ae_Data := Some fmempty\<rparr>"

definition WithEventType :: "EventType \<Rightarrow> AuditEvent \<Rightarrow> AuditEvent" where
  "WithEventType eventType e = (let e1 = e\<lparr>ae_EventType := eventType\<rparr> in e1\<lparr>ae_Category := GetEventCategory e1\<rparr>)"

definition WithSeverity :: "Severity \<Rightarrow> AuditEvent \<Rightarrow> AuditEvent" where "WithSeverity severity e = e\<lparr>ae_Severity := severity\<rparr>"
definition WithComponent :: "string \<Rightarrow> AuditEvent \<Rightarrow> AuditEvent" where "WithComponent component e = e\<lparr>ae_Component := component\<rparr>"
definition WithAction :: "string \<Rightarrow> AuditEvent \<Rightarrow> AuditEvent" where "WithAction action e = e\<lparr>ae_Action := action\<rparr>"
definition WithDescription :: "string \<Rightarrow> AuditEvent \<Rightarrow> AuditEvent" where "WithDescription d e = e\<lparr>ae_Description := d\<rparr>"
definition WithResult :: "EventResult \<Rightarrow> AuditEvent \<Rightarrow> AuditEvent" where "WithResult result e = e\<lparr>ae_Result := result\<rparr>"

definition WithUser :: "string \<Rightarrow> string \<Rightarrow> AuditEvent \<Rightarrow> AuditEvent" where
  "WithUser userID username e =
     (let uc = (case ae_UserContext e of None \<Rightarrow> zeroUserContext | Some uc \<Rightarrow> uc)
      in e\<lparr>ae_UserContext := Some (uc\<lparr>uc_UserID := userID, uc_Username := username\<rparr>)\<rparr>)"

definition WithNetwork :: "(string \<Rightarrow> string) \<Rightarrow> string \<Rightarrow> string \<Rightarrow> AuditEvent \<Rightarrow> AuditEvent" where
  "WithNetwork parseIP sourceIP userAgent e =
     (let nc = (case ae_NetworkContext e of None \<Rightarrow> zeroNetworkContext | Some nc \<Rightarrow> nc);
          nc1 = (if sourceIP \<noteq> [] then nc\<lparr>nc_SourceIP := parseIP sourceIP\<rparr> else nc)
      in e\<lparr>ae_NetworkContext := Some (nc1\<lparr>nc_UserAgent := userAgent\<rparr>)\<rparr>)"

definition WithResource :: "string \<Rightarrow> string \<Rightarrow> string \<Rightarrow> AuditEvent \<Rightarrow> AuditEvent" where
  "WithResource resourceType resourceID operation e =
     (let rc = (case ae_ResourceContext e of None \<Rightarrow> zeroResourceContext | Some rc \<Rightarrow> rc)
      in e\<lparr>ae_ResourceContext := Some (rc\<lparr>rx_ResourceType := resourceType, rx_ResourceID := resourceID, rx_Operation := operation\<rparr>)\<rparr>)"

definition WithData :: "string \<Rightarrow> json \<Rightarrow> AuditEvent \<Rightarrow> AuditEvent" where
  "WithData key val e =
     e\<lparr>ae_Data := Some (fmupd key val (case ae_Data e of None \<Rightarrow> fmempty | Some m \<Rightarrow> m))\<rparr>"

definition WithError :: "string option \<Rightarrow> AuditEvent \<Rightarrow> AuditEvent" where
  "WithError err e =
     (case err of
        None \<Rightarrow> e
      | Some msg \<Rightarrow>
          let e1 = e\<lparr>ae_Error := msg, ae_Result := ResultError\<rparr>
          in if ae_Severity e1 < SeverityError then e1\<lparr>ae_Severity := SeverityError\<rparr> else e1)"

definition WithTracing :: "string \<Rightarrow> string \<Rightarrow> AuditEvent \<Rightarrow> AuditEvent" where
  "WithTracing traceID spanID e = e\<lparr>ae_TraceID := traceID, ae_SpanID := spanID\<rparr>"

definition Build :: "AuditEvent \<Rightarrow> AuditEvent" where "Build e = SetRiskLevel e"

definition AuthenticationEvent :: "string \<Rightarrow> time \<Rightarrow> string \<Rightarrow> string \<Rightarrow> bool \<Rightarrow> string option \<Rightarrow> AuditEvent" where
  "AuthenticationEvent newID now userID provider success err =
     (let e = WithData ''provider'' (Json_string provider) (WithUser userID [] (WithAction ''login''
            (WithComponent ''authentication'' (WithEventType ''authentication'' (NewEventBuilder newID now)))));
          e1 = (if success then WithSeverity SeverityInfo (WithResult ResultSuccess e)
                else WithSeverity SeverityWarning (WithResult ResultFailure e))
      in Build (WithError err e1))"

definition DataAccessEvent :: "string \<Rightarrow> time \<Rightarrow> string \<Rightarrow> string \<Rightarrow> string \<Rightarrow> string \<Rightarrow> AuditEvent" where
  "DataAccessEvent newID now userID resourceType resourceID operation =
     Build (WithResult ResultSuccess (WithSeverity SeverityInfo (WithResource resourceType resourceID operation
       (WithUser userID [] (WithAction operation (WithComponent ''data_access'' (WithEventType ''data_access''
         (NewEventBuilder newID now))))))))"

definition SecurityViolationEvent :: "string \<Rightarrow> time \<Rightarrow> string \<Rightarrow> string \<Rightarrow> string \<Rightarrow> AuditEvent" where
  "SecurityViolationEvent newID now userID violationType description =
     Build (WithResult ResultFailure (WithSeverity SeverityCritical (WithData ''violation_type'' (Json_string violationType)
       (WithUser userID [] (WithDescription description (WithAction ''violation_detected'' (WithComponent ''security''
         (WithEventType ''security_violation'' (NewEventBuilder newID now)))))))))"

definition SystemChangeEvent :: "string \<Rightarrow> time \<Rightarrow> string \<Rightarrow> string \<Rightarrow> string \<Rightarrow> AuditEvent" where
  "SystemChangeEvent newID now userID changeType description =
     Build (WithResult ResultSuccess (WithSeverity SeverityInfo (WithData ''change_type'' (Json_string changeType)
       (WithUser userID [] (WithDescription description (WithAction ''change'' (WithComponent ''system''
         (WithEventType ''system_change'' (NewEventBuilder newID now)))))))))"

section \<open>Lemmas\<close>

lemma at_no_local_char: "\<not> local_char CHR ''@''" and dot_no_letter: "\<not> is_letter CHR ''.''"
  by (simp_all add: local_char_def is_alnum_def is_letter_def Let_def)

lemma SplitN2_cases: "strings_SplitN2 s c = [s] \<and> c \<notin> set s \<or> (\<exists>a b. strings_SplitN2 s c = [a, b] \<and> s = a @ c # b \<and> c \<notin> set a)"
proof (cases "c \<in> set s")
  case True
  then obtain a b where "s = a @ c # b" "c \<notin> set a" by (meson split_list_first)
  then show ?thesis by (simp add: SplitN2_colon)
qed (simp add: SplitN2_none)

text \<open>The fields that \<open>Validate\<close> reads are not changed by the risk level and the category.\<close>

lemma SetRiskLevel_fields [simp]:
  "ae_ID (SetRiskLevel e) = ae_ID e" "ae_EventType (SetRiskLevel e) = ae_EventType e" "ae_Component (SetRiskLevel e) = ae_Component e"
  "ae_Action (SetRiskLevel e) = ae_Action e" "ae_Timestamp (SetRiskLevel e) = ae_Timestamp e"
  "ae_UserContext (SetRiskLevel e) = ae_UserContext e" "ae_NetworkContext (SetRiskLevel e) = ae_NetworkContext e"
  "ae_ResourceContext (SetRiskLevel e) = ae_ResourceContext e"
  by (simp_all add: SetRiskLevel_def)

lemma WithEventType_fields [simp]:
  "ae_ID (WithEventType t e) = ae_ID e" "ae_EventType (WithEventType t e) = t" "ae_Component (WithEventType t e) = ae_Component e"
  "ae_Action (WithEventType t e) = ae_Action e" "ae_Timestamp (WithEventType t e) = ae_Timestamp e"
  "ae_UserContext (WithEventType t e) = ae_UserContext e" "ae_NetworkContext (WithEventType t e) = ae_NetworkContext e"
  "ae_ResourceContext (WithEventType t e) = ae_ResourceContext e"
  by (simp_all add: WithEventType_def Let_def)

lemma WithError_fields [simp]:
  "ae_ID (WithError r e) = ae_ID e" "ae_EventType (WithError r e) = ae_EventType e" "ae_Component (WithError r e) = ae_Component e"
  "ae_Action (WithError r e) = ae_Action e" "ae_Timestamp (WithError r e) = ae_Timestamp e"
  "ae_UserContext (WithError r e) = ae_UserContext e" "ae_NetworkContext (WithError r e) = ae_NetworkContext e"
  "ae_ResourceContext (WithError r e) = ae_ResourceContext e"
  by (simp_all add: WithError_def Let_def split: option.split)

lemmas constructor_defs = AuthenticationEvent_def DataAccessEvent_def SecurityViolationEvent_def SystemChangeEvent_def
  NewEventBuilder_def WithSeverity_def WithComponent_def WithAction_def WithDescription_def WithResult_def WithUser_def WithResource_def
  WithData_def Build_def zeroAuditEvent_def zeroUserContext_def zeroResourceContext_def Let_def

lemma Validate_complete:
  assumes "isValidUUID (ae_ID e)" "ae_ID e \<noteq> []" "ae_EventType e \<noteq> []" "ae_Component e \<noteq> []" "ae_Action e \<noteq> []" "ae_Timestamp e \<noteq> zero_time"
    "ae_NetworkContext e = None" "ae_UserContext e = Some uc" "UserContext_Validate uc = None"
    "ae_ResourceContext e = None \<or> (\<exists>rc. ae_ResourceContext e = Some rc \<and> ResourceContext_Validate rc = None)"
  shows "AuditEvent_Validate isValidUUID e = None"
  using assms by (auto simp: AuditEvent_Validate_def)

lemma retention_last:
  "fold (retention_standard t) (standards @ [last_standard]) r = retention_standard t last_standard (fold (retention_standard t) standards r)"
  by simp

section \<open>Properties\<close>

text \<open>The e-mail check accepts exactly the words of its regular expression: a name, an \<open>@\<close>, a domain, a dot and at
  least two letters.\<close>

theorem emailRegex_language:
  "emailRegex s \<longleftrightarrow> (\<exists>name domain tld. s = name @ ''@'' @ domain @ ''.'' @ tld
     \<and> name \<noteq> [] \<and> list_all local_char name \<and> domain \<noteq> [] \<and> list_all domain_char domain \<and> 2 \<le> length tld \<and> list_all is_letter tld)"
  (is "_ = ?regex")
proof
  assume e: "emailRegex s"
  then obtain name rest where s: "s = name @ CHR ''@'' # rest" "strings_SplitN2 s CHR ''@'' = [name, rest]"
    using SplitN2_cases [of s "CHR ''@''"] by (auto simp: emailRegex_def)
  with e obtain tld domain where "rev rest = tld @ CHR ''.'' # domain" "strings_SplitN2 (rev rest) CHR ''.'' = [tld, domain]"
    using SplitN2_cases [of "rev rest" "CHR ''.''"] by (auto simp: emailRegex_def)
  then have "rest = rev domain @ ''.'' @ rev tld" by (metis append_Cons append_Nil append_assoc rev_append rev_rev_ident rev.simps(2))
  with e s \<open>strings_SplitN2 (rev rest) CHR ''.'' = [tld, domain]\<close> show ?regex
    by (intro exI [of _ name] exI [of _ "rev domain"] exI [of _ "rev tld"]) (simp add: emailRegex_def)
next
  assume ?regex
  then obtain name domain tld where s: "s = name @ CHR ''@'' # (domain @ CHR ''.'' # tld)"
    and p: "name \<noteq> []" "list_all local_char name" "domain \<noteq> []" "list_all domain_char domain" "2 \<le> length tld" "list_all is_letter tld"
    by auto
  have "CHR ''@'' \<notin> set name" "CHR ''.'' \<notin> set (rev tld)" using p at_no_local_char dot_no_letter by (auto simp: list_all_iff)
  then have "strings_SplitN2 s CHR ''@'' = [name, domain @ CHR ''.'' # tld]"
    "strings_SplitN2 (rev (domain @ CHR ''.'' # tld)) CHR ''.'' = [rev tld, rev domain]"
    using s SplitN2_colon by simp_all
  with p show "emailRegex s" by (simp add: emailRegex_def)
qed



text \<open>The severities are numbered from emergency, 0, to debug, 7, but the risk level and \<open>WithError\<close> take greater
  numbers for more urgent: a data access of severity error to debug is of high risk, one of severity emergency
  to critical of low risk, none is of medium risk; and an error makes an emergency an event of severity error.\<close>

theorem severity_scale_inverted:
  "ae_RiskLevel (SetRiskLevel (e\<lparr>ae_EventType := ''data_access'', ae_Severity := s\<rparr>)) =
      (if s < SeverityError then ''low'' else ''high'')
   \<and> ae_RiskLevel (DataAccessEvent newID now userID resourceType resourceID operation) = ''high''
   \<and> ae_Severity (WithError (Some msg) (e\<lparr>ae_Severity := s\<rparr>)) = max SeverityError s"
  by (auto simp: SetRiskLevel_def DataAccessEvent_def Build_def WithError_def WithResult_def WithSeverity_def WithResource_def WithUser_def
      WithAction_def WithComponent_def WithEventType_def SeverityError_def SeverityWarning_def SeverityInfo_def Let_def)

text \<open>The retention period is that of the last standard that sets one, not the longest: SOC 2 alone asks for
  seven years, SOC 2 followed by PCI DSS for one.\<close>

theorem retention_last_standard:
  assumes "ae_EventType e \<notin> {''security_violation'', ''intrusion_attempt'', ''malware_detection'', ''incident_response''}"
    "standard \<in> {ComplianceSOC2, ComplianceISO27001, CompliancePCIDSS, ComplianceHIPAA}"
  shows "ae_RetentionPeriod (SetRetentionPeriod (standards @ [standard]) e) = retention_standard (ae_EventType e) standard []"
  using assms by (auto simp: SetRetentionPeriod_def retention_last retention_standard_def Let_def)

theorem retention_last_standard_witness:
  "ae_RetentionPeriod (SetRetentionPeriod [ComplianceSOC2] (DataAccessEvent ''id'' 1 ''alice'' ''intent'' [] ''read'')) = ''7y''
   \<and> ae_RetentionPeriod (SetRetentionPeriod [ComplianceSOC2, CompliancePCIDSS] (DataAccessEvent ''id'' 1 ''alice'' ''intent'' [] ''read'')) = ''1y''"
  using retention_last_standard [of "DataAccessEvent ''id'' 1 ''alice'' ''intent'' [] ''read''" _ "[]"]
    retention_last_standard [of "DataAccessEvent ''id'' 1 ''alice'' ''intent'' [] ''read''" CompliancePCIDSS "[ComplianceSOC2]"]
  by (simp add: constructor_defs retention_standard_def ComplianceSOC2_def ComplianceISO27001_def CompliancePCIDSS_def)

end
