(* ===== verification/Audit_Integrity.thy ===== *)
theory Audit_Integrity
  imports Audit_Events Go_Strconv "HOL-Library.Word"
begin

text \<open>
  The integrity chain of the audit trail (\<open>pkg/audit/integrity.go\<close>): links with hashes and signatures, their
  verification, and the signer, validator, forensic analyzer and recoverer of the same file. SHA-256,
  RSA-PSS, base64 and the encoding of structs as JSON are parameters of the model, with the laws that a
  theorem needs as hypotheses; sequence numbers are 64-bit words.
\<close>

section \<open>Model\<close>

subsection \<open>Data\<close>

text \<open>What is hashed of an event and of a link. The source copies the data map in the order of its keys, which
  leaves the map as it is.\<close>

record HashedEvent =
  he_ID :: string
  he_Timestamp :: time
  he_EventType :: EventType
  he_Component :: string
  he_Action :: string
  he_UserContext :: "UserContext option"
  he_Result :: EventResult
  he_Data :: "(string, json) fmap option"

record HashedLink =
  hl_SequenceNumber :: "64 word"
  hl_EventID :: string
  hl_EventHash :: string
  hl_PreviousHash :: string
  hl_KeyID :: string

text \<open>The functions of the cryptographic and encoding packages. The randomness of a signature is an argument;
  verification gives an error or none.\<close>

record ('k, 'p) Crypto =
  cy_MarshalEvent :: "HashedEvent \<Rightarrow> string + string"
  cy_MarshalLink :: "HashedLink \<Rightarrow> string + string"
  cy_MarshalKey :: "'p \<Rightarrow> string + string"
  cy_Sum256 :: "string \<Rightarrow> string"
  cy_Public :: "'k \<Rightarrow> 'p"
  cy_SignPSS :: "nat \<Rightarrow> 'k \<Rightarrow> string \<Rightarrow> string + string"
  cy_VerifyPSS :: "'p \<Rightarrow> string \<Rightarrow> string \<Rightarrow> string option"
  cy_EncodeBase64 :: "string \<Rightarrow> string"
  cy_DecodeBase64 :: "string \<Rightarrow> string + string"

record IntegrityLink =
  lk_SequenceNumber :: "64 word"
  lk_Timestamp :: time
  lk_EventID :: string
  lk_EventHash :: string
  lk_PreviousHash :: string
  lk_ChainHash :: string
  lk_Signature :: string
  lk_KeyID :: string
  lk_Version :: string

record ('k, 'p) IntegrityChain =
  ic_chain :: "IntegrityLink list"
  ic_privateKey :: "'k option"
  ic_publicKey :: "'p option"
  ic_keyID :: string
  ic_lastHash :: string
  ic_sequenceNum :: "64 word"
  ic_enabled :: bool

record IntegrityConfig =
  icf_Enabled :: bool
  icf_KeyPairPath :: string
  icf_KeySize :: int
  icf_AutoGenerateKeys :: bool
  icf_ChainFile :: string
  icf_VerificationMode :: string
  icf_MaxChainLength :: int

definition MaxChainLength :: nat where "MaxChainLength = 10000"
definition MinKeySize :: int where "MinKeySize = 2048"
definition IntegrityVersion :: string where "IntegrityVersion = ''1.0''"

definition DefaultIntegrityConfig :: IntegrityConfig where
  "DefaultIntegrityConfig = \<lparr>icf_Enabled = True, icf_KeyPairPath = [], icf_KeySize = 2048, icf_AutoGenerateKeys = True,
     icf_ChainFile = [], icf_VerificationMode = ''strict'', icf_MaxChainLength = int MaxChainLength\<rparr>"

datatype integrity_error =
    GenerateKeyFailed string | LoadKeyFailed | NoKeySource
  | MarshalFailed string | NoPrivateKey | SignFailed string
  | NoPublicKey | BadBase64 string | BadSignature string
  | LinkNotFound string | HashMismatch string string | ChainDisabled

subsection \<open>Hashes and signatures\<close>

definition hex_digit :: "nat \<Rightarrow> char" where
  "hex_digit n = (if n < 10 then char_of (48 + n) else char_of (87 + n))"

definition hex_EncodeToString :: "string \<Rightarrow> string" where
  "hex_EncodeToString s = concat (map (\<lambda>c. [hex_digit (of_char c div 16), hex_digit (of_char c mod 16)]) s)"

definition genesisHashValue :: "('k, 'p) Crypto \<Rightarrow> string" where
  "genesisHashValue C = hex_EncodeToString (cy_Sum256 C ''nephoran-audit-genesis-block'')"

definition hashed_event :: "AuditEvent \<Rightarrow> HashedEvent" where
  "hashed_event e = \<lparr>he_ID = ae_ID e, he_Timestamp = ae_Timestamp e, he_EventType = ae_EventType e, he_Component = ae_Component e,
     he_Action = ae_Action e, he_UserContext = ae_UserContext e, he_Result = ae_Result e, he_Data = ae_Data e\<rparr>"

definition calculateEventHash :: "('k, 'p) Crypto \<Rightarrow> AuditEvent \<Rightarrow> integrity_error + string" where
  "calculateEventHash C e =
     (case cy_MarshalEvent C (hashed_event e) of
        Inl err \<Rightarrow> Inl (MarshalFailed err)
      | Inr jsonBytes \<Rightarrow> Inr (hex_EncodeToString (cy_Sum256 C jsonBytes)))"

definition calculateChainHash :: "('k, 'p) Crypto \<Rightarrow> IntegrityLink \<Rightarrow> integrity_error + string" where
  "calculateChainHash C link =
     (case cy_MarshalLink C \<lparr>hl_SequenceNumber = lk_SequenceNumber link, hl_EventID = lk_EventID link, hl_EventHash = lk_EventHash link,
          hl_PreviousHash = lk_PreviousHash link, hl_KeyID = lk_KeyID link\<rparr> of
        Inl err \<Rightarrow> Inl (MarshalFailed err)
      | Inr jsonBytes \<Rightarrow> Inr (hex_EncodeToString (cy_Sum256 C jsonBytes)))"

definition payload :: "IntegrityLink \<Rightarrow> string" where
  "payload link = nat_digits (unat (lk_SequenceNumber link)) @ '':'' @ lk_EventID link @ '':'' @ lk_EventHash link @ '':'' @ lk_ChainHash link"

definition signLink :: "('k, 'p) Crypto \<Rightarrow> nat \<Rightarrow> ('k, 'p) IntegrityChain \<Rightarrow> IntegrityLink \<Rightarrow> integrity_error + string" where
  "signLink C rnd ic link =
     (case ic_privateKey ic of
        None \<Rightarrow> Inl NoPrivateKey
      | Some key \<Rightarrow>
          (case cy_SignPSS C rnd key (cy_Sum256 C (payload link)) of
             Inl err \<Rightarrow> Inl (SignFailed err)
           | Inr signature \<Rightarrow> Inr (cy_EncodeBase64 C signature)))"

definition verifyLinkSignature :: "('k, 'p) Crypto \<Rightarrow> ('k, 'p) IntegrityChain \<Rightarrow> IntegrityLink \<Rightarrow> integrity_error option" where
  "verifyLinkSignature C ic link =
     (case ic_publicKey ic of
        None \<Rightarrow> Some NoPublicKey
      | Some key \<Rightarrow>
          (case cy_DecodeBase64 C (lk_Signature link) of
             Inl err \<Rightarrow> Some (BadBase64 err)
           | Inr signature \<Rightarrow> map_option BadSignature (cy_VerifyPSS C key (cy_Sum256 C (payload link)) signature)))"

definition calculateKeyID :: "('k, 'p) Crypto \<Rightarrow> 'p \<Rightarrow> string" where
  "calculateKeyID C key =
     (case cy_MarshalKey C key of Inl _ \<Rightarrow> [] | Inr bytes \<Rightarrow> take 16 (hex_EncodeToString (cy_Sum256 C bytes)))"

subsection \<open>The chain\<close>

text \<open>\<open>generate\<close> is \<open>rsa.GenerateKey\<close> for a size. \<open>loadKeyPair\<close> and \<open>loadChain\<close> always fail in the source; the failure
  of the second is only logged, so that every chain starts empty.\<close>

definition initializeKeys ::
    "('k, 'p) Crypto \<Rightarrow> (int \<Rightarrow> string + 'k) \<Rightarrow> IntegrityConfig \<Rightarrow> ('k, 'p) IntegrityChain
       \<Rightarrow> integrity_error option \<times> ('k, 'p) IntegrityChain" where
  "initializeKeys C generate config ic =
     (let keySize = (if icf_KeySize config < MinKeySize then MinKeySize else icf_KeySize config)
      in if icf_AutoGenerateKeys config
         then (case generate keySize of
                 Inl err \<Rightarrow> (Some (GenerateKeyFailed err), ic)
               | Inr key \<Rightarrow> (None, ic\<lparr>ic_privateKey := Some key, ic_publicKey := Some (cy_Public C key),
                                     ic_keyID := calculateKeyID C (cy_Public C key)\<rparr>))
         else if icf_KeyPairPath config \<noteq> [] then (Some LoadKeyFailed, ic)
         else (Some NoKeySource, ic))"

definition NewIntegrityChainWithConfig ::
    "('k, 'p) Crypto \<Rightarrow> (int \<Rightarrow> string + 'k) \<Rightarrow> IntegrityConfig \<Rightarrow> integrity_error + ('k, 'p) IntegrityChain" where
  "NewIntegrityChainWithConfig C generate config =
     (let ic = \<lparr>ic_chain = [], ic_privateKey = None, ic_publicKey = None, ic_keyID = [], ic_lastHash = [], ic_sequenceNum = 0,
                ic_enabled = icf_Enabled config\<rparr>
      in if \<not> icf_Enabled config then Inr ic
         else case initializeKeys C generate config ic of
                (Some err, _) \<Rightarrow> Inl err
              | (None, ic1) \<Rightarrow> Inr ic1)"

definition NewIntegrityChain :: "('k, 'p) Crypto \<Rightarrow> (int \<Rightarrow> string + 'k) \<Rightarrow> integrity_error + ('k, 'p) IntegrityChain" where
  "NewIntegrityChain C generate = NewIntegrityChainWithConfig C generate DefaultIntegrityConfig"

text \<open>\<open>ProcessEvent\<close> holds the mutex throughout and writes the event. A failure after the sequence number has been
  counted leaves it counted.\<close>

definition ProcessEvent ::
    "('k, 'p) Crypto \<Rightarrow> nat \<Rightarrow> time \<Rightarrow> ('k, 'p) IntegrityChain \<Rightarrow> AuditEvent
       \<Rightarrow> integrity_error option \<times> ('k, 'p) IntegrityChain \<times> AuditEvent" where
  "ProcessEvent C rnd now ic event =
     (if \<not> ic_enabled ic then (None, ic, event)
      else case calculateEventHash C event of
        Inl err \<Rightarrow> (Some err, ic, event)
      | Inr eventHash \<Rightarrow>
          let previousHash = (if ic_lastHash ic = [] then genesisHashValue C else ic_lastHash ic);
              ic1 = ic\<lparr>ic_sequenceNum := ic_sequenceNum ic + 1\<rparr>;
              link = \<lparr>lk_SequenceNumber = ic_sequenceNum ic1, lk_Timestamp = now, lk_EventID = ae_ID event, lk_EventHash = eventHash,
                      lk_PreviousHash = previousHash, lk_ChainHash = [], lk_Signature = [], lk_KeyID = ic_keyID ic,
                      lk_Version = IntegrityVersion\<rparr>
          in case calculateChainHash C link of
               Inl err \<Rightarrow> (Some err, ic1, event)
             | Inr chainHash \<Rightarrow>
                 let link1 = link\<lparr>lk_ChainHash := chainHash\<rparr>
                 in case signLink C rnd ic1 link1 of
                      Inl err \<Rightarrow> (Some err, ic1, event)
                    | Inr signature \<Rightarrow>
                        let link2 = link1\<lparr>lk_Signature := signature\<rparr>;
                            chain = ic_chain ic @ [link2];
                            chain1 = (if length chain > MaxChainLength then drop (length chain - MaxChainLength) chain else chain)
                        in (None, ic1\<lparr>ic_chain := chain1, ic_lastHash := eventHash\<rparr>,
                            event\<lparr>ae_Hash := eventHash, ae_PreviousHash := previousHash, ae_Signature := signature,
                                  ae_IntegrityFields := [''id'', ''timestamp'', ''event_type'', ''component'', ''action'', ''user_context'', ''result'']\<rparr>))"

definition VerifyEvent :: "('k, 'p) Crypto \<Rightarrow> ('k, 'p) IntegrityChain \<Rightarrow> AuditEvent \<Rightarrow> integrity_error option" where
  "VerifyEvent C ic event =
     (if \<not> ic_enabled ic then None
      else case List.find (\<lambda>link. lk_EventID link = ae_ID event) (ic_chain ic) of
             None \<Rightarrow> Some (LinkNotFound (ae_ID event))
           | Some link \<Rightarrow>
               (case calculateEventHash C event of
                  Inl err \<Rightarrow> Some err
                | Inr expectedHash \<Rightarrow>
                    if expectedHash \<noteq> lk_EventHash link then Some (HashMismatch (lk_EventHash link) expectedHash)
                    else verifyLinkSignature C ic link))"

subsection \<open>Verifying the chain\<close>

datatype verify_error =
    VE_Sequence int "64 word" | VE_Break string string | VE_Signature integrity_error | VE_HashError integrity_error
  | VE_ChainHash string string

record IntegrityChainBreak =
  cb_SequenceNumber :: "64 word"
  cb_EventID :: string
  cb_Reason :: string
  cb_Expected :: string
  cb_Actual :: string

record IntegrityVerification =
  iv_EventID :: string
  iv_SequenceNumber :: "64 word"
  iv_Valid :: bool
  iv_Error :: "verify_error option"

record IntegrityReport =
  rp_Valid :: bool
  rp_TotalEvents :: int
  rp_VerifiedEvents :: int
  rp_FailedEvents :: int
  rp_MissingEvents :: "string list"
  rp_TamperedEvents :: "string list"
  rp_ChainBreaks :: "IntegrityChainBreak list"
  rp_VerificationTime :: time
  rp_VerificationDetails :: "IntegrityVerification list"

definition fail_link :: "verify_error \<Rightarrow> IntegrityVerification \<times> IntegrityReport \<Rightarrow> IntegrityVerification \<times> IntegrityReport" where
  "fail_link e vr = ((fst vr)\<lparr>iv_Valid := False, iv_Error := Some e\<rparr>,
     (snd vr)\<lparr>rp_Valid := False, rp_FailedEvents := inc64 (rp_FailedEvents (snd vr))\<rparr>)"

text \<open>The body of the loop over the links: the four checks, in their order.\<close>

definition verify_link ::
    "('k, 'p) Crypto \<Rightarrow> ('k, 'p) IntegrityChain \<Rightarrow> nat \<Rightarrow> string \<Rightarrow> IntegrityLink \<Rightarrow> IntegrityReport \<Rightarrow> IntegrityReport" where
  "verify_link C ic i previousHash link report =
     (let v0 = (\<lparr>iv_EventID = lk_EventID link, iv_SequenceNumber = lk_SequenceNumber link, iv_Valid = True, iv_Error = None\<rparr>, report);
          v1 = (if lk_SequenceNumber link \<noteq> of_nat (i + 1) then fail_link (VE_Sequence (int (i + 1)) (lk_SequenceNumber link)) v0 else v0);
          v2 = (if lk_PreviousHash link \<noteq> previousHash
                then map_prod id (\<lambda>r. r\<lparr>rp_ChainBreaks := rp_ChainBreaks r @
                         [\<lparr>cb_SequenceNumber = lk_SequenceNumber link, cb_EventID = lk_EventID link, cb_Reason = ''previous hash mismatch'',
                           cb_Expected = previousHash, cb_Actual = lk_PreviousHash link\<rparr>]\<rparr>)
                       (fail_link (VE_Break previousHash (lk_PreviousHash link)) v1)
                else v1);
          v3 = (case verifyLinkSignature C ic link of
                  None \<Rightarrow> v2
                | Some e \<Rightarrow> map_prod id (\<lambda>r. r\<lparr>rp_TamperedEvents := rp_TamperedEvents r @ [lk_EventID link]\<rparr>) (fail_link (VE_Signature e) v2));
          v4 = (case calculateChainHash C link of
                  Inl e \<Rightarrow> ((fst v3)\<lparr>iv_Valid := False, iv_Error := Some (VE_HashError e)\<rparr>, snd v3)
                | Inr expected \<Rightarrow> if expected \<noteq> lk_ChainHash link then fail_link (VE_ChainHash expected (lk_ChainHash link)) v3 else v3);
          r1 = (if iv_Valid (fst v4) then (snd v4)\<lparr>rp_VerifiedEvents := inc64 (rp_VerifiedEvents (snd v4))\<rparr> else snd v4)
      in r1\<lparr>rp_VerificationDetails := rp_VerificationDetails r1 @ [fst v4]\<rparr>)"

fun verify_links ::
    "('k, 'p) Crypto \<Rightarrow> ('k, 'p) IntegrityChain \<Rightarrow> nat \<Rightarrow> string \<Rightarrow> IntegrityLink list \<Rightarrow> IntegrityReport \<Rightarrow> IntegrityReport" where
  "verify_links C ic i previousHash [] report = report"
| "verify_links C ic i previousHash (link # links) report =
     verify_links C ic (Suc i) (lk_ChainHash link) links (verify_link C ic i previousHash link report)"

definition VerifyChain :: "('k, 'p) Crypto \<Rightarrow> time \<Rightarrow> ('k, 'p) IntegrityChain \<Rightarrow> IntegrityReport" where
  "VerifyChain C now ic =
     (let report = \<lparr>rp_Valid = True, rp_TotalEvents = 0, rp_VerifiedEvents = 0, rp_FailedEvents = 0, rp_MissingEvents = [],
                    rp_TamperedEvents = [], rp_ChainBreaks = [], rp_VerificationTime = zero_time, rp_VerificationDetails = []\<rparr>
      in if \<not> ic_enabled ic then report
         else verify_links C ic 0 [] (ic_chain ic)
                (report\<lparr>rp_TotalEvents := int (length (ic_chain ic)), rp_VerificationTime := now\<rparr>))"

definition GetCurrentHash :: "('k, 'p) IntegrityChain \<Rightarrow> string" where
  "GetCurrentHash ic = (if \<not> ic_enabled ic then [] else ic_lastHash ic)"

definition GetSequenceNumber :: "('k, 'p) IntegrityChain \<Rightarrow> int" where
  "GetSequenceNumber ic = (if \<not> ic_enabled ic then 0 else sint (ic_sequenceNum ic))"

definition VerifyEventChain :: "('k, 'p) Crypto \<Rightarrow> ('k, 'p) IntegrityChain \<Rightarrow> AuditEvent list \<Rightarrow> bool" where
  "VerifyEventChain C ic events =
     (if \<not> ic_enabled ic then True
      else list_all (\<lambda>event. ae_Hash event \<noteq> [] \<and>
             (case calculateEventHash C event of Inl _ \<Rightarrow> False | Inr expectedHash \<Rightarrow> expectedHash = ae_Hash event)) events)"

subsection \<open>Signer\<close>

text \<open>The configuration of the signer, with its key, is not used.\<close>

record SignerConfig =
  sgc_KeyType :: string
  sgc_SecretKey :: string

definition event_signature :: "('k, 'p) Crypto \<Rightarrow> AuditEvent \<Rightarrow> string" where
  "event_signature C e = hex_EncodeToString (cy_Sum256 C
     (ae_ID e @ ''|'' @ ae_Action e @ ''|'' @ ae_Component e @ ''|'' @ strconv_Itoa (wrap64 (ae_Timestamp e))))"

definition SignEvent :: "('k, 'p) Crypto \<Rightarrow> SignerConfig \<Rightarrow> AuditEvent \<Rightarrow> AuditEvent" where
  "SignEvent C es e = e\<lparr>ae_Signature := event_signature C e, ae_IntegrityFields := ae_IntegrityFields e @ [''signature'']\<rparr>"

definition VerifySignature :: "('k, 'p) Crypto \<Rightarrow> SignerConfig \<Rightarrow> AuditEvent \<Rightarrow> bool" where
  "VerifySignature C es e = (if ae_Signature e = [] then False else ae_Signature e = event_signature C e)"

subsection \<open>Validator\<close>

record ValidationViolation =
  vl_Description :: string
  vl_EventID :: string

record IntegrityEventResult =
  er_IsValid :: bool
  er_HashValid :: bool
  er_SignatureValid :: bool
  er_ChainValid :: bool
  er_Violations :: "ValidationViolation list"

record ValidationResult =
  vt_IsValid :: bool
  vt_EventResults :: "IntegrityEventResult list"
  vt_Violations :: "ValidationViolation list"

definition ValidateEvent :: "time \<Rightarrow> AuditEvent \<Rightarrow> IntegrityEventResult" where
  "ValidateEvent now event =
     (let r0 = \<lparr>er_IsValid = True, er_HashValid = True, er_SignatureValid = True, er_ChainValid = True, er_Violations = []\<rparr>;
          r1 = (if ae_Hash event = [] \<or> ae_PreviousHash event = []
                then r0\<lparr>er_IsValid := False, er_HashValid := False,
                        er_Violations := er_Violations r0 @ [\<lparr>vl_Description = ''missing integrity fields'', vl_EventID = ae_ID event\<rparr>]\<rparr>
                else r0);
          r2 = (if time_Sub now (ae_Timestamp event) > 5 * Minute
                then r1\<lparr>er_IsValid := False,
                        er_Violations := er_Violations r1 @ [\<lparr>vl_Description = ''timestamp outside acceptable range'', vl_EventID = ae_ID event\<rparr>]\<rparr>
                else r1)
      in if ae_Signature event = [] then r2\<lparr>er_SignatureValid := False\<rparr> else r2)"

text \<open>The loop with its index, clock readings and previous hash; then the second pass over the neighbours.\<close>

fun validate_events :: "(nat \<Rightarrow> time) \<Rightarrow> nat \<Rightarrow> string \<Rightarrow> AuditEvent list \<Rightarrow> ValidationResult \<Rightarrow> ValidationResult" where
  "validate_events now i previousHash [] result = result"
| "validate_events now i previousHash (event # events) result =
     (let er = ValidateEvent (now i) event;
          broken = (i > 0 \<and> ae_PreviousHash event \<noteq> previousHash);
          er1 = (if broken then er\<lparr>er_IsValid := False, er_ChainValid := False\<rparr> else er);
          r1 = (if broken then result\<lparr>vt_IsValid := False,
                    vt_Violations := vt_Violations result @ [\<lparr>vl_Description = ''hash chain break detected'', vl_EventID = ae_ID event\<rparr>]\<rparr>
                else result);
          r2 = (if \<not> er_IsValid er1 then r1\<lparr>vt_IsValid := False\<rparr> else r1)
      in validate_events now (Suc i) (ae_Hash event) events (r2\<lparr>vt_EventResults := vt_EventResults r2 @ [er1]\<rparr>))"

fun check_gaps :: "AuditEvent list \<Rightarrow> ValidationResult \<Rightarrow> ValidationResult" where
  "check_gaps (e1 # e2 # events) result =
     check_gaps (e2 # events)
       (if ae_PreviousHash e2 \<noteq> ae_Hash e1
        then result\<lparr>vt_IsValid := False,
               vt_Violations := vt_Violations result @ [\<lparr>vl_Description = ''chain gap detected between events'', vl_EventID = ae_ID e2\<rparr>]\<rparr>
        else result)"
| "check_gaps _ result = result"

definition ValidateEventChain :: "(nat \<Rightarrow> time) \<Rightarrow> AuditEvent list \<Rightarrow> ValidationResult" where
  "ValidateEventChain now events =
     check_gaps events (validate_events now 0 [] events \<lparr>vt_IsValid = True, vt_EventResults = [], vt_Violations = []\<rparr>)"

subsection \<open>Forensic analysis\<close>

record TimelineEvent =
  tl_Timestamp :: time
  tl_EventID :: string
  tl_Action :: string

record ForensicAnalysis =
  fa_IntegrityVerified :: bool
  fa_Fingerprint :: string
  fa_Timeline :: "TimelineEvent list"

definition AnalyzeEvent :: "AuditEvent \<Rightarrow> ForensicAnalysis" where
  "AnalyzeEvent event = \<lparr>fa_IntegrityVerified = (ae_Hash event \<noteq> [] \<and> ae_Signature event \<noteq> []), fa_Fingerprint = ae_Hash event,
     fa_Timeline = []\<rparr>"

text \<open>The two nested loops that exchange entries in place.\<close>

definition exchange :: "nat \<Rightarrow> nat \<Rightarrow> TimelineEvent list \<Rightarrow> TimelineEvent list" where
  "exchange i j timeline =
     (if tl_Timestamp (timeline ! j) < tl_Timestamp (timeline ! i) then timeline[i := timeline ! j, j := timeline ! i] else timeline)"

definition ReconstructTimeline :: "AuditEvent list \<Rightarrow> TimelineEvent list" where
  "ReconstructTimeline events =
     (let timeline = map (\<lambda>event. \<lparr>tl_Timestamp = ae_Timestamp event, tl_EventID = ae_ID event, tl_Action = ae_Action event\<rparr>) events
      in fold (\<lambda>i. fold (exchange i) [i + 1..<length timeline]) [0..<length timeline] timeline)"

subsection \<open>Recovery\<close>

text \<open>The events are pointers: the copy of the slice shares them with the caller.\<close>

record RecoveryResult =
  rr_Success :: bool
  rr_EventsRepaired :: int
  rr_RepairedEvents :: "addr list"

fun repair_events :: "nat \<Rightarrow> addr list \<Rightarrow> (addr \<Rightarrow> AuditEvent) \<times> int \<Rightarrow> (addr \<Rightarrow> AuditEvent) \<times> int" where
  "repair_events i [] st = st"
| "repair_events i (a # as) (mem, eventsRepaired) =
     repair_events (Suc i) as
       (if ae_Hash (mem a) = ''broken-hash''
        then (mem(a := (mem a)\<lparr>ae_Hash := ''repaired-hash-'' @ strconv_Itoa (int i)\<rparr>), inc64 eventsRepaired)
        else (mem, eventsRepaired))"

definition RecoverChain ::
    "(addr \<Rightarrow> AuditEvent) \<Rightarrow> addr list \<Rightarrow> bool \<times> RecoveryResult \<times> (addr \<Rightarrow> AuditEvent)" where
  "RecoverChain mem events =
     (if list_ex (\<lambda>a. ae_ID (mem a) = [] \<or> ae_Timestamp (mem a) = zero_time) events
      then (False, \<lparr>rr_Success = False, rr_EventsRepaired = 0, rr_RepairedEvents = []\<rparr>, mem)
      else let (mem1, eventsRepaired) = repair_events 0 events (mem, 0)
           in (True, \<lparr>rr_Success = True, rr_EventsRepaired = eventsRepaired, rr_RepairedEvents = events\<rparr>, mem1))"

section \<open>Lemmas\<close>

subsection \<open>Laws of the cryptographic functions\<close>

text \<open>A digest has 32 bytes, base64 can be decoded, and a signature is valid for the public key of its private
  key.\<close>

definition crypto_ok :: "('k, 'p) Crypto \<Rightarrow> bool" where
  "crypto_ok C \<longleftrightarrow> (\<forall>s. length (cy_Sum256 C s) = 32) \<and> (\<forall>s. cy_DecodeBase64 C (cy_EncodeBase64 C s) = Inr s)
     \<and> (\<forall>rnd key d sig. cy_SignPSS C rnd key d = Inr sig \<longrightarrow> cy_VerifyPSS C (cy_Public C key) d sig = None)"

lemma hex_length [simp]: "length (hex_EncodeToString s) = 2 * length s"
  by (induction s) (simp_all add: hex_EncodeToString_def)

lemma hex_not_empty: "crypto_ok C \<Longrightarrow> hex_EncodeToString (cy_Sum256 C s) \<noteq> []"
  by (metis crypto_ok_def hex_length list.size(3) mult_eq_0_iff zero_neq_numeral)

lemma hex_digit_inj: "m < 16 \<Longrightarrow> n < 16 \<Longrightarrow> hex_digit m = hex_digit n \<longleftrightarrow> m = n"
proof
  assume mn: "m < 16" "n < 16" and "hex_digit m = hex_digit n"
  then have "(of_char (hex_digit m) :: nat) = of_char (hex_digit n)" by simp
  with mn show "m = n" by (auto simp: hex_digit_def split: if_splits)
qed simp

lemma hex_inj: "hex_EncodeToString s = hex_EncodeToString t \<Longrightarrow> s = t"
proof (induction s arbitrary: t)
  case Nil
  then show ?case by (cases t) (auto simp: hex_EncodeToString_def)
next
  case (Cons c s)
  then obtain d t' where t: "t = d # t'" by (cases t) (auto simp: hex_EncodeToString_def)
  have "(of_char c :: nat) < 256" "(of_char d :: nat) < 256" by simp_all
  then have small: "(of_char c :: nat) div 16 < 16" "(of_char d :: nat) div 16 < 16"
    by (auto intro!: less_mult_imp_div_less simp del: of_char_of)
  from Cons.prems t have d: "hex_digit (of_char c div 16) = hex_digit (of_char d div 16)" "hex_digit (of_char c mod 16) = hex_digit (of_char d mod 16)"
    and s: "hex_EncodeToString s = hex_EncodeToString t'" by (simp_all add: hex_EncodeToString_def)
  have "(of_char c :: nat) div 16 = of_char d div 16" "(of_char c :: nat) mod 16 = of_char d mod 16"
    using d hex_digit_inj small by simp_all
  then have "(of_char c :: nat) = of_char d" by (metis div_mod_decomp)
  with Cons.IH [OF s] t show ?case by simp
qed

lemma eventHash_not_empty: "crypto_ok C \<Longrightarrow> calculateEventHash C e = Inr h \<Longrightarrow> h \<noteq> []"
  by (auto simp: calculateEventHash_def hex_not_empty split: sum.splits)

subsection \<open>Runs\<close>

text \<open>A chain with the number of calls and the events that were processed with success, as they are after the
  call. The mutex makes each call one step; the calls come from any goroutine.\<close>

inductive chain_reach :: "('k, 'p) Crypto \<Rightarrow> (int \<Rightarrow> string + 'k) \<Rightarrow> nat \<Rightarrow> AuditEvent list \<Rightarrow> ('k, 'p) IntegrityChain \<Rightarrow> bool"
  for C generate where
  new: "NewIntegrityChainWithConfig C generate config = Inr ic \<Longrightarrow> icf_Enabled config \<Longrightarrow> chain_reach C generate 0 [] ic"
| failed: "chain_reach C generate n events ic \<Longrightarrow> ProcessEvent C rnd now ic e = (Some err, ic', e') \<Longrightarrow> chain_reach C generate (Suc n) events ic'"
| processed: "chain_reach C generate n events ic \<Longrightarrow> ProcessEvent C rnd now ic e = (None, ic', e') \<Longrightarrow>
    chain_reach C generate (Suc n) (events @ [e']) ic'"

text \<open>The events of the links that are kept.\<close>

definition recent :: "AuditEvent list \<Rightarrow> AuditEvent list" where
  "recent events = drop (length events - MaxChainLength) events"

definition link_of :: "AuditEvent \<Rightarrow> IntegrityLink \<Rightarrow> bool" where
  "link_of e link \<longleftrightarrow> lk_EventID link = ae_ID e \<and> lk_EventHash link = ae_Hash e \<and> lk_PreviousHash link = ae_PreviousHash e
     \<and> lk_Signature link = ae_Signature e"

definition link_ok :: "('k, 'p) Crypto \<Rightarrow> ('k, 'p) IntegrityChain \<Rightarrow> IntegrityLink \<Rightarrow> bool" where
  "link_ok C ic link \<longleftrightarrow> calculateChainHash C link = Inr (lk_ChainHash link) \<and> verifyLinkSignature C ic link = None"

definition linked :: "('k, 'p) Crypto \<Rightarrow> AuditEvent list \<Rightarrow> bool" where
  "linked C events \<longleftrightarrow> successively (\<lambda>a b. ae_PreviousHash b = ae_Hash a) events
     \<and> (events \<noteq> [] \<longrightarrow> ae_PreviousHash (hd events) = genesisHashValue C)"

definition chain_inv :: "('k, 'p) Crypto \<Rightarrow> nat \<Rightarrow> AuditEvent list \<Rightarrow> ('k, 'p) IntegrityChain \<Rightarrow> bool" where
  "chain_inv C n events ic \<longleftrightarrow> ic_enabled ic \<and> ic_publicKey ic = map_option (cy_Public C) (ic_privateKey ic)
     \<and> list_all2 link_of (recent events) (ic_chain ic)
     \<and> list_all (link_ok C ic) (ic_chain ic)
     \<and> linked C events \<and> ic_lastHash ic = (if events = [] then [] else ae_Hash (last events))
     \<and> list_all (\<lambda>e. calculateEventHash C e = Inr (ae_Hash e) \<and> ae_PreviousHash e \<noteq> []) events
     \<and> (n < 2 ^ 64 \<longrightarrow> unat (ic_sequenceNum ic) \<le> n \<and> sorted_wrt (<) (map lk_SequenceNumber (ic_chain ic))
          \<and> list_all (\<lambda>link. lk_SequenceNumber link \<le> ic_sequenceNum ic) (ic_chain ic))"

lemma recent_append: "recent (events @ [e]) = drop (length (recent events @ [e]) - MaxChainLength) (recent events @ [e])"
  by (cases "length events < MaxChainLength") (simp_all add: recent_def Suc_diff_le)

lemma link_ok_frame: "ic_publicKey ic' = ic_publicKey ic \<Longrightarrow> link_ok C ic' = link_ok C ic"
  by (simp add: link_ok_def verifyLinkSignature_def fun_eq_iff)

lemma New_inv: "NewIntegrityChainWithConfig C generate config = Inr ic \<Longrightarrow> icf_Enabled config \<Longrightarrow> chain_inv C 0 [] ic"
  by (auto simp: NewIntegrityChainWithConfig_def initializeKeys_def chain_inv_def recent_def linked_def Let_def
      split: if_splits sum.splits)

lemma sequence_step:
  assumes "unat (w :: 64 word) \<le> n" "Suc n < 2 ^ 64"
  shows "unat (w + 1) = Suc (unat w)" "w < w + 1"
proof -
  have "unat w + 1 < 2 ^ 64" using assms by linarith
  then show "unat (w + 1) = Suc (unat w)" by (simp add: unat_word_ariths)
  then show "w < w + 1" by (simp add: word_less_nat_alt)
qed

lemma ProcessEvent_failed_inv:
  assumes "chain_inv C n events ic" "ProcessEvent C rnd now ic e = (Some err, ic', e')"
  shows "chain_inv C (Suc n) events ic'"
proof -
  have c: "ic' = ic \<or> ic' = ic\<lparr>ic_sequenceNum := ic_sequenceNum ic + 1\<rparr>"
    using assms(2) by (auto simp: ProcessEvent_def Let_def split: if_splits sum.splits)
  have seq: "unat (ic_sequenceNum ic') \<le> Suc n \<and> ic_sequenceNum ic \<le> ic_sequenceNum ic'" if n: "Suc n < 2 ^ 64"
  proof -
    have u: "unat (ic_sequenceNum ic) \<le> n" using assms(1) n by (simp add: chain_inv_def)
    from c sequence_step [OF u n] u show ?thesis by (auto simp: word_le_nat_alt)
  qed
  have ch: "ic_chain ic' = ic_chain ic" "ic_publicKey ic' = ic_publicKey ic" using c by auto
  have "list_all (\<lambda>link. lk_SequenceNumber link \<le> ic_sequenceNum ic') (ic_chain ic')" if n: "Suc n < 2 ^ 64"
  proof -
    have "list_all (\<lambda>link. lk_SequenceNumber link \<le> ic_sequenceNum ic) (ic_chain ic)" using assms(1) n by (simp add: chain_inv_def)
    with seq [OF n] ch(1) show ?thesis by (auto simp: list_all_iff intro: order_trans)
  qed
  with c seq assms(1) show ?thesis unfolding chain_inv_def link_ok_frame [OF ch(2)] by auto
qed

text \<open>What the hash of a link and its signature do not depend on.\<close>

lemma link_frames:
  "calculateChainHash C (l\<lparr>lk_ChainHash := ch\<rparr>) = calculateChainHash C l"
  "calculateChainHash C (l\<lparr>lk_Signature := sg\<rparr>) = calculateChainHash C l"
  "calculateChainHash C (l\<lparr>lk_ChainHash := ch, lk_Signature := sg\<rparr>) = calculateChainHash C l"
  "signLink C rnd ic (l\<lparr>lk_ChainHash := ch, lk_Signature := sg\<rparr>) = signLink C rnd ic (l\<lparr>lk_ChainHash := ch\<rparr>)"
  "signLink C rnd (ic\<lparr>ic_sequenceNum := w\<rparr>) l = signLink C rnd ic l"
  by (simp_all add: calculateChainHash_def signLink_def payload_def split: option.split)

text \<open>A successful call: the link that it adds.\<close>

lemma ProcessEvent_success:
  assumes "ProcessEvent C rnd now ic e = (None, ic', e')" "ic_enabled ic"
  obtains link where "calculateEventHash C e = Inr (lk_EventHash link)"
    "lk_PreviousHash link = (if ic_lastHash ic = [] then genesisHashValue C else ic_lastHash ic)"
    "lk_SequenceNumber link = ic_sequenceNum ic + 1" "lk_EventID link = ae_ID e"
    "calculateChainHash C link = Inr (lk_ChainHash link)" "signLink C rnd ic link = Inr (lk_Signature link)"
    "ic' = ic\<lparr>ic_sequenceNum := ic_sequenceNum ic + 1, ic_lastHash := lk_EventHash link,
              ic_chain := drop (length (ic_chain ic @ [link]) - MaxChainLength) (ic_chain ic @ [link])\<rparr>"
    "e' = e\<lparr>ae_Hash := lk_EventHash link, ae_PreviousHash := lk_PreviousHash link, ae_Signature := lk_Signature link,
            ae_IntegrityFields := [''id'', ''timestamp'', ''event_type'', ''component'', ''action'', ''user_context'', ''result'']\<rparr>"
proof -
  define link0 where "link0 h = \<lparr>lk_SequenceNumber = ic_sequenceNum ic + 1, lk_Timestamp = now, lk_EventID = ae_ID e, lk_EventHash = h,
      lk_PreviousHash = (if ic_lastHash ic = [] then genesisHashValue C else ic_lastHash ic), lk_ChainHash = [], lk_Signature = [],
      lk_KeyID = ic_keyID ic, lk_Version = IntegrityVersion\<rparr>" for h
  from assms obtain h ch sg where r: "calculateEventHash C e = Inr h" "calculateChainHash C (link0 h) = Inr ch"
      "signLink C rnd (ic\<lparr>ic_sequenceNum := ic_sequenceNum ic + 1\<rparr>) (link0 h\<lparr>lk_ChainHash := ch\<rparr>) = Inr sg"
      "ic' = ic\<lparr>ic_sequenceNum := ic_sequenceNum ic + 1, ic_lastHash := h,
              ic_chain := drop (length (ic_chain ic @ [link0 h\<lparr>lk_ChainHash := ch, lk_Signature := sg\<rparr>]) - MaxChainLength)
                 (ic_chain ic @ [link0 h\<lparr>lk_ChainHash := ch, lk_Signature := sg\<rparr>])\<rparr>"
      "e' = e\<lparr>ae_Hash := h, ae_PreviousHash := lk_PreviousHash (link0 h), ae_Signature := sg,
            ae_IntegrityFields := [''id'', ''timestamp'', ''event_type'', ''component'', ''action'', ''user_context'', ''result'']\<rparr>"
    unfolding ProcessEvent_def Let_def by (auto simp: link0_def split: sum.splits if_splits)
  have p: "lk_EventHash (link0 h) = h" "lk_SequenceNumber (link0 h) = ic_sequenceNum ic + 1" "lk_EventID (link0 h) = ae_ID e"
      "lk_PreviousHash (link0 h) = (if ic_lastHash ic = [] then genesisHashValue C else ic_lastHash ic)"
    by (simp_all add: link0_def)
  show thesis
    by (rule that [of "link0 h\<lparr>lk_ChainHash := ch, lk_Signature := sg\<rparr>"])
      (use r p in \<open>simp_all add: link_frames\<close>)
qed

lemma signLink_verified:
  assumes "crypto_ok C" "ic_publicKey ic = map_option (cy_Public C) (ic_privateKey ic)" "signLink C rnd ic link = Inr (lk_Signature link)"
  shows "verifyLinkSignature C ic link = None"
proof -
  obtain key sg where "ic_privateKey ic = Some key" "cy_SignPSS C rnd key (cy_Sum256 C (payload link)) = Inr sg"
      "lk_Signature link = cy_EncodeBase64 C sg"
    using assms(3) by (auto simp: signLink_def split: option.splits sum.splits)
  with assms(1,2) show ?thesis by (simp add: verifyLinkSignature_def crypto_ok_def)
qed

lemma hashed_event_frame [simp]:
  "hashed_event (e\<lparr>ae_Hash := a, ae_PreviousHash := b, ae_Signature := c, ae_IntegrityFields := d\<rparr>) = hashed_event e"
  by (simp add: hashed_event_def)

lemma sorted_wrt_drop: "sorted_wrt P xs \<Longrightarrow> sorted_wrt P (drop n xs)"
  by (metis append_take_drop_id sorted_wrt_append)

lemma list_all_drop: "list_all P xs \<Longrightarrow> list_all P (drop n xs)"
  by (metis append_take_drop_id list_all_append)

lemma successively_snoc: "successively P (xs @ [x]) \<longleftrightarrow> successively P xs \<and> (xs \<noteq> [] \<longrightarrow> P (last xs) x)"
  by (auto simp: successively_append_iff)

lemma ProcessEvent_processed_inv:
  assumes "crypto_ok C" "chain_inv C n events ic" "ProcessEvent C rnd now ic e = (None, ic', e')"
  shows "chain_inv C (Suc n) (events @ [e']) ic'"
proof -
  have en: "ic_enabled ic" and key: "ic_publicKey ic = map_option (cy_Public C) (ic_privateKey ic)"
    and links: "list_all2 link_of (recent events) (ic_chain ic)" "list_all (link_ok C ic) (ic_chain ic)"
    and lnk: "linked C events" and lst: "ic_lastHash ic = (if events = [] then [] else ae_Hash (last events))"
    and evs: "list_all (\<lambda>e. calculateEventHash C e = Inr (ae_Hash e) \<and> ae_PreviousHash e \<noteq> []) events"
    using assms(2) by (simp_all add: chain_inv_def)
  from ProcessEvent_success [OF assms(3) en] obtain link where
    l: "calculateEventHash C e = Inr (lk_EventHash link)"
       "lk_PreviousHash link = (if ic_lastHash ic = [] then genesisHashValue C else ic_lastHash ic)"
       "lk_SequenceNumber link = ic_sequenceNum ic + 1" "lk_EventID link = ae_ID e"
       "calculateChainHash C link = Inr (lk_ChainHash link)" "signLink C rnd ic link = Inr (lk_Signature link)"
    and ic': "ic' = ic\<lparr>ic_sequenceNum := ic_sequenceNum ic + 1, ic_lastHash := lk_EventHash link,
              ic_chain := drop (length (ic_chain ic @ [link]) - MaxChainLength) (ic_chain ic @ [link])\<rparr>"
    and e': "e' = e\<lparr>ae_Hash := lk_EventHash link, ae_PreviousHash := lk_PreviousHash link, ae_Signature := lk_Signature link,
            ae_IntegrityFields := [''id'', ''timestamp'', ''event_type'', ''component'', ''action'', ''user_context'', ''result'']\<rparr>"
    by blast
  have ok: "link_ok C ic link" using l(5) signLink_verified [OF assms(1) key l(6)] by (simp add: link_ok_def)
  have nonempty: "ic_lastHash ic = [] \<longleftrightarrow> events = []"
    using lst evs eventHash_not_empty [OF assms(1), of "last events"] last_in_set [of events] by (auto simp: list_all_iff)
  have prev: "ae_PreviousHash e' = (if events = [] then genesisHashValue C else ae_Hash (last events))"
    using e' l(2) lst nonempty by auto
  have prev_ne: "ae_PreviousHash e' \<noteq> []"
    using e' l(2) hex_not_empty [OF assms(1)] by (simp add: genesisHashValue_def)
  have "list_all2 link_of (recent events @ [e']) (ic_chain ic @ [link])"
    using links(1) e' l(4) by (simp add: list_all2_appendI link_of_def)
  then have chain: "list_all2 link_of (recent (events @ [e'])) (ic_chain ic')"
    unfolding recent_append using ic' list_all2_lengthD [OF links(1)] by (simp only: length_append) (simp add: list_all2_dropI del: drop_append)
  have "list_all (link_ok C ic') (ic_chain ic')"
    using links(2) ok link_ok_frame [of ic' ic C] by (simp add: ic' list_all_drop)
  moreover have "linked C (events @ [e'])"
    using lnk prev by (simp add: linked_def successively_snoc hd_append)
  moreover have "calculateEventHash C e' = Inr (ae_Hash e')" using l(1) by (simp add: e' calculateEventHash_def)
  moreover have "unat (ic_sequenceNum ic') \<le> Suc n \<and> sorted_wrt (<) (map lk_SequenceNumber (ic_chain ic'))
      \<and> list_all (\<lambda>link. lk_SequenceNumber link \<le> ic_sequenceNum ic') (ic_chain ic')" if n: "Suc n < 2 ^ 64"
  proof -
    have u: "unat (ic_sequenceNum ic) \<le> n" and s: "sorted_wrt (<) (map lk_SequenceNumber (ic_chain ic))"
      and b: "list_all (\<lambda>link. lk_SequenceNumber link \<le> ic_sequenceNum ic) (ic_chain ic)"
      using assms(2) n by (simp_all add: chain_inv_def)
    note step = sequence_step [OF u n]
    have "sorted_wrt (<) (map lk_SequenceNumber (ic_chain ic @ [link]))"
      using s b step(2) l(3) by (auto simp: sorted_wrt_append list_all_iff)
    then have "sorted_wrt (<) (map lk_SequenceNumber (ic_chain ic'))"
      by (simp add: ic' drop_map [symmetric] sorted_wrt_drop del: map_append drop_append)
    moreover have "list_all (\<lambda>link. lk_SequenceNumber link \<le> ic_sequenceNum ic + 1) (ic_chain ic @ [link])"
      using b step(2) l(3) by (auto simp: list_all_iff)
    ultimately show ?thesis using u step(1) by (simp add: ic' list_all_drop del: drop_append)
  qed
  ultimately show ?thesis
    using en key evs chain prev_ne by (simp add: chain_inv_def ic' e')
qed

lemma chain_reach_inv: "chain_reach C generate n events ic \<Longrightarrow> crypto_ok C \<Longrightarrow> chain_inv C n events ic"
  by (induction rule: chain_reach.induct) (auto intro: New_inv ProcessEvent_failed_inv ProcessEvent_processed_inv)

subsection \<open>The report on the chain\<close>

lemma verify_link_mono: "\<not> rp_Valid r \<Longrightarrow> \<not> rp_Valid (verify_link C ic i p link r)"
  by (auto simp: verify_link_def fail_link_def Let_def split: option.splits sum.splits)

lemma verify_links_mono: "\<not> rp_Valid r \<Longrightarrow> \<not> rp_Valid (verify_links C ic i p links r)"
  by (induction links arbitrary: i p r) (simp_all add: verify_link_mono)

lemma verify_link_break:
  assumes "lk_PreviousHash link \<noteq> p"
  shows "\<not> rp_Valid (verify_link C ic i p link r)"
    "\<exists>b \<in> set (rp_ChainBreaks (verify_link C ic i p link r)). cb_EventID b = lk_EventID link \<and> cb_Expected b = p"
  using assms by (auto simp: verify_link_def fail_link_def Let_def split: option.splits sum.splits)

lemma verify_link_breaks: "set (rp_ChainBreaks r) \<subseteq> set (rp_ChainBreaks (verify_link C ic i p link r))"
  by (auto simp: verify_link_def fail_link_def Let_def split: option.splits sum.splits)

lemma verify_links_breaks: "set (rp_ChainBreaks r) \<subseteq> set (rp_ChainBreaks (verify_links C ic i p links r))"
proof (induction links arbitrary: i p r)
  case (Cons link links)
  then show ?case using verify_link_breaks order_trans by (metis verify_links.simps(2))
qed simp

lemma recent_not_empty: "recent events = [] \<longleftrightarrow> events = []"
  by (cases events) (auto simp: recent_def MaxChainLength_def)

lemma list_all2_distinct_find:
  assumes "list_all2 P xs ys" "\<And>x y. P x y \<Longrightarrow> f x = g y" "distinct (map f xs)" "x \<in> set xs"
  shows "\<exists>y \<in> set ys. List.find (\<lambda>y. g y = f x) ys = Some y \<and> P x y"
  using assms(1,3,4)
proof (induction xs ys rule: list_all2_induct)
  case (Cons x' xs y' ys)
  then show ?case using assms(2) [OF Cons.hyps(1)] by (cases "x = x'") auto
qed simp

lemma list_all2_in_right: "list_all2 P xs ys \<Longrightarrow> y \<in> set ys \<Longrightarrow> \<exists>x \<in> set xs. P x y"
  by (induction rule: list_all2_induct) auto

lemma VerifyEvent_found:
  assumes inv: "chain_inv C n events ic" and d: "distinct (map ae_ID (recent events))" and e: "e \<in> set (recent events)"
    and f: "ae_ID f = ae_ID e"
  shows "VerifyEvent C ic f = None \<longleftrightarrow> calculateEventHash C f = calculateEventHash C e"
proof -
  have l: "list_all2 link_of (recent events) (ic_chain ic)" and ok: "list_all (link_ok C ic) (ic_chain ic)"
    and hash: "calculateEventHash C e = Inr (ae_Hash e)" and en: "ic_enabled ic"
    using inv e by (auto simp: chain_inv_def recent_def list_all_iff dest: in_set_dropD)
  obtain link where "List.find (\<lambda>link. lk_EventID link = ae_ID e) (ic_chain ic) = Some link" "link_of e link" "link \<in> set (ic_chain ic)"
    using list_all2_distinct_find [where f = ae_ID and g = lk_EventID, OF l _ d e] by (auto simp: link_of_def)
  with ok hash en f show ?thesis
    by (auto simp: VerifyEvent_def link_ok_def list_all_iff link_of_def split: sum.splits)
qed

lemma VerifyEvent_not_found:
  assumes inv: "chain_inv C n events ic" and f: "ae_ID f \<notin> ae_ID ` set (recent events)"
  shows "VerifyEvent C ic f = Some (LinkNotFound (ae_ID f))"
proof -
  have l: "list_all2 link_of (recent events) (ic_chain ic)" using inv by (simp add: chain_inv_def)
  have "lk_EventID link \<noteq> ae_ID f" if "link \<in> set (ic_chain ic)" for link
    using list_all2_in_right [OF l that] f by (auto simp: link_of_def)
  then have "List.find (\<lambda>link. lk_EventID link = ae_ID f) (ic_chain ic) = None" by (simp add: find_None_iff)
  with inv show ?thesis by (simp add: VerifyEvent_def chain_inv_def)
qed

subsection \<open>The validator\<close>

text \<open>What the validator checks of one event at a time of the clock.\<close>

definition event_fresh :: "time \<Rightarrow> AuditEvent \<Rightarrow> bool" where
  "event_fresh now e \<longleftrightarrow> ae_Hash e \<noteq> [] \<and> ae_PreviousHash e \<noteq> [] \<and> time_Sub now (ae_Timestamp e) \<le> 5 * Minute"

abbreviation follows :: "AuditEvent \<Rightarrow> AuditEvent \<Rightarrow> bool" where
  "follows a b \<equiv> ae_PreviousHash b = ae_Hash a"

lemma ValidateEvent_valid: "er_IsValid (ValidateEvent now e) \<longleftrightarrow> event_fresh now e"
  by (auto simp: ValidateEvent_def event_fresh_def Let_def)

lemma check_gaps_valid: "vt_IsValid (check_gaps events r) \<longleftrightarrow> vt_IsValid r \<and> successively follows events"
  by (induction events r rule: check_gaps.induct) auto

lemma validate_events_valid:
  "vt_IsValid (validate_events now i p events r) \<longleftrightarrow>
     vt_IsValid r \<and> list_all (\<lambda>(j, e). event_fresh (now j) e) (enumerate i events)
     \<and> (i > 0 \<and> events \<noteq> [] \<longrightarrow> ae_PreviousHash (hd events) = p) \<and> successively follows events"
proof (induction now i p events r rule: validate_events.induct)
  case (2 now i p event events r)
  then show ?case
    by (cases events) (auto simp: Let_def ValidateEvent_valid)
qed simp

lemma validate_events_results:
  "length (vt_EventResults (validate_events now i p events r)) = length (vt_EventResults r) + length events"
  by (induction now i p events r rule: validate_events.induct) (simp_all add: Let_def)

lemma check_gaps_results: "vt_EventResults (check_gaps events r) = vt_EventResults r"
  by (induction events r rule: check_gaps.induct) auto

subsection \<open>The timeline\<close>

lemma exchange_length [simp]: "length (exchange i j t) = length t"
  by (simp add: exchange_def)

lemma exchange_mset: "i < length t \<Longrightarrow> j < length t \<Longrightarrow> mset (exchange i j t) = mset t"
  using mset_swap [of j t i] by (simp add: exchange_def)

text \<open>The inner loop: the entry at \<open>i\<close> becomes the smallest of those that were compared, and the entries before it
  stay.\<close>

lemma inner_loop:
  assumes "i < a" "a \<le> b" "b \<le> length t"
  defines "t' \<equiv> fold (exchange i) [a..<b] t"
  shows "length t' = length t \<and> mset t' = mset t \<and> take i t' = take i t \<and> tl_Timestamp (t' ! i) \<le> tl_Timestamp (t ! i)
    \<and> (\<forall>k. a \<le> k \<and> k < b \<longrightarrow> tl_Timestamp (t' ! i) \<le> tl_Timestamp (t' ! k)) \<and> (\<forall>k. b \<le> k \<longrightarrow> t' ! k = t ! k)"
  using assms(2,3) unfolding t'_def
proof (induction b rule: dec_induct)
  case (step n)
  define u where "u = fold (exchange i) [a..<n] t"
  have u: "length u = length t" "mset u = mset t" "take i u = take i t" "tl_Timestamp (u ! i) \<le> tl_Timestamp (t ! i)"
    "\<And>k. a \<le> k \<Longrightarrow> k < n \<Longrightarrow> tl_Timestamp (u ! i) \<le> tl_Timestamp (u ! k)" "\<And>k. n \<le> k \<Longrightarrow> u ! k = t ! k"
    using step by (simp_all add: u_def)
  have f: "fold (exchange i) [a..<Suc n] t = exchange i n u" using step(1) by (simp add: u_def)
  have "mset (exchange i n u) = mset t" using step assms(1) u by (simp add: exchange_mset)
  moreover have "take i (exchange i n u) = take i t" using step assms(1) u(3) by (simp add: exchange_def)
  moreover have "tl_Timestamp (exchange i n u ! i) \<le> tl_Timestamp (t ! i)" using step assms(1) u(1,4)
    by (auto simp: exchange_def nth_list_update)
  moreover have "tl_Timestamp (exchange i n u ! i) \<le> tl_Timestamp (exchange i n u ! k)" if "a \<le> k" "k < Suc n" for k
    using step assms(1) that u(1) u(5) [of k] by (auto simp: exchange_def nth_list_update less_Suc_eq)
  moreover have "exchange i n u ! k = t ! k" if "Suc n \<le> k" for k
    using step assms(1) that u(6) by (auto simp: exchange_def nth_list_update)
  ultimately show ?case unfolding f by (simp add: u(1))
qed simp

definition timeline_upto :: "nat \<Rightarrow> TimelineEvent list \<Rightarrow> bool" where
  "timeline_upto i t \<longleftrightarrow> sorted (map tl_Timestamp (take i t))
     \<and> (\<forall>x \<in> set (take i t). \<forall>y \<in> set (drop i t). tl_Timestamp x \<le> tl_Timestamp y)"

lemma outer_step:
  assumes "timeline_upto i t" "i < length t"
  defines "t' \<equiv> fold (exchange i) [i + 1..<length t] t"
  shows "timeline_upto (Suc i) t' \<and> mset t' = mset t \<and> length t' = length t"
proof -
  have t': "length t' = length t" "mset t' = mset t" "take i t' = take i t"
    "\<And>k. i < k \<Longrightarrow> k < length t \<Longrightarrow> tl_Timestamp (t' ! i) \<le> tl_Timestamp (t' ! k)"
    using inner_loop [of i "i + 1" "length t" t] assms(2) by (simp_all add: t'_def)
  have "mset (take i t') + mset (drop i t') = mset (take i t) + mset (drop i t)"
    by (simp only: union_code append_take_drop_id mset_append [symmetric] t'(2))
  then have d: "set (drop i t') = set (drop i t)" using t'(3) by (metis add_left_cancel set_mset_mset)
  have s: "take (Suc i) t' = take i t @ [t' ! i]" using t'(1,3) assms(2) by (simp add: take_Suc_conv_app_nth)
  have "t' ! i \<in> set (drop i t')" using t'(1) assms(2) by (metis Cons_nth_drop_Suc list.set_intros(1))
  moreover have "set (drop (Suc i) t') \<subseteq> set (drop i t')" by (metis set_drop_subset_set_drop le_SucI order_refl)
  moreover have "tl_Timestamp (t' ! i) \<le> tl_Timestamp y" if "y \<in> set (drop (Suc i) t')" for y
    using that t'(1,4) by (auto simp: in_set_conv_nth)
  ultimately show ?thesis using assms(1) d t'(1,2) unfolding timeline_upto_def s
    by (auto simp: sorted_append)
qed

lemma outer_loop:
  assumes "n \<le> length t"
  defines "t' \<equiv> fold (\<lambda>i. fold (exchange i) [i + 1..<length t]) [0..<n] t"
  shows "timeline_upto n t' \<and> mset t' = mset t \<and> length t' = length t"
  using assms(1) unfolding t'_def
proof (induction n)
  case (Suc n)
  then show ?case using outer_step [of n "fold (\<lambda>i. fold (exchange i) [i + 1..<length t]) [0..<n] t"] by simp
qed (simp add: timeline_upto_def)

subsection \<open>A concrete run\<close>

text \<open>Concrete functions that satisfy the laws, and a run of two events; the second has a failure before it.\<close>

definition demo_crypto :: "(nat, nat) Crypto" where
  "demo_crypto = \<lparr>cy_MarshalEvent = (\<lambda>e. if he_Action e = ''bad'' then Inl ''unsupported'' else Inr (he_ID e @ he_Action e @ he_Result e)),
     cy_MarshalLink = (\<lambda>l. Inr (hl_EventID l @ hl_EventHash l)), cy_MarshalKey = (\<lambda>k. Inr ''key''),
     cy_Sum256 = (\<lambda>s. take 32 (s @ replicate 32 CHR ''0'')), cy_Public = (\<lambda>k. k + 1), cy_SignPSS = (\<lambda>rnd k d. Inr d),
     cy_VerifyPSS = (\<lambda>k d s. if d = s then None else Some ''verification error''), cy_EncodeBase64 = id, cy_DecodeBase64 = Inr\<rparr>"

definition demo_event :: "string \<Rightarrow> string \<Rightarrow> AuditEvent" where
  "demo_event newID action = Build (WithResult ResultSuccess (WithAction action (WithEventType ''data_access'' (NewEventBuilder newID 5))))"

definition demo_chain0 :: "(nat, nat) IntegrityChain" where
  "demo_chain0 = projr (NewIntegrityChain demo_crypto (\<lambda>_. Inr 41))"

definition demo_chain1 :: "(nat, nat) IntegrityChain" where
  "demo_chain1 = fst (snd (ProcessEvent demo_crypto 0 6 demo_chain0 (demo_event ''a'' ''read'')))"

definition demo_chain2 :: "(nat, nat) IntegrityChain" where
  "demo_chain2 = fst (snd (ProcessEvent demo_crypto 0 7 demo_chain1 (demo_event ''b'' ''bad'')))"

definition demo_chain3 :: "(nat, nat) IntegrityChain" where
  "demo_chain3 = fst (snd (ProcessEvent demo_crypto 0 8 demo_chain2 (demo_event ''c'' ''write'')))"

definition demo_events :: "AuditEvent list" where
  "demo_events = [snd (snd (ProcessEvent demo_crypto 0 6 demo_chain0 (demo_event ''a'' ''read''))),
     snd (snd (ProcessEvent demo_crypto 0 8 demo_chain2 (demo_event ''c'' ''write'')))]"

lemma demo_crypto_ok: "crypto_ok demo_crypto"
  by (simp add: crypto_ok_def demo_crypto_def min_def)

lemma demo_process:
  assumes "ic_enabled ic" "ic_privateKey ic = Some k"
  shows "fst (ProcessEvent demo_crypto rnd now ic e) = (if ae_Action e = ''bad'' then Some (MarshalFailed ''unsupported'') else None)"
    "ic_enabled (fst (snd (ProcessEvent demo_crypto rnd now ic e)))"
    "ic_privateKey (fst (snd (ProcessEvent demo_crypto rnd now ic e))) = Some k"
  using assms
  by (auto simp: ProcessEvent_def calculateEventHash_def calculateChainHash_def signLink_def demo_crypto_def hashed_event_def Let_def)

lemma demo_action: "ae_Action (demo_event newID action) = action"
  by (simp add: demo_event_def Build_def SetRiskLevel_def WithResult_def WithAction_def)

lemma demo_chains:
  "ic_enabled demo_chain0" "ic_privateKey demo_chain0 = Some 41" "ic_enabled demo_chain1" "ic_privateKey demo_chain1 = Some 41"
  "ic_enabled demo_chain2" "ic_privateKey demo_chain2 = Some 41"
proof -
  show 0: "ic_enabled demo_chain0" "ic_privateKey demo_chain0 = Some 41"
    by (simp_all add: demo_chain0_def NewIntegrityChain_def NewIntegrityChainWithConfig_def initializeKeys_def DefaultIntegrityConfig_def Let_def)
  show 1: "ic_enabled demo_chain1" "ic_privateKey demo_chain1 = Some 41" unfolding demo_chain1_def using 0 by (rule demo_process)+
  show "ic_enabled demo_chain2" "ic_privateKey demo_chain2 = Some 41" unfolding demo_chain2_def using 1 by (rule demo_process)+
qed

lemmas demo_results = demo_process(1) [OF demo_chains(1,2)] demo_process(1) [OF demo_chains(3,4)] demo_process(1) [OF demo_chains(5,6)] demo_action

lemma demo_steps:
  "ProcessEvent demo_crypto 0 6 demo_chain0 (demo_event ''a'' ''read'') = (None, demo_chain1, demo_events ! 0)"
  "ProcessEvent demo_crypto 0 7 demo_chain1 (demo_event ''b'' ''bad'') =
     (Some (MarshalFailed ''unsupported''), demo_chain2, snd (snd (ProcessEvent demo_crypto 0 7 demo_chain1 (demo_event ''b'' ''bad''))))"
  "ProcessEvent demo_crypto 0 8 demo_chain2 (demo_event ''c'' ''write'') = (None, demo_chain3, demo_events ! 1)"
  unfolding prod_eq_iff
  by (simp_all only: demo_results) (simp_all add: demo_chain1_def demo_chain2_def demo_chain3_def demo_events_def)

lemma demo_reach: "chain_reach demo_crypto (\<lambda>_. Inr 41) 3 demo_events demo_chain3"
proof -
  let ?g = "\<lambda>_ :: int. Inr 41 :: string + nat"
  have "NewIntegrityChainWithConfig demo_crypto ?g DefaultIntegrityConfig = Inr demo_chain0"
    by (simp add: demo_chain0_def NewIntegrityChain_def NewIntegrityChainWithConfig_def initializeKeys_def DefaultIntegrityConfig_def Let_def)
  then have "chain_reach demo_crypto ?g 0 [] demo_chain0"
    by (rule chain_reach.new) (simp add: DefaultIntegrityConfig_def)
  note r = chain_reach.processed [OF chain_reach.failed [OF chain_reach.processed [OF this demo_steps(1)] demo_steps(2)] demo_steps(3)]
  have "demo_events = ([] @ [demo_events ! 0]) @ [demo_events ! 1]" by (simp add: demo_events_def)
  with r show ?thesis by (simp add: numeral_3_eq_3)
qed

lemma ProcessEvent_hashed: "hashed_event (snd (snd (ProcessEvent C rnd now ic e))) = hashed_event e"
  by (auto simp: ProcessEvent_def Let_def split: sum.split)

lemma hashed_eventD: "hashed_event a = hashed_event b \<Longrightarrow> ae_ID a = ae_ID b \<and> ae_Timestamp a = ae_Timestamp b"
  by (simp add: hashed_event_def)

lemma demo_event_ids: "map ae_ID (recent demo_events) = [''a'', ''c'']" "recent demo_events = demo_events"
  by (simp_all add: demo_events_def recent_def MaxChainLength_def hashed_eventD [OF ProcessEvent_hashed]
      demo_event_def Build_def SetRiskLevel_def WithResult_def WithAction_def WithEventType_def NewEventBuilder_def Let_def)

lemma in_set_enumerate_set: "(i, e) \<in> set (enumerate k xs) \<Longrightarrow> e \<in> set xs"
  by (metis map_snd_enumerate image_eqI list.set_map snd_conv)

section \<open>Properties\<close>

text \<open>C15: After any sequence of calls of \<open>ProcessEvent\<close> on a new chain, from any goroutine and with failures in
  between, the links are those of the last ten thousand processed events, in order: each has the hashes and
  the signature that its event was given, its own hash and signature are right, and its sequence number is
  greater than those before (below 2^64 calls). Each event is linked to the hash of the one before and the
  first to the genesis hash.\<close>

theorem chain_invariant:
  assumes "chain_reach C generate n events ic" "crypto_ok C" "n < 2 ^ 64"
  shows "list_all2 link_of (recent events) (ic_chain ic) \<and> list_all (link_ok C ic) (ic_chain ic) \<and> linked C events
    \<and> list_all (\<lambda>e. calculateEventHash C e = Inr (ae_Hash e)) events
    \<and> sorted_wrt (<) (map lk_SequenceNumber (ic_chain ic)) \<and> length (ic_chain ic) \<le> MaxChainLength"
proof -
  have inv: "chain_inv C n events ic" using chain_reach_inv [OF assms(1,2)] .
  then have "length (ic_chain ic) = length (recent events)" by (auto simp: chain_inv_def dest: list_all2_lengthD)
  moreover have "length (recent events) \<le> MaxChainLength" by (simp add: recent_def)
  ultimately show ?thesis using inv assms(3) by (simp add: chain_inv_def list_all_iff)
qed

theorem chain_invariant_witness:
  "list_all2 link_of demo_events (ic_chain demo_chain3) \<and> linked demo_crypto demo_events
   \<and> sorted_wrt (<) (map lk_SequenceNumber (ic_chain demo_chain3))"
  using chain_invariant [OF demo_reach demo_crypto_ok] by (simp add: demo_event_ids)

text \<open>\<open>VerifyChain\<close> rejects every chain with a link: it expects the first link to follow the empty hash, but
  \<open>ProcessEvent\<close> gave it the genesis hash, or the hash of an event that has been cut off.\<close>

theorem VerifyChain_rejects:
  assumes "chain_reach C generate n events ic" "crypto_ok C" "events \<noteq> []"
  shows "\<not> rp_Valid (VerifyChain C now ic)
    \<and> (\<exists>b \<in> set (rp_ChainBreaks (VerifyChain C now ic)). cb_EventID b = ae_ID (hd (recent events)) \<and> cb_Expected b = [])"
proof -
  have inv: "chain_inv C n events ic" using chain_reach_inv [OF assms(1,2)] .
  obtain e es where r: "recent events = e # es" using assms(3) recent_not_empty by (metis neq_Nil_conv)
  then obtain link links where l: "ic_chain ic = link # links" "link_of e link" and en: "ic_enabled ic"
    using inv by (auto simp: chain_inv_def list_all2_Cons1)
  have "e \<in> set events" using r unfolding recent_def by (metis in_set_dropD list.set_intros(1))
  then have "lk_PreviousHash link \<noteq> []" using inv l(2) by (auto simp: chain_inv_def link_of_def list_all_iff)
  note broken = verify_link_break [OF this, of C ic 0]
  obtain r0 where v: "VerifyChain C now ic = verify_links C ic (Suc 0) (lk_ChainHash link) links (verify_link C ic 0 [] link r0)"
    using l en by (simp add: VerifyChain_def Let_def)
  obtain b where "b \<in> set (rp_ChainBreaks (VerifyChain C now ic))" "cb_EventID b = lk_EventID link" "cb_Expected b = []"
    using broken(2) [of r0] verify_links_breaks [of "verify_link C ic 0 [] link r0"] unfolding v by blast
  moreover have "\<not> rp_Valid (VerifyChain C now ic)" unfolding v by (rule verify_links_mono [OF broken(1)])
  ultimately show ?thesis using l(2) r by (auto simp: link_of_def)
qed

theorem VerifyChain_rejects_witness: "\<not> rp_Valid (VerifyChain demo_crypto 9 demo_chain3)"
  using VerifyChain_rejects [OF demo_reach demo_crypto_ok] by (simp add: demo_events_def)

text \<open>C16: With distinct identifiers, \<open>VerifyEvent\<close> accepts an event that carries the identifier of a kept one exactly if
  the digests of the two encodings agree. Severity, description, network and resource context are not part of
  what is encoded, so changes there are accepted. An identifier of no kept event is rejected.\<close>

theorem VerifyEvent_exact:
  assumes "chain_reach C generate n events ic" "crypto_ok C" "distinct (map ae_ID (recent events))" "e \<in> set (recent events)"
    "ae_ID f = ae_ID e" "cy_MarshalEvent C (hashed_event e) = Inr je" "cy_MarshalEvent C (hashed_event f) = Inr jf"
  shows "(VerifyEvent C ic f = None \<longleftrightarrow> cy_Sum256 C jf = cy_Sum256 C je)
    \<and> VerifyEvent C ic (e\<lparr>ae_Severity := s, ae_Description := d, ae_NetworkContext := nc, ae_ResourceContext := rc\<rparr>) = None
    \<and> (ae_ID g \<notin> ae_ID ` set (recent events) \<longrightarrow> VerifyEvent C ic g = Some (LinkNotFound (ae_ID g)))"
proof -
  note inv = chain_reach_inv [OF assms(1,2)]
  have "calculateEventHash C f = calculateEventHash C e \<longleftrightarrow> cy_Sum256 C jf = cy_Sum256 C je"
    using assms(6,7) hex_inj by (auto simp: calculateEventHash_def)
  moreover have "calculateEventHash C (e\<lparr>ae_Severity := s, ae_Description := d, ae_NetworkContext := nc, ae_ResourceContext := rc\<rparr>)
      = calculateEventHash C e" by (simp add: calculateEventHash_def hashed_event_def)
  ultimately show ?thesis
    using VerifyEvent_found [OF inv assms(3,4)] VerifyEvent_not_found [OF inv] assms(5) by simp
qed

theorem VerifyEvent_exact_witness:
  "VerifyEvent demo_crypto demo_chain3 (hd demo_events\<lparr>ae_Result := ''failure''\<rparr>) \<noteq> None
   \<and> VerifyEvent demo_crypto demo_chain3 (hd demo_events\<lparr>ae_Severity := 7, ae_Description := [], ae_NetworkContext := None, ae_ResourceContext := None\<rparr>) = None"
proof -
  let ?e = "hd demo_events" and ?f = "hd demo_events\<lparr>ae_Result := ''failure''\<rparr>"
  have h: "hashed_event ?e = hashed_event (demo_event ''a'' ''read'')" by (simp add: demo_events_def ProcessEvent_hashed)
  have r: "ae_ID ?e = ''a''" "ae_Action ?e = ''read''" "ae_Result ?e = ''success''"
    using h by (simp_all add: hashed_event_def demo_event_def Build_def SetRiskLevel_def WithResult_def WithAction_def WithEventType_def
        NewEventBuilder_def ResultSuccess_def Let_def)
  have "cy_MarshalEvent demo_crypto (hashed_event ?e) = Inr ''areadsuccess''" "cy_MarshalEvent demo_crypto (hashed_event ?f) = Inr ''areadfailure''"
    using r by (simp_all add: demo_crypto_def hashed_event_def)
  moreover have "cy_Sum256 demo_crypto ''areadfailure'' \<noteq> cy_Sum256 demo_crypto ''areadsuccess''" by (simp add: demo_crypto_def)
  ultimately show ?thesis
    using VerifyEvent_exact [OF demo_reach demo_crypto_ok, of ?e ?f] demo_event_ids by (simp add: demo_events_def)
qed

text \<open>C17: \<open>ValidateEventChain\<close> accepts a list of events exactly if each has both hashes, was at most five minutes old
  when its turn came (an event from the future is not rejected) and follows the hash of the one before. It
  gives one result per event. The first event may follow any hash.\<close>

theorem ValidateEventChain_exact:
  "(vt_IsValid (ValidateEventChain now events) \<longleftrightarrow>
      list_all (\<lambda>(i, e). ae_Hash e \<noteq> [] \<and> ae_PreviousHash e \<noteq> [] \<and> time_Sub (now i) (ae_Timestamp e) \<le> 5 * Minute) (enumerate 0 events)
      \<and> successively (\<lambda>a b. ae_PreviousHash b = ae_Hash a) events)
   \<and> length (vt_EventResults (ValidateEventChain now events)) = length events"
  unfolding ValidateEventChain_def check_gaps_valid check_gaps_results validate_events_valid validate_events_results
  by (auto simp: event_fresh_def list_all_iff)

text \<open>Of the events that a chain has processed, \<open>VerifyEventChain\<close> accepts any selection in any order: removed and
  exchanged events are not noticed. \<open>ValidateEventChain\<close>, given all of them, accepts them exactly if they are
  fresh.\<close>

theorem processed_events_accepted:
  assumes "chain_reach C generate n events ic" "crypto_ok C" "set selection \<subseteq> set events"
  shows "VerifyEventChain C ic selection
    \<and> (vt_IsValid (ValidateEventChain now events) \<longleftrightarrow>
         list_all (\<lambda>(i, e). time_Sub (now i) (ae_Timestamp e) \<le> 5 * Minute) (enumerate 0 events))"
proof -
  have inv: "list_all (\<lambda>e. calculateEventHash C e = Inr (ae_Hash e) \<and> ae_PreviousHash e \<noteq> []) events" "linked C events" "ic_enabled ic"
    using chain_reach_inv [OF assms(1,2)] by (simp_all add: chain_inv_def)
  then have e: "calculateEventHash C e = Inr (ae_Hash e)" "ae_Hash e \<noteq> []" "ae_PreviousHash e \<noteq> []" if "e \<in> set events" for e
    using that eventHash_not_empty [OF assms(2), of e] by (auto simp: list_all_iff)
  have "VerifyEventChain C ic selection"
    using e assms(3) inv(3) by (auto simp: VerifyEventChain_def list_all_iff)
  moreover have "vt_IsValid (ValidateEventChain now events) \<longleftrightarrow>
      list_all (\<lambda>(i, e). time_Sub (now i) (ae_Timestamp e) \<le> 5 * Minute) (enumerate 0 events)"
    unfolding ValidateEventChain_def check_gaps_valid validate_events_valid
    using inv(2) e(2,3) in_set_enumerate_set by (fastforce simp: linked_def list_all_iff event_fresh_def)
  ultimately show ?thesis ..
qed

theorem processed_events_accepted_witness: "VerifyEventChain demo_crypto demo_chain3 (rev demo_events)"
  using processed_events_accepted [OF demo_reach demo_crypto_ok, of "rev demo_events"] by simp

text \<open>The reconstructed timeline has one entry per event, in the order of the time stamps.\<close>

theorem ReconstructTimeline_sorts:
  "sorted (map tl_Timestamp (ReconstructTimeline events))
   \<and> mset (ReconstructTimeline events) =
       image_mset (\<lambda>e. \<lparr>tl_Timestamp = ae_Timestamp e, tl_EventID = ae_ID e, tl_Action = ae_Action e\<rparr>) (mset events)"
proof -
  let ?t = "map (\<lambda>e. \<lparr>tl_Timestamp = ae_Timestamp e, tl_EventID = ae_ID e, tl_Action = ae_Action e\<rparr>) events"
  have r: "ReconstructTimeline events = fold (\<lambda>i. fold (exchange i) [i + 1..<length ?t]) [0..<length ?t] ?t"
    by (simp add: ReconstructTimeline_def)
  have "timeline_upto (length ?t) (ReconstructTimeline events) \<and> mset (ReconstructTimeline events) = mset ?t
      \<and> length (ReconstructTimeline events) = length ?t"
    unfolding r by (rule outer_loop [OF order_refl])
  then show ?thesis by (auto simp: timeline_upto_def)
qed

text \<open>A signed event verifies, with any configuration of the verifier: the key takes no part, so that a signature can be
  made without it. A change of the severity, user, result or description is not noticed.\<close>

theorem signature_without_key:
  assumes "crypto_ok C"
  shows "VerifySignature C es (SignEvent C es' e)
    \<and> VerifySignature C es ((SignEvent C es' e)\<lparr>ae_Severity := s, ae_UserContext := u, ae_Result := r, ae_Description := d\<rparr>)
    \<and> (VerifySignature C es f \<longleftrightarrow> ae_Signature f = event_signature C f)"
proof -
  have "event_signature C e \<noteq> []" for e using hex_not_empty [OF assms] by (simp add: event_signature_def)
  moreover have "event_signature C (e\<lparr>ae_Signature := x, ae_IntegrityFields := y\<rparr>) = event_signature C e"
    "event_signature C (e\<lparr>ae_Signature := x, ae_IntegrityFields := y, ae_Severity := s, ae_UserContext := u, ae_Result := r, ae_Description := d\<rparr>)
      = event_signature C e" for x y by (simp_all add: event_signature_def)
  ultimately show ?thesis by (simp add: VerifySignature_def SignEvent_def) (metis)
qed

theorem signature_without_key_witness:
  "VerifySignature demo_crypto \<lparr>sgc_KeyType = ''hmac'', sgc_SecretKey = ''other''\<rparr>
     (SignEvent demo_crypto \<lparr>sgc_KeyType = ''hmac'', sgc_SecretKey = ''secret''\<rparr> (demo_event ''a'' ''read''))"
  using signature_without_key [OF demo_crypto_ok] by blast

end
