(* ===== verification/Audit_System.thy ===== *)
theory Audit_System
  imports Audit_Integrity
begin

text \<open>
  The audit system (\<open>pkg/audit/audit_system.go\<close>): acceptance of events into a bounded queue, batches, flushes by
  size, by time and at the end, and the compliance metadata. The backends and the compliance logger are
  arguments, state-passing functions over their own states. The goroutines are the threads of a step
  relation; the events are passed by value, since nothing changes an event after it has been queued.
\<close>

section \<open>Model\<close>

subsection \<open>Configuration and state\<close>

definition MaxAuditQueueSize :: int where "MaxAuditQueueSize = 10000"
definition DefaultBatchSize :: int where "DefaultBatchSize = 100"
definition DefaultFlushInterval :: duration where "DefaultFlushInterval = 10 * Second"
definition AuditFormatVersion :: string where "AuditFormatVersion = ''1.0''"

record 'f AuditSystemConfig =
  ac_Enabled :: bool
  ac_EnabledSources :: "string list"
  ac_RetentionDays :: int
  ac_LogLevel :: Severity
  ac_BatchSize :: int
  ac_FlushInterval :: duration
  ac_MaxQueueSize :: int
  ac_EnableIntegrity :: bool
  ac_ComplianceMode :: "ComplianceStandard list"
  ac_Backends :: "'f list"

definition DefaultAuditConfig :: "'f AuditSystemConfig" where
  "DefaultAuditConfig = \<lparr>ac_Enabled = True, ac_EnabledSources = [''kubernetes'', ''oran'', ''nephio''], ac_RetentionDays = 365,
     ac_LogLevel = SeverityInfo, ac_BatchSize = DefaultBatchSize, ac_FlushInterval = DefaultFlushInterval,
     ac_MaxQueueSize = MaxAuditQueueSize, ac_EnableIntegrity = True, ac_ComplianceMode = [ComplianceSOC2, ComplianceISO27001], ac_Backends = []\<rparr>"

text \<open>The buffered channel is a list with its capacity; \<open>as_cancelled\<close> is the state of the context.\<close>

record ('f, 'k, 'p, 'b, 'c) AuditSystem =
  as_config :: "'f AuditSystemConfig"
  as_backends :: "'b list"
  as_eventQueue :: "AuditEvent list"
  as_queueCapacity :: nat
  as_batchBuffer :: "AuditEvent list"
  as_running :: bool
  as_cancelled :: bool
  as_integrityChain :: "('k, 'p) IntegrityChain option"
  as_complianceLogger :: 'c
  as_lastFlush :: time
  as_eventsReceived :: int
  as_eventsDropped :: int

record AuditStats =
  st_EventsReceived :: int
  st_EventsDropped :: int
  st_QueueSize :: int
  st_BackendCount :: int
  st_LastFlushTime :: time
  st_IntegrityEnabled :: bool
  st_ComplianceMode :: "ComplianceStandard list"

text \<open>What the system calls of the backends and of the compliance logger.\<close>

record ('f, 'b, 'c) Sinks =
  sk_NewBackend :: "'f \<Rightarrow> string + 'b"
  sk_WriteEvents :: "'b \<Rightarrow> AuditEvent list \<Rightarrow> string option \<times> 'b"
  sk_Close :: "'b \<Rightarrow> string option \<times> 'b"
  sk_NewLogger :: "ComplianceStandard list \<Rightarrow> 'c"
  sk_ProcessEvent :: "'c \<Rightarrow> AuditEvent \<Rightarrow> 'c"

datatype audit_error =
    InvalidMaxQueueSize int | InvalidBatchSize int | ChainInitFailed integrity_error | AlreadyRunning
  | SystemNil | InvalidAuditEvent event_error | QueueFull

subsection \<open>Construction, start and statistics\<close>

definition NewAuditSystem ::
    "('k, 'p) Crypto \<Rightarrow> (int \<Rightarrow> string + 'k) \<Rightarrow> ('f, 'b, 'c) Sinks \<Rightarrow> time \<Rightarrow> 'f AuditSystemConfig option
       \<Rightarrow> audit_error + ('f, 'k, 'p, 'b, 'c) AuditSystem" where
  "NewAuditSystem C generate K now config_ptr =
     (let config = (case config_ptr of None \<Rightarrow> DefaultAuditConfig | Some c \<Rightarrow> c)
      in if ac_MaxQueueSize config < 0 then Inl (InvalidMaxQueueSize (ac_MaxQueueSize config))
         else if ac_BatchSize config < 0 then Inl (InvalidBatchSize (ac_BatchSize config))
         else let maxQueueSize = (if ac_MaxQueueSize config = 0 then MaxAuditQueueSize else ac_MaxQueueSize config)
              in case (if ac_EnableIntegrity config then map_sum id Some (NewIntegrityChain C generate) else Inr None) of
                   Inl err \<Rightarrow> Inl (ChainInitFailed err)
                 | Inr chain \<Rightarrow>
                     Inr \<lparr>as_config = config,
                          as_backends = List.map_filter (\<lambda>bc. case sk_NewBackend K bc of Inl _ \<Rightarrow> None | Inr b \<Rightarrow> Some b) (ac_Backends config),
                          as_eventQueue = [], as_queueCapacity = nat maxQueueSize, as_batchBuffer = [], as_running = False, as_cancelled = False,
                          as_integrityChain = chain, as_complianceLogger = sk_NewLogger K (ac_ComplianceMode config),
                          as_lastFlush = now, as_eventsReceived = 0, as_eventsDropped = 0\<rparr>)"

text \<open>\<open>Start\<close>; the second component of the result says whether the goroutines have been started.\<close>

definition AuditSystem_Start ::
    "('f, 'k, 'p, 'b, 'c) AuditSystem \<Rightarrow> audit_error option \<times> bool \<times> ('f, 'k, 'p, 'b, 'c) AuditSystem" where
  "AuditSystem_Start as =
     (if \<not> ac_Enabled (as_config as) then (None, False, as)
      else if as_running as then (Some AlreadyRunning, False, as)
      else (None, True, as\<lparr>as_running := True\<rparr>))"

definition AuditSystem_GetStats :: "('f, 'k, 'p, 'b, 'c) AuditSystem \<Rightarrow> AuditStats" where
  "AuditSystem_GetStats as = \<lparr>st_EventsReceived = as_eventsReceived as, st_EventsDropped = as_eventsDropped as,
     st_QueueSize = int (length (as_eventQueue as)), st_BackendCount = int (length (as_backends as)), st_LastFlushTime = as_lastFlush as,
     st_IntegrityEnabled = ac_EnableIntegrity (as_config as), st_ComplianceMode = ac_ComplianceMode (as_config as)\<rparr>"

subsection \<open>Enrichment\<close>

definition getSOC2ControlID :: "EventType \<Rightarrow> string" where
  "getSOC2ControlID t = (if t = ''authentication'' then ''CC6.1'' else if t = ''authorization'' then ''CC6.2''
     else if t = ''data_access'' then ''CC6.7'' else ''CC1.4'')"

definition getSOC2TrustService :: "EventType \<Rightarrow> string" where
  "getSOC2TrustService t = (if t = ''authentication'' \<or> t = ''authorization'' then ''Security''
     else if t = ''data_access'' then ''Confidentiality'' else if t = ''system_change'' then ''Processing Integrity'' else ''Security'')"

definition getISO27001Control :: "EventType \<Rightarrow> string" where
  "getISO27001Control t = (if t = ''authentication'' then ''A.9.2.1'' else if t = ''authorization'' then ''A.9.2.2''
     else if t = ''data_access'' then ''A.12.4.1'' else ''A.12.1.1'')"

definition getISO27001Annex :: "EventType \<Rightarrow> string" where
  "getISO27001Annex t = (if t = ''authentication'' \<or> t = ''authorization'' then ''A.9 - Access Control''
     else if t = ''data_access'' then ''A.12 - Operations Security'' else ''A.12 - Operations Security'')"

definition getPCIRequirement :: "EventType \<Rightarrow> string" where
  "getPCIRequirement t = (if t = ''authentication'' then ''8.1.1'' else if t = ''authorization'' then ''7.1.1''
     else if t = ''data_access'' then ''10.2.1'' else ''10.1'')"

definition getPCIDataClassification :: "AuditEvent \<Rightarrow> string" where
  "getPCIDataClassification event =
     (case ae_Data event of
        None \<Rightarrow> ''Non-CHD''
      | Some d \<Rightarrow> if fmlookup d ''cardholder_data'' \<noteq> None then ''Cardholder Data''
                  else if fmlookup d ''sensitive_auth_data'' \<noteq> None then ''Sensitive Authentication Data''
                  else ''Non-CHD'')"

definition addMetadata :: "string \<Rightarrow> string \<Rightarrow> AuditEvent \<Rightarrow> AuditEvent" where
  "addMetadata key val event =
     event\<lparr>ae_ComplianceMetadata := Some (fmupd key (Json_string val)
        (case ae_ComplianceMetadata event of None \<Rightarrow> fmempty | Some m \<Rightarrow> m))\<rparr>"

definition addSOC2Metadata :: "AuditEvent \<Rightarrow> AuditEvent" where
  "addSOC2Metadata event = addMetadata ''soc2_trust_service'' (getSOC2TrustService (ae_EventType event))
     (addMetadata ''soc2_control_id'' (getSOC2ControlID (ae_EventType event)) event)"

definition addISO27001Metadata :: "AuditEvent \<Rightarrow> AuditEvent" where
  "addISO27001Metadata event = addMetadata ''iso27001_annex'' (getISO27001Annex (ae_EventType event))
     (addMetadata ''iso27001_control'' (getISO27001Control (ae_EventType event)) event)"

definition addPCIDSSMetadata :: "AuditEvent \<Rightarrow> AuditEvent" where
  "addPCIDSSMetadata event = addMetadata ''pci_data_classification'' (getPCIDataClassification event)
     (addMetadata ''pci_requirement'' (getPCIRequirement (ae_EventType event)) event)"

definition add_standard :: "ComplianceStandard \<Rightarrow> AuditEvent \<Rightarrow> AuditEvent" where
  "add_standard standard event =
     (if standard = ComplianceSOC2 then addSOC2Metadata event
      else if standard = ComplianceISO27001 then addISO27001Metadata event
      else if standard = CompliancePCIDSS then addPCIDSSMetadata event
      else event)"

definition enrichEvent :: "string \<Rightarrow> time \<Rightarrow> ComplianceStandard list \<Rightarrow> AuditEvent \<Rightarrow> AuditEvent" where
  "enrichEvent newID now standards event =
     (let e1 = (if ae_ID event = [] then event\<lparr>ae_ID := newID\<rparr> else event);
          e2 = (if ae_Timestamp e1 = zero_time then e1\<lparr>ae_Timestamp := now\<rparr> else e1);
          e3 = (if ae_Version e2 = [] then e2\<lparr>ae_Version := AuditFormatVersion\<rparr> else e2);
          sc = (case ae_SystemContext e3 of None \<Rightarrow> zeroSystemContext | Some sc \<Rightarrow> sc);
          e4 = e3\<lparr>ae_SystemContext := Some (sc\<lparr>sx_Hostname := ''nephoran-operator'', sx_ProcessID := 1, sx_ThreadID := 1\<rparr>)\<rparr>
      in fold add_standard standards e4)"

subsection \<open>Acceptance\<close>

text \<open>The parameters of one call of \<open>LogEvent\<close>: the randomness, a fresh identifier, the readings of the clock.\<close>

record call_env =
  ce_rnd :: nat
  ce_newID :: string
  ce_now :: time
  ce_now1 :: time

datatype log_outcome = Ignored | Rejected audit_error | Ready AuditEvent

text \<open>\<open>LogEvent\<close> up to the attempt to put the event on the queue, and that attempt.\<close>

definition LogEvent_process ::
    "('k, 'p) Crypto \<Rightarrow> (string \<Rightarrow> bool) \<Rightarrow> call_env \<Rightarrow> ('f, 'k, 'p, 'b, 'c) AuditSystem \<Rightarrow> AuditEvent
       \<Rightarrow> log_outcome \<times> ('f, 'k, 'p, 'b, 'c) AuditSystem" where
  "LogEvent_process C isValidUUID env as event =
     (if \<not> ac_Enabled (as_config as) \<or> \<not> as_running as then (Ignored, as)
      else if ae_Severity event > ac_LogLevel (as_config as) then (Ignored, as)
      else let e1 = enrichEvent (ce_newID env) (ce_now env) (ac_ComplianceMode (as_config as)) event
           in case AuditEvent_Validate isValidUUID e1 of
                Some err \<Rightarrow> (Rejected (InvalidAuditEvent err), as)
              | None \<Rightarrow>
                  (case as_integrityChain as of
                     None \<Rightarrow> (Ready e1, as)
                   | Some ic \<Rightarrow>
                       (case ProcessEvent C (ce_rnd env) (ce_now1 env) ic e1 of
                          (_, ic1, e2) \<Rightarrow> (Ready e2, as\<lparr>as_integrityChain := Some ic1\<rparr>))))"

definition LogEvent_enqueue ::
    "AuditEvent \<Rightarrow> ('f, 'k, 'p, 'b, 'c) AuditSystem \<Rightarrow> audit_error option \<times> ('f, 'k, 'p, 'b, 'c) AuditSystem" where
  "LogEvent_enqueue event as =
     (if length (as_eventQueue as) < as_queueCapacity as
      then (None, as\<lparr>as_eventQueue := as_eventQueue as @ [event], as_eventsReceived := inc64 (as_eventsReceived as)\<rparr>)
      else (Some QueueFull, as\<lparr>as_eventsDropped := inc64 (as_eventsDropped as)\<rparr>))"

definition LogEvent ::
    "('k, 'p) Crypto \<Rightarrow> (string \<Rightarrow> bool) \<Rightarrow> call_env \<Rightarrow> ('f, 'k, 'p, 'b, 'c) AuditSystem option \<Rightarrow> AuditEvent
       \<Rightarrow> audit_error option \<times> ('f, 'k, 'p, 'b, 'c) AuditSystem option" where
  "LogEvent C isValidUUID env as_ptr event =
     (case as_ptr of
        None \<Rightarrow> (Some SystemNil, None)
      | Some as \<Rightarrow>
          (case LogEvent_process C isValidUUID env as event of
             (Ignored, as1) \<Rightarrow> (None, Some as1)
           | (Rejected err, as1) \<Rightarrow> (Some err, Some as1)
           | (Ready e, as1) \<Rightarrow> map_prod id Some (LogEvent_enqueue e as1)))"

subsection \<open>Batches\<close>

text \<open>The critical section of \<open>processingLoop\<close>: the event joins the batch, and whether the batch is full.\<close>

definition append_batch :: "AuditEvent \<Rightarrow> ('f, 'k, 'p, 'b, 'c) AuditSystem \<Rightarrow> bool \<times> ('f, 'k, 'p, 'b, 'c) AuditSystem" where
  "append_batch event as =
     (let as1 = as\<lparr>as_batchBuffer := as_batchBuffer as @ [event]\<rparr>
      in (int (length (as_batchBuffer as1)) \<ge> ac_BatchSize (as_config as), as1))"

text \<open>The critical section of \<open>flushBatch\<close>, and what it does with the batch afterwards.\<close>

definition take_batch :: "('f, 'k, 'p, 'b, 'c) AuditSystem \<Rightarrow> AuditEvent list option \<times> ('f, 'k, 'p, 'b, 'c) AuditSystem" where
  "take_batch as = (if as_batchBuffer as = [] then (None, as) else (Some (as_batchBuffer as), as\<lparr>as_batchBuffer := []\<rparr>))"

definition write_batch ::
    "('f, 'b, 'c) Sinks \<Rightarrow> time \<Rightarrow> AuditEvent list \<Rightarrow> ('f, 'k, 'p, 'b, 'c) AuditSystem \<Rightarrow> ('f, 'k, 'p, 'b, 'c) AuditSystem" where
  "write_batch K now events as =
     as\<lparr>as_backends := map (\<lambda>backend. snd (sk_WriteEvents K backend events)) (as_backends as),
        as_complianceLogger := fold (\<lambda>event logger. sk_ProcessEvent K logger event) events (as_complianceLogger as),
        as_lastFlush := now\<rparr>"

definition flushBatch ::
    "('f, 'b, 'c) Sinks \<Rightarrow> time \<Rightarrow> ('f, 'k, 'p, 'b, 'c) AuditSystem \<Rightarrow> ('f, 'k, 'p, 'b, 'c) AuditSystem" where
  "flushBatch K now as =
     (case take_batch as of
        (None, as1) \<Rightarrow> as1
      | (Some events, as1) \<Rightarrow> write_batch K now events as1)"

definition stop_begin :: "('f, 'k, 'p, 'b, 'c) AuditSystem \<Rightarrow> ('f, 'k, 'p, 'b, 'c) AuditSystem" where
  "stop_begin as = as\<lparr>as_running := False, as_cancelled := True\<rparr>"

definition close_backends :: "('f, 'b, 'c) Sinks \<Rightarrow> ('f, 'k, 'p, 'b, 'c) AuditSystem \<Rightarrow> ('f, 'k, 'p, 'b, 'c) AuditSystem" where
  "close_backends K as = as\<lparr>as_backends := map (\<lambda>backend. snd (sk_Close K backend)) (as_backends as)\<rparr>"

subsection \<open>Goroutines\<close>

text \<open>The program counters of \<open>processingLoop\<close>, \<open>timerLoop\<close> and of one call of \<open>Stop\<close>. \<open>LoopFull\<close> and \<open>TimerFired\<close>
  are at the beginning of \<open>flushBatch\<close>, a \<open>Write\<close> is after its critical section. Every other goroutine may
  call \<open>LogEvent\<close>: \<open>wd_ready\<close> has the events of the calls that are about to use the queue.\<close>

datatype loop_pc = LoopSelect | LoopGot AuditEvent | LoopFull | LoopWrite "AuditEvent list" | LoopDone
datatype timer_pc = TimerSelect | TimerFired | TimerWrite "AuditEvent list" | TimerDone
datatype stop_pc = StopNone | StopWait | StopWrite "AuditEvent list" | StopClose | StopDone

text \<open>The system with its threads and a history: the events that were put on the queue, the batches in the order in
  which they were taken from the buffer, and those that have been given to the backends.\<close>

record ('f, 'k, 'p, 'b, 'c) world =
  wd_sys :: "('f, 'k, 'p, 'b, 'c) AuditSystem"
  wd_ready :: "AuditEvent list"
  wd_loop :: loop_pc
  wd_timer :: timer_pc
  wd_stop :: stop_pc
  wd_accepted :: "AuditEvent list"
  wd_taken :: "AuditEvent list list"
  wd_written :: "AuditEvent list list"

text \<open>\<open>flushBatch\<close> by a thread: \<open>idle\<close> moves it on, \<open>write\<close> lets it keep the batch.\<close>

definition begin_flush ::
    "(('f, 'k, 'p, 'b, 'c) world \<Rightarrow> ('f, 'k, 'p, 'b, 'c) world) \<Rightarrow> (AuditEvent list \<Rightarrow> ('f, 'k, 'p, 'b, 'c) world \<Rightarrow> ('f, 'k, 'p, 'b, 'c) world)
       \<Rightarrow> ('f, 'k, 'p, 'b, 'c) world \<Rightarrow> ('f, 'k, 'p, 'b, 'c) world" where
  "begin_flush idle write w =
     (case take_batch (wd_sys w) of
        (None, as1) \<Rightarrow> idle (w\<lparr>wd_sys := as1\<rparr>)
      | (Some events, as1) \<Rightarrow> write events (w\<lparr>wd_sys := as1, wd_taken := wd_taken w @ [events]\<rparr>))"

definition end_flush ::
    "('f, 'b, 'c) Sinks \<Rightarrow> time \<Rightarrow> AuditEvent list \<Rightarrow> ('f, 'k, 'p, 'b, 'c) world \<Rightarrow> ('f, 'k, 'p, 'b, 'c) world" where
  "end_flush K now events w = w\<lparr>wd_sys := write_batch K now events (wd_sys w), wd_written := wd_written w @ [events]\<rparr>"

inductive audit_step ::
    "('k, 'p) Crypto \<Rightarrow> (string \<Rightarrow> bool) \<Rightarrow> ('f, 'b, 'c) Sinks \<Rightarrow> ('f, 'k, 'p, 'b, 'c) world \<Rightarrow> ('f, 'k, 'p, 'b, 'c) world \<Rightarrow> bool"
  for C isValidUUID K where
  log_process: "LogEvent_process C isValidUUID env (wd_sys w) event = (Ready e, as1) \<Longrightarrow>
    audit_step C isValidUUID K w (w\<lparr>wd_sys := as1, wd_ready := e # wd_ready w\<rparr>)"
| log_accept: "e \<in> set (wd_ready w) \<Longrightarrow> LogEvent_enqueue e (wd_sys w) = (None, as1) \<Longrightarrow>
    audit_step C isValidUUID K w (w\<lparr>wd_sys := as1, wd_ready := remove1 e (wd_ready w), wd_accepted := wd_accepted w @ [e]\<rparr>)"
| log_drop: "e \<in> set (wd_ready w) \<Longrightarrow> LogEvent_enqueue e (wd_sys w) = (Some err, as1) \<Longrightarrow>
    audit_step C isValidUUID K w (w\<lparr>wd_sys := as1, wd_ready := remove1 e (wd_ready w)\<rparr>)"
| loop_receive: "wd_loop w = LoopSelect \<Longrightarrow> as_eventQueue (wd_sys w) = e # q \<Longrightarrow>
    audit_step C isValidUUID K w (w\<lparr>wd_sys := (wd_sys w)\<lparr>as_eventQueue := q\<rparr>, wd_loop := LoopGot e\<rparr>)"
| loop_append: "wd_loop w = LoopGot e \<Longrightarrow> append_batch e (wd_sys w) = (full, as1) \<Longrightarrow>
    audit_step C isValidUUID K w (w\<lparr>wd_sys := as1, wd_loop := (if full then LoopFull else LoopSelect)\<rparr>)"
| loop_flush: "wd_loop w = LoopFull \<Longrightarrow>
    audit_step C isValidUUID K w (begin_flush (wd_loop_update (\<lambda>_. LoopSelect)) (\<lambda>events. wd_loop_update (\<lambda>_. LoopWrite events)) w)"
| loop_write: "wd_loop w = LoopWrite events \<Longrightarrow> audit_step C isValidUUID K w ((end_flush K now events w)\<lparr>wd_loop := LoopSelect\<rparr>)"
| loop_done: "wd_loop w = LoopSelect \<Longrightarrow> as_cancelled (wd_sys w) \<Longrightarrow> audit_step C isValidUUID K w (w\<lparr>wd_loop := LoopDone\<rparr>)"
| timer_fire: "wd_timer w = TimerSelect \<Longrightarrow> audit_step C isValidUUID K w (w\<lparr>wd_timer := TimerFired\<rparr>)"
| timer_flush: "wd_timer w = TimerFired \<Longrightarrow>
    audit_step C isValidUUID K w (begin_flush (wd_timer_update (\<lambda>_. TimerSelect)) (\<lambda>events. wd_timer_update (\<lambda>_. TimerWrite events)) w)"
| timer_write: "wd_timer w = TimerWrite events \<Longrightarrow> audit_step C isValidUUID K w ((end_flush K now events w)\<lparr>wd_timer := TimerSelect\<rparr>)"
| timer_done: "wd_timer w = TimerSelect \<Longrightarrow> as_cancelled (wd_sys w) \<Longrightarrow> audit_step C isValidUUID K w (w\<lparr>wd_timer := TimerDone\<rparr>)"
| stop_call: "wd_stop w = StopNone \<Longrightarrow> as_running (wd_sys w) \<Longrightarrow>
    audit_step C isValidUUID K w (w\<lparr>wd_sys := stop_begin (wd_sys w), wd_stop := StopWait\<rparr>)"
| stop_flush: "wd_stop w = StopWait \<Longrightarrow> wd_loop w = LoopDone \<Longrightarrow> wd_timer w = TimerDone \<Longrightarrow>
    audit_step C isValidUUID K w (begin_flush (wd_stop_update (\<lambda>_. StopClose)) (\<lambda>events. wd_stop_update (\<lambda>_. StopWrite events)) w)"
| stop_write: "wd_stop w = StopWrite events \<Longrightarrow> audit_step C isValidUUID K w ((end_flush K now events w)\<lparr>wd_stop := StopClose\<rparr>)"
| stop_close: "wd_stop w = StopClose \<Longrightarrow>
    audit_step C isValidUUID K w (w\<lparr>wd_sys := close_backends K (wd_sys w), wd_stop := StopDone\<rparr>)"

definition started :: "('f, 'k, 'p, 'b, 'c) AuditSystem \<Rightarrow> ('f, 'k, 'p, 'b, 'c) world" where
  "started as = \<lparr>wd_sys = as, wd_ready = [], wd_loop = LoopSelect, wd_timer = TimerSelect, wd_stop = StopNone, wd_accepted = [],
     wd_taken = [], wd_written = []\<rparr>"

inductive audit_reach ::
    "('k, 'p) Crypto \<Rightarrow> (int \<Rightarrow> string + 'k) \<Rightarrow> (string \<Rightarrow> bool) \<Rightarrow> ('f, 'b, 'c) Sinks \<Rightarrow> ('f, 'k, 'p, 'b, 'c) world \<Rightarrow> bool"
  for C generate isValidUUID K where
  start: "NewAuditSystem C generate K now config = Inr as \<Longrightarrow> AuditSystem_Start as = (None, True, as1) \<Longrightarrow>
    audit_reach C generate isValidUUID K (started as1)"
| step: "audit_reach C generate isValidUUID K w \<Longrightarrow> audit_step C isValidUUID K w w' \<Longrightarrow> audit_reach C generate isValidUUID K w'"

section \<open>Lemmas\<close>

subsection \<open>The life of an event\<close>

text \<open>The event that the loop holds and the batches that are being written.\<close>

definition in_hand :: "loop_pc \<Rightarrow> AuditEvent list" where
  "in_hand pc = (case pc of LoopGot e \<Rightarrow> [e] | _ \<Rightarrow> [])"

definition in_flight :: "('f, 'k, 'p, 'b, 'c) world \<Rightarrow> AuditEvent list multiset" where
  "in_flight w = (case wd_loop w of LoopWrite b \<Rightarrow> {#b#} | _ \<Rightarrow> {#})
     + (case wd_timer w of TimerWrite b \<Rightarrow> {#b#} | _ \<Rightarrow> {#}) + (case wd_stop w of StopWrite b \<Rightarrow> {#b#} | _ \<Rightarrow> {#})"

definition audit_inv :: "('f, 'k, 'p, 'b, 'c) world \<Rightarrow> bool" where
  "audit_inv w \<longleftrightarrow> wd_accepted w = concat (wd_taken w) @ as_batchBuffer (wd_sys w) @ in_hand (wd_loop w) @ as_eventQueue (wd_sys w)
     \<and> mset (wd_taken w) = mset (wd_written w) + in_flight w
     \<and> length (as_eventQueue (wd_sys w)) \<le> as_queueCapacity (wd_sys w)"

definition stop_inv :: "('f, 'k, 'p, 'b, 'c) world \<Rightarrow> bool" where
  "stop_inv w \<longleftrightarrow> (wd_stop w \<in> {StopNone, StopWait} \<or> wd_loop w = LoopDone \<and> wd_timer w = TimerDone \<and> as_batchBuffer (wd_sys w) = [])
     \<and> (as_running (wd_sys w) \<longleftrightarrow> wd_stop w = StopNone) \<and> (as_cancelled (wd_sys w) \<longleftrightarrow> wd_stop w \<noteq> StopNone)"

definition batch_inv :: "('f, 'k, 'p, 'b, 'c) world \<Rightarrow> bool" where
  "batch_inv w \<longleftrightarrow> (let m = max 1 (ac_BatchSize (as_config (wd_sys w)))
     in list_all (\<lambda>b. b \<noteq> [] \<and> int (length b) \<le> m) (wd_taken w) \<and> int (length (as_batchBuffer (wd_sys w))) \<le> m
        \<and> (wd_loop w \<noteq> LoopFull \<longrightarrow> int (length (as_batchBuffer (wd_sys w))) < m))"

lemmas audit_defs = LogEvent_enqueue_def append_batch_def take_batch_def write_batch_def stop_begin_def close_backends_def
  begin_flush_def end_flush_def in_hand_def in_flight_def Let_def

lemma LogEvent_process_frame:
  assumes "LogEvent_process C isValidUUID env as event = (r, as1)"
  shows "as_eventQueue as1 = as_eventQueue as" "as_batchBuffer as1 = as_batchBuffer as" "as_queueCapacity as1 = as_queueCapacity as"
    "as_config as1 = as_config as" "as_running as1 = as_running as" "as_cancelled as1 = as_cancelled as"
  using assms by (auto simp: LogEvent_process_def Let_def split: if_splits option.splits prod.splits)

lemma audit_inv_step: "audit_step C isValidUUID K w w' \<Longrightarrow> audit_inv w \<Longrightarrow> audit_inv w'"
proof (induction rule: audit_step.induct)
  case (log_process env w event e as1)
  then show ?case by (simp add: audit_inv_def in_flight_def LogEvent_process_frame)
qed (auto simp: audit_inv_def audit_defs split: if_splits)

lemma stop_inv_step: "audit_step C isValidUUID K w w' \<Longrightarrow> stop_inv w \<Longrightarrow> stop_inv w'"
proof (induction rule: audit_step.induct)
  case (log_process env w event e as1)
  then show ?case by (simp add: stop_inv_def LogEvent_process_frame)
qed (auto simp: stop_inv_def audit_defs split: if_splits)

lemma batch_inv_step: "audit_step C isValidUUID K w w' \<Longrightarrow> batch_inv w \<Longrightarrow> batch_inv w'"
proof (induction rule: audit_step.induct)
  case (log_process env w event e as1)
  then show ?case by (simp add: batch_inv_def LogEvent_process_frame)
qed (auto simp: batch_inv_def audit_defs split: if_splits)

text \<open>What the backends and the compliance logger have been given.\<close>

definition initial_backends :: "('f, 'b, 'c) Sinks \<Rightarrow> 'f AuditSystemConfig \<Rightarrow> 'b list" where
  "initial_backends K config = List.map_filter (\<lambda>bc. case sk_NewBackend K bc of Inl _ \<Rightarrow> None | Inr b \<Rightarrow> Some b) (ac_Backends config)"

definition log_events :: "('f, 'b, 'c) Sinks \<Rightarrow> AuditEvent list \<Rightarrow> 'c \<Rightarrow> 'c" where
  "log_events K = fold (\<lambda>event logger. sk_ProcessEvent K logger event)"

definition write_batches :: "('f, 'b, 'c) Sinks \<Rightarrow> AuditEvent list list \<Rightarrow> 'b \<Rightarrow> 'b" where
  "write_batches K = fold (\<lambda>batch backend. snd (sk_WriteEvents K backend batch))"

definition sink_inv :: "('f, 'b, 'c) Sinks \<Rightarrow> ('f, 'k, 'p, 'b, 'c) world \<Rightarrow> bool" where
  "sink_inv K w \<longleftrightarrow>
     as_complianceLogger (wd_sys w) = log_events K (concat (wd_written w)) (sk_NewLogger K (ac_ComplianceMode (as_config (wd_sys w))))
     \<and> as_backends (wd_sys w) = map ((if wd_stop w = StopDone then snd \<circ> sk_Close K else id) \<circ> write_batches K (wd_written w))
         (initial_backends K (as_config (wd_sys w)))"

lemma LogEvent_process_sinks:
  assumes "LogEvent_process C isValidUUID env as event = (r, as1)"
  shows "as_backends as1 = as_backends as" "as_complianceLogger as1 = as_complianceLogger as"
  using assms by (auto simp: LogEvent_process_def Let_def split: if_splits option.splits prod.splits)

lemma sink_inv_step: "audit_step C isValidUUID K w w' \<Longrightarrow> stop_inv w \<Longrightarrow> sink_inv K w \<Longrightarrow> sink_inv K w'"
proof (induction rule: audit_step.induct)
  case (log_process env w event e as1)
  then show ?case by (simp add: sink_inv_def LogEvent_process_frame LogEvent_process_sinks)
qed (auto simp: sink_inv_def stop_inv_def audit_defs log_events_def write_batches_def split: if_splits)

text \<open>A new system that has been started.\<close>

lemma started_inv:
  assumes "NewAuditSystem C generate K now config = Inr as" "AuditSystem_Start as = (None, True, as1)"
  shows "audit_inv (started as1) \<and> stop_inv (started as1) \<and> batch_inv (started as1) \<and> sink_inv K (started as1)"
proof -
  have n: "as_eventQueue as = []" "as_batchBuffer as = []" "\<not> as_cancelled as" "\<not> as_running as"
    "as_complianceLogger as = sk_NewLogger K (ac_ComplianceMode (as_config as))" "as_backends as = initial_backends K (as_config as)"
    using assms(1) by (auto simp: NewAuditSystem_def initial_backends_def Let_def split: if_splits sum.splits)
  have "as1 = as\<lparr>as_running := True\<rparr>" using assms(2) by (auto simp: AuditSystem_Start_def split: if_splits)
  with n show ?thesis
    by (simp add: started_def audit_inv_def stop_inv_def batch_inv_def sink_inv_def in_hand_def in_flight_def log_events_def write_batches_def
        initial_backends_def Let_def max_def)
qed

lemma audit_reach_inv:
  "audit_reach C generate isValidUUID K w \<Longrightarrow> audit_inv w \<and> stop_inv w \<and> batch_inv w \<and> sink_inv K w"
proof (induction rule: audit_reach.induct)
  case (start now config as as1)
  then show ?case by (rule started_inv)
next
  case (step w w')
  then show ?case using audit_inv_step stop_inv_step batch_inv_step sink_inv_step by metis
qed

text \<open>A system that is idle can be stopped at once, with whatever is on the queue.\<close>

lemma Stop_now:
  assumes "audit_reach C generate isValidUUID K w" "wd_loop w = LoopSelect" "wd_timer w = TimerSelect" "wd_stop w = StopNone"
  shows "\<exists>w'. audit_reach C generate isValidUUID K w' \<and> wd_stop w' = StopDone \<and> as_eventQueue (wd_sys w') = as_eventQueue (wd_sys w)
    \<and> wd_accepted w' = wd_accepted w"
proof -
  have "as_running (wd_sys w)" using audit_reach_inv [OF assms(1)] assms(4) by (simp add: stop_inv_def)
  define w1 where "w1 = w\<lparr>wd_sys := stop_begin (wd_sys w), wd_stop := StopWait, wd_loop := LoopDone, wd_timer := TimerDone\<rparr>"
  have "audit_reach C generate isValidUUID K (w\<lparr>wd_sys := stop_begin (wd_sys w), wd_stop := StopWait\<rparr>)"
    by (rule audit_reach.step [OF assms(1)]) (rule stop_call, fact+)
  then have "audit_reach C generate isValidUUID K (w\<lparr>wd_sys := stop_begin (wd_sys w), wd_stop := StopWait, wd_loop := LoopDone\<rparr>)"
    by (rule audit_reach.step) (use loop_done [of "w\<lparr>wd_sys := stop_begin (wd_sys w), wd_stop := StopWait\<rparr>"] assms in \<open>simp add: stop_begin_def\<close>)
  then have r1: "audit_reach C generate isValidUUID K w1"
    by (rule audit_reach.step)
      (use timer_done [of "w\<lparr>wd_sys := stop_begin (wd_sys w), wd_stop := StopWait, wd_loop := LoopDone\<rparr>"] assms in \<open>simp add: w1_def stop_begin_def\<close>)
  define w2 where "w2 = begin_flush (wd_stop_update (\<lambda>_. StopClose)) (\<lambda>events. wd_stop_update (\<lambda>_. StopWrite events)) w1"
  have r2: "audit_reach C generate isValidUUID K w2"
    unfolding w2_def by (rule audit_reach.step [OF r1], rule stop_flush) (simp_all add: w1_def)
  have "\<exists>w3. audit_reach C generate isValidUUID K w3 \<and> wd_stop w3 = StopClose \<and> as_eventQueue (wd_sys w3) = as_eventQueue (wd_sys w)
      \<and> wd_accepted w3 = wd_accepted w"
  proof (cases "as_batchBuffer (wd_sys w) = []")
    case True
    then show ?thesis using r2 by (intro exI [of _ w2]) (simp add: w2_def w1_def begin_flush_def take_batch_def stop_begin_def)
  next
    case False
    then have "wd_stop w2 = StopWrite (as_batchBuffer (wd_sys w))" by (simp add: w2_def w1_def begin_flush_def take_batch_def stop_begin_def)
    from audit_reach.step [OF r2 stop_write [OF this]] False show ?thesis
      by (intro exI) (rule conjI, assumption, simp add: w2_def w1_def audit_defs)
  qed
  then obtain w3 where w3: "audit_reach C generate isValidUUID K w3" "wd_stop w3 = StopClose" "as_eventQueue (wd_sys w3) = as_eventQueue (wd_sys w)"
      "wd_accepted w3 = wd_accepted w" by blast
  from audit_reach.step [OF w3(1) stop_close [OF w3(2)]] w3(3,4) show ?thesis
    by (intro exI) (rule conjI, assumption, simp add: close_backends_def)
qed

lemma LogEvent_process_ready:
  assumes "ac_Enabled (as_config as)" "as_running as" "ae_Severity event \<le> ac_LogLevel (as_config as)"
    "AuditEvent_Validate isValidUUID (enrichEvent (ce_newID env) (ce_now env) (ac_ComplianceMode (as_config as)) event) = None"
    "as_integrityChain as = Some ic"
    "ProcessEvent C (ce_rnd env) (ce_now1 env) ic (enrichEvent (ce_newID env) (ce_now env) (ac_ComplianceMode (as_config as)) event) = (r, ic1, e)"
  shows "LogEvent_process C isValidUUID env as event = (Ready e, as\<lparr>as_integrityChain := Some ic1\<rparr>)"
  using assms by (simp add: LogEvent_process_def Let_def)

lemma ProcessEvent_last_link:
  assumes "ProcessEvent C rnd now ic e = (None, ic', e')" "ic_enabled ic"
  shows "ic_chain ic' \<noteq> [] \<and> link_of e' (last (ic_chain ic'))"
  by (rule ProcessEvent_success [OF assms]) (auto simp: link_of_def MaxChainLength_def)

subsection \<open>A concrete run\<close>

text \<open>A system with a queue for one event and no compliance standard; its only backend keeps the batches, its
  compliance logger the events.\<close>

definition demo_sinks :: "(unit, AuditEvent list list, AuditEvent list) Sinks" where
  "demo_sinks = \<lparr>sk_NewBackend = (\<lambda>_. Inr []), sk_WriteEvents = (\<lambda>b events. (None, b @ [events])), sk_Close = (\<lambda>b. (None, b)),
     sk_NewLogger = (\<lambda>_. []), sk_ProcessEvent = (\<lambda>l e. l @ [e])\<rparr>"

definition demo_config :: "unit AuditSystemConfig" where
  "demo_config = DefaultAuditConfig\<lparr>ac_MaxQueueSize := 1, ac_ComplianceMode := [], ac_Backends := [()]\<rparr>"

definition demo_system :: "(unit, nat, nat, AuditEvent list list, AuditEvent list) AuditSystem" where
  "demo_system = \<lparr>as_config = demo_config, as_backends = [[]], as_eventQueue = [], as_queueCapacity = 1, as_batchBuffer = [], as_running = True,
     as_cancelled = False, as_integrityChain = Some demo_chain0, as_complianceLogger = [], as_lastFlush = 5, as_eventsReceived = 0,
     as_eventsDropped = 0\<rparr>"

definition demo_env :: call_env where
  "demo_env = \<lparr>ce_rnd = 0, ce_newID = ''id'', ce_now = 6, ce_now1 = 7\<rparr>"

definition demo_input :: AuditEvent where
  "demo_input = zeroAuditEvent\<lparr>ae_EventType := ''data_access'', ae_Component := ''ui'', ae_Action := ''read''\<rparr>"

definition demo_enriched :: AuditEvent where
  "demo_enriched = enrichEvent ''id'' 6 [] demo_input"

lemma demo_enriched_valid: "AuditEvent_Validate (\<lambda>_. True) demo_enriched = None" "ae_Action demo_enriched = ''read''" "ae_ID demo_enriched = ''id''"
  by (simp_all add: demo_enriched_def enrichEvent_def demo_input_def zeroAuditEvent_def AuditEvent_Validate_def zero_time_def Second_def Let_def)

lemma demo_started: "audit_reach demo_crypto (\<lambda>_. Inr 41) (\<lambda>_. True) demo_sinks (started demo_system)"
proof -
  have i: "NewIntegrityChain demo_crypto (\<lambda>_. Inr 41) = Inr demo_chain0"
    by (simp add: demo_chain0_def NewIntegrityChain_def NewIntegrityChainWithConfig_def initializeKeys_def DefaultIntegrityConfig_def Let_def)
  have "NewAuditSystem demo_crypto (\<lambda>_. Inr 41) demo_sinks 5 (Some demo_config) = Inr (demo_system\<lparr>as_running := False\<rparr>)"
    by (simp add: NewAuditSystem_def i demo_config_def demo_system_def demo_sinks_def DefaultAuditConfig_def DefaultBatchSize_def map_filter_def)
  then show ?thesis
    by (rule audit_reach.start) (simp add: AuditSystem_Start_def demo_system_def demo_config_def DefaultAuditConfig_def)
qed

lemma demo_accepted:
  "\<exists>w e. audit_reach demo_crypto (\<lambda>_. Inr 41) (\<lambda>_. True) demo_sinks w \<and> wd_loop w = LoopSelect \<and> wd_timer w = TimerSelect \<and> wd_stop w = StopNone
     \<and> as_eventQueue (wd_sys w) = [e] \<and> wd_accepted w = [e]"
proof -
  obtain r ic1 e where p: "ProcessEvent demo_crypto 0 7 demo_chain0 demo_enriched = (r, ic1, e)" by (metis prod_cases3)
  have "LogEvent_process demo_crypto (\<lambda>_. True) demo_env (wd_sys (started demo_system)) demo_input
      = (Ready e, demo_system\<lparr>as_integrityChain := Some ic1\<rparr>)"
    unfolding started_def world.select_convs
    by (rule LogEvent_process_ready [where r = r])
      (use p demo_enriched_valid(1) in \<open>simp_all add: demo_system_def demo_config_def DefaultAuditConfig_def demo_env_def
         demo_enriched_def [symmetric], simp_all add: demo_input_def zeroAuditEvent_def SeverityInfo_def\<close>)
  from audit_reach.step [OF demo_started log_process [OF this]]
  have r1: "audit_reach demo_crypto (\<lambda>_. Inr 41) (\<lambda>_. True) demo_sinks
      ((started demo_system)\<lparr>wd_sys := demo_system\<lparr>as_integrityChain := Some ic1\<rparr>, wd_ready := [e]\<rparr>)" by (simp add: started_def)
  let ?w = "(started demo_system)\<lparr>wd_sys := demo_system\<lparr>as_integrityChain := Some ic1\<rparr>, wd_ready := [e]\<rparr>"
  have "LogEvent_enqueue e (wd_sys ?w) = (None, demo_system\<lparr>as_integrityChain := Some ic1, as_eventQueue := [e], as_eventsReceived := 1\<rparr>)"
    by (simp add: LogEvent_enqueue_def demo_system_def inc64_def wrap64_def)
  then have "audit_step demo_crypto (\<lambda>_. True) demo_sinks ?w (?w\<lparr>wd_sys := demo_system\<lparr>as_integrityChain := Some ic1, as_eventQueue := [e],
      as_eventsReceived := 1\<rparr>, wd_ready := remove1 e (wd_ready ?w), wd_accepted := wd_accepted ?w @ [e]\<rparr>)"
    by (intro log_accept) simp_all
  from audit_reach.step [OF r1 this] show ?thesis
    by (intro exI conjI, assumption) (simp_all add: started_def)
qed

section \<open>Properties\<close>

text \<open>C14: No accepted event is lost or duplicated while the system runs: in every interleaving of callers, processing loop,
  timer and \<open>Stop\<close>, the events in the order of their acceptance are those of the batches taken so far, then the
  buffer, the event that the loop holds, and the queue. Each batch is either written or being written, and
  the queue stays within its capacity.\<close>

theorem events_conserved:
  assumes "audit_reach C generate isValidUUID K w"
  shows "wd_accepted w = concat (wd_taken w) @ as_batchBuffer (wd_sys w) @ in_hand (wd_loop w) @ as_eventQueue (wd_sys w)
    \<and> mset (wd_taken w) = mset (wd_written w) + in_flight w \<and> length (as_eventQueue (wd_sys w)) \<le> as_queueCapacity (wd_sys w)"
  using audit_reach_inv [OF assms] by (simp add: audit_inv_def)

theorem events_conserved_witness:
  "wd_accepted (started demo_system) = as_eventQueue (wd_sys (started demo_system)) \<and> in_flight (started demo_system) = {#}"
  using events_conserved [OF demo_started] by (simp add: started_def demo_system_def in_hand_def)

text \<open>Every backend that could be created is given the written batches, one after the other, and the compliance logger
  their events; \<open>Stop\<close> closes the backends afterwards.\<close>

theorem sinks_receive_batches:
  assumes "audit_reach C generate isValidUUID K w"
  shows "as_backends (wd_sys w) = map ((if wd_stop w = StopDone then snd \<circ> sk_Close K else id) \<circ> write_batches K (wd_written w))
      (initial_backends K (as_config (wd_sys w)))
    \<and> as_complianceLogger (wd_sys w) = log_events K (concat (wd_written w)) (sk_NewLogger K (ac_ComplianceMode (as_config (wd_sys w))))"
  using audit_reach_inv [OF assms] by (simp add: sink_inv_def)

theorem sinks_receive_batches_witness: "as_backends (wd_sys (started demo_system)) = [[]]"
  using sinks_receive_batches [OF demo_started]
  by (simp add: started_def write_batches_def initial_backends_def demo_system_def demo_config_def demo_sinks_def map_filter_def)

text \<open>A batch has at least one event and at most \<open>BatchSize\<close>, or one if the configured size is zero: the default size
  that \<open>NewAuditSystem\<close> takes for zero is only the capacity of the buffer.\<close>

theorem batches_bounded:
  assumes "audit_reach C generate isValidUUID K w"
  shows "list_all (\<lambda>b. 1 \<le> length b \<and> int (length b) \<le> max 1 (ac_BatchSize (as_config (wd_sys w)))) (wd_taken w)
    \<and> int (length (as_batchBuffer (wd_sys w))) \<le> max 1 (ac_BatchSize (as_config (wd_sys w)))"
proof -
  have "batch_inv w" using audit_reach_inv [OF assms] by simp
  then show ?thesis by (auto simp: batch_inv_def Let_def list_all_iff Suc_le_eq)
qed

theorem batches_bounded_witness: "int (length (as_batchBuffer (wd_sys (started demo_system)))) \<le> 100"
  using batches_bounded [OF demo_started]
  by (simp add: started_def demo_system_def demo_config_def DefaultAuditConfig_def DefaultBatchSize_def)

text \<open>When \<open>Stop\<close> has returned, the accepted events are those that were written and those still on the queue, which
  nothing reads any more. And it may leave any queue there: a system with an idle loop and timer can be stopped
  without another event being taken.\<close>

theorem Stop_leaves_queue:
  assumes "audit_reach C generate isValidUUID K w"
  shows "(wd_stop w = StopDone \<longrightarrow> mset (wd_accepted w) = mset (concat (wd_written w)) + mset (as_eventQueue (wd_sys w))
        \<and> wd_loop w = LoopDone)
    \<and> (wd_loop w = LoopSelect \<and> wd_timer w = TimerSelect \<and> wd_stop w = StopNone \<longrightarrow>
        (\<exists>w'. audit_reach C generate isValidUUID K w' \<and> wd_stop w' = StopDone \<and> as_eventQueue (wd_sys w') = as_eventQueue (wd_sys w)
           \<and> wd_accepted w' = wd_accepted w))"
proof -
  have inv: "audit_inv w" "stop_inv w" using audit_reach_inv [OF assms] by simp_all
  have "mset (wd_accepted w) = mset (concat (wd_written w)) + mset (as_eventQueue (wd_sys w)) \<and> wd_loop w = LoopDone" if "wd_stop w = StopDone"
  proof -
    from that inv have t: "mset (wd_taken w) = mset (wd_written w)" and a: "wd_accepted w = concat (wd_taken w) @ as_eventQueue (wd_sys w)"
      and l: "wd_loop w = LoopDone" by (auto simp: audit_inv_def stop_inv_def in_hand_def in_flight_def)
    have "mset (concat xs) = \<Sum>\<^sub># (image_mset mset (mset xs))" for xs :: "AuditEvent list list" by (induction xs) simp_all
    with t have "mset (concat (wd_taken w)) = mset (concat (wd_written w))" by metis
    with a l show ?thesis by simp
  qed
  then show ?thesis using Stop_now [OF assms] by blast
qed

theorem Stop_leaves_queue_witness:
  "\<exists>w e. audit_reach demo_crypto (\<lambda>_. Inr 41) (\<lambda>_. True) demo_sinks w \<and> wd_stop w = StopDone \<and> as_eventQueue (wd_sys w) = [e] \<and> concat (wd_written w) = []"
proof -
  obtain w e where w: "audit_reach demo_crypto (\<lambda>_. Inr 41) (\<lambda>_. True) demo_sinks w" "wd_loop w = LoopSelect" "wd_timer w = TimerSelect"
    "wd_stop w = StopNone" "as_eventQueue (wd_sys w) = [e]" "wd_accepted w = [e]" using demo_accepted by blast
  with Stop_leaves_queue [OF w(1)] obtain w' where w': "audit_reach demo_crypto (\<lambda>_. Inr 41) (\<lambda>_. True) demo_sinks w'" "wd_stop w' = StopDone"
    "as_eventQueue (wd_sys w') = [e]" "wd_accepted w' = [e]" by auto
  from Stop_leaves_queue [OF w'(1)] w' have "concat (wd_written w') = []" by simp
  with w' show ?thesis by blast
qed

text \<open>An event that finds the queue full is dropped with an error, but it has been linked into the integrity chain
  before: the chain ends with a link for an event that no backend will ever be given.\<close>

theorem dropped_event_linked:
  assumes "ac_Enabled (as_config as)" "as_running as" "ae_Severity event \<le> ac_LogLevel (as_config as)"
    "AuditEvent_Validate isValidUUID (enrichEvent (ce_newID env) (ce_now env) (ac_ComplianceMode (as_config as)) event) = None"
    "as_integrityChain as = Some ic" "ic_enabled ic"
    "ProcessEvent C (ce_rnd env) (ce_now1 env) ic (enrichEvent (ce_newID env) (ce_now env) (ac_ComplianceMode (as_config as)) event) = (None, ic1, e)"
    "length (as_eventQueue as) = as_queueCapacity as"
  shows "\<exists>as'. LogEvent C isValidUUID env (Some as) event = (Some QueueFull, Some as') \<and> as_eventQueue as' = as_eventQueue as
    \<and> as_eventsDropped as' = inc64 (as_eventsDropped as) \<and> as_integrityChain as' = Some ic1 \<and> link_of e (last (ic_chain ic1))"
  using LogEvent_process_ready [OF assms(1-5,7)] ProcessEvent_last_link [OF assms(7,6)] assms(8)
  by (simp add: LogEvent_def LogEvent_enqueue_def)

theorem dropped_event_linked_witness:
  "fst (LogEvent demo_crypto (\<lambda>_. True) demo_env (Some (demo_system\<lparr>as_eventQueue := [demo_input]\<rparr>)) demo_input) = Some QueueFull"
proof -
  let ?as = "demo_system\<lparr>as_eventQueue := [demo_input]\<rparr>"
  have "fst (ProcessEvent demo_crypto 0 7 demo_chain0 demo_enriched) = None"
    using demo_process(1) [OF demo_chains(1,2)] demo_enriched_valid(2) by simp
  then obtain ic1 e where p: "ProcessEvent demo_crypto 0 7 demo_chain0 demo_enriched = (None, ic1, e)" by (metis prod.collapse)
  have f: "ac_Enabled (as_config ?as)" "as_running ?as" "ae_Severity demo_input \<le> ac_LogLevel (as_config ?as)"
    "enrichEvent (ce_newID demo_env) (ce_now demo_env) (ac_ComplianceMode (as_config ?as)) demo_input = demo_enriched"
    "as_integrityChain ?as = Some demo_chain0" "length (as_eventQueue ?as) = as_queueCapacity ?as"
    by (simp_all add: demo_system_def demo_config_def DefaultAuditConfig_def demo_env_def demo_enriched_def demo_input_def
        zeroAuditEvent_def SeverityInfo_def)
  have "\<exists>as'. LogEvent demo_crypto (\<lambda>_. True) demo_env (Some ?as) demo_input = (Some QueueFull, Some as') \<and> as_eventQueue as' = as_eventQueue ?as
    \<and> as_eventsDropped as' = inc64 (as_eventsDropped ?as) \<and> as_integrityChain as' = Some ic1 \<and> link_of e (last (ic_chain ic1))"
    by (rule dropped_event_linked [OF f(1-3) _ f(5) demo_chains(1) _ f(6)]) (simp_all only: f(4) demo_enriched_valid(1), use p in \<open>simp add: demo_env_def\<close>)
  then show ?thesis by auto
qed

end
