(* ===== verification/E2AP_Wire.thy ===== *)
theory E2AP_Wire
  imports Go_Prelude Go_Strconv "HOL-Library.Word" "HOL-Library.Sublist"
begin

unbundle bit_operations_syntax

text \<open>
  The wire format below the E2AP messages (\<open>pkg/oran/e2/asn1_codec.go\<close>): big-endian integers, lengths, octet strings,
  counted lists and network identities. A writer is the list of the bytes that it writes (a \<open>bytes.Buffer\<close> never fails); a
  reader takes the unread bytes and gives a value or an error, with the bytes that are left in both cases. The
  locale \<open>wire_codec\<close> is the contract of an encoder and its decoder.
\<close>

section \<open>Model\<close>

subsection \<open>Readers\<close>

type_synonym byte = "8 word"

datatype codec_error =
    EOF | UnexpectedEOF | UnsupportedLength "8 word" | UnsupportedNodeType "64 word" | UnsupportedMessageType "64 word" | InsufficientData

type_synonym 'a reader = "byte list \<Rightarrow> (codec_error + 'a) \<times> byte list"

definition ret :: "'a \<Rightarrow> 'a reader" where "ret x bs = (Inr x, bs)"
definition fail :: "codec_error \<Rightarrow> 'a reader" where "fail e bs = (Inl e, bs)"

definition andThen :: "'a reader \<Rightarrow> ('a \<Rightarrow> 'b reader) \<Rightarrow> 'b reader" where
  "andThen m f bs = (case m bs of (Inl e, bs1) \<Rightarrow> (Inl e, bs1) | (Inr x, bs1) \<Rightarrow> f x bs1)"

text \<open>A reader whose error is not returned but looked at, and the test \<open>buf.Len() > 0\<close>.\<close>

definition attempt :: "'a reader \<Rightarrow> (codec_error + 'a) reader" where
  "attempt m bs = (case m bs of (r, bs1) \<Rightarrow> (Inr r, bs1))"

definition unread :: "bool reader" where "unread bs = (Inr (bs \<noteq> []), bs)"

text \<open>\<open>io.ReadFull\<close> on a \<open>bytes.Reader\<close>: what can be read is consumed even if it is not enough.\<close>

definition read_full :: "nat \<Rightarrow> byte list reader" where
  "read_full n bs =
     (if n = 0 then (Inr [], bs)
      else if bs = [] then (Inl EOF, [])
      else if length bs < n then (Inl UnexpectedEOF, [])
      else (Inr (take n bs), drop n bs))"

subsection \<open>Integers\<close>

text \<open>\<open>binary.Write\<close> and \<open>binary.Read\<close> with \<open>binary.BigEndian\<close>.\<close>

fun put_be :: "nat \<Rightarrow> nat \<Rightarrow> byte list" where
  "put_be 0 v = []"
| "put_be (Suc n) v = put_be n (v div 256) @ [of_nat v]"

definition get_be :: "byte list \<Rightarrow> nat" where
  "get_be bs = foldl (\<lambda>v b. 256 * v + unat b) 0 bs"

definition write_u8 :: "8 word \<Rightarrow> byte list" where "write_u8 w = put_be 1 (unat w)"
definition write_u16 :: "16 word \<Rightarrow> byte list" where "write_u16 w = put_be 2 (unat w)"
definition write_u32 :: "32 word \<Rightarrow> byte list" where "write_u32 w = put_be 4 (unat w)"

definition read_u8 :: "8 word reader" where "read_u8 = andThen (read_full 1) (\<lambda>bs. ret (of_nat (get_be bs)))"
definition read_u16 :: "16 word reader" where "read_u16 = andThen (read_full 2) (\<lambda>bs. ret (of_nat (get_be bs)))"
definition read_u32 :: "32 word reader" where "read_u32 = andThen (read_full 4) (\<lambda>bs. ret (of_nat (get_be bs)))"

subsection \<open>Lengths, octet strings and lists\<close>

definition encodeLength :: "nat \<Rightarrow> byte list" where
  "encodeLength l =
     (if l < 128 then write_u8 (of_nat l)
      else if l < 65536 then write_u8 0x82 @ write_u16 (of_nat l)
      else write_u8 0x84 @ write_u32 (of_nat l))"

definition decodeLength :: "nat reader" where
  "decodeLength =
     andThen read_u8 (\<lambda>firstByte.
       if firstByte < 128 then ret (unat firstByte)
       else let numOctets = firstByte AND 0x7F
            in if numOctets = 1 then andThen read_u8 (\<lambda>l. ret (unat l))
               else if numOctets = 2 then andThen read_u16 (\<lambda>l. ret (unat l))
               else if numOctets = 4 then andThen read_u32 (\<lambda>l. ret (unat l))
               else fail (UnsupportedLength numOctets))"

definition encodeOctetString :: "byte list \<Rightarrow> byte list" where
  "encodeOctetString data = encodeLength (length data) @ data"

definition decodeOctetString :: "byte list reader" where
  "decodeOctetString = andThen decodeLength read_full"

text \<open>A list is its length and its items; the loops of the source differ in the item only.\<close>

definition encode_items :: "('a \<Rightarrow> byte list) \<Rightarrow> 'a list \<Rightarrow> byte list" where
  "encode_items enc xs = encodeLength (length xs) @ concat (map enc xs)"

fun read_items :: "'a reader \<Rightarrow> nat \<Rightarrow> 'a list reader" where
  "read_items dec 0 = ret []"
| "read_items dec (Suc n) = andThen dec (\<lambda>x. andThen (read_items dec n) (\<lambda>xs. ret (x # xs)))"

definition decode_items :: "'a reader \<Rightarrow> 'a list reader" where
  "decode_items dec = andThen decodeLength (read_items dec)"

text \<open>The conversions between strings and byte slices.\<close>

definition bytes_of :: "string \<Rightarrow> byte list" where "bytes_of = map (\<lambda>c. of_nat (of_char c))"
definition string_of :: "byte list \<Rightarrow> string" where "string_of = map (\<lambda>b. char_of (unat b))"

subsection \<open>Network identities\<close>

record PLMNIdentity =
  pl_MCC :: string
  pl_MNC :: string

definition zeroPLMN :: PLMNIdentity where "zeroPLMN = \<lparr>pl_MCC = [], pl_MNC = []\<rparr>"

definition encodePLMNIdentity :: "PLMNIdentity \<Rightarrow> byte list" where
  "encodePLMNIdentity plmn =
     (let mcc = bytes_of (pl_MCC plmn); mnc = bytes_of (pl_MNC plmn)
      in if length mcc \<ge> 3 \<and> length mnc \<ge> 2
         then [push_bit 4 (mcc ! 1 - 48) OR (mcc ! 0 - 48), push_bit 4 (mnc ! 0 - 48) OR (mcc ! 2 - 48),
               (if length mnc = 3 then push_bit 4 (mnc ! 2 - 48) OR (mnc ! 1 - 48) else 0xF0 OR (mnc ! 1 - 48))]
         else [0, 0, 0])"

definition decodePLMNIdentity :: "byte list \<Rightarrow> PLMNIdentity" where
  "decodePLMNIdentity bs =
     (if length bs \<noteq> 3 then zeroPLMN
      else let show_nibble = (\<lambda>w :: byte. nat_digits (unat w));
               mnc2 = drop_bit 4 (bs ! 1) AND 0x0F; mnc1 = bs ! 2 AND 0x0F; mnc3 = drop_bit 4 (bs ! 2) AND 0x0F
           in \<lparr>pl_MCC = show_nibble (bs ! 0 AND 0x0F) @ show_nibble (drop_bit 4 (bs ! 0) AND 0x0F) @ show_nibble (bs ! 1 AND 0x0F),
               pl_MNC = (if mnc3 = 0x0F then show_nibble mnc2 @ show_nibble mnc1 else show_nibble mnc2 @ show_nibble mnc1 @ show_nibble mnc3)\<rparr>)"

section \<open>Lemmas\<close>

subsection \<open>The reader monad\<close>

named_theorems wire \<open>what the readers do on the output of the writers\<close>

lemma ret_apply [simp]: "ret x bs = (Inr x, bs)" and fail_apply [simp]: "fail e bs = (Inl e, bs)"
  by (simp_all add: ret_def fail_def)

lemma andThen_Inr [simp]: "m bs = (Inr x, bs1) \<Longrightarrow> andThen m f bs = f x bs1"
  by (simp add: andThen_def)

lemma andThen_Inl [simp]: "m bs = (Inl e, bs1) \<Longrightarrow> andThen m f bs = (Inl e, bs1)"
  by (simp add: andThen_def)

lemma attempt_apply [simp]: "m bs = (r, bs1) \<Longrightarrow> attempt m bs = (Inr r, bs1)"
  by (simp add: attempt_def)

lemma unread_apply [simp]: "unread bs = (Inr (bs \<noteq> []), bs)"
  by (simp add: unread_def)

lemma andThen_unread [simp]: "andThen unread f bs = f (bs \<noteq> []) bs"
  by (simp add: andThen_def)

lemma read_full_append [wire]: "read_full (length a) (a @ b) = (Inr a, b)"
  by (auto simp: read_full_def)

text \<open>A reader never goes back, and never past the end.\<close>

definition consumes :: "'a reader \<Rightarrow> bool" where
  "consumes m \<longleftrightarrow> (\<forall>bs. suffix (snd (m bs)) bs)"

lemma consumes_ret [intro!]: "consumes (ret x)" and consumes_fail [intro!]: "consumes (fail e)" and consumes_unread [intro!]: "consumes unread"
  by (simp_all add: consumes_def)

lemma consumes_read_full [intro!]: "consumes (read_full n)"
  by (auto simp: consumes_def read_full_def suffix_drop)

lemma consumes_andThen [intro!]:
  assumes "consumes m" "\<And>x. consumes (f x)"
  shows "consumes (andThen m f)"
proof -
  have "suffix (snd (andThen m f bs)) bs" for bs
  proof (cases "m bs")
    case (Pair r bs1)
    then have "suffix bs1 bs" using assms(1) unfolding consumes_def by (metis snd_conv)
    moreover have "suffix (snd (f x bs1)) bs1" for x using assms(2) by (simp add: consumes_def)
    ultimately show ?thesis using Pair suffix_order.order_trans by (cases r) auto
  qed
  then show ?thesis by (simp add: consumes_def)
qed

lemma consumes_attempt [intro!]: "consumes m \<Longrightarrow> consumes (attempt m)"
  by (auto simp: consumes_def attempt_def split: prod.split) (metis snd_conv)

lemma consumes_if [intro!]: "(b \<Longrightarrow> consumes m) \<Longrightarrow> (\<not> b \<Longrightarrow> consumes n) \<Longrightarrow> consumes (if b then m else n)"
  by simp

lemma consumes_read_items [intro!]: "consumes dec \<Longrightarrow> consumes (read_items dec n)"
  by (induction n) auto

subsection \<open>Integers\<close>

lemma put_be_length [simp]: "length (put_be n v) = n"
  by (induction n arbitrary: v) simp_all

lemma get_be_append: "get_be (bs @ [b]) = 256 * get_be bs + unat b"
  by (simp add: get_be_def)

lemma get_put_be: "get_be (put_be n v) = v mod 256 ^ n"
proof (induction n arbitrary: v)
  case (Suc n)
  have "unat (of_nat v :: byte) = v mod 256" by (simp add: unat_of_nat)
  then show ?case using Suc by (simp add: get_be_append mod_mult2_eq)
qed (simp add: get_be_def)

lemma unat_bound: "unat (w :: 8 word) < 2 ^ 8" "unat (x :: 16 word) < 2 ^ 16" "unat (y :: 32 word) < 2 ^ 32"
  using unsigned_less [of w, where 'a = nat] unsigned_less [of x, where 'a = nat] unsigned_less [of y, where 'a = nat] by simp_all

lemma read_write_u8 [wire]: "read_u8 (write_u8 w @ rest) = (Inr w, rest)"
  and read_write_u16 [wire]: "read_u16 (write_u16 x @ rest) = (Inr x, rest)"
  and read_write_u32 [wire]: "read_u32 (write_u32 y @ rest) = (Inr y, rest)"
proof -
  have f: "read_full n (put_be n v @ rest) = (Inr (put_be n v), rest)" for n v
    using read_full_append [of "put_be n v" rest] by simp
  have "unat w < 2 ^ 8" "unat x < 2 ^ 16" "unat y < 2 ^ 32" by (simp_all only: unat_bound)
  then show "read_u8 (write_u8 w @ rest) = (Inr w, rest)" "read_u16 (write_u16 x @ rest) = (Inr x, rest)" "read_u32 (write_u32 y @ rest) = (Inr y, rest)"
    by (simp_all add: read_u8_def read_u16_def read_u32_def write_u8_def write_u16_def write_u32_def f get_put_be del: put_be.simps)
qed

lemma write_length [simp]: "length (write_u8 w) = 1" "length (write_u16 x) = 2" "length (write_u32 y) = 4"
  by (simp_all add: write_u8_def write_u16_def write_u32_def)

lemma write_u8_byte: "write_u8 w = [w]"
  by (simp add: write_u8_def)

subsection \<open>Lengths and octet strings\<close>

lemma decode_encodeLength [wire]: "l < 2 ^ 32 \<Longrightarrow> decodeLength (encodeLength l @ rest) = (Inr l, rest)"
proof -
  assume l: "l < 2 ^ 32"
  consider "l < 128" | "128 \<le> l" "l < 65536" | "65536 \<le> l" by linarith
  then show ?thesis
  proof cases
    case 1
    then have "unat (of_nat l :: 8 word) = l" by (simp add: unat_of_nat)
    moreover from this 1 have "(of_nat l :: 8 word) < 128" by (simp add: word_less_nat_alt)
    ultimately show ?thesis using 1 by (simp add: decodeLength_def encodeLength_def read_write_u8)
  next
    case 2
    then have "unat (of_nat l :: 16 word) = l" by (simp add: unat_of_nat)
    with 2 show ?thesis by (simp add: decodeLength_def encodeLength_def read_write_u8 read_write_u16 Let_def)
  next
    case 3
    then have "unat (of_nat l :: 32 word) = l" using l by (simp add: unat_of_nat)
    with 3 show ?thesis by (simp add: decodeLength_def encodeLength_def read_write_u8 read_write_u32 Let_def)
  qed
qed

lemma encodeLength_length: "length (encodeLength l) = (if l < 128 then 1 else if l < 65536 then 3 else 5)"
  by (simp add: encodeLength_def)

lemma consumes_decodeLength [intro!]: "consumes decodeLength"
  by (auto simp: decodeLength_def read_u8_def read_u16_def read_u32_def Let_def intro!: consumes_andThen split: if_splits)

lemma decode_encodeOctetString [wire]: "length data < 2 ^ 32 \<Longrightarrow> decodeOctetString (encodeOctetString data @ rest) = (Inr data, rest)"
  by (simp add: decodeOctetString_def encodeOctetString_def decode_encodeLength read_full_append)

lemma consumes_decodeOctetString [intro!]: "consumes decodeOctetString"
  by (auto simp: decodeOctetString_def)

lemma encodeOctetString_not_empty [simp]: "encodeOctetString data \<noteq> []"
  using encodeLength_length [of "length data"] by (auto simp: encodeOctetString_def)

lemma string_of_bytes_of [simp]: "string_of (bytes_of s) = s"
proof -
  have "unat (of_nat (of_char c) :: byte) = of_char c" for c by (simp add: unat_of_nat)
  then show ?thesis by (simp add: string_of_def bytes_of_def comp_def)
qed

lemma string_of_Nil [simp]: "string_of bs = [] \<longleftrightarrow> bs = []" and bytes_of_Nil [simp]: "bytes_of s = [] \<longleftrightarrow> s = []"
  by (simp_all add: string_of_def bytes_of_def)

lemma bytes_of_length [simp]: "length (bytes_of s) = length s"
  by (simp add: bytes_of_def)

subsection \<open>The contract of an encoder and a decoder\<close>

locale wire_codec =
  fixes enc :: "'a \<Rightarrow> byte list" and dec :: "'a reader" and ok :: "'a \<Rightarrow> bool"
  assumes decode_encode: "ok x \<Longrightarrow> dec (enc x @ rest) = (Inr x, rest)"
    and decode_consumes: "consumes dec"
begin

lemma encoding_prefix_free:
  assumes "ok x" "ok y" "enc x @ r = enc y @ s"
  shows "x = y \<and> r = s"
proof -
  have "(Inr x, r) = dec (enc x @ r)" using decode_encode [OF assms(1)] by simp
  also have "\<dots> = (Inr y, s)" unfolding assms(3) using decode_encode [OF assms(2)] by simp
  finally show ?thesis by simp
qed

lemma decode_end: "ok x \<Longrightarrow> dec (enc x) = (Inr x, [])"
  using decode_encode [of x "[]"] by simp

lemma items_round: "list_all ok xs \<Longrightarrow> read_items dec (length xs) (concat (map enc xs) @ rest) = (Inr xs, rest)"
  by (induction xs) (simp_all add: decode_encode)

lemma list_round:
  assumes "list_all ok xs" "length xs < 2 ^ 32"
  shows "decode_items dec (encode_items enc xs @ rest) = (Inr xs, rest)"
  using assms by (simp add: decode_items_def encode_items_def decode_encodeLength items_round)

text \<open>A list of what can be coded can be coded.\<close>

lemma list_codec: "wire_codec (encode_items enc) (decode_items dec) (\<lambda>xs. list_all ok xs \<and> length xs < 2 ^ 32)"
  using list_round decode_consumes by unfold_locales (auto simp: decode_items_def)

end

interpretation octets: wire_codec encodeOctetString decodeOctetString "\<lambda>d. length d < 2 ^ 32"
  by unfold_locales (auto simp: decode_encodeOctetString)

interpretation u16: wire_codec write_u16 read_u16 "\<lambda>_. True"
  by unfold_locales (rule read_write_u16, auto simp: read_u16_def)

subsection \<open>Network identities\<close>

text \<open>A country code of three digits and a network code of two or three.\<close>

definition plmn_ok :: "PLMNIdentity \<Rightarrow> bool" where
  "plmn_ok p \<longleftrightarrow> length (pl_MCC p) = 3 \<and> length (pl_MNC p) \<in> {2, 3} \<and> list_all is_digit (pl_MCC p) \<and> list_all is_digit (pl_MNC p)"

lemma encodePLMN_length [simp]: "length (encodePLMNIdentity p) = 3"
  by (simp add: encodePLMNIdentity_def Let_def)

lemma nibble_bits: "(w :: byte) < 16 \<Longrightarrow> bit w n \<Longrightarrow> n < 4"
proof -
  assume "w < 16"
  then have "take_bit 4 w = w" by (simp add: take_bit_eq_mod word_arith_nat_mod word_less_nat_alt)
  then show "bit w n \<Longrightarrow> n < 4" by (metis bit_take_bit_iff)
qed

lemma low_nibble: "(x :: byte) AND 0x0F = take_bit 4 x"
proof -
  have "(0x0F :: byte) = mask 4" by (simp add: mask_eq_exp_minus_1)
  then show ?thesis by (simp add: take_bit_eq_mask)
qed

lemma nibbles:
  fixes h l :: byte
  assumes "h < 16" "l < 16"
  shows "(push_bit 4 h OR l) AND 0x0F = l" "drop_bit 4 (push_bit 4 h OR l) AND 0x0F = h"
proof -
  have h: "bit h n \<Longrightarrow> n < 4" and l: "bit l n \<Longrightarrow> n < 4" "\<not> bit l (4 + n)" for n
    using nibble_bits [OF assms(1)] nibble_bits [OF assms(2)] by fastforce+
  then show "(push_bit 4 h OR l) AND 0x0F = l" "drop_bit 4 (push_bit 4 h OR l) AND 0x0F = h"
    unfolding low_nibble by (auto intro!: bit_word_eqI simp: bit_simps)
qed

lemma digit_nibble:
  assumes "is_digit c"
  defines "w \<equiv> of_nat (of_char c) - 48 :: byte"
  shows "w < 16" "w \<noteq> 15" "nat_digits (unat w) = [c]"
proof -
  have "48 \<le> (of_char c :: nat)" "(of_char c :: nat) \<le> 57" using assms(1) by (simp_all add: is_digit_def)
  moreover define k :: nat where "k = of_char c - 48"
  ultimately have c: "of_char c = 48 + k" and k: "k \<le> 9" by linarith+
  have u: "unat w = k" using k by (simp add: w_def c unat_of_nat)
  with k show "w < 16" "w \<noteq> 15" by (auto simp: word_less_nat_alt)
  have "digit_char k = c" by (simp add: digit_char_def c [symmetric])
  with u k show "nat_digits (unat w) = [c]" by (simp add: nat_digits.simps [of k])
qed

lemma decode_encodePLMN_digits:
  assumes "list_all is_digit (pl_MCC p)" "list_all is_digit (pl_MNC p)" "3 \<le> length (pl_MCC p)" "2 \<le> length (pl_MNC p)"
  shows "decodePLMNIdentity (encodePLMNIdentity p) =
    \<lparr>pl_MCC = take 3 (pl_MCC p), pl_MNC = (if length (pl_MNC p) = 3 then pl_MNC p else take 2 (pl_MNC p))\<rparr>"
proof -
  obtain c0 c1 c2 cs where mcc: "pl_MCC p = c0 # c1 # c2 # cs" using assms(3) by (auto simp: numeral_3_eq_3 Suc_le_length_iff)
  obtain d0 d1 ds where mnc: "pl_MNC p = d0 # d1 # ds" using assms(4) by (auto simp: numeral_2_eq_2 Suc_le_length_iff)
  have dig: "is_digit c0" "is_digit c1" "is_digit c2" "is_digit d0" "is_digit d1" using assms(1,2) mcc mnc by simp_all
  have F: "(0xF0 OR l) AND 0x0F = l" "drop_bit 4 (0xF0 OR l) AND 0x0F = 15" if "l < 16" for l :: byte
    using nibbles [of 15 l] that by (simp_all del: drop_bit_or)
  have ds: "ds = [d2] \<Longrightarrow> is_digit d2" for d2 using assms(2) mnc by simp
  show ?thesis
  proof (cases "length (pl_MNC p) = 3")
    case True
    then obtain d2 where "ds = [d2]" using mnc by (auto simp: length_Suc_conv)
    with mcc mnc dig ds show ?thesis
      by (simp add: encodePLMNIdentity_def decodePLMNIdentity_def bytes_of_def nibbles digit_nibble Let_def numeral_3_eq_3 numeral_2_eq_2 del: drop_bit_or)
  next
    case False
    with mcc mnc dig show ?thesis
      by (simp add: encodePLMNIdentity_def decodePLMNIdentity_def bytes_of_def nibbles digit_nibble Let_def numeral_3_eq_3 numeral_2_eq_2 F del: drop_bit_or)
  qed
qed

lemma decodePLMN_digits: "list_all is_digit (pl_MCC (decodePLMNIdentity bs)) \<and> list_all is_digit (pl_MNC (decodePLMNIdentity bs))"
  using nat_digits_ok by (simp add: decodePLMNIdentity_def zeroPLMN_def Let_def)

section \<open>Properties\<close>

text \<open>A network identity survives coding exactly if its country code has three digits and its network code two or
  three; any other value is changed without an error.\<close>

theorem PLMN_roundtrip_iff:
  "decodePLMNIdentity (encodePLMNIdentity p) = p \<longleftrightarrow>
     length (pl_MCC p) = 3 \<and> length (pl_MNC p) \<in> {2, 3} \<and> list_all is_digit (pl_MCC p) \<and> list_all is_digit (pl_MNC p)"
proof
  assume r: "decodePLMNIdentity (encodePLMNIdentity p) = p"
  then have d: "list_all is_digit (pl_MCC p)" "list_all is_digit (pl_MNC p)" using decodePLMN_digits by metis+
  show "length (pl_MCC p) = 3 \<and> length (pl_MNC p) \<in> {2, 3} \<and> list_all is_digit (pl_MCC p) \<and> list_all is_digit (pl_MNC p)"
  proof (cases "3 \<le> length (pl_MCC p) \<and> 2 \<le> length (pl_MNC p)")
    case True
    with d decode_encodePLMN_digits [of p] r have "pl_MCC p = take 3 (pl_MCC p)" "length (pl_MNC p) = 3 \<or> pl_MNC p = take 2 (pl_MNC p)"
      by (metis PLMNIdentity.select_convs)+
    then have "length (pl_MCC p) \<le> 3" "length (pl_MNC p) = 3 \<or> length (pl_MNC p) \<le> 2" by (metis length_take min.cobounded2)+
    with True d show ?thesis by auto
  next
    case False
    then have "encodePLMNIdentity p = [0, 0, 0]" by (auto simp: encodePLMNIdentity_def Let_def)
    with r have "p = decodePLMNIdentity [0, 0, 0]" by simp
    then have "length (pl_MCC p) = 3 \<and> length (pl_MNC p) = 3" by (simp add: decodePLMNIdentity_def nat_digits.simps Let_def)
    with False show ?thesis by simp
  qed
next
  assume "length (pl_MCC p) = 3 \<and> length (pl_MNC p) \<in> {2, 3} \<and> list_all is_digit (pl_MCC p) \<and> list_all is_digit (pl_MNC p)"
  then show "decodePLMNIdentity (encodePLMNIdentity p) = p" using decode_encodePLMN_digits [of p] by auto
qed

end
