(* ===== verification/E2AP_Codec.thy ===== *)
theory E2AP_Codec
  imports E2AP_Wire
begin

unbundle bit_operations_syntax

text \<open>
  The E2AP messages (\<open>pkg/oran/e2/e2ap_messages.go\<close>, \<open>e2ap_types.go\<close>) and their binary codec (\<open>asn1_codec.go\<close>). An \<open>int32\<close>
  is a 32-bit word, an \<open>int\<close> a 64-bit word, and the conversions to the width on the wire cut them off. Slices are
  lists: a nil slice and an empty one are the same here.
\<close>

section \<open>Model\<close>

subsection \<open>Messages\<close>

type_synonym E2APMessageType = "64 word"
type_synonym Criticality = "64 word"
type_synonym E2NodeType = "64 word"
type_synonym RICID = "64 word"
type_synonym RICRequestorID = "32 word"
type_synonym RICInstanceID = "32 word"
type_synonym RANFunctionID = "32 word"
type_synonym RANFunctionRevision = "32 word"
type_synonym RICActionID = "32 word"
type_synonym RICIndicationSN = "32 word"
type_synonym RICCallProcessID = "byte list"

record GNBIDChoice =
  gc_GNBID22 :: "string option"
  gc_GNBID32 :: "string option"

record ENBID =
  eb_MacroENBID :: "string option"
  eb_HomeENBID :: "string option"
  eb_ShortMacro :: "string option"
  eb_LongMacro :: "string option"

record NgENBID =
  nb_MacroNgENBID :: "string option"
  nb_ShortMacro :: "string option"
  nb_LongMacro :: "string option"

record E2NodeID =
  en_GNBID :: "GNBIDChoice option"
  en_ENBID :: "ENBID option"
  en_EnGNBID :: "string option"
  en_NgENBID :: "NgENBID option"

definition zeroE2NodeID :: E2NodeID where
  "zeroE2NodeID = \<lparr>en_GNBID = None, en_ENBID = None, en_EnGNBID = None, en_NgENBID = None\<rparr>"

record GlobalE2NodeID =
  gn_PLMNIdentity :: PLMNIdentity
  gn_NodeType :: E2NodeType
  gn_NodeID :: string
  gn_E2NodeID :: E2NodeID

record GlobalRICID =
  gr_PLMNIdentity :: PLMNIdentity
  gr_RICID :: RICID

record RICRequestID =
  rq_RICRequestorID :: RICRequestorID
  rq_RICInstanceID :: RICInstanceID

record E2APCause =
  ca_RICCause :: "64 word option"
  ca_RICServiceCause :: "64 word option"
  ca_E2NodeCause :: "64 word option"
  ca_TransportCause :: "64 word option"
  ca_ProtocolCause :: "64 word option"
  ca_MiscCause :: "64 word option"

definition zeroCause :: E2APCause where
  "zeroCause = \<lparr>ca_RICCause = None, ca_RICServiceCause = None, ca_E2NodeCause = None, ca_TransportCause = None, ca_ProtocolCause = None,
     ca_MiscCause = None\<rparr>"

record E2Cause =
  ec_CauseType :: "64 word"
  ec_CauseValue :: "64 word"

definition E2CauseTypeRIC :: "64 word" where "E2CauseTypeRIC = 0"

record RANFunctionItem =
  rf_RANFunctionID :: RANFunctionID
  rf_RANFunctionDefinition :: "byte list"
  rf_RANFunctionRevision :: RANFunctionRevision
  rf_RANFunctionOID :: "string option"

record RANFunctionIDItem =
  ri_RANFunctionID :: RANFunctionID
  ri_RANFunctionRevision :: RANFunctionRevision

record RANFunctionIDCause =
  rc_RANFunctionID :: RANFunctionID
  rc_Cause :: E2APCause

record RANFunctionIDCauseItem =
  rci_RANFunctionID :: "64 word"
  rci_Cause :: E2Cause

text \<open>The identifier of a component interface: seven pointers to structs of one string.\<close>

record E2NodeComponentID =
  ci_NG :: "string option"
  ci_Xn :: "string option"
  ci_E1 :: "string option"
  ci_F1 :: "string option"
  ci_W1 :: "string option"
  ci_S1 :: "string option"
  ci_X2 :: "string option"

definition zeroComponentID :: E2NodeComponentID where
  "zeroComponentID = \<lparr>ci_NG = None, ci_Xn = None, ci_E1 = None, ci_F1 = None, ci_W1 = None, ci_S1 = None, ci_X2 = None\<rparr>"

record E2NodeComponentConfiguration =
  cc_RequestPart :: "byte list"
  cc_ResponsePart :: "byte list"

record E2NodeComponentConfigurationItem =
  co_InterfaceType :: "64 word"
  co_ComponentID :: E2NodeComponentID
  co_Configuration :: E2NodeComponentConfiguration

record RICSubsequentAction =
  sa_Type :: "64 word"
  sa_TimeToWait :: "64 word option"

record RICActionToBeSetupItem =
  ra_RICActionID :: RICActionID
  ra_RICActionType :: "64 word"
  ra_RICActionDefinition :: "byte list"
  ra_RICSubsequentAction :: "RICSubsequentAction option"

record RICActionAdmittedItem =
  aa_ActionID :: "64 word"

record RICActionNotAdmittedItem =
  na_RICActionID :: RICActionID
  na_Cause :: E2APCause

record RICSubscriptionDetails =
  sd_EventTriggerDefinition :: "byte list"
  sd_ActionToBeSetupList :: "RICActionToBeSetupItem list"

record E2SetupRequest =
  sq_GlobalE2NodeID :: GlobalE2NodeID
  sq_RANFunctionsList :: "RANFunctionItem list"
  sq_ConfigurationList :: "E2NodeComponentConfigurationItem list"

record E2SetupResponse =
  sr_GlobalRICID :: GlobalRICID
  sr_RANFunctionsAccepted :: "RANFunctionIDItem list"
  sr_RANFunctionsRejected :: "RANFunctionIDCause list"
  sr_ConfigurationList :: "E2NodeComponentConfigurationItem list"

record RICSubscriptionRequest =
  su_RICRequestID :: RICRequestID
  su_RANFunctionID :: RANFunctionID
  su_Details :: RICSubscriptionDetails

record RICSubscriptionResponse =
  ss_RICRequestID :: RICRequestID
  ss_RANFunctionID :: RANFunctionID
  ss_ActionAdmittedList :: "RICActionID list"
  ss_ActionNotAdmittedList :: "RICActionNotAdmittedItem list"

record RICIndication =
  id_RICRequestID :: RICRequestID
  id_RANFunctionID :: RANFunctionID
  id_RICActionID :: RICActionID
  id_RICIndicationSN :: "RICIndicationSN option"
  id_RICIndicationType :: "64 word"
  id_RICIndicationHeader :: "byte list"
  id_RICIndicationMessage :: "byte list"
  id_RICCallProcessID :: "RICCallProcessID option"

record RICControlRequest =
  cr_RICRequestID :: RICRequestID
  cr_RANFunctionID :: RANFunctionID
  cr_RICCallProcessID :: "RICCallProcessID option"
  cr_RICControlHeader :: "byte list"
  cr_RICControlMessage :: "byte list"
  cr_RICControlAckRequest :: "64 word option"

record RICControlAcknowledge =
  ck_RICRequestID :: RICRequestID
  ck_RANFunctionID :: RANFunctionID
  ck_RICCallProcessID :: "RICCallProcessID option"
  ck_RICControlOutcome :: "byte list"

text \<open>The payload is an interface: one of the pointers that the codec knows, or something else.\<close>

datatype Payload =
    PSetupRequest E2SetupRequest | PSetupResponse E2SetupResponse | PSubscriptionRequest RICSubscriptionRequest
  | PSubscriptionResponse RICSubscriptionResponse | PIndication RICIndication | PControlRequest RICControlRequest
  | PControlAcknowledge RICControlAcknowledge | POther

record E2APMessage =
  em_MessageType :: E2APMessageType
  em_TransactionID :: "32 word"
  em_ProcedureCode :: "32 word"
  em_Criticality :: Criticality
  em_Payload :: Payload
  em_Timestamp :: time
  em_CorrelationID :: string

subsection \<open>Parts of messages\<close>

definition encodeRICRequestID :: "RICRequestID \<Rightarrow> byte list" where
  "encodeRICRequestID i = write_u16 (ucast (rq_RICRequestorID i)) @ write_u16 (ucast (rq_RICInstanceID i))"

definition decodeRICRequestID :: "RICRequestID reader" where
  "decodeRICRequestID = andThen read_u16 (\<lambda>requestorID. andThen read_u16 (\<lambda>instanceID.
     ret \<lparr>rq_RICRequestorID = ucast requestorID, rq_RICInstanceID = ucast instanceID\<rparr>))"

text \<open>The four kinds of node identifiers have the same code.\<close>

definition encodeNodeID :: "string \<Rightarrow> byte list" where "encodeNodeID nodeID = encodeOctetString (bytes_of nodeID)"
definition decodeNodeID :: "string reader" where "decodeNodeID = andThen decodeOctetString (\<lambda>data. ret (string_of data))"

definition encodeGlobalE2NodeID :: "GlobalE2NodeID \<Rightarrow> codec_error + byte list" where
  "encodeGlobalE2NodeID i =
     (if gn_NodeType i \<in> {0, 1, 2, 3}
      then Inr (write_u8 (ucast (gn_NodeType i)) @ encodePLMNIdentity (gn_PLMNIdentity i) @ encodeNodeID (gn_NodeID i))
      else Inl (UnsupportedNodeType (gn_NodeType i)))"

definition decodeGlobalE2NodeID :: "GlobalE2NodeID reader" where
  "decodeGlobalE2NodeID = andThen read_u8 (\<lambda>nodeType. andThen (read_full 3) (\<lambda>plmnBytes.
     if nodeType \<in> {0, 1, 2, 3}
     then andThen decodeNodeID (\<lambda>nodeID.
       ret \<lparr>gn_PLMNIdentity = decodePLMNIdentity plmnBytes, gn_NodeType = ucast nodeType, gn_NodeID = nodeID, gn_E2NodeID = zeroE2NodeID\<rparr>)
     else fail (UnsupportedNodeType (ucast nodeType))))"

definition encodeRANFunction :: "RANFunctionItem \<Rightarrow> byte list" where
  "encodeRANFunction fn = write_u16 (ucast (rf_RANFunctionID fn)) @ encodeOctetString (rf_RANFunctionDefinition fn)
     @ write_u16 (ucast (rf_RANFunctionRevision fn))
     @ (case rf_RANFunctionOID fn of Some oid \<Rightarrow> encodeOctetString (bytes_of oid) | None \<Rightarrow> encodeOctetString [])"

definition decodeRANFunction :: "RANFunctionItem reader" where
  "decodeRANFunction = andThen read_u16 (\<lambda>functionID. andThen decodeOctetString (\<lambda>def. andThen read_u16 (\<lambda>revision.
     andThen decodeOctetString (\<lambda>oid.
       ret \<lparr>rf_RANFunctionID = ucast functionID, rf_RANFunctionDefinition = def, rf_RANFunctionRevision = ucast revision,
            rf_RANFunctionOID = (if string_of oid \<noteq> [] then Some (string_of oid) else None)\<rparr>))))"

definition encodeRANFunctionsList :: "RANFunctionItem list \<Rightarrow> byte list" where "encodeRANFunctionsList = encode_items encodeRANFunction"
definition decodeRANFunctionsList :: "RANFunctionItem list reader" where "decodeRANFunctionsList = decode_items decodeRANFunction"

definition encodeE2NodeComponentID :: "E2NodeComponentID \<Rightarrow> byte list" where
  "encodeE2NodeComponentID i =
     (case ci_NG i of Some n \<Rightarrow> write_u8 0 @ encodeOctetString (bytes_of n) | None \<Rightarrow>
     (case ci_Xn i of Some n \<Rightarrow> write_u8 1 @ encodeOctetString (bytes_of n) | None \<Rightarrow>
     (case ci_E1 i of Some n \<Rightarrow> write_u8 2 @ encodeOctetString (bytes_of n) | None \<Rightarrow>
     (case ci_F1 i of Some n \<Rightarrow> write_u8 3 @ encodeOctetString (bytes_of n) | None \<Rightarrow>
     (case ci_W1 i of Some n \<Rightarrow> write_u8 4 @ encodeOctetString (bytes_of n) | None \<Rightarrow>
     (case ci_S1 i of Some n \<Rightarrow> write_u8 5 @ encodeOctetString (bytes_of n) | None \<Rightarrow>
     (case ci_X2 i of Some n \<Rightarrow> write_u8 6 @ encodeOctetString (bytes_of n) | None \<Rightarrow> write_u8 255)))))))"

definition decodeE2NodeComponentID :: "E2NodeComponentID reader" where
  "decodeE2NodeComponentID = andThen read_u8 (\<lambda>choice.
     if choice = 0 then andThen decodeOctetString (\<lambda>n. ret (zeroComponentID\<lparr>ci_NG := Some (string_of n)\<rparr>))
     else if choice = 1 then andThen decodeOctetString (\<lambda>n. ret (zeroComponentID\<lparr>ci_Xn := Some (string_of n)\<rparr>))
     else if choice = 2 then andThen decodeOctetString (\<lambda>n. ret (zeroComponentID\<lparr>ci_E1 := Some (string_of n)\<rparr>))
     else if choice = 3 then andThen decodeOctetString (\<lambda>n. ret (zeroComponentID\<lparr>ci_F1 := Some (string_of n)\<rparr>))
     else if choice = 4 then andThen decodeOctetString (\<lambda>n. ret (zeroComponentID\<lparr>ci_W1 := Some (string_of n)\<rparr>))
     else if choice = 5 then andThen decodeOctetString (\<lambda>n. ret (zeroComponentID\<lparr>ci_S1 := Some (string_of n)\<rparr>))
     else if choice = 6 then andThen decodeOctetString (\<lambda>n. ret (zeroComponentID\<lparr>ci_X2 := Some (string_of n)\<rparr>))
     else ret zeroComponentID)"

definition encodeE2NodeComponentConfiguration :: "E2NodeComponentConfiguration \<Rightarrow> byte list" where
  "encodeE2NodeComponentConfiguration config = encodeOctetString (cc_RequestPart config) @ encodeOctetString (cc_ResponsePart config)"

definition decodeE2NodeComponentConfiguration :: "E2NodeComponentConfiguration reader" where
  "decodeE2NodeComponentConfiguration = andThen decodeOctetString (\<lambda>requestPart. andThen decodeOctetString (\<lambda>responsePart.
     ret \<lparr>cc_RequestPart = requestPart, cc_ResponsePart = responsePart\<rparr>))"

definition encodeE2NodeComponentConfig :: "E2NodeComponentConfigurationItem \<Rightarrow> byte list" where
  "encodeE2NodeComponentConfig config = write_u8 (ucast (co_InterfaceType config)) @ encodeE2NodeComponentID (co_ComponentID config)
     @ encodeE2NodeComponentConfiguration (co_Configuration config)"

definition decodeE2NodeComponentConfig :: "E2NodeComponentConfigurationItem reader" where
  "decodeE2NodeComponentConfig = andThen read_u8 (\<lambda>interfaceType. andThen decodeE2NodeComponentID (\<lambda>i.
     andThen decodeE2NodeComponentConfiguration (\<lambda>configuration.
       ret \<lparr>co_InterfaceType = ucast interfaceType, co_ComponentID = i, co_Configuration = configuration\<rparr>)))"

definition encodeE2NodeComponentConfigList :: "E2NodeComponentConfigurationItem list \<Rightarrow> byte list" where
  "encodeE2NodeComponentConfigList = encode_items encodeE2NodeComponentConfig"
definition decodeE2NodeComponentConfigList :: "E2NodeComponentConfigurationItem list reader" where
  "decodeE2NodeComponentConfigList = decode_items decodeE2NodeComponentConfig"

definition encodeGlobalRICID :: "GlobalRICID \<Rightarrow> byte list" where
  "encodeGlobalRICID i = encodePLMNIdentity (gr_PLMNIdentity i) @ write_u32 (ucast (gr_RICID i))"

definition decodeGlobalRICID :: "GlobalRICID reader" where
  "decodeGlobalRICID = andThen (read_full 3) (\<lambda>plmnBytes. andThen read_u32 (\<lambda>ricID.
     ret \<lparr>gr_PLMNIdentity = decodePLMNIdentity plmnBytes, gr_RICID = ucast ricID\<rparr>))"

definition encodeRANFunctionIDItem :: "RANFunctionIDItem \<Rightarrow> byte list" where
  "encodeRANFunctionIDItem fn = write_u16 (ucast (ri_RANFunctionID fn)) @ write_u16 (ucast (ri_RANFunctionRevision fn))"

definition decodeRANFunctionIDItem :: "RANFunctionIDItem reader" where
  "decodeRANFunctionIDItem = andThen read_u16 (\<lambda>functionID. andThen read_u16 (\<lambda>revision.
     ret \<lparr>ri_RANFunctionID = ucast functionID, ri_RANFunctionRevision = ucast revision\<rparr>))"

definition encodeRANFunctionIDList :: "RANFunctionIDItem list \<Rightarrow> byte list" where "encodeRANFunctionIDList = encode_items encodeRANFunctionIDItem"
definition decodeRANFunctionIDList :: "RANFunctionIDItem list reader" where "decodeRANFunctionIDList = decode_items decodeRANFunctionIDItem"

definition encodeCause :: "E2Cause \<Rightarrow> byte list" where
  "encodeCause cause = write_u8 (ucast (ec_CauseType cause)) @ write_u16 (ucast (ec_CauseValue cause))"

definition decodeCause :: "E2Cause reader" where
  "decodeCause = andThen read_u8 (\<lambda>causeType. andThen read_u16 (\<lambda>causeValue.
     ret \<lparr>ec_CauseType = ucast causeType, ec_CauseValue = ucast causeValue\<rparr>))"

definition encodeRANFunctionIDCauseItem :: "RANFunctionIDCauseItem \<Rightarrow> byte list" where
  "encodeRANFunctionIDCauseItem fn = write_u16 (ucast (rci_RANFunctionID fn)) @ encodeCause (rci_Cause fn)"

definition decodeRANFunctionIDCauseItem :: "RANFunctionIDCauseItem reader" where
  "decodeRANFunctionIDCauseItem = andThen read_u16 (\<lambda>functionID. andThen decodeCause (\<lambda>cause.
     ret \<lparr>rci_RANFunctionID = ucast functionID, rci_Cause = cause\<rparr>))"

definition encodeRANFunctionIDCauseList :: "RANFunctionIDCauseItem list \<Rightarrow> byte list" where
  "encodeRANFunctionIDCauseList = encode_items encodeRANFunctionIDCauseItem"
definition decodeRANFunctionIDCauseList :: "RANFunctionIDCauseItem list reader" where
  "decodeRANFunctionIDCauseList = decode_items decodeRANFunctionIDCauseItem"

definition encodeSubsequentAction :: "RICSubsequentAction \<Rightarrow> byte list" where
  "encodeSubsequentAction action = write_u8 (ucast (sa_Type action))
     @ (case sa_TimeToWait action of Some t \<Rightarrow> write_u8 (ucast t) | None \<Rightarrow> write_u8 0)"

definition encodeRICAction :: "RICActionToBeSetupItem \<Rightarrow> byte list" where
  "encodeRICAction action = write_u16 (ucast (ra_RICActionID action)) @ write_u8 (ucast (ra_RICActionType action))
     @ (if ra_RICActionDefinition action \<noteq> [] then encodeOctetString (ra_RICActionDefinition action) else [])
     @ (case ra_RICSubsequentAction action of Some a \<Rightarrow> encodeSubsequentAction a | None \<Rightarrow> [])"

definition decodeRICAction :: "RICActionToBeSetupItem reader" where
  "decodeRICAction = andThen read_u16 (\<lambda>actionID. andThen read_u8 (\<lambda>actionType. andThen (attempt decodeOctetString) (\<lambda>r.
     ret \<lparr>ra_RICActionID = ucast actionID, ra_RICActionType = ucast actionType,
          ra_RICActionDefinition = (case r of Inl _ \<Rightarrow> [] | Inr def \<Rightarrow> def), ra_RICSubsequentAction = None\<rparr>)))"

definition encodeRICActionsList :: "RICActionToBeSetupItem list \<Rightarrow> byte list" where "encodeRICActionsList = encode_items encodeRICAction"
definition decodeRICActionsList :: "RICActionToBeSetupItem list reader" where "decodeRICActionsList = decode_items decodeRICAction"

definition encodeRICActionAdmittedItem :: "RICActionAdmittedItem \<Rightarrow> byte list" where
  "encodeRICActionAdmittedItem action = write_u16 (ucast (aa_ActionID action))"
definition decodeRICActionAdmittedItem :: "RICActionAdmittedItem reader" where
  "decodeRICActionAdmittedItem = andThen read_u16 (\<lambda>actionID. ret \<lparr>aa_ActionID = ucast actionID\<rparr>)"

definition encodeRICActionAdmittedList :: "RICActionAdmittedItem list \<Rightarrow> byte list" where
  "encodeRICActionAdmittedList = encode_items encodeRICActionAdmittedItem"
definition decodeRICActionAdmittedList :: "RICActionAdmittedItem list reader" where
  "decodeRICActionAdmittedList = decode_items decodeRICActionAdmittedItem"

text \<open>The cause of an action that is not admitted is replaced by a fixed one when it is written, and skipped when it is read.\<close>

definition encodeRICActionNotAdmittedItem :: "RICActionNotAdmittedItem \<Rightarrow> byte list" where
  "encodeRICActionNotAdmittedItem action = write_u16 (ucast (na_RICActionID action)) @ encodeCause \<lparr>ec_CauseType = E2CauseTypeRIC, ec_CauseValue = 0\<rparr>"
definition decodeRICActionNotAdmittedItem :: "RICActionNotAdmittedItem reader" where
  "decodeRICActionNotAdmittedItem = andThen read_u16 (\<lambda>actionID. andThen decodeCause (\<lambda>_.
     ret \<lparr>na_RICActionID = ucast actionID, na_Cause = zeroCause\<rparr>))"

definition encodeRICActionNotAdmittedList :: "RICActionNotAdmittedItem list \<Rightarrow> byte list" where
  "encodeRICActionNotAdmittedList = encode_items encodeRICActionNotAdmittedItem"
definition decodeRICActionNotAdmittedList :: "RICActionNotAdmittedItem list reader" where
  "decodeRICActionNotAdmittedList = decode_items decodeRICActionNotAdmittedItem"

definition encodeIndicationType :: "64 word \<Rightarrow> byte list" where "encodeIndicationType t = write_u8 (ucast t)"
definition decodeIndicationType :: "64 word reader" where "decodeIndicationType = andThen read_u8 (\<lambda>t. ret (ucast t))"

text \<open>A call process identifier is written if it is there and not empty.\<close>

definition encode_call_process :: "RICCallProcessID option \<Rightarrow> byte list" where
  "encode_call_process c = (case c of Some i \<Rightarrow> if i \<noteq> [] then encodeOctetString i else [] | None \<Rightarrow> [])"

subsection \<open>Messages\<close>

text \<open>A decoder of a message runs its reader on a new \<open>bytes.Reader\<close>; bytes that are left are ignored.\<close>

definition run :: "'a reader \<Rightarrow> byte list \<Rightarrow> codec_error + 'a" where "run m data = fst (m data)"

definition encodeE2SetupRequest :: "E2SetupRequest \<Rightarrow> codec_error + byte list" where
  "encodeE2SetupRequest req =
     (case encodeGlobalE2NodeID (sq_GlobalE2NodeID req) of
        Inl e \<Rightarrow> Inl e
      | Inr bs \<Rightarrow> Inr (bs @ encodeRANFunctionsList (sq_RANFunctionsList req)
          @ (if sq_ConfigurationList req \<noteq> [] then encodeE2NodeComponentConfigList (sq_ConfigurationList req) else [])))"

definition decodeE2SetupRequest :: "byte list \<Rightarrow> codec_error + E2SetupRequest" where
  "decodeE2SetupRequest = run (andThen decodeGlobalE2NodeID (\<lambda>globalID. andThen decodeRANFunctionsList (\<lambda>functions. andThen unread (\<lambda>more.
     if more
     then andThen decodeE2NodeComponentConfigList (\<lambda>configList.
       ret \<lparr>sq_GlobalE2NodeID = globalID, sq_RANFunctionsList = functions, sq_ConfigurationList = configList\<rparr>)
     else ret \<lparr>sq_GlobalE2NodeID = globalID, sq_RANFunctionsList = functions, sq_ConfigurationList = []\<rparr>))))"

definition encodeE2SetupResponse :: "E2SetupResponse \<Rightarrow> byte list" where
  "encodeE2SetupResponse resp = encodeGlobalRICID (sr_GlobalRICID resp)
     @ (if sr_RANFunctionsAccepted resp \<noteq> [] then encodeRANFunctionIDList (sr_RANFunctionsAccepted resp) else [])
     @ (if sr_RANFunctionsRejected resp \<noteq> []
        then encodeRANFunctionIDCauseList (map (\<lambda>rejected. \<lparr>rci_RANFunctionID = scast (rc_RANFunctionID rejected),
               rci_Cause = \<lparr>ec_CauseType = E2CauseTypeRIC, ec_CauseValue = 0\<rparr>\<rparr>) (sr_RANFunctionsRejected resp))
        else [])"

text \<open>An optional part: if there are bytes left it is attempted, and an error is ignored.\<close>

definition optional :: "'a reader \<Rightarrow> 'a option reader" where
  "optional m = andThen unread (\<lambda>more. if more then andThen (attempt m) (\<lambda>r. ret (case r of Inl _ \<Rightarrow> None | Inr x \<Rightarrow> Some x)) else ret None)"

definition decodeE2SetupResponse :: "byte list \<Rightarrow> codec_error + E2SetupResponse" where
  "decodeE2SetupResponse = run (andThen decodeGlobalRICID (\<lambda>ricID. andThen (optional decodeRANFunctionIDList) (\<lambda>accepted.
     andThen (optional decodeRANFunctionIDCauseList) (\<lambda>rejectedItems.
       ret \<lparr>sr_GlobalRICID = ricID, sr_RANFunctionsAccepted = (case accepted of None \<Rightarrow> [] | Some l \<Rightarrow> l),
            sr_RANFunctionsRejected = (case rejectedItems of None \<Rightarrow> []
              | Some l \<Rightarrow> map (\<lambda>item. \<lparr>rc_RANFunctionID = ucast (rci_RANFunctionID item), rc_Cause = zeroCause\<rparr>) l),
            sr_ConfigurationList = []\<rparr>))))"

definition encodeRICSubscriptionRequest :: "RICSubscriptionRequest \<Rightarrow> byte list" where
  "encodeRICSubscriptionRequest req = encodeRICRequestID (su_RICRequestID req) @ write_u16 (ucast (su_RANFunctionID req))
     @ encodeOctetString (sd_EventTriggerDefinition (su_Details req)) @ encodeRICActionsList (sd_ActionToBeSetupList (su_Details req))"

definition decodeRICSubscriptionRequest :: "byte list \<Rightarrow> codec_error + RICSubscriptionRequest" where
  "decodeRICSubscriptionRequest = run (andThen decodeRICRequestID (\<lambda>requestID. andThen read_u16 (\<lambda>ranFunctionID.
     andThen decodeOctetString (\<lambda>eventTrigger. andThen decodeRICActionsList (\<lambda>actions.
       ret \<lparr>su_RICRequestID = requestID, su_RANFunctionID = ucast ranFunctionID,
            su_Details = \<lparr>sd_EventTriggerDefinition = eventTrigger, sd_ActionToBeSetupList = actions\<rparr>\<rparr>)))))"

definition encodeRICSubscriptionResponse :: "RICSubscriptionResponse \<Rightarrow> byte list" where
  "encodeRICSubscriptionResponse resp = encodeRICRequestID (ss_RICRequestID resp) @ write_u16 (ucast (ss_RANFunctionID resp))
     @ encodeRICActionAdmittedList (map (\<lambda>actionID. \<lparr>aa_ActionID = scast actionID\<rparr>) (ss_ActionAdmittedList resp))
     @ (if ss_ActionNotAdmittedList resp \<noteq> [] then encodeRICActionNotAdmittedList (ss_ActionNotAdmittedList resp) else [])"

definition decodeRICSubscriptionResponse :: "byte list \<Rightarrow> codec_error + RICSubscriptionResponse" where
  "decodeRICSubscriptionResponse = run (andThen decodeRICRequestID (\<lambda>requestID. andThen read_u16 (\<lambda>ranFunctionID.
     andThen decodeRICActionAdmittedList (\<lambda>admittedItems. andThen (optional decodeRICActionNotAdmittedList) (\<lambda>notAdmitted.
       ret \<lparr>ss_RICRequestID = requestID, ss_RANFunctionID = ucast ranFunctionID,
            ss_ActionAdmittedList = map (\<lambda>item. ucast (aa_ActionID item)) admittedItems,
            ss_ActionNotAdmittedList = (case notAdmitted of None \<Rightarrow> [] | Some l \<Rightarrow> l)\<rparr>)))))"

definition encodeRICIndication :: "RICIndication \<Rightarrow> byte list" where
  "encodeRICIndication ind = encodeRICRequestID (id_RICRequestID ind) @ write_u16 (ucast (id_RANFunctionID ind))
     @ write_u16 (ucast (id_RICActionID ind))
     @ (case id_RICIndicationSN ind of Some sn \<Rightarrow> if sint sn > 0 then write_u32 sn else [] | None \<Rightarrow> [])
     @ encodeIndicationType (id_RICIndicationType ind) @ encodeOctetString (id_RICIndicationHeader ind)
     @ encodeOctetString (id_RICIndicationMessage ind) @ encode_call_process (id_RICCallProcessID ind)"

definition decodeRICIndication :: "byte list \<Rightarrow> codec_error + RICIndication" where
  "decodeRICIndication = run (andThen decodeRICRequestID (\<lambda>requestID. andThen read_u16 (\<lambda>ranFunctionID. andThen read_u16 (\<lambda>actionID.
     andThen (optional read_u32) (\<lambda>indicationSN. andThen decodeIndicationType (\<lambda>indicationType. andThen decodeOctetString (\<lambda>header.
     andThen decodeOctetString (\<lambda>message. andThen (optional decodeOctetString) (\<lambda>callProcessID.
       ret \<lparr>id_RICRequestID = requestID, id_RANFunctionID = ucast ranFunctionID, id_RICActionID = ucast actionID, id_RICIndicationSN = indicationSN,
            id_RICIndicationType = indicationType, id_RICIndicationHeader = header, id_RICIndicationMessage = message,
            id_RICCallProcessID = callProcessID\<rparr>)))))))))"

definition encodeRICControlRequest :: "RICControlRequest \<Rightarrow> byte list" where
  "encodeRICControlRequest req = encodeRICRequestID (cr_RICRequestID req) @ write_u16 (ucast (cr_RANFunctionID req))
     @ encode_call_process (cr_RICCallProcessID req) @ encodeOctetString (cr_RICControlHeader req) @ encodeOctetString (cr_RICControlMessage req)
     @ write_u8 (case cr_RICControlAckRequest req of None \<Rightarrow> 0 | Some a \<Rightarrow> ucast a)"

definition decodeRICControlRequest :: "byte list \<Rightarrow> codec_error + RICControlRequest" where
  "decodeRICControlRequest = run (andThen decodeRICRequestID (\<lambda>requestID. andThen read_u16 (\<lambda>ranFunctionID.
     andThen (attempt decodeOctetString) (\<lambda>callProcessID. andThen decodeOctetString (\<lambda>header. andThen decodeOctetString (\<lambda>message. andThen read_u8 (\<lambda>ackByte.
       ret \<lparr>cr_RICRequestID = requestID, cr_RANFunctionID = ucast ranFunctionID,
            cr_RICCallProcessID = (case callProcessID of Inl _ \<Rightarrow> None | Inr i \<Rightarrow> if i \<noteq> [] then Some i else None),
            cr_RICControlHeader = header, cr_RICControlMessage = message,
            cr_RICControlAckRequest = (if ackByte \<noteq> 0 then Some (ucast ackByte) else None)\<rparr>)))))))"

definition encodeRICControlAcknowledge :: "RICControlAcknowledge \<Rightarrow> byte list" where
  "encodeRICControlAcknowledge ack = encodeRICRequestID (ck_RICRequestID ack) @ write_u16 (ucast (ck_RANFunctionID ack))
     @ encode_call_process (ck_RICCallProcessID ack)
     @ (if ck_RICControlOutcome ack \<noteq> [] then encodeOctetString (ck_RICControlOutcome ack) else [])"

definition decodeRICControlAcknowledge :: "byte list \<Rightarrow> codec_error + RICControlAcknowledge" where
  "decodeRICControlAcknowledge = run (andThen decodeRICRequestID (\<lambda>requestID. andThen read_u16 (\<lambda>ranFunctionID.
     andThen (optional decodeOctetString) (\<lambda>callProcessID. andThen (optional decodeOctetString) (\<lambda>outcome.
       ret \<lparr>ck_RICRequestID = requestID, ck_RANFunctionID = ucast ranFunctionID, ck_RICCallProcessID = callProcessID,
            ck_RICControlOutcome = (case outcome of None \<Rightarrow> [] | Some o' \<Rightarrow> o')\<rparr>)))))"

subsection \<open>The codec\<close>

definition getMessageTypeFromProcedureCode :: "32 word \<Rightarrow> E2APMessageType" where
  "getMessageTypeFromProcedureCode code =
     (if code \<in> {1, 2, 3, 4, 5, 6, 11, 12, 13, 14, 15, 21, 22, 23, 24, 25, 31, 32, 33, 34} then ucast code else 0)"

text \<open>A payload of another dynamic type than the message type asks for makes the type assertion panic.\<close>

definition encodePayload :: "E2APMessageType \<Rightarrow> Payload \<Rightarrow> (codec_error + byte list) outcome" where
  "encodePayload msgType payload =
     (if msgType = 1 then (case payload of PSetupRequest p \<Rightarrow> Ret (encodeE2SetupRequest p) | _ \<Rightarrow> Panic ''interface conversion'')
      else if msgType = 11 then (case payload of PSetupResponse p \<Rightarrow> Ret (Inr (encodeE2SetupResponse p)) | _ \<Rightarrow> Panic ''interface conversion'')
      else if msgType = 2 then (case payload of PSubscriptionRequest p \<Rightarrow> Ret (Inr (encodeRICSubscriptionRequest p)) | _ \<Rightarrow> Panic ''interface conversion'')
      else if msgType = 12 then (case payload of PSubscriptionResponse p \<Rightarrow> Ret (Inr (encodeRICSubscriptionResponse p)) | _ \<Rightarrow> Panic ''interface conversion'')
      else if msgType = 31 then (case payload of PIndication p \<Rightarrow> Ret (Inr (encodeRICIndication p)) | _ \<Rightarrow> Panic ''interface conversion'')
      else if msgType = 3 then (case payload of PControlRequest p \<Rightarrow> Ret (Inr (encodeRICControlRequest p)) | _ \<Rightarrow> Panic ''interface conversion'')
      else if msgType = 13 then (case payload of PControlAcknowledge p \<Rightarrow> Ret (Inr (encodeRICControlAcknowledge p)) | _ \<Rightarrow> Panic ''interface conversion'')
      else Ret (Inl (UnsupportedMessageType msgType)))"

definition decodePayload :: "E2APMessageType \<Rightarrow> byte list \<Rightarrow> codec_error + Payload" where
  "decodePayload msgType data =
     (if msgType = 1 then map_sum id PSetupRequest (decodeE2SetupRequest data)
      else if msgType = 11 then map_sum id PSetupResponse (decodeE2SetupResponse data)
      else if msgType = 2 then map_sum id PSubscriptionRequest (decodeRICSubscriptionRequest data)
      else if msgType = 12 then map_sum id PSubscriptionResponse (decodeRICSubscriptionResponse data)
      else if msgType = 31 then map_sum id PIndication (decodeRICIndication data)
      else if msgType = 3 then map_sum id PControlRequest (decodeRICControlRequest data)
      else if msgType = 13 then map_sum id PControlAcknowledge (decodeRICControlAcknowledge data)
      else Inl (UnsupportedMessageType msgType))"

definition message_header :: "E2APMessage \<Rightarrow> byte list" where
  "message_header msg = write_u16 (ucast (em_ProcedureCode msg)) @ [push_bit 6 (ucast (em_Criticality msg AND 0x03))]
     @ write_u8 (ucast (em_TransactionID msg))"

definition EncodeE2APMessage :: "E2APMessage \<Rightarrow> (codec_error + byte list) outcome" where
  "EncodeE2APMessage msg =
     (case encodePayload (em_MessageType msg) (em_Payload msg) of
        Panic p \<Rightarrow> Panic p
      | Ret (Inl e) \<Rightarrow> Ret (Inl e)
      | Ret (Inr payloadBytes) \<Rightarrow> Ret (Inr (message_header msg @ write_u32 (of_nat (length payloadBytes)) @ payloadBytes)))"

definition DecodeE2APMessage :: "byte list \<Rightarrow> codec_error + E2APMessage" where
  "DecodeE2APMessage data =
     (if length data < 8 then Inl InsufficientData
      else run (andThen read_u16 (\<lambda>procedureCode. andThen read_u8 (\<lambda>criticalityByte. andThen read_u8 (\<lambda>transactionID.
        andThen read_u32 (\<lambda>payloadLength. andThen (read_full (unat payloadLength)) (\<lambda>payloadBytes.
          let messageType = getMessageTypeFromProcedureCode (ucast procedureCode)
          in case decodePayload messageType payloadBytes of
               Inl e \<Rightarrow> fail e
             | Inr payload \<Rightarrow>
                 ret \<lparr>em_MessageType = messageType, em_TransactionID = ucast transactionID, em_ProcedureCode = ucast procedureCode,
                      em_Criticality = ucast (drop_bit 6 criticalityByte), em_Payload = payload, em_Timestamp = zero_time,
                      em_CorrelationID = []\<rparr>)))))) data)"

subsection \<open>Constructors of messages\<close>

definition CreateE2SetupRequest :: "time \<Rightarrow> GlobalE2NodeID \<Rightarrow> RANFunctionItem list \<Rightarrow> E2APMessage" where
  "CreateE2SetupRequest now nodeID functions = \<lparr>em_MessageType = 1, em_TransactionID = 0, em_ProcedureCode = 1, em_Criticality = 0,
     em_Payload = PSetupRequest \<lparr>sq_GlobalE2NodeID = nodeID, sq_RANFunctionsList = functions, sq_ConfigurationList = []\<rparr>,
     em_Timestamp = now, em_CorrelationID = []\<rparr>"

definition CreateRICSubscriptionRequest :: "time \<Rightarrow> RICRequestID \<Rightarrow> RANFunctionID \<Rightarrow> RICSubscriptionDetails \<Rightarrow> E2APMessage" where
  "CreateRICSubscriptionRequest now requestID functionID details = \<lparr>em_MessageType = 2, em_TransactionID = 0, em_ProcedureCode = 2,
     em_Criticality = 0, em_Payload = PSubscriptionRequest \<lparr>su_RICRequestID = requestID, su_RANFunctionID = functionID, su_Details = details\<rparr>,
     em_Timestamp = now, em_CorrelationID = []\<rparr>"

definition CreateRICControlRequest :: "time \<Rightarrow> RICRequestID \<Rightarrow> RANFunctionID \<Rightarrow> byte list \<Rightarrow> byte list \<Rightarrow> E2APMessage" where
  "CreateRICControlRequest now requestID functionID header message = \<lparr>em_MessageType = 3, em_TransactionID = 0, em_ProcedureCode = 3,
     em_Criticality = 0, em_Payload = PControlRequest \<lparr>cr_RICRequestID = requestID, cr_RANFunctionID = functionID, cr_RICCallProcessID = None,
       cr_RICControlHeader = header, cr_RICControlMessage = message, cr_RICControlAckRequest = None\<rparr>,
     em_Timestamp = now, em_CorrelationID = []\<rparr>"

section \<open>Lemmas\<close>

subsection \<open>Widths\<close>

lemma ucast_round:
  assumes "unat (x :: 'a::len word) < 2 ^ LENGTH('b::len)"
  shows "ucast (ucast x :: 'b word) = x"
proof -
  have "unat (ucast x :: 'b word) = unat x" using assms by (simp add: unsigned_ucast_eq take_bit_nat_eq_self_iff)
  moreover have "unat (ucast (ucast x :: 'b word) :: 'a word) = take_bit LENGTH('a) (unat (ucast x :: 'b word))" by (rule unsigned_ucast_eq)
  ultimately have "unat (ucast (ucast x :: 'b word) :: 'a word) = unat x" by (simp only:) (simp add: take_bit_nat_eq_self_iff)
  then show ?thesis using word_unat_eq_iff by blast
qed

abbreviation fits8 :: "'a::len word \<Rightarrow> bool" where "fits8 x \<equiv> unat x < 256"
abbreviation fits16 :: "'a::len word \<Rightarrow> bool" where "fits16 x \<equiv> unat x < 65536"
abbreviation fits32 :: "'a::len word \<Rightarrow> bool" where "fits32 x \<equiv> unat x < 4294967296"

lemma ucast_rounds [simp]:
  "fits8 x \<Longrightarrow> ucast (ucast (x :: 'a::len word) :: 8 word) = x" "fits16 x \<Longrightarrow> ucast (ucast (x :: 'a::len word) :: 16 word) = x"
  "fits32 x \<Longrightarrow> ucast (ucast (x :: 'a::len word) :: 32 word) = x"
  by (rule ucast_round, simp)+

abbreviation short :: "'a list \<Rightarrow> bool" where "short xs \<equiv> length xs < 2 ^ 32"

subsection \<open>Parts\<close>

definition request_ok :: "RICRequestID \<Rightarrow> bool" where
  "request_ok i \<longleftrightarrow> fits16 (rq_RICRequestorID i) \<and> fits16 (rq_RICInstanceID i)"

interpretation request: wire_codec encodeRICRequestID decodeRICRequestID request_ok
  by unfold_locales (auto simp: encodeRICRequestID_def decodeRICRequestID_def request_ok_def wire intro!: consumes_andThen u16.decode_consumes)

lemma consumes_u8 [intro!]: "consumes read_u8" and consumes_u16 [intro!]: "consumes read_u16" and consumes_u32 [intro!]: "consumes read_u32"
  by (auto simp: read_u8_def read_u16_def read_u32_def)

definition node_ok :: "GlobalE2NodeID \<Rightarrow> bool" where
  "node_ok i \<longleftrightarrow> gn_NodeType i \<in> {0, 1, 2, 3} \<and> plmn_ok (gn_PLMNIdentity i) \<and> short (gn_NodeID i) \<and> gn_E2NodeID i = zeroE2NodeID"

lemma PLMN_round: "plmn_ok p \<Longrightarrow> decodePLMNIdentity (encodePLMNIdentity p) = p"
  using decode_encodePLMN_digits [of p] by (auto simp: plmn_ok_def)

lemma read_PLMN [wire]: "read_full 3 (encodePLMNIdentity p @ rest) = (Inr (encodePLMNIdentity p), rest)"
  using read_full_append [of "encodePLMNIdentity p" rest] by simp

lemma nodeID_round [wire]: "short s \<Longrightarrow> decodeNodeID (encodeNodeID s @ rest) = (Inr s, rest)"
  by (simp add: decodeNodeID_def encodeNodeID_def wire)

lemma consumes_decodeNodeID [intro!]: "consumes decodeNodeID"
  by (auto simp: decodeNodeID_def)

lemma node_round:
  assumes "node_ok i"
  shows "\<exists>bs. encodeGlobalE2NodeID i = Inr bs \<and> decodeGlobalE2NodeID (bs @ rest) = (Inr i, rest)"
proof -
  have t: "ucast (gn_NodeType i) \<in> {0, 1, 2, 3 :: 8 word}" "ucast (ucast (gn_NodeType i) :: 8 word) = gn_NodeType i"
    using assms by (auto simp: node_ok_def)
  with assms show ?thesis
    by (auto simp: encodeGlobalE2NodeID_def decodeGlobalE2NodeID_def node_ok_def wire PLMN_round)
qed

definition function_ok :: "RANFunctionItem \<Rightarrow> bool" where
  "function_ok fn \<longleftrightarrow> fits16 (rf_RANFunctionID fn) \<and> short (rf_RANFunctionDefinition fn) \<and> fits16 (rf_RANFunctionRevision fn)
     \<and> rf_RANFunctionOID fn \<noteq> Some [] \<and> pred_option short (rf_RANFunctionOID fn)"

interpretation ran_function: wire_codec encodeRANFunction decodeRANFunction function_ok
proof
  show "decodeRANFunction (encodeRANFunction fn @ rest) = (Inr fn, rest)" if "function_ok fn" for fn rest
    using that by (cases "rf_RANFunctionOID fn")
      (auto simp: encodeRANFunction_def decodeRANFunction_def function_ok_def wire)
  show "consumes decodeRANFunction" by (auto simp: decodeRANFunction_def)
qed

definition component_ok :: "E2NodeComponentID \<Rightarrow> bool" where
  "component_ok i \<longleftrightarrow> i = zeroComponentID \<or> (\<exists>n. short n \<and> i \<in> {zeroComponentID\<lparr>ci_NG := Some n\<rparr>, zeroComponentID\<lparr>ci_Xn := Some n\<rparr>,
     zeroComponentID\<lparr>ci_E1 := Some n\<rparr>, zeroComponentID\<lparr>ci_F1 := Some n\<rparr>, zeroComponentID\<lparr>ci_W1 := Some n\<rparr>, zeroComponentID\<lparr>ci_S1 := Some n\<rparr>,
     zeroComponentID\<lparr>ci_X2 := Some n\<rparr>})"

interpretation component: wire_codec encodeE2NodeComponentID decodeE2NodeComponentID component_ok
proof
  show "decodeE2NodeComponentID (encodeE2NodeComponentID i @ rest) = (Inr i, rest)" if "component_ok i" for i rest
    using that by (auto simp: component_ok_def encodeE2NodeComponentID_def decodeE2NodeComponentID_def wire)
      (simp_all add: zeroComponentID_def wire)
  show "consumes decodeE2NodeComponentID" by (auto simp: decodeE2NodeComponentID_def)
qed

definition config_ok :: "E2NodeComponentConfigurationItem \<Rightarrow> bool" where
  "config_ok c \<longleftrightarrow> fits8 (co_InterfaceType c) \<and> component_ok (co_ComponentID c) \<and> short (cc_RequestPart (co_Configuration c))
     \<and> short (cc_ResponsePart (co_Configuration c))"

interpretation config: wire_codec encodeE2NodeComponentConfig decodeE2NodeComponentConfig config_ok
proof
  show "decodeE2NodeComponentConfig (encodeE2NodeComponentConfig c @ rest) = (Inr c, rest)" if "config_ok c" for c rest
    using that by (auto simp: encodeE2NodeComponentConfig_def decodeE2NodeComponentConfig_def encodeE2NodeComponentConfiguration_def
        decodeE2NodeComponentConfiguration_def config_ok_def wire component.decode_encode)
  show "consumes decodeE2NodeComponentConfig"
    by (auto simp: decodeE2NodeComponentConfig_def decodeE2NodeComponentConfiguration_def component.decode_consumes)
qed

definition ric_ok :: "GlobalRICID \<Rightarrow> bool" where
  "ric_ok i \<longleftrightarrow> plmn_ok (gr_PLMNIdentity i) \<and> fits32 (gr_RICID i)"

interpretation ric: wire_codec encodeGlobalRICID decodeGlobalRICID ric_ok
  by unfold_locales (auto simp: encodeGlobalRICID_def decodeGlobalRICID_def ric_ok_def wire PLMN_round)

definition function_id_ok :: "RANFunctionIDItem \<Rightarrow> bool" where
  "function_id_ok fn \<longleftrightarrow> fits16 (ri_RANFunctionID fn) \<and> fits16 (ri_RANFunctionRevision fn)"

interpretation function_id: wire_codec encodeRANFunctionIDItem decodeRANFunctionIDItem function_id_ok
  by unfold_locales (auto simp: encodeRANFunctionIDItem_def decodeRANFunctionIDItem_def function_id_ok_def wire)

definition cause_ok :: "E2Cause \<Rightarrow> bool" where
  "cause_ok c \<longleftrightarrow> fits8 (ec_CauseType c) \<and> fits16 (ec_CauseValue c)"

interpretation cause: wire_codec encodeCause decodeCause cause_ok
  by unfold_locales (auto simp: encodeCause_def decodeCause_def cause_ok_def wire)

interpretation function_cause: wire_codec encodeRANFunctionIDCauseItem decodeRANFunctionIDCauseItem
    "\<lambda>fn. fits16 (rci_RANFunctionID fn) \<and> cause_ok (rci_Cause fn)"
  by unfold_locales (auto simp: encodeRANFunctionIDCauseItem_def decodeRANFunctionIDCauseItem_def wire cause.decode_encode cause.decode_consumes)

text \<open>An action survives in front of other data only if it has a definition and no subsequent action; at the end of the data the
  definition may be missing.\<close>

definition last_action_ok :: "RICActionToBeSetupItem \<Rightarrow> bool" where
  "last_action_ok a \<longleftrightarrow> fits16 (ra_RICActionID a) \<and> fits8 (ra_RICActionType a) \<and> short (ra_RICActionDefinition a) \<and> ra_RICSubsequentAction a = None"

definition action_ok :: "RICActionToBeSetupItem \<Rightarrow> bool" where
  "action_ok a \<longleftrightarrow> last_action_ok a \<and> ra_RICActionDefinition a \<noteq> []"

lemma decodeOctetString_Nil: "decodeOctetString [] = (Inl EOF, [])"
  by (simp add: decodeOctetString_def decodeLength_def read_u8_def read_full_def)

interpretation action: wire_codec encodeRICAction decodeRICAction action_ok
  by unfold_locales (auto simp: encodeRICAction_def decodeRICAction_def action_ok_def last_action_ok_def wire)

lemma last_action_round: "last_action_ok a \<Longrightarrow> decodeRICAction (encodeRICAction a) = (Inr a, [])"
proof (cases "ra_RICActionDefinition a = []")
  case True
  assume "last_action_ok a"
  with True read_write_u8 [of "ucast (ra_RICActionType a)" "[]"] show ?thesis
    by (simp add: encodeRICAction_def decodeRICAction_def last_action_ok_def wire decodeOctetString_Nil)
next
  case False
  assume "last_action_ok a"
  with False action.decode_encode [of a "[]"] show ?thesis by (simp add: action_ok_def)
qed

definition actions_ok :: "RICActionToBeSetupItem list \<Rightarrow> bool" where
  "actions_ok xs \<longleftrightarrow> short xs \<and> list_all action_ok (butlast xs) \<and> (xs \<noteq> [] \<longrightarrow> last_action_ok (last xs))"

lemma actions_items: "list_all action_ok (butlast xs) \<Longrightarrow> xs \<noteq> [] \<longrightarrow> last_action_ok (last xs) \<Longrightarrow>
  read_items decodeRICAction (length xs) (concat (map encodeRICAction xs)) = (Inr xs, [])"
proof (induction xs)
  case (Cons a xs)
  then show ?case by (cases xs) (simp_all add: last_action_round action.decode_encode)
qed simp

lemma actions_round: "actions_ok xs \<Longrightarrow> decodeRICActionsList (encodeRICActionsList xs) = (Inr xs, [])"
  by (simp add: actions_ok_def decodeRICActionsList_def encodeRICActionsList_def decode_items_def encode_items_def wire actions_items)

lemma ucast_scast_16: "ucast (scast (x :: 32 word) :: 64 word) = (ucast x :: 16 word)"
  by (auto intro!: bit_word_eqI simp: bit_simps)

interpretation admitted: wire_codec encodeRICActionAdmittedItem decodeRICActionAdmittedItem "\<lambda>a. fits16 (aa_ActionID a)"
  by unfold_locales (auto simp: encodeRICActionAdmittedItem_def decodeRICActionAdmittedItem_def wire)

interpretation not_admitted: wire_codec encodeRICActionNotAdmittedItem decodeRICActionNotAdmittedItem
    "\<lambda>a. fits16 (na_RICActionID a) \<and> na_Cause a = zeroCause"
  by unfold_locales (auto simp: encodeRICActionNotAdmittedItem_def decodeRICActionNotAdmittedItem_def wire cause.decode_encode cause.decode_consumes
      cause_ok_def E2CauseTypeRIC_def)

text \<open>The counted lists, by the law of the locale for lists.\<close>

interpretation ran_functions: wire_codec encodeRANFunctionsList decodeRANFunctionsList "\<lambda>xs. list_all function_ok xs \<and> short xs"
  unfolding encodeRANFunctionsList_def decodeRANFunctionsList_def by (rule ran_function.list_codec)
interpretation configs: wire_codec encodeE2NodeComponentConfigList decodeE2NodeComponentConfigList "\<lambda>xs. list_all config_ok xs \<and> short xs"
  unfolding encodeE2NodeComponentConfigList_def decodeE2NodeComponentConfigList_def by (rule config.list_codec)
interpretation function_ids: wire_codec encodeRANFunctionIDList decodeRANFunctionIDList "\<lambda>xs. list_all function_id_ok xs \<and> short xs"
  unfolding encodeRANFunctionIDList_def decodeRANFunctionIDList_def by (rule function_id.list_codec)
interpretation function_causes: wire_codec encodeRANFunctionIDCauseList decodeRANFunctionIDCauseList
    "\<lambda>xs. list_all (\<lambda>fn. fits16 (rci_RANFunctionID fn) \<and> cause_ok (rci_Cause fn)) xs \<and> short xs"
  unfolding encodeRANFunctionIDCauseList_def decodeRANFunctionIDCauseList_def by (rule function_cause.list_codec)
interpretation admitteds: wire_codec encodeRICActionAdmittedList decodeRICActionAdmittedList "\<lambda>xs. list_all (\<lambda>a. fits16 (aa_ActionID a)) xs \<and> short xs"
  unfolding encodeRICActionAdmittedList_def decodeRICActionAdmittedList_def by (rule admitted.list_codec)
interpretation not_admitteds: wire_codec encodeRICActionNotAdmittedList decodeRICActionNotAdmittedList
    "\<lambda>xs. list_all (\<lambda>a. fits16 (na_RICActionID a) \<and> na_Cause a = zeroCause) xs \<and> short xs"
  unfolding encodeRICActionNotAdmittedList_def decodeRICActionNotAdmittedList_def by (rule not_admitted.list_codec)

subsection \<open>Messages\<close>

lemma optional_end [simp]: "optional m [] = (Inr None, [])"
  by (simp add: optional_def)

lemma optional_round: "m bs = (Inr x, rest) \<Longrightarrow> bs \<noteq> [] \<Longrightarrow> optional m bs = (Inr (Some x), rest)"
  by (simp add: optional_def)

lemma consumes_optional [intro!]: "consumes m \<Longrightarrow> consumes (optional m)"
  by (auto simp: optional_def)

lemma run_round: "m data = (Inr x, rest) \<Longrightarrow> run m data = Inr x"
  by (simp add: run_def)

lemma write_u32_not_empty [simp]: "write_u32 w \<noteq> []"
  by (metis length_0_conv write_length(3) zero_neq_numeral)

lemma encode_items_not_empty [simp]: "encode_items enc xs \<noteq> []"
  using encodeLength_length [of "length xs"] by (auto simp: encode_items_def split: if_splits)

lemma lists_not_empty [simp]: "encodeRANFunctionIDList a \<noteq> []" "encodeRANFunctionIDCauseList b \<noteq> []" "encodeRICActionNotAdmittedList c \<noteq> []"
    "encodeE2NodeComponentConfigList d \<noteq> []"
  by (simp_all add: encodeRANFunctionIDList_def encodeRANFunctionIDCauseList_def encodeRICActionNotAdmittedList_def encodeE2NodeComponentConfigList_def)

definition setup_request_ok :: "E2SetupRequest \<Rightarrow> bool" where
  "setup_request_ok r \<longleftrightarrow> node_ok (sq_GlobalE2NodeID r) \<and> list_all function_ok (sq_RANFunctionsList r) \<and> short (sq_RANFunctionsList r)
     \<and> list_all config_ok (sq_ConfigurationList r) \<and> short (sq_ConfigurationList r)"

lemma setup_request_round:
  assumes "setup_request_ok r"
  shows "\<exists>bs. encodeE2SetupRequest r = Inr bs \<and> decodeE2SetupRequest bs = Inr r"
proof -
  let ?tail = "encodeRANFunctionsList (sq_RANFunctionsList r)
    @ (if sq_ConfigurationList r \<noteq> [] then encodeE2NodeComponentConfigList (sq_ConfigurationList r) else [])"
  obtain bs where bs: "encodeGlobalE2NodeID (sq_GlobalE2NodeID r) = Inr bs" "decodeGlobalE2NodeID (bs @ ?tail) = (Inr (sq_GlobalE2NodeID r), ?tail)"
    using node_round assms unfolding setup_request_ok_def by blast
  then show ?thesis
    using assms ran_functions.decode_encode ran_functions.decode_end configs.decode_end
    by (cases "sq_ConfigurationList r = []")
      (auto simp: encodeE2SetupRequest_def decodeE2SetupRequest_def setup_request_ok_def intro!: run_round)
qed

definition setup_response_ok :: "E2SetupResponse \<Rightarrow> bool" where
  "setup_response_ok r \<longleftrightarrow> ric_ok (sr_GlobalRICID r) \<and> list_all function_id_ok (sr_RANFunctionsAccepted r) \<and> short (sr_RANFunctionsAccepted r)
     \<and> list_all (\<lambda>f. fits16 (rc_RANFunctionID f) \<and> rc_Cause f = zeroCause) (sr_RANFunctionsRejected r) \<and> short (sr_RANFunctionsRejected r)
     \<and> (sr_RANFunctionsRejected r \<noteq> [] \<longrightarrow> sr_RANFunctionsAccepted r \<noteq> []) \<and> sr_ConfigurationList r = []"

definition subscription_request_ok :: "RICSubscriptionRequest \<Rightarrow> bool" where
  "subscription_request_ok r \<longleftrightarrow> request_ok (su_RICRequestID r) \<and> fits16 (su_RANFunctionID r)
     \<and> short (sd_EventTriggerDefinition (su_Details r)) \<and> actions_ok (sd_ActionToBeSetupList (su_Details r))"

lemma subscription_request_round: "subscription_request_ok r \<Longrightarrow> decodeRICSubscriptionRequest (encodeRICSubscriptionRequest r) = Inr r"
  by (auto simp: decodeRICSubscriptionRequest_def encodeRICSubscriptionRequest_def subscription_request_ok_def wire request.decode_encode actions_round
      intro!: run_round)

definition indication_ok :: "RICIndication \<Rightarrow> bool" where
  "indication_ok i \<longleftrightarrow> request_ok (id_RICRequestID i) \<and> fits16 (id_RANFunctionID i) \<and> fits16 (id_RICActionID i)
     \<and> (\<exists>sn. id_RICIndicationSN i = Some sn \<and> sint sn > 0) \<and> fits8 (id_RICIndicationType i)
     \<and> short (id_RICIndicationHeader i) \<and> short (id_RICIndicationMessage i) \<and> id_RICCallProcessID i \<noteq> Some [] \<and> pred_option short (id_RICCallProcessID i)"

lemma indication_round: "indication_ok i \<Longrightarrow> decodeRICIndication (encodeRICIndication i) = Inr i"
  by (cases "id_RICCallProcessID i")
    (auto simp: decodeRICIndication_def encodeRICIndication_def indication_ok_def wire request.decode_encode optional_round
      decodeIndicationType_def encodeIndicationType_def encode_call_process_def octets.decode_end intro!: run_round)

definition control_request_ok :: "RICControlRequest \<Rightarrow> bool" where
  "control_request_ok r \<longleftrightarrow> request_ok (cr_RICRequestID r) \<and> fits16 (cr_RANFunctionID r)
     \<and> (\<exists>i. cr_RICCallProcessID r = Some i \<and> i \<noteq> [] \<and> short i) \<and> short (cr_RICControlHeader r) \<and> short (cr_RICControlMessage r)
     \<and> pred_option (\<lambda>a. fits8 a \<and> a \<noteq> 0) (cr_RICControlAckRequest r)"

lemma read_u8_end: "read_u8 (write_u8 w) = (Inr w, [])"
  using read_write_u8 [of w "[]"] by simp

lemma ucast8_0: "fits8 (a :: 64 word) \<Longrightarrow> ucast a = (0 :: 8 word) \<longleftrightarrow> a = 0"
  by (metis ucast_rounds(1) unsigned_0 of_int_0 ucast_0)

lemma control_request_round: "control_request_ok r \<Longrightarrow> decodeRICControlRequest (encodeRICControlRequest r) = Inr r"
  by (cases "cr_RICControlAckRequest r")
    (auto simp: decodeRICControlRequest_def encodeRICControlRequest_def control_request_ok_def wire request.decode_encode encode_call_process_def
      read_u8_end ucast8_0 intro!: run_round)

definition acknowledge_ok :: "RICControlAcknowledge \<Rightarrow> bool" where
  "acknowledge_ok a \<longleftrightarrow> request_ok (ck_RICRequestID a) \<and> fits16 (ck_RANFunctionID a) \<and> short (ck_RICControlOutcome a)
     \<and> (case ck_RICCallProcessID a of None \<Rightarrow> ck_RICControlOutcome a = [] | Some i \<Rightarrow> i \<noteq> [] \<and> short i)"

lemma u16_end: "read_u16 (write_u16 w) = (Inr w, [])"
  using read_write_u16 [of w "[]"] by simp

lemma acknowledge_round: "acknowledge_ok a \<Longrightarrow> decodeRICControlAcknowledge (encodeRICControlAcknowledge a) = Inr a"
  by (cases "ck_RICCallProcessID a"; cases "ck_RICControlOutcome a = []")
    (auto simp: decodeRICControlAcknowledge_def encodeRICControlAcknowledge_def acknowledge_ok_def wire request.decode_encode encode_call_process_def
      optional_round octets.decode_end u16_end intro!: run_round)

lemma scast_small:
  assumes "fits16 (x :: 32 word)"
  shows "(scast x :: 64 word) = ucast x" "fits16 (scast x :: 64 word)" "ucast (scast x :: 64 word) = x"
proof -
  have "int (unat x) < 65536" using assms by linarith
  then have u: "uint x < 65536" by simp
  have "sint x = signed_take_bit 31 (uint x)" by (simp add: sint_uint)
  also have "\<dots> = uint x" using u by (intro signed_take_bit_int_eq_self) (simp_all add: order_trans [OF _ uint_ge_0])
  finally have s: "sint x = uint x" .
  have "(scast x :: 64 word) = word_of_int (sint x)" by simp
  with s show c: "(scast x :: 64 word) = ucast x" by simp
  have "unat (ucast x :: 64 word) = unat x" using assms by (simp add: unsigned_ucast_eq take_bit_nat_eq_self_iff)
  with c assms show "fits16 (scast x :: 64 word)" by simp
  have "unat (ucast (ucast x :: 64 word) :: 32 word) = unat x"
    using assms \<open>unat (ucast x :: 64 word) = unat x\<close> unsigned_ucast_eq [where 'c = 32 and 'b = 64 and 'a = nat, of "ucast x :: 64 word"]
    by (simp add: take_bit_nat_eq_self_iff)
  with c show "ucast (scast x :: 64 word) = x" by (metis word_unat_eq_iff)
qed

lemma setup_response_round:
  assumes "setup_response_ok r"
  shows "decodeE2SetupResponse (encodeE2SetupResponse r) = Inr r"
proof -
  let ?items = "map (\<lambda>rejected. \<lparr>rci_RANFunctionID = scast (rc_RANFunctionID rejected),
      rci_Cause = \<lparr>ec_CauseType = E2CauseTypeRIC, ec_CauseValue = 0\<rparr>\<rparr>) (sr_RANFunctionsRejected r)"
  have "list_all (\<lambda>fn. fits16 (rci_RANFunctionID fn) \<and> cause_ok (rci_Cause fn)) ?items \<and> short ?items"
    using assms by (auto simp: setup_response_ok_def list_all_iff cause_ok_def E2CauseTypeRIC_def scast_small(2))
  note items = function_causes.decode_end [OF this]
  have again: "map (\<lambda>item. \<lparr>rc_RANFunctionID = ucast (rci_RANFunctionID item), rc_Cause = zeroCause\<rparr>) ?items = sr_RANFunctionsRejected r"
    using assms by (auto simp: setup_response_ok_def list_all_iff scast_small(3) intro!: map_idI)
  show ?thesis
    using assms items again
    by (cases "sr_RANFunctionsAccepted r = []"; cases "sr_RANFunctionsRejected r = []")
      (auto simp: decodeE2SetupResponse_def encodeE2SetupResponse_def setup_response_ok_def ric.decode_encode ric.decode_end function_ids.decode_encode
        function_ids.decode_end optional_round comp_def intro!: run_round)
qed

definition subscription_response_ok :: "RICSubscriptionResponse \<Rightarrow> bool" where
  "subscription_response_ok r \<longleftrightarrow> request_ok (ss_RICRequestID r) \<and> fits16 (ss_RANFunctionID r)
     \<and> list_all fits16 (ss_ActionAdmittedList r) \<and> short (ss_ActionAdmittedList r)
     \<and> list_all (\<lambda>a. fits16 (na_RICActionID a) \<and> na_Cause a = zeroCause) (ss_ActionNotAdmittedList r) \<and> short (ss_ActionNotAdmittedList r)"

lemma subscription_response_round:
  assumes "subscription_response_ok r"
  shows "decodeRICSubscriptionResponse (encodeRICSubscriptionResponse r) = Inr r"
proof -
  let ?items = "map (\<lambda>actionID. \<lparr>aa_ActionID = scast actionID\<rparr>) (ss_ActionAdmittedList r)"
  have "list_all (\<lambda>a. fits16 (aa_ActionID a)) ?items \<and> short ?items"
    using assms by (auto simp: subscription_response_ok_def list_all_iff scast_small(2))
  note items = admitteds.decode_encode [OF this] admitteds.decode_end [OF this]
  have again: "map (\<lambda>item. ucast (aa_ActionID item)) ?items = ss_ActionAdmittedList r"
    using assms by (auto simp: subscription_response_ok_def list_all_iff scast_small(3) intro!: map_idI)
  show ?thesis
    using assms items again
    by (cases "ss_ActionNotAdmittedList r = []")
      (auto simp: decodeRICSubscriptionResponse_def encodeRICSubscriptionResponse_def subscription_response_ok_def request.decode_encode wire
        not_admitteds.decode_end optional_round comp_def intro!: run_round)
qed

subsection \<open>The codec\<close>

fun payload_type :: "Payload \<Rightarrow> E2APMessageType" where
  "payload_type (PSetupRequest _) = 1" | "payload_type (PSetupResponse _) = 11" | "payload_type (PSubscriptionRequest _) = 2"
| "payload_type (PSubscriptionResponse _) = 12" | "payload_type (PIndication _) = 31" | "payload_type (PControlRequest _) = 3"
| "payload_type (PControlAcknowledge _) = 13" | "payload_type POther = 0"

fun payload_ok :: "Payload \<Rightarrow> bool" where
  "payload_ok (PSetupRequest p) = setup_request_ok p" | "payload_ok (PSetupResponse p) = setup_response_ok p"
| "payload_ok (PSubscriptionRequest p) = subscription_request_ok p" | "payload_ok (PSubscriptionResponse p) = subscription_response_ok p"
| "payload_ok (PIndication p) = indication_ok p" | "payload_ok (PControlRequest p) = control_request_ok p"
| "payload_ok (PControlAcknowledge p) = acknowledge_ok p" | "payload_ok POther = False"

lemma payload_round:
  assumes "payload_ok p"
  shows "\<exists>bs. encodePayload (payload_type p) p = Ret (Inr bs) \<and> decodePayload (payload_type p) bs = Inr p"
proof (cases p)
  case (PSetupRequest r)
  then show ?thesis using assms setup_request_round [of r] by (auto simp: encodePayload_def decodePayload_def)
qed (use assms in \<open>auto simp: encodePayload_def decodePayload_def setup_response_round subscription_request_round subscription_response_round
  indication_round control_request_round acknowledge_round\<close>)

lemma payload_procedure:
  "payload_ok p \<Longrightarrow> getMessageTypeFromProcedureCode (ucast (ucast (payload_type p) :: 16 word)) = payload_type p"
  "payload_ok p \<Longrightarrow> ucast (ucast (ucast (payload_type p) :: 32 word) :: 16 word) = (ucast (payload_type p) :: 32 word)"
  by (cases p; simp add: getMessageTypeFromProcedureCode_def)+

lemma low_bits: "(x :: 32 word) AND 0xFF = take_bit 8 x" "(c :: 64 word) AND 0x03 = take_bit 2 c"
proof -
  have "(0xFF :: 32 word) = mask 8" "(0x03 :: 64 word) = mask 2" by (simp_all add: mask_eq_exp_minus_1)
  then show "x AND 0xFF = take_bit 8 x" "c AND 0x03 = take_bit 2 c" by (simp_all add: take_bit_eq_mask)
qed

lemma transaction_byte: "ucast (ucast x :: 8 word) = (x :: 32 word) AND 0xFF"
  unfolding low_bits by (auto intro!: bit_word_eqI simp: bit_simps)

lemma criticality_bits: "ucast (drop_bit 6 (push_bit 6 (ucast (c AND 0x03) :: 8 word))) = (c :: 64 word) AND 0x03"
  unfolding low_bits by (auto intro!: bit_word_eqI simp: bit_simps)

lemma read_u8_Cons: "read_u8 (w # rest) = (Inr w, rest)"
  using read_write_u8 [of w rest] by (simp add: write_u8_byte)

lemma read_header:
  "(andThen read_u16 (\<lambda>p. andThen read_u8 (\<lambda>c. andThen read_u8 (f p c)))) (message_header m @ rest) =
     f (ucast (em_ProcedureCode m)) (push_bit 6 (ucast (em_Criticality m AND 0x03))) (ucast (em_TransactionID m)) rest"
  by (simp add: message_header_def wire write_u8_byte read_u8_Cons)

lemma message_header_length [simp]: "length (message_header m) = 4"
  by (simp add: message_header_def)

lemma DecodeE2APMessage_encoded:
  assumes "length payload < 2 ^ 32"
  shows "DecodeE2APMessage (message_header m @ write_u32 (of_nat (length payload)) @ payload @ extra) =
    (let messageType = getMessageTypeFromProcedureCode (ucast (ucast (em_ProcedureCode m) :: 16 word))
     in map_sum id (\<lambda>p. \<lparr>em_MessageType = messageType, em_TransactionID = em_TransactionID m AND 0xFF,
          em_ProcedureCode = ucast (ucast (em_ProcedureCode m) :: 16 word), em_Criticality = em_Criticality m AND 0x03, em_Payload = p,
          em_Timestamp = zero_time, em_CorrelationID = []\<rparr>) (decodePayload messageType payload))"
proof -
  have "unat (of_nat (length payload) :: 32 word) = length payload" using assms by (simp add: unat_of_nat)
  then show ?thesis
    unfolding DecodeE2APMessage_def run_def read_header
    by (simp add: wire transaction_byte criticality_bits Let_def split: sum.split)
qed

subsection \<open>What cannot be decoded\<close>

definition request_cut :: "RICRequestID \<Rightarrow> RICRequestID" where
  "request_cut i = \<lparr>rq_RICRequestorID = ucast (ucast (rq_RICRequestorID i) :: 16 word), rq_RICInstanceID = ucast (ucast (rq_RICInstanceID i) :: 16 word)\<rparr>"

lemma request_any: "decodeRICRequestID (encodeRICRequestID i @ rest) = (Inr (request_cut i), rest)"
  by (simp add: encodeRICRequestID_def decodeRICRequestID_def request_cut_def wire)

lemma read_empty [simp]: "read_u8 [] = (Inl EOF, [])" "read_u16 [] = (Inl EOF, [])" "read_u32 [] = (Inl EOF, [])" "0 < n \<Longrightarrow> read_full n [] = (Inl EOF, [])"
  by (simp_all add: read_u8_def read_u16_def read_u32_def read_full_def)

lemma single_octet: "decodeOctetString [b] = (Inr [], []) \<or> (\<exists>e. decodeOctetString [b] = (Inl e, []))"
proof (cases "b < 128")
  case True
  then show ?thesis
    by (cases "b = 0") (simp_all add: decodeOctetString_def decodeLength_def read_u8_Cons read_full_def unat_gt_0)
next
  case False
  then have "\<exists>e. decodeLength [b] = (Inl e, [])" by (simp add: decodeLength_def read_u8_Cons Let_def)
  then show ?thesis by (auto simp: decodeOctetString_def)
qed

lemma control_request_lost:
  assumes "cr_RICCallProcessID r = None \<or> cr_RICCallProcessID r = Some []" "short (cr_RICControlHeader r)" "short (cr_RICControlMessage r)"
  shows "\<exists>e. decodeRICControlRequest (encodeRICControlRequest r) = Inl e"
proof -
  let ?b = "case cr_RICControlAckRequest r of None \<Rightarrow> 0 | Some a \<Rightarrow> ucast a"
  have c: "encode_call_process (cr_RICCallProcessID r) = []" using assms(1) by (auto simp: encode_call_process_def)
  then show ?thesis
    using single_octet [of ?b] assms(2,3)
    by (auto simp: decodeRICControlRequest_def encodeRICControlRequest_def wire request_any write_u8_byte run_def)
qed

lemma read_u32_failed: "read_u32 bs = (Inl e, rest) \<Longrightarrow> rest = []"
  by (auto simp: read_u32_def andThen_def read_full_def split: if_splits sum.splits prod.splits)

lemma Encode_cases:
  assumes "EncodeE2APMessage m = Ret (Inr bs)"
  obtains payload where "encodePayload (em_MessageType m) (em_Payload m) = Ret (Inr payload)"
    "bs = message_header m @ write_u32 (of_nat (length payload)) @ payload"
  using assms by (auto simp: EncodeE2APMessage_def split: outcome.splits sum.splits)

text \<open>An acknowledgement, for the instances.\<close>

definition demo_ack :: E2APMessage where
  "demo_ack = \<lparr>em_MessageType = 13, em_TransactionID = 7, em_ProcedureCode = 13, em_Criticality = 1,
     em_Payload = PControlAcknowledge \<lparr>ck_RICRequestID = \<lparr>rq_RICRequestorID = 1, rq_RICInstanceID = 2\<rparr>, ck_RANFunctionID = 3,
       ck_RICCallProcessID = None, ck_RICControlOutcome = []\<rparr>, em_Timestamp = zero_time, em_CorrelationID = []\<rparr>"

lemma demo_ack_ok: "payload_ok (em_Payload demo_ack)" "em_MessageType demo_ack = payload_type (em_Payload demo_ack)"
    "em_ProcedureCode demo_ack = ucast (em_MessageType demo_ack)"
  by (simp_all add: demo_ack_def acknowledge_ok_def request_ok_def)

lemma demo_ack_length: "EncodeE2APMessage demo_ack = Ret (Inr bs) \<Longrightarrow> length bs = 14"
  by (auto simp: EncodeE2APMessage_def encodePayload_def demo_ack_def encodeRICControlAcknowledge_def encodeRICRequestID_def encode_call_process_def)

section \<open>Properties\<close>

text \<open>C19: Coding round trip of the messages. A payload whose parts have the width of the wire and which the format can
  express (\<open>payload_ok\<close>) is encoded, and the decoder gives the message back, whatever follows it: with the transaction
  identifier cut to eight bits, the criticality to two, and without time stamp and correlation identifier.\<close>

theorem E2AP_roundtrip:
  assumes "payload_ok (em_Payload m)" "em_MessageType m = payload_type (em_Payload m)" "em_ProcedureCode m = ucast (em_MessageType m)"
  shows "\<exists>bs. EncodeE2APMessage m = Ret (Inr bs) \<and>
    (length bs < 2 ^ 32 \<longrightarrow> DecodeE2APMessage (bs @ extra) =
       Inr (m\<lparr>em_TransactionID := em_TransactionID m AND 0xFF, em_Criticality := em_Criticality m AND 0x03, em_Timestamp := zero_time, em_CorrelationID := []\<rparr>))"
proof -
  obtain payload where p: "encodePayload (em_MessageType m) (em_Payload m) = Ret (Inr payload)"
      "decodePayload (em_MessageType m) payload = Inr (em_Payload m)" using payload_round [OF assms(1)] assms(2) by auto
  let ?bs = "message_header m @ write_u32 (of_nat (length payload)) @ payload"
  have e: "EncodeE2APMessage m = Ret (Inr ?bs)" using p(1) by (simp add: EncodeE2APMessage_def)
  have t: "getMessageTypeFromProcedureCode (ucast (ucast (em_ProcedureCode m) :: 16 word)) = em_MessageType m"
    "ucast (ucast (em_ProcedureCode m) :: 16 word) = em_ProcedureCode m"
    using payload_procedure [OF assms(1)] assms(2,3) by (cases "em_Payload m"; simp add: getMessageTypeFromProcedureCode_def)+
  have "DecodeE2APMessage (?bs @ extra) =
       Inr (m\<lparr>em_TransactionID := em_TransactionID m AND 0xFF, em_Criticality := em_Criticality m AND 0x03, em_Timestamp := zero_time, em_CorrelationID := []\<rparr>)"
    if "length ?bs < 2 ^ 32"
    using DecodeE2APMessage_encoded [of payload m extra] that p(2) by (simp add: t(2) t(1) [unfolded t(2)] Let_def)
  with e show ?thesis by blast
qed

theorem E2AP_roundtrip_witness:
  "\<exists>bs. EncodeE2APMessage demo_ack = Ret (Inr bs) \<and> DecodeE2APMessage bs = Inr demo_ack"
proof -
  obtain bs where bs: "EncodeE2APMessage demo_ack = Ret (Inr bs)" and d: "length bs < 2 ^ 32 \<longrightarrow> DecodeE2APMessage (bs @ []) =
      Inr (demo_ack\<lparr>em_TransactionID := em_TransactionID demo_ack AND 0xFF, em_Criticality := em_Criticality demo_ack AND 0x03,
        em_Timestamp := zero_time, em_CorrelationID := []\<rparr>)"
    using E2AP_roundtrip [OF demo_ack_ok, of "[]"] by blast
  with demo_ack_length have "DecodeE2APMessage bs = Inr demo_ack" by (simp add: demo_ack_def)
  with bs show ?thesis by blast
qed

text \<open>A message that has been cut off is rejected: no proper prefix of an encoded message is decoded.\<close>

theorem truncated_rejected:
  assumes "EncodeE2APMessage m = Ret (Inr bs)" "length bs < 2 ^ 32" "k < length bs"
  shows "\<exists>e. DecodeE2APMessage (take k bs) = Inl e"
proof -
  obtain payload where bs: "bs = message_header m @ write_u32 (of_nat (length payload)) @ payload" using assms(1) by (rule Encode_cases)
  show ?thesis
  proof (cases "k < 8")
    case False
    then have t: "take k bs = message_header m @ write_u32 (of_nat (length payload)) @ take (k - 8) payload" by (simp add: bs)
    have u: "unat (of_nat (length payload) :: 32 word) = length payload" using assms(2) by (simp add: bs unat_of_nat)
    have "length (take (k - 8) payload) < length payload" using assms(3) False by (simp add: bs)
    then have "\<exists>e. read_full (length payload) (take (k - 8) payload) = (Inl e, [])" by (auto simp: read_full_def)
    then show ?thesis unfolding DecodeE2APMessage_def run_def t read_header by (auto simp: wire u)
  qed (use assms(3) in \<open>simp add: DecodeE2APMessage_def\<close>)
qed

theorem truncated_rejected_witness: "\<exists>bs e. EncodeE2APMessage demo_ack = Ret (Inr bs) \<and> DecodeE2APMessage (take 13 bs) = Inl e"
proof -
  obtain bs where bs: "EncodeE2APMessage demo_ack = Ret (Inr bs)" using payload_round [OF demo_ack_ok(1)] demo_ack_ok(2)
    by (auto simp: EncodeE2APMessage_def)
  with truncated_rejected [OF bs, of 13] demo_ack_length [OF bs] show ?thesis by auto
qed

text \<open>A control request without a call process identifier, and every one that \<open>CreateRICControlRequest\<close> makes is such, is encoded
  without an error but cannot be decoded: the decoder takes the header for the missing identifier and runs out of data.\<close>

theorem control_request_undecodable:
  assumes "short header" "short message" "EncodeE2APMessage (CreateRICControlRequest now requestID functionID header message) = Ret (Inr bs)" "length bs < 2 ^ 32"
  shows "\<exists>e. DecodeE2APMessage bs = Inl e"
proof -
  let ?m = "CreateRICControlRequest now requestID functionID header message"
  obtain r where r: "em_Payload ?m = PControlRequest r" "em_MessageType ?m = 3" "em_ProcedureCode ?m = 3" "cr_RICCallProcessID r = None"
      "cr_RICControlHeader r = header" "cr_RICControlMessage r = message" by (simp add: CreateRICControlRequest_def)
  obtain payload where p: "encodePayload 3 (PControlRequest r) = Ret (Inr payload)" "bs = message_header ?m @ write_u32 (of_nat (length payload)) @ payload"
    using Encode_cases [OF assms(3)] r by auto
  have "payload = encodeRICControlRequest r" using p(1) by (simp add: encodePayload_def)
  then obtain e where "decodePayload 3 payload = Inl e" using control_request_lost [of r] r(4-6) assms(1,2) by (auto simp: decodePayload_def)
  then show ?thesis using DecodeE2APMessage_encoded [of payload ?m "[]"] assms(4) r(3) by (simp add: p(2) getMessageTypeFromProcedureCode_def)
qed

theorem control_request_undecodable_witness:
  "\<exists>bs e. EncodeE2APMessage (CreateRICControlRequest 0 \<lparr>rq_RICRequestorID = 1, rq_RICInstanceID = 2\<rparr> 3 [1] [2]) = Ret (Inr bs) \<and> DecodeE2APMessage bs = Inl e"
proof -
  let ?m = "CreateRICControlRequest 0 \<lparr>rq_RICRequestorID = 1, rq_RICInstanceID = 2\<rparr> 3 [1] [2]"
  obtain bs where bs: "EncodeE2APMessage ?m = Ret (Inr bs)" by (simp add: CreateRICControlRequest_def EncodeE2APMessage_def encodePayload_def)
  then have "length bs = 19"
    by (auto simp: EncodeE2APMessage_def encodePayload_def CreateRICControlRequest_def encodeRICControlRequest_def encodeRICRequestID_def
        encode_call_process_def encodeOctetString_def encodeLength_length)
  with control_request_undecodable [OF _ _ bs] bs show ?thesis by simp
qed

text \<open>An indication without a sequence number never survives coding: the decoder reads the number that the encoder left out.\<close>

theorem indication_needs_sequence_number:
  assumes "id_RICIndicationSN i = None"
  shows "decodeRICIndication (encodeRICIndication i) \<noteq> Inr i"
proof -
  let ?rest = "encodeIndicationType (id_RICIndicationType i) @ encodeOctetString (id_RICIndicationHeader i)
     @ encodeOctetString (id_RICIndicationMessage i) @ encode_call_process (id_RICCallProcessID i)"
  have n: "?rest \<noteq> []" by simp
  obtain q rest' where q: "optional read_u32 ?rest = (Inr q, rest')" and c: "q \<noteq> None \<or> rest' = []"
  proof (cases "read_u32 ?rest")
    case (Pair r rest')
    then show thesis using that n read_u32_failed by (cases r) (auto simp: optional_def)
  qed
  show ?thesis
  proof (cases q)
    case None
    with c q have "decodeRICIndication (encodeRICIndication i) = Inl EOF"
      using assms by (simp add: decodeRICIndication_def encodeRICIndication_def wire request_any run_def decodeIndicationType_def)
    then show ?thesis by simp
  next
    case (Some w)
    have "\<forall>r. fst ((andThen decodeIndicationType (\<lambda>t. andThen decodeOctetString (\<lambda>h. andThen decodeOctetString (\<lambda>m. andThen (optional decodeOctetString) (\<lambda>c.
        ret \<lparr>id_RICRequestID = a, id_RANFunctionID = b, id_RICActionID = d, id_RICIndicationSN = q, id_RICIndicationType = t, id_RICIndicationHeader = h,
          id_RICIndicationMessage = m, id_RICCallProcessID = c\<rparr>))))) rest') = Inr r \<longrightarrow> id_RICIndicationSN r = q" for a b d
      by (auto simp: andThen_def split: prod.splits sum.splits)
    then show ?thesis
      using assms Some q by (auto simp: decodeRICIndication_def encodeRICIndication_def wire request_any run_def)
  qed
qed

theorem indication_needs_sequence_number_witness:
  "let i = \<lparr>id_RICRequestID = \<lparr>rq_RICRequestorID = 1, rq_RICInstanceID = 2\<rparr>, id_RANFunctionID = 3, id_RICActionID = 4, id_RICIndicationSN = None,
     id_RICIndicationType = 0, id_RICIndicationHeader = [1, 2], id_RICIndicationMessage = [3], id_RICCallProcessID = None\<rparr>
   in decodeRICIndication (encodeRICIndication i) \<noteq> Inr i"
  unfolding Let_def by (rule indication_needs_sequence_number) simp

text \<open>A control acknowledgement without a call process identifier comes back with its outcome as the identifier and no outcome.\<close>

theorem acknowledge_outcome_moved:
  assumes "request_ok (ck_RICRequestID a)" "fits16 (ck_RANFunctionID a)" "ck_RICCallProcessID a = None" "ck_RICControlOutcome a \<noteq> []" "short (ck_RICControlOutcome a)"
  shows "decodeRICControlAcknowledge (encodeRICControlAcknowledge a) = Inr (a\<lparr>ck_RICCallProcessID := Some (ck_RICControlOutcome a), ck_RICControlOutcome := []\<rparr>)"
  using assms
  by (auto simp: decodeRICControlAcknowledge_def encodeRICControlAcknowledge_def wire request.decode_encode encode_call_process_def
      optional_round octets.decode_end intro!: run_round)

theorem acknowledge_outcome_moved_witness:
  "decodeRICControlAcknowledge (encodeRICControlAcknowledge \<lparr>ck_RICRequestID = \<lparr>rq_RICRequestorID = 1, rq_RICInstanceID = 2\<rparr>, ck_RANFunctionID = 3,
     ck_RICCallProcessID = None, ck_RICControlOutcome = [9]\<rparr>)
   = Inr \<lparr>ck_RICRequestID = \<lparr>rq_RICRequestorID = 1, rq_RICInstanceID = 2\<rparr>, ck_RANFunctionID = 3, ck_RICCallProcessID = Some [9], ck_RICControlOutcome = []\<rparr>"
  using acknowledge_outcome_moved [of "\<lparr>ck_RICRequestID = \<lparr>rq_RICRequestorID = 1, rq_RICInstanceID = 2\<rparr>, ck_RANFunctionID = 3,
     ck_RICCallProcessID = None, ck_RICControlOutcome = [9]\<rparr>"] by (simp add: request_ok_def)

text \<open>A subscription with two actions without definitions, the second with an identifier below 256, is encoded but not decoded: the
  decoder takes the first byte of the second action for an empty definition of the first.\<close>

theorem definitions_required:
  assumes "sd_ActionToBeSetupList (su_Details r) = [a, b]" "ra_RICActionDefinition a = []" "ra_RICSubsequentAction a = None"
    "ra_RICActionDefinition b = []" "ra_RICSubsequentAction b = None" "fits8 (ra_RICActionID b)" "short (sd_EventTriggerDefinition (su_Details r))"
  shows "decodeRICSubscriptionRequest (encodeRICSubscriptionRequest r) = Inl EOF"
proof -
  let ?i = "ucast (ra_RICActionID b) :: 16 word" and ?t = "ucast (ra_RICActionType b) :: 8 word"
  have "unat ?i < 256" using assms(6) by (simp add: unsigned_ucast_eq le_less_trans [OF take_bit_nat_less_eq_self])
  then have w: "write_u16 ?i @ write_u8 ?t = encodeOctetString [] @ [of_nat (unat ?i), ?t]"
    by (simp add: write_u16_def write_u8_def encodeOctetString_def encodeLength_def numeral_2_eq_2)
  have d: "decodeOctetString (write_u16 ?i @ write_u8 ?t) = (Inr [], [of_nat (unat ?i), ?t])"
    unfolding w by (rule decode_encodeOctetString) simp
  have a: "decodeRICAction (encodeRICAction a @ encodeRICAction b) = (Inr (a\<lparr>ra_RICActionID := ucast (ucast (ra_RICActionID a) :: 16 word),
      ra_RICActionType := ucast (ucast (ra_RICActionType a) :: 8 word)\<rparr>), [of_nat (unat ?i), ?t])"
    using assms(2-5) d by (simp add: decodeRICAction_def encodeRICAction_def wire)
  have "\<exists>x. read_u16 [of_nat (unat ?i), ?t] = (Inr x, [])" by (simp add: read_u16_def read_full_def numeral_2_eq_2)
  then have "decodeRICAction [of_nat (unat ?i), ?t] = (Inl EOF, [])" by (auto simp: decodeRICAction_def)
  moreover have "decodeLength (encodeLength (Suc (Suc 0)) @ rest) = (Inr (Suc (Suc 0)), rest)" for rest
    by (rule decode_encodeLength) simp
  ultimately have "decodeRICActionsList (encodeRICActionsList [a, b]) = (Inl EOF, [])"
    using a by (simp add: decodeRICActionsList_def encodeRICActionsList_def decode_items_def encode_items_def)
  then show ?thesis
    using assms(1,7) by (simp add: decodeRICSubscriptionRequest_def encodeRICSubscriptionRequest_def wire request_any run_def)
qed

theorem definitions_required_witness:
  "decodeRICSubscriptionRequest (encodeRICSubscriptionRequest \<lparr>su_RICRequestID = \<lparr>rq_RICRequestorID = 1, rq_RICInstanceID = 2\<rparr>, su_RANFunctionID = 3,
     su_Details = \<lparr>sd_EventTriggerDefinition = [5], sd_ActionToBeSetupList =
       [\<lparr>ra_RICActionID = 1, ra_RICActionType = 0, ra_RICActionDefinition = [], ra_RICSubsequentAction = None\<rparr>,
        \<lparr>ra_RICActionID = 2, ra_RICActionType = 0, ra_RICActionDefinition = [], ra_RICSubsequentAction = None\<rparr>]\<rparr>\<rparr>) = Inl EOF"
  by (rule definitions_required, simp) simp_all

end
