(* ===== verification/Porch_Client.thy ===== *)
theory Porch_Client
  imports Porch_Types Go_Json Go_Strconv "HOL-Library.AList" "HOL-Library.Char_ord" "HOL-Library.List_Lexorder"
begin

text \<open>
  The Porch client (\<open>pkg/nephio/porch/client.go\<close>) with the types it serves (\<open>types.go\<close>): repositories and package
  revisions on a Kubernetes API server, behind a circuit breaker, a rate limiter and a cache. A \<open>Get\<close> hands out the
  pointer that the cache keeps, so the objects live in a store and the cache holds addresses. The API server, the
  breaker, the limiter, the clock, the conversions to unstructured objects and the iteration order of maps are the
  fields of \<open>Env\<close>, functions on a state \<open>'w\<close> of the world; metrics and logging are left out.
\<close>

section \<open>Model\<close>

subsection \<open>Errors\<close>

text \<open>An error of the API server; an error value of the client: \<open>Wrap\<close> is \<open>fmt.Errorf\<close> with \<open>%w\<close> at its end.\<close>

datatype api_error = ApiNotFound string | ApiOther string

datatype porch_error =
    Errorf string
  | PorchError string string
  | ApiErr api_error
  | Wrap string porch_error

definition ErrRepositoryNotFound :: porch_error where
  "ErrRepositoryNotFound = PorchError ''RepositoryNotFound'' ''repository not found''"

definition ErrPackageNotFound :: porch_error where
  "ErrPackageNotFound = PorchError ''PackageNotFound'' ''package not found''"

fun error_text :: "porch_error \<Rightarrow> string" where
  "error_text (Errorf m) = m"
| "error_text (PorchError t m) = t @ '': '' @ m"
| "error_text (ApiErr (ApiNotFound m)) = m"
| "error_text (ApiErr (ApiOther m)) = m"
| "error_text (Wrap m e) = m @ '': '' @ error_text e"

text \<open>\<open>errors.Is\<close>: the error or one that it wraps.\<close>

fun errors_Is :: "porch_error \<Rightarrow> porch_error \<Rightarrow> bool" where
  "errors_Is (Wrap m e) target \<longleftrightarrow> Wrap m e = target \<or> errors_Is e target"
| "errors_Is e target \<longleftrightarrow> e = target"

text \<open>\<open>x, err := m(); if err != nil { return wrap(err) }\<close>, followed by \<open>k\<close>.\<close>

definition proceed :: "('s \<Rightarrow> ('e + 'a) \<times> 's) \<Rightarrow> ('e \<Rightarrow> 'f) \<Rightarrow> ('a \<Rightarrow> 's \<Rightarrow> ('f + 'b) \<times> 's) \<Rightarrow> 's \<Rightarrow> ('f + 'b) \<times> 's" where
  "proceed m wrap k s = (case m s of (Inl err, s1) \<Rightarrow> (Inl (wrap err), s1) | (Inr x, s1) \<Rightarrow> k x s1)"

definition isOk :: "'e + 'a \<Rightarrow> bool" where
  "isOk r = (case r of Inl _ \<Rightarrow> False | Inr _ \<Rightarrow> True)"

subsection \<open>Objects\<close>

type_synonym PackageRevisionLifecycle = string

definition PackageRevisionLifecycleDraft :: PackageRevisionLifecycle where "PackageRevisionLifecycleDraft = ''Draft''"
definition PackageRevisionLifecycleProposed :: PackageRevisionLifecycle where "PackageRevisionLifecycleProposed = ''Proposed''"
definition PackageRevisionLifecyclePublished :: PackageRevisionLifecycle where "PackageRevisionLifecyclePublished = ''Published''"
definition PackageRevisionLifecycleDeletable :: PackageRevisionLifecycle where "PackageRevisionLifecycleDeletable = ''Deletable''"

definition IsValidLifecycle :: "PackageRevisionLifecycle \<Rightarrow> bool" where
  "IsValidLifecycle lifecycle \<longleftrightarrow>
     lifecycle = PackageRevisionLifecycleDraft \<or> lifecycle = PackageRevisionLifecycleProposed
   \<or> lifecycle = PackageRevisionLifecyclePublished \<or> lifecycle = PackageRevisionLifecycleDeletable"

definition lifecycle_transitions :: "PackageRevisionLifecycle \<rightharpoonup> PackageRevisionLifecycle list" where
  "lifecycle_transitions = map_of
     [(PackageRevisionLifecycleDraft, [PackageRevisionLifecycleProposed, PackageRevisionLifecycleDeletable]),
      (PackageRevisionLifecycleProposed, [PackageRevisionLifecyclePublished, PackageRevisionLifecycleDraft, PackageRevisionLifecycleDeletable]),
      (PackageRevisionLifecyclePublished, [PackageRevisionLifecycleDeletable]),
      (PackageRevisionLifecycleDeletable, [])]"

definition CanTransitionTo :: "PackageRevisionLifecycle \<Rightarrow> PackageRevisionLifecycle \<Rightarrow> bool" where
  "CanTransitionTo current target =
     (case lifecycle_transitions current of
        None \<Rightarrow> False
      | Some validTargets \<Rightarrow> list_ex (\<lambda>valid. valid = target) validTargets)"

record Condition =
  cd_Type :: string
  cd_Status :: string
  cd_ObservedGeneration :: int
  cd_LastTransitionTime :: time
  cd_Reason :: string
  cd_Message :: string

record KRMResource =
  kr_APIVersion :: string
  kr_Kind :: string
  kr_Metadata :: "(string, json) fmap"
  kr_Spec :: "(string, json) fmap"
  kr_Status :: "(string, json) fmap"
  kr_Data :: "(string, json) fmap"

record FunctionConfig =
  fc_Image :: string
  fc_ConfigPath :: string
  fc_rest :: json

text \<open>\<open>pr_rest\<close> and \<open>rp_rest\<close> stand for the fields that no operation reads or writes; a nil map is \<open>None\<close>.\<close>

record PackageRevision =
  pr_APIVersion :: string
  pr_Kind :: string
  pr_Name :: string
  pr_CreationTimestamp :: time
  pr_Labels :: "(string, string) fmap option"
  pr_Annotations :: "(string, string) fmap option"
  pr_PackageName :: string
  pr_Repository :: string
  pr_Revision :: string
  pr_Lifecycle :: PackageRevisionLifecycle
  pr_Resources :: "KRMResource list"
  pr_Functions :: "FunctionConfig list"
  pr_Conditions :: "Condition list"
  pr_PublishTime :: "time option"
  pr_rest :: json

record Repository =
  rp_APIVersion :: string
  rp_Kind :: string
  rp_Name :: string
  rp_CreationTimestamp :: time
  rp_Type :: string
  rp_URL :: string
  rp_Conditions :: "Condition list"
  rp_LastSyncTime :: "time option"
  rp_SyncError :: string
  rp_rest :: json

record ValidationError =
  ve_Path :: string
  ve_Message :: string
  ve_Severity :: string
  ve_Code :: string

record ValidationResult =
  vr_Valid :: bool
  vr_Errors :: "ValidationError list"
  vr_Warnings :: "ValidationError list"

subsection \<open>Conditions\<close>

fun set_condition :: "Condition \<Rightarrow> Condition list \<Rightarrow> Condition list" where
  "set_condition condition [] = [condition]"
| "set_condition condition (existing # rest) =
     (if cd_Type existing = cd_Type condition then condition # rest else existing # set_condition condition rest)"

definition Repository_GetCondition :: "string \<Rightarrow> Repository \<Rightarrow> Condition option" where
  "Repository_GetCondition conditionType r = List.find (\<lambda>condition. cd_Type condition = conditionType) (rp_Conditions r)"

definition Repository_SetCondition :: "Condition \<Rightarrow> Repository \<Rightarrow> Repository" where
  "Repository_SetCondition condition r = r\<lparr>rp_Conditions := set_condition condition (rp_Conditions r)\<rparr>"

text \<open>The comparison in the source is of the condition's type with itself.\<close>

definition PackageRevision_GetCondition :: "string \<Rightarrow> PackageRevision \<Rightarrow> Condition option" where
  "PackageRevision_GetCondition conditionType pr = List.find (\<lambda>condition. cd_Type condition = cd_Type condition) (pr_Conditions pr)"

definition PackageRevision_SetCondition :: "Condition \<Rightarrow> PackageRevision \<Rightarrow> PackageRevision" where
  "PackageRevision_SetCondition condition pr = pr\<lparr>pr_Conditions := set_condition condition (pr_Conditions pr)\<rparr>"

subsection \<open>The world and the client\<close>

text \<open>The data of a cache entry is a pointer to an object of either kind.\<close>

datatype cacheData = RepositoryPtr addr | PackageRevisionPtr addr

record cacheEntry =
  ch_data :: cacheData
  ch_timestamp :: time

record clientCache =
  cc_cache :: "(string, cacheEntry) fmap"
  cc_ttl :: duration
  cc_maxSize :: int

datatype GroupVersionResource = GVR string string string

definition repositories_gvr :: GroupVersionResource where
  "repositories_gvr = GVR ''config.porch.kpt.dev'' ''v1alpha1'' ''repositories''"

definition packagerevisions_gvr :: GroupVersionResource where
  "packagerevisions_gvr = GVR ''porch.kpt.dev'' ''v1alpha1'' ''packagerevisions''"

text \<open>What the client calls: \<open>rateLimiter.Wait\<close>, the two halves of \<open>circuitBreaker.Execute\<close> (whether the request is let
  through, and the report of its success), \<open>time.Now\<close>, the order of an iteration over the cache, the methods of
  the dynamic client, and \<open>json.Marshal\<close> and \<open>Unmarshal\<close> as the conversions use them.\<close>

record ('w, 'u) Env =
  en_Wait :: "'w \<Rightarrow> string option \<times> 'w"
  en_before :: "'w \<Rightarrow> string option \<times> 'w"
  en_after :: "bool \<Rightarrow> 'w \<Rightarrow> 'w"
  en_Now :: "'w \<Rightarrow> time \<times> 'w"
  en_range :: "'w \<Rightarrow> (string, cacheEntry) fmap \<Rightarrow> string list"
  en_Get :: "GroupVersionResource \<Rightarrow> string \<Rightarrow> 'w \<Rightarrow> (api_error + 'u) \<times> 'w"
  en_Create :: "GroupVersionResource \<Rightarrow> 'u \<Rightarrow> 'w \<Rightarrow> (api_error + 'u) \<times> 'w"
  en_Update :: "GroupVersionResource \<Rightarrow> 'u \<Rightarrow> 'w \<Rightarrow> (api_error + 'u) \<times> 'w"
  en_Delete :: "GroupVersionResource \<Rightarrow> string \<Rightarrow> 'w \<Rightarrow> api_error option \<times> 'w"
  en_fromRepository :: "Repository \<Rightarrow> string + 'u"
  en_toRepository :: "'u \<Rightarrow> string + Repository"
  en_fromPackage :: "PackageRevision \<Rightarrow> string + 'u"
  en_toPackage :: "'u \<Rightarrow> string + PackageRevision"

text \<open>\<open>cl_limited\<close>: the rate limiter is not nil. The stores of the two kinds of objects share the counter of
  addresses.\<close>

record 'w Client =
  cl_world :: 'w
  cl_limited :: bool
  cl_cache :: "clientCache option"
  cl_repos :: "addr \<Rightarrow> Repository"
  cl_pkgs :: "addr \<Rightarrow> PackageRevision"
  cl_next :: addr

type_synonym ('w, 'a) call = "'w Client \<Rightarrow> (porch_error + 'a) \<times> 'w Client"

definition return_ok :: "'a \<Rightarrow> ('w, 'a) call" where
  "return_ok x c = (Inr x, c)"

definition time_Now :: "('w, 'u) Env \<Rightarrow> 'w Client \<Rightarrow> time \<times> 'w Client" where
  "time_Now E c = (case en_Now E (cl_world c) of (t, w) \<Rightarrow> (t, c\<lparr>cl_world := w\<rparr>))"

definition new_pkg :: "PackageRevision \<Rightarrow> 'w Client \<Rightarrow> addr \<times> 'w Client" where
  "new_pkg p c = (cl_next c, c\<lparr>cl_pkgs := (cl_pkgs c)(cl_next c := p), cl_next := Suc (cl_next c)\<rparr>)"

definition new_repo :: "Repository \<Rightarrow> 'w Client \<Rightarrow> addr \<times> 'w Client" where
  "new_repo r c = (cl_next c, c\<lparr>cl_repos := (cl_repos c)(cl_next c := r), cl_next := Suc (cl_next c)\<rparr>)"

definition set_pkg :: "addr \<Rightarrow> PackageRevision \<Rightarrow> 'w Client \<Rightarrow> 'w Client" where
  "set_pkg a p c = c\<lparr>cl_pkgs := (cl_pkgs c)(a := p)\<rparr>"

definition set_repo :: "addr \<Rightarrow> Repository \<Rightarrow> 'w Client \<Rightarrow> 'w Client" where
  "set_repo a r c = c\<lparr>cl_repos := (cl_repos c)(a := r)\<rparr>"

text \<open>\<open>NewClient\<close>, as far as the cache goes: zero sizes and times are replaced.\<close>

definition new_cache :: "bool \<Rightarrow> int \<Rightarrow> duration \<Rightarrow> clientCache option" where
  "new_cache enabled cacheSize ttl =
     (if enabled then Some \<lparr>cc_cache = fmempty, cc_ttl = (if ttl = 0 then 5 * Minute else ttl), cc_maxSize = (if cacheSize = 0 then 1000 else cacheSize)\<rparr>
      else None)"

subsection \<open>The cache\<close>

definition cache_lookup :: "time \<Rightarrow> string \<Rightarrow> clientCache \<Rightarrow> cacheData option" where
  "cache_lookup now key cc =
     (case fmlookup (cc_cache cc) key of
        None \<Rightarrow> None
      | Some entry \<Rightarrow> if time_Sub now (ch_timestamp entry) > cc_ttl cc then None else Some (ch_data entry))"

text \<open>\<open>getCached\<close>; the goroutine that it may start runs \<open>evictExpired\<close>, which is an operation of its own here.\<close>

definition getCached :: "('w, 'u) Env \<Rightarrow> string \<Rightarrow> 'w Client \<Rightarrow> cacheData option \<times> 'w Client" where
  "getCached E key c =
     (case cl_cache c of
        None \<Rightarrow> (None, c)
      | Some cc \<Rightarrow>
          (case fmlookup (cc_cache cc) key of
             None \<Rightarrow> (None, c)
           | Some entry \<Rightarrow> (case time_Now E c of (now, c1) \<Rightarrow> (cache_lookup now key cc, c1))))"

fun oldest_entry :: "(string, cacheEntry) fmap \<Rightarrow> string list \<Rightarrow> string \<Rightarrow> time \<Rightarrow> string" where
  "oldest_entry m [] oldestKey oldestTime = oldestKey"
| "oldest_entry m (key # keys) oldestKey oldestTime =
     (case fmlookup m key of
        None \<Rightarrow> oldest_entry m keys oldestKey oldestTime
      | Some entry \<Rightarrow>
          if oldestKey = '''' \<or> ch_timestamp entry < oldestTime then oldest_entry m keys key (ch_timestamp entry)
          else oldest_entry m keys oldestKey oldestTime)"

definition evictOldestLocked :: "string list \<Rightarrow> clientCache \<Rightarrow> clientCache" where
  "evictOldestLocked order cc =
     (let oldestKey = oldest_entry (cc_cache cc) order '''' zero_time
      in if oldestKey \<noteq> '''' then cc\<lparr>cc_cache := fmdrop oldestKey (cc_cache cc)\<rparr> else cc)"

definition cache_store :: "string list \<Rightarrow> time \<Rightarrow> string \<Rightarrow> cacheData \<Rightarrow> clientCache \<Rightarrow> clientCache" where
  "cache_store order now key val cc =
     (let cc1 = (if map_len (cc_cache cc) \<ge> cc_maxSize cc then evictOldestLocked order cc else cc)
      in cc1\<lparr>cc_cache := fmupd key \<lparr>ch_data = val, ch_timestamp = now\<rparr> (cc_cache cc1)\<rparr>)"

definition setCached :: "('w, 'u) Env \<Rightarrow> string \<Rightarrow> cacheData \<Rightarrow> 'w Client \<Rightarrow> 'w Client" where
  "setCached E key val c =
     (case cl_cache c of
        None \<Rightarrow> c
      | Some cc \<Rightarrow>
          let order = en_range E (cl_world c) (cc_cache cc)
          in case time_Now E c of (now, c1) \<Rightarrow> c1\<lparr>cl_cache := Some (cache_store order now key val cc)\<rparr>)"

definition invalidateCache :: "string \<Rightarrow> 'w Client \<Rightarrow> 'w Client" where
  "invalidateCache key c = c\<lparr>cl_cache := map_option (\<lambda>cc. cc\<lparr>cc_cache := fmdrop key (cc_cache cc)\<rparr>) (cl_cache c)\<rparr>"

definition cache_expire :: "time \<Rightarrow> clientCache \<Rightarrow> clientCache" where
  "cache_expire now cc =
     cc\<lparr>cc_cache := fmfilter (\<lambda>key. case fmlookup (cc_cache cc) key of None \<Rightarrow> True
          | Some entry \<Rightarrow> \<not> time_Sub now (ch_timestamp entry) > cc_ttl cc) (cc_cache cc)\<rparr>"

definition evictExpired :: "('w, 'u) Env \<Rightarrow> 'w Client \<Rightarrow> 'w Client" where
  "evictExpired E c =
     (case cl_cache c of
        None \<Rightarrow> c
      | Some cc \<Rightarrow> (case time_Now E c of (now, c1) \<Rightarrow> c1\<lparr>cl_cache := Some (cache_expire now cc)\<rparr>))"

subsection \<open>Calls to the API server\<close>

definition rate_wait :: "('w, 'u) Env \<Rightarrow> ('w, unit) call" where
  "rate_wait E c =
     (if \<not> cl_limited c then (Inr (), c)
      else case en_Wait E (cl_world c) of
             (Some err, w) \<Rightarrow> (Inl (Wrap ''rate limit exceeded'' (Errorf err)), c\<lparr>cl_world := w\<rparr>)
           | (None, w) \<Rightarrow> (Inr (), c\<lparr>cl_world := w\<rparr>))"

definition cb_Execute :: "('w, 'u) Env \<Rightarrow> ('w, 'a) call \<Rightarrow> ('w, 'a) call" where
  "cb_Execute E request c =
     (case en_before E (cl_world c) of
        (Some err, w) \<Rightarrow> (Inl (Errorf err), c\<lparr>cl_world := w\<rparr>)
      | (None, w) \<Rightarrow>
          (case request (c\<lparr>cl_world := w\<rparr>) of (r, c1) \<Rightarrow> (r, c1\<lparr>cl_world := en_after E (isOk r) (cl_world c1)\<rparr>)))"

text \<open>A function of the world as a call, its error wrapped; a conversion as a call.\<close>

definition api_call :: "('w \<Rightarrow> (api_error + 'a) \<times> 'w) \<Rightarrow> (api_error \<Rightarrow> porch_error) \<Rightarrow> ('w, 'a) call" where
  "api_call f wrap c =
     (case f (cl_world c) of
        (Inl err, w) \<Rightarrow> (Inl (wrap err), c\<lparr>cl_world := w\<rparr>)
      | (Inr x, w) \<Rightarrow> (Inr x, c\<lparr>cl_world := w\<rparr>))"

definition convert :: "string + 'a \<Rightarrow> string \<Rightarrow> ('w, 'a) call" where
  "convert r message c = (case r of Inl err \<Rightarrow> (Inl (Wrap message (Errorf err)), c) | Inr x \<Rightarrow> (Inr x, c))"

text \<open>An error that says not found becomes the client's own; the others are wrapped.\<close>

definition missing :: "string \<Rightarrow> porch_error \<Rightarrow> string \<Rightarrow> api_error \<Rightarrow> porch_error" where
  "missing notFound target message err =
     (case err of ApiNotFound _ \<Rightarrow> Wrap notFound target | ApiOther _ \<Rightarrow> Wrap message (ApiErr err))"

subsection \<open>Repositories\<close>

definition validateRepository :: "Repository option \<Rightarrow> porch_error option" where
  "validateRepository repo_ptr =
     (case repo_ptr of
        None \<Rightarrow> Some (Errorf ''repository cannot be nil'')
      | Some repo \<Rightarrow>
          if rp_Name repo = '''' then Some (Errorf ''repository name is required'')
          else if rp_URL repo = '''' then Some (Errorf ''repository URL is required'')
          else if rp_Type repo = '''' then Some (Errorf ''repository type is required'')
          else if rp_Type repo \<notin> {''git'', ''oci''} then Some (Errorf (''unsupported repository type: '' @ rp_Type repo))
          else if rp_Type repo = ''git'' \<and> \<not> strings_HasPrefix (rp_URL repo) ''https://'' \<and> \<not> strings_HasPrefix (rp_URL repo) ''git@''
          then Some (Errorf ''git repository URL must start with https:// or git@'')
          else None)"

definition getRepositoryInternal :: "('w, 'u) Env \<Rightarrow> string \<Rightarrow> ('w, addr) call" where
  "getRepositoryInternal E name =
     proceed (rate_wait E) id (\<lambda>_.
     proceed (api_call (en_Get E repositories_gvr name)
            (missing (''repository '' @ name @ '' not found'') ErrRepositoryNotFound (''failed to get repository '' @ name))) id (\<lambda>obj.
     proceed (convert (en_toRepository E obj) ''failed to convert repository'') id (\<lambda>repo c. case new_repo repo c of (a, c1) \<Rightarrow> (Inr a, c1))))"

definition createRepositoryInternal :: "('w, 'u) Env \<Rightarrow> addr \<Rightarrow> ('w, addr) call" where
  "createRepositoryInternal E a =
     proceed (rate_wait E) id (\<lambda>_ c.
       case time_Now E c of (now, c1) \<Rightarrow>
       let repo = cl_repos c1 a;
           repo1 = (if rp_CreationTimestamp repo = zero_time then repo\<lparr>rp_CreationTimestamp := now\<rparr> else repo);
           repo2 = repo1\<lparr>rp_APIVersion := ''config.porch.kpt.dev/v1alpha1'', rp_Kind := ''Repository''\<rparr>
       in proceed (convert (en_fromRepository E repo2) ''failed to convert repository'') id (\<lambda>obj.
          proceed (api_call (en_Create E repositories_gvr obj) (\<lambda>err. Wrap ''failed to create repository'' (ApiErr err))) id (\<lambda>created.
          proceed (convert (en_toRepository E created) ''failed to convert created repository'') id
            (\<lambda>result c. case new_repo result c of (b, c1) \<Rightarrow> (Inr b, c1)))) (set_repo a repo2 c1))"

definition updateRepositoryInternal :: "('w, 'u) Env \<Rightarrow> addr \<Rightarrow> ('w, addr) call" where
  "updateRepositoryInternal E a =
     proceed (rate_wait E) id (\<lambda>_ c.
       proceed (convert (en_fromRepository E (cl_repos c a)) ''failed to convert repository'') id (\<lambda>obj.
       proceed (api_call (en_Update E repositories_gvr obj) (\<lambda>err. Wrap ''failed to update repository'' (ApiErr err))) id (\<lambda>updated.
       proceed (convert (en_toRepository E updated) ''failed to convert updated repository'') id
         (\<lambda>result c. case new_repo result c of (b, c1) \<Rightarrow> (Inr b, c1)))) c)"

definition deleteInternal :: "('w, 'u) Env \<Rightarrow> GroupVersionResource \<Rightarrow> string \<Rightarrow> (api_error \<Rightarrow> porch_error) \<Rightarrow> ('w, unit) call" where
  "deleteInternal E gvr name wrap =
     proceed (rate_wait E) id (\<lambda>_.
       api_call (\<lambda>w. case en_Delete E gvr name w of (None, w1) \<Rightarrow> (Inr (), w1) | (Some err, w1) \<Rightarrow> (Inl err, w1)) wrap)"

definition deleteRepositoryInternal :: "('w, 'u) Env \<Rightarrow> string \<Rightarrow> ('w, unit) call" where
  "deleteRepositoryInternal E name =
     deleteInternal E repositories_gvr name
       (missing (''repository '' @ name @ '' not found'') ErrRepositoryNotFound (''failed to delete repository '' @ name))"

definition syncRepositoryInternal :: "('w, 'u) Env \<Rightarrow> string \<Rightarrow> ('w, unit) call" where
  "syncRepositoryInternal E name =
     proceed (rate_wait E) id (\<lambda>_.
     proceed (getRepositoryInternal E name) (Wrap ''failed to get repository for sync'') (\<lambda>a c.
       case time_Now E c of (now, c1) \<Rightarrow>
       proceed (updateRepositoryInternal E a) (Wrap ''failed to update repository sync status'') (\<lambda>_. return_ok ())
         (set_repo a ((cl_repos c1 a)\<lparr>rp_LastSyncTime := Some now, rp_SyncError := ''''\<rparr>) c1)))"

definition repo_key :: "string \<Rightarrow> string" where
  "repo_key name = ''repo:'' @ name"

definition GetRepository :: "('w, 'u) Env \<Rightarrow> string \<Rightarrow> ('w, addr) call" where
  "GetRepository E name c =
     (case getCached E (repo_key name) c of
        (Some (RepositoryPtr a), c1) \<Rightarrow> (Inr a, c1)
      | (_, c1) \<Rightarrow>
          proceed (cb_Execute E (getRepositoryInternal E name)) id
            (\<lambda>a c. (Inr a, setCached E (repo_key name) (RepositoryPtr a) c)) c1)"

definition repo_at :: "'w Client \<Rightarrow> addr option \<Rightarrow> Repository option" where
  "repo_at c ptr = map_option (cl_repos c) ptr"

definition CreateRepository :: "('w, 'u) Env \<Rightarrow> addr option \<Rightarrow> ('w, addr) call" where
  "CreateRepository E ptr c =
     (case validateRepository (repo_at c ptr) of
        Some err \<Rightarrow> (Inl (Wrap ''repository validation failed'' err), c)
      | None \<Rightarrow>
          proceed (cb_Execute E (createRepositoryInternal E (the ptr))) id
            (\<lambda>a c. (Inr a, invalidateCache (repo_key (rp_Name (cl_repos c a))) c)) c)"

definition UpdateRepository :: "('w, 'u) Env \<Rightarrow> addr option \<Rightarrow> ('w, addr) call" where
  "UpdateRepository E ptr c =
     (case validateRepository (repo_at c ptr) of
        Some err \<Rightarrow> (Inl (Wrap ''repository validation failed'' err), c)
      | None \<Rightarrow>
          proceed (cb_Execute E (updateRepositoryInternal E (the ptr))) id
            (\<lambda>a c. (Inr a, invalidateCache (repo_key (rp_Name (cl_repos c a))) c)) c)"

definition DeleteRepository :: "('w, 'u) Env \<Rightarrow> string \<Rightarrow> ('w, unit) call" where
  "DeleteRepository E name =
     proceed (cb_Execute E (deleteRepositoryInternal E name)) id (\<lambda>_ c. (Inr (), invalidateCache (repo_key name) c))"

definition SyncRepository :: "('w, 'u) Env \<Rightarrow> string \<Rightarrow> ('w, unit) call" where
  "SyncRepository E name =
     proceed (cb_Execute E (syncRepositoryInternal E name)) id (\<lambda>_ c. (Inr (), invalidateCache (repo_key name) c))"

subsection \<open>Package revisions\<close>

definition validatePackageRevision :: "PackageRevision option \<Rightarrow> porch_error option" where
  "validatePackageRevision pkg_ptr =
     (case pkg_ptr of
        None \<Rightarrow> Some (Errorf ''package revision cannot be nil'')
      | Some pkg \<Rightarrow>
          if pr_PackageName pkg = '''' then Some (Errorf ''package name is required'')
          else if pr_Repository pkg = '''' then Some (Errorf ''repository is required'')
          else if pr_Revision pkg = '''' then Some (Errorf ''revision is required'')
          else if pr_Lifecycle pkg \<noteq> '''' \<and> \<not> IsValidLifecycle (pr_Lifecycle pkg) then Some (Errorf (''invalid lifecycle: '' @ pr_Lifecycle pkg))
          else None)"

text \<open>The name of the object of a revision on the API server, and the key of its cache entry.\<close>

definition resource_name :: "string \<Rightarrow> string \<Rightarrow> string" where
  "resource_name name revision = name @ ''-'' @ revision"

definition pkg_key :: "string \<Rightarrow> string \<Rightarrow> string" where
  "pkg_key name revision = ''pkg:'' @ name @ '':'' @ revision"

definition getPackageRevisionInternal :: "('w, 'u) Env \<Rightarrow> string \<Rightarrow> string \<Rightarrow> ('w, addr) call" where
  "getPackageRevisionInternal E name revision =
     proceed (rate_wait E) id (\<lambda>_.
     proceed (api_call (en_Get E packagerevisions_gvr (resource_name name revision))
            (missing (''package revision '' @ name @ '':'' @ revision @ '' not found'') ErrPackageNotFound
               (''failed to get package revision '' @ name @ '':'' @ revision))) id (\<lambda>obj.
     proceed (convert (en_toPackage E obj) ''failed to convert package revision'') id
       (\<lambda>pkg c. case new_pkg pkg c of (a, c1) \<Rightarrow> (Inr a, c1))))"

definition default_package :: "time \<Rightarrow> PackageRevision \<Rightarrow> PackageRevision" where
  "default_package now pkg =
     (let p1 = (if pr_CreationTimestamp pkg = zero_time then pkg\<lparr>pr_CreationTimestamp := now\<rparr> else pkg);
          p2 = p1\<lparr>pr_APIVersion := ''porch.kpt.dev/v1alpha1'', pr_Kind := ''PackageRevision''\<rparr>;
          p3 = (if pr_Name p2 = '''' then p2\<lparr>pr_Name := resource_name (pr_PackageName p2) (pr_Revision p2)\<rparr> else p2)
      in if pr_Lifecycle p3 = '''' then p3\<lparr>pr_Lifecycle := PackageRevisionLifecycleDraft\<rparr> else p3)"

text \<open>The common end of creation and update: convert, send, convert back, allocate the result.\<close>

definition send_package ::
    "('w, 'u) Env \<Rightarrow> ('u \<Rightarrow> 'w \<Rightarrow> (api_error + 'u) \<times> 'w) \<Rightarrow> string \<Rightarrow> string \<Rightarrow> PackageRevision \<Rightarrow> ('w, addr) call" where
  "send_package E request message back_message pkg =
     proceed (convert (en_fromPackage E pkg) ''failed to convert package revision'') id (\<lambda>obj.
     proceed (api_call (request obj) (\<lambda>err. Wrap message (ApiErr err))) id (\<lambda>reply.
     proceed (convert (en_toPackage E reply) back_message) id
       (\<lambda>result c. case new_pkg result c of (b, c1) \<Rightarrow> (Inr b, c1))))"

definition createPackageRevisionInternal :: "('w, 'u) Env \<Rightarrow> addr \<Rightarrow> ('w, addr) call" where
  "createPackageRevisionInternal E a =
     proceed (rate_wait E) id (\<lambda>_ c.
       case time_Now E c of (now, c1) \<Rightarrow>
       let pkg = default_package now (cl_pkgs c1 a)
       in send_package E (en_Create E packagerevisions_gvr) ''failed to create package revision''
            ''failed to convert created package revision'' pkg (set_pkg a pkg c1))"

definition updatePackageRevisionInternal :: "('w, 'u) Env \<Rightarrow> addr \<Rightarrow> ('w, addr) call" where
  "updatePackageRevisionInternal E a =
     proceed (rate_wait E) id (\<lambda>_ c.
       send_package E (en_Update E packagerevisions_gvr) ''failed to update package revision''
         ''failed to convert updated package revision'' (cl_pkgs c a) c)"

definition deletePackageRevisionInternal :: "('w, 'u) Env \<Rightarrow> string \<Rightarrow> string \<Rightarrow> ('w, unit) call" where
  "deletePackageRevisionInternal E name revision =
     deleteInternal E packagerevisions_gvr (resource_name name revision)
       (missing (''package revision '' @ name @ '':'' @ revision @ '' not found'') ErrPackageNotFound
          (''failed to delete package revision '' @ name @ '':'' @ revision))"

text \<open>Approval, proposal and rejection: read the revision from the server, check its stage, change the private copy
  and send it back.\<close>

definition change_stage ::
    "('w, 'u) Env \<Rightarrow> string \<Rightarrow> string \<Rightarrow> string \<Rightarrow> PackageRevisionLifecycle \<Rightarrow> (time \<Rightarrow> PackageRevision \<Rightarrow> PackageRevision) \<Rightarrow> ('w, unit) call" where
  "change_stage E verb name revision required change =
     proceed (rate_wait E) id (\<lambda>_.
     proceed (getPackageRevisionInternal E name revision) (Wrap ''failed to get package revision'') (\<lambda>a c.
       let pkg = cl_pkgs c a
       in if pr_Lifecycle pkg \<noteq> required
          then (Inl (Errorf (''package revision must be in '' @ required @ '' state to '' @ verb @ '', current state: '' @ pr_Lifecycle pkg)), c)
          else case time_Now E c of (now, c1) \<Rightarrow>
               proceed (updatePackageRevisionInternal E a) (Wrap (''failed to '' @ verb @ '' package revision'')) (\<lambda>_. return_ok ())
                 (set_pkg a (change now pkg) c1)))"

definition condition_true :: "string \<Rightarrow> time \<Rightarrow> string \<Rightarrow> string \<Rightarrow> Condition" where
  "condition_true conditionType now reason message =
     \<lparr>cd_Type = conditionType, cd_Status = ''True'', cd_ObservedGeneration = 0, cd_LastTransitionTime = now, cd_Reason = reason, cd_Message = message\<rparr>"

definition approvePackageRevisionInternal :: "('w, 'u) Env \<Rightarrow> string \<Rightarrow> string \<Rightarrow> ('w, unit) call" where
  "approvePackageRevisionInternal E name revision =
     change_stage E ''approve'' name revision PackageRevisionLifecycleProposed (\<lambda>now pkg.
       PackageRevision_SetCondition (condition_true ''Approved'' now ''PackageApproved'' ''Package revision has been approved and published'')
         (pkg\<lparr>pr_Lifecycle := PackageRevisionLifecyclePublished, pr_PublishTime := Some now\<rparr>))"

definition proposePackageRevisionInternal :: "('w, 'u) Env \<Rightarrow> string \<Rightarrow> string \<Rightarrow> ('w, unit) call" where
  "proposePackageRevisionInternal E name revision =
     change_stage E ''propose'' name revision PackageRevisionLifecycleDraft (\<lambda>now pkg.
       PackageRevision_SetCondition (condition_true ''Proposed'' now ''PackageProposed'' ''Package revision has been proposed for review'')
         (pkg\<lparr>pr_Lifecycle := PackageRevisionLifecycleProposed\<rparr>))"

definition rejectPackageRevisionInternal :: "('w, 'u) Env \<Rightarrow> string \<Rightarrow> string \<Rightarrow> string \<Rightarrow> ('w, unit) call" where
  "rejectPackageRevisionInternal E name revision reason =
     change_stage E ''reject'' name revision PackageRevisionLifecycleProposed (\<lambda>now pkg.
       PackageRevision_SetCondition (condition_true ''Rejected'' now ''PackageRejected'' (''Package revision rejected: '' @ reason))
         (pkg\<lparr>pr_Lifecycle := PackageRevisionLifecycleDraft\<rparr>))"

definition pkg_at :: "'w Client \<Rightarrow> addr option \<Rightarrow> PackageRevision option" where
  "pkg_at c ptr = map_option (cl_pkgs c) ptr"

definition GetPackageRevision :: "('w, 'u) Env \<Rightarrow> string \<Rightarrow> string \<Rightarrow> ('w, addr) call" where
  "GetPackageRevision E name revision c =
     (case getCached E (pkg_key name revision) c of
        (Some (PackageRevisionPtr a), c1) \<Rightarrow> (Inr a, c1)
      | (_, c1) \<Rightarrow>
          proceed (cb_Execute E (getPackageRevisionInternal E name revision)) id
            (\<lambda>a c. (Inr a, setCached E (pkg_key name revision) (PackageRevisionPtr a) c)) c1)"

text \<open>The end of creation and update: the cache entry of the revision that the server has returned goes.\<close>

definition invalidate_pkg :: "addr \<Rightarrow> ('w, addr) call" where
  "invalidate_pkg a c = (Inr a, invalidateCache (pkg_key (pr_PackageName (cl_pkgs c a)) (pr_Revision (cl_pkgs c a))) c)"

definition CreatePackageRevision :: "('w, 'u) Env \<Rightarrow> addr option \<Rightarrow> ('w, addr) call" where
  "CreatePackageRevision E ptr c =
     (case validatePackageRevision (pkg_at c ptr) of
        Some err \<Rightarrow> (Inl (Wrap ''package revision validation failed'' err), c)
      | None \<Rightarrow> proceed (cb_Execute E (createPackageRevisionInternal E (the ptr))) id invalidate_pkg c)"

definition UpdatePackageRevision :: "('w, 'u) Env \<Rightarrow> addr option \<Rightarrow> ('w, addr) call" where
  "UpdatePackageRevision E ptr c =
     (case validatePackageRevision (pkg_at c ptr) of
        Some err \<Rightarrow> (Inl (Wrap ''package revision validation failed'' err), c)
      | None \<Rightarrow> proceed (cb_Execute E (updatePackageRevisionInternal E (the ptr))) id invalidate_pkg c)"

text \<open>The operations on a revision given by name end by dropping its cache entry.\<close>

definition by_name :: "('w, 'u) Env \<Rightarrow> string \<Rightarrow> string \<Rightarrow> ('w, unit) call \<Rightarrow> ('w, unit) call" where
  "by_name E name revision request =
     proceed (cb_Execute E request) id (\<lambda>_ c. (Inr (), invalidateCache (pkg_key name revision) c))"

definition DeletePackageRevision :: "('w, 'u) Env \<Rightarrow> string \<Rightarrow> string \<Rightarrow> ('w, unit) call" where
  "DeletePackageRevision E name revision = by_name E name revision (deletePackageRevisionInternal E name revision)"

definition ApprovePackageRevision :: "('w, 'u) Env \<Rightarrow> string \<Rightarrow> string \<Rightarrow> ('w, unit) call" where
  "ApprovePackageRevision E name revision = by_name E name revision (approvePackageRevisionInternal E name revision)"

definition ProposePackageRevision :: "('w, 'u) Env \<Rightarrow> string \<Rightarrow> string \<Rightarrow> ('w, unit) call" where
  "ProposePackageRevision E name revision = by_name E name revision (proposePackageRevisionInternal E name revision)"

definition RejectPackageRevision :: "('w, 'u) Env \<Rightarrow> string \<Rightarrow> string \<Rightarrow> string \<Rightarrow> ('w, unit) call" where
  "RejectPackageRevision E name revision reason = by_name E name revision (rejectPackageRevisionInternal E name revision reason)"

subsection \<open>Validation of a package\<close>

definition issue :: "string \<Rightarrow> string \<Rightarrow> string \<Rightarrow> string \<Rightarrow> ValidationError" where
  "issue path message severity code = \<lparr>ve_Path = path, ve_Message = message, ve_Severity = severity, ve_Code = code\<rparr>"

definition index_path :: "string \<Rightarrow> nat \<Rightarrow> string \<Rightarrow> string" where
  "index_path field i rest = field @ ''['' @ strconv_Itoa (int i) @ '']'' @ rest"

definition structure_errors :: "PackageRevision \<Rightarrow> ValidationError list" where
  "structure_errors pkg =
     (if pr_PackageName pkg = '''' then [issue ''spec.packageName'' ''Package name is required'' ''error'' ''MISSING_PACKAGE_NAME''] else [])
   @ (if pr_Repository pkg = '''' then [issue ''spec.repository'' ''Repository is required'' ''error'' ''MISSING_REPOSITORY''] else [])
   @ (if \<not> IsValidLifecycle (pr_Lifecycle pkg)
      then [issue ''spec.lifecycle'' (''Invalid lifecycle state: '' @ pr_Lifecycle pkg) ''error'' ''INVALID_LIFECYCLE''] else [])"

definition resource_errors :: "nat \<Rightarrow> KRMResource \<Rightarrow> ValidationError list" where
  "resource_errors i resource =
     (if kr_APIVersion resource = ''''
      then [issue (index_path ''spec.resources'' i ''.apiVersion'') ''Resource apiVersion is required'' ''error'' ''MISSING_API_VERSION''] else [])
   @ (if kr_Kind resource = ''''
      then [issue (index_path ''spec.resources'' i ''.kind'') ''Resource kind is required'' ''error'' ''MISSING_KIND''] else [])"

definition has_name :: "KRMResource \<Rightarrow> bool" where
  "has_name resource = (case fmlookup (kr_Metadata resource) ''name'' of Some (Json_string name) \<Rightarrow> name \<noteq> '''' | _ \<Rightarrow> False)"

definition resource_warnings :: "nat \<Rightarrow> KRMResource \<Rightarrow> ValidationError list" where
  "resource_warnings i resource =
     (if has_name resource then []
      else [issue (index_path ''spec.resources'' i ''.metadata.name'') ''Resource name is recommended in metadata'' ''warning'' ''MISSING_RESOURCE_NAME''])"

definition function_errors :: "nat \<Rightarrow> FunctionConfig \<Rightarrow> ValidationError list" where
  "function_errors i function =
     (if fc_Image function = ''''
      then [issue (index_path ''spec.functions'' i ''.image'') ''Function image is required'' ''error'' ''MISSING_FUNCTION_IMAGE''] else [])"

text \<open>\<open>for i, x := range xs\<close>, collecting what the body appends.\<close>

definition collect :: "(nat \<Rightarrow> 'a \<Rightarrow> 'b list) \<Rightarrow> 'a list \<Rightarrow> 'b list" where
  "collect f xs = concat (map2 f [0..<length xs] xs)"

text \<open>The resources and functions of a revision have the types \<open>KRMResource\<close> and \<open>FunctionConfig\<close>, so
  \<open>convertToKRMResource\<close> and \<open>convertToFunctionConfig\<close> return them as they are.\<close>

definition validate_package :: "PackageRevision \<Rightarrow> ValidationResult" where
  "validate_package pkg =
     (let errors = structure_errors pkg @ collect resource_errors (pr_Resources pkg) @ collect function_errors (pr_Functions pkg)
      in \<lparr>vr_Valid = (errors = []), vr_Errors = errors, vr_Warnings = collect resource_warnings (pr_Resources pkg)\<rparr>)"

definition validatePackageInternal :: "('w, 'u) Env \<Rightarrow> string \<Rightarrow> string \<Rightarrow> ('w, ValidationResult) call" where
  "validatePackageInternal E name revision =
     proceed (rate_wait E) id (\<lambda>_ c.
       case getPackageRevisionInternal E name revision c of
         (Inl err, c1) \<Rightarrow>
           (Inr \<lparr>vr_Valid = False, vr_Errors = [issue ''package'' (''Failed to retrieve package: '' @ error_text err) ''error'' ''''], vr_Warnings = []\<rparr>, c1)
       | (Inr a, c1) \<Rightarrow> (Inr (validate_package (cl_pkgs c1 a)), c1))"

definition ValidatePackage :: "('w, 'u) Env \<Rightarrow> string \<Rightarrow> string \<Rightarrow> ('w, ValidationResult) call" where
  "ValidatePackage E name revision = cb_Execute E (validatePackageInternal E name revision)"

section \<open>The API server\<close>

text \<open>What the client relies on, for the view \<open>store\<close> of the package revisions that the server holds: only requests that
  write package revisions change it, a read returns what is stored under the name, a successful update stores
  and returns an object with the specification that was sent, and an update that returns an error has taken
  place or not. The other functions of the world leave the revisions alone.\<close>

definition same_package :: "PackageRevision \<Rightarrow> PackageRevision \<Rightarrow> bool" where
  "same_package p q \<longleftrightarrow> pr_Name p = pr_Name q \<and> pr_PackageName p = pr_PackageName q \<and> pr_Repository p = pr_Repository q
     \<and> pr_Revision p = pr_Revision q \<and> pr_Lifecycle p = pr_Lifecycle q \<and> pr_Resources p = pr_Resources q \<and> pr_Functions p = pr_Functions q"

definition holds :: "('w, 'u) Env \<Rightarrow> ('w \<Rightarrow> string \<rightharpoonup> 'u) \<Rightarrow> 'w \<Rightarrow> string \<Rightarrow> PackageRevision \<Rightarrow> bool" where
  "holds E store w n p \<longleftrightarrow> (\<exists>u q. store w n = Some u \<and> en_toPackage E u = Inr q \<and> same_package q p)"

definition others_kept :: "('w \<Rightarrow> string \<rightharpoonup> 'u) \<Rightarrow> string \<Rightarrow> 'w \<Rightarrow> 'w \<Rightarrow> bool" where
  "others_kept store n w w1 \<longleftrightarrow> (\<forall>m. m \<noteq> n \<longrightarrow> store w1 m = store w m)"

definition environment_ok :: "('w, 'u) Env \<Rightarrow> ('w \<Rightarrow> string \<rightharpoonup> 'u) \<Rightarrow> bool" where
  "environment_ok E store \<longleftrightarrow>
     (\<forall>w. store (snd (en_Wait E w)) = store w \<and> store (snd (en_before E w)) = store w \<and> store (snd (en_Now E w)) = store w
        \<and> (\<forall>ok. store (en_after E ok w) = store w))"

definition reads_ok :: "('w, 'u) Env \<Rightarrow> ('w \<Rightarrow> string \<rightharpoonup> 'u) \<Rightarrow> bool" where
  "reads_ok E store \<longleftrightarrow>
     (\<forall>w n r w1. en_Get E packagerevisions_gvr n w = (r, w1) \<longrightarrow>
        store w1 = store w
      \<and> (\<forall>u. r = Inr u \<longrightarrow> store w n = Some u \<and> (\<forall>p. en_toPackage E u = Inr p \<longrightarrow> pr_Name p = n))
      \<and> (\<forall>m. r = Inl (ApiNotFound m) \<longrightarrow> store w n = None))"

definition updates_ok :: "('w, 'u) Env \<Rightarrow> ('w \<Rightarrow> string \<rightharpoonup> 'u) \<Rightarrow> bool" where
  "updates_ok E store \<longleftrightarrow>
     (\<forall>p u w r w1. en_fromPackage E p = Inr u \<longrightarrow> en_Update E packagerevisions_gvr u w = (r, w1) \<longrightarrow>
        others_kept store (pr_Name p) w w1
      \<and> (\<forall>v. r = Inr v \<longrightarrow> store w1 (pr_Name p) = Some v \<and> (\<exists>q. en_toPackage E v = Inr q \<and> same_package q p))
      \<and> (\<forall>err. r = Inl err \<longrightarrow> store w1 = store w \<or> holds E store w1 (pr_Name p) p))"

definition api_server :: "('w, 'u) Env \<Rightarrow> ('w \<Rightarrow> string \<rightharpoonup> 'u) \<Rightarrow> bool" where
  "api_server E store \<longleftrightarrow> environment_ok E store \<and> reads_ok E store \<and> updates_ok E store"

section \<open>Rules for calls\<close>

lemma proceed_Inr: "proceed m wrap k s = (Inr y, s') \<longleftrightarrow> (\<exists>x s1. m s = (Inr x, s1) \<and> k x s1 = (Inr y, s'))"
  by (auto simp: proceed_def split: prod.splits sum.splits)

lemma proceed_Inl:
  "proceed m wrap k s = (Inl f, s') \<longleftrightarrow>
     (\<exists>err. m s = (Inl err, s') \<and> f = wrap err) \<or> (\<exists>x s1. m s = (Inr x, s1) \<and> k x s1 = (Inl f, s'))"
  by (auto simp: proceed_def split: prod.splits sum.splits)

lemmas proceed_iff = proceed_Inr proceed_Inl

text \<open>A call that reads and allocates only: the revisions of the server, the cache and the existing objects stay.\<close>

definition quiet :: "('w \<Rightarrow> string \<rightharpoonup> 'u) \<Rightarrow> 'w Client \<Rightarrow> 'w Client \<Rightarrow> bool" where
  "quiet store c c1 \<longleftrightarrow> store (cl_world c1) = store (cl_world c) \<and> cl_cache c1 = cl_cache c \<and> cl_next c \<le> cl_next c1
     \<and> (\<forall>a < cl_next c. cl_pkgs c1 a = cl_pkgs c a)"

lemma quiet_refl [simp]: "quiet store c c"
  by (simp add: quiet_def)

lemma quiet_trans: "quiet store c c1 \<Longrightarrow> quiet store c1 c2 \<Longrightarrow> quiet store c c2"
  by (auto simp: quiet_def)

lemma quiet_world [simp]: "store w = store (cl_world c) \<Longrightarrow> quiet store c (c\<lparr>cl_world := w\<rparr>)"
  by (simp add: quiet_def)

lemma rate_wait_quiet: "environment_ok E store \<Longrightarrow> rate_wait E c = (r, c1) \<Longrightarrow> quiet store c c1"
  by (auto simp: rate_wait_def environment_ok_def quiet_def split: if_splits prod.splits option.splits)
     (metis snd_conv)+

lemma time_Now_quiet: "environment_ok E store \<Longrightarrow> time_Now E c = (t, c1) \<Longrightarrow> quiet store c c1"
  by (auto simp: time_Now_def environment_ok_def quiet_def split: prod.splits) (metis snd_conv)

lemma convert_same: "convert r message c = (s, c1) \<Longrightarrow> c1 = c"
  by (auto simp: convert_def split: sum.splits)

definition calm :: "('w \<Rightarrow> string \<rightharpoonup> 'u) \<Rightarrow> ('w, 'a) call \<Rightarrow> bool" where
  "calm store m \<longleftrightarrow> (\<forall>c r c1. m c = (r, c1) \<longrightarrow> quiet store c c1)"

lemma calm_proceed: "calm store m \<Longrightarrow> (\<And>x. calm store (k x)) \<Longrightarrow> calm store (proceed m wrap k)"
  unfolding calm_def proceed_def by (auto split: prod.splits sum.splits) (meson quiet_trans)

lemma calm_wait: "environment_ok E store \<Longrightarrow> calm store (rate_wait E)"
  unfolding calm_def using rate_wait_quiet by blast

lemma calm_convert: "calm store (convert r message)"
  unfolding calm_def using convert_same quiet_refl by metis

lemma calm_new_pkg: "calm store (\<lambda>c. case new_pkg p c of (a, c1) \<Rightarrow> (Inr a, c1))"
  by (auto simp: calm_def new_pkg_def quiet_def)

lemmas calm_intros = calm_proceed calm_wait calm_convert calm_new_pkg

lemma new_pkg_quiet: "new_pkg p c = (a, c1) \<Longrightarrow> quiet store c c1 \<and> cl_next c \<le> a \<and> a < cl_next c1 \<and> cl_pkgs c1 a = p \<and> cl_world c1 = cl_world c"
  by (auto simp: new_pkg_def quiet_def)

lemma api_get_quiet:
  assumes "api_server E store" "api_call (en_Get E packagerevisions_gvr n) wrap c = (r, c1)"
  shows "quiet store c c1
    \<and> (\<forall>u. r = Inr u \<longrightarrow> store (cl_world c) n = Some u \<and> (\<forall>p. en_toPackage E u = Inr p \<longrightarrow> pr_Name p = n))"
  using assms(2)
proof (cases "en_Get E packagerevisions_gvr n (cl_world c)")
  case (Pair s w)
  moreover have "reads_ok E store" using assms(1) by (simp add: api_server_def)
  ultimately show ?thesis using assms(2)
    by (auto simp: api_call_def reads_ok_def quiet_def split: sum.splits)
qed

lemma calm_api: "(\<And>w. store (snd (f w)) = store w) \<Longrightarrow> calm store (api_call f wrap)"
  unfolding calm_def
proof (intro allI impI)
  fix c r c1 assume law: "\<And>w. store (snd (f w)) = store w" and run: "api_call f wrap c = (r, c1)"
  obtain s w where f: "f (cl_world c) = (s, w)" by fastforce
  with law [of "cl_world c"] have "store w = store (cl_world c)" by simp
  with f run show "quiet store c c1" by (auto simp: api_call_def split: sum.splits)
qed

lemma calm_get:
  assumes "environment_ok E store" "\<And>w n. store (snd (en_Get E packagerevisions_gvr n w)) = store w"
  shows "calm store (getPackageRevisionInternal E name revision)"
  unfolding getPackageRevisionInternal_def by (intro calm_intros calm_api assms)

text \<open>A read of the server allocates a private copy of the stored revision.\<close>

lemma getPackageRevisionInternal_ok:
  assumes "api_server E store" "getPackageRevisionInternal E name revision c = (r, c1)"
  shows "quiet store c c1"
    and "\<And>a. r = Inr a \<Longrightarrow> cl_next c \<le> a \<and> a < cl_next c1 \<and> pr_Name (cl_pkgs c1 a) = resource_name name revision
      \<and> (\<exists>u. store (cl_world c) (resource_name name revision) = Some u \<and> en_toPackage E u = Inr (cl_pkgs c1 a))"
proof -
  have env: "environment_ok E store" using assms(1) by (simp add: api_server_def)
  note get = api_get_quiet [OF assms(1)] and wait = rate_wait_quiet [OF env]
  have "calm store (getPackageRevisionInternal E name revision)"
    using env assms(1) by (intro calm_get) (auto simp: api_server_def reads_ok_def, metis prod.collapse)
  then show "quiet store c c1" using assms(2) by (simp add: calm_def)
  fix a assume r: "r = Inr a"
  let ?n = "resource_name name revision"
  from assms(2) [unfolded r getPackageRevisionInternal_def proceed_Inr] obtain x c2 u c3 p c4 where steps: "rate_wait E c = (Inr x, c2)"
      "\<exists>wrap. api_call (en_Get E packagerevisions_gvr ?n) wrap c2 = (Inr u, c3)"
      "convert (en_toPackage E u) ''failed to convert package revision'' c3 = (Inr p, c4)"
      "(case new_pkg p c4 of (a, c1) \<Rightarrow> (Inr a :: porch_error + addr, c1)) = (Inr a, c1)"
    by blast
  have p: "en_toPackage E u = Inr p" "c4 = c3" using steps(3) by (auto simp: convert_def split: sum.splits)
  have "new_pkg p c4 = (a, c1)" using steps(4) by (auto split: prod.splits)
  then have "cl_pkgs c1 a = p" "cl_next c4 \<le> a" "a < cl_next c1" using new_pkg_quiet by blast+
  moreover have "quiet store c c2" using wait [OF steps(1)] .
  moreover have "quiet store c2 c3" "store (cl_world c2) ?n = Some u" "pr_Name p = ?n" using steps(2) p get by blast+
  ultimately show "cl_next c \<le> a \<and> a < cl_next c1 \<and> pr_Name (cl_pkgs c1 a) = ?n
      \<and> (\<exists>u. store (cl_world c) ?n = Some u \<and> en_toPackage E u = Inr (cl_pkgs c1 a))"
    using p by (auto simp: quiet_def)
qed

text \<open>What an update of the revision \<open>p\<close> may do: the server holds it afterwards or, if there is an error, may be unchanged;
  the cache and the objects of the client stay, the result is a new object.\<close>

definition update_post ::
    "('w, 'u) Env \<Rightarrow> ('w \<Rightarrow> string \<rightharpoonup> 'u) \<Rightarrow> PackageRevision \<Rightarrow> 'w Client \<Rightarrow> porch_error + addr \<Rightarrow> 'w Client \<Rightarrow> bool" where
  "update_post E store p c r c1 \<longleftrightarrow>
     others_kept store (pr_Name p) (cl_world c) (cl_world c1)
   \<and> cl_cache c1 = cl_cache c \<and> cl_next c \<le> cl_next c1 \<and> (\<forall>a < cl_next c. cl_pkgs c1 a = cl_pkgs c a)
   \<and> (case r of
        Inl err \<Rightarrow> store (cl_world c1) = store (cl_world c) \<or> holds E store (cl_world c1) (pr_Name p) p
      | Inr b \<Rightarrow> holds E store (cl_world c1) (pr_Name p) p \<and> same_package (cl_pkgs c1 b) p \<and> cl_next c \<le> b \<and> b < cl_next c1)"

lemma others_kept_refl [simp]: "store w1 = store w \<Longrightarrow> others_kept store n w w1"
  by (simp add: others_kept_def)

lemma update_post_quiet: "quiet store c c1 \<Longrightarrow> update_post E store p c1 r c2 \<Longrightarrow> update_post E store p c r c2"
  by (auto simp: update_post_def quiet_def others_kept_def split: sum.splits)

lemma update_post_fail: "quiet store c c1 \<Longrightarrow> update_post E store p c (Inl err) c1"
  by (simp add: update_post_def quiet_def)

lemma send_update_post:
  assumes "api_server E store" "send_package E (en_Update E packagerevisions_gvr) message back_message p c = (r, c1)"
  shows "update_post E store p c r c1"
proof (cases "en_fromPackage E p")
  case (Inl err)
  then show ?thesis using assms(2) by (auto simp: send_package_def proceed_def convert_def intro: update_post_fail)
next
  case (Inr u)
  obtain s w1 where up: "en_Update E packagerevisions_gvr u (cl_world c) = (s, w1)" by fastforce
  have "updates_ok E store" using assms(1) by (simp add: api_server_def)
  then have ok: "others_kept store (pr_Name p) (cl_world c) w1"
      "\<And>v. s = Inr v \<Longrightarrow> store w1 (pr_Name p) = Some v \<and> (\<exists>q. en_toPackage E v = Inr q \<and> same_package q p)"
      "\<And>err. s = Inl err \<Longrightarrow> store w1 = store (cl_world c) \<or> holds E store w1 (pr_Name p) p"
    using Inr up unfolding updates_ok_def by blast+
  have eq: "send_package E (en_Update E packagerevisions_gvr) message back_message p c =
      (case s of Inl err \<Rightarrow> (Inl (Wrap message (ApiErr err)), c\<lparr>cl_world := w1\<rparr>)
       | Inr v \<Rightarrow> proceed (convert (en_toPackage E v) back_message) id (\<lambda>result c. case new_pkg result c of (b, c1) \<Rightarrow> (Inr b, c1)) (c\<lparr>cl_world := w1\<rparr>))"
    using Inr up by (auto simp: send_package_def proceed_def convert_def api_call_def split: sum.splits)
  show ?thesis
  proof (cases s)
    case (Inl err)
    then show ?thesis using assms(2) ok by (auto simp: eq update_post_def)
  next
    case (Inr v)
    with ok obtain q where q: "en_toPackage E v = Inr q" "same_package q p" "store w1 (pr_Name p) = Some v" by blast
    then show ?thesis using assms(2) ok(1) Inr
      by (auto simp: eq update_post_def proceed_def convert_def new_pkg_def holds_def)
  qed
qed

lemma updatePackageRevisionInternal_post:
  assumes "api_server E store" "a < cl_next c" "updatePackageRevisionInternal E a c = (r, c1)"
  shows "update_post E store (cl_pkgs c a) c r c1"
proof -
  have env: "environment_ok E store" using assms(1) by (simp add: api_server_def)
  obtain s c2 where w: "rate_wait E c = (s, c2)" by fastforce
  have q: "quiet store c c2" using rate_wait_quiet [OF env w] .
  then have "cl_pkgs c2 a = cl_pkgs c a" using assms(2) by (simp add: quiet_def)
  then show ?thesis
    using assms(3) w q send_update_post [OF assms(1)]
    by (cases s) (auto simp: updatePackageRevisionInternal_def proceed_def intro: update_post_fail update_post_quiet)
qed

text \<open>The breaker around a request changes the world only in ways that the revisions do not see.\<close>

lemma cb_Execute_rel:
  assumes "environment_ok E store" "cb_Execute E request c = (r, c1)"
  obtains (rejected) err where "r = Inl err" "quiet store c c1"
  | (passed) c2 c3 where "quiet store c c2" "cl_next c2 = cl_next c" "cl_pkgs c2 = cl_pkgs c" "request c2 = (r, c3)"
      "quiet store c3 c1" "cl_next c1 = cl_next c3" "cl_pkgs c1 = cl_pkgs c3"
proof (cases "en_before E (cl_world c)")
  case (Pair e w)
  with assms(1) have w: "store w = store (cl_world c)" unfolding environment_ok_def by (metis snd_conv)
  show ?thesis
  proof (cases e)
    case (Some err)
    with Pair assms(2) w show ?thesis by (intro rejected) (auto simp: cb_Execute_def quiet_def)
  next
    case None
    obtain r' c3 where req: "request (c\<lparr>cl_world := w\<rparr>) = (r', c3)" by fastforce
    with None Pair assms(2) have eq: "r' = r" "c1 = c3\<lparr>cl_world := en_after E (isOk r) (cl_world c3)\<rparr>"
      by (auto simp: cb_Execute_def)
    moreover have "quiet store c3 c1" using assms(1) eq by (simp add: environment_ok_def)
    ultimately show ?thesis using req w by (intro passed [of "c\<lparr>cl_world := w\<rparr>" c3]) auto
  qed
qed

lemma calm_cb: "environment_ok E store \<Longrightarrow> calm store m \<Longrightarrow> calm store (cb_Execute E m)"
  unfolding calm_def
proof (intro allI impI)
  fix c r c1 assume env: "environment_ok E store" and m: "\<forall>c r c1. m c = (r, c1) \<longrightarrow> quiet store c c1" and run: "cb_Execute E m c = (r, c1)"
  from env run show "quiet store c c1" by (cases rule: cb_Execute_rel) (use m in \<open>blast intro: quiet_trans\<close>)+
qed

text \<open>A change of stage: an error and nothing happened, or the revision was in the required stage and the server holds
  the changed revision now (an error then leaves it open whether it does).\<close>

definition stage_post ::
    "('w, 'u) Env \<Rightarrow> ('w \<Rightarrow> string \<rightharpoonup> 'u) \<Rightarrow> string \<Rightarrow> PackageRevisionLifecycle \<Rightarrow> (time \<Rightarrow> PackageRevision \<Rightarrow> PackageRevision)
       \<Rightarrow> 'w Client \<Rightarrow> porch_error + unit \<Rightarrow> 'w Client \<Rightarrow> bool" where
  "stage_post E store n required change c r c1 \<longleftrightarrow>
     (\<not> isOk r \<and> store (cl_world c1) = store (cl_world c))
   \<or> (others_kept store n (cl_world c) (cl_world c1)
      \<and> (\<exists>u p now. store (cl_world c) n = Some u \<and> en_toPackage E u = Inr p \<and> pr_Lifecycle p = required
           \<and> holds E store (cl_world c1) n (change now p)))"

lemma stage_post_quiet:
  "quiet store c c2 \<Longrightarrow> stage_post E store n required change c2 r c3 \<Longrightarrow> quiet store c3 c1 \<Longrightarrow> stage_post E store n required change c r c1"
  by (auto simp: stage_post_def quiet_def others_kept_def holds_def)

lemma change_stage_post:
  assumes api: "api_server E store" and name: "\<And>now p. pr_Name (change now p) = pr_Name p"
    and run: "change_stage E verb nm revision required change c = (r, c1)"
  shows "stage_post E store (resource_name nm revision) required change c r c1"
proof -
  let ?n = "resource_name nm revision"
  have env: "environment_ok E store" using api by (simp add: api_server_def)
  obtain x c2 where w: "rate_wait E c = (x, c2)" by fastforce
  obtain y c3 where g: "getPackageRevisionInternal E nm revision c2 = (y, c3)" by fastforce
  note q = rate_wait_quiet [OF env w] getPackageRevisionInternal_ok(1) [OF api g]
  have q13: "quiet store c c3" using q by (rule quiet_trans)
  have early: "\<not> isOk r \<Longrightarrow> quiet store c c1 \<Longrightarrow> ?thesis" by (simp add: stage_post_def quiet_def)
  show ?thesis
  proof (cases x)
    case (Inl e)
    then show ?thesis using run w q by (intro early) (auto simp: change_stage_def proceed_def isOk_def)
  next
    case x: (Inr u)
    show ?thesis
    proof (cases "\<exists>a. y = Inr a \<and> pr_Lifecycle (cl_pkgs c3 a) = required")
      case False
      then show ?thesis using run w x g q13
        by (intro early) (auto simp: change_stage_def proceed_def isOk_def Let_def split: sum.splits if_splits)
    next
      case True
      then obtain a where y: "y = Inr a" "pr_Lifecycle (cl_pkgs c3 a) = required" by blast
      obtain now c4 where t: "time_Now E c3 = (now, c4)" by fastforce
      let ?p = "change now (cl_pkgs c3 a)"
      obtain z c5 where up: "updatePackageRevisionInternal E a (set_pkg a ?p c4) = (z, c5)" by fastforce
      have run': "c1 = c5" "isOk r \<longleftrightarrow> isOk z"
        using run w x g y t up by (auto simp: change_stage_def proceed_def isOk_def return_ok_def split: sum.splits)
      from getPackageRevisionInternal_ok(2) [OF api g y(1)] obtain u
        where a: "a < cl_next c3" "pr_Name (cl_pkgs c3 a) = ?n" "store (cl_world c2) ?n = Some u" "en_toPackage E u = Inr (cl_pkgs c3 a)"
        by blast
      have q4: "quiet store c3 c4" using env t by (rule time_Now_quiet)
      then have "a < cl_next (set_pkg a ?p c4)" using a(1) by (simp add: set_pkg_def quiet_def)
      from updatePackageRevisionInternal_post [OF api this up] have post: "update_post E store ?p (set_pkg a ?p c4) z c5"
        by (simp add: set_pkg_def)
      have same: "store (cl_world (set_pkg a ?p c4)) = store (cl_world c)" using q13 q4 by (simp add: quiet_def set_pkg_def)
      have "(\<not> isOk z \<and> store (cl_world c5) = store (cl_world c)) \<or> holds E store (cl_world c5) ?n ?p"
        using post same a(2) by (auto simp: update_post_def isOk_def name split: sum.splits)
      moreover have "others_kept store ?n (cl_world c) (cl_world c5)"
        using post same a(2) by (simp add: update_post_def name others_kept_def)
      moreover have "store (cl_world c) ?n = Some u" using a(3) q(1) by (simp add: quiet_def)
      ultimately show ?thesis using run' a(4) y(2) unfolding stage_post_def by blast
    qed
  qed
qed

lemma by_name_post:
  assumes "api_server E store" "by_name E name revision request c = (r, c1)"
    and "\<And>c s c1. request c = (s, c1) \<Longrightarrow> stage_post E store n required change c s c1"
  shows "stage_post E store n required change c r c1"
proof -
  have env: "environment_ok E store" using assms(1) by (simp add: api_server_def)
  obtain s c2 where x: "cb_Execute E request c = (s, c2)" by fastforce
  have "stage_post E store n required change c s c2"
    using env x
  proof (cases rule: cb_Execute_rel)
    case (rejected err)
    then show ?thesis by (simp add: stage_post_def quiet_def isOk_def)
  next
    case (passed c3 c4)
    then show ?thesis using assms(3) stage_post_quiet by blast
  qed
  moreover have "cl_world c1 = cl_world c2" "isOk r = isOk s"
    using assms(2) x by (auto simp: by_name_def proceed_def invalidateCache_def isOk_def split: sum.splits)
  ultimately show ?thesis by (simp add: stage_post_def)
qed

section \<open>Results\<close>

text \<open>C22: Approval, proposal and rejection move a package revision along the transitions of the life cycle only: with an
  error the server may be unchanged; otherwise the named revision, and no other, has gone from its stage to one
  that \<open>CanTransitionTo\<close> allows, with its resources and functions as they were.\<close>

theorem stage_changes_follow_lifecycle:
  assumes "api_server E store"
    and "op \<in> {ApprovePackageRevision E name revision, ProposePackageRevision E name revision, RejectPackageRevision E name revision reason}"
    and "op c = (r, c1)"
  shows "(\<not> isOk r \<and> store (cl_world c1) = store (cl_world c))
    \<or> (others_kept store (resource_name name revision) (cl_world c) (cl_world c1)
       \<and> (\<exists>u p q. store (cl_world c) (resource_name name revision) = Some u \<and> en_toPackage E u = Inr p
            \<and> holds E store (cl_world c1) (resource_name name revision) q \<and> CanTransitionTo (pr_Lifecycle p) (pr_Lifecycle q)
            \<and> pr_Resources q = pr_Resources p \<and> pr_Functions q = pr_Functions p))"
proof -
  let ?n = "resource_name name revision"
  have go: ?thesis
    if "op = by_name E name revision (change_stage E verb name revision required change)"
      and ch: "\<And>now p. pr_Name (change now p) = pr_Name p \<and> pr_Resources (change now p) = pr_Resources p \<and> pr_Functions (change now p) = pr_Functions p"
      and st: "\<And>now p. CanTransitionTo required (pr_Lifecycle (change now p))" for verb required change
  proof -
    have "stage_post E store ?n required change c r c1"
      using assms(1,3) that(1) by (metis by_name_post change_stage_post ch)
    then show ?thesis unfolding stage_post_def using ch st by metis
  qed
  note stages = PackageRevisionLifecycleDraft_def PackageRevisionLifecycleProposed_def PackageRevisionLifecyclePublished_def PackageRevisionLifecycleDeletable_def
  from assms(2) consider "op = ApprovePackageRevision E name revision" | "op = ProposePackageRevision E name revision"
    | "op = RejectPackageRevision E name revision reason" by blast
  then show ?thesis
    unfolding ApprovePackageRevision_def ProposePackageRevision_def RejectPackageRevision_def
      approvePackageRevisionInternal_def proposePackageRevisionInternal_def rejectPackageRevisionInternal_def
    by cases (erule go; simp add: PackageRevision_SetCondition_def CanTransitionTo_def lifecycle_transitions_def stages)+
qed

text \<open>A server in memory: the world has the revisions by name, a clock, and whether requests to update fail. The
  unstructured objects are the revisions themselves.\<close>

record mem_world =
  mw_store :: "(string \<times> PackageRevision) list"
  mw_clock :: nat
  mw_down :: bool

definition mem_store :: "mem_world \<Rightarrow> string \<rightharpoonup> PackageRevision" where
  "mem_store w n = map_option (\<lambda>p. p\<lparr>pr_Name := n\<rparr>) (map_of (mw_store w) n)"

definition mem_env :: "(mem_world, PackageRevision) Env" where
  "mem_env = \<lparr>en_Wait = (\<lambda>w. (None, w)), en_before = (\<lambda>w. (None, w)), en_after = (\<lambda>_ w. w),
     en_Now = (\<lambda>w. (int (mw_clock w), w\<lparr>mw_clock := Suc (mw_clock w)\<rparr>)), en_range = (\<lambda>_ m. sorted_list_of_fset (fmdom m)),
     en_Get = (\<lambda>_ n w. (case mem_store w n of None \<Rightarrow> Inl (ApiNotFound n) | Some p \<Rightarrow> Inr p, w)),
     en_Create = (\<lambda>_ p w. (Inr p, w\<lparr>mw_store := AList.update (pr_Name p) p (mw_store w)\<rparr>)),
     en_Update = (\<lambda>_ p w. if mw_down w then (Inl (ApiOther ''unavailable''), w)
        else (Inr p, w\<lparr>mw_store := AList.update (pr_Name p) p (mw_store w)\<rparr>)),
     en_Delete = (\<lambda>_ n w. (None, w\<lparr>mw_store := AList.delete n (mw_store w)\<rparr>)),
     en_fromRepository = (\<lambda>_. Inl ''unsupported''), en_toRepository = (\<lambda>_. Inl ''unsupported''),
     en_fromPackage = Inr, en_toPackage = Inr\<rparr>"

lemma same_package_refl [simp]: "same_package p p"
  by (simp add: same_package_def)

lemma mem_api_server: "api_server mem_env mem_store"
proof -
  have "environment_ok mem_env mem_store" by (simp add: environment_ok_def mem_env_def mem_store_def fun_eq_iff)
  moreover have "reads_ok mem_env mem_store"
    by (auto simp: reads_ok_def mem_env_def mem_store_def split: option.splits)
  moreover have "updates_ok mem_env mem_store"
    by (auto simp: updates_ok_def mem_env_def mem_store_def others_kept_def holds_def update_conv' split: if_splits)
  ultimately show ?thesis by (simp add: api_server_def)
qed

definition draft_package :: PackageRevision where
  "draft_package = \<lparr>pr_APIVersion = ''porch.kpt.dev/v1alpha1'', pr_Kind = ''PackageRevision'', pr_Name = ''amf-v1'', pr_CreationTimestamp = 0,
     pr_Labels = None, pr_Annotations = None, pr_PackageName = ''amf'', pr_Repository = ''core'', pr_Revision = ''v1'', pr_Lifecycle = ''Draft'',
     pr_Resources = [], pr_Functions = [], pr_Conditions = [], pr_PublishTime = None, pr_rest = Json_null\<rparr>"

definition zeroRepository :: Repository where
  "zeroRepository = \<lparr>rp_APIVersion = '''', rp_Kind = '''', rp_Name = '''', rp_CreationTimestamp = zero_time, rp_Type = '''', rp_URL = '''',
     rp_Conditions = [], rp_LastSyncTime = None, rp_SyncError = '''', rp_rest = Json_null\<rparr>"

definition mem_client :: "bool \<Rightarrow> mem_world Client" where
  "mem_client down = \<lparr>cl_world = \<lparr>mw_store = [(''amf-v1'', draft_package)], mw_clock = 0, mw_down = down\<rparr>, cl_limited = True, cl_cache = new_cache True 0 0,
     cl_repos = (\<lambda>_. zeroRepository), cl_pkgs = (\<lambda>_. draft_package), cl_next = 0\<rparr>"

theorem stage_changes_follow_lifecycle_witness:
  "isOk (fst (ProposePackageRevision mem_env ''amf'' ''v1'' (mem_client False)))
 \<and> (\<exists>q. holds mem_env mem_store (cl_world (snd (ProposePackageRevision mem_env ''amf'' ''v1'' (mem_client False)))) ''amf-v1'' q
       \<and> CanTransitionTo ''Draft'' (pr_Lifecycle q))"
proof -
  let ?op = "ProposePackageRevision mem_env ''amf'' ''v1''"
  have ok: "isOk (fst (?op (mem_client False)))" by code_simp
  have n: "resource_name ''amf'' ''v1'' = ''amf-v1''" by (simp add: resource_name_def)
  have st: "mem_store (cl_world (mem_client False)) ''amf-v1'' = Some draft_package" "en_toPackage mem_env = Inr" "pr_Lifecycle draft_package = ''Draft''"
    by (simp_all add: mem_store_def mem_client_def draft_package_def mem_env_def)
  have "?op \<in> {ApprovePackageRevision mem_env ''amf'' ''v1'', ?op, RejectPackageRevision mem_env ''amf'' ''v1'' ''late''}" by simp
  note changed = stage_changes_follow_lifecycle [OF mem_api_server this, of "mem_client False"
      "fst (?op (mem_client False))" "snd (?op (mem_client False))"]
  from changed ok show ?thesis unfolding n by (auto simp: st)
qed

text \<open>The choice of the entry to evict.\<close>

lemma oldest_entry_minimal:
  assumes "\<forall>k\<in>set ks. fmlookup m k \<noteq> None" "'''' \<notin> set ks" "k0 \<noteq> '''' \<longrightarrow> map_option ch_timestamp (fmlookup m k0) = Some t0"
    and "oldest_entry m ks k0 t0 = v" "v \<noteq> ''''"
  shows "\<exists>e. fmlookup m v = Some e \<and> (k0 \<noteq> '''' \<longrightarrow> ch_timestamp e \<le> t0) \<and> (\<forall>k\<in>set ks. \<forall>e'. fmlookup m k = Some e' \<longrightarrow> ch_timestamp e \<le> ch_timestamp e')"
  using assms
proof (induction ks arbitrary: k0 t0)
  case Nil
  then show ?case by auto
next
  case (Cons k ks)
  then obtain e where e: "fmlookup m k = Some e" by auto
  show ?case
  proof (cases "k0 = '''' \<or> ch_timestamp e < t0")
    case True
    then show ?thesis using Cons.IH [of k "ch_timestamp e"] Cons.prems e by fastforce
  next
    case False
    then show ?thesis using Cons.IH [of k0 t0] Cons.prems e by fastforce
  qed
qed

lemma oldest_entry_found:
  "\<forall>k\<in>set ks. fmlookup m k \<noteq> None \<Longrightarrow> '''' \<notin> set ks \<Longrightarrow> ks \<noteq> [] \<or> k0 \<noteq> '''' \<Longrightarrow> oldest_entry m ks k0 t0 \<noteq> ''''"
  by (induction ks arbitrary: k0 t0) (auto split: option.splits)

definition cache_ok :: "clientCache \<Rightarrow> bool" where
  "cache_ok cc \<longleftrightarrow> '''' |\<notin>| fmdom (cc_cache cc) \<and> map_len (cc_cache cc) \<le> cc_maxSize cc"

lemma evictOldestLocked_spec:
  assumes "ranges_over (cc_cache cc) order" "cc_cache cc \<noteq> fmempty" "'''' |\<notin>| fmdom (cc_cache cc)"
  obtains v e where "fmlookup (cc_cache cc) v = Some e" "evictOldestLocked order cc = cc\<lparr>cc_cache := fmdrop v (cc_cache cc)\<rparr>"
    "\<And>k e'. fmlookup (cc_cache cc) k = Some e' \<Longrightarrow> ch_timestamp e \<le> ch_timestamp e'"
proof -
  let ?m = "cc_cache cc" and ?v = "oldest_entry (cc_cache cc) order '''' zero_time"
  have dom: "k \<in> set order \<longleftrightarrow> k |\<in>| fmdom ?m" for k using assms(1) by (metis fset_of_list_elem ranges_over_def)
  then have look: "\<forall>k\<in>set order. fmlookup ?m k \<noteq> None" "'''' \<notin> set order" using assms(3) by (auto simp: fmlookup_dom_iff)
  have "order \<noteq> []" using assms(1,2) by (auto simp: ranges_over_def fmdom_empty_iff [symmetric])
  then have v: "?v \<noteq> ''''" using look by (intro oldest_entry_found) auto
  from oldest_entry_minimal [OF look _ refl v] obtain e where "fmlookup ?m ?v = Some e"
      "\<forall>k\<in>set order. \<forall>e'. fmlookup ?m k = Some e' \<longrightarrow> ch_timestamp e \<le> ch_timestamp e'" by auto
  then show ?thesis using v dom by (intro that [of ?v e]) (auto simp: evictOldestLocked_def Let_def dest: fmlookup_Some_dom)
qed

text \<open>C28: The cache never holds more entries than its maximum, for every maximum of at least one. Storing an entry keeps all
  others but one at most, and that one is none younger than an entry that stays; the entry is found until it expires.\<close>

theorem cache_store_bounded:
  assumes "cache_ok cc" "ranges_over (cc_cache cc) order" "1 \<le> cc_maxSize cc" "key \<noteq> ''''"
  shows "cache_ok (cache_store order now key val cc)
    \<and> (\<exists>v. \<forall>k. k \<noteq> key \<longrightarrow> k \<noteq> v \<longrightarrow> fmlookup (cc_cache (cache_store order now key val cc)) k = fmlookup (cc_cache cc) k)
    \<and> (\<forall>k e k' e'. fmlookup (cc_cache cc) k = Some e \<longrightarrow> fmlookup (cc_cache (cache_store order now key val cc)) k = None
         \<longrightarrow> fmlookup (cc_cache cc) k' = Some e' \<longrightarrow> ch_timestamp e \<le> ch_timestamp e')
    \<and> (\<forall>t. cache_lookup t key (cache_store order now key val cc) = (if time_Sub t now > cc_ttl cc then None else Some val))"
proof (cases "map_len (cc_cache cc) \<ge> cc_maxSize cc")
  case False
  then show ?thesis using assms
    by (auto simp: cache_store_def Let_def cache_ok_def cache_lookup_def intro: exI [of _ key])
next
  case True
  then have "cc_cache cc \<noteq> fmempty" using assms(3) by auto
  from evictOldestLocked_spec [OF assms(2) this] assms(1) obtain v e
    where v: "fmlookup (cc_cache cc) v = Some e" "evictOldestLocked order cc = cc\<lparr>cc_cache := fmdrop v (cc_cache cc)\<rparr>"
      "\<And>k e'. fmlookup (cc_cache cc) k = Some e' \<Longrightarrow> ch_timestamp e \<le> ch_timestamp e'"
    unfolding cache_ok_def by blast
  then have eq: "cache_store order now key val cc = cc\<lparr>cc_cache := fmupd key \<lparr>ch_data = val, ch_timestamp = now\<rparr> (fmdrop v (cc_cache cc))\<rparr>"
    using True by (simp add: cache_store_def Let_def)
  have "map_len (fmdrop v (cc_cache cc)) = map_len (cc_cache cc) - 1" using v(1) by (simp add: fmlookup_Some_dom)
  then have "cache_ok (cache_store order now key val cc)" using assms by (auto simp: eq cache_ok_def)
  moreover have "\<forall>k. k \<noteq> key \<longrightarrow> k \<noteq> v \<longrightarrow> fmlookup (cc_cache (cache_store order now key val cc)) k = fmlookup (cc_cache cc) k" by (simp add: eq)
  ultimately show ?thesis using v by (auto simp: eq cache_lookup_def split: if_splits)
qed

theorem cache_store_bounded_witness:
  "cache_ok \<lparr>cc_cache = fmupd ''pkg:amf:v1'' \<lparr>ch_data = PackageRevisionPtr 0, ch_timestamp = 5\<rparr> fmempty, cc_ttl = 10, cc_maxSize = 1\<rparr>
 \<and> cache_ok (cache_store [''pkg:amf:v1''] 9 ''repo:core'' (RepositoryPtr 1)
      \<lparr>cc_cache = fmupd ''pkg:amf:v1'' \<lparr>ch_data = PackageRevisionPtr 0, ch_timestamp = 5\<rparr> fmempty, cc_ttl = 10, cc_maxSize = 1\<rparr>)"
proof -
  let ?cc = "\<lparr>cc_cache = fmupd ''pkg:amf:v1'' \<lparr>ch_data = PackageRevisionPtr 0, ch_timestamp = 5\<rparr> fmempty, cc_ttl = 10, cc_maxSize = 1\<rparr>"
  have "cache_ok ?cc" by (simp add: cache_ok_def)
  moreover have "ranges_over (cc_cache ?cc) [''pkg:amf:v1'']" by (simp add: ranges_over_def)
  ultimately show ?thesis using cache_store_bounded [of ?cc "[''pkg:amf:v1'']" "''repo:core''"] by simp
qed

text \<open>Reads and updates through the breaker.\<close>

lemma fetch_ok:
  assumes "api_server E store" "cb_Execute E (getPackageRevisionInternal E name revision) c = (r, c1)"
  shows "quiet store c c1"
    and "\<And>a. r = Inr a \<Longrightarrow> cl_next c \<le> a \<and> a < cl_next c1 \<and> pr_Name (cl_pkgs c1 a) = resource_name name revision
      \<and> (\<exists>u. store (cl_world c) (resource_name name revision) = Some u \<and> en_toPackage E u = Inr (cl_pkgs c1 a))"
proof -
  have env: "environment_ok E store" using assms(1) by (simp add: api_server_def)
  have "quiet store c c1 \<and> (\<forall>a. r = Inr a \<longrightarrow> cl_next c \<le> a \<and> a < cl_next c1 \<and> pr_Name (cl_pkgs c1 a) = resource_name name revision
      \<and> (\<exists>u. store (cl_world c) (resource_name name revision) = Some u \<and> en_toPackage E u = Inr (cl_pkgs c1 a)))"
    using env assms(2)
  proof (cases rule: cb_Execute_rel)
    case (passed c2 c3)
    note got = getPackageRevisionInternal_ok [OF assms(1) passed(4)]
    have "quiet store c c1" using passed(1,5) got(1) by (blast intro: quiet_trans)
    moreover have "store (cl_world c2) = store (cl_world c)" using passed(1) by (simp add: quiet_def)
    ultimately show ?thesis using got(2) passed(2,6,7) by simp
  qed simp
  then show "quiet store c c1" "\<And>a. r = Inr a \<Longrightarrow> cl_next c \<le> a \<and> a < cl_next c1 \<and> pr_Name (cl_pkgs c1 a) = resource_name name revision
      \<and> (\<exists>u. store (cl_world c) (resource_name name revision) = Some u \<and> en_toPackage E u = Inr (cl_pkgs c1 a))" by blast+
qed

lemma fetch_cache:
  fixes E :: "('w, 'u) Env"
  assumes run: "cb_Execute E (getPackageRevisionInternal E name revision) c = (r, c1)"
  shows "cl_cache c1 = cl_cache c"
proof -
  let ?store = "\<lambda>_. Map.empty :: string \<rightharpoonup> 'u"
  have env: "environment_ok E ?store" by (simp add: environment_ok_def)
  then have "calm ?store (cb_Execute E (getPackageRevisionInternal E name revision))" by (intro calm_cb calm_get) simp_all
  with run show ?thesis by (simp add: calm_def quiet_def)
qed

lemma UpdatePackageRevision_failed:
  fixes E :: "('w, 'u) Env"
  assumes run: "UpdatePackageRevision E (Some a) c = (Inl err, c1)"
  shows "quiet (\<lambda>_. Map.empty :: string \<rightharpoonup> 'u) c c1"
proof (cases "validatePackageRevision (pkg_at c (Some a))")
  case (Some e)
  with run show ?thesis by (simp add: UpdatePackageRevision_def)
next
  case None
  let ?store = "\<lambda>_. Map.empty :: string \<rightharpoonup> 'u"
  have env: "environment_ok E ?store" by (simp add: environment_ok_def)
  have "calm ?store (send_package E f m m' p)" for f m m' p
    unfolding send_package_def by (intro calm_intros calm_api) simp
  then have "calm ?store (updatePackageRevisionInternal E a)"
    unfolding updatePackageRevisionInternal_def by (intro calm_proceed calm_wait [OF env]) (simp add: calm_def)
  then have "calm ?store (cb_Execute E (updatePackageRevisionInternal E a))" by (rule calm_cb [OF env])
  moreover obtain e where "cb_Execute E (updatePackageRevisionInternal E a) c = (Inl e, c1)"
    using run None by (auto simp: UpdatePackageRevision_def proceed_Inl invalidate_pkg_def)
  ultimately show ?thesis by (simp add: calm_def)
qed

lemma update_post_Execute:
  assumes "api_server E store" "a < cl_next c" "cb_Execute E (updatePackageRevisionInternal E a) c = (r, c1)"
  shows "update_post E store (cl_pkgs c a) c r c1"
proof -
  have env: "environment_ok E store" using assms(1) by (simp add: api_server_def)
  from env assms(3) show ?thesis
  proof (cases rule: cb_Execute_rel)
    case (passed c2 c3)
    then have "update_post E store (cl_pkgs c2 a) c2 r c3" using assms(1,2) by (intro updatePackageRevisionInternal_post) auto
    then have "update_post E store (cl_pkgs c a) c r c3" using passed(1,3) by (metis update_post_quiet)
    then show ?thesis using passed(5-7) by (auto simp: update_post_def quiet_def others_kept_def holds_def split: sum.splits)
  qed (simp add: update_post_fail)
qed

text \<open>The entry that holds a revision, once \<open>GetPackageRevision\<close> has returned it.\<close>

lemma GetPackageRevision_cases:
  assumes "GetPackageRevision E name revision c = (r, c1)"
  obtains (hit) a cc e now where "r = Inr a" "cl_cache c = Some cc" "fmlookup (cc_cache cc) (pkg_key name revision) = Some e"
      "ch_data e = PackageRevisionPtr a" "time_Now E c = (now, c1)" "\<not> time_Sub now (ch_timestamp e) > cc_ttl cc"
  | (miss) c2 c3 where "(\<exists>d. getCached E (pkg_key name revision) c = (d, c2))" "cb_Execute E (getPackageRevisionInternal E name revision) c2 = (r, c3)"
      "c1 = (case r of Inl _ \<Rightarrow> c3 | Inr a \<Rightarrow> setCached E (pkg_key name revision) (PackageRevisionPtr a) c3)"
proof -
  obtain d c2 where g: "getCached E (pkg_key name revision) c = (d, c2)" by fastforce
  obtain s c3 where x: "cb_Execute E (getPackageRevisionInternal E name revision) c2 = (s, c3)" by fastforce
  show ?thesis
  proof (cases "\<exists>a. d = Some (PackageRevisionPtr a)")
    case True
    then obtain a where a: "d = Some (PackageRevisionPtr a)" by blast
    from g a obtain cc e now where "cl_cache c = Some cc" "fmlookup (cc_cache cc) (pkg_key name revision) = Some e"
        "time_Now E c = (now, c2)" "cache_lookup now (pkg_key name revision) cc = Some (PackageRevisionPtr a)"
      by (auto simp: getCached_def split: option.splits prod.splits)
    then show ?thesis using assms g a
      by (intro hit [of a cc e now]) (auto simp: GetPackageRevision_def cache_lookup_def split: if_splits)
  next
    case False
    then have eq: "GetPackageRevision E name revision c = proceed (cb_Execute E (getPackageRevisionInternal E name revision)) id
        (\<lambda>a c. (Inr a, setCached E (pkg_key name revision) (PackageRevisionPtr a) c)) c2"
      using g by (auto simp: GetPackageRevision_def split: option.splits cacheData.splits)
    show ?thesis using assms g x
      by (intro miss [of c2 c3]) (auto simp: eq proceed_def split: sum.splits)
  qed
qed

lemma GetPackageRevision_entry:
  assumes "GetPackageRevision E name revision c = (Inr a, c1)" "cl_cache c \<noteq> None"
  shows "\<exists>cc e. cl_cache c1 = Some cc \<and> fmlookup (cc_cache cc) (pkg_key name revision) = Some e \<and> ch_data e = PackageRevisionPtr a"
  using assms(1)
proof (cases rule: GetPackageRevision_cases)
  case (hit b cc e now)
  then show ?thesis by (auto simp: time_Now_def split: prod.splits)
next
  case (miss c2 c3)
  have "cl_cache c2 = cl_cache c" using miss(1) by (auto simp: getCached_def time_Now_def split: option.splits prod.splits)
  moreover have "cl_cache c3 = cl_cache c2" using miss(2) by (rule fetch_cache)
  ultimately have "cl_cache c3 \<noteq> None" using assms(2) by simp
  then show ?thesis using miss(3)
    by (auto simp: setCached_def cache_store_def Let_def time_Now_def split: prod.splits)
qed

lemma GetPackageRevision_hit:
  "cl_cache c = Some cc \<Longrightarrow> fmlookup (cc_cache cc) (pkg_key name revision) = Some e \<Longrightarrow> ch_data e = PackageRevisionPtr a \<Longrightarrow>
   time_Now E c = (t, c1) \<Longrightarrow> time_Sub t (ch_timestamp e) \<le> cc_ttl cc \<Longrightarrow> GetPackageRevision E name revision c = (Inr a, c1)"
  by (simp add: GetPackageRevision_def getCached_def cache_lookup_def not_less)

text \<open>Every caller of \<open>GetPackageRevision\<close> gets the same object while its cache entry is fresh: after a call that returned the
  pointer \<open>a\<close>, the next one returns \<open>a\<close> again without a request, whatever has been written to the object, and
  whatever the server holds.\<close>

theorem cached_pointer_shared:
  assumes "GetPackageRevision E name revision c = (Inr a, c1)" "cl_cache c \<noteq> None"
  shows "\<exists>cc e. cl_cache c1 = Some cc \<and> fmlookup (cc_cache cc) (pkg_key name revision) = Some e
    \<and> (\<forall>c2 t c3. cl_cache c2 = Some cc \<longrightarrow> time_Now E c2 = (t, c3) \<longrightarrow> time_Sub t (ch_timestamp e) \<le> cc_ttl cc \<longrightarrow>
         GetPackageRevision E name revision c2 = (Inr a, c3))"
  using GetPackageRevision_entry [OF assms] GetPackageRevision_hit by blast

theorem cached_pointer_shared_witness:
  "fst (GetPackageRevision mem_env ''amf'' ''v1'' (snd (GetPackageRevision mem_env ''amf'' ''v1'' (mem_client False)))) = Inr 0"
proof -
  let ?c1 = "snd (GetPackageRevision mem_env ''amf'' ''v1'' (mem_client False))"
  have "fst (GetPackageRevision mem_env ''amf'' ''v1'' (mem_client False)) = Inr 0" by code_simp
  then have "GetPackageRevision mem_env ''amf'' ''v1'' (mem_client False) = (Inr 0, ?c1)" by (metis prod.collapse)
  from cached_pointer_shared [OF this] obtain cc e where cc: "cl_cache ?c1 = Some cc" "fmlookup (cc_cache cc) (pkg_key ''amf'' ''v1'') = Some e"
      "\<And>c2 t c3. cl_cache c2 = Some cc \<Longrightarrow> time_Now mem_env c2 = (t, c3) \<Longrightarrow> time_Sub t (ch_timestamp e) \<le> cc_ttl cc \<Longrightarrow>
         GetPackageRevision mem_env ''amf'' ''v1'' c2 = (Inr 0, c3)"
    by (auto simp: mem_client_def new_cache_def)
  have "map_option (\<lambda>cc. (cc_ttl cc, map_option ch_timestamp (fmlookup (cc_cache cc) (pkg_key ''amf'' ''v1'')))) (cl_cache ?c1) = Some (300000000000, Some 0)"
    "fst (time_Now mem_env ?c1) = 1" by code_simp+
  with cc(1,2) have "cc_ttl cc = 300000000000" "ch_timestamp e = 0" "time_Now mem_env ?c1 = (1, snd (time_Now mem_env ?c1))" by (auto simp: prod_eq_iff)
  with cc(3) [OF cc(1) this(3)] show ?thesis by (simp add: time_Sub_def)
qed

text \<open>C23: A client reads its own writes: after a successful update of a revision that is stored under its standard name, the
  next \<open>GetPackageRevision\<close> that succeeds returns an object with the specification that was sent, even when the
  cache held an older object.\<close>

theorem update_then_get:
  assumes "api_server E store" "a < cl_next c" "pr_Name (cl_pkgs c a) = resource_name (pr_PackageName (cl_pkgs c a)) (pr_Revision (cl_pkgs c a))"
    and "UpdatePackageRevision E (Some a) c = (Inr b, c1)"
    and "GetPackageRevision E (pr_PackageName (cl_pkgs c a)) (pr_Revision (cl_pkgs c a)) c1 = (Inr d, c2)"
  shows "same_package (cl_pkgs c2 d) (cl_pkgs c a)"
proof -
  let ?p = "cl_pkgs c a"
  let ?key = "pkg_key (pr_PackageName ?p) (pr_Revision ?p)" and ?n = "resource_name (pr_PackageName ?p) (pr_Revision ?p)"
  obtain c3 where up: "cb_Execute E (updatePackageRevisionInternal E a) c = (Inr b, c3)" and inv: "invalidate_pkg b c3 = (Inr b, c1)"
    using assms(4) by (auto simp: UpdatePackageRevision_def proceed_Inr invalidate_pkg_def split: option.splits)
  have post: "update_post E store ?p c (Inr b) c3" using assms(1,2) up by (rule update_post_Execute)
  then have same: "same_package (cl_pkgs c3 b) ?p" by (simp add: update_post_def)
  then have c1: "c1 = invalidateCache ?key c3" using inv by (simp add: invalidate_pkg_def same_package_def)
  then have gone: "cl_cache c1 = Some cc \<Longrightarrow> fmlookup (cc_cache cc) ?key = None" for cc by (auto simp: invalidateCache_def)
  from assms(5) show ?thesis
  proof (cases rule: GetPackageRevision_cases)
    case (hit a cc e now)
    then show ?thesis using gone by simp
  next
    case (miss c4 c5)
    have "c4 = c1" using miss(1) gone by (auto simp: getCached_def split: option.splits prod.splits)
    then obtain u where u: "store (cl_world c1) ?n = Some u" "en_toPackage E u = Inr (cl_pkgs c5 d)"
      using fetch_ok(2) [OF assms(1) miss(2)] by blast
    have "holds E store (cl_world c1) ?n ?p" using post assms(3) by (simp add: update_post_def c1 invalidateCache_def)
    with u have "same_package (cl_pkgs c5 d) ?p" by (auto simp: holds_def)
    moreover have "cl_pkgs c2 = cl_pkgs c5" using miss(3) by (auto simp: setCached_def time_Now_def split: option.splits prod.splits)
    ultimately show ?thesis by simp
  qed
qed

theorem update_then_get_witness:
  "\<exists>b c1 d c2. UpdatePackageRevision mem_env (Some 0) (snd (GetPackageRevision mem_env ''amf'' ''v1'' (mem_client False))) = (Inr b, c1)
     \<and> GetPackageRevision mem_env ''amf'' ''v1'' c1 = (Inr d, c2) \<and> same_package (cl_pkgs c2 d) draft_package"
proof -
  let ?c = "snd (GetPackageRevision mem_env ''amf'' ''v1'' (mem_client False))"
  let ?u = "UpdatePackageRevision mem_env (Some 0) ?c"
  let ?g = "GetPackageRevision mem_env ''amf'' ''v1'' (snd ?u)"
  have p: "cl_pkgs ?c 0 = draft_package" "cl_next ?c = 1" by code_simp+
  have r: "fst ?u = Inr 1" "fst ?g = Inr 2" by code_simp+
  have "same_package (cl_pkgs (snd ?g) 2) (cl_pkgs ?c 0)"
    by (rule update_then_get [OF mem_api_server, of 0 ?c 1 "snd ?u"])
       (use p r in \<open>simp_all add: draft_package_def resource_name_def prod_eq_iff\<close>)
  then show ?thesis using p r by (metis prod.collapse)
qed

text \<open>The goroutine that \<open>getCached\<close> starts cannot be observed: removing the entries that have expired leaves every later
  lookup as it is.\<close>

lemma time_Sub_mono: "t \<le> t' \<Longrightarrow> time_Sub t u \<le> time_Sub t' u"
  by (simp add: time_Sub_def)

theorem cache_expire_invisible:
  assumes "now \<le> now'"
  shows "cache_lookup now' key (cache_expire now cc) = cache_lookup now' key cc"
  using time_Sub_mono [OF assms] by (auto simp: cache_lookup_def cache_expire_def split: option.splits)
    (meson less_le_trans not_less)+

text \<open>The name of an object does not determine the package: a dash in the package name and one in the revision look the
  same, and the two packages share one object under two cache entries. Revisions without a dash are safe.\<close>

lemma api_call_Inr: "api_call f wrap c = (Inr x, c1) \<longleftrightarrow> (\<exists>w. f (cl_world c) = (Inr x, w) \<and> c1 = c\<lparr>cl_world := w\<rparr>)"
  by (auto simp: api_call_def split: prod.splits sum.splits)

theorem resource_names_collide:
  "getPackageRevisionInternal E (name @ ''-'' @ x) revision c = (Inr a, c1) \<longleftrightarrow>
   getPackageRevisionInternal E name (x @ ''-'' @ revision) c = (Inr a, c1)"
  by (simp add: getPackageRevisionInternal_def proceed_Inr resource_name_def api_call_Inr)

lemma resource_name_inj:
  "resource_name n r = resource_name n' r' \<Longrightarrow> CHR ''-'' \<notin> set r \<Longrightarrow> CHR ''-'' \<notin> set r' \<Longrightarrow> n = n' \<and> r = r'"
  using first_separator [of "rev r" "CHR ''-''" "rev n" "rev r'" "rev n'"]
  by (simp add: resource_name_def) (metis append_Cons append_Nil append_assoc rev_append rev_rev_ident rev_singleton_conv set_rev)

lemma find_set_condition: "List.find (\<lambda>x. cd_Type x = cd_Type condition) (set_condition condition cs) = Some condition"
  by (induction cs) auto

lemma hd_set_condition: "set_condition condition cs = hd (set_condition condition cs) # tl (set_condition condition cs)"
  by (cases cs) auto

text \<open>\<open>SetCondition\<close> followed by \<open>GetCondition\<close> of the same type returns the condition for a repository. For a package revision
  \<open>GetCondition\<close> returns the first condition, of whatever type, because it compares a type with itself; it finds the
  condition that was set exactly if no condition of another type comes first.\<close>

theorem conditions_found:
  "Repository_GetCondition (cd_Type condition) (Repository_SetCondition condition r) = Some condition
 \<and> (PackageRevision_GetCondition (cd_Type condition) (PackageRevision_SetCondition condition p) = Some condition
     \<longleftrightarrow> pr_Conditions p = [] \<or> cd_Type (hd (pr_Conditions p)) = cd_Type condition \<or> hd (pr_Conditions p) = condition)"
  by (cases "pr_Conditions p")
     (auto simp: Repository_GetCondition_def Repository_SetCondition_def PackageRevision_GetCondition_def PackageRevision_SetCondition_def find_set_condition)

lemma collect_empty: "collect f xs = [] \<longleftrightarrow> (\<forall>i < length xs. f i (xs ! i) = [])"
proof -
  have "set (zip [0..<length xs] xs) = (\<lambda>i. (i, xs ! i)) ` {..<length xs}" by (force simp: set_zip)
  then show ?thesis by (auto simp: collect_def)
qed

text \<open>Validation accepts a package exactly if it has a name, a repository and a valid stage, every resource has an API version and
  a kind, and every function has an image; there is one warning for every resource without a name.\<close>

theorem validate_package_valid:
  "(vr_Valid (validate_package pkg) \<longleftrightarrow>
      pr_PackageName pkg \<noteq> '''' \<and> pr_Repository pkg \<noteq> '''' \<and> IsValidLifecycle (pr_Lifecycle pkg)
    \<and> list_all (\<lambda>resource. kr_APIVersion resource \<noteq> '''' \<and> kr_Kind resource \<noteq> '''') (pr_Resources pkg)
    \<and> list_all (\<lambda>function. fc_Image function \<noteq> '''') (pr_Functions pkg))
 \<and> length (vr_Warnings (validate_package pkg)) = length (filter (\<lambda>resource. \<not> has_name resource) (pr_Resources pkg))"
proof -
  have "length (concat (map2 resource_warnings [n..<n + length rs] rs)) = length (filter (\<lambda>resource. \<not> has_name resource) rs)" for rs n
    by (induction rs arbitrary: n) (auto simp: upt_conv_Cons resource_warnings_def simp flip: add_Suc)
  from this [of 0 "pr_Resources pkg"] have "length (vr_Warnings (validate_package pkg)) = length (filter (\<lambda>resource. \<not> has_name resource) (pr_Resources pkg))"
    by (simp add: validate_package_def Let_def collect_def)
  then show ?thesis
    by (auto simp: validate_package_def Let_def structure_errors_def collect_empty resource_errors_def function_errors_def list_all_length)
qed

end
