(* ===== verification/Package_Lifecycle.thy ===== *)
theory Package_Lifecycle
  imports Porch_Client
begin

text \<open>
  The life-cycle manager of package revisions (\<open>pkg/nephio/porch/lifecycle_manager.go\<close>) on the model of the Porch client:
  transitions with their locks, events, hooks and validation gates, and the registries. Gates, hooks and handlers
  that others register are functions on the world. The maps, slices and locks of the manager are guarded by its
  mutexes, so each operation on them is one step. Metrics and logging are left out, as are the operations that only return constants.
\<close>

section \<open>Model\<close>

subsection \<open>Data\<close>

type_synonym LifecycleEventType = string
type_synonym HookAction = string

definition LifecycleEventTransitionStarted :: LifecycleEventType where "LifecycleEventTransitionStarted = ''transition_started''"
definition LifecycleEventTransitionCompleted :: LifecycleEventType where "LifecycleEventTransitionCompleted = ''transition_completed''"
definition LifecycleEventLockAcquired :: LifecycleEventType where "LifecycleEventLockAcquired = ''lock_acquired''"
definition LifecycleEventLockReleased :: LifecycleEventType where "LifecycleEventLockReleased = ''lock_released''"

definition HookActionPreTransition :: HookAction where "HookActionPreTransition = ''pre_transition''"
definition HookActionPostTransition :: HookAction where "HookActionPostTransition = ''post_transition''"
definition HookActionOnFailure :: HookAction where "HookActionOnFailure = ''on_failure''"
definition HookActionOnSuccess :: HookAction where "HookActionOnSuccess = ''on_success''"

record TransitionOptions =
  to_SkipValidation :: bool
  to_SkipHooks :: bool
  to_CreateRollbackPoint :: bool
  to_RollbackDescription :: string
  to_ForceTransition :: bool
  to_Timeout :: duration
  to_DryRun :: bool

definition zeroTransitionOptions :: TransitionOptions where
  "zeroTransitionOptions = \<lparr>to_SkipValidation = False, to_SkipHooks = False, to_CreateRollbackPoint = False, to_RollbackDescription = '''',
     to_ForceTransition = False, to_Timeout = 0, to_DryRun = False\<rparr>"

record LifecycleEvent =
  ev_ID :: string
  ev_Type :: LifecycleEventType
  ev_PackageRef :: PackageReference
  ev_PreviousStage :: PackageRevisionLifecycle
  ev_NewStage :: PackageRevisionLifecycle
  ev_Timestamp :: time

record RollbackPoint =
  rb_ID :: string
  rb_PackageRef :: PackageReference
  rb_CreatedAt :: time
  rb_Description :: string

record LifecycleLock =
  lk_ID :: string
  lk_PackageRef :: PackageReference
  lk_Operation :: string
  lk_AcquiredBy :: string
  lk_AcquiredAt :: time
  lk_ExpiresAt :: time
  lk_Renewable :: bool

record HookResult =
  hr_HookID :: string
  hr_Success :: bool
  hr_Error :: string

record HookExecutionResult =
  hx_Success :: bool
  hx_Results :: "HookResult list"

text \<open>\<open>tr_updatedPackage\<close> is the entry of that name in the metadata of a result.\<close>

record TransitionResult =
  tr_Success :: bool
  tr_PreviousStage :: PackageRevisionLifecycle
  tr_NewStage :: PackageRevisionLifecycle
  tr_TransitionTime :: time
  tr_Duration :: duration
  tr_ValidationResults :: "ValidationResult list"
  tr_HookResults :: "HookExecutionResult option"
  tr_RollbackPoint :: "RollbackPoint option"
  tr_Warnings :: "string list"
  tr_updatedPackage :: "addr option"

text \<open>The gates of the package, with their identifier, name, priority and whether they are required, and those of others.\<close>

datatype 'w ValidationGate =
    ContentValidationGate (vg_ID: string) (vg_Name: string) (vg_Priority: int) (vg_Required: bool)
  | ApprovalValidationGate (vg_ID: string) (vg_Name: string) (vg_Priority: int) (vg_Required: bool)
  | ForeignGate (vg_ID: string) (vg_Name: string) (vg_Priority: int) (vg_Required: bool)
      (vg_Validate: "PackageReference \<Rightarrow> PackageRevisionLifecycle \<Rightarrow> 'w \<Rightarrow> (string + ValidationResult) \<times> 'w")

record 'w IntegrationHook =
  ih_ID :: string
  ih_Async :: bool
  ih_Execute :: "PackageReference \<Rightarrow> PackageRevisionLifecycle \<Rightarrow> HookAction \<Rightarrow> 'w \<Rightarrow> (string + HookResult) \<times> 'w"

record 'w LifecycleEventHandler =
  eh_ID :: string
  eh_Priority :: int
  eh_CanHandle :: "LifecycleEventType \<Rightarrow> bool"
  eh_HandleEvent :: "LifecycleEvent \<Rightarrow> 'w \<Rightarrow> 'w"

text \<open>A buffered channel is a list with its capacity.\<close>

record 'w lifecycleManager =
  lm_client :: "'w Client"
  lm_eventHandlers :: "(LifecycleEventType, 'w LifecycleEventHandler list) fmap"
  lm_eventQueue :: "LifecycleEvent list"
  lm_queueSize :: nat
  lm_validationGates :: "(PackageRevisionLifecycle, 'w ValidationGate list) fmap"
  lm_integrationHooks :: "(PackageRevisionLifecycle, (HookAction, 'w IntegrationHook list) fmap) fmap"
  lm_lifecycleLocks :: "(string, LifecycleLock) fmap"

text \<open>The context of a call: whether it is done, which case a \<open>select\<close> takes when both are ready, and the order in which
  iterations visit the locks and the actions of a stage.\<close>

record call_context =
  cx_done :: bool
  cx_takes_done :: bool
  cx_locks :: "(string, LifecycleLock) fmap \<Rightarrow> string list"
  cx_actions :: "HookAction list"

subsection \<open>The clock and the client\<close>

definition lm_Now :: "('w, 'u) Env \<Rightarrow> 'w lifecycleManager \<Rightarrow> time \<times> 'w lifecycleManager" where
  "lm_Now E lm = (case time_Now E (lm_client lm) of (t, c) \<Rightarrow> (t, lm\<lparr>lm_client := c\<rparr>))"

definition with_client :: "('w, 'a) call \<Rightarrow> 'w lifecycleManager \<Rightarrow> (porch_error + 'a) \<times> 'w lifecycleManager" where
  "with_client m lm = (case m (lm_client lm) of (r, c) \<Rightarrow> (r, lm\<lparr>lm_client := c\<rparr>))"

subsection \<open>Events\<close>

definition TriggerEvent :: "call_context \<Rightarrow> LifecycleEvent \<Rightarrow> 'w lifecycleManager \<Rightarrow> porch_error option \<times> 'w lifecycleManager" where
  "TriggerEvent cx event lm =
     (let full = (length (lm_eventQueue lm) \<ge> lm_queueSize lm)
      in if cx_done cx \<and> (full \<or> cx_takes_done cx) then (Some (Errorf ''context done''), lm)
         else if \<not> full then (None, lm\<lparr>lm_eventQueue := lm_eventQueue lm @ [event]\<rparr>)
         else (Some (Errorf ''event queue is full''), lm))"

text \<open>An event with the identifier and the time of the moment is made and triggered; the error is dropped.\<close>

definition emit ::
    "('w, 'u) Env \<Rightarrow> call_context \<Rightarrow> LifecycleEventType \<Rightarrow> PackageReference \<Rightarrow> PackageRevisionLifecycle \<Rightarrow> PackageRevisionLifecycle
       \<Rightarrow> 'w lifecycleManager \<Rightarrow> 'w lifecycleManager" where
  "emit E cx eventType ref previousStage newStage lm =
     (case lm_Now E lm of (t, lm1) \<Rightarrow> case lm_Now E lm1 of (t', lm2) \<Rightarrow>
      snd (TriggerEvent cx \<lparr>ev_ID = ''event-'' @ strconv_Itoa t, ev_Type = eventType, ev_PackageRef = ref,
             ev_PreviousStage = previousStage, ev_NewStage = newStage, ev_Timestamp = t'\<rparr> lm2))"

text \<open>One round of \<open>eventWorker\<close>: an event is taken from the queue and given to its handlers.\<close>

definition processEvent :: "LifecycleEvent \<Rightarrow> 'w lifecycleManager \<Rightarrow> 'w lifecycleManager" where
  "processEvent event lm =
     (let handlers = (case fmlookup (lm_eventHandlers lm) (ev_Type event) of None \<Rightarrow> [] | Some hs \<Rightarrow> hs);
          c = lm_client lm
      in lm\<lparr>lm_client := c\<lparr>cl_world := fold (\<lambda>h w. if \<not> eh_CanHandle h (ev_Type event) then w else eh_HandleEvent h event w) handlers (cl_world c)\<rparr>\<rparr>)"

definition eventWorker_round :: "'w lifecycleManager \<Rightarrow> 'w lifecycleManager" where
  "eventWorker_round lm =
     (case lm_eventQueue lm of [] \<Rightarrow> lm | event # events \<Rightarrow> processEvent event (lm\<lparr>lm_eventQueue := events\<rparr>))"

subsection \<open>Locks\<close>

definition lock_id :: "string \<Rightarrow> time \<Rightarrow> string" where
  "lock_id lockKey nano = ''lock-'' @ lockKey @ ''-'' @ strconv_Itoa nano"

definition isLockExpired :: "('w, 'u) Env \<Rightarrow> LifecycleLock \<Rightarrow> 'w lifecycleManager \<Rightarrow> bool \<times> 'w lifecycleManager" where
  "isLockExpired E lock lm = (case lm_Now E lm of (now, lm1) \<Rightarrow> (now > lk_ExpiresAt lock, lm1))"

definition create_lock ::
    "('w, 'u) Env \<Rightarrow> call_context \<Rightarrow> PackageReference \<Rightarrow> string \<Rightarrow> duration \<Rightarrow> 'w lifecycleManager \<Rightarrow> LifecycleLock \<times> 'w lifecycleManager" where
  "create_lock E cx ref operation timeout lm =
     (case lm_Now E lm of (t1, lm1) \<Rightarrow> case lm_Now E lm1 of (t2, lm2) \<Rightarrow> case lm_Now E lm2 of (t3, lm3) \<Rightarrow>
      let lock = \<lparr>lk_ID = lock_id (GetPackageKey ref) t1, lk_PackageRef = ref, lk_Operation = operation, lk_AcquiredBy = ''lifecycle-manager'',
                  lk_AcquiredAt = t2, lk_ExpiresAt = t3 + timeout, lk_Renewable = True\<rparr>
      in (lock, emit E cx LifecycleEventLockAcquired ref '''' '''' (lm3\<lparr>lm_lifecycleLocks := fmupd (GetPackageKey ref) lock (lm_lifecycleLocks lm3)\<rparr>)))"

definition AcquireLifecycleLock ::
    "('w, 'u) Env \<Rightarrow> call_context \<Rightarrow> PackageReference \<Rightarrow> string \<Rightarrow> duration \<Rightarrow> 'w lifecycleManager \<Rightarrow> (porch_error + LifecycleLock) \<times> 'w lifecycleManager" where
  "AcquireLifecycleLock E cx ref operation timeout lm =
     (let lockKey = GetPackageKey ref
      in case fmlookup (lm_lifecycleLocks lm) lockKey of
           None \<Rightarrow> map_prod Inr id (create_lock E cx ref operation timeout lm)
         | Some existingLock \<Rightarrow>
             (case isLockExpired E existingLock lm of
                (expired, lm1) \<Rightarrow>
                  if \<not> expired
                  then (Inl (Errorf (''package '' @ lockKey @ '' is already locked by operation '' @ lk_Operation existingLock)), lm1)
                  else map_prod Inr id (create_lock E cx ref operation timeout lm1)))"

definition find_lock :: "call_context \<Rightarrow> string \<Rightarrow> (string, LifecycleLock) fmap \<Rightarrow> string option" where
  "find_lock cx lockID locks =
     List.find (\<lambda>key. case fmlookup locks key of None \<Rightarrow> False | Some l \<Rightarrow> lk_ID l = lockID) (cx_locks cx locks)"

definition ReleaseLifecycleLock ::
    "('w, 'u) Env \<Rightarrow> call_context \<Rightarrow> string \<Rightarrow> 'w lifecycleManager \<Rightarrow> porch_error option \<times> 'w lifecycleManager" where
  "ReleaseLifecycleLock E cx lockID lm =
     (case find_lock cx lockID (lm_lifecycleLocks lm) of
        None \<Rightarrow> (Some (Errorf (''lock with ID '' @ lockID @ '' not found'')), lm)
      | Some lockKey \<Rightarrow>
          (case fmlookup (lm_lifecycleLocks lm) lockKey of
             None \<Rightarrow> (Some (Errorf (''lock with ID '' @ lockID @ '' not found'')), lm)
           | Some lock \<Rightarrow>
               (None, emit E cx LifecycleEventLockReleased (lk_PackageRef lock) '''' ''''
                        (lm\<lparr>lm_lifecycleLocks := fmdrop lockKey (lm_lifecycleLocks lm)\<rparr>))))"

definition ForceReleaseLock ::
    "('w, 'u) Env \<Rightarrow> call_context \<Rightarrow> string \<Rightarrow> string \<Rightarrow> 'w lifecycleManager \<Rightarrow> porch_error option \<times> 'w lifecycleManager" where
  "ForceReleaseLock E cx lockID reason = ReleaseLifecycleLock E cx lockID"

definition cleanupExpiredLocks :: "('w, 'u) Env \<Rightarrow> 'w lifecycleManager \<Rightarrow> 'w lifecycleManager" where
  "cleanupExpiredLocks E lm =
     (case lm_Now E lm of (now, lm1) \<Rightarrow>
        lm1\<lparr>lm_lifecycleLocks := fmfilter (\<lambda>key. case fmlookup (lm_lifecycleLocks lm1) key of None \<Rightarrow> True
              | Some lock \<Rightarrow> \<not> now > lk_ExpiresAt lock) (lm_lifecycleLocks lm1)\<rparr>)"

subsection \<open>Gates and hooks\<close>

definition gate_Validate ::
    "('w, 'u) Env \<Rightarrow> 'w ValidationGate \<Rightarrow> PackageReference \<Rightarrow> PackageRevisionLifecycle \<Rightarrow> ('w, ValidationResult) call" where
  "gate_Validate E gate ref targetStage c =
     (case gate of
        ContentValidationGate _ _ _ _ \<Rightarrow> ValidatePackage E (rf_PackageName ref) (rf_Revision ref) c
      | ApprovalValidationGate _ _ _ _ \<Rightarrow> (Inr \<lparr>vr_Valid = True, vr_Errors = [], vr_Warnings = []\<rparr>, c)
      | ForeignGate _ _ _ _ f \<Rightarrow>
          (case f ref targetStage (cl_world c) of (r, w) \<Rightarrow> (map_sum Errorf id r, c\<lparr>cl_world := w\<rparr>)))"

text \<open>The body of the loop over the gates, and the loop.\<close>

definition gate_merge :: "'w ValidationGate \<Rightarrow> porch_error + ValidationResult \<Rightarrow> ValidationResult \<Rightarrow> ValidationResult" where
  "gate_merge gate outcome result =
     (case outcome of
        Inl err \<Rightarrow> result\<lparr>vr_Valid := False,
          vr_Errors := vr_Errors result @ [issue '''' (''Gate '' @ vg_Name gate @ '' failed: '' @ error_text err) ''error'' '''']\<rparr>
      | Inr gateResult \<Rightarrow>
          result\<lparr>vr_Valid := (if \<not> vr_Valid gateResult \<and> vg_Required gate then False else vr_Valid result),
            vr_Errors := (if \<not> vr_Valid gateResult then vr_Errors result @ vr_Errors gateResult else vr_Errors result),
            vr_Warnings := vr_Warnings result @ vr_Warnings gateResult\<rparr>)"

fun validate_gates ::
    "('w, 'u) Env \<Rightarrow> PackageReference \<Rightarrow> PackageRevisionLifecycle \<Rightarrow> 'w ValidationGate list \<Rightarrow> ValidationResult \<Rightarrow> 'w Client
       \<Rightarrow> ValidationResult \<times> 'w Client" where
  "validate_gates E ref targetStage [] result c = (result, c)"
| "validate_gates E ref targetStage (gate # gates) result c =
     (case gate_Validate E gate ref targetStage c of
        (outcome, c1) \<Rightarrow> validate_gates E ref targetStage gates (gate_merge gate outcome result) c1)"

definition gates_of :: "'w lifecycleManager \<Rightarrow> PackageRevisionLifecycle \<Rightarrow> 'w ValidationGate list" where
  "gates_of lm stage = (case fmlookup (lm_validationGates lm) stage of None \<Rightarrow> [] | Some gs \<Rightarrow> gs)"

text \<open>The second result of \<open>ValidateTransition\<close> is nil on both returns.\<close>

definition ValidateTransition ::
    "('w, 'u) Env \<Rightarrow> PackageReference \<Rightarrow> PackageRevisionLifecycle \<Rightarrow> 'w lifecycleManager \<Rightarrow> (porch_error + ValidationResult) \<times> 'w lifecycleManager" where
  "ValidateTransition E ref targetStage lm =
     (case validate_gates E ref targetStage (gates_of lm targetStage) \<lparr>vr_Valid = True, vr_Errors = [], vr_Warnings = []\<rparr> (lm_client lm) of
        (result, c) \<Rightarrow> (Inr result, lm\<lparr>lm_client := c\<rparr>))"

fun execute_hooks ::
    "PackageReference \<Rightarrow> PackageRevisionLifecycle \<Rightarrow> HookAction \<Rightarrow> 'w IntegrationHook list \<Rightarrow> HookExecutionResult \<Rightarrow> 'w
       \<Rightarrow> HookExecutionResult \<times> 'w" where
  "execute_hooks ref stage action [] result w = (result, w)"
| "execute_hooks ref stage action (hook # hooks) result w =
     (case ih_Execute hook ref stage action w of
        (outcome, w1) \<Rightarrow>
          let hookResult = (case outcome of Inl err \<Rightarrow> \<lparr>hr_HookID = ih_ID hook, hr_Success = False, hr_Error = err\<rparr> | Inr r \<Rightarrow> r);
              success = (if \<not> isOk outcome then False else hx_Success result)
          in execute_hooks ref stage action hooks
               \<lparr>hx_Success = (if \<not> hr_Success hookResult \<and> \<not> ih_Async hook then False else success), hx_Results = hx_Results result @ [hookResult]\<rparr> w1)"

definition hooks_of :: "'w lifecycleManager \<Rightarrow> PackageRevisionLifecycle \<Rightarrow> HookAction \<Rightarrow> 'w IntegrationHook list" where
  "hooks_of lm stage action =
     (case fmlookup (lm_integrationHooks lm) stage of
        None \<Rightarrow> []
      | Some stageHooks \<Rightarrow> (case fmlookup stageHooks action of None \<Rightarrow> [] | Some hs \<Rightarrow> hs))"

definition ExecuteHooks ::
    "PackageReference \<Rightarrow> PackageRevisionLifecycle \<Rightarrow> HookAction \<Rightarrow> 'w lifecycleManager \<Rightarrow> (porch_error + HookExecutionResult) \<times> 'w lifecycleManager" where
  "ExecuteHooks ref stage action lm =
     (case execute_hooks ref stage action (hooks_of lm stage action) \<lparr>hx_Success = True, hx_Results = []\<rparr> (cl_world (lm_client lm)) of
        (result, w) \<Rightarrow> (Inr result, lm\<lparr>lm_client := (lm_client lm)\<lparr>cl_world := w\<rparr>\<rparr>))"

subsection \<open>Transitions\<close>

text \<open>A step of a transition ends it early with a result and an error, or goes on with the result so far. \<open>finish\<close> fills in the
  duration.\<close>

type_synonym ('w, 'a) tcall = "'w lifecycleManager \<Rightarrow> ((TransitionResult \<times> porch_error) + 'a) \<times> 'w lifecycleManager"

definition finish :: "('w, 'u) Env \<Rightarrow> TransitionResult \<Rightarrow> 'w lifecycleManager \<Rightarrow> TransitionResult \<times> 'w lifecycleManager" where
  "finish E result lm = (case lm_Now E lm of (now, lm1) \<Rightarrow> (result\<lparr>tr_Duration := time_Sub now (tr_TransitionTime result)\<rparr>, lm1))"

definition add_warning :: "string \<Rightarrow> TransitionResult \<Rightarrow> TransitionResult" where
  "add_warning warning result = result\<lparr>tr_Warnings := tr_Warnings result @ [warning]\<rparr>"

definition CreateRollbackPoint ::
    "('w, 'u) Env \<Rightarrow> PackageReference \<Rightarrow> string \<Rightarrow> 'w lifecycleManager \<Rightarrow> (porch_error + RollbackPoint) \<times> 'w lifecycleManager" where
  "CreateRollbackPoint E ref description lm =
     (case lm_Now E lm of (t1, lm1) \<Rightarrow> case lm_Now E lm1 of (t2, lm2) \<Rightarrow>
      (Inr \<lparr>rb_ID = ''rollback-'' @ strconv_Itoa t1, rb_PackageRef = ref, rb_CreatedAt = t2, rb_Description = description\<rparr>, lm2))"

definition rollback_phase ::
    "('w, 'u) Env \<Rightarrow> PackageReference \<Rightarrow> TransitionOptions \<Rightarrow> TransitionResult \<Rightarrow> 'w lifecycleManager \<Rightarrow> TransitionResult \<times> 'w lifecycleManager" where
  "rollback_phase E ref opts result lm =
     (if \<not> to_CreateRollbackPoint opts then (result, lm)
      else case CreateRollbackPoint E ref (to_RollbackDescription opts) lm of
             (Inl err, lm1) \<Rightarrow> (add_warning ''Failed to create rollback point'' result, lm1)
           | (Inr point, lm1) \<Rightarrow> (result\<lparr>tr_RollbackPoint := Some point\<rparr>, lm1))"

definition pre_hooks_phase ::
    "('w, 'u) Env \<Rightarrow> PackageReference \<Rightarrow> PackageRevisionLifecycle \<Rightarrow> TransitionOptions \<Rightarrow> TransitionResult \<Rightarrow> ('w, TransitionResult) tcall" where
  "pre_hooks_phase E ref targetStage opts result lm =
     (if to_SkipHooks opts then (Inr result, lm)
      else case ExecuteHooks ref targetStage HookActionPreTransition lm of
             (Inr hookResult, lm1) \<Rightarrow> (Inr (result\<lparr>tr_HookResults := Some hookResult\<rparr>), lm1)
           | (Inl err, lm1) \<Rightarrow>
               if \<not> to_ForceTransition opts
               then case finish E (result\<lparr>tr_Success := False\<rparr>) lm1 of (result1, lm2) \<Rightarrow> (Inl (result1, Wrap ''pre-transition hooks failed'' err), lm2)
               else (Inr ((add_warning ''Pre-transition hooks failed but transition forced'' result)\<lparr>tr_HookResults := None\<rparr>), lm1))"

definition validation_phase ::
    "('w, 'u) Env \<Rightarrow> PackageReference \<Rightarrow> PackageRevisionLifecycle \<Rightarrow> TransitionOptions \<Rightarrow> TransitionResult \<Rightarrow> ('w, TransitionResult) tcall" where
  "validation_phase E ref targetStage opts result lm =
     (if to_SkipValidation opts then (Inr result, lm)
      else case ValidateTransition E ref targetStage lm of
             (Inl err, lm1) \<Rightarrow>
               (case finish E (result\<lparr>tr_Success := False, tr_ValidationResults := []\<rparr>) lm1 of (result1, lm2) \<Rightarrow>
                  if \<not> to_ForceTransition opts then (Inl (result1, Errorf (''validation failed for transition to '' @ targetStage)), lm2)
                  else (Inr (add_warning ''Validation failed but transition forced'' result1), lm2))
           | (Inr validationResult, lm1) \<Rightarrow>
               if vr_Valid validationResult then (Inr (result\<lparr>tr_ValidationResults := [validationResult]\<rparr>), lm1)
               else case finish E (result\<lparr>tr_Success := False, tr_ValidationResults := [validationResult]\<rparr>) lm1 of (result1, lm2) \<Rightarrow>
                    if \<not> to_ForceTransition opts then (Inl (result1, Errorf (''validation failed for transition to '' @ targetStage)), lm2)
                    else (Inr (add_warning ''Validation failed but transition forced'' result1), lm2))"

text \<open>The update writes the stage into the object that \<open>GetPackageRevision\<close> has returned, then sends it.\<close>

definition set_stage :: "addr \<Rightarrow> PackageRevisionLifecycle \<Rightarrow> 'w lifecycleManager \<Rightarrow> 'w lifecycleManager" where
  "set_stage a stage lm = lm\<lparr>lm_client := set_pkg a ((cl_pkgs (lm_client lm) a)\<lparr>pr_Lifecycle := stage\<rparr>) (lm_client lm)\<rparr>"

definition update_phase ::
    "('w, 'u) Env \<Rightarrow> PackageReference \<Rightarrow> addr \<Rightarrow> PackageRevisionLifecycle \<Rightarrow> TransitionOptions \<Rightarrow> TransitionResult \<Rightarrow> ('w, TransitionResult) tcall" where
  "update_phase E ref a targetStage opts result lm =
     (if to_DryRun opts then (Inr result, lm)
      else case with_client (UpdatePackageRevision E (Some a)) (set_stage a targetStage lm) of
             (Inr updatedPkg, lm1) \<Rightarrow> (Inr (result\<lparr>tr_updatedPackage := Some updatedPkg\<rparr>), lm1)
           | (Inl err, lm1) \<Rightarrow>
               (case finish E (result\<lparr>tr_Success := False\<rparr>) lm1 of (result1, lm2) \<Rightarrow>
                let lm3 = (if to_SkipHooks opts then lm2 else snd (ExecuteHooks ref targetStage HookActionOnFailure lm2))
                in (Inl (result1, Wrap ''failed to update package revision'' err), lm3)))"

definition post_hooks_phase ::
    "PackageReference \<Rightarrow> PackageRevisionLifecycle \<Rightarrow> TransitionOptions \<Rightarrow> TransitionResult \<Rightarrow> 'w lifecycleManager \<Rightarrow> TransitionResult \<times> 'w lifecycleManager" where
  "post_hooks_phase ref targetStage opts result lm =
     (if to_SkipHooks opts \<or> to_DryRun opts then (result, lm)
      else case ExecuteHooks ref targetStage HookActionPostTransition lm of
             (Inl err, lm1) \<Rightarrow> (add_warning ''Post-transition hooks failed'' result, lm1)
           | (Inr hookResult, lm1) \<Rightarrow>
               (case ExecuteHooks ref targetStage HookActionOnSuccess lm1 of (_, lm2) \<Rightarrow>
                  (case tr_HookResults result of None \<Rightarrow> result\<lparr>tr_HookResults := Some hookResult\<rparr> | Some _ \<Rightarrow> result, lm2)))"

definition new_result :: "time \<Rightarrow> PackageRevisionLifecycle \<Rightarrow> PackageRevisionLifecycle \<Rightarrow> TransitionResult" where
  "new_result startTime previousStage targetStage =
     \<lparr>tr_Success = True, tr_PreviousStage = previousStage, tr_NewStage = targetStage, tr_TransitionTime = startTime, tr_Duration = 0,
      tr_ValidationResults = [], tr_HookResults = None, tr_RollbackPoint = None, tr_Warnings = [], tr_updatedPackage = None\<rparr>"

text \<open>What happens while the lock is held.\<close>

definition transition_locked ::
    "('w, 'u) Env \<Rightarrow> call_context \<Rightarrow> PackageReference \<Rightarrow> addr \<Rightarrow> PackageRevisionLifecycle \<Rightarrow> TransitionOptions \<Rightarrow> TransitionResult
       \<Rightarrow> ('w, TransitionResult) tcall" where
  "transition_locked E cx ref a targetStage opts result lm =
     (case rollback_phase E ref opts result (emit E cx LifecycleEventTransitionStarted ref (tr_PreviousStage result) targetStage lm) of
        (result1, lm1) \<Rightarrow>
          proceed (pre_hooks_phase E ref targetStage opts result1) id (\<lambda>result2.
          proceed (validation_phase E ref targetStage opts result2) id (\<lambda>result3.
          proceed (update_phase E ref a targetStage opts result3) id (\<lambda>result4 lm4.
            case post_hooks_phase ref targetStage opts result4 lm4 of (result5, lm5) \<Rightarrow>
            case finish E result5 lm5 of (result6, lm6) \<Rightarrow>
            (Inr result6, emit E cx LifecycleEventTransitionCompleted ref (tr_PreviousStage result) targetStage lm6)))) lm1)"

text \<open>The result of \<open>performTransition\<close> may be nil and comes with an error or without.\<close>

definition performTransition ::
    "('w, 'u) Env \<Rightarrow> call_context \<Rightarrow> PackageReference \<Rightarrow> PackageRevisionLifecycle \<Rightarrow> TransitionOptions option \<Rightarrow> 'w lifecycleManager
       \<Rightarrow> (TransitionResult option \<times> porch_error option) \<times> 'w lifecycleManager" where
  "performTransition E cx ref targetStage opts_ptr lm =
     (case lm_Now E lm of (startTime, lm0) \<Rightarrow>
      let opts = (case opts_ptr of None \<Rightarrow> zeroTransitionOptions | Some o1 \<Rightarrow> o1)
      in case with_client (GetPackageRevision E (rf_PackageName ref) (rf_Revision ref)) lm0 of
           (Inl err, lm1) \<Rightarrow> ((None, Some (Wrap ''failed to get package revision'' err)), lm1)
         | (Inr a, lm1) \<Rightarrow>
             let previousStage = pr_Lifecycle (cl_pkgs (lm_client lm1) a)
             in if previousStage = targetStage
                then (case finish E ((new_result startTime previousStage targetStage)\<lparr>tr_Success := False\<rparr>) lm1 of (result, lm2) \<Rightarrow>
                      ((Some (result\<lparr>tr_TransitionTime := zero_time\<rparr>), Some (Errorf (''invalid transition from '' @ previousStage @ '' to '' @ targetStage))), lm2))
                else case AcquireLifecycleLock E cx ref ''transition'' (to_Timeout opts) lm1 of
                       (Inl err, lm2) \<Rightarrow> ((None, Some (Wrap ''failed to acquire lifecycle lock'' err)), lm2)
                     | (Inr lock, lm2) \<Rightarrow>
                         (case transition_locked E cx ref a targetStage opts (new_result startTime previousStage targetStage) lm2 of
                            (out, lm3) \<Rightarrow>
                              ((case out of Inl (result, err) \<Rightarrow> (Some result, Some err) | Inr result \<Rightarrow> (Some result, None)),
                               snd (ReleaseLifecycleLock E cx (lk_ID lock) lm3))))"

definition TransitionToProposed where "TransitionToProposed E cx ref = performTransition E cx ref PackageRevisionLifecycleProposed"
definition TransitionToPublished where "TransitionToPublished E cx ref = performTransition E cx ref PackageRevisionLifecyclePublished"
definition TransitionToDraft where "TransitionToDraft E cx ref = performTransition E cx ref PackageRevisionLifecycleDraft"
definition TransitionToDeletable where "TransitionToDeletable E cx ref = performTransition E cx ref PackageRevisionLifecycleDeletable"

subsection \<open>Registries\<close>

text \<open>The functions that sort by priority have empty bodies.\<close>

definition sortEventHandlersByPriority :: "'w LifecycleEventHandler list \<Rightarrow> 'w LifecycleEventHandler list" where
  "sortEventHandlersByPriority handlers = handlers"

definition sortValidationGatesByPriority :: "'w ValidationGate list \<Rightarrow> 'w ValidationGate list" where
  "sortValidationGatesByPriority gates = gates"

definition handlers_of :: "'w lifecycleManager \<Rightarrow> LifecycleEventType \<Rightarrow> 'w LifecycleEventHandler list" where
  "handlers_of lm eventType = (case fmlookup (lm_eventHandlers lm) eventType of None \<Rightarrow> [] | Some hs \<Rightarrow> hs)"

definition RegisterEventHandler ::
    "LifecycleEventType \<Rightarrow> 'w LifecycleEventHandler \<Rightarrow> 'w lifecycleManager \<Rightarrow> porch_error option \<times> 'w lifecycleManager" where
  "RegisterEventHandler eventType handler lm =
     (let existing = handlers_of lm eventType
      in if list_ex (\<lambda>h. eh_ID h = eh_ID handler) existing
         then (Some (Errorf (''handler with ID '' @ eh_ID handler @ '' already exists for event type '' @ eventType)),
               lm\<lparr>lm_eventHandlers := fmupd eventType existing (lm_eventHandlers lm)\<rparr>)
         else (None, lm\<lparr>lm_eventHandlers := fmupd eventType (sortEventHandlersByPriority (existing @ [handler])) (lm_eventHandlers lm)\<rparr>))"

definition RegisterValidationGate ::
    "PackageRevisionLifecycle \<Rightarrow> 'w ValidationGate \<Rightarrow> 'w lifecycleManager \<Rightarrow> porch_error option \<times> 'w lifecycleManager" where
  "RegisterValidationGate stage gate lm =
     (let existing = gates_of lm stage
      in if list_ex (\<lambda>g. vg_ID g = vg_ID gate) existing
         then (Some (Errorf (''validation gate with ID '' @ vg_ID gate @ '' already exists for stage '' @ stage)),
               lm\<lparr>lm_validationGates := fmupd stage existing (lm_validationGates lm)\<rparr>)
         else (None, lm\<lparr>lm_validationGates := fmupd stage (sortValidationGatesByPriority (existing @ [gate])) (lm_validationGates lm)\<rparr>))"

text \<open>The first element with the property, and the list without it.\<close>

fun remove_first :: "('a \<Rightarrow> bool) \<Rightarrow> 'a list \<Rightarrow> 'a list option" where
  "remove_first P [] = None"
| "remove_first P (x # xs) = (if P x then Some xs else map_option ((#) x) (remove_first P xs))"

definition UnregisterEventHandler ::
    "LifecycleEventType \<Rightarrow> string \<Rightarrow> 'w lifecycleManager \<Rightarrow> porch_error option \<times> 'w lifecycleManager" where
  "UnregisterEventHandler eventType handlerID lm =
     (case fmlookup (lm_eventHandlers lm) eventType of
        None \<Rightarrow> (Some (Errorf (''no handlers registered for event type '' @ eventType)), lm)
      | Some handlers \<Rightarrow>
          (case remove_first (\<lambda>h. eh_ID h = handlerID) handlers of
             Some rest \<Rightarrow> (None, lm\<lparr>lm_eventHandlers := fmupd eventType rest (lm_eventHandlers lm)\<rparr>)
           | None \<Rightarrow> (Some (Errorf (''handler with ID '' @ handlerID @ '' not found for event type '' @ eventType)), lm)))"

definition UnregisterValidationGate ::
    "PackageRevisionLifecycle \<Rightarrow> string \<Rightarrow> 'w lifecycleManager \<Rightarrow> porch_error option \<times> 'w lifecycleManager" where
  "UnregisterValidationGate stage gateID lm =
     (case fmlookup (lm_validationGates lm) stage of
        None \<Rightarrow> (Some (Errorf (''no validation gates registered for stage '' @ stage)), lm)
      | Some gates \<Rightarrow>
          (case remove_first (\<lambda>g. vg_ID g = gateID) gates of
             Some rest \<Rightarrow> (None, lm\<lparr>lm_validationGates := fmupd stage rest (lm_validationGates lm)\<rparr>)
           | None \<Rightarrow> (Some (Errorf (''validation gate with ID '' @ gateID @ '' not found for stage '' @ stage)), lm)))"

text \<open>A hook is registered for every action in turn; a duplicate stops the loop where it is.\<close>

definition all_actions :: "HookAction list" where
  "all_actions = [HookActionPreTransition, HookActionPostTransition, HookActionOnFailure, HookActionOnSuccess]"

fun register_hook ::
    "'w IntegrationHook \<Rightarrow> HookAction list \<Rightarrow> (HookAction, 'w IntegrationHook list) fmap \<Rightarrow> HookAction option \<times> (HookAction, 'w IntegrationHook list) fmap" where
  "register_hook hook [] m = (None, m)"
| "register_hook hook (action # actions) m =
     (let existing = (case fmlookup m action of None \<Rightarrow> [] | Some hs \<Rightarrow> hs)
      in if list_ex (\<lambda>h. ih_ID h = ih_ID hook) existing then (Some action, fmupd action existing m)
         else register_hook hook actions (fmupd action (existing @ [hook]) m))"

definition RegisterIntegrationHook ::
    "PackageRevisionLifecycle \<Rightarrow> 'w IntegrationHook \<Rightarrow> 'w lifecycleManager \<Rightarrow> porch_error option \<times> 'w lifecycleManager" where
  "RegisterIntegrationHook stage hook lm =
     (let m = (case fmlookup (lm_integrationHooks lm) stage of None \<Rightarrow> fmempty | Some m \<Rightarrow> m)
      in case register_hook hook all_actions m of
           (dup, m1) \<Rightarrow>
             (map_option (\<lambda>action. Errorf (''hook with ID '' @ ih_ID hook @ '' already exists for stage '' @ stage @ '' action '' @ action)) dup,
              lm\<lparr>lm_integrationHooks := fmupd stage m1 (lm_integrationHooks lm)\<rparr>))"

fun unregister_hook ::
    "string \<Rightarrow> HookAction list \<Rightarrow> (HookAction, 'w IntegrationHook list) fmap \<Rightarrow> (HookAction, 'w IntegrationHook list) fmap option" where
  "unregister_hook hookID [] m = None"
| "unregister_hook hookID (action # actions) m =
     (case fmlookup m action of
        None \<Rightarrow> unregister_hook hookID actions m
      | Some hooks \<Rightarrow>
          (case remove_first (\<lambda>h. ih_ID h = hookID) hooks of
             Some rest \<Rightarrow> Some (fmupd action rest m)
           | None \<Rightarrow> unregister_hook hookID actions m))"

definition UnregisterIntegrationHook ::
    "call_context \<Rightarrow> PackageRevisionLifecycle \<Rightarrow> string \<Rightarrow> 'w lifecycleManager \<Rightarrow> porch_error option \<times> 'w lifecycleManager" where
  "UnregisterIntegrationHook cx stage hookID lm =
     (case fmlookup (lm_integrationHooks lm) stage of
        None \<Rightarrow> (Some (Errorf (''no integration hooks registered for stage '' @ stage)), lm)
      | Some stageHooks \<Rightarrow>
          (case unregister_hook hookID (cx_actions cx) stageHooks of
             Some m \<Rightarrow> (None, lm\<lparr>lm_integrationHooks := fmupd stage m (lm_integrationHooks lm)\<rparr>)
           | None \<Rightarrow> (Some (Errorf (''integration hook with ID '' @ hookID @ '' not found for stage '' @ stage)), lm)))"

subsection \<open>Construction and health\<close>

definition getAllLifecycleStages :: "PackageRevisionLifecycle list" where
  "getAllLifecycleStages = [PackageRevisionLifecycleDraft, PackageRevisionLifecycleProposed, PackageRevisionLifecyclePublished, PackageRevisionLifecycleDeletable]"

record LifecycleManagerConfig =
  lc_EventQueueSize :: int
  lc_EventWorkers :: int
  lc_LockCleanupInterval :: duration
  lc_DefaultLockTimeout :: duration
  lc_EnableMetrics :: bool

definition getDefaultLifecycleManagerConfig :: LifecycleManagerConfig where
  "getDefaultLifecycleManagerConfig = \<lparr>lc_EventQueueSize = 1000, lc_EventWorkers = 5, lc_LockCleanupInterval = 5 * Minute,
     lc_DefaultLockTimeout = 30 * Minute, lc_EnableMetrics = True\<rparr>"

definition registerDefaultValidationGates :: "'w lifecycleManager \<Rightarrow> 'w lifecycleManager" where
  "registerDefaultValidationGates lm =
     snd (RegisterValidationGate PackageRevisionLifecyclePublished (ApprovalValidationGate ''approval-required'' ''Approval Required Gate'' 200 True)
       (snd (RegisterValidationGate PackageRevisionLifecycleProposed (ContentValidationGate ''content-validation'' ''Content Validation Gate'' 100 True) lm)))"

text \<open>\<open>NewLifecycleManager\<close>; a negative queue size makes \<open>make\<close> panic.\<close>

definition NewLifecycleManager :: "'w Client option \<Rightarrow> LifecycleManagerConfig option \<Rightarrow> (porch_error + 'w lifecycleManager) outcome" where
  "NewLifecycleManager client_ptr config_ptr =
     (case client_ptr of
        None \<Rightarrow> Ret (Inl (Errorf ''client cannot be nil''))
      | Some c \<Rightarrow>
          let config = (case config_ptr of None \<Rightarrow> getDefaultLifecycleManagerConfig | Some cf \<Rightarrow> cf)
          in if lc_EventQueueSize config < 0 then Panic ''makechan: size out of range''
             else Ret (Inr (registerDefaultValidationGates
               \<lparr>lm_client = c, lm_eventHandlers = fmempty, lm_eventQueue = [], lm_queueSize = nat (lc_EventQueueSize config), lm_validationGates = fmempty,
                lm_integrationHooks = fold (\<lambda>stage. fmupd stage fmempty) getAllLifecycleStages fmempty, lm_lifecycleLocks = fmempty\<rparr>)))"

definition GetManagerHealth :: "'w lifecycleManager \<Rightarrow> string" where
  "GetManagerHealth lm =
     (let queueSize = length (lm_eventQueue lm)
      in if queueSize \<ge> 1000 then ''unhealthy'' else if queueSize > 800 then ''degraded'' else ''healthy'')"

section \<open>Frames\<close>

text \<open>What others have registered leaves the revisions of the server alone.\<close>

definition guests_ok :: "('w \<Rightarrow> string \<rightharpoonup> 'u) \<Rightarrow> 'w lifecycleManager \<Rightarrow> bool" where
  "guests_ok store lm \<longleftrightarrow>
     (\<forall>stage action h ref st ac w. h \<in> set (hooks_of lm stage action) \<longrightarrow> store (snd (ih_Execute h ref st ac w)) = store w)
   \<and> (\<forall>stage i nm pr rq f ref st w. ForeignGate i nm pr rq f \<in> set (gates_of lm stage) \<longrightarrow> store (snd (f ref st w)) = store w)"

lemma guests_ok_same:
  "lm_validationGates lm1 = lm_validationGates lm \<Longrightarrow> lm_integrationHooks lm1 = lm_integrationHooks lm \<Longrightarrow> guests_ok store lm1 = guests_ok store lm"
  by (simp add: guests_ok_def hooks_of_def gates_of_def)

text \<open>A step that reads and allocates only and leaves the registries and the locks.\<close>

definition lm_quiet :: "('w \<Rightarrow> string \<rightharpoonup> 'u) \<Rightarrow> 'w lifecycleManager \<Rightarrow> 'w lifecycleManager \<Rightarrow> bool" where
  "lm_quiet store lm lm1 \<longleftrightarrow> quiet store (lm_client lm) (lm_client lm1) \<and> lm_lifecycleLocks lm1 = lm_lifecycleLocks lm
     \<and> lm_validationGates lm1 = lm_validationGates lm \<and> lm_integrationHooks lm1 = lm_integrationHooks lm"

lemma lm_quiet_refl [simp]: "lm_quiet store lm lm"
  by (simp add: lm_quiet_def)

lemma lm_quiet_trans: "lm_quiet store lm lm1 \<Longrightarrow> lm_quiet store lm1 lm2 \<Longrightarrow> lm_quiet store lm lm2"
  unfolding lm_quiet_def using quiet_trans by fastforce

lemma guests_quiet: "lm_quiet store' lm lm1 \<Longrightarrow> guests_ok store lm1 = guests_ok store lm"
  by (simp add: guests_ok_def lm_quiet_def hooks_of_def gates_of_def)

lemma lm_Now_quiet: "environment_ok E store \<Longrightarrow> lm_Now E lm = (t, lm1) \<Longrightarrow> lm_quiet store lm lm1"
  by (auto simp: lm_Now_def lm_quiet_def dest: time_Now_quiet split: prod.splits)

lemma TriggerEvent_quiet: "lm_quiet store lm (snd (TriggerEvent cx event lm))"
  by (simp add: TriggerEvent_def lm_quiet_def Let_def)

lemma emit_quiet:
  assumes "environment_ok E store" shows "lm_quiet store lm (emit E cx eventType ref s s' lm)"
proof -
  obtain t lm1 where 1: "lm_Now E lm = (t, lm1)" by fastforce
  obtain t' lm2 where 2: "lm_Now E lm1 = (t', lm2)" by fastforce
  have "lm_quiet store lm lm2" using lm_Now_quiet [OF assms 1] lm_Now_quiet [OF assms 2] by (rule lm_quiet_trans)
  then show ?thesis by (simp add: emit_def 1 2) (erule lm_quiet_trans [OF _ TriggerEvent_quiet])
qed

lemma finish_quiet: "environment_ok E store \<Longrightarrow> finish E result lm = (result1, lm1) \<Longrightarrow> lm_quiet store lm lm1"
  by (auto simp: finish_def dest: lm_Now_quiet split: prod.splits)

lemma rollback_phase_quiet:
  assumes "environment_ok E store" "rollback_phase E ref opts result lm = (result1, lm1)"
  shows "lm_quiet store lm lm1"
proof -
  obtain t lm2 where 1: "lm_Now E lm = (t, lm2)" by fastforce
  obtain t' lm3 where 2: "lm_Now E lm2 = (t', lm3)" by fastforce
  note q = lm_quiet_trans [OF lm_Now_quiet [OF assms(1) 1] lm_Now_quiet [OF assms(1) 2]]
  show ?thesis using assms(2) 1 2 q
    by (auto simp: rollback_phase_def CreateRollbackPoint_def split: if_splits)
qed

lemma execute_hooks_store:
  "(\<And>h w. h \<in> set hooks \<Longrightarrow> store (snd (ih_Execute h ref stage action w)) = store w) \<Longrightarrow>
   execute_hooks ref stage action hooks result w = (result1, w1) \<Longrightarrow> store w1 = store w"
proof (induction hooks arbitrary: result w)
  case (Cons h hooks)
  obtain r w2 where "ih_Execute h ref stage action w = (r, w2)" by fastforce
  with Cons.prems(1) [of h w] have w2: "store w2 = store w" "ih_Execute h ref stage action w = (r, w2)" by auto
  with Cons.prems(2) obtain result2 where "execute_hooks ref stage action hooks result2 w2 = (result1, w1)"
    by (simp add: Let_def)
  with Cons.IH Cons.prems(1) w2 show ?case by (metis list.set_intros(2))
qed simp

lemma ExecuteHooks_quiet:
  assumes "guests_ok store lm" "ExecuteHooks ref stage action lm = (r, lm1)"
  shows "lm_quiet store lm lm1 \<and> isOk r"
proof -
  obtain result w where x: "execute_hooks ref stage action (hooks_of lm stage action) \<lparr>hx_Success = True, hx_Results = []\<rparr> (cl_world (lm_client lm)) = (result, w)"
    by fastforce
  have "store w = store (cl_world (lm_client lm))"
    using execute_hooks_store [OF _ x] assms(1) unfolding guests_ok_def by metis
  then show ?thesis using assms(2) x by (auto simp: ExecuteHooks_def lm_quiet_def isOk_def quiet_def)
qed

lemma calm_validate:
  assumes "environment_ok E store" "\<And>w n. store (snd (en_Get E packagerevisions_gvr n w)) = store w"
  shows "calm store (ValidatePackage E name revision)"
proof -
  have get: "calm store (getPackageRevisionInternal E name revision)" using assms by (rule calm_get)
  have "calm store (validatePackageInternal E name revision)"
    unfolding validatePackageInternal_def
    using get by (intro calm_proceed calm_wait [OF assms(1)]) (auto simp: calm_def split: prod.splits sum.splits)
  then show ?thesis unfolding ValidatePackage_def by (rule calm_cb [OF assms(1)])
qed

lemma gate_Validate_quiet:
  assumes "environment_ok E store" "\<And>w n. store (snd (en_Get E packagerevisions_gvr n w)) = store w"
    and "\<And>i nm pr rq f w. gate = ForeignGate i nm pr rq f \<Longrightarrow> store (snd (f ref stage w)) = store w"
    and "gate_Validate E gate ref stage c = (r, c1)"
  shows "quiet store c c1"
proof (cases gate)
  case (ContentValidationGate i nm pr rq)
  then show ?thesis using calm_validate [OF assms(1,2)] assms(4) by (auto simp: gate_Validate_def calm_def)
next
  case (ApprovalValidationGate i nm pr rq)
  then show ?thesis using assms(4) by (auto simp: gate_Validate_def)
next
  case (ForeignGate i nm pr rq f)
  then show ?thesis using assms(3) [OF ForeignGate, of "cl_world c"] assms(4) by (auto simp: gate_Validate_def quiet_def split: prod.splits)
qed

lemma validate_gates_quiet:
  assumes "environment_ok E store" "\<And>w n. store (snd (en_Get E packagerevisions_gvr n w)) = store w"
    and "\<And>i nm pr rq f w. ForeignGate i nm pr rq f \<in> set gates \<Longrightarrow> store (snd (f ref stage w)) = store w"
    and "validate_gates E ref stage gates result c = (result1, c1)"
  shows "quiet store c c1"
  using assms(3,4)
proof (induction gates arbitrary: result c)
  case (Cons g gs)
  obtain r c2 where g: "gate_Validate E g ref stage c = (r, c2)" by fastforce
  have "quiet store c c2" using assms(1,2) _ g by (rule gate_Validate_quiet) (metis Cons.prems(1) list.set_intros(1))
  moreover have "quiet store c2 c1" using Cons g by (simp, blast)
  ultimately show ?case by (rule quiet_trans)
qed simp

text \<open>What the frames need: the environment and the registered functions keep \<open>store\<close>.\<close>

definition frame_ok :: "('w, 'u) Env \<Rightarrow> ('w \<Rightarrow> string \<rightharpoonup> 'u) \<Rightarrow> 'w lifecycleManager \<Rightarrow> bool" where
  "frame_ok E store lm \<longleftrightarrow> environment_ok E store \<and> (\<forall>w n. store (snd (en_Get E packagerevisions_gvr n w)) = store w) \<and> guests_ok store lm"

lemma frame_quiet: "lm_quiet store' lm lm1 \<Longrightarrow> frame_ok E store lm1 = frame_ok E store lm"
  by (simp add: frame_ok_def guests_quiet)

lemma frame_trivial: "frame_ok E (\<lambda>_. Map.empty) lm"
  by (simp add: frame_ok_def environment_ok_def guests_ok_def)

lemma frame_server: "api_server E store \<Longrightarrow> guests_ok store lm \<Longrightarrow> frame_ok E store lm"
  by (auto simp: frame_ok_def api_server_def reads_ok_def) (metis prod.collapse)

lemma frame_env: "frame_ok E store lm \<Longrightarrow> environment_ok E store"
  by (simp add: frame_ok_def)

lemma ValidateTransition_quiet:
  assumes "frame_ok E store lm" "ValidateTransition E ref stage lm = (r, lm1)"
  shows "lm_quiet store lm lm1 \<and> isOk r"
proof -
  obtain result c where v: "validate_gates E ref stage (gates_of lm stage) \<lparr>vr_Valid = True, vr_Errors = [], vr_Warnings = []\<rparr> (lm_client lm) = (result, c)"
    by fastforce
  have "quiet store (lm_client lm) c"
    by (rule validate_gates_quiet [OF _ _ _ v]) (use assms(1) in \<open>auto simp: frame_ok_def guests_ok_def\<close>)
  then show ?thesis using assms(2) v by (auto simp: ValidateTransition_def lm_quiet_def isOk_def)
qed

lemma pre_hooks_phase_quiet:
  assumes "frame_ok E store lm" "pre_hooks_phase E ref stage opts result lm = (r, lm1)"
  shows "lm_quiet store lm lm1 \<and> (\<exists>result1. r = Inr result1 \<and> tr_Success result1 = tr_Success result)"
proof (cases "to_SkipHooks opts")
  case True
  with assms(2) show ?thesis by (auto simp: pre_hooks_phase_def)
next
  case False
  obtain s lm2 where x: "ExecuteHooks ref stage HookActionPreTransition lm = (s, lm2)" by fastforce
  with assms(1) have "lm_quiet store lm lm2 \<and> isOk s" by (intro ExecuteHooks_quiet) (auto simp: frame_ok_def)
  with x False assms(2) show ?thesis by (auto simp: pre_hooks_phase_def isOk_def split: sum.splits)
qed

lemma validation_phase_quiet:
  assumes "frame_ok E store lm" "validation_phase E ref stage opts result lm = (r, lm1)"
  shows "lm_quiet store lm lm1"
proof (cases "to_SkipValidation opts")
  case True
  with assms(2) show ?thesis by (simp add: validation_phase_def)
next
  case False
  obtain s lm2 where x: "ValidateTransition E ref stage lm = (s, lm2)" by fastforce
  with assms(1) have q: "lm_quiet store lm lm2" "isOk s" using ValidateTransition_quiet by blast+
  have "finish E result' lm2 = (result1, lm1) \<Longrightarrow> lm_quiet store lm lm1" for result' result1
    using finish_quiet [OF frame_env [OF assms(1)]] q(1) lm_quiet_trans by blast
  with x q False assms(2) show ?thesis
    by (auto simp: validation_phase_def isOk_def split: sum.splits if_splits prod.splits)
qed

lemma post_hooks_phase_quiet:
  assumes "frame_ok E store lm" "post_hooks_phase ref stage opts result lm = (result1, lm1)"
  shows "lm_quiet store lm lm1"
proof (cases "to_SkipHooks opts \<or> to_DryRun opts")
  case True
  with assms(2) show ?thesis by (auto simp: post_hooks_phase_def)
next
  case False
  have g: "guests_ok store lm" using assms(1) by (simp add: frame_ok_def)
  obtain s lm2 where x: "ExecuteHooks ref stage HookActionPostTransition lm = (s, lm2)" by fastforce
  obtain t lm3 where y: "ExecuteHooks ref stage HookActionOnSuccess lm2 = (t, lm3)" by fastforce
  have q: "lm_quiet store lm lm2" using ExecuteHooks_quiet [OF g x] by blast
  then have "lm_quiet store lm lm3" using ExecuteHooks_quiet [OF _ y] g by (metis guests_quiet lm_quiet_trans)
  with q x y False assms(2) show ?thesis by (auto simp: post_hooks_phase_def split: sum.splits)
qed

text \<open>The course of a transition: it ends before the update, or as a dry run, or with an update.\<close>

lemma transition_locked_cases:
  assumes frame: "frame_ok E store lm" and run: "transition_locked E cx ref a target opts result lm = (out, lm1)"
  obtains (early) result1 where "out = Inl (result1, Errorf (''validation failed for transition to '' @ target))" "lm_quiet store lm lm1"
  | (dry) result1 where "out = Inr result1" "to_DryRun opts" "lm_quiet store lm lm1"
  | (sent) lm2 r lm3 where "\<not> to_DryRun opts" "lm_quiet store lm lm2"
      "with_client (UpdatePackageRevision E (Some a)) (set_stage a target lm2) = (r, lm3)" "guests_ok store lm3 \<Longrightarrow> lm_quiet store lm3 lm1"
      "\<And>err. r = Inl err \<Longrightarrow> \<exists>result1. out = Inl (result1, Wrap ''failed to update package revision'' err)" "isOk r \<Longrightarrow> isOk out"
proof -
  let ?lm0 = "emit E cx LifecycleEventTransitionStarted ref (tr_PreviousStage result) target lm"
  have env: "environment_ok E store" using frame by (rule frame_env)
  obtain r1 l1 where 1: "rollback_phase E ref opts result ?lm0 = (r1, l1)" by fastforce
  have q1: "lm_quiet store lm l1" using emit_quiet [OF env] rollback_phase_quiet [OF env 1] by (rule lm_quiet_trans)
  obtain x2 l2 where 2: "pre_hooks_phase E ref target opts r1 l1 = (x2, l2)" by fastforce
  have f1: "frame_ok E store l1" using q1 frame by (simp add: frame_quiet)
  from pre_hooks_phase_quiet [OF f1 2] obtain r2 where r2: "x2 = Inr r2" "lm_quiet store l1 l2" by blast
  have q2: "lm_quiet store lm l2" using q1 r2(2) by (rule lm_quiet_trans)
  have f2: "frame_ok E store l2" using q2 frame by (simp add: frame_quiet)
  obtain x3 l3 where 3: "validation_phase E ref target opts r2 l2 = (x3, l3)" by fastforce
  have q3: "lm_quiet store lm l3" using q2 validation_phase_quiet [OF f2 3] by (rule lm_quiet_trans)
  show ?thesis
  proof (cases x3)
    case (Inl x)
    then have "out = Inl x" "lm1 = l3" using run 1 2 r2(1) 3 by (auto simp: transition_locked_def proceed_def)
    moreover have "snd x = Errorf (''validation failed for transition to '' @ target)"
      using 3 Inl by (auto simp: validation_phase_def split: if_splits sum.splits prod.splits)
    ultimately show ?thesis using q3 by (intro early [of "fst x"]) (auto simp: prod_eq_iff)
  next
    case r3: (Inr r3)
    obtain x4 l4 where 4: "update_phase E ref a target opts r3 l3 = (x4, l4)" by fastforce
    have run4: "(out, lm1) = (case x4 of Inl x \<Rightarrow> (Inl x, l4)
        | Inr r4 \<Rightarrow> (case post_hooks_phase ref target opts r4 l4 of (r5, l5) \<Rightarrow> case finish E r5 l5 of (r6, l6) \<Rightarrow>
            (Inr r6, emit E cx LifecycleEventTransitionCompleted ref (tr_PreviousStage result) target l6)))"
      using run 1 2 r2(1) 3 4 r3 by (auto simp: transition_locked_def proceed_def split: sum.splits)
    have tail: "lm_quiet store l4 lm1 \<and> isOk out" if "x4 = Inr r4" "frame_ok E store l4" for r4
    proof -
      obtain r5 l5 where 5: "post_hooks_phase ref target opts r4 l4 = (r5, l5)" by fastforce
      obtain r6 l6 where 6: "finish E r5 l5 = (r6, l6)" by fastforce
      have "lm_quiet store l4 l6" using post_hooks_phase_quiet [OF that(2) 5] finish_quiet [OF env 6] by (rule lm_quiet_trans)
      then show ?thesis using run4 that(1) 5 6 emit_quiet [OF env] by (auto simp: isOk_def intro: lm_quiet_trans)
    qed
    show ?thesis
    proof (cases "to_DryRun opts")
      case True
      with 4 have "x4 = Inr r3" "l4 = l3" by (auto simp: update_phase_def)
      moreover have "frame_ok E store l3" using q3 frame by (simp add: frame_quiet)
      ultimately have "lm_quiet store l3 lm1" "isOk out" using tail by blast+
      then show ?thesis using True q3 by (cases out) (auto simp: isOk_def intro: dry lm_quiet_trans)
    next
      case False
      obtain r l where u: "with_client (UpdatePackageRevision E (Some a)) (set_stage a target l3) = (r, l)" by fastforce
      show ?thesis
      proof (rule sent [OF False q3 u])
        assume g: "guests_ok store l"
        then have f: "frame_ok E store l" using frame by (simp add: frame_ok_def)
        show "lm_quiet store l lm1"
        proof (cases r)
          case (Inr b)
          with 4 u False have "l4 = l" "\<exists>r4. x4 = Inr r4" by (auto simp: update_phase_def)
          with tail f show ?thesis by blast
        next
          case (Inl err)
          obtain r5 l5 where 5: "finish E (r3\<lparr>tr_Success := False\<rparr>) l = (r5, l5)" by fastforce
          have q5: "lm_quiet store l l5" using env 5 by (rule finish_quiet)
          obtain s l6 where 6: "ExecuteHooks ref target HookActionOnFailure l5 = (s, l6)" by fastforce
          have "lm_quiet store l5 l6" using ExecuteHooks_quiet [OF _ 6, of store] guests_quiet [OF q5, of store] g by simp
          then show ?thesis using q5 4 u False Inl 5 6 run4 by (auto simp: update_phase_def split: if_splits intro: lm_quiet_trans)
        qed
      qed (use 4 u False run4 in \<open>auto simp: update_phase_def isOk_def split: sum.splits prod.splits if_splits\<close>)
    qed
  qed
qed

section \<open>Locks and the client\<close>

text \<open>As \<open>lm_quiet\<close>, with the locks left open.\<close>

definition lm_calm :: "('w \<Rightarrow> string \<rightharpoonup> 'u) \<Rightarrow> 'w lifecycleManager \<Rightarrow> 'w lifecycleManager \<Rightarrow> bool" where
  "lm_calm store lm lm1 \<longleftrightarrow> quiet store (lm_client lm) (lm_client lm1)
     \<and> lm_validationGates lm1 = lm_validationGates lm \<and> lm_integrationHooks lm1 = lm_integrationHooks lm"

lemma lm_quiet_calm: "lm_quiet store lm lm1 \<longleftrightarrow> lm_calm store lm lm1 \<and> lm_lifecycleLocks lm1 = lm_lifecycleLocks lm"
  by (auto simp: lm_quiet_def lm_calm_def)

lemma lm_calm_trans: "lm_calm store lm lm1 \<Longrightarrow> lm_calm store lm1 lm2 \<Longrightarrow> lm_calm store lm lm2"
  unfolding lm_calm_def using quiet_trans by fastforce

lemma lm_calm_locks [simp]: "lm_calm store lm (lm1\<lparr>lm_lifecycleLocks := locks\<rparr>) = lm_calm store lm lm1" "lm_calm store (lm\<lparr>lm_lifecycleLocks := locks\<rparr>) lm1 = lm_calm store lm lm1"
  by (simp_all add: lm_calm_def)

lemma frame_calm: "lm_calm store' lm lm1 \<Longrightarrow> frame_ok E store lm1 = frame_ok E store lm"
  by (simp add: frame_ok_def guests_ok_def lm_calm_def hooks_of_def gates_of_def)

lemma create_lock_ok:
  assumes "environment_ok E store" "create_lock E cx ref op timeout lm = (lock, lm1)"
  shows "lm_calm store lm lm1 \<and> lm_lifecycleLocks lm1 = fmupd (GetPackageKey ref) lock (lm_lifecycleLocks lm)
    \<and> (\<exists>t lm2. lm_Now E lm = (t, lm2) \<and> lk_ID lock = lock_id (GetPackageKey ref) t)"
proof -
  obtain t1 l1 where 1: "lm_Now E lm = (t1, l1)" by fastforce
  obtain t2 l2 where 2: "lm_Now E l1 = (t2, l2)" by fastforce
  obtain t3 l3 where 3: "lm_Now E l2 = (t3, l3)" by fastforce
  have q: "lm_quiet store lm l3"
    using lm_Now_quiet [OF assms(1) 1] lm_Now_quiet [OF assms(1) 2] lm_Now_quiet [OF assms(1) 3] by (blast intro: lm_quiet_trans)
  let ?l4 = "l3\<lparr>lm_lifecycleLocks := fmupd (GetPackageKey ref) lock (lm_lifecycleLocks l3)\<rparr>"
  have eq: "lm1 = emit E cx LifecycleEventLockAcquired ref '''' '''' ?l4" "lk_ID lock = lock_id (GetPackageKey ref) t1"
    using assms(2) by (auto simp: create_lock_def 1 2 3 Let_def)
  have "lm_quiet store ?l4 lm1" unfolding eq(1) using assms(1) by (rule emit_quiet)
  with q have "lm_calm store lm lm1" "lm_lifecycleLocks lm1 = fmupd (GetPackageKey ref) lock (lm_lifecycleLocks lm)"
    unfolding lm_quiet_calm by (auto intro: lm_calm_trans)
  with eq 1 show ?thesis by blast
qed

lemma AcquireLifecycleLock_ok:
  assumes "environment_ok E store" "AcquireLifecycleLock E cx ref op timeout lm = (r, lm1)"
  shows "lm_calm store lm lm1 \<and> (case r of Inl err \<Rightarrow> lm_lifecycleLocks lm1 = lm_lifecycleLocks lm
    | Inr lock \<Rightarrow> lm_lifecycleLocks lm1 = fmupd (GetPackageKey ref) lock (lm_lifecycleLocks lm) \<and> (\<exists>t. lk_ID lock = lock_id (GetPackageKey ref) t))"
proof (cases "fmlookup (lm_lifecycleLocks lm) (GetPackageKey ref)")
  case None
  obtain lock l where c: "create_lock E cx ref op timeout lm = (lock, l)" by fastforce
  with create_lock_ok [OF assms(1) c] None assms(2) show ?thesis by (auto simp: AcquireLifecycleLock_def)
next
  case (Some e)
  obtain now l where n: "lm_Now E lm = (now, l)" by fastforce
  have q: "lm_calm store lm l" "lm_lifecycleLocks l = lm_lifecycleLocks lm" using lm_Now_quiet [OF assms(1) n] by (auto simp: lm_quiet_calm)
  show ?thesis
  proof (cases "now > lk_ExpiresAt e")
    case True
    obtain lock l2 where c: "create_lock E cx ref op timeout l = (lock, l2)" by fastforce
    with create_lock_ok [OF assms(1) c] q Some n True assms(2) show ?thesis
      by (auto simp: AcquireLifecycleLock_def isLockExpired_def intro: lm_calm_trans)
  next
    case False
    with q Some n assms(2) show ?thesis by (auto simp: AcquireLifecycleLock_def isLockExpired_def)
  qed
qed

lemma ReleaseLifecycleLock_ok:
  assumes "environment_ok E store" "ReleaseLifecycleLock E cx lockID lm = (err, lm1)"
  shows "lm_calm store lm lm1 \<and> (lm_lifecycleLocks lm1 = lm_lifecycleLocks lm \<or>
    (\<exists>key. find_lock cx lockID (lm_lifecycleLocks lm) = Some key \<and> lm_lifecycleLocks lm1 = fmdrop key (lm_lifecycleLocks lm)))
    \<and> (err = None \<longleftrightarrow> (\<exists>key lock. find_lock cx lockID (lm_lifecycleLocks lm) = Some key \<and> fmlookup (lm_lifecycleLocks lm) key = Some lock
         \<and> lm_lifecycleLocks lm1 = fmdrop key (lm_lifecycleLocks lm)))"
proof -
  have emit: "lm_calm store lm (emit E cx ty ref s s' (lm\<lparr>lm_lifecycleLocks := locks\<rparr>))"
      "lm_lifecycleLocks (emit E cx ty ref s s' (lm\<lparr>lm_lifecycleLocks := locks\<rparr>)) = locks" for ty ref s s' locks
    using emit_quiet [OF assms(1), where lm = "lm\<lparr>lm_lifecycleLocks := locks\<rparr>"] by (simp_all add: lm_quiet_calm)
  show ?thesis using assms(2)
    by (auto simp: ReleaseLifecycleLock_def emit split: option.splits) (simp_all add: lm_calm_def)
qed

text \<open>The cached addresses are allocated.\<close>

definition client_ok :: "'w Client \<Rightarrow> bool" where
  "client_ok c \<longleftrightarrow> (\<forall>cc k e a. cl_cache c = Some cc \<longrightarrow> fmlookup (cc_cache cc) k = Some e \<longrightarrow> ch_data e = PackageRevisionPtr a \<longrightarrow> a < cl_next c)"

lemma getCached_quiet: "environment_ok E store \<Longrightarrow> getCached E key c = (d, c1) \<Longrightarrow> quiet store c c1 \<and> cl_next c1 = cl_next c"
  by (auto simp: getCached_def dest: time_Now_quiet split: option.splits prod.splits) (auto simp: time_Now_def split: prod.splits)

lemma setCached_keeps:
  "environment_ok E store \<Longrightarrow> store (cl_world (setCached E key v c)) = store (cl_world c) \<and> cl_next (setCached E key v c) = cl_next c
     \<and> cl_pkgs (setCached E key v c) = cl_pkgs c"
  by (auto simp: setCached_def time_Now_def environment_ok_def Let_def split: option.splits prod.splits) (metis snd_conv)

lemma GetPackageRevision_ok:
  assumes "api_server E store" "client_ok c" "GetPackageRevision E name revision c = (r, c1)"
  shows "store (cl_world c1) = store (cl_world c)" "cl_next c \<le> cl_next c1" "\<And>a. r = Inr a \<Longrightarrow> a < cl_next c1"
proof -
  have env: "environment_ok E store" using assms(1) by (simp add: api_server_def)
  have "store (cl_world c1) = store (cl_world c) \<and> cl_next c \<le> cl_next c1 \<and> (\<forall>a. r = Inr a \<longrightarrow> a < cl_next c1)"
    using assms(3)
  proof (cases rule: GetPackageRevision_cases)
    case (hit a cc e now)
    then have "a < cl_next c" using assms(2) by (auto simp: client_ok_def)
    with hit time_Now_quiet [OF env hit(5)] show ?thesis by (auto simp: quiet_def)
  next
    case (miss c2 c3)
    then have "quiet store c c2" "quiet store c2 c3" using getCached_quiet [OF env] fetch_ok(1) [OF assms(1)] by blast+
    moreover have "r = Inr a \<Longrightarrow> a < cl_next c3" for a using fetch_ok(2) [OF assms(1) miss(2)] by blast
    ultimately show ?thesis using miss(3) setCached_keeps [OF env] by (auto simp: quiet_def split: sum.splits)
  qed
  then show "store (cl_world c1) = store (cl_world c)" "cl_next c \<le> cl_next c1" "\<And>a. r = Inr a \<Longrightarrow> a < cl_next c1" by blast+
qed

lemma UpdatePackageRevision_ok:
  assumes "api_server E store" "a < cl_next c" "UpdatePackageRevision E (Some a) c = (r, c1)"
  shows "others_kept store (pr_Name (cl_pkgs c a)) (cl_world c) (cl_world c1)"
    "(\<not> isOk r \<and> store (cl_world c1) = store (cl_world c)) \<or> holds E store (cl_world c1) (pr_Name (cl_pkgs c a)) (cl_pkgs c a)"
proof -
  let ?p = "cl_pkgs c a"
  have "others_kept store (pr_Name ?p) (cl_world c) (cl_world c1)
     \<and> ((\<not> isOk r \<and> store (cl_world c1) = store (cl_world c)) \<or> holds E store (cl_world c1) (pr_Name ?p) ?p)"
  proof (cases "validatePackageRevision (pkg_at c (Some a))")
    case (Some err)
    then show ?thesis using assms(3) by (auto simp: UpdatePackageRevision_def isOk_def)
  next
    case None
    obtain s c2 where x: "cb_Execute E (updatePackageRevisionInternal E a) c = (s, c2)" by fastforce
    have "cl_world c1 = cl_world c2" "isOk r = isOk s"
      using assms(3) None x by (auto simp: UpdatePackageRevision_def proceed_def invalidate_pkg_def invalidateCache_def isOk_def split: sum.splits)
    with update_post_Execute [OF assms(1,2) x] show ?thesis by (auto simp: update_post_def isOk_def split: sum.splits)
  qed
  then show "others_kept store (pr_Name ?p) (cl_world c) (cl_world c1)"
    "(\<not> isOk r \<and> store (cl_world c1) = store (cl_world c)) \<or> holds E store (cl_world c1) (pr_Name ?p) ?p" by blast+
qed

section \<open>Transitions\<close>

definition options :: "TransitionOptions option \<Rightarrow> TransitionOptions" where
  "options opts_ptr = (case opts_ptr of None \<Rightarrow> zeroTransitionOptions | Some opts \<Rightarrow> opts)"

lemma performTransition_cases:
  assumes "performTransition E cx ref target opts lm = ((res, err), lm1)"
  obtains (unread) t lm0 e where "lm_Now E lm = (t, lm0)" "with_client (GetPackageRevision E (rf_PackageName ref) (rf_Revision ref)) lm0 = (Inl e, lm1)" "err \<noteq> None" "res = None"
  | (at_target) t lm0 a lm2 r r' where "lm_Now E lm = (t, lm0)" "with_client (GetPackageRevision E (rf_PackageName ref) (rf_Revision ref)) lm0 = (Inr a, lm2)"
      "pr_Lifecycle (cl_pkgs (lm_client lm2) a) = target" "finish E r lm2 = (r', lm1)" "err = Some (Errorf (''invalid transition from '' @ target @ '' to '' @ target))"
  | (locked_out) t lm0 a lm2 e where "lm_Now E lm = (t, lm0)" "with_client (GetPackageRevision E (rf_PackageName ref) (rf_Revision ref)) lm0 = (Inr a, lm2)"
      "pr_Lifecycle (cl_pkgs (lm_client lm2) a) \<noteq> target" "AcquireLifecycleLock E cx ref ''transition'' (to_Timeout (options opts)) lm2 = (Inl e, lm1)" "err \<noteq> None" "res = None"
  | (locked) t lm0 a lm2 lock lm3 out lm4 where "lm_Now E lm = (t, lm0)" "with_client (GetPackageRevision E (rf_PackageName ref) (rf_Revision ref)) lm0 = (Inr a, lm2)"
      "pr_Lifecycle (cl_pkgs (lm_client lm2) a) \<noteq> target" "AcquireLifecycleLock E cx ref ''transition'' (to_Timeout (options opts)) lm2 = (Inr lock, lm3)"
      "transition_locked E cx ref a target (options opts) (new_result t (pr_Lifecycle (cl_pkgs (lm_client lm2) a)) target) lm3 = (out, lm4)"
      "lm1 = snd (ReleaseLifecycleLock E cx (lk_ID lock) lm4)"
      "(res, err) = (case out of Inl (result, e) \<Rightarrow> (Some result, Some e) | Inr result \<Rightarrow> (Some result, None))"
proof -
  obtain t lm0 where n: "lm_Now E lm = (t, lm0)" by fastforce
  obtain g lm2 where g: "with_client (GetPackageRevision E (rf_PackageName ref) (rf_Revision ref)) lm0 = (g, lm2)" by fastforce
  show ?thesis
  proof (cases g)
    case (Inl e)
    then show ?thesis using assms n g by (intro unread) (auto simp: performTransition_def)
  next
    case a: (Inr a)
    let ?s = "pr_Lifecycle (cl_pkgs (lm_client lm2) a)"
    obtain k lm3 where k: "AcquireLifecycleLock E cx ref ''transition'' (to_Timeout (options opts)) lm2 = (k, lm3)" by fastforce
    show ?thesis
    proof (cases "?s = target")
      case True
      obtain r' l where "finish E ((new_result t target target)\<lparr>tr_Success := False\<rparr>) lm2 = (r', l)" by fastforce
      with assms n g a True show ?thesis by (intro at_target) (auto simp: performTransition_def)
    next
      case False
      note run = assms [unfolded performTransition_def n g a options_def [symmetric], simplified, unfolded Let_def, simplified False if_False k, simplified]
      show ?thesis
      proof (cases k)
        case (Inl e)
        then show ?thesis using run n g a False k by (intro locked_out) auto
      next
        case (Inr lock)
        obtain out lm4 where t: "transition_locked E cx ref a target (options opts) (new_result t ?s target) lm3 = (out, lm4)" by fastforce
        show ?thesis using run n g a False k Inr t by (intro locked) auto
      qed
    qed
  qed
qed

lemma with_client_eq: "with_client m lm = (r, lm1) \<longleftrightarrow> (\<exists>c. m (lm_client lm) = (r, c) \<and> lm1 = lm\<lparr>lm_client := c\<rparr>)"
  by (auto simp: with_client_def split: prod.splits)

text \<open>What a transition to \<open>target\<close> may do to the revisions of the server, starting from the client \<open>c\<close>: nothing, which is an error
  or a dry run; or the object that \<open>GetPackageRevision\<close> returned was in another stage, and the server holds it with the
  new stage.\<close>

definition transition_post ::
    "('w, 'u) Env \<Rightarrow> ('w \<Rightarrow> string \<rightharpoonup> 'u) \<Rightarrow> PackageReference \<Rightarrow> PackageRevisionLifecycle \<Rightarrow> bool \<Rightarrow> 'w Client \<Rightarrow> porch_error option \<Rightarrow> 'w \<Rightarrow> bool" where
  "transition_post E store ref target dry c err w1 \<longleftrightarrow>
     (store w1 = store (cl_world c) \<and> (err \<noteq> None \<or> dry))
   \<or> (\<not> dry \<and> (\<exists>a c1 p. GetPackageRevision E (rf_PackageName ref) (rf_Revision ref) (snd (time_Now E c)) = (Inr a, c1)
        \<and> pr_Lifecycle (cl_pkgs c1 a) \<noteq> target \<and> p = (cl_pkgs c1 a)\<lparr>pr_Lifecycle := target\<rparr>
        \<and> holds E store w1 (pr_Name p) p \<and> others_kept store (pr_Name p) (cl_world c) w1))"

lemma transition_locked_post:
  assumes api: "api_server E store" and guests: "guests_ok store lm" and a: "a < cl_next (lm_client lm)"
    and run: "transition_locked E cx ref a target opts result lm = (out, lm1)"
  defines "p \<equiv> (cl_pkgs (lm_client lm) a)\<lparr>pr_Lifecycle := target\<rparr>" and "w \<equiv> cl_world (lm_client lm)" and "w1 \<equiv> cl_world (lm_client lm1)"
  shows "(store w1 = store w \<and> (\<not> isOk out \<or> to_DryRun opts))
    \<or> (\<not> to_DryRun opts \<and> holds E store w1 (pr_Name p) p \<and> others_kept store (pr_Name p) w w1)"
  using frame_server [OF api guests] run
proof (cases rule: transition_locked_cases)
  case (early result1)
  then show ?thesis by (simp add: lm_quiet_def quiet_def isOk_def w_def w1_def)
next
  case (dry result1)
  then show ?thesis by (simp add: lm_quiet_def quiet_def w_def w1_def)
next
  case (sent lm2 r lm3)
  let ?c = "lm_client (set_stage a target lm2)"
  from sent(3) obtain c where c: "UpdatePackageRevision E (Some a) ?c = (r, c)" "lm3 = (set_stage a target lm2)\<lparr>lm_client := c\<rparr>"
    unfolding with_client_eq by blast
  have q2: "quiet store (lm_client lm) (lm_client lm2)" using sent(2) by (simp add: lm_quiet_def)
  then have cp: "cl_pkgs ?c a = p" "a < cl_next ?c" "store (cl_world ?c) = store w"
    using a by (auto simp: set_stage_def set_pkg_def quiet_def p_def w_def)
  have "guests_ok store lm3 = guests_ok store lm"
    using sent(2) by (intro guests_ok_same) (simp_all add: c(2) set_stage_def lm_quiet_def)
  with guests have "guests_ok store lm3" by simp
  then have "store w1 = store (cl_world c)" using sent(4) by (simp add: lm_quiet_def quiet_def c(2) w1_def)
  moreover have "isOk out \<Longrightarrow> isOk r" using sent(5) by (cases r) (auto simp: isOk_def)
  ultimately show ?thesis
    using UpdatePackageRevision_ok [OF api cp(2) c(1)] cp(1,3) sent(1) by (auto simp: others_kept_def holds_def)
qed


text \<open>A manager on the server in memory, with the default gates.\<close>

definition mem_manager :: "bool \<Rightarrow> mem_world lifecycleManager" where
  "mem_manager down = (case NewLifecycleManager (Some (mem_client down)) (Some (getDefaultLifecycleManagerConfig\<lparr>lc_EventQueueSize := 4\<rparr>)) of Ret (Inr lm) \<Rightarrow> lm)"

definition amf_ref :: PackageReference where
  "amf_ref = \<lparr>rf_Repository = ''core'', rf_PackageName = ''amf'', rf_Revision = ''v1''\<rparr>"

definition mem_context :: call_context where
  "mem_context = \<lparr>cx_done = False, cx_takes_done = False, cx_locks = (\<lambda>m. filter (\<lambda>key. fmlookup m key \<noteq> None) [GetPackageKey amf_ref]), cx_actions = all_actions\<rparr>"

lemma mem_manager_ok: "guests_ok mem_store (mem_manager down)" "client_ok (lm_client (mem_manager down))"
  by (auto simp: mem_manager_def NewLifecycleManager_def registerDefaultValidationGates_def RegisterValidationGate_def guests_ok_def hooks_of_def gates_of_def
        getDefaultLifecycleManagerConfig_def getAllLifecycleStages_def sortValidationGatesByPriority_def client_ok_def mem_client_def new_cache_def Let_def
        PackageRevisionLifecycleProposed_def PackageRevisionLifecyclePublished_def split: if_splits)

lemma transition_post_ok:
  assumes "transition_post E store ref target False c None w1"
  shows "\<exists>p. holds E store w1 (pr_Name p) p \<and> pr_Lifecycle p = target"
proof -
  from assms obtain p q where "p = (q :: PackageRevision)\<lparr>pr_Lifecycle := target\<rparr>" "holds E store w1 (pr_Name p) p"
    unfolding transition_post_def by blast
  then show ?thesis by (intro exI [of _ p]) simp
qed


text \<open>Without assumptions on the server: the object that a read returns is allocated and cached.\<close>

lemma fetch_allocated: "cb_Execute E (getPackageRevisionInternal E name revision) c = (Inr a, c1) \<Longrightarrow> a < cl_next c1"
  by (auto simp: cb_Execute_def getPackageRevisionInternal_def proceed_Inr new_pkg_def split: prod.splits option.splits)

lemma GetPackageRevision_allocated:
  assumes "client_ok c" "GetPackageRevision E name revision c = (Inr a, c1)"
  shows "a < cl_next c1"
  using assms(2)
proof (cases rule: GetPackageRevision_cases)
  case (hit b cc e now)
  then show ?thesis using assms(1) by (auto simp: client_ok_def time_Now_def split: prod.splits)
next
  case (miss c2 c3)
  then show ?thesis using fetch_allocated [OF miss(2)] by (auto simp: setCached_def time_Now_def Let_def split: option.splits prod.splits)
qed

lemma failed_update_entry:
  fixes E :: "('w, 'u) Env"
  assumes "performTransition E cx ref target opts lm = ((Some res, Some (Wrap ''failed to update package revision'' e)), lm1)"
    and "cl_cache (lm_client lm) \<noteq> None" "client_ok (lm_client lm)"
  shows "\<exists>cc entry a. cl_cache (lm_client lm1) = Some cc \<and> fmlookup (cc_cache cc) (pkg_key (rf_PackageName ref) (rf_Revision ref)) = Some entry
    \<and> ch_data entry = PackageRevisionPtr a \<and> pr_Lifecycle (cl_pkgs (lm_client lm1) a) = target"
  using assms(1)
proof (cases rule: performTransition_cases)
  case (locked t lm0 a lm2 lock lm3 out lm4)
  let ?store = "(\<lambda>_. Map.empty) :: 'w \<Rightarrow> string \<rightharpoonup> 'u"
  have env: "environment_ok E ?store" using frame_trivial frame_env by blast
  have c0: "cl_cache (lm_client lm0) \<noteq> None" "client_ok (lm_client lm0)"
    using locked(1) assms(2,3) by (auto simp: lm_Now_def time_Now_def client_ok_def split: prod.splits)
  from locked(2) have get: "GetPackageRevision E (rf_PackageName ref) (rf_Revision ref) (lm_client lm0) = (Inr a, lm_client lm2)"
    by (auto simp: with_client_eq)
  obtain cc entry where entry: "cl_cache (lm_client lm2) = Some cc" "fmlookup (cc_cache cc) (pkg_key (rf_PackageName ref) (rf_Revision ref)) = Some entry"
      "ch_data entry = PackageRevisionPtr a" using GetPackageRevision_entry [OF get c0(1)] by blast
  have q3: "quiet ?store (lm_client lm2) (lm_client lm3)" using AcquireLifecycleLock_ok [OF env locked(4)] by (simp add: lm_calm_def)
  have out: "out = Inl (res, Wrap ''failed to update package revision'' e)" using locked(7) by (auto split: sum.splits prod.splits)
  have q1: "quiet ?store (lm_client lm4) (lm_client lm1)"
    using ReleaseLifecycleLock_ok [OF env, of cx "lk_ID lock" lm4 "fst (ReleaseLifecycleLock E cx (lk_ID lock) lm4)" lm1] locked(6)
    by (simp add: lm_calm_def)
  from frame_trivial locked(5) obtain l r l' where u: "lm_quiet ?store lm3 l"
      "with_client (UpdatePackageRevision E (Some a)) (set_stage a target l) = (r, l')" "lm_quiet ?store l' lm4" "\<not> isOk r"
    by (cases rule: transition_locked_cases) (use out in \<open>auto simp: isOk_def guests_ok_def\<close>)
  then obtain err where "UpdatePackageRevision E (Some a) (lm_client (set_stage a target l)) = (Inl err, lm_client l')"
    by (auto simp: with_client_eq isOk_def split: sum.splits)
  from UpdatePackageRevision_failed [OF this] have q4: "quiet ?store (lm_client (set_stage a target l)) (lm_client l')" .
  have "a < cl_next (lm_client lm2)" using c0(2) get by (rule GetPackageRevision_allocated)
  with q3 u(1) have "a < cl_next (lm_client (set_stage a target l))" "cl_cache (lm_client (set_stage a target l)) = Some cc"
      "pr_Lifecycle (cl_pkgs (lm_client (set_stage a target l)) a) = target"
    using entry(1) by (auto simp: lm_quiet_def quiet_def set_stage_def set_pkg_def)
  with q4 u(3) q1 have "cl_cache (lm_client lm1) = Some cc \<and> pr_Lifecycle (cl_pkgs (lm_client lm1) a) = target"
    by (auto simp: lm_quiet_def quiet_def)
  with entry show ?thesis by blast
qed simp_all

text \<open>C21: A transition that fails in the update leaves its target stage in the object that the cache hands out. While the entry is
  fresh, every further attempt at the same transition is refused as being at its target, whatever stage the server holds.\<close>

theorem failed_update_poisons_cache:
  assumes "performTransition E cx ref target opts lm = ((Some res, Some (Wrap ''failed to update package revision'' e)), lm1)"
    and "cl_cache (lm_client lm) \<noteq> None" "client_ok (lm_client lm)"
  shows "\<exists>cc entry. cl_cache (lm_client lm1) = Some cc \<and> fmlookup (cc_cache cc) (pkg_key (rf_PackageName ref) (rf_Revision ref)) = Some entry
    \<and> (\<forall>opts' t c. time_Now E (snd (time_Now E (lm_client lm1))) = (t, c) \<longrightarrow> time_Sub t (ch_timestamp entry) \<le> cc_ttl cc \<longrightarrow>
         snd (fst (performTransition E cx ref target opts' lm1)) = Some (Errorf (''invalid transition from '' @ target @ '' to '' @ target)))"
proof -
  let ?key = "pkg_key (rf_PackageName ref) (rf_Revision ref)"
  obtain cc entry a where entry: "cl_cache (lm_client lm1) = Some cc" "fmlookup (cc_cache cc) ?key = Some entry"
      "ch_data entry = PackageRevisionPtr a" "pr_Lifecycle (cl_pkgs (lm_client lm1) a) = target"
    using failed_update_entry [OF assms] by blast
  have "snd (fst (performTransition E cx ref target opts' lm1)) = Some (Errorf (''invalid transition from '' @ target @ '' to '' @ target))"
    if "time_Now E (snd (time_Now E (lm_client lm1))) = (t, c)" "time_Sub t (ch_timestamp entry) \<le> cc_ttl cc" for opts' t c
  proof -
    obtain t0 c0 where now: "time_Now E (lm_client lm1) = (t0, c0)" by fastforce
    have "cl_cache c0 = Some cc" "cl_pkgs c0 = cl_pkgs (lm_client lm1)" "cl_pkgs c = cl_pkgs c0"
      using now entry(1) that(1) by (auto simp: time_Now_def split: prod.splits)
    moreover from this(1) have "GetPackageRevision E (rf_PackageName ref) (rf_Revision ref) c0 = (Inr a, c)"
      by (rule GetPackageRevision_hit) (use entry that now in auto)
    ultimately show ?thesis
      using now entry(4) by (auto simp: performTransition_def lm_Now_def with_client_def Let_def split: prod.splits)
  qed
  with entry show ?thesis by blast
qed

theorem failed_update_poisons_cache_witness:
  "\<exists>lm1. lm1 = snd (performTransition mem_env mem_context amf_ref ''Proposed'' None (mem_manager True))
     \<and> mem_store (cl_world (lm_client lm1)) ''amf-v1'' = Some draft_package
     \<and> snd (fst (performTransition mem_env mem_context amf_ref ''Proposed'' None lm1)) = Some (Errorf ''invalid transition from Proposed to Proposed'')"
proof -
  let ?r = "performTransition mem_env mem_context amf_ref ''Proposed'' None (mem_manager True)" and ?key = "pkg_key ''amf'' ''v1''"
  have "(case fst ?r of (Some _, Some (Wrap m _)) \<Rightarrow> m = ''failed to update package revision'' | _ \<Rightarrow> False)" by code_simp
  then obtain res e where "?r = ((Some res, Some (Wrap ''failed to update package revision'' e)), snd ?r)"
    by (auto simp: prod_eq_iff split: prod.splits option.splits porch_error.splits)
  moreover have "cl_cache (lm_client (mem_manager True)) \<noteq> None"
    by (simp add: mem_manager_def NewLifecycleManager_def registerDefaultValidationGates_def RegisterValidationGate_def getDefaultLifecycleManagerConfig_def mem_client_def new_cache_def Let_def)
  ultimately obtain cc entry where 1: "cl_cache (lm_client (snd ?r)) = Some cc" "fmlookup (cc_cache cc) ?key = Some entry"
      "\<And>t c. time_Now mem_env (snd (time_Now mem_env (lm_client (snd ?r)))) = (t, c) \<Longrightarrow> time_Sub t (ch_timestamp entry) \<le> cc_ttl cc \<Longrightarrow>
         snd (fst (performTransition mem_env mem_context amf_ref ''Proposed'' None (snd ?r))) = Some (Errorf (''invalid transition from '' @ ''Proposed'' @ '' to '' @ ''Proposed''))"
    using failed_update_poisons_cache [of mem_env mem_context amf_ref "''Proposed''" None "mem_manager True" res e "snd ?r"] mem_manager_ok
    by (auto simp: amf_ref_def)
  have 2: "mem_store (cl_world (lm_client (snd ?r))) ''amf-v1'' = Some draft_package"
    "map_option (\<lambda>cc. cc_ttl cc > 1000 \<and> (case fmlookup (cc_cache cc) ?key of None \<Rightarrow> False | Some e \<Rightarrow> ch_timestamp e \<ge> 0)) (cl_cache (lm_client (snd ?r))) = Some True"
    "fst (time_Now mem_env (snd (time_Now mem_env (lm_client (snd ?r))))) < 1000" by code_simp+
  obtain t c where t: "time_Now mem_env (snd (time_Now mem_env (lm_client (snd ?r)))) = (t, c)" by fastforce
  with 1 2 have "time_Sub t (ch_timestamp entry) \<le> cc_ttl cc" by (auto simp: time_Sub_def)
  from 1(3) [OF t this] 2(1) show ?thesis by simp
qed

end
