(* ===== verification/Lifecycle_Sharing.thy ===== *)
theory Lifecycle_Sharing
  imports Package_Lifecycle
begin

text \<open>
  What the life-cycle manager (\<open>pkg/nephio/porch/lifecycle_manager.go\<close>) guarantees where goroutines meet: the locks of
  packages, the registries of gates, handlers and hooks, and batches of transitions, whose goroutines are a step
  relation.
\<close>

section \<open>Batches\<close>

record BatchTransitionOptions =
  bo_Concurrency :: int
  bo_ContinueOnError :: bool
  bo_DryRun :: bool

definition defaultBatchOptions :: BatchTransitionOptions where
  "defaultBatchOptions = \<lparr>bo_Concurrency = 5, bo_ContinueOnError = True, bo_DryRun = False\<rparr>"

text \<open>The call that every goroutine of a batch makes; the options of the batch do not reach it.\<close>

definition batch_transition ::
    "('w, 'u) Env \<Rightarrow> call_context \<Rightarrow> PackageReference \<Rightarrow> PackageRevisionLifecycle \<Rightarrow> BatchTransitionOptions \<Rightarrow> 'w lifecycleManager
       \<Rightarrow> (TransitionResult option \<times> porch_error option) \<times> 'w lifecycleManager" where
  "batch_transition E cx ref targetStage opts = performTransition E cx ref targetStage (Some (zeroTransitionOptions\<lparr>to_Timeout := 30 * Second\<rparr>))"

text \<open>The goroutines of a batch by what they do: waiting for the semaphore, in the transition, or about to release the
  semaphore after their result has been sent. The results channel has room for all of them. The collector counts what
  it receives, or has returned: whether without error, and \<open>OverallSuccess\<close>. The outcomes of the transitions are
  arbitrary.\<close>

datatype batch_return = BatchOk bool | BatchFailed porch_error | BatchCancelled

record batch =
  bt_waiting :: nat
  bt_running :: nat
  bt_releasing :: nat
  bt_results :: "porch_error option list"
  bt_successful :: nat
  bt_failed :: nat
  bt_returned :: "batch_return option"

definition batch_start :: "nat \<Rightarrow> batch" where
  "batch_start n = \<lparr>bt_waiting = n, bt_running = 0, bt_releasing = 0, bt_results = [], bt_successful = 0, bt_failed = 0, bt_returned = None\<rparr>"

text \<open>\<open>BatchTransition\<close> up to the start of its goroutines, with the options it works with; a semaphore of negative size panics.\<close>

definition BatchTransition :: "BatchTransitionOptions option \<Rightarrow> PackageReference list \<Rightarrow> (BatchTransitionOptions \<times> batch) outcome" where
  "BatchTransition opts_ptr refs =
     (let opts = (case opts_ptr of None \<Rightarrow> defaultBatchOptions | Some o1 \<Rightarrow> o1)
      in if bo_Concurrency opts < 0 then Panic ''makechan: size out of range'' else Ret (opts, batch_start (length refs)))"

text \<open>\<open>n\<close> is the number of packages, which bounds the rounds of the collector. A token of the semaphore is held from its acquisition to its release. On a channel
  without a buffer a send meets a receiver, and the only receivers are goroutines that hold a token.\<close>

inductive batch_step :: "BatchTransitionOptions \<Rightarrow> bool \<Rightarrow> nat \<Rightarrow> batch \<Rightarrow> batch \<Rightarrow> bool" for opts cancelled n where
  acquire: "0 < bt_waiting b \<Longrightarrow> int (bt_running b + bt_releasing b) < bo_Concurrency opts \<Longrightarrow>
    batch_step opts cancelled n b (b\<lparr>bt_waiting := bt_waiting b - 1, bt_running := bt_running b + 1\<rparr>)"
| handover: "0 < bt_waiting b \<Longrightarrow> 0 < bt_releasing b \<Longrightarrow> bo_Concurrency opts = 0 \<Longrightarrow>
    batch_step opts cancelled n b (b\<lparr>bt_waiting := bt_waiting b - 1, bt_running := bt_running b + 1, bt_releasing := bt_releasing b - 1\<rparr>)"
| done_one: "0 < bt_running b \<Longrightarrow>
    batch_step opts cancelled n b (b\<lparr>bt_running := bt_running b - 1, bt_releasing := bt_releasing b + 1, bt_results := bt_results b @ [err]\<rparr>)"
| release: "0 < bt_releasing b \<Longrightarrow> 0 < bo_Concurrency opts \<Longrightarrow> batch_step opts cancelled n b (b\<lparr>bt_releasing := bt_releasing b - 1\<rparr>)"
| success: "bt_returned b = None \<Longrightarrow> bt_successful b + bt_failed b < n \<Longrightarrow> bt_results b = None # rs \<Longrightarrow>
    batch_step opts cancelled n b (b\<lparr>bt_results := rs, bt_successful := bt_successful b + 1\<rparr>)"
| failure: "bt_returned b = None \<Longrightarrow> bt_successful b + bt_failed b < n \<Longrightarrow> bt_results b = Some err # rs \<Longrightarrow>
    batch_step opts cancelled n b (b\<lparr>bt_results := rs, bt_failed := bt_failed b + 1,
      bt_returned := (if bo_ContinueOnError opts then None else Some (BatchFailed err))\<rparr>)"
| cancel: "bt_returned b = None \<Longrightarrow> bt_successful b + bt_failed b < n \<Longrightarrow> cancelled \<Longrightarrow>
    batch_step opts cancelled n b (b\<lparr>bt_returned := Some BatchCancelled\<rparr>)"
| complete: "bt_returned b = None \<Longrightarrow> bt_successful b + bt_failed b = n \<Longrightarrow>
    batch_step opts cancelled n b (b\<lparr>bt_returned := Some (BatchOk (bt_failed b = 0))\<rparr>)"

inductive batch_reach :: "BatchTransitionOptions \<Rightarrow> bool \<Rightarrow> nat \<Rightarrow> batch \<Rightarrow> bool" for opts cancelled n where
  start: "batch_reach opts cancelled n (batch_start n)"
| step: "batch_reach opts cancelled n b \<Longrightarrow> batch_step opts cancelled n b b1 \<Longrightarrow> batch_reach opts cancelled n b1"


section \<open>Locks\<close>

lemma lm_Now_locks: "lm_Now E lm = (t, lm1) \<Longrightarrow> lm_lifecycleLocks lm1 = lm_lifecycleLocks lm"
  by (auto simp: lm_Now_def split: prod.splits)

lemma acquire_iff_free:
  "isOk (fst (AcquireLifecycleLock E cx ref op timeout lm)) \<longleftrightarrow>
     (case fmlookup (lm_lifecycleLocks lm) (GetPackageKey ref) of None \<Rightarrow> True | Some lock \<Rightarrow> fst (lm_Now E lm) > lk_ExpiresAt lock)"
  by (auto simp: AcquireLifecycleLock_def isLockExpired_def isOk_def split: option.splits prod.splits)

lemma trivial_env: "environment_ok E (\<lambda>_. Map.empty)"
  by (simp add: environment_ok_def)

lemma acquire_locks:
  assumes "AcquireLifecycleLock E cx ref op timeout lm = (r, lm1)"
  shows "lm_lifecycleLocks lm1 = (case r of Inl _ \<Rightarrow> lm_lifecycleLocks lm | Inr lock \<Rightarrow> fmupd (GetPackageKey ref) lock (lm_lifecycleLocks lm))"
  using AcquireLifecycleLock_ok [OF trivial_env assms] by (auto split: sum.splits)

lemma find_lock_Some:
  assumes "find_lock cx lockID locks = Some key"
  obtains l where "fmlookup locks key = Some l" "lk_ID l = lockID"
  using assms by (auto simp: find_lock_def find_Some_iff split: option.splits)

lemma release_locks:
  assumes "ReleaseLifecycleLock E cx lockID lm = (err, lm1)"
  shows "lm_lifecycleLocks lm1 = (case find_lock cx lockID (lm_lifecycleLocks lm) of None \<Rightarrow> lm_lifecycleLocks lm
    | Some key \<Rightarrow> fmdrop key (lm_lifecycleLocks lm))"
proof (cases "find_lock cx lockID (lm_lifecycleLocks lm)")
  case None
  then show ?thesis using assms by (simp add: ReleaseLifecycleLock_def)
next
  case (Some key)
  then obtain l where l: "fmlookup (lm_lifecycleLocks lm) key = Some l" by (rule find_lock_Some)
  with Some assms have "err = None" by (simp add: ReleaseLifecycleLock_def)
  with ReleaseLifecycleLock_ok [OF trivial_env assms] Some show ?thesis by auto
qed

text \<open>The operations of other goroutines up to a deadline: whatever they do to the locks goes through the three operations, with
  readings of the clock no later than the deadline, and they release other locks than \<open>lockID\<close>.\<close>

inductive others_step :: "('w, 'u) Env \<Rightarrow> time \<Rightarrow> string \<Rightarrow> 'w lifecycleManager \<Rightarrow> 'w lifecycleManager \<Rightarrow> bool" for E deadline lockID where
  acquires: "fst (lm_Now E lm) \<le> deadline \<Longrightarrow> AcquireLifecycleLock E cx ref op timeout lm = (r, lm1) \<Longrightarrow> others_step E deadline lockID lm lm1"
| releases: "other \<noteq> lockID \<Longrightarrow> ReleaseLifecycleLock E cx other lm = (err, lm1) \<Longrightarrow> others_step E deadline lockID lm lm1"
| cleans: "fst (lm_Now E lm) \<le> deadline \<Longrightarrow> others_step E deadline lockID lm (cleanupExpiredLocks E lm)"
| works: "lm_lifecycleLocks lm1 = lm_lifecycleLocks lm \<Longrightarrow> others_step E deadline lockID lm lm1"

lemma others_keep_lock:
  assumes "others_step E (lk_ExpiresAt lock) (lk_ID lock) lm lm1" "fmlookup (lm_lifecycleLocks lm) key = Some lock"
  shows "fmlookup (lm_lifecycleLocks lm1) key = Some lock"
  using assms
proof cases
  case (acquires cx ref op timeout r)
  show ?thesis
  proof (cases "GetPackageKey ref = key")
    case True
    then have "\<not> isOk r" using acquires assms(2) acquire_iff_free [of E cx ref op timeout lm] by simp
    then show ?thesis using acquire_locks [OF acquires(2)] assms(2) by (auto simp: isOk_def split: sum.splits)
  next
    case False
    then show ?thesis using acquire_locks [OF acquires(2)] assms(2) by (auto split: sum.splits)
  qed
next
  case (releases other cx err)
  then show ?thesis using release_locks [OF releases(2)] assms(2) by (auto split: option.splits elim!: find_lock_Some)
next
  case cleans
  then show ?thesis using assms(2)
    by (auto simp: cleanupExpiredLocks_def dest: lm_Now_locks split: prod.splits)
qed (simp add: assms(2))

text \<open>C24: A lock excludes every other holder of its package until it expires: after a successful acquisition, and whatever the other
  goroutines do to the locks short of releasing this one, the lock is still there and the next acquisition fails, as long as the
  clock has not passed the deadline.\<close>

theorem lock_excludes_until_expiry:
  assumes "AcquireLifecycleLock E cx ref op timeout lm = (Inr lock, lm1)"
    and "(others_step E (lk_ExpiresAt lock) (lk_ID lock))\<^sup>*\<^sup>* lm1 lm2" "fst (lm_Now E lm2) \<le> lk_ExpiresAt lock"
  shows "fmlookup (lm_lifecycleLocks lm2) (GetPackageKey ref) = Some lock
    \<and> \<not> isOk (fst (AcquireLifecycleLock E cx' ref op' timeout' lm2))"
proof -
  have "fmlookup (lm_lifecycleLocks lm1) (GetPackageKey ref) = Some lock" using acquire_locks [OF assms(1)] by simp
  with assms(2) have "fmlookup (lm_lifecycleLocks lm2) (GetPackageKey ref) = Some lock"
    by (induction rule: rtranclp_induct) (auto dest: others_keep_lock)
  then show ?thesis using assms(3) acquire_iff_free [of E cx' ref op' timeout' lm2] by simp
qed

theorem lock_excludes_until_expiry_witness:
  "\<not> isOk (fst (AcquireLifecycleLock mem_env mem_context amf_ref ''delete'' 5
      (snd (AcquireLifecycleLock mem_env mem_context amf_ref ''transition'' 100 (mem_manager False)))))"
proof -
  let ?a = "AcquireLifecycleLock mem_env mem_context amf_ref ''transition'' 100 (mem_manager False)"
  have c: "(case fst ?a of Inr lock \<Rightarrow> fst (lm_Now mem_env (snd ?a)) \<le> lk_ExpiresAt lock | Inl _ \<Rightarrow> False)" by code_simp
  then obtain lock where lock: "?a = (Inr lock, snd ?a)" "fst (lm_Now mem_env (snd ?a)) \<le> lk_ExpiresAt lock"
    by (cases "fst ?a") (auto simp: prod_eq_iff)
  from lock_excludes_until_expiry [OF lock(1) rtranclp.rtrancl_refl lock(2)] show ?thesis by blast
qed

text \<open>A clock that advances between two readings.\<close>

definition ticking :: "('w, 'u) Env \<Rightarrow> bool" where
  "ticking E \<longleftrightarrow> (\<forall>w. fst (en_Now E w) < fst (en_Now E (snd (en_Now E w))))"

lemma lm_Now_ticks: "ticking E \<Longrightarrow> lm_Now E lm = (t, lm1) \<Longrightarrow> t < fst (lm_Now E lm1)"
  by (auto simp: ticking_def lm_Now_def time_Now_def split: prod.splits) (metis fst_conv snd_conv)

lemma lm_Now_lock_irrelevant: "fst (lm_Now E (lm\<lparr>lm_lifecycleLocks := locks\<rparr>)) = fst (lm_Now E lm)"
  by (simp add: lm_Now_def split: prod.splits)

lemma emit_later:
  assumes "ticking E" shows "fst (lm_Now E lm) < fst (lm_Now E (emit E cx ty ref s s' lm))"
proof -
  obtain t1 l1 where 1: "lm_Now E lm = (t1, l1)" by fastforce
  obtain t2 l2 where 2: "lm_Now E l1 = (t2, l2)" by fastforce
  have "fst (lm_Now E (snd (TriggerEvent cx event l2))) = fst (lm_Now E l2)" for event
    by (simp add: TriggerEvent_def Let_def lm_Now_def split: prod.splits)
  then show ?thesis using lm_Now_ticks [OF assms 1] lm_Now_ticks [OF assms 2] by (simp add: emit_def 1 2)
qed

lemma create_lock_expiry:
  assumes "ticking E" "create_lock E cx ref op timeout lm = (lock, lm1)"
  shows "lk_ExpiresAt lock < fst (lm_Now E lm1) + timeout"
proof -
  obtain t1 l1 where 1: "lm_Now E lm = (t1, l1)" by fastforce
  obtain t2 l2 where 2: "lm_Now E l1 = (t2, l2)" by fastforce
  obtain t3 l3 where 3: "lm_Now E l2 = (t3, l3)" by fastforce
  have "lk_ExpiresAt lock = t3 + timeout" "\<exists>ty s s' locks. lm1 = emit E cx ty ref s s' (l3\<lparr>lm_lifecycleLocks := locks\<rparr>)"
    using assms(2) by (auto simp: create_lock_def 1 2 3 Let_def)
  moreover have "t3 < fst (lm_Now E (emit E cx ty ref s s' (l3\<lparr>lm_lifecycleLocks := locks\<rparr>)))" for ty s s' locks
    using lm_Now_ticks [OF assms(1) 3] emit_later [OF assms(1), of "l3\<lparr>lm_lifecycleLocks := locks\<rparr>" cx ty ref s s']
    by (simp add: lm_Now_lock_irrelevant)
  ultimately show ?thesis by auto
qed

text \<open>Without options a transition asks for a lock with a time-out of zero, which excludes nobody: on a clock that advances, the
  next acquisition succeeds at once, while the first holder is still at work.\<close>

theorem default_lock_excludes_nobody:
  assumes "ticking E" "isOk (fst (AcquireLifecycleLock E cx ref op (to_Timeout (options None)) lm))"
  shows "isOk (fst (AcquireLifecycleLock E cx' ref op' timeout (snd (AcquireLifecycleLock E cx ref op (to_Timeout (options None)) lm))))"
proof -
  let ?t = "to_Timeout (options None)"
  have t: "?t = 0" by (simp add: options_def zeroTransitionOptions_def)
  obtain lock lm1 where a: "AcquireLifecycleLock E cx ref op ?t lm = (Inr lock, lm1)"
    using assms(2) by (cases "AcquireLifecycleLock E cx ref op ?t lm") (auto simp: isOk_def split: sum.splits)
  then have "\<exists>l. create_lock E cx ref op ?t l = (lock, lm1)"
    by (auto simp: AcquireLifecycleLock_def Let_def map_prod_def split: option.splits prod.splits if_splits)
  then have "lk_ExpiresAt lock < fst (lm_Now E lm1)" using create_lock_expiry [OF assms(1)] t by fastforce
  then show ?thesis using acquire_locks [OF a] acquire_iff_free [of E cx' ref op' timeout lm1] a by simp
qed

theorem default_lock_excludes_nobody_witness:
  "isOk (fst (AcquireLifecycleLock mem_env mem_context amf_ref ''second'' 5
     (snd (AcquireLifecycleLock mem_env mem_context amf_ref ''first'' (to_Timeout (options None)) (mem_manager False)))))"
proof -
  have "ticking mem_env" by (simp add: ticking_def mem_env_def)
  moreover have "isOk (fst (AcquireLifecycleLock mem_env mem_context amf_ref ''first'' (to_Timeout (options None)) (mem_manager False)))"
    by (simp add: acquire_iff_free mem_manager_def NewLifecycleManager_def registerDefaultValidationGates_def RegisterValidationGate_def
        getDefaultLifecycleManagerConfig_def Let_def)
  ultimately show ?thesis by (rule default_lock_excludes_nobody)
qed

text \<open>Every lock carries an identifier made from its package; on a clock after 1970 the identifier determines the package.\<close>

definition locks_ok :: "'w lifecycleManager \<Rightarrow> bool" where
  "locks_ok lm \<longleftrightarrow> (\<forall>key lock. fmlookup (lm_lifecycleLocks lm) key = Some lock \<longrightarrow> (\<exists>t\<ge>0. lk_ID lock = lock_id key t))"

lemma Itoa_no_dash: "0 \<le> t \<Longrightarrow> CHR ''-'' \<notin> set (strconv_Itoa t)"
  using nat_digits_ok [of "nat t"] by (auto simp: strconv_Itoa_def list_all_iff is_digit_def)

lemma lock_id_inj:
  assumes "lock_id key t = lock_id key' t'" "0 \<le> t" "0 \<le> t'"
  shows "key = key'"
proof -
  have "rev (strconv_Itoa t) @ CHR ''-'' # rev key = rev (strconv_Itoa t') @ CHR ''-'' # rev key'"
    using arg_cong [OF assms(1), of rev] by (simp add: lock_id_def)
  from first_separator [OF this] assms(2,3) show ?thesis by (simp add: Itoa_no_dash)
qed

lemma acquire_id:
  assumes "\<forall>w. 0 \<le> fst (en_Now E w)" "AcquireLifecycleLock E cx ref op timeout lm = (Inr lock, lm1)"
  obtains t where "lk_ID lock = lock_id (GetPackageKey ref) t" "0 \<le> t"
proof -
  from assms(2) have "\<exists>l. create_lock E cx ref op timeout l = (lock, lm1)"
    by (auto simp: AcquireLifecycleLock_def Let_def map_prod_def split: option.splits prod.splits if_splits)
  then obtain l t l' where t: "lm_Now E l = (t, l')" "lk_ID lock = lock_id (GetPackageKey ref) t" using create_lock_ok [OF trivial_env] by meson
  then have "0 \<le> t" using assms(1) by (auto simp: lm_Now_def time_Now_def split: prod.splits) (metis fst_conv)
  with t(2) show ?thesis by (rule that)
qed

lemma transition_locked_locks:
  fixes E :: "('w, 'u) Env"
  assumes "transition_locked E cx ref a target opts result lm = (out, lm1)"
  shows "lm_lifecycleLocks lm1 = lm_lifecycleLocks lm"
  using frame_trivial assms
proof (cases rule: transition_locked_cases)
  case (sent l r l')
  have "lm_quiet ((\<lambda>_. Map.empty) :: 'w \<Rightarrow> string \<rightharpoonup> 'u) l' lm1" using sent(4) by (simp add: guests_ok_def)
  with sent(2,3) show ?thesis by (auto simp: lm_quiet_def with_client_eq set_stage_def)
qed (simp_all add: lm_quiet_def)

lemma release_own:
  assumes "locks_ok lm" "ranges_over (lm_lifecycleLocks lm2) (cx_locks cx (lm_lifecycleLocks lm2))"
    and "lm_lifecycleLocks lm2 = fmupd key lock (lm_lifecycleLocks lm)" "lk_ID lock = lock_id key t" "0 \<le> t"
  shows "lm_lifecycleLocks (snd (ReleaseLifecycleLock E cx (lk_ID lock) lm2)) = fmdrop key (lm_lifecycleLocks lm)"
proof -
  have own: "k = key" if "fmlookup (lm_lifecycleLocks lm2) k = Some l" "lk_ID l = lk_ID lock" for k l
  proof (rule ccontr)
    assume "k \<noteq> key"
    with that(1) assms(3) have "fmlookup (lm_lifecycleLocks lm) k = Some l" by simp
    with assms(1) obtain t' where "lk_ID l = lock_id k t'" "0 \<le> t'" unfolding locks_ok_def by blast
    with that(2) assms(4,5) \<open>k \<noteq> key\<close> show False using lock_id_inj by metis
  qed
  have "key \<in> set (cx_locks cx (lm_lifecycleLocks lm2))"
    using assms(2,3) by (metis fmdomI fmupd_lookup fset_of_list_elem ranges_over_def)
  then have "find_lock cx (lk_ID lock) (lm_lifecycleLocks lm2) \<noteq> None"
    by (auto simp: find_lock_def find_None_iff assms(3))
  then have "find_lock cx (lk_ID lock) (lm_lifecycleLocks lm2) = Some key" using own find_lock_Some by blast
  then have "lm_lifecycleLocks (snd (ReleaseLifecycleLock E cx (lk_ID lock) lm2)) = fmdrop key (lm_lifecycleLocks lm2)"
    by (simp add: release_locks [OF prod.collapse [symmetric]])
  then show ?thesis by (simp add: assms(3)) (rule fmap_ext, simp)
qed

text \<open>C25: A transition leaves no lock behind: on every path, early returns included, the locks afterwards are those before it, or
  those before it without an expired lock of the package.\<close>

theorem transition_leaves_no_lock:
  assumes "locks_ok lm" "\<forall>m. ranges_over m (cx_locks cx m)" "\<forall>w. 0 \<le> fst (en_Now E w)"
    and "performTransition E cx ref target opts lm = ((res, err), lm1)"
  shows "lm_lifecycleLocks lm1 = lm_lifecycleLocks lm \<or> lm_lifecycleLocks lm1 = fmdrop (GetPackageKey ref) (lm_lifecycleLocks lm)"
  using assms(4)
proof (cases rule: performTransition_cases)
  case (unread t lm0 e)
  then show ?thesis by (auto simp: with_client_eq dest: lm_Now_locks)
next
  case (at_target t lm0 a lm2 r r')
  then show ?thesis using finish_quiet [OF trivial_env at_target(4)] by (auto simp: with_client_eq lm_quiet_def dest: lm_Now_locks)
next
  case (locked_out t lm0 a lm2 e)
  then show ?thesis using acquire_locks [OF locked_out(4)] by (auto simp: with_client_eq dest: lm_Now_locks)
next
  case (locked t lm0 a lm2 lock lm3 out lm4)
  obtain t' where id: "lk_ID lock = lock_id (GetPackageKey ref) t'" "0 \<le> t'" using assms(3) locked(4) by (rule acquire_id)
  have "lm_lifecycleLocks lm2 = lm_lifecycleLocks lm" using locked(1,2) by (auto simp: with_client_eq dest: lm_Now_locks)
  then have "lm_lifecycleLocks lm4 = fmupd (GetPackageKey ref) lock (lm_lifecycleLocks lm)"
    using acquire_locks [OF locked(4)] transition_locked_locks [OF locked(5)] by simp
  from release_own [OF assms(1) _ this id, where E = E and cx = cx] assms(2) locked(6) show ?thesis by simp
qed

definition sorted_context :: call_context where
  "sorted_context = mem_context\<lparr>cx_locks := (\<lambda>m. sorted_list_of_fset (fmdom m))\<rparr>"

theorem transition_leaves_no_lock_witness:
  "lm_lifecycleLocks (snd (performTransition mem_env sorted_context amf_ref ''Proposed'' None (mem_manager True))) = fmempty"
proof -
  let ?r = "performTransition mem_env sorted_context amf_ref ''Proposed'' None (mem_manager True)"
  have empty: "lm_lifecycleLocks (mem_manager True) = fmempty"
    by (simp add: mem_manager_def NewLifecycleManager_def registerDefaultValidationGates_def RegisterValidationGate_def getDefaultLifecycleManagerConfig_def Let_def)
  have "locks_ok (mem_manager True)" by (simp add: locks_ok_def empty)
  moreover have "\<forall>m. ranges_over m (cx_locks sorted_context m)"
    by (simp add: sorted_context_def ranges_over_def) (simp add: sorted_list_of_fset.rep_eq)
  moreover have "\<forall>w. 0 \<le> fst (en_Now mem_env w)" by (simp add: mem_env_def)
  moreover have "?r = ((fst (fst ?r), snd (fst ?r)), snd ?r)" by simp
  ultimately show ?thesis using transition_leaves_no_lock [of "mem_manager True" sorted_context mem_env] empty by (metis fmdrop_empty)
qed

section \<open>Gates and hooks\<close>

text \<open>The outcomes of the gates, each called in the state that its predecessor has left.\<close>

fun gate_outcomes ::
    "('w, 'u) Env \<Rightarrow> PackageReference \<Rightarrow> PackageRevisionLifecycle \<Rightarrow> 'w ValidationGate list \<Rightarrow> 'w Client \<Rightarrow> (porch_error + ValidationResult) list" where
  "gate_outcomes E ref stage [] c = []"
| "gate_outcomes E ref stage (gate # gates) c =
     (case gate_Validate E gate ref stage c of (outcome, c1) \<Rightarrow> outcome # gate_outcomes E ref stage gates c1)"

definition gate_passes :: "'w ValidationGate \<Rightarrow> porch_error + ValidationResult \<Rightarrow> bool" where
  "gate_passes gate outcome = (case outcome of Inl _ \<Rightarrow> False | Inr result \<Rightarrow> vr_Valid result \<or> \<not> vg_Required gate)"

lemma validate_gates_valid:
  "vr_Valid (fst (validate_gates E ref stage gates result c)) \<longleftrightarrow>
     vr_Valid result \<and> list_all2 gate_passes gates (gate_outcomes E ref stage gates c)"
  by (induction gates arbitrary: result c) (auto simp: gate_merge_def gate_passes_def split: prod.splits sum.splits)

text \<open>\<open>ValidateTransition\<close> never returns an error, and its verdict is the conjunction over all gates of the stage, each of which
  is asked: a gate passes if it returns no error and accepts, or rejects without being required. An error counts as a
  rejection even of a gate that is not required, and a stage without gates accepts.\<close>

theorem ValidateTransition_verdict:
  "\<exists>result lm1. ValidateTransition E ref stage lm = (Inr result, lm1)
     \<and> (vr_Valid result \<longleftrightarrow> list_all2 gate_passes (gates_of lm stage) (gate_outcomes E ref stage (gates_of lm stage) (lm_client lm)))"
  using validate_gates_valid [of E ref stage "gates_of lm stage" "\<lparr>vr_Valid = True, vr_Errors = [], vr_Warnings = []\<rparr>" "lm_client lm"]
  by (auto simp: ValidateTransition_def split: prod.splits)

text \<open>Hooks cannot stop a transition: \<open>ExecuteHooks\<close> returns no error whatever the hooks do, so the branch of \<open>performTransition\<close>
  for failed hooks is never taken and the result stays successful.\<close>

theorem hooks_never_block:
  "\<exists>result1 lm1. pre_hooks_phase E ref stage opts result lm = (Inr result1, lm1) \<and> tr_Success result1 = tr_Success result"
  using pre_hooks_phase_quiet [OF frame_trivial prod.collapse [symmetric]] by (metis prod.collapse)

section \<open>Registries\<close>

lemma remove_first_SomeD: "remove_first P xs = Some ys \<Longrightarrow> \<exists>us x vs. xs = us @ x # vs \<and> P x \<and> ys = us @ vs"
proof (induction xs arbitrary: ys)
  case (Cons a xs)
  show ?case
  proof (cases "P a")
    case True
    with Cons.prems show ?thesis by (intro exI [of _ "[]"]) auto
  next
    case False
    with Cons obtain zs us x vs where "ys = a # zs" "xs = us @ x # vs" "P x" "zs = us @ vs" by auto
    then show ?thesis by (intro exI [of _ "a # us"]) auto
  qed
qed simp

lemma remove_first_append: "\<forall>u\<in>set us. \<not> P u \<Longrightarrow> P x \<Longrightarrow> remove_first P (us @ x # vs) = Some (us @ vs)"
  by (induction us) auto

text \<open>The contract that the registries of gates and of event handlers have in common: \<open>entries\<close> are the elements under a key in the
  order of the calls, \<open>ident\<close> their identifiers.\<close>

locale registry =
  fixes entries :: "'s \<Rightarrow> 'k \<Rightarrow> 'x list"
    and ident :: "'x \<Rightarrow> string"
    and register :: "'k \<Rightarrow> 'x \<Rightarrow> 's \<Rightarrow> porch_error option \<times> 's"
    and unregister :: "'k \<Rightarrow> string \<Rightarrow> 's \<Rightarrow> porch_error option \<times> 's"
  assumes register_new: "ident x \<notin> ident ` set (entries s k) \<Longrightarrow>
      fst (register k x s) = None \<and> entries (snd (register k x s)) = (entries s)(k := entries s k @ [x])"
    and register_dup: "ident x \<in> ident ` set (entries s k) \<Longrightarrow> fst (register k x s) \<noteq> None \<and> entries (snd (register k x s)) = entries s"
    and unregister_found: "remove_first (\<lambda>x. ident x = i) (entries s k) = Some xs \<Longrightarrow>
      fst (unregister k i s) = None \<and> entries (snd (unregister k i s)) = (entries s)(k := xs)"
    and unregister_missing: "remove_first (\<lambda>x. ident x = i) (entries s k) = None \<Longrightarrow>
      fst (unregister k i s) \<noteq> None \<and> entries (snd (unregister k i s)) = entries s"
begin

definition unique :: "'s \<Rightarrow> bool" where
  "unique s \<longleftrightarrow> (\<forall>k. distinct (map ident (entries s k)))"

lemma register_unique: "unique s \<Longrightarrow> unique (snd (register k x s))"
  using register_new [of x s k] register_dup [of x s k] by (cases "ident x \<in> ident ` set (entries s k)") (auto simp: unique_def)

lemma unregister_unique:
  assumes "unique s" shows "unique (snd (unregister k i s))"
proof (cases "remove_first (\<lambda>x. ident x = i) (entries s k)")
  case None
  then show ?thesis using assms unregister_missing by (simp add: unique_def)
next
  case (Some xs)
  then obtain us x vs where split: "entries s k = us @ x # vs" "xs = us @ vs" using remove_first_SomeD by metis
  have "distinct (map ident (entries s k))" using assms by (simp add: unique_def)
  with split have "distinct (map ident xs)" by auto
  then show ?thesis using assms unregister_found [OF Some] by (simp add: unique_def)
qed

lemma register_unregister:
  assumes "fst (register k x s) = None"
  shows "fst (unregister k (ident x) (snd (register k x s))) = None \<and> entries (snd (unregister k (ident x) (snd (register k x s)))) = entries s"
proof -
  let ?s = "snd (register k x s)"
  have new: "ident x \<notin> ident ` set (entries s k)" using assms register_dup by blast
  then have e: "entries ?s k = entries s k @ [x]" using register_new by simp
  have "remove_first (\<lambda>y. ident y = ident x) (entries ?s k) = Some (entries s k)"
  proof -
    have "\<forall>u\<in>set (entries s k). ident u \<noteq> ident x" using new by (metis image_eqI)
    then show ?thesis unfolding e using remove_first_append [of "entries s k" "\<lambda>y. ident y = ident x" x "[]"] by simp
  qed
  from unregister_found [OF this] register_new [OF new] show ?thesis by auto
qed

lemma unregister_gone:
  assumes "unique s" "fst (unregister k i s) = None"
  shows "i \<notin> ident ` set (entries (snd (unregister k i s)) k)"
proof -
  obtain xs where xs: "remove_first (\<lambda>x. ident x = i) (entries s k) = Some xs" using assms(2) unregister_missing [of i s k] by fastforce
  then obtain us x vs where "entries s k = us @ x # vs" "xs = us @ vs" "ident x = i" using remove_first_SomeD [OF xs] by blast
  moreover from this assms(1) have "distinct (map ident (us @ x # vs))" unfolding unique_def by metis
  ultimately have "i \<notin> ident ` set xs" by auto
  then show ?thesis using unregister_found [OF xs] by simp
qed

end

lemma id_taken: "list_ex (\<lambda>y. f y = f x) xs \<longleftrightarrow> f x \<in> f ` set xs"
  unfolding list_ex_iff image_iff by (metis)

lemma RegisterValidationGate_gates:
  "gates_of (snd (RegisterValidationGate k g lm)) = (gates_of lm)(k := gates_of lm k @ (if vg_ID g \<in> vg_ID ` set (gates_of lm k) then [] else [g]))"
  unfolding RegisterValidationGate_def Let_def id_taken by (auto simp: gates_of_def sortValidationGatesByPriority_def fun_eq_iff)

lemma RegisterEventHandler_handlers:
  "handlers_of (snd (RegisterEventHandler k h lm)) = (handlers_of lm)(k := handlers_of lm k @ (if eh_ID h \<in> eh_ID ` set (handlers_of lm k) then [] else [h]))"
  unfolding RegisterEventHandler_def Let_def id_taken by (auto simp: handlers_of_def sortEventHandlersByPriority_def fun_eq_iff)

interpretation gates: registry gates_of vg_ID RegisterValidationGate UnregisterValidationGate
proof (unfold_locales, goal_cases)
  case (1 x s k)
  then show ?case using RegisterValidationGate_gates [of k x s] by (simp add: RegisterValidationGate_def Let_def id_taken)
next
  case (2 x s k)
  then show ?case using RegisterValidationGate_gates [of k x s] by (simp add: RegisterValidationGate_def Let_def id_taken)
next
  case (3 i s k xs)
  then show ?case by (auto simp: UnregisterValidationGate_def gates_of_def fun_eq_iff split: option.splits)
next
  case (4 i s k)
  then show ?case by (auto simp: UnregisterValidationGate_def gates_of_def fun_eq_iff split: option.splits)
qed

interpretation handlers: registry handlers_of eh_ID RegisterEventHandler UnregisterEventHandler
proof (unfold_locales, goal_cases)
  case (1 x s k)
  then show ?case using RegisterEventHandler_handlers [of k x s] by (simp add: RegisterEventHandler_def Let_def id_taken)
next
  case (2 x s k)
  then show ?case using RegisterEventHandler_handlers [of k x s] by (simp add: RegisterEventHandler_def Let_def id_taken)
next
  case (3 i s k xs)
  then show ?case by (auto simp: UnregisterEventHandler_def handlers_of_def fun_eq_iff split: option.splits)
next
  case (4 i s k)
  then show ?case by (auto simp: UnregisterEventHandler_def handlers_of_def fun_eq_iff split: option.splits)
qed

text \<open>C29: The gates of every stage have distinct identifiers, and registration keeps it so; unregistering a gate that has been
  registered restores the gates of all stages, in their order.\<close>

theorem gate_registration:
  assumes "\<forall>k. distinct (map vg_ID (gates_of lm k))" "RegisterValidationGate stage gate lm = (None, lm1)"
  shows "(\<forall>k. distinct (map vg_ID (gates_of lm1 k)))
   \<and> fst (UnregisterValidationGate stage (vg_ID gate) lm1) = None \<and> gates_of (snd (UnregisterValidationGate stage (vg_ID gate) lm1)) = gates_of lm"
  using gates.register_unique [of lm stage gate] gates.register_unregister [of stage gate lm] assms by (simp add: gates.unique_def)

theorem gate_registration_witness:
  "gates_of (snd (UnregisterValidationGate ''Draft'' ''own'' (snd (RegisterValidationGate ''Draft'' (ApprovalValidationGate ''own'' ''Own'' 1 True) (mem_manager False)))))
     = gates_of (mem_manager False)"
proof -
  let ?lm = "mem_manager False" and ?gate = "ApprovalValidationGate ''own'' ''Own'' 1 True"
  have "gates_of ?lm k = (if k = ''Published'' then [ApprovalValidationGate ''approval-required'' ''Approval Required Gate'' 200 True]
      else if k = ''Proposed'' then [ContentValidationGate ''content-validation'' ''Content Validation Gate'' 100 True] else [])" for k
    by (simp add: mem_manager_def NewLifecycleManager_def registerDefaultValidationGates_def RegisterValidationGate_gates
        PackageRevisionLifecyclePublished_def PackageRevisionLifecycleProposed_def getDefaultLifecycleManagerConfig_def Let_def)
       (simp add: gates_of_def)
  then have "\<forall>k. distinct (map vg_ID (gates_of ?lm k))" and "gates_of ?lm ''Draft'' = []" by simp_all
  moreover from this(2) have "RegisterValidationGate ''Draft'' ?gate ?lm = (None, snd (RegisterValidationGate ''Draft'' ?gate ?lm))"
    by (simp add: RegisterValidationGate_def Let_def)
  ultimately show ?thesis using gate_registration [of ?lm "''Draft''" ?gate] by simp
qed

section \<open>Runs of a batch\<close>

lemma batch_conserves:
  assumes "batch_step opts cancelled n b b1"
  shows "bt_waiting b1 + bt_running b1 + length (bt_results b1) + bt_successful b1 + bt_failed b1
       = bt_waiting b + bt_running b + length (bt_results b) + bt_successful b + bt_failed b"
  using assms by cases auto

definition batch_ok :: "BatchTransitionOptions \<Rightarrow> bool \<Rightarrow> nat \<Rightarrow> batch \<Rightarrow> bool" where
  "batch_ok opts cancelled n b \<longleftrightarrow>
     bt_waiting b + bt_running b + length (bt_results b) + bt_successful b + bt_failed b = n
   \<and> int (bt_running b + bt_releasing b) \<le> bo_Concurrency opts
   \<and> (case bt_returned b of
        None \<Rightarrow> bo_ContinueOnError opts \<or> bt_failed b = 0
      | Some (BatchOk success) \<Rightarrow> bt_successful b + bt_failed b = n \<and> success = (bt_failed b = 0) \<and> (bo_ContinueOnError opts \<or> bt_failed b = 0)
      | Some (BatchFailed err) \<Rightarrow> \<not> bo_ContinueOnError opts \<and> bt_failed b = 1
      | Some BatchCancelled \<Rightarrow> cancelled \<and> bt_successful b + bt_failed b < n)"

lemma batch_ok_start: "0 \<le> bo_Concurrency opts \<Longrightarrow> batch_ok opts cancelled n (batch_start n)"
  by (simp add: batch_ok_def batch_start_def)

lemma batch_ok_step:
  assumes "batch_ok opts cancelled n b" "batch_step opts cancelled n b b1"
  shows "batch_ok opts cancelled n b1"
  using assms(2,1) by cases (auto simp: batch_ok_def split: option.splits batch_return.splits)

lemma batch_ok_reach:
  assumes "BatchTransition opts_ptr refs = Ret (opts, b0)" "batch_reach opts cancelled (length refs) b"
  shows "batch_ok opts cancelled (length refs) b"
proof -
  have "0 \<le> bo_Concurrency opts" using assms(1) by (auto simp: BatchTransition_def Let_def split: if_splits)
  with assms(2) show ?thesis by (induction rule: batch_reach.induct) (auto intro: batch_ok_start batch_ok_step)
qed


definition batch_measure :: "batch \<Rightarrow> nat" where
  "batch_measure b = 4 * bt_waiting b + 3 * bt_running b + bt_releasing b + length (bt_results b) + (if bt_returned b = None then 1 else 0)"

lemma batch_measure_decreases: "batch_step opts cancelled n b b1 \<Longrightarrow> batch_measure b1 < batch_measure b"
  by (induction rule: batch_step.induct) (auto simp: batch_measure_def)

lemma batch_run_measure: "(batch_step opts cancelled n ^^ k) b b1 \<Longrightarrow> batch_measure b1 + k \<le> batch_measure b"
proof (induction k arbitrary: b1)
  case (Suc k)
  then obtain b2 where "(batch_step opts cancelled n ^^ k) b b2" "batch_step opts cancelled n b2 b1" by auto
  with Suc.IH batch_measure_decreases show ?case by fastforce
qed simp

lemma batch_stuck:
  assumes "batch_ok opts cancelled n b" "0 < bo_Concurrency opts" "\<nexists>b1. batch_step opts cancelled n b b1"
  shows "bt_waiting b = 0 \<and> bt_running b = 0 \<and> bt_releasing b = 0 \<and> bt_returned b \<noteq> None"
proof -
  have idle: "bt_running b = 0" "bt_releasing b = 0" using assms(2,3) batch_step.done_one batch_step.release by blast+
  then have "bt_waiting b = 0" using assms(2,3) batch_step.acquire [of b opts cancelled n] by fastforce
  moreover have "bt_returned b \<noteq> None"
  proof
    assume open_: "bt_returned b = None"
    have total: "length (bt_results b) + bt_successful b + bt_failed b = n" using assms(1) idle \<open>bt_waiting b = 0\<close> by (simp add: batch_ok_def)
    show False
    proof (cases "bt_results b")
      case Nil
      then show False using batch_step.complete [OF open_] total assms(3) by fastforce
    next
      case (Cons r rs)
      then have "bt_successful b + bt_failed b < n" using total by simp
      then show False using batch_step.success [OF open_] batch_step.failure [OF open_] Cons assms(3) by (cases r) blast+
    qed
  qed
  ultimately show ?thesis using idle by simp
qed


text \<open>C27: With a positive \<open>Concurrency\<close> every run of a batch of \<open>n\<close> packages ends, after at most \<open>4 * n + 1\<close> steps, and it ends only when
  \<open>BatchTransition\<close> has returned and all its goroutines have finished, whatever the outcomes of the transitions.\<close>

theorem batch_completes:
  assumes "BatchTransition opts_ptr refs = Ret (opts, b0)" "0 < bo_Concurrency opts" "(batch_step opts cancelled (length refs) ^^ k) b0 b"
  shows "k \<le> 4 * length refs + 1
   \<and> ((\<nexists>b1. batch_step opts cancelled (length refs) b b1) \<longrightarrow>
        bt_waiting b = 0 \<and> bt_running b = 0 \<and> bt_releasing b = 0 \<and> bt_returned b \<noteq> None)"
proof -
  have b0: "b0 = batch_start (length refs)" using assms(1) by (auto simp: BatchTransition_def Let_def split: if_splits)
  have "batch_measure b0 = 4 * length refs + 1" by (simp add: b0 batch_measure_def batch_start_def)
  then have "k \<le> 4 * length refs + 1" using batch_run_measure [OF assms(3)] by simp
  moreover have "batch_reach opts cancelled (length refs) b"
    using assms(3) by (induction k arbitrary: b) (auto simp: b0 intro: batch_reach.intros)
  ultimately show ?thesis using batch_stuck [OF batch_ok_reach [OF assms(1)] assms(2)] by blast
qed

definition one_run :: "nat \<Rightarrow> batch" where
  "one_run k = [batch_start 1, (batch_start 1)\<lparr>bt_waiting := 0, bt_running := 1\<rparr>,
     (batch_start 1)\<lparr>bt_waiting := 0, bt_releasing := 1, bt_results := [None]\<rparr>,
     (batch_start 1)\<lparr>bt_waiting := 0, bt_results := [None]\<rparr>,
     (batch_start 1)\<lparr>bt_waiting := 0, bt_successful := 1\<rparr>,
     (batch_start 1)\<lparr>bt_waiting := 0, bt_successful := 1, bt_returned := Some (BatchOk True)\<rparr>] ! k"

lemma one_run_step: "k < 5 \<Longrightarrow> batch_step defaultBatchOptions False 1 (one_run k) (one_run (Suc k))"
proof -
  let ?S = "batch_step defaultBatchOptions False 1" and ?b = "(batch_start 1)\<lparr>bt_waiting := 0\<rparr>"
  have "?S (one_run 0) (one_run 1)"
    using batch_step.acquire [of "batch_start 1" defaultBatchOptions] by (simp add: one_run_def batch_start_def defaultBatchOptions_def)
  moreover have "?S (one_run 1) (one_run 2)"
    using batch_step.done_one [of "?b\<lparr>bt_running := 1\<rparr>" defaultBatchOptions False 1 None] by (simp add: one_run_def batch_start_def)
  moreover have "?S (one_run 2) (one_run 3)"
    using batch_step.release [of "?b\<lparr>bt_releasing := 1, bt_results := [None]\<rparr>" defaultBatchOptions] by (simp add: one_run_def batch_start_def defaultBatchOptions_def)
  moreover have "?S (one_run 3) (one_run 4)"
    using batch_step.success [of "?b\<lparr>bt_results := [None]\<rparr>" 1 "[]" defaultBatchOptions] by (simp add: one_run_def batch_start_def)
  moreover have "?S (one_run 4) (one_run 5)"
    using batch_step.complete [of "?b\<lparr>bt_successful := 1\<rparr>" 1 defaultBatchOptions] by (simp add: one_run_def batch_start_def)
  ultimately show "k < 5 \<Longrightarrow> ?S (one_run k) (one_run (Suc k))" by (auto simp: less_Suc_eq numeral_eq_Suc)
qed

lemma one_run_steps: "k \<le> 5 \<Longrightarrow> (batch_step defaultBatchOptions False 1 ^^ k) (one_run 0) (one_run k)"
proof (induction k)
  case (Suc k)
  then show ?case using one_run_step [of k] relpowp_Suc_I by simp
qed simp

theorem batch_completes_witness: "(5::nat) \<le> 4 * length [amf_ref] + 1 \<and> bt_returned (one_run 5) \<noteq> None"
proof -
  have start: "BatchTransition None [amf_ref] = Ret (defaultBatchOptions, one_run 0)"
    by (simp add: BatchTransition_def defaultBatchOptions_def one_run_def)
  have run: "(batch_step defaultBatchOptions False (length [amf_ref]) ^^ 5) (one_run 0) (one_run 5)" using one_run_steps [of 5] by simp
  have "\<nexists>b1. batch_step defaultBatchOptions False (length [amf_ref]) (one_run 5) b1"
    by (auto simp: one_run_def batch_start_def elim!: batch_step.cases)
  with batch_completes [OF start _ run] show ?thesis by (simp add: defaultBatchOptions_def)
qed

text \<open>With \<open>Concurrency\<close> zero no goroutine of a batch ever starts: unless the context is cancelled, the batch stays as it is.\<close>

theorem batch_without_concurrency_hangs:
  assumes "bo_Concurrency opts = 0" "0 < n" "batch_reach opts False n b"
  shows "b = batch_start n \<and> (\<nexists>b1. batch_step opts False n b b1)"
proof -
  have stuck: "\<not> batch_step opts False n (batch_start n) b1" for b1
  proof
    assume "batch_step opts False n (batch_start n) b1"
    then show False using assms(1,2) by cases (auto simp: batch_start_def)
  qed
  from assms(3) have "b = batch_start n" by induction (auto simp: stuck)
  with stuck show ?thesis by simp
qed

section \<open>Hooks that stay\<close>

lemma register_hook_keeps:
  "register_hook hook actions m = (r, m1) \<Longrightarrow> fmlookup m a = Some hs \<Longrightarrow> x \<in> set hs \<Longrightarrow> \<exists>hs. fmlookup m1 a = Some hs \<and> x \<in> set hs"
  by (induction hook actions m arbitrary: hs rule: register_hook.induct) (fastforce simp: Let_def split: if_splits)+

lemma register_hook_all:
  "register_hook hook actions m = (None, m1) \<Longrightarrow> a \<in> set actions \<Longrightarrow> \<exists>hs. fmlookup m1 a = Some hs \<and> hook \<in> set hs"
proof (induction hook actions m rule: register_hook.induct)
  case (2 hook action actions m)
  let ?hs = "(case fmlookup m action of None \<Rightarrow> [] | Some hs \<Rightarrow> hs)"
  have rest: "register_hook hook actions (fmupd action (?hs @ [hook]) m) = (None, m1)" and new: "\<not> list_ex (\<lambda>h. ih_ID h = ih_ID hook) ?hs"
    using 2(2) by (auto simp: Let_def split: if_splits)
  show ?case
  proof (cases "a \<in> set actions")
    case True
    with 2(1) [OF refl new rest] show ?thesis by simp
  next
    case False
    then have "a = action" using 2(3) by simp
    then show ?thesis using register_hook_keeps [OF rest, of a "?hs @ [hook]" hook] by simp
  qed
qed simp

lemma unregister_hook_one: "unregister_hook hookID actions m = Some m1 \<Longrightarrow> \<exists>a hs. m1 = fmupd a hs m"
  by (induction hookID actions m rule: unregister_hook.induct) (auto split: option.splits)

lemma register_hook_dup:
  "a \<in> set actions \<Longrightarrow> fmlookup m a = Some hs \<Longrightarrow> hook \<in> set hs \<Longrightarrow> ih_ID hook = ih_ID hook1 \<Longrightarrow> fst (register_hook hook1 actions m) \<noteq> None"
proof (induction hook1 actions m arbitrary: hs rule: register_hook.induct)
  case (2 hook1 action actions m)
  let ?hs = "(case fmlookup m action of None \<Rightarrow> [] | Some hs \<Rightarrow> hs)"
  show ?case
  proof (cases "list_ex (\<lambda>h. ih_ID h = ih_ID hook1) ?hs")
    case False
    then have "a \<noteq> action" using 2(3-5) by (auto simp: list_ex_iff)
    with 2(2-5) False 2(1) [OF refl False, of hs] show ?thesis by (simp add: Let_def)
  qed (simp add: Let_def)
qed simp

text \<open>A hook that has been registered and unregistered is still there for three of its four actions, whatever the order of the
  iteration, and registering it again fails.\<close>

theorem unregistered_hook_stays:
  assumes "RegisterIntegrationHook stage hook lm = (None, lm1)" "UnregisterIntegrationHook cx stage (ih_ID hook) lm1 = (None, lm2)"
  shows "(\<exists>a. \<forall>a1 \<in> set all_actions - {a}. hook \<in> set (hooks_of lm2 stage a1)) \<and> fst (RegisterIntegrationHook stage hook lm2) \<noteq> None"
proof -
  obtain m1 where m1: "fmlookup (lm_integrationHooks lm1) stage = Some m1" "\<forall>a\<in>set all_actions. \<exists>hs. fmlookup m1 a = Some hs \<and> hook \<in> set hs"
    using assms(1) register_hook_all [of hook all_actions] by (auto simp: RegisterIntegrationHook_def Let_def split: prod.splits)
  obtain a hs where m2: "fmlookup (lm_integrationHooks lm2) stage = Some (fmupd a hs m1)"
    using assms(2) m1(1) unregister_hook_one by (fastforce simp: UnregisterIntegrationHook_def split: option.splits)
  have stays: "\<forall>a1 \<in> set all_actions - {a}. \<exists>hs1. fmlookup (fmupd a hs m1) a1 = Some hs1 \<and> hook \<in> set hs1" using m1(2) by auto
  have "\<exists>a1. a1 \<in> set all_actions - {a}"
    by (cases "a = HookActionPreTransition") (auto simp: all_actions_def HookActionPreTransition_def HookActionPostTransition_def)
  then obtain a1 where "a1 \<in> set all_actions" "a1 \<noteq> a" by blast
  with stays have "fst (register_hook hook all_actions (fmupd a hs m1)) \<noteq> None" using register_hook_dup [of a1 all_actions _ _ hook hook] by blast
  then have "fst (RegisterIntegrationHook stage hook lm2) \<noteq> None"
    by (auto simp: RegisterIntegrationHook_def Let_def m2 split: prod.splits)
  moreover have "hook \<in> set (hooks_of lm2 stage a1)" if a1: "a1 \<in> set all_actions - {a}" for a1
  proof -
    obtain hs1 where "fmlookup (fmupd a hs m1) a1 = Some hs1" "hook \<in> set hs1" using bspec [OF stays a1] by blast
    then show ?thesis by (simp add: hooks_of_def m2)
  qed
  ultimately show ?thesis by blast
qed

end
