(* ===== verification/Dependency_Graph.thy ===== *)
theory Dependency_Graph
  imports Porch_Types Go_Strconv
begin

text \<open>
  The analysis of dependency graphs (\<open>pkg/nephio/porch/dependency_graph_analyzer.go\<close>), with the types of
  \<open>dependency_resolver.go\<close>: topological order, connected components, critical path and depth. Nodes are reached through
  pointers and the algorithms mark them by their identifiers, so a graph has a store of nodes; edges are only read and are
  values. The recursive closures of the source may run forever on an infinite store and are partial functions; on the
  finite graphs of the program they are proved to return. The strongly connected components are in \<open>Tarjan_SCC\<close>.
\<close>

section \<open>Loops with a body that may not return\<close>

primrec for_each :: "('e \<Rightarrow> 's \<Rightarrow> 's option) \<Rightarrow> 'e list \<Rightarrow> 's \<Rightarrow> 's option" where
  "for_each f [] s = Some s"
| "for_each f (e # es) s = Option.bind (f e s) (for_each f es)"

text \<open>The same with an early return of an error.\<close>

primrec for_return :: "('e \<Rightarrow> 's \<Rightarrow> ('err + 's) option) \<Rightarrow> 'e list \<Rightarrow> 's \<Rightarrow> ('err + 's) option" where
  "for_return f [] s = Some (Inr s)"
| "for_return f (e # es) s =
     Option.bind (f e s) (\<lambda>r. case r of Inl err \<Rightarrow> Some (Inl err) | Inr s1 \<Rightarrow> for_return f es s1)"

lemma for_each_mono [partial_function_mono]:
  assumes "\<And>e s. mono_option (\<lambda>f. B f e s)"
  shows "mono_option (\<lambda>f. for_each (B f) es s)"
proof (induction es arbitrary: s)
  case (Cons e es)
  then show ?case using assms by (simp add: bind_mono)
qed (simp add: option.const_mono)

lemma for_return_mono [partial_function_mono]:
  assumes "\<And>e s. mono_option (\<lambda>f. B f e s)"
  shows "mono_option (\<lambda>f. for_return (B f) es s)"
proof (induction es arbitrary: s)
  case (Cons e es)
  have "mono_option (\<lambda>f. case r of Inl err \<Rightarrow> Some (Inl err) | Inr s1 \<Rightarrow> for_return (B f) es s1)" for r
    using Cons by (cases r) (simp_all add: option.const_mono)
  with assms show ?case by (simp add: bind_mono)
qed (simp add: option.const_mono)

text \<open>The rules of the two loops, for an invariant over the elements that have been visited.\<close>

lemma for_each_rule:
  assumes "I [] s" "\<And>us e vs s. es = us @ e # vs \<Longrightarrow> I us s \<Longrightarrow> \<exists>s1. f e s = Some s1 \<and> I (us @ [e]) s1"
  shows "\<exists>s1. for_each f es s = Some s1 \<and> I es s1"
proof -
  have "\<exists>s1. for_each f vs s = Some s1 \<and> I (us @ vs) s1" if "es = us @ vs" "I us s" for us vs s
    using that
  proof (induction vs arbitrary: us s)
    case (Cons e vs)
    from assms(2) [OF Cons.prems] obtain s1 where "f e s = Some s1" "I (us @ [e]) s1" by blast
    with Cons.IH [of "us @ [e]" s1] Cons.prems(1) show ?case by simp
  qed simp
  from this [of "[]" es s] assms(1) show ?thesis by simp
qed

lemma for_return_rule:
  assumes "I [] s"
    and "\<And>us e vs s. es = us @ e # vs \<Longrightarrow> I us s \<Longrightarrow> \<exists>r. f e s = Some r \<and> (case r of Inl err \<Rightarrow> Q err | Inr s1 \<Rightarrow> I (us @ [e]) s1)"
  shows "\<exists>r. for_return f es s = Some r \<and> (case r of Inl err \<Rightarrow> Q err | Inr s1 \<Rightarrow> I es s1)"
proof -
  have "\<exists>r. for_return f vs s = Some r \<and> (case r of Inl err \<Rightarrow> Q err | Inr s1 \<Rightarrow> I (us @ vs) s1)" if "es = us @ vs" "I us s" for us vs s
    using that
  proof (induction vs arbitrary: us s)
    case (Cons e vs)
    from assms(2) [OF Cons.prems] obtain r where r: "f e s = Some r" "case r of Inl err \<Rightarrow> Q err | Inr s1 \<Rightarrow> I (us @ [e]) s1" by blast
    show ?case
    proof (cases r)
      case (Inr s1)
      with r Cons.IH [of "us @ [e]" s1] Cons.prems(1) show ?thesis by (simp cong: sum.case_cong)
    qed (use r in simp)
  qed simp
  from this [of "[]" es s] assms(1) show ?thesis by (simp cong: sum.case_cong)
qed

section \<open>Model\<close>

subsection \<open>Data\<close>

text \<open>The fields that the analysis reads.\<close>

record DependencyEdge =
  ed_From :: addr
  ed_To :: addr
  ed_Weight :: int

record DependencyNode =
  nd_ID :: string
  nd_PackageRef :: PackageReference
  nd_RequiredBy :: "DependencyEdge list"
  nd_Dependencies :: "DependencyEdge list"

record DependencyGraph =
  gr_Nodes :: "(string, addr) fmap"
  gr_Edges :: "DependencyEdge list"
  gr_node :: "addr \<Rightarrow> DependencyNode"

abbreviation node_id :: "DependencyGraph \<Rightarrow> addr \<Rightarrow> string" where
  "node_id G a \<equiv> nd_ID (gr_node G a)"

abbreviation dependencies :: "DependencyGraph \<Rightarrow> addr \<Rightarrow> DependencyEdge list" where
  "dependencies G a \<equiv> nd_Dependencies (gr_node G a)"

text \<open>\<open>m[k]\<close> of a \<open>map[string]bool\<close>; \<open>for _, node := range graph.Nodes\<close> in a given order of the keys.\<close>

definition flag :: "(string, bool) fmap \<Rightarrow> string \<Rightarrow> bool" where
  "flag m k \<longleftrightarrow> fmlookup m k = Some True"

definition range_nodes :: "DependencyGraph \<Rightarrow> string list \<Rightarrow> addr list" where
  "range_nodes G order = List.map_filter (fmlookup (gr_Nodes G)) order"

subsection \<open>Topological order\<close>

record topo =
  tp_visited :: "(string, bool) fmap"
  tp_recStack :: "(string, bool) fmap"
  tp_result :: "addr list"

partial_function (option) topo_visit :: "DependencyGraph \<Rightarrow> addr \<Rightarrow> topo \<Rightarrow> (string + topo) option" where
  [code]: "topo_visit G node st =
     (if flag (tp_recStack st) (node_id G node) then Some (Inl (''circular dependency detected at node '' @ node_id G node))
      else if flag (tp_visited st) (node_id G node) then Some (Inr st)
      else Option.bind
        (for_return (\<lambda>edge. topo_visit G (ed_To edge)) (dependencies G node)
          (st\<lparr>tp_visited := fmupd (node_id G node) True (tp_visited st), tp_recStack := fmupd (node_id G node) True (tp_recStack st)\<rparr>))
        (\<lambda>r. Some (map_sum id (\<lambda>st1. st1\<lparr>tp_recStack := fmupd (node_id G node) False (tp_recStack st1), tp_result := node # tp_result st1\<rparr>) r)))"

definition topologicalSort :: "DependencyGraph \<Rightarrow> string list \<Rightarrow> (string + addr list) option" where
  "topologicalSort G order =
     map_option (map_sum id tp_result)
       (for_return (\<lambda>node st. if \<not> flag (tp_visited st) (node_id G node) then topo_visit G node st else Some (Inr st)) (range_nodes G order)
         \<lparr>tp_visited = fmempty, tp_recStack = fmempty, tp_result = []\<rparr>)"

subsection \<open>Connected components\<close>

text \<open>The closure \<open>dfs\<close> of \<open>detectCommunities\<close> on the map \<open>visited\<close> and the community so far.\<close>

partial_function (option) community_dfs :: "DependencyGraph \<Rightarrow> addr \<Rightarrow> (string, bool) fmap \<times> addr list \<Rightarrow> ((string, bool) fmap \<times> addr list) option" where
  [code]: "community_dfs G node st =
     (if flag (fst st) (node_id G node) then Some st
      else Option.bind
        (for_each (\<lambda>edge. community_dfs G (ed_To edge)) (dependencies G node) (fmupd (node_id G node) True (fst st), snd st @ [node]))
        (for_each (\<lambda>edge. community_dfs G (ed_From edge)) (nd_RequiredBy (gr_node G node))))"

definition detectCommunities :: "DependencyGraph \<Rightarrow> string list \<Rightarrow> addr list list option" where
  "detectCommunities G order =
     map_option snd
       (for_each (\<lambda>node st. if \<not> flag (fst st) (node_id G node)
          then map_option (\<lambda>(visited, community). (visited, if community \<noteq> [] then snd st @ [community] else snd st)) (community_dfs G node (fst st, []))
          else Some st) (range_nodes G order) (fmempty, []))"

subsection \<open>Critical path\<close>

definition int_at :: "(string, int) fmap \<Rightarrow> string \<Rightarrow> int" where
  "int_at m k = (case fmlookup m k of None \<Rightarrow> 0 | Some d \<Rightarrow> d)"

definition relax :: "DependencyGraph \<Rightarrow> addr \<Rightarrow> DependencyEdge \<Rightarrow> (string, int) fmap \<times> (string, addr) fmap \<Rightarrow> (string, int) fmap \<times> (string, addr) fmap" where
  "relax G node edge st =
     (let d = wrap64 (int_at (fst st) (node_id G node) + ed_Weight edge)
      in if int_at (fst st) (node_id G (ed_To edge)) < d
         then (fmupd (node_id G (ed_To edge)) d (fst st), fmupd (node_id G (ed_To edge)) node (snd st))
         else st)"

definition longest_paths :: "DependencyGraph \<Rightarrow> addr list \<Rightarrow> (string, int) fmap \<times> (string, addr) fmap \<Rightarrow> (string, int) fmap \<times> (string, addr) fmap" where
  "longest_paths G order = fold (\<lambda>node. fold (relax G node) (dependencies G node)) order"

definition farthest :: "DependencyGraph \<Rightarrow> (string, int) fmap \<Rightarrow> addr list \<Rightarrow> int \<times> addr option" where
  "farthest G dists nodes =
     fold (\<lambda>node (maxDist, endNode). if int_at dists (node_id G node) > maxDist then (int_at dists (node_id G node), Some node) else (maxDist, endNode)) nodes (0, None)"

text \<open>The loop that follows the predecessors; \<open>node\<close> is not nil.\<close>

partial_function (option) trace_back :: "DependencyGraph \<Rightarrow> (string, addr) fmap \<Rightarrow> addr \<Rightarrow> addr list \<Rightarrow> addr list option" where
  [code]: "trace_back G pred node path =
     (case fmlookup pred (node_id G node) of
        None \<Rightarrow> Some (node # path)
      | Some p \<Rightarrow> trace_back G pred p (node # path))"

text \<open>The three orders are those of the three iterations over the nodes.\<close>

definition findCriticalPath :: "DependencyGraph \<Rightarrow> string list \<Rightarrow> string list \<Rightarrow> string list \<Rightarrow> addr list option" where
  "findCriticalPath G order0 order1 order2 =
     (let dists0 = fold (\<lambda>node. fmupd (node_id G node) 0) (range_nodes G order0) fmempty
      in Option.bind (topologicalSort G order1) (\<lambda>r.
           case r of
             Inl err \<Rightarrow> Some []
           | Inr order \<Rightarrow>
               (case longest_paths G order (dists0, fmempty) of
                  (dists, pred) \<Rightarrow>
                    (case snd (farthest G dists (range_nodes G order2)) of
                       None \<Rightarrow> Some []
                     | Some endNode \<Rightarrow> trace_back G pred endNode []))))"

subsection \<open>Depth\<close>

partial_function (option) calculateDependencyDepth :: "DependencyGraph \<Rightarrow> addr \<Rightarrow> int \<Rightarrow> (string, bool) fmap \<Rightarrow> ((string, bool) fmap \<times> int) option" where
  [code]: "calculateDependencyDepth G node depth visited =
     (if flag visited (node_id G node) then Some (visited, depth)
      else for_each (\<lambda>edge st. Option.bind (calculateDependencyDepth G (ed_To edge) (depth + 1) (fst st))
             (\<lambda>vd. Some (fst vd, if snd vd > snd st then snd vd else snd st)))
           (dependencies G node) (fmupd (node_id G node) True visited, depth))"

section \<open>Well-formed graphs\<close>

definition nodes :: "DependencyGraph \<Rightarrow> addr set" where
  "nodes G = {a. \<exists>k. fmlookup (gr_Nodes G) k = Some a}"

definition deps :: "DependencyGraph \<Rightarrow> (addr \<times> addr) set" where
  "deps G = {(a, ed_To e) | a e. a \<in> nodes G \<and> e \<in> set (dependencies G a)}"

text \<open>Every node is stored under its identifier, and the dependencies of nodes are nodes.\<close>

definition graph_ok :: "DependencyGraph \<Rightarrow> bool" where
  "graph_ok G \<longleftrightarrow> (\<forall>k a. fmlookup (gr_Nodes G) k = Some a \<longrightarrow> node_id G a = k) \<and> deps G \<subseteq> nodes G \<times> nodes G"

lemma nodes_finite [simp]: "finite (nodes G)"
proof -
  have "nodes G = fset (fmran (gr_Nodes G))" by (auto simp: nodes_def fmlookup_ran_iff)
  then show ?thesis by simp
qed

lemma node_id_eq: "graph_ok G \<Longrightarrow> a \<in> nodes G \<Longrightarrow> b \<in> nodes G \<Longrightarrow> node_id G a = node_id G b \<longleftrightarrow> a = b"
  by (auto simp: graph_ok_def nodes_def)

lemma deps_closed: "graph_ok G \<Longrightarrow> (a, b) \<in> deps G \<Longrightarrow> a \<in> nodes G \<and> b \<in> nodes G"
  by (auto simp: graph_ok_def)

lemma deps_iff: "a \<in> nodes G \<Longrightarrow> (a, b) \<in> deps G \<longleftrightarrow> b \<in> ed_To ` set (dependencies G a)"
  by (auto simp: deps_def)

lemma dep_node: "graph_ok G \<Longrightarrow> a \<in> nodes G \<Longrightarrow> e \<in> set (dependencies G a) \<Longrightarrow> ed_To e \<in> nodes G"
  using deps_closed [of G a "ed_To e"] by (auto simp: deps_iff)

lemma deps_rtrancl_closed: "(a, b) \<in> (deps G)\<^sup>* \<Longrightarrow> graph_ok G \<Longrightarrow> a \<in> nodes G \<Longrightarrow> b \<in> nodes G"
  by (induction rule: rtrancl_induct) (auto dest: deps_closed)

lemma set_range_nodes:
  assumes "ranges_over (gr_Nodes G) order" shows "set (range_nodes G order) = nodes G"
proof -
  have "k \<in> set order" if "fmlookup (gr_Nodes G) k = Some a" for k a
    using assms that by (metis fmdomI fset_of_list_elem ranges_over_def)
  then show ?thesis by (force simp: range_nodes_def nodes_def List.map_filter_def image_iff)
qed

section \<open>The topological order is correct\<close>

text \<open>The marked nodes.\<close>

definition marked :: "DependencyGraph \<Rightarrow> (string, bool) fmap \<Rightarrow> addr set" where
  "marked G m = {a \<in> nodes G. flag m (node_id G a)}"

lemma marked_upd: "graph_ok G \<Longrightarrow> a \<in> nodes G \<Longrightarrow> marked G (fmupd (node_id G a) b m) = (if b then insert a (marked G m) else marked G m - {a})"
  by (auto simp: marked_def flag_def node_id_eq)

lemma marked_empty [simp]: "marked G fmempty = {}"
  by (simp add: marked_def flag_def)

lemma marked_nodes: "marked G m \<subseteq> nodes G"
  by (auto simp: marked_def)

lemma marked_iff: "a \<in> nodes G \<Longrightarrow> a \<in> marked G m \<longleftrightarrow> flag m (node_id G a)"
  by (simp add: marked_def)

lemma unmarked_less: "a \<in> nodes G \<Longrightarrow> a \<notin> marked G m \<Longrightarrow> insert a (marked G m) \<subseteq> marked G m1 \<Longrightarrow> card (nodes G - marked G m1) < card (nodes G - marked G m)"
  by (intro psubset_card_mono) auto

text \<open>Every node of the list comes before its dependencies, which are all in the list.\<close>

fun deps_later :: "DependencyGraph \<Rightarrow> addr list \<Rightarrow> bool" where
  "deps_later G [] \<longleftrightarrow> True"
| "deps_later G (a # as) \<longleftrightarrow> deps G `` {a} \<subseteq> set as \<and> deps_later G as"

definition topo_inv :: "DependencyGraph \<Rightarrow> topo \<Rightarrow> bool" where
  "topo_inv G st \<longleftrightarrow> marked G (tp_recStack st) \<subseteq> marked G (tp_visited st)
     \<and> set (tp_result st) = marked G (tp_visited st) - marked G (tp_recStack st) \<and> distinct (tp_result st) \<and> deps_later G (tp_result st)"

definition topo_post :: "DependencyGraph \<Rightarrow> topo \<Rightarrow> addr set \<Rightarrow> string + topo \<Rightarrow> bool" where
  "topo_post G st new r \<longleftrightarrow> (case r of
       Inl _ \<Rightarrow> \<not> acyclic (deps G)
     | Inr st1 \<Rightarrow> topo_inv G st1 \<and> marked G (tp_visited st) \<subseteq> marked G (tp_visited st1) \<and> marked G (tp_recStack st1) = marked G (tp_recStack st)
         \<and> new \<subseteq> marked G (tp_visited st1) - marked G (tp_recStack st))"

lemma topo_visit_spec:
  assumes "graph_ok G" "a \<in> nodes G" "topo_inv G st" "\<forall>r \<in> marked G (tp_recStack st). (r, a) \<in> (deps G)\<^sup>+"
  shows "\<exists>r. topo_visit G a st = Some r \<and> topo_post G st {a} r"
  using assms(2-4)
proof (induction "card (nodes G - marked G (tp_visited st))" arbitrary: a st rule: less_induct)
  case less
  note a = marked_iff [OF less.prems(1)]
  consider (cycle) "a \<in> marked G (tp_recStack st)" | (seen) "a \<notin> marked G (tp_recStack st)" "a \<in> marked G (tp_visited st)"
    | (new) "a \<notin> marked G (tp_recStack st)" "a \<notin> marked G (tp_visited st)" by blast
  then show ?case
  proof cases
    case cycle
    then have "(a, a) \<in> (deps G)\<^sup>+" using less.prems(3) by blast
    then have "\<not> acyclic (deps G)" by (auto simp: acyclic_def)
    then show ?thesis using cycle a by (subst topo_visit.simps) (simp add: topo_post_def)
  next
    case seen
    then show ?thesis using a less.prems(2) by (subst topo_visit.simps) (simp add: topo_post_def)
  next
    case new
    let ?st = "st\<lparr>tp_visited := fmupd (node_id G a) True (tp_visited st), tp_recStack := fmupd (node_id G a) True (tp_recStack st)\<rparr>"
    have st: "marked G (tp_visited ?st) = insert a (marked G (tp_visited st))" "marked G (tp_recStack ?st) = insert a (marked G (tp_recStack st))"
      using assms(1) less.prems(1) by (simp_all add: marked_upd)
    have inv: "topo_inv G ?st" using less.prems(2) st new by (auto simp: topo_inv_def)
    have call: "\<exists>r. topo_visit G (ed_To e) st1 = Some r \<and> topo_post G st1 {ed_To e} r"
      if "topo_post G ?st new1 (Inr st1)" "e \<in> set (dependencies G a)" for e st1 new1
    proof -
      have edge: "(a, ed_To e) \<in> deps G" using that(2) less.prems(1) by (simp add: deps_iff)
      have "(r, ed_To e) \<in> (deps G)\<^sup>+" if "r \<in> marked G (tp_recStack st1)" for r
        using that less.prems(3) edge \<open>topo_post G ?st new1 (Inr st1)\<close> st(2) by (auto simp: topo_post_def intro: trancl_into_trancl)
      with that(1) edge show ?thesis
        by (intro less.hyps unmarked_less [OF less.prems(1) new(2)]) (use assms(1) st deps_closed in \<open>auto simp: topo_post_def\<close>)
    qed
    have "\<exists>r. for_return (\<lambda>e. topo_visit G (ed_To e)) (dependencies G a) ?st = Some r
      \<and> (case r of Inl _ \<Rightarrow> \<not> acyclic (deps G) | Inr st1 \<Rightarrow> topo_post G ?st (ed_To ` set (dependencies G a)) (Inr st1))"
    proof (rule for_return_rule)
      fix us e vs st1 assume split: "dependencies G a = us @ e # vs" "topo_post G ?st (ed_To ` set us) (Inr st1)"
      with call [OF split(2), of e] obtain r where r: "topo_visit G (ed_To e) st1 = Some r" "topo_post G st1 {ed_To e} r" by auto
      show "\<exists>r. topo_visit G (ed_To e) st1 = Some r \<and> (case r of Inl _ \<Rightarrow> \<not> acyclic (deps G) | Inr st2 \<Rightarrow> topo_post G ?st (ed_To ` set (us @ [e])) (Inr st2))"
        using r split(2) by (auto simp: topo_post_def split: sum.splits)
    qed (use inv in \<open>simp add: topo_post_def\<close>)
    then obtain r where run: "for_return (\<lambda>e. topo_visit G (ed_To e)) (dependencies G a) ?st = Some r"
      and r: "case r of Inl _ \<Rightarrow> \<not> acyclic (deps G) | Inr st1 \<Rightarrow> topo_post G ?st (ed_To ` set (dependencies G a)) (Inr st1)" by blast
    show ?thesis
    proof (cases r)
      case (Inl err)
      then show ?thesis using run r new a by (subst topo_visit.simps) (simp add: topo_post_def)
    next
      case (Inr st1)
      have "deps G `` {a} = ed_To ` set (dependencies G a)" using deps_iff [OF less.prems(1)] by auto
      moreover have "a \<notin> set (tp_result st1)" "marked G (tp_recStack st1) = insert a (marked G (tp_recStack st))"
        using r Inr st by (auto simp: topo_post_def topo_inv_def)
      ultimately have "topo_post G st {a} (Inr (st1\<lparr>tp_recStack := fmupd (node_id G a) False (tp_recStack st1), tp_result := a # tp_result st1\<rparr>))"
        using r Inr st new less.prems(1) assms(1) by (auto simp: topo_post_def topo_inv_def marked_upd)
      then show ?thesis using run new a Inr by (subst topo_visit.simps) simp
    qed
  qed
qed

lemma deps_later_closed: "deps_later G L \<Longrightarrow> a \<in> set L \<Longrightarrow> (a, b) \<in> deps G \<Longrightarrow> b \<in> set L"
  by (induction L) auto

lemma deps_later_nth:
  "deps_later G L \<Longrightarrow> distinct L \<Longrightarrow> i < length L \<Longrightarrow> j < length L \<Longrightarrow> (L ! i, L ! j) \<in> deps G \<Longrightarrow> i < j"
proof (induction L arbitrary: i j)
  case (Cons a L)
  show ?case
  proof (cases i)
    case 0
    with Cons.prems have "(a, (a # L) ! j) \<in> deps G" by simp
    with Cons.prems(1) have "(a # L) ! j \<in> set L" by auto
    with Cons.prems(2) 0 show ?thesis by (cases j) auto
  next
    case (Suc i')
    with Cons.prems have "L ! i' \<in> set L" by simp
    then have "deps G `` {L ! i'} \<subseteq> set L" using deps_later_closed [of G L "L ! i'"] Cons.prems(1) by auto
    then show ?thesis using Cons Suc by (cases j) auto
  qed
qed simp

lemma deps_later_acyclic:
  assumes "graph_ok G" "deps_later G L" "distinct L" "set L = nodes G"
  shows "acyclic (deps G)"
proof -
  let ?p = "\<lambda>a. length (takeWhile (\<lambda>b. b \<noteq> a) L)"
  have p: "?p a < length L \<and> L ! ?p a = a" if a: "a \<in> nodes G" for a
  proof -
    obtain us vs where us: "L = us @ a # vs" "a \<notin> set us" using split_list_first [of a L] a assms(4) by auto
    then have "takeWhile (\<lambda>b. b \<noteq> a) us = us" by (auto simp: takeWhile_eq_all_conv)
    with us show ?thesis by (simp add: takeWhile_append)
  qed
  have "deps G \<subseteq> measure ?p"
  proof (rule subrelI)
    fix a b assume ab: "(a, b) \<in> deps G"
    then have "a \<in> nodes G" "b \<in> nodes G" using deps_closed [OF assms(1)] by auto
    with ab deps_later_nth [OF assms(2,3), of "?p a" "?p b"] p show "(a, b) \<in> measure ?p" by simp
  qed
  then show ?thesis using acyclic_subset wf_acyclic wf_measure by blast
qed

lemma topologicalSort_spec:
  assumes "graph_ok G" "ranges_over (gr_Nodes G) order"
  shows "\<exists>r. topologicalSort G order = Some r \<and> (case r of Inl _ \<Rightarrow> \<not> acyclic (deps G)
    | Inr L \<Rightarrow> distinct L \<and> set L = nodes G \<and> deps_later G L)"
proof -
  let ?st = "\<lparr>tp_visited = fmempty, tp_recStack = fmempty, tp_result = []\<rparr>"
  let ?f = "\<lambda>node st. if \<not> flag (tp_visited st) (node_id G node) then topo_visit G node st else Some (Inr st)"
  have "\<exists>r. for_return ?f (range_nodes G order) ?st = Some r
    \<and> (case r of Inl _ \<Rightarrow> \<not> acyclic (deps G) | Inr st1 \<Rightarrow> topo_post G ?st (set (range_nodes G order)) (Inr st1))"
  proof (rule for_return_rule)
    fix us a vs st assume split: "range_nodes G order = us @ a # vs" "topo_post G ?st (set us) (Inr st)"
    then have a: "a \<in> nodes G" using set_range_nodes [OF assms(2)] by auto
    show "\<exists>r. ?f a st = Some r \<and> (case r of Inl _ \<Rightarrow> \<not> acyclic (deps G) | Inr st1 \<Rightarrow> topo_post G ?st (set (us @ [a])) (Inr st1))"
    proof (cases "flag (tp_visited st) (node_id G a)")
      case True
      then show ?thesis using split(2) marked_iff [OF a] by (simp add: topo_post_def)
    next
      case False
      have "\<exists>r. topo_visit G a st = Some r \<and> topo_post G st {a} r"
        by (rule topo_visit_spec [OF assms(1) a]) (use split(2) in \<open>auto simp: topo_post_def\<close>)
      then obtain r where "topo_visit G a st = Some r" "topo_post G st {a} r" by blast
      then show ?thesis using False split(2) by (auto simp: topo_post_def split: sum.splits)
    qed
  qed (simp add: topo_post_def topo_inv_def)
  then obtain r where "for_return ?f (range_nodes G order) ?st = Some r"
    "case r of Inl _ \<Rightarrow> \<not> acyclic (deps G) | Inr st1 \<Rightarrow> topo_post G ?st (set (range_nodes G order)) (Inr st1)" by blast
  then show ?thesis using marked_nodes [of G] set_range_nodes [OF assms(2)]
    by (cases r) (auto simp: topologicalSort_def topo_post_def topo_inv_def)
qed

text \<open>C31: On every well-formed graph \<open>topologicalSort\<close> returns, whatever the order of the iteration: an error if the graph has a cycle, self-loops
  included, and otherwise each node once, before all its dependencies.\<close>

theorem topologicalSort_correct:
  assumes "graph_ok G" "ranges_over (gr_Nodes G) order"
  shows "if acyclic (deps G)
         then \<exists>L. topologicalSort G order = Some (Inr L) \<and> distinct L \<and> set L = nodes G
            \<and> (\<forall>i j. i < length L \<and> j < length L \<and> (L ! i, L ! j) \<in> deps G \<longrightarrow> i < j)
         else \<exists>err. topologicalSort G order = Some (Inl err)"
proof -
  obtain r where r: "topologicalSort G order = Some r"
    "case r of Inl _ \<Rightarrow> \<not> acyclic (deps G) | Inr L \<Rightarrow> distinct L \<and> set L = nodes G \<and> deps_later G L" using topologicalSort_spec [OF assms] by blast
  show ?thesis
  proof (cases r)
    case (Inr L)
    with r(2) deps_later_acyclic [OF assms(1), of L] have "acyclic (deps G)" by simp
    moreover have "\<forall>i j. i < length L \<and> j < length L \<and> (L ! i, L ! j) \<in> deps G \<longrightarrow> i < j" using r(2) Inr deps_later_nth by auto
    ultimately show ?thesis using r Inr by simp
  qed (use r in simp)
qed

section \<open>The communities are the connected components\<close>

text \<open>The edges that \<open>detectCommunities\<close> follows.\<close>

definition links :: "DependencyGraph \<Rightarrow> (addr \<times> addr) set" where
  "links G = deps G \<union> {(a, ed_From e) | a e. a \<in> nodes G \<and> e \<in> set (nd_RequiredBy (gr_node G a))}"

text \<open>The field \<open>RequiredBy\<close> holds the edges to a node.\<close>

definition required_ok :: "DependencyGraph \<Rightarrow> bool" where
  "required_ok G \<longleftrightarrow> (\<forall>a \<in> nodes G. ed_From ` set (nd_RequiredBy (gr_node G a)) = {b. (b, a) \<in> deps G})"

lemma links_eq: "graph_ok G \<Longrightarrow> required_ok G \<Longrightarrow> links G = deps G \<union> (deps G)\<inverse>"
  by (fastforce simp: links_def required_ok_def dest: deps_closed)

lemma links_iff:
  "a \<in> nodes G \<Longrightarrow> (a, b) \<in> links G \<longleftrightarrow> b \<in> ed_To ` set (dependencies G a) \<union> ed_From ` set (nd_RequiredBy (gr_node G a))"
  by (auto simp: links_def deps_iff)

definition comm_post :: "DependencyGraph \<Rightarrow> addr \<Rightarrow> (string, bool) fmap \<times> addr list \<Rightarrow> (string, bool) fmap \<times> addr list \<Rightarrow> bool" where
  "comm_post G a st s \<longleftrightarrow> insert a (marked G (fst st)) \<subseteq> marked G (fst s)
     \<and> (\<exists>new. snd s = snd st @ new \<and> set new = marked G (fst s) - marked G (fst st) \<and> distinct new)
     \<and> (\<forall>b \<in> marked G (fst s) - marked G (fst st). (a, b) \<in> (links G)\<^sup>* \<and> links G `` {b} \<subseteq> marked G (fst s))"

text \<open>In the loops of \<open>a\<close>, when the nodes of \<open>T\<close> have been followed.\<close>

definition comm_mid :: "DependencyGraph \<Rightarrow> addr \<Rightarrow> (string, bool) fmap \<times> addr list \<Rightarrow> addr set \<Rightarrow> (string, bool) fmap \<times> addr list \<Rightarrow> bool" where
  "comm_mid G a st T s \<longleftrightarrow> insert a (marked G (fst st)) \<union> T \<subseteq> marked G (fst s)
     \<and> (\<exists>new. snd s = snd st @ new \<and> set new = marked G (fst s) - marked G (fst st) \<and> distinct new)
     \<and> (\<forall>b \<in> marked G (fst s) - marked G (fst st) - {a}. (a, b) \<in> (links G)\<^sup>* \<and> links G `` {b} \<subseteq> marked G (fst s))"

lemma comm_mid_step:
  assumes "comm_mid G a st T s" "(a, b) \<in> links G" "comm_post G b s s1"
  shows "comm_mid G a st (insert b T) s1"
proof -
  obtain new where new: "snd s = snd st @ new" "set new = marked G (fst s) - marked G (fst st)" "distinct new"
    using assms(1) by (auto simp: comm_mid_def)
  obtain new1 where new1: "snd s1 = snd s @ new1" "set new1 = marked G (fst s1) - marked G (fst s)" "distinct new1"
    using assms(3) by (auto simp: comm_post_def)
  have "snd s1 = snd st @ new @ new1 \<and> set (new @ new1) = marked G (fst s1) - marked G (fst st) \<and> distinct (new @ new1)"
    using new new1 assms(1,3) by (auto simp: comm_mid_def comm_post_def)
  moreover have "(a, c) \<in> (links G)\<^sup>* \<and> links G `` {c} \<subseteq> marked G (fst s1)" if "c \<in> marked G (fst s1) - marked G (fst st) - {a}" for c
  proof (cases "c \<in> marked G (fst s)")
    case True
    then have "c \<in> marked G (fst s) - marked G (fst st) - {a}" using that by simp
    then have "(a, c) \<in> (links G)\<^sup>* \<and> links G `` {c} \<subseteq> marked G (fst s)" using assms(1) unfolding comm_mid_def by blast
    then show ?thesis using assms(3) unfolding comm_post_def by blast
  next
    case False
    then have "(b, c) \<in> (links G)\<^sup>* \<and> links G `` {c} \<subseteq> marked G (fst s1)" using that assms(3) unfolding comm_post_def by blast
    then show ?thesis using assms(2) by (simp add: converse_rtrancl_into_rtrancl)
  qed
  moreover have "insert a (marked G (fst st)) \<union> insert b T \<subseteq> marked G (fst s1)" using assms(1,3) unfolding comm_mid_def comm_post_def by blast
  ultimately show ?thesis unfolding comm_mid_def by (intro conjI exI [of _ "new @ new1"] ballI) auto
qed

lemma community_dfs_spec:
  assumes "graph_ok G" "required_ok G" "a \<in> nodes G"
  shows "\<exists>s. community_dfs G a st = Some s \<and> comm_post G a st s"
  using assms(3)
proof (induction "card (nodes G - marked G (fst st))" arbitrary: a st rule: less_induct)
  case less
  note a = marked_iff [OF less.prems]
  show ?case
  proof (cases "a \<in> marked G (fst st)")
    case True
    then show ?thesis using a by (subst community_dfs.simps) (auto simp: comm_post_def)
  next
    case False
    let ?st = "(fmupd (node_id G a) True (fst st), snd st @ [a])"
    have call: "\<exists>s1. community_dfs G b s = Some s1 \<and> comm_mid G a st (insert b T) s1" if "comm_mid G a st T s" "(a, b) \<in> links G" for b T s
    proof -
      have "b \<in> nodes G" using that(2) deps_closed [OF assms(1)] by (auto simp: links_eq [OF assms(1,2)])
      moreover have "card (nodes G - marked G (fst s)) < card (nodes G - marked G (fst st))"
        using that(1) by (intro unmarked_less [OF less.prems False]) (simp add: comm_mid_def)
      ultimately show ?thesis using less.hyps [of s b] comm_mid_step [OF that] by blast
    qed
    have start: "comm_mid G a st {} ?st" using assms(1) less.prems False by (auto simp: comm_mid_def marked_upd)
    have "\<exists>s. for_each (\<lambda>e. community_dfs G (ed_To e)) (dependencies G a) ?st = Some s \<and> comm_mid G a st (ed_To ` set (dependencies G a)) s"
    proof (rule for_each_rule)
      fix us e vs s assume "dependencies G a = us @ e # vs" "comm_mid G a st (ed_To ` set us) s"
      then show "\<exists>s1. community_dfs G (ed_To e) s = Some s1 \<and> comm_mid G a st (ed_To ` set (us @ [e])) s1"
        using call [of "ed_To ` set us" s "ed_To e"] links_iff [OF less.prems] by simp
    qed (use start in simp)
    then obtain s where s: "for_each (\<lambda>e. community_dfs G (ed_To e)) (dependencies G a) ?st = Some s"
      "comm_mid G a st (ed_To ` set (dependencies G a)) s" by blast
    have "\<exists>s1. for_each (\<lambda>e. community_dfs G (ed_From e)) (nd_RequiredBy (gr_node G a)) s = Some s1
      \<and> comm_mid G a st (ed_To ` set (dependencies G a) \<union> ed_From ` set (nd_RequiredBy (gr_node G a))) s1"
    proof (rule for_each_rule)
      fix us e vs s assume "nd_RequiredBy (gr_node G a) = us @ e # vs" "comm_mid G a st (ed_To ` set (dependencies G a) \<union> ed_From ` set us) s"
      then show "\<exists>s1. community_dfs G (ed_From e) s = Some s1 \<and> comm_mid G a st (ed_To ` set (dependencies G a) \<union> ed_From ` set (us @ [e])) s1"
        using call [of "ed_To ` set (dependencies G a) \<union> ed_From ` set us" s "ed_From e"] links_iff [OF less.prems] by simp
    qed (use s(2) in simp)
    moreover have "ed_To ` set (dependencies G a) \<union> ed_From ` set (nd_RequiredBy (gr_node G a)) = links G `` {a}" using links_iff [OF less.prems] by auto
    ultimately obtain s1 where s1: "for_each (\<lambda>e. community_dfs G (ed_From e)) (nd_RequiredBy (gr_node G a)) s = Some s1"
      "comm_mid G a st (links G `` {a}) s1" by metis
    then have "comm_post G a st s1" unfolding comm_mid_def comm_post_def by auto
    then show ?thesis using False a s(1) s1(1) by (subst community_dfs.simps) auto
  qed
qed

definition comms_inv :: "DependencyGraph \<Rightarrow> addr set \<Rightarrow> (string, bool) fmap \<times> addr list list \<Rightarrow> bool" where
  "comms_inv G T st \<longleftrightarrow> T \<subseteq> marked G (fst st) \<and> links G `` marked G (fst st) \<subseteq> marked G (fst st)
     \<and> set (concat (snd st)) = marked G (fst st) \<and> distinct (concat (snd st))
     \<and> (\<forall>c \<in> set (snd st). c \<noteq> [] \<and> (\<forall>a \<in> set c. set c = (links G)\<^sup>* `` {a}))"

lemma comm_component:
  assumes "sym (links G)" "links G `` marked G m \<subseteq> marked G m" "a \<notin> marked G m" "comm_post G a (m, []) s"
  shows "\<forall>b \<in> set (snd s). set (snd s) = (links G)\<^sup>* `` {b}" "snd s \<noteq> []"
    "set (snd s) = marked G (fst s) - marked G m" "distinct (snd s)" "links G `` marked G (fst s) \<subseteq> marked G (fst s)" "insert a (marked G m) \<subseteq> marked G (fst s)"
proof -
  show new: "set (snd s) = marked G (fst s) - marked G m" and "distinct (snd s)" using assms(4) by (auto simp: comm_post_def)
  have pulled: "b \<in> marked G m" if "c \<in> marked G m" "(b, c) \<in> links G" for b c using that assms(1,2) by (auto dest: symD)
  show more: "insert a (marked G m) \<subseteq> marked G (fst s)" using assms(4) by (simp add: comm_post_def)
  then show "snd s \<noteq> []" using new assms(3) by auto
  show closed: "links G `` marked G (fst s) \<subseteq> marked G (fst s)"
  proof
    fix c assume "c \<in> links G `` marked G (fst s)"
    then obtain b where b: "b \<in> marked G (fst s)" "(b, c) \<in> links G" by blast
    show "c \<in> marked G (fst s)"
    proof (cases "b \<in> marked G m")
      case True
      then show ?thesis using b(2) assms(2) more by blast
    next
      case False
      then have "links G `` {b} \<subseteq> marked G (fst s)" using b(1) assms(4) by (simp add: comm_post_def)
      then show ?thesis using b(2) by blast
    qed
  qed
  have "b \<in> set (snd s)" if "(a, b) \<in> (links G)\<^sup>*" for b using that
  proof (induction rule: rtrancl_induct)
    case (step b c)
    then have "c \<in> marked G (fst s)" using closed new by auto
    with step pulled new show ?case by auto
  qed (use new more assms(3) in auto)
  then have all: "set (snd s) = (links G)\<^sup>* `` {a}" using assms(4) new by (auto simp: comm_post_def)
  have eq: "(links G)\<^sup>* `` {b} = (links G)\<^sup>* `` {a}" if "b \<in> set (snd s)" for b
  proof -
    have ab: "(a, b) \<in> (links G)\<^sup>*" using that all by auto
    then have "(b, a) \<in> (links G)\<^sup>*" by (rule symD [OF sym_rtrancl [OF assms(1)]])
    then have "(b, c) \<in> (links G)\<^sup>* \<longleftrightarrow> (a, c) \<in> (links G)\<^sup>*" for c using ab rtrancl_trans by metis
    then show ?thesis by auto
  qed
  show "\<forall>b \<in> set (snd s). set (snd s) = (links G)\<^sup>* `` {b}"
  proof
    fix b assume "b \<in> set (snd s)"
    from trans [OF all eq [OF this, symmetric]] show "set (snd s) = (links G)\<^sup>* `` {b}" .
  qed
qed

lemma detectCommunities_spec:
  assumes "graph_ok G" "required_ok G" "ranges_over (gr_Nodes G) order"
  shows "\<exists>cs. detectCommunities G order = Some cs \<and> distinct (concat cs) \<and> set (concat cs) = nodes G
    \<and> (\<forall>c \<in> set cs. c \<noteq> [] \<and> (\<forall>a \<in> set c. set c = (deps G \<union> (deps G)\<inverse>)\<^sup>* `` {a}))"
proof -
  have sym: "sym (links G)" by (auto simp: links_eq [OF assms(1,2)] sym_def)
  let ?f = "\<lambda>node st. if \<not> flag (fst st) (node_id G node)
          then map_option (\<lambda>(visited, community). (visited, if community \<noteq> [] then snd st @ [community] else snd st)) (community_dfs G node (fst st, []))
          else Some st"
  have "\<exists>st. for_each ?f (range_nodes G order) (fmempty, []) = Some st \<and> comms_inv G (set (range_nodes G order)) st"
  proof (rule for_each_rule)
    fix us a vs st assume split: "range_nodes G order = us @ a # vs" and inv: "comms_inv G (set us) st"
    have a: "a \<in> nodes G" using split set_range_nodes [OF assms(3)] by auto
    show "\<exists>st1. ?f a st = Some st1 \<and> comms_inv G (set (us @ [a])) st1"
    proof (cases "a \<in> marked G (fst st)")
      case True
      then show ?thesis using inv marked_iff [OF a] by (simp add: comms_inv_def)
    next
      case False
      obtain s where s: "community_dfs G a (fst st, []) = Some s" "comm_post G a (fst st, []) s" using community_dfs_spec [OF assms(1,2) a] by blast
      have closed: "links G `` marked G (fst st) \<subseteq> marked G (fst st)" using inv by (simp add: comms_inv_def)
      note comp = comm_component [OF sym closed False s(2)]
      have "comms_inv G (set (us @ [a])) (fst s, snd st @ [snd s])" using inv comp unfolding comms_inv_def by auto
      then show ?thesis using False marked_iff [OF a] s(1) comp(2) by (simp add: case_prod_beta)
    qed
  qed (simp add: comms_inv_def)
  then obtain st where st: "for_each ?f (range_nodes G order) (fmempty, []) = Some st" "comms_inv G (set (range_nodes G order)) st" by blast
  have "marked G (fst st) = nodes G" using st(2) marked_nodes [of G "fst st"] set_range_nodes [OF assms(3)] by (auto simp: comms_inv_def)
  then show ?thesis using st by (simp add: detectCommunities_def comms_inv_def links_eq [OF assms(1,2)])
qed

text \<open>C33: On a well-formed graph whose \<open>RequiredBy\<close> fields mirror the dependencies \<open>detectCommunities\<close> returns, and its communities are the
  connected components: every node is in exactly one of them, and each is the set of nodes connected with any of its members.\<close>

theorem detectCommunities_components:
  assumes "graph_ok G" "required_ok G" "ranges_over (gr_Nodes G) order"
  shows "\<exists>cs. detectCommunities G order = Some cs \<and> distinct (concat cs) \<and> set (concat cs) = nodes G
    \<and> (\<forall>c \<in> set cs. c \<noteq> [] \<and> (\<forall>a \<in> set c. set c = (deps G \<union> (deps G)\<inverse>)\<^sup>* `` {a}))"
  using detectCommunities_spec [OF assms] .

section \<open>A sample graph\<close>

text \<open>Four packages: \<open>a\<close> depends on \<open>b\<close> and \<open>c\<close>, \<open>c\<close> on \<open>b\<close>, and \<open>b\<close> on \<open>d\<close>.\<close>

definition sample_edge :: "addr \<Rightarrow> addr \<Rightarrow> DependencyEdge" where
  "sample_edge a b = \<lparr>ed_From = a, ed_To = b, ed_Weight = 1\<rparr>"

definition sample_node :: "string \<Rightarrow> addr \<Rightarrow> addr list \<Rightarrow> addr list \<Rightarrow> DependencyNode" where
  "sample_node name a requiredBy dependsOn = \<lparr>nd_ID = name, nd_PackageRef = \<lparr>rf_Repository = ''catalog'', rf_PackageName = name, rf_Revision = ''v1''\<rparr>,
     nd_RequiredBy = map (\<lambda>b. sample_edge b a) requiredBy, nd_Dependencies = map (sample_edge a) dependsOn\<rparr>"

definition diamond :: DependencyGraph where
  "diamond = \<lparr>gr_Nodes = fmap_of_list [(''a'', 0), (''b'', 1), (''c'', 2), (''d'', 3)],
     gr_Edges = [sample_edge 0 1, sample_edge 0 2, sample_edge 2 1, sample_edge 1 3],
     gr_node = (\<lambda>a. if a = 0 then sample_node ''a'' 0 [] [1, 2] else if a = 1 then sample_node ''b'' 1 [0, 2] [3]
       else if a = 2 then sample_node ''c'' 2 [0] [1] else sample_node ''d'' 3 [1] [])\<rparr>"

definition diamond_order :: "string list" where
  "diamond_order = [''a'', ''b'', ''c'', ''d'']"

lemma diamond_nodes: "nodes diamond = {0, 1, 2, 3}"
proof -
  have "nodes diamond = ran (map_of [(''a'', 0), (''b'', 1), (''c'', 2), (''d'', 3)])"
    by (simp only: nodes_def ran_def diamond_def DependencyGraph.select_convs fmlookup_of_list)
  also have "\<dots> = {0, 1, 2, 3}" by (subst ran_distinct) auto
  finally show ?thesis .
qed

lemma deps_image: "deps G = (\<Union>a \<in> nodes G. (\<lambda>e. (a, ed_To e)) ` set (dependencies G a))"
  by (auto simp: deps_def)

lemma diamond_deps: "deps diamond = {(0, 1), (0, 2), (2, 1), (1, 3)}"
  unfolding deps_image by (simp add: diamond_nodes) (auto simp: diamond_def sample_node_def sample_edge_def)

lemma diamond_ok: "graph_ok diamond" "required_ok diamond" "ranges_over (gr_Nodes diamond) diamond_order"
proof -
  show "graph_ok diamond" unfolding graph_ok_def diamond_deps diamond_nodes
    by (auto simp: diamond_def fmlookup_of_list sample_node_def split: if_splits)
  show "required_ok diamond" unfolding required_ok_def diamond_nodes diamond_deps
    by (auto simp: diamond_def sample_node_def sample_edge_def)
  show "ranges_over (gr_Nodes diamond) diamond_order"
    by (simp add: ranges_over_def diamond_def diamond_order_def fmdom_of_list)
qed

theorem topologicalSort_correct_witness:
  "acyclic (deps diamond) \<and> topologicalSort diamond diamond_order = Some (Inr [0, 2, 1, 3])"
proof -
  have run: "topologicalSort diamond diamond_order = Some (Inr [0, 2, 1, 3])" by code_simp
  then show ?thesis using topologicalSort_correct [OF diamond_ok(1,3)] by (auto split: if_splits)
qed

theorem detectCommunities_components_witness:
  "detectCommunities diamond diamond_order = Some [[0, 1, 3, 2]] \<and> {0, 1, 3, 2} = (deps diamond \<union> (deps diamond)\<inverse>)\<^sup>* `` {0}"
proof -
  have run: "detectCommunities diamond diamond_order = Some [[0, 1, 3, 2]]" by code_simp
  then show ?thesis using detectCommunities_components [OF diamond_ok] by (auto simp del: rtrancl_reflcl)
qed

end
