(* ===== verification/Tarjan_SCC.thy ===== *)
theory Tarjan_SCC
  imports Dependency_Graph
begin

text \<open>
  \<open>findStronglyConnectedComponents\<close> of \<open>pkg/nephio/porch/dependency_graph_analyzer.go\<close>, Tarjan's algorithm, is correct: it returns, and its
  components are the strongly connected components of the graph. \<open>detectAnomalies\<close> reports circular dependencies from them.
\<close>

section \<open>Model\<close>

record TarjanSCC =
  ts_index :: int
  ts_stack :: "addr list"
  ts_indices :: "(string, int) fmap"
  ts_lowlinks :: "(string, int) fmap"
  ts_onStack :: "(string, bool) fmap"
  ts_components :: "addr list list"

text \<open>The loop that takes a component from the stack; reading from an empty stack panics and does not return.\<close>

fun pop_component :: "DependencyGraph \<Rightarrow> string \<Rightarrow> addr list \<Rightarrow> (string, bool) fmap \<Rightarrow> addr list \<Rightarrow> (addr list \<times> (string, bool) fmap \<times> addr list) option" where
  "pop_component G rootID stack onStack component =
     (if stack = [] then None
      else if node_id G (last stack) = rootID
      then Some (butlast stack, fmupd (node_id G (last stack)) False onStack, component @ [last stack])
      else pop_component G rootID (butlast stack) (fmupd (node_id G (last stack)) False onStack) (component @ [last stack]))"

declare pop_component.simps [simp del]

text \<open>\<open>index\<close> counts nodes in memory, of which there are fewer than $2^{63}$; it is not wrapped.\<close>

definition enter :: "DependencyGraph \<Rightarrow> addr \<Rightarrow> TarjanSCC \<Rightarrow> TarjanSCC" where
  "enter G node t = t\<lparr>ts_indices := fmupd (node_id G node) (ts_index t) (ts_indices t),
     ts_lowlinks := fmupd (node_id G node) (ts_index t) (ts_lowlinks t),
     ts_index := ts_index t + 1, ts_stack := ts_stack t @ [node], ts_onStack := fmupd (node_id G node) True (ts_onStack t)\<rparr>"

definition lower :: "DependencyGraph \<Rightarrow> addr \<Rightarrow> int \<Rightarrow> TarjanSCC \<Rightarrow> TarjanSCC" where
  "lower G node n t = t\<lparr>ts_lowlinks := fmupd (node_id G node) (min (int_at (ts_lowlinks t) (node_id G node)) n) (ts_lowlinks t)\<rparr>"

definition close_component :: "DependencyGraph \<Rightarrow> addr \<Rightarrow> TarjanSCC \<Rightarrow> TarjanSCC option" where
  "close_component G node t =
     (if int_at (ts_lowlinks t) (node_id G node) = int_at (ts_indices t) (node_id G node)
      then case pop_component G (node_id G node) (ts_stack t) (ts_onStack t) [] of
             None \<Rightarrow> None
           | Some (stack, onStack, component) \<Rightarrow>
               Some (t\<lparr>ts_stack := stack, ts_onStack := onStack,
                 ts_components := (if length component > 0 then ts_components t @ [component] else ts_components t)\<rparr>)
      else Some t)"

partial_function (option) strongConnect :: "DependencyGraph \<Rightarrow> addr \<Rightarrow> TarjanSCC \<Rightarrow> TarjanSCC option" where
  [code]: "strongConnect G node t =
     Option.bind
       (for_each (\<lambda>edge t.
          if fmlookup (ts_indices t) (node_id G (ed_To edge)) = None
          then Option.bind (strongConnect G (ed_To edge) t) (\<lambda>t1. Some (lower G node (int_at (ts_lowlinks t1) (node_id G (ed_To edge))) t1))
          else if flag (ts_onStack t) (node_id G (ed_To edge)) then Some (lower G node (int_at (ts_indices t) (node_id G (ed_To edge))) t)
          else Some t)
        (dependencies G node) (enter G node t))
       (close_component G node)"

definition findStronglyConnectedComponents :: "DependencyGraph \<Rightarrow> string list \<Rightarrow> addr list list option" where
  "findStronglyConnectedComponents G order =
     map_option ts_components
       (for_each (\<lambda>node t. if fmlookup (ts_indices t) (node_id G node) = None then strongConnect G node t else Some t) (range_nodes G order)
         \<lparr>ts_index = 0, ts_stack = [], ts_indices = fmempty, ts_lowlinks = fmempty, ts_onStack = fmempty, ts_components = []\<rparr>)"

section \<open>Invariants\<close>

definition seen :: "DependencyGraph \<Rightarrow> TarjanSCC \<Rightarrow> addr set" where
  "seen G t = {a \<in> nodes G. fmlookup (ts_indices t) (node_id G a) \<noteq> None}"

abbreviation num :: "DependencyGraph \<Rightarrow> TarjanSCC \<Rightarrow> addr \<Rightarrow> int" where
  "num G t a \<equiv> int_at (ts_indices t) (node_id G a)"

abbreviation low :: "DependencyGraph \<Rightarrow> TarjanSCC \<Rightarrow> addr \<Rightarrow> int" where
  "low G t a \<equiv> int_at (ts_lowlinks t) (node_id G a)"

definition component_of :: "DependencyGraph \<Rightarrow> addr \<Rightarrow> addr set" where
  "component_of G a = {b. (a, b) \<in> (deps G)\<^sup>* \<and> (b, a) \<in> (deps G)\<^sup>*}"

definition stack_ok :: "DependencyGraph \<Rightarrow> TarjanSCC \<Rightarrow> bool" where
  "stack_ok G t \<longleftrightarrow> set (ts_stack t) \<subseteq> seen G t \<and> (\<forall>a \<in> nodes G. flag (ts_onStack t) (node_id G a) \<longleftrightarrow> a \<in> set (ts_stack t))
     \<and> sorted_wrt (\<lambda>a b. num G t a < num G t b) (ts_stack t) \<and> (\<forall>a \<in> seen G t. num G t a < ts_index t)"

text \<open>The nodes that are seen and no longer on the stack are those of the components, and no dependency leaves them.\<close>

definition comps_ok :: "DependencyGraph \<Rightarrow> TarjanSCC \<Rightarrow> bool" where
  "comps_ok G t \<longleftrightarrow> set (concat (ts_components t)) = seen G t - set (ts_stack t) \<and> distinct (concat (ts_components t))
     \<and> (\<forall>c \<in> set (ts_components t). c \<noteq> [] \<and> (\<forall>a \<in> set c. set c = component_of G a))
     \<and> deps G `` (seen G t - set (ts_stack t)) \<subseteq> seen G t - set (ts_stack t)"

text \<open>\<open>gray\<close> are the nodes whose calls are active: the others that are seen have all their dependencies seen; nodes of the stack reach
  those above them, and an active node at or below them.\<close>

definition reach_ok :: "DependencyGraph \<Rightarrow> addr set \<Rightarrow> TarjanSCC \<Rightarrow> bool" where
  "reach_ok G gray t \<longleftrightarrow> gray \<subseteq> set (ts_stack t) \<and> deps G `` (seen G t - gray) \<subseteq> seen G t
     \<and> (\<forall>a \<in> set (ts_stack t). \<forall>b \<in> set (ts_stack t). num G t a \<le> num G t b \<longrightarrow> (a, b) \<in> (deps G)\<^sup>*)
     \<and> (\<forall>a \<in> set (ts_stack t). \<exists>g \<in> gray. num G t g \<le> num G t a \<and> (a, g) \<in> (deps G)\<^sup>*)"

definition tarjan_inv :: "DependencyGraph \<Rightarrow> addr set \<Rightarrow> TarjanSCC \<Rightarrow> bool" where
  "tarjan_inv G gray t \<longleftrightarrow> stack_ok G t \<and> comps_ok G t \<and> reach_ok G gray t"

text \<open>What the calls for other nodes leave alone.\<close>

definition kept :: "DependencyGraph \<Rightarrow> TarjanSCC \<Rightarrow> TarjanSCC \<Rightarrow> bool" where
  "kept G t t1 \<longleftrightarrow> (\<forall>a \<in> seen G t. a \<in> seen G t1 \<and> num G t1 a = num G t a \<and> low G t1 a = low G t a)"

definition strong_post :: "DependencyGraph \<Rightarrow> addr set \<Rightarrow> addr \<Rightarrow> TarjanSCC \<Rightarrow> TarjanSCC \<Rightarrow> bool" where
  "strong_post G gray x t t1 \<longleftrightarrow> tarjan_inv G gray t1 \<and> kept G t t1 \<and> x \<in> seen G t1 \<and> num G t1 x = ts_index t \<and> low G t1 x \<le> num G t1 x
     \<and> (\<exists>T. ts_stack t1 = ts_stack t @ T \<and> (low G t1 x = num G t1 x \<longrightarrow> T = [])
          \<and> (\<forall>y \<in> set T. \<forall>z \<in> set (ts_stack t). (y, z) \<in> deps G \<longrightarrow> low G t1 x \<le> num G t1 z))
     \<and> (low G t1 x < num G t1 x \<longrightarrow> (\<exists>z \<in> set (ts_stack t). num G t1 z = low G t1 x \<and> (x, z) \<in> (deps G)\<^sup>*))"

text \<open>In the loop of \<open>x\<close>, when the edges of \<open>es\<close> have been followed.\<close>

definition strong_mid :: "DependencyGraph \<Rightarrow> addr set \<Rightarrow> addr \<Rightarrow> TarjanSCC \<Rightarrow> DependencyEdge set \<Rightarrow> TarjanSCC \<Rightarrow> bool" where
  "strong_mid G gray x t es s \<longleftrightarrow> tarjan_inv G (insert x gray) s \<and> kept G t s \<and> x \<in> seen G s \<and> num G s x = ts_index t \<and> low G s x \<le> num G s x
     \<and> (\<exists>T. ts_stack s = ts_stack t @ x # T \<and> (\<forall>y \<in> set T. \<forall>z \<in> set (ts_stack t). (y, z) \<in> deps G \<longrightarrow> low G s x \<le> num G s z))
     \<and> (low G s x < num G s x \<longrightarrow> (\<exists>z \<in> set (ts_stack t). num G s z = low G s x \<and> (x, z) \<in> (deps G)\<^sup>*))
     \<and> (\<forall>e \<in> es. ed_To e \<in> seen G s \<and> (ed_To e \<in> set (ts_stack t) \<longrightarrow> low G s x \<le> num G s (ed_To e)))"

lemmas tarjan_defs = tarjan_inv_def stack_ok_def comps_ok_def reach_ok_def

lemma seen_frame [simp]:
  "seen G (t\<lparr>ts_stack := st\<rparr>) = seen G t" "seen G (t\<lparr>ts_onStack := f\<rparr>) = seen G t" "seen G (t\<lparr>ts_components := cs\<rparr>) = seen G t"
  by (simp_all add: seen_def)

lemma seen_nodes: "seen G t \<subseteq> nodes G"
  by (auto simp: seen_def)

lemma seen_enter: "graph_ok G \<Longrightarrow> x \<in> nodes G \<Longrightarrow> seen G (enter G x t) = insert x (seen G t)"
  by (auto simp: seen_def enter_def node_id_eq)

lemma enter_at:
  assumes "graph_ok G" "x \<in> nodes G" "a \<in> nodes G"
  shows "num G (enter G x t) a = (if a = x then ts_index t else num G t a)" "low G (enter G x t) a = (if a = x then ts_index t else low G t a)"
    "flag (ts_onStack (enter G x t)) (node_id G a) \<longleftrightarrow> a = x \<or> flag (ts_onStack t) (node_id G a)"
  using assms by (auto simp: enter_def int_at_def flag_def node_id_eq)

lemma lower_at:
  assumes "graph_ok G" "x \<in> nodes G" "a \<in> nodes G"
  shows "low G (lower G x n t) a = (if a = x then min (low G t x) n else low G t a)"
  using assms by (auto simp: lower_def int_at_def node_id_eq)

lemma lower_same [simp]:
  "seen G (lower G x n t) = seen G t" "ts_indices (lower G x n t) = ts_indices t" "ts_stack (lower G x n t) = ts_stack t"
  "tarjan_inv G gray (lower G x n t) = tarjan_inv G gray t"
  by (simp_all add: lower_def seen_def tarjan_defs)

lemma inv_index: "tarjan_inv G gray t \<Longrightarrow> a \<in> set (ts_stack t) \<Longrightarrow> a \<in> seen G t \<and> a \<in> nodes G \<and> num G t a < ts_index t"
  unfolding tarjan_inv_def stack_ok_def using seen_nodes by blast

lemma reaches_gray:
  assumes "reach_ok G gray t" "a \<in> set (ts_stack t)"
  obtains g where "g \<in> gray" "num G t g \<le> num G t a" "(a, g) \<in> (deps G)\<^sup>*"
  using assms unfolding reach_ok_def by blast

lemma enter_mid:
  assumes "graph_ok G" "x \<in> nodes G" "x \<notin> seen G t" "tarjan_inv G gray t" "\<forall>g \<in> gray. (g, x) \<in> (deps G)\<^sup>*"
  shows "strong_mid G gray x t {} (enter G x t)"
proof -
  let ?t = "enter G x t"
  note at = enter_at [OF assms(1,2)] and idx = inv_index [OF assms(4)]
  have new: "x \<notin> set (ts_stack t)" using idx assms(3) by blast
  have stack: "ts_stack ?t = ts_stack t @ [x]" "ts_index ?t = ts_index t + 1" "ts_components ?t = ts_components t" by (simp_all add: enter_def)
  have old: "num G ?t a = num G t a" if "a \<in> set (ts_stack t)" for a using at(1) [of a] idx [OF that] that new by auto
  have x: "num G ?t x = ts_index t" using at(1) assms(2) by simp
  have "sorted_wrt (\<lambda>a b. num G ?t a < num G ?t b) (ts_stack ?t)"
  proof -
    have "sorted_wrt (\<lambda>a b. num G t a < num G t b) (ts_stack t)" using assms(4) by (simp add: tarjan_defs)
    then have "sorted_wrt (\<lambda>a b. num G ?t a < num G ?t b) (ts_stack t)" by (rule sorted_wrt_mono_rel [rotated]) (simp add: old)
    then show ?thesis using idx by (auto simp: stack sorted_wrt_append old x)
  qed
  moreover have "num G ?t a < ts_index ?t" if "a \<in> seen G ?t" for a
  proof -
    have "a \<in> nodes G" using that seen_nodes by blast
    then show ?thesis using that assms(3,4) at(1) [of a] by (auto simp: stack seen_enter [OF assms(1,2)] tarjan_inv_def stack_ok_def)
  qed
  ultimately have "stack_ok G ?t" using assms(4) at(3) by (auto simp: stack_ok_def tarjan_inv_def stack seen_enter [OF assms(1,2)])
  moreover have "comps_ok G ?t" using assms(3,4) new by (simp add: comps_ok_def tarjan_inv_def stack seen_enter [OF assms(1,2)])
  moreover have "reach_ok G (insert x gray) ?t"
  proof -
    have r: "reach_ok G gray t" using assms(4) by (simp add: tarjan_inv_def)
    have "(a, x) \<in> (deps G)\<^sup>*" if "a \<in> set (ts_stack t)" for a
      using r that assms(5) unfolding reach_ok_def by (meson rtrancl_trans)
    moreover have "\<not> num G ?t x \<le> num G ?t a" if "a \<in> set (ts_stack t)" for a using idx [OF that] old [OF that] x by simp
    ultimately have "\<forall>a \<in> set (ts_stack ?t). \<forall>b \<in> set (ts_stack ?t). num G ?t a \<le> num G ?t b \<longrightarrow> (a, b) \<in> (deps G)\<^sup>*"
      using r by (auto simp: stack old reach_ok_def)
    moreover have "\<exists>g \<in> insert x gray. num G ?t g \<le> num G ?t a \<and> (a, g) \<in> (deps G)\<^sup>*" if "a \<in> set (ts_stack ?t)" for a
    proof (cases "a = x")
      case False
      then have "a \<in> set (ts_stack t)" using that stack by simp
      then obtain g where "g \<in> gray" "num G t g \<le> num G t a" "(a, g) \<in> (deps G)\<^sup>*" using r by (auto simp: reach_ok_def)
      then show ?thesis using old r \<open>a \<in> set (ts_stack t)\<close> unfolding reach_ok_def by (metis insertCI subsetD)
    qed auto
    moreover have "deps G `` (seen G ?t - insert x gray) \<subseteq> seen G ?t" using r by (auto simp: reach_ok_def seen_enter [OF assms(1,2)])
    ultimately show ?thesis using r by (auto simp: reach_ok_def stack)
  qed
  moreover have "kept G t ?t" using assms(3) at seen_nodes [of G t] by (auto simp: kept_def seen_enter [OF assms(1,2)])
  ultimately show ?thesis using at(1,2) [OF assms(2)] by (simp add: strong_mid_def tarjan_inv_def stack seen_enter [OF assms(1,2)])
qed

lemma kept_trans: "kept G t s \<Longrightarrow> kept G s s1 \<Longrightarrow> kept G t s1"
  by (simp add: kept_def)

lemma kept_num: "kept G t t1 \<Longrightarrow> tarjan_inv G gray t \<Longrightarrow> a \<in> set (ts_stack t) \<Longrightarrow> num G t1 a = num G t a"
  using inv_index by (auto simp: kept_def)

lemma below:
  assumes "tarjan_inv G gray s" "ts_stack s = us @ x # vs"
  shows "a \<in> set us \<Longrightarrow> num G s a < num G s x" "b \<in> set vs \<Longrightarrow> num G s x < num G s b"
  using assms by (auto simp: tarjan_inv_def stack_ok_def sorted_wrt_append)

text \<open>The three cases of an edge.\<close>

lemma edge_new:
  assumes "graph_ok G" "x \<notin> seen G t" "strong_mid G gray x t es s" "(x, ed_To e) \<in> deps G" "ed_To e \<notin> seen G s"
    "strong_post G (insert x gray) (ed_To e) s s1"
  shows "strong_mid G gray x t (insert e es) (lower G x (low G s1 (ed_To e)) s1)"
proof -
  let ?w = "ed_To e" let ?t = "lower G x (low G s1 ?w) s1"
  have x: "x \<in> nodes G" "x \<in> seen G s" using assms(1,3,4) deps_closed by (auto simp: strong_mid_def)
  have kept: "kept G t s" "kept G s s1" and inv: "tarjan_inv G (insert x gray) s" "tarjan_inv G (insert x gray) s1"
    and w: "?w \<in> seen G s1" "num G s1 ?w = ts_index s" and mid: "low G s x \<le> num G s x" "num G s x = ts_index t"
    using assms(3,6) by (auto simp: strong_mid_def strong_post_def)
  have same: "num G s1 a = num G s a" "low G s1 a = low G s a" "a \<in> seen G s1" if "a \<in> seen G s" for a using kept(2) that by (auto simp: kept_def)
  obtain T where T: "ts_stack s = ts_stack t @ x # T" "\<forall>y \<in> set T. \<forall>z \<in> set (ts_stack t). (y, z) \<in> deps G \<longrightarrow> low G s x \<le> num G s z" using assms(3) by (auto simp: strong_mid_def)
  obtain T1 where T1: "ts_stack s1 = ts_stack s @ T1" "\<forall>y \<in> set T1. \<forall>z \<in> set (ts_stack s). (y, z) \<in> deps G \<longrightarrow> low G s1 ?w \<le> num G s1 z" using assms(6) by (auto simp: strong_post_def)
  have st: "a \<in> seen G s" if "a \<in> set (ts_stack t)" for a using that T(1) inv_index [OF inv(1), of a] by auto
  have l: "low G ?t x = min (low G s x) (low G s1 ?w)" using lower_at [OF assms(1) x(1) x(1)] same(2) [OF x(2)] by simp
  have "kept G t ?t" unfolding kept_def
  proof
    fix a assume a: "a \<in> seen G t"
    then have "a \<noteq> x" "a \<in> nodes G" using assms(2) seen_nodes by blast+
    with a kept_trans [OF kept] show "a \<in> seen G ?t \<and> num G ?t a = num G t a \<and> low G ?t a = low G t a"
      using lower_at [OF assms(1) x(1), of a] by (simp add: kept_def)
  qed
  moreover have "\<exists>T. ts_stack ?t = ts_stack t @ x # T \<and> (\<forall>y \<in> set T. \<forall>z \<in> set (ts_stack t). (y, z) \<in> deps G \<longrightarrow> low G ?t x \<le> num G ?t z)"
  proof (intro exI [of _ "T @ T1"] conjI ballI impI)
    fix y z assume "y \<in> set (T @ T1)" "z \<in> set (ts_stack t)" "(y, z) \<in> deps G"
    then have "low G s x \<le> num G s z \<or> low G s1 ?w \<le> num G s1 z" using T T1(2) by auto
    then show "low G ?t x \<le> num G ?t z" using l same(1) [OF st [OF \<open>z \<in> set (ts_stack t)\<close>]] by (auto simp: min_le_iff_disj)
  qed (simp add: T(1) T1(1))
  moreover have "\<exists>z \<in> set (ts_stack t). num G ?t z = low G ?t x \<and> (x, z) \<in> (deps G)\<^sup>*" if "low G ?t x < num G ?t x"
  proof (cases "low G s1 ?w < low G s x")
    case True
    have "num G s x < ts_index s" using inv_index [OF inv(1), of x] T(1) by simp
    then have "low G s1 ?w < num G s1 ?w" using True mid(1) w(2) by simp
    then obtain z where z: "z \<in> set (ts_stack s)" "num G s1 z = low G s1 ?w" "(?w, z) \<in> (deps G)\<^sup>*" using assms(6) by (auto simp: strong_post_def)
    have "num G s z < num G s x" using z True mid(1) same(1) [of z] inv_index [OF inv(1) z(1)] by simp
    then have "z \<in> set (ts_stack t)" using z(1) T(1) below(2) [OF inv(1) T(1), of z] by auto
    moreover have "(x, z) \<in> (deps G)\<^sup>*" using assms(4) z(3) by (rule converse_rtrancl_into_rtrancl)
    ultimately show ?thesis using z(2) l True by (intro bexI [of _ z]) auto
  next
    case False
    then have "low G s x < num G s x" using that l same(1) [OF x(2)] by simp
    then obtain z where "z \<in> set (ts_stack t)" "num G s z = low G s x" "(x, z) \<in> (deps G)\<^sup>*" using assms(3) by (auto simp: strong_mid_def)
    then show ?thesis using False l same(1) [OF st] by (intro bexI [of _ z]) auto
  qed
  moreover have "ed_To e1 \<in> seen G ?t \<and> (ed_To e1 \<in> set (ts_stack t) \<longrightarrow> low G ?t x \<le> num G ?t (ed_To e1))" if "e1 \<in> insert e es" for e1
  proof (cases "e1 = e")
    case True
    then show ?thesis using w(1) st assms(5) by auto
  next
    case False
    then have "ed_To e1 \<in> seen G s" "ed_To e1 \<in> set (ts_stack t) \<longrightarrow> low G s x \<le> num G s (ed_To e1)" using that assms(3) by (auto simp: strong_mid_def)
    then show ?thesis using same [of "ed_To e1"] l by auto
  qed
  ultimately show ?thesis unfolding strong_mid_def using inv(2) same [OF x(2)] l mid by auto
qed

lemma edge_old:
  assumes "graph_ok G" "x \<notin> seen G t" "strong_mid G gray x t es s" "(x, ed_To e) \<in> deps G" "ed_To e \<in> seen G s"
  shows "strong_mid G gray x t (insert e es) (if ed_To e \<in> set (ts_stack s) then lower G x (num G s (ed_To e)) s else s)"
proof (cases "ed_To e \<in> set (ts_stack s)")
  case False
  then show ?thesis using assms(3,5) by (auto simp: strong_mid_def)
next
  case True
  let ?w = "ed_To e" let ?t = "lower G x (num G s ?w) s"
  have x: "x \<in> nodes G" using assms(1,4) deps_closed by auto
  have inv: "tarjan_inv G (insert x gray) s" and mid: "low G s x \<le> num G s x" using assms(3) by (auto simp: strong_mid_def)
  obtain T where T: "ts_stack s = ts_stack t @ x # T" "\<forall>y \<in> set T. \<forall>z \<in> set (ts_stack t). (y, z) \<in> deps G \<longrightarrow> low G s x \<le> num G s z" using assms(3) by (auto simp: strong_mid_def)
  have l: "low G ?t x = min (low G s x) (num G s ?w)" using lower_at [OF assms(1) x x] by simp
  have "kept G t ?t" unfolding kept_def
  proof
    fix a assume a: "a \<in> seen G t"
    then have "a \<noteq> x" "a \<in> nodes G" using assms(2) seen_nodes by blast+
    then show "a \<in> seen G ?t \<and> num G ?t a = num G t a \<and> low G ?t a = low G t a"
      using a assms(3) lower_at [OF assms(1) x, of a] by (simp add: kept_def strong_mid_def)
  qed
  moreover have "\<exists>z \<in> set (ts_stack t). num G ?t z = low G ?t x \<and> (x, z) \<in> (deps G)\<^sup>*" if "low G ?t x < num G ?t x"
  proof (cases "num G s ?w < low G s x")
    case wlow: True
    then have "?w \<in> set (ts_stack t)" using True T(1) mid below(2) [OF inv T(1), of ?w] by auto
    then show ?thesis using assms(4) wlow l by (intro bexI [of _ ?w]) auto
  next
    case False
    then have "low G s x < num G s x" using that l by simp
    then obtain z where "z \<in> set (ts_stack t)" "num G s z = low G s x" "(x, z) \<in> (deps G)\<^sup>*" using assms(3) by (auto simp: strong_mid_def)
    then show ?thesis using False l by (intro bexI [of _ z]) auto
  qed
  moreover have "\<exists>T. ts_stack ?t = ts_stack t @ x # T \<and> (\<forall>y \<in> set T. \<forall>z \<in> set (ts_stack t). (y, z) \<in> deps G \<longrightarrow> low G ?t x \<le> num G ?t z)"
    using T l by (intro exI [of _ T]) (auto simp: min_le_iff_disj)
  ultimately show ?thesis using True assms(3,5) l by (auto simp: strong_mid_def min_le_iff_disj)
qed

lemma pop_spec:
  assumes "graph_ok G" "x \<in> nodes G" "set T \<subseteq> nodes G" "x \<notin> set T"
  shows "\<exists>g. pop_component G (node_id G x) (S @ x # T) f c = Some (S, g, c @ rev (x # T))
    \<and> (\<forall>a \<in> nodes G. flag g (node_id G a) \<longleftrightarrow> flag f (node_id G a) \<and> a \<notin> set (x # T))"
  using assms(3,4)
proof (induction T arbitrary: f c rule: rev_induct)
  case Nil
  then show ?case using assms(1,2) by (subst pop_component.simps) (auto simp: flag_def node_id_eq)
next
  case (snoc y T)
  let ?f = "fmupd (node_id G y) False f"
  have y: "y \<in> nodes G" "y \<noteq> x" using snoc.prems by auto
  obtain g where g: "pop_component G (node_id G x) (S @ x # T) ?f (c @ [y]) = Some (S, g, (c @ [y]) @ rev (x # T))"
    "\<forall>a \<in> nodes G. flag g (node_id G a) \<longleftrightarrow> flag ?f (node_id G a) \<and> a \<notin> set (x # T)" using snoc.IH [of ?f "c @ [y]"] snoc.prems by auto
  have "pop_component G (node_id G x) (S @ x # T @ [y]) f c = pop_component G (node_id G x) (S @ x # T) ?f (c @ [y])"
    using y node_id_eq [OF assms(1) y(1) assms(2)] by (subst pop_component.simps) (simp add: butlast_append)
  moreover have "flag ?f (node_id G a) \<longleftrightarrow> flag f (node_id G a) \<and> a \<noteq> y" if "a \<in> nodes G" for a
    using node_id_eq [OF assms(1) that y(1)] by (auto simp: flag_def)
  ultimately show ?case using g by (intro exI [of _ g]) auto
qed

lemma component_of_eq: "b \<in> component_of G a \<Longrightarrow> component_of G b = component_of G a"
proof -
  assume "b \<in> component_of G a"
  then have ab: "(a, b) \<in> (deps G)\<^sup>*" "(b, a) \<in> (deps G)\<^sup>*" by (auto simp: component_of_def)
  have "(b, c) \<in> (deps G)\<^sup>* \<longleftrightarrow> (a, c) \<in> (deps G)\<^sup>*" for c using rtrancl_trans [OF ab(1)] rtrancl_trans [OF ab(2)] by blast
  moreover have "(c, b) \<in> (deps G)\<^sup>* \<longleftrightarrow> (c, a) \<in> (deps G)\<^sup>*" for c
    using rtrancl_trans [OF _ ab(1), of c] rtrancl_trans [OF _ ab(2), of c] by blast
  ultimately show ?thesis unfolding component_of_def by blast
qed

text \<open>When all edges of \<open>x\<close> have been followed, its dependencies and those of the nodes above it are seen, and lead to nodes of the
  stack no lower than its low link.\<close>

lemma mid_closed:
  assumes "graph_ok G" "x \<in> nodes G" "strong_mid G gray x t (set (dependencies G x)) s" "tarjan_inv G gray t"
    "ts_stack s = ts_stack t @ x # T" "\<forall>y \<in> set T. \<forall>z \<in> set (ts_stack t). (y, z) \<in> deps G \<longrightarrow> low G s x \<le> num G s z"
  shows "deps G `` (seen G s - gray) \<subseteq> seen G s"
    "a \<in> set (x # T) \<Longrightarrow> b \<in> set (ts_stack t) \<Longrightarrow> (a, b) \<in> deps G \<Longrightarrow> low G s x \<le> num G s b"
proof -
  have black: "deps G `` (seen G s - insert x gray) \<subseteq> seen G s" using assms(3) by (simp add: strong_mid_def tarjan_inv_def reach_ok_def)
  have x: "ed_To e \<in> seen G s \<and> (ed_To e \<in> set (ts_stack t) \<longrightarrow> low G s x \<le> num G s (ed_To e))" if "e \<in> set (dependencies G x)" for e
    using assms(3) that by (auto simp: strong_mid_def)
  show "deps G `` (seen G s - gray) \<subseteq> seen G s"
  proof
    fix b assume "b \<in> deps G `` (seen G s - gray)"
    then obtain a where a: "a \<in> seen G s - gray" "(a, b) \<in> deps G" by blast
    show "b \<in> seen G s"
    proof (cases "a = x")
      case True
      then show ?thesis using a(2) x deps_iff [OF assms(2)] by auto
    next
      case False
      then have "a \<in> seen G s - insert x gray" using a(1) by simp
      then show ?thesis using black a(2) by blast
    qed
  qed
  show "a \<in> set (x # T) \<Longrightarrow> b \<in> set (ts_stack t) \<Longrightarrow> (a, b) \<in> deps G \<Longrightarrow> low G s x \<le> num G s b"
    using assms(6) x deps_iff [OF assms(2), of b] by auto
qed

lemma component_closed:
  assumes "graph_ok G" "x \<in> nodes G" "x \<notin> seen G t" "strong_mid G gray x t (set (dependencies G x)) s" "tarjan_inv G gray t"
    "ts_stack s = ts_stack t @ x # T" "\<forall>y \<in> set T. \<forall>z \<in> set (ts_stack t). (y, z) \<in> deps G \<longrightarrow> low G s x \<le> num G s z" "low G s x = num G s x"
  shows "deps G `` (set (x # T) \<union> (seen G s - set (ts_stack s))) \<subseteq> set (x # T) \<union> (seen G s - set (ts_stack s))" "set (x # T) = component_of G x"
proof -
  let ?C = "set (x # T)" let ?F = "seen G s - set (ts_stack s)"
  have inv: "tarjan_inv G (insert x gray) s" using assms(4) by (simp add: strong_mid_def)
  have F: "deps G `` ?F \<subseteq> ?F" using inv by (simp add: tarjan_inv_def comps_ok_def)
  have gray: "gray \<subseteq> set (ts_stack t)" using assms(5) by (simp add: tarjan_inv_def reach_ok_def)
  have C: "b \<in> ?C \<union> ?F" if "a \<in> ?C" "(a, b) \<in> deps G" for a b
  proof -
    have "a \<in> seen G s" using that(1) inv_index [OF inv, of a] assms(6) by auto
    moreover have "a \<notin> gray"
    proof
      assume "a \<in> gray"
      then have "num G s a < num G s x" using gray below(1) [OF inv assms(6)] by blast
      then show False using that(1) below(2) [OF inv assms(6), of a] by auto
    qed
    ultimately have "b \<in> seen G s" using mid_closed(1) [OF assms(1,2,4-7)] that(2) by blast
    moreover have "b \<notin> set (ts_stack t)"
    proof
      assume b: "b \<in> set (ts_stack t)"
      then have "low G s x \<le> num G s b" using mid_closed(2) [OF assms(1,2,4-7)] that by blast
      then show False using below(1) [OF inv assms(6) b] assms(8) by simp
    qed
    ultimately show ?thesis using assms(6) by auto
  qed
  then show closed: "deps G `` (?C \<union> ?F) \<subseteq> ?C \<union> ?F" using F by blast
  have reach: "b \<in> ?C \<union> ?F" if "(x, b) \<in> (deps G)\<^sup>*" for b
    using that
  proof (induction rule: rtrancl_induct)
    case (step b c)
    then show ?case using closed by blast
  qed simp
  have stay: "c \<in> ?F" if "(b, c) \<in> (deps G)\<^sup>*" "b \<in> ?F" for b c
    using that
  proof (induction rule: rtrancl_induct)
    case (step c d)
    then show ?case using F by blast
  qed simp
  have "component_of G x \<subseteq> ?C"
  proof
    fix b assume b: "b \<in> component_of G x"
    then have "b \<notin> ?F" using stay [of b x] assms(6) by (auto simp: component_of_def)
    then show "b \<in> ?C" using b reach by (auto simp: component_of_def)
  qed
  moreover have "b \<in> component_of G x" if b: "b \<in> ?C" for b
  proof -
    have r: "reach_ok G (insert x gray) s" using inv by (simp add: tarjan_inv_def)
    have on: "x \<in> set (ts_stack s)" "b \<in> set (ts_stack s)" using b assms(6) by auto
    have "num G s x \<le> num G s b" using b below(2) [OF inv assms(6), of b] by auto
    then have xb: "(x, b) \<in> (deps G)\<^sup>*" using r on by (simp add: reach_ok_def)
    obtain g where g: "g \<in> insert x gray" "(b, g) \<in> (deps G)\<^sup>*" using r on(2) by (rule reaches_gray)
    have "num G s g \<le> num G s x" using g(1) gray below(1) [OF inv assms(6), of g] by auto
    moreover have "g \<in> set (ts_stack s)" using g(1) r by (auto simp: reach_ok_def)
    ultimately have "(g, x) \<in> (deps G)\<^sup>*" using r on by (simp add: reach_ok_def)
    with g(2) have "(b, x) \<in> (deps G)\<^sup>*" by (rule rtrancl_trans)
    with xb show ?thesis by (simp add: component_of_def)
  qed
  ultimately show "?C = component_of G x" by blast
qed

lemma stack_distinct: "stack_ok G t \<Longrightarrow> distinct (ts_stack t)"
proof -
  assume "stack_ok G t"
  then have "sorted_wrt (<) (map (num G t) (ts_stack t))" by (simp add: stack_ok_def sorted_wrt_map)
  then show ?thesis by (simp add: strict_sorted_iff distinct_map)
qed

lemma close_pop:
  assumes "graph_ok G" "x \<in> nodes G" "x \<notin> seen G t" "strong_mid G gray x t (set (dependencies G x)) s" "tarjan_inv G gray t" "low G s x = num G s x"
  shows "\<exists>t1. close_component G x s = Some t1 \<and> strong_post G gray x t t1"
proof -
  obtain T where T: "ts_stack s = ts_stack t @ x # T" "\<forall>y \<in> set T. \<forall>z \<in> set (ts_stack t). (y, z) \<in> deps G \<longrightarrow> low G s x \<le> num G s z"
    using assms(4) by (auto simp: strong_mid_def)
  have inv: "tarjan_inv G (insert x gray) s" and kept: "kept G t s" using assms(4) by (auto simp: strong_mid_def)
  have ok: "stack_ok G s" "comps_ok G s" "reach_ok G (insert x gray) s" using inv by (auto simp: tarjan_inv_def)
  note dis = stack_distinct [OF ok(1), unfolded T(1)]
  have "set T \<subseteq> nodes G" using inv_index [OF inv] T(1) by auto
  with pop_spec [OF assms(1,2), of T "ts_stack t" "ts_onStack s" "[]"] dis obtain g where
    g: "pop_component G (node_id G x) (ts_stack s) (ts_onStack s) [] = Some (ts_stack t, g, rev (x # T))"
      "\<forall>a \<in> nodes G. flag g (node_id G a) \<longleftrightarrow> flag (ts_onStack s) (node_id G a) \<and> a \<notin> set (x # T)" by (auto simp: T(1))
  let ?t = "s\<lparr>ts_stack := ts_stack t, ts_onStack := g, ts_components := ts_components s @ [rev (x # T)]\<rparr>"
  have close: "close_component G x s = Some ?t" using assms(6) g(1) by (simp add: close_component_def)
  have F: "seen G s - set (ts_stack t) = set (x # T) \<union> (seen G s - set (ts_stack s))"
    using dis T(1) inv_index [OF inv] by auto
  note comp = component_closed [OF assms(1-5) T assms(6)]
  have "stack_ok G ?t" using ok(1) g(2) T(1) dis by (auto simp: stack_ok_def sorted_wrt_append)
  moreover have "comps_ok G ?t"
  proof -
    have "c \<noteq> [] \<and> (\<forall>a \<in> set c. set c = component_of G a)" if c: "c \<in> set (ts_components ?t)" for c
    proof (cases "c = rev (x # T)")
      case True
      then have "set c = component_of G x" using comp(2) by (simp only: set_rev)
      then show ?thesis using component_of_eq [of _ G x] True by auto
    next
      case False
      then have "c \<in> set (ts_components s)" using c by auto
      then show ?thesis using ok(2) by (simp add: comps_ok_def)
    qed
    moreover have "set (concat (ts_components ?t)) = seen G s - set (ts_stack t)" unfolding F using ok(2) by (auto simp: comps_ok_def)
    moreover have "distinct (concat (ts_components ?t))" using ok(2) dis T(1) by (auto simp: comps_ok_def)
    moreover have "deps G `` (seen G s - set (ts_stack t)) \<subseteq> seen G s - set (ts_stack t)" unfolding F by (rule comp(1))
    ultimately show ?thesis unfolding comps_ok_def by simp
  qed
  moreover have "reach_ok G gray ?t"
  proof -
    have "\<exists>g \<in> gray. num G s g \<le> num G s a \<and> (a, g) \<in> (deps G)\<^sup>*" if a: "a \<in> set (ts_stack t)" for a
    proof -
      have "a \<in> set (ts_stack s)" using a T(1) by simp
      with ok(3) obtain g where "g \<in> insert x gray" "num G s g \<le> num G s a" "(a, g) \<in> (deps G)\<^sup>*" by (rule reaches_gray)
      then show ?thesis using below(1) [OF inv T(1) a] by auto
    qed
    moreover have "gray \<subseteq> set (ts_stack t)" using assms(5) by (simp add: tarjan_inv_def reach_ok_def)
    ultimately show ?thesis using ok(3) T(1) mid_closed(1) [OF assms(1,2,4,5) T] by (simp add: reach_ok_def)
  qed
  ultimately have "strong_post G gray x t ?t" using assms(4,6) kept by (simp add: strong_post_def tarjan_inv_def strong_mid_def kept_def)
  with close show ?thesis by blast
qed

lemma close_keep:
  assumes "graph_ok G" "x \<in> nodes G" "strong_mid G gray x t (set (dependencies G x)) s" "tarjan_inv G gray t" "low G s x < num G s x"
  shows "\<exists>t1. close_component G x s = Some t1 \<and> strong_post G gray x t t1"
proof -
  obtain T where T: "ts_stack s = ts_stack t @ x # T" "\<forall>y \<in> set T. \<forall>z \<in> set (ts_stack t). (y, z) \<in> deps G \<longrightarrow> low G s x \<le> num G s z"
    using assms(3) by (auto simp: strong_mid_def)
  have inv: "tarjan_inv G (insert x gray) s" using assms(3) by (simp add: strong_mid_def)
  have ok: "stack_ok G s" "comps_ok G s" "reach_ok G (insert x gray) s" using inv by (auto simp: tarjan_inv_def)
  obtain z where z: "z \<in> set (ts_stack t)" "num G s z = low G s x" "(x, z) \<in> (deps G)\<^sup>*" using assms(3,5) by (auto simp: strong_mid_def)
  then have "z \<in> set (ts_stack s)" using T(1) by simp
  with ok(3) obtain h where "h \<in> insert x gray" and h: "num G s h \<le> num G s z" "(z, h) \<in> (deps G)\<^sup>*" by (rule reaches_gray)
  then have gh: "h \<in> gray" using z(2) assms(5) by auto
  have xh: "(x, h) \<in> (deps G)\<^sup>*" using z(3) h(2) by (rule rtrancl_trans)
  have "\<exists>g \<in> gray. num G s g \<le> num G s a \<and> (a, g) \<in> (deps G)\<^sup>*" if a: "a \<in> set (ts_stack s)" for a
  proof -
    obtain g where g: "g \<in> insert x gray" "num G s g \<le> num G s a" "(a, g) \<in> (deps G)\<^sup>*" using ok(3) a by (rule reaches_gray)
    show ?thesis
    proof (cases "g = x")
      case True
      then have "(a, h) \<in> (deps G)\<^sup>*" using g(3) xh rtrancl_trans by metis
      then show ?thesis using gh h(1) z(2) assms(5) g(2) True by (intro bexI [of _ h]) auto
    qed (use g in auto)
  qed
  then have "reach_ok G gray s" using ok(3) mid_closed(1) [OF assms(1-4) T] by (simp add: reach_ok_def)
  moreover have "\<forall>y \<in> set (x # T). \<forall>z \<in> set (ts_stack t). (y, z) \<in> deps G \<longrightarrow> low G s x \<le> num G s z" using mid_closed(2) [OF assms(1-4) T] by blast
  ultimately have "strong_post G gray x t s" using assms(3,5) ok(1,2) T(1) z by (auto simp: strong_post_def strong_mid_def tarjan_inv_def)
  then show ?thesis using assms(5) by (simp add: close_component_def)
qed

lemma strongConnect_spec:
  assumes "graph_ok G" "x \<in> nodes G" "x \<notin> seen G t" "tarjan_inv G gray t" "\<forall>g \<in> gray. (g, x) \<in> (deps G)\<^sup>*"
  shows "\<exists>t1. strongConnect G x t = Some t1 \<and> strong_post G gray x t t1"
  using assms(2-5)
proof (induction "card (nodes G - seen G t)" arbitrary: x gray t rule: less_induct)
  case less
  let ?f = "\<lambda>edge t. if fmlookup (ts_indices t) (node_id G (ed_To edge)) = None
          then Option.bind (strongConnect G (ed_To edge) t) (\<lambda>t1. Some (lower G x (int_at (ts_lowlinks t1) (node_id G (ed_To edge))) t1))
          else if flag (ts_onStack t) (node_id G (ed_To edge)) then Some (lower G x (int_at (ts_indices t) (node_id G (ed_To edge))) t)
          else Some t"
  have "\<exists>s. for_each ?f (dependencies G x) (enter G x t) = Some s \<and> strong_mid G gray x t (set (dependencies G x)) s"
  proof (rule for_each_rule)
    show "strong_mid G gray x t (set []) (enter G x t)" using enter_mid [OF assms(1) less.prems] by simp
  next
    fix us e vs s assume split: "dependencies G x = us @ e # vs" and mid: "strong_mid G gray x t (set us) s"
    have edge: "(x, ed_To e) \<in> deps G" using split deps_iff [OF less.prems(1)] by auto
    have w: "ed_To e \<in> nodes G" using deps_closed [OF assms(1) edge] by simp
    have inv: "tarjan_inv G (insert x gray) s" "kept G t s" "x \<in> seen G s" using mid by (auto simp: strong_mid_def)
    show "\<exists>s1. ?f e s = Some s1 \<and> strong_mid G gray x t (set (us @ [e])) s1"
    proof (cases "ed_To e \<in> seen G s")
      case True
      then have "?f e s = Some (if ed_To e \<in> set (ts_stack s) then lower G x (num G s (ed_To e)) s else s)"
        using inv(1) w by (auto simp: seen_def tarjan_inv_def stack_ok_def)
      then show ?thesis using edge_old [OF assms(1) less.prems(2) mid edge True] by simp
    next
      case False
      have "card (nodes G - seen G s) < card (nodes G - seen G t)"
        using inv(2,3) less.prems(1,2) by (intro psubset_card_mono) (auto simp: kept_def)
      moreover have "\<forall>g \<in> insert x gray. (g, ed_To e) \<in> (deps G)\<^sup>*" using less.prems(4) edge by (auto intro: rtrancl_into_rtrancl)
      ultimately obtain s1 where "strongConnect G (ed_To e) s = Some s1" "strong_post G (insert x gray) (ed_To e) s s1"
        using less.hyps [of s "ed_To e" "insert x gray"] w False inv(1) by blast
      then show ?thesis using False w edge_new [OF assms(1) less.prems(2) mid edge False] by (simp add: seen_def)
    qed
  qed
  then obtain s where s: "for_each ?f (dependencies G x) (enter G x t) = Some s" "strong_mid G gray x t (set (dependencies G x)) s" by blast
  have "low G s x \<le> num G s x" using s(2) by (simp add: strong_mid_def)
  then have "\<exists>t1. close_component G x s = Some t1 \<and> strong_post G gray x t t1"
    using close_pop [OF assms(1) less.prems(1,2) s(2) less.prems(3)] close_keep [OF assms(1) less.prems(1) s(2) less.prems(3)] by (cases "low G s x = num G s x") auto
  then show ?case using s(1) by (subst strongConnect.simps) simp
qed

lemma findStronglyConnectedComponents_spec:
  assumes "graph_ok G" "ranges_over (gr_Nodes G) order"
  shows "\<exists>cs. findStronglyConnectedComponents G order = Some cs \<and> distinct (concat cs) \<and> set (concat cs) = nodes G
    \<and> (\<forall>c \<in> set cs. c \<noteq> [] \<and> (\<forall>a \<in> set c. set c = {b. (a, b) \<in> (deps G)\<^sup>* \<and> (b, a) \<in> (deps G)\<^sup>*}))"
proof -
  let ?f = "\<lambda>node t. if fmlookup (ts_indices t) (node_id G node) = None then strongConnect G node t else Some t"
  let ?t = "\<lparr>ts_index = 0, ts_stack = [], ts_indices = fmempty, ts_lowlinks = fmempty, ts_onStack = fmempty, ts_components = []\<rparr>"
  have "\<exists>t. for_each ?f (range_nodes G order) ?t = Some t \<and> (tarjan_inv G {} t \<and> ts_stack t = [] \<and> set (range_nodes G order) \<subseteq> seen G t)"
  proof (rule for_each_rule)
    fix us x vs t assume split: "range_nodes G order = us @ x # vs" and inv: "tarjan_inv G {} t \<and> ts_stack t = [] \<and> set us \<subseteq> seen G t"
    have x: "x \<in> nodes G" using split set_range_nodes [OF assms(2)] by auto
    show "\<exists>t1. ?f x t = Some t1 \<and> (tarjan_inv G {} t1 \<and> ts_stack t1 = [] \<and> set (us @ [x]) \<subseteq> seen G t1)"
    proof (cases "x \<in> seen G t")
      case True
      then show ?thesis using inv by (auto simp: seen_def)
    next
      case False
      obtain t1 where t1: "strongConnect G x t = Some t1" "strong_post G {} x t t1" using strongConnect_spec [OF assms(1) x False, of "{}"] inv by blast
      then have "low G t1 x = num G t1 x" using inv by (auto simp: strong_post_def)
      then have "tarjan_inv G {} t1 \<and> ts_stack t1 = [] \<and> set (us @ [x]) \<subseteq> seen G t1" using t1(2) inv by (auto simp: strong_post_def kept_def)
      then show ?thesis using t1(1) False x by (simp add: seen_def)
    qed
  qed (simp add: tarjan_defs seen_def flag_def)
  then obtain t where t: "for_each ?f (range_nodes G order) ?t = Some t" "tarjan_inv G {} t" "ts_stack t = []" "nodes G \<subseteq> seen G t"
    unfolding set_range_nodes [OF assms(2)] by blast
  then have "seen G t = nodes G" using seen_nodes by blast
  then show ?thesis using t unfolding findStronglyConnectedComponents_def tarjan_inv_def comps_ok_def component_of_def by auto
qed

text \<open>C30: On every well-formed graph \<open>findStronglyConnectedComponents\<close> returns, without reading from an empty stack, whatever the order of the
  iteration, and its components are the strongly connected components: every node is in exactly one, and each is the set of
  the nodes that reach and are reached from any of its members.\<close>

theorem findStronglyConnectedComponents_correct:
  assumes "graph_ok G" "ranges_over (gr_Nodes G) order"
  shows "\<exists>cs. findStronglyConnectedComponents G order = Some cs \<and> distinct (concat cs) \<and> set (concat cs) = nodes G
    \<and> (\<forall>c \<in> set cs. c \<noteq> [] \<and> (\<forall>a \<in> set c. set c = {b. (a, b) \<in> (deps G)\<^sup>* \<and> (b, a) \<in> (deps G)\<^sup>*}))"
  using findStronglyConnectedComponents_spec [OF assms] .

text \<open>A graph with a cycle: \<open>a\<close>, \<open>b\<close> and \<open>c\<close> depend on each other, and \<open>c\<close> on \<open>d\<close>.\<close>

definition ring :: DependencyGraph where
  "ring = diamond\<lparr>gr_node := (\<lambda>a. if a = 0 then sample_node ''a'' 0 [2] [1] else if a = 1 then sample_node ''b'' 1 [0] [2]
       else if a = 2 then sample_node ''c'' 2 [1] [0, 3] else sample_node ''d'' 3 [2] [])\<rparr>"

lemma ring_nodes: "nodes ring = {0, 1, 2, 3}"
  using diamond_nodes by (simp add: nodes_def ring_def)

lemma ring_deps: "deps ring = {(0, 1), (1, 2), (2, 0), (2, 3)}"
  unfolding deps_image by (simp add: ring_nodes) (auto simp: ring_def sample_node_def sample_edge_def)

lemma ring_ok: "graph_ok ring" "ranges_over (gr_Nodes ring) diamond_order"
proof -
  show "graph_ok ring" unfolding graph_ok_def ring_deps ring_nodes
    by (auto simp: ring_def diamond_def fmlookup_of_list sample_node_def split: if_splits)
  show "ranges_over (gr_Nodes ring) diamond_order" using diamond_ok(3) by (simp add: ring_def)
qed

theorem findStronglyConnectedComponents_correct_witness:
  "findStronglyConnectedComponents ring diamond_order = Some [[3], [2, 1, 0]]
   \<and> {2, 1, 0} = {b. (0, b) \<in> (deps ring)\<^sup>* \<and> (b, 0) \<in> (deps ring)\<^sup>*}"
proof -
  have run: "findStronglyConnectedComponents ring diamond_order = Some [[3], [2, 1, 0]]" by code_simp
  from findStronglyConnectedComponents_correct [OF ring_ok] obtain cs where cs: "findStronglyConnectedComponents ring diamond_order = Some cs"
    "\<forall>c \<in> set cs. c \<noteq> [] \<and> (\<forall>a \<in> set c. set c = {b. (a, b) \<in> (deps ring)\<^sup>* \<and> (b, a) \<in> (deps ring)\<^sup>*})" by blast
  have c: "[2, 1, 0] \<in> set cs" "0 \<in> set [2, 1, 0 :: addr]" using cs(1) run by auto
  have "set [2, 1, 0] = {b. (0, b) \<in> (deps ring)\<^sup>* \<and> (b, 0) \<in> (deps ring)\<^sup>*}" using bspec [OF conjunct2 [OF bspec [OF cs(2) c(1)]] c(2)] .
  with run show ?thesis by (simp only: list.set simp_thms)
qed

end
