(* ===== verification/Critical_Path.thy ===== *)
theory Critical_Path
  imports Dependency_Graph
begin

text \<open>
  The critical path of \<open>findCriticalPath\<close> (\<open>pkg/nephio/porch/dependency_graph_analyzer.go\<close>) is a heaviest path of the graph; and what
  \<open>calculateDependencyDepth\<close> computes instead of the depth.
\<close>

section \<open>Walks\<close>

fun walk :: "DependencyGraph \<Rightarrow> addr \<Rightarrow> DependencyEdge list \<Rightarrow> addr \<Rightarrow> bool" where
  "walk G a [] b \<longleftrightarrow> a \<in> nodes G \<and> a = b"
| "walk G a (e # es) b \<longleftrightarrow> a \<in> nodes G \<and> e \<in> set (dependencies G a) \<and> walk G (ed_To e) es b"

definition weight :: "DependencyEdge list \<Rightarrow> int" where
  "weight es = sum_list (map ed_Weight es)"

text \<open>The sums along walks are values of \<open>int\<close>.\<close>

definition weights_fit :: "DependencyGraph \<Rightarrow> bool" where
  "weights_fit G \<longleftrightarrow> (\<forall>a es b. walk G a es b \<longrightarrow> int64_range (weight es))"

lemma walk_snoc: "graph_ok G \<Longrightarrow> walk G a es b \<Longrightarrow> e \<in> set (dependencies G b) \<Longrightarrow> walk G a (es @ [e]) (ed_To e)"
  by (induction es arbitrary: a) (auto intro: dep_node)

lemma walk_node: "walk G a es b \<Longrightarrow> a \<in> nodes G \<and> b \<in> nodes G"
  by (induction es arbitrary: a) auto

section \<open>Distances\<close>

abbreviation dist_at :: "DependencyGraph \<Rightarrow> (string, int) fmap \<times> (string, addr) fmap \<Rightarrow> addr \<Rightarrow> int" where
  "dist_at G st a \<equiv> int_at (fst st) (node_id G a)"

text \<open>When the nodes of \<open>us\<close> have been relaxed and, of the edges of \<open>v\<close>, those of \<open>es\<close>.\<close>

definition relaxed :: "DependencyGraph \<Rightarrow> addr set \<Rightarrow> addr \<Rightarrow> DependencyEdge set \<Rightarrow> (string, int) fmap \<times> (string, addr) fmap \<Rightarrow> bool" where
  "relaxed G us v es st \<longleftrightarrow>
     (\<forall>b \<in> nodes G. 0 \<le> dist_at G st b \<and> (\<exists>a es. walk G a es b \<and> weight es = dist_at G st b))
   \<and> (\<forall>u e. (u \<in> us \<and> e \<in> set (dependencies G u)) \<or> (u = v \<and> e \<in> es) \<longrightarrow> dist_at G st u + ed_Weight e \<le> dist_at G st (ed_To e))
   \<and> (\<forall>b \<in> nodes G. case fmlookup (snd st) (node_id G b) of
        None \<Rightarrow> dist_at G st b = 0
      | Some u \<Rightarrow> u \<in> insert v us \<and> (\<exists>e \<in> set (dependencies G u). ed_To e = b \<and> dist_at G st b = dist_at G st u + ed_Weight e))"

lemma int_at_upd: "int_at (fmupd k d m) k1 = (if k1 = k then d else int_at m k1)"
  by (simp add: int_at_def)

lemma relax_step:
  assumes "graph_ok G" "weights_fit G" "us \<subseteq> nodes G" "v \<in> nodes G" "e \<in> set (dependencies G v)" "es \<subseteq> set (dependencies G v)"
    and later: "ed_To e \<notin> us" "ed_To e \<noteq> v" and inv: "relaxed G us v es st"
  shows "relaxed G us v (insert e es) (relax G v e st)"
proof -
  let ?b = "ed_To e" let ?d = "dist_at G st v + ed_Weight e"
  have b: "?b \<in> nodes G" using assms(1,4,5) by (rule dep_node)
  obtain a0 es0 where w: "walk G a0 es0 v" "weight es0 = dist_at G st v" using inv assms(4) by (auto simp: relaxed_def)
  have w1: "walk G a0 (es0 @ [e]) ?b" "weight (es0 @ [e]) = ?d" using walk_snoc [OF assms(1) w(1) assms(5)] w(2) by (auto simp: weight_def)
  then have fit: "wrap64 ?d = ?d" using assms(2) unfolding weights_fit_def by (metis wrap64_id)
  have at: "node_id G x = node_id G ?b \<longleftrightarrow> x = ?b" if "x \<in> nodes G" for x using node_id_eq [OF assms(1) that b] .
  have node: "u \<in> nodes G \<and> ed_To e1 \<in> nodes G" if "(u \<in> us \<and> e1 \<in> set (dependencies G u)) \<or> (u = v \<and> e1 \<in> insert e es)" for u e1
  proof -
    have "u \<in> nodes G" "e1 \<in> set (dependencies G u)" using that assms(3-6) by auto
    then show ?thesis using dep_node [OF assms(1)] by blast
  qed
  show ?thesis
  proof (cases "dist_at G st ?b < ?d")
    case False
    then have "relax G v e st = st" by (simp add: relax_def fit Let_def)
    with False inv show ?thesis by (auto simp: relaxed_def)
  next
    case True
    let ?st = "relax G v e st"
    have st: "fst ?st = fmupd (node_id G ?b) ?d (fst st)" "snd ?st = fmupd (node_id G ?b) v (snd st)" using True by (simp_all add: relax_def fit Let_def)
    have d: "dist_at G ?st x = (if x = ?b then ?d else dist_at G st x)" if "x \<in> nodes G" for x using at [OF that] by (simp add: st int_at_upd)
    have p: "fmlookup (snd ?st) (node_id G x) = (if x = ?b then Some v else fmlookup (snd st) (node_id G x))" if "x \<in> nodes G" for x
      using at [OF that] by (auto simp: st)
    have "0 \<le> dist_at G st ?b" using inv b by (simp add: relaxed_def)
    then have "\<forall>x \<in> nodes G. 0 \<le> dist_at G ?st x \<and> (\<exists>a es. walk G a es x \<and> weight es = dist_at G ?st x)"
      using inv True w1 by (auto simp: d relaxed_def)
    moreover have "dist_at G ?st u + ed_Weight e1 \<le> dist_at G ?st (ed_To e1)"
      if u: "(u \<in> us \<and> e1 \<in> set (dependencies G u)) \<or> (u = v \<and> e1 \<in> insert e es)" for u e1
    proof -
      have "u \<noteq> ?b" using u later by auto
      moreover have "dist_at G st u + ed_Weight e1 \<le> dist_at G st (ed_To e1) \<or> (u = v \<and> e1 = e)" using u inv unfolding relaxed_def by blast
      ultimately show ?thesis using node [OF u] d True by auto
    qed
    moreover have "case fmlookup (snd ?st) (node_id G x) of None \<Rightarrow> dist_at G ?st x = 0
      | Some u \<Rightarrow> u \<in> insert v us \<and> (\<exists>e \<in> set (dependencies G u). ed_To e = x \<and> dist_at G ?st x = dist_at G ?st u + ed_Weight e)" if x: "x \<in> nodes G" for x
    proof (cases "x = ?b")
      case True
      then show ?thesis using p [OF x] d [OF b] d [OF assms(4)] later(2) assms(5) by auto
    next
      case False
      have old: "case fmlookup (snd st) (node_id G x) of None \<Rightarrow> dist_at G st x = 0
        | Some u \<Rightarrow> u \<in> insert v us \<and> (\<exists>e \<in> set (dependencies G u). ed_To e = x \<and> dist_at G st x = dist_at G st u + ed_Weight e)"
        using inv x by (simp add: relaxed_def)
      have "dist_at G ?st u = dist_at G st u" if "u \<in> insert v us" for u using d [of u] that later assms(3,4) by auto
      then show ?thesis using old p [OF x] d [OF x] False by (cases "fmlookup (snd st) (node_id G x)") auto
    qed
    ultimately show ?thesis unfolding relaxed_def by blast
  qed
qed

lemma relax_node:
  assumes "graph_ok G" "weights_fit G" "us \<subseteq> nodes G" "v \<in> nodes G" "relaxed G us v {} st"
    and "\<forall>e \<in> set (dependencies G v). ed_To e \<notin> insert v us"
  shows "relaxed G (insert v us) w {} (fold (relax G v) (dependencies G v) st)"
proof -
  have "relaxed G us v (es \<union> set fs) (fold (relax G v) fs st)" if "set fs \<subseteq> set (dependencies G v)" "es \<subseteq> set (dependencies G v)" "relaxed G us v es st" for es fs st
    using that
  proof (induction fs arbitrary: es st)
    case (Cons e fs)
    have "relaxed G us v (insert e es) (relax G v e st)" using Cons.prems assms by (intro relax_step) auto
    from Cons.IH [OF _ _ this] Cons.prems show ?case by simp
  qed simp
  from this [of "dependencies G v" "{}" st] assms(5) have "relaxed G us v (set (dependencies G v)) (fold (relax G v) (dependencies G v) st)" by simp
  then show ?thesis unfolding relaxed_def by (auto split: option.splits)
qed

lemma longest_paths_relaxed:
  assumes "graph_ok G" "weights_fit G" "deps_later G vs" "distinct (us @ vs)" "set (us @ vs) \<subseteq> nodes G" "\<And>w. relaxed G (set us) w {} st"
  shows "relaxed G (set (us @ vs)) w {} (longest_paths G vs st)"
  using assms(3-6)
proof (induction vs arbitrary: us st)
  case (Cons v vs)
  have "\<forall>e \<in> set (dependencies G v). ed_To e \<in> set vs" using Cons.prems(1,3) by (auto simp: deps_def)
  then have "relaxed G (insert v (set us)) w {} (fold (relax G v) (dependencies G v) st)" for w
    using Cons.prems by (intro relax_node [OF assms(1,2)]) auto
  then show ?case using Cons.IH [of "us @ [v]" "fold (relax G v) (dependencies G v) st"] Cons.prems by (simp add: longest_paths_def)
qed (simp add: longest_paths_def)

lemma distances_start:
  assumes "ranges_over (gr_Nodes G) order"
  shows "relaxed G {} w {} (fold (\<lambda>node. fmupd (node_id G node) 0) (range_nodes G order) fmempty, fmempty)"
proof -
  have "int_at (fold (\<lambda>node. fmupd (node_id G node) 0) ns m) k = 0" if "\<forall>k. int_at m k = 0" for ns m k
    using that by (induction ns arbitrary: m) (simp_all add: int_at_upd)
  then have "int_at (fold (\<lambda>node. fmupd (node_id G node) 0) (range_nodes G order) fmempty) k = 0" for k by (simp add: int_at_def)
  moreover have "walk G b [] b \<and> weight [] = 0" if "b \<in> nodes G" for b using that by (simp add: weight_def)
  ultimately show ?thesis unfolding relaxed_def by fastforce
qed

text \<open>At the end every walk weighs at most the distance of its end.\<close>

lemma walk_bounded:
  assumes "relaxed G (nodes G) w {} st" "walk G a es b"
  shows "weight es \<le> dist_at G st b"
proof -
  have "dist_at G st a + weight es \<le> dist_at G st b" using assms(2)
  proof (induction es arbitrary: a)
    case (Cons e es)
    have "dist_at G st a + ed_Weight e \<le> dist_at G st (ed_To e)" using assms(1) Cons.prems unfolding relaxed_def by auto
    with Cons show ?case by (fastforce simp: weight_def)
  qed (simp add: weight_def)
  moreover have "0 \<le> dist_at G st a" using assms walk_node by (auto simp: relaxed_def)
  ultimately show ?thesis by simp
qed

lemma trace_back_walk:
  assumes "graph_ok G" "wf (deps G)" "relaxed G (nodes G) w {} st" "w \<in> nodes G" "b \<in> nodes G"
  shows "\<exists>a es. walk G a es b \<and> weight es = dist_at G st b \<and> trace_back G (snd st) b path = Some (a # map ed_To es @ path)"
  using assms(2,5)
proof (induction b arbitrary: path rule: wf_induct_rule)
  case (less b)
  have pred: "case fmlookup (snd st) (node_id G b) of None \<Rightarrow> dist_at G st b = 0
    | Some u \<Rightarrow> u \<in> insert w (nodes G) \<and> (\<exists>e \<in> set (dependencies G u). ed_To e = b \<and> dist_at G st b = dist_at G st u + ed_Weight e)"
    using assms(3) less.prems by (simp add: relaxed_def)
  show ?case
  proof (cases "fmlookup (snd st) (node_id G b)")
    case None
    then have "dist_at G st b = 0" using pred by simp
    then show ?thesis using None less.prems by (intro exI [of _ b] exI [of _ "[]"]) (simp add: trace_back.simps weight_def)
  next
    case (Some u)
    then obtain e where e: "u \<in> nodes G" "e \<in> set (dependencies G u)" "ed_To e = b" "dist_at G st b = dist_at G st u + ed_Weight e"
      using pred assms(4) by auto
    then have "(u, b) \<in> deps G" by (auto simp: deps_iff)
    from less.IH [OF this e(1), of "b # path"] obtain a es where "walk G a es u" "weight es = dist_at G st u"
      "trace_back G (snd st) u (b # path) = Some (a # map ed_To es @ b # path)" by blast
    then show ?thesis using walk_snoc [OF assms(1), of a es u e] e Some
      by (intro exI [of _ a] exI [of _ "es @ [e]"]) (simp add: trace_back.simps [of G _ b] weight_def)
  qed
qed

lemma farthest_spec:
  "case farthest G m ns of (d, x) \<Rightarrow> 0 \<le> d \<and> (\<forall>n \<in> set ns. int_at m (node_id G n) \<le> d)
     \<and> (case x of None \<Rightarrow> d = 0 | Some n \<Rightarrow> n \<in> set ns \<and> int_at m (node_id G n) = d \<and> 0 < d)"
proof (induction ns rule: rev_induct)
  case (snoc n ns)
  obtain d x where dx: "farthest G m ns = (d, x)" by fastforce
  then have "farthest G m (ns @ [n]) = (if int_at m (node_id G n) > d then (int_at m (node_id G n), Some n) else (d, x))"
    by (simp add: farthest_def)
  then show ?case using snoc dx by (auto split: option.splits)
qed (simp add: farthest_def)

text \<open>C32: On an acyclic graph whose sums of weights do not overflow \<open>findCriticalPath\<close> returns the nodes of a walk that no walk of the graph
  outweighs, or nothing if no walk has a positive weight. On a graph with a cycle it returns nothing. The orders of the iterations
  do not matter.\<close>

theorem findCriticalPath_heaviest:
  assumes "graph_ok G" "weights_fit G" "ranges_over (gr_Nodes G) order0" "ranges_over (gr_Nodes G) order1" "ranges_over (gr_Nodes G) order2"
  shows "\<exists>path. findCriticalPath G order0 order1 order2 = Some path
    \<and> (if \<not> acyclic (deps G) then path = []
       else if path = [] then \<forall>a es b. walk G a es b \<longrightarrow> weight es \<le> 0
       else \<exists>a es b. walk G a es b \<and> path = a # map ed_To es \<and> 0 < weight es \<and> (\<forall>a1 es1 b1. walk G a1 es1 b1 \<longrightarrow> weight es1 \<le> weight es))"
proof -
  let ?st = "(fold (\<lambda>node. fmupd (node_id G node) 0) (range_nodes G order0) fmempty, fmempty) :: (string, int) fmap \<times> (string, addr) fmap"
  obtain r where r: "topologicalSort G order1 = Some r"
    "case r of Inl _ \<Rightarrow> \<not> acyclic (deps G) | Inr L \<Rightarrow> distinct L \<and> set L = nodes G \<and> deps_later G L" using topologicalSort_spec [OF assms(1,4)] by blast
  show ?thesis
  proof (cases r)
    case (Inl err)
    then show ?thesis using r by (simp add: findCriticalPath_def)
  next
    case (Inr L)
    with r(2) have L: "distinct L" "set L = nodes G" "deps_later G L" by auto
    have ac: "acyclic (deps G)" using deps_later_acyclic [OF assms(1) L(3,1,2)] .
    have "deps G \<subseteq> nodes G \<times> nodes G" using assms(1) by (simp add: graph_ok_def)
    then have wf: "wf (deps G)" using ac finite_subset nodes_finite finite_cartesian_product finite_acyclic_wf by metis
    let ?fin = "longest_paths G L ?st"
    have rel: "relaxed G (nodes G) w {} ?fin" for w
      using longest_paths_relaxed [of G L "[]" ?st w] assms(1,2) L distances_start [OF assms(3)] by simp
    obtain d x where dx: "farthest G (fst ?fin) (range_nodes G order2) = (d, x)" by fastforce
    note far = farthest_spec [where G = G and m = "fst ?fin" and ns = "range_nodes G order2", unfolded dx set_range_nodes [OF assms(5)], simplified]
    have bound: "weight es \<le> d" if "walk G a es b" for a es b
      using walk_bounded [OF rel that] walk_node [OF that] far by force
    show ?thesis
    proof (cases x)
      case None
      then show ?thesis using r(1) Inr dx ac bound far by (simp add: findCriticalPath_def case_prod_beta)
    next
      case (Some n)
      then have n: "n \<in> nodes G" "dist_at G ?fin n = d" "0 < d" using far by auto
      from trace_back_walk [OF assms(1) wf rel n(1) n(1), of "[]"] obtain a es where es:
        "walk G a es n" "weight es = d" "trace_back G (snd ?fin) n [] = Some (a # map ed_To es)" using n(2) by auto
      then have "findCriticalPath G order0 order1 order2 = Some (a # map ed_To es)"
        using r(1) Inr dx Some by (simp add: findCriticalPath_def case_prod_beta)
      moreover have "walk G a es n \<and> 0 < weight es \<and> (\<forall>a1 es1 b1. walk G a1 es1 b1 \<longrightarrow> weight es1 \<le> weight es)" using es bound n(3) by auto
      ultimately show ?thesis using ac by (intro exI [of _ "a # map ed_To es"]) auto
    qed
  qed
qed

section \<open>The sample graph\<close>

lemma diamond_weights: "weights_fit diamond"
proof -
  define r :: "addr \<Rightarrow> int" where "r a = (if a = 0 then 0 else if a = 2 then 1 else if a = 1 then 2 else 3)" for a
  have "weight es = int (length es) \<and> int (length es) \<le> r b - r a" if "walk diamond a es b" for a es b
    using that
  proof (induction es arbitrary: a)
    case (Cons e es)
    then have e: "a \<in> nodes diamond" "e \<in> set (dependencies diamond a)" "walk diamond (ed_To e) es b" by auto
    then have "(a, ed_To e) \<in> deps diamond" by (simp add: deps_iff)
    then have "r a + 1 \<le> r (ed_To e)" by (auto simp: diamond_deps r_def)
    moreover have "ed_Weight e = 1" using e(1,2) unfolding diamond_nodes by (auto simp: diamond_def sample_node_def sample_edge_def)
    ultimately show ?case using Cons.IH [OF e(3)] by (simp add: weight_def)
  qed (simp add: weight_def)
  moreover have "r b - r a \<le> 3" "0 \<le> r a" for a b by (auto simp: r_def)
  ultimately have "0 \<le> weight es \<and> weight es \<le> 3" if "walk diamond a es b" for a es b using that by (metis of_nat_0_le_iff order_trans)
  then show ?thesis unfolding weights_fit_def int64_range_def by fastforce
qed

theorem findCriticalPath_heaviest_witness:
  "findCriticalPath diamond diamond_order diamond_order diamond_order = Some [0, 2, 1, 3]
   \<and> (\<exists>a es b. walk diamond a es b \<and> [0, 2, 1, 3] = a # map ed_To es \<and> (\<forall>a1 es1 b1. walk diamond a1 es1 b1 \<longrightarrow> weight es1 \<le> weight es))"
proof -
  have run: "findCriticalPath diamond diamond_order diamond_order diamond_order = Some [0, 2, 1, 3]" by code_simp
  have "acyclic (deps diamond)"
  proof (rule acyclic_subset [OF wf_acyclic [OF wf_measure]])
    show "deps diamond \<subseteq> measure (\<lambda>a. if a = 0 then 0 else if a = 2 then 1 else if a = 1 then 2 else 3 :: nat)" by (auto simp: diamond_deps)
  qed
  with run findCriticalPath_heaviest [OF diamond_ok(1) diamond_weights diamond_ok(3) diamond_ok(3) diamond_ok(3)] show ?thesis by auto
qed

text \<open>\<open>calculateDependencyDepth\<close> shares its marks between the branches, so that its result depends on the order of the edges and is not the
  length of a longest chain.\<close>

theorem depth_understates:
  "map_option snd (calculateDependencyDepth diamond 0 0 fmempty) = Some 2 \<and> (\<exists>es. walk diamond 0 es 3 \<and> length es = 3)"
proof
  show "map_option snd (calculateDependencyDepth diamond 0 0 fmempty) = Some 2" by code_simp
  have "walk diamond 0 [sample_edge 0 2, sample_edge 2 1, sample_edge 1 3] 3"
    by (simp add: diamond_nodes) (simp add: diamond_def sample_node_def sample_edge_def)
  moreover have "length [sample_edge 0 2, sample_edge 2 1, sample_edge 1 3] = 3" by simp
  ultimately show "\<exists>es. walk diamond 0 es 3 \<and> length es = 3" by blast
qed

end
