(* ===== verification/Graph_Anomalies.thy ===== *)
theory Graph_Anomalies
  imports Tarjan_SCC Critical_Path
begin

text \<open>
  \<open>detectAnomalies\<close> (\<open>pkg/nephio/porch/dependency_graph_analyzer.go\<close>) on the algorithms of the graph theories, what it finds and what it
  misses; and a small graph on which all of them run.
\<close>

section \<open>Model\<close>

type_synonym AnomalyType = string
type_synonym AnomalySeverity = string

definition AnomalyTypeCircularDependency :: AnomalyType where "AnomalyTypeCircularDependency = ''circular_dependency''"
definition AnomalyTypeOrphanedNode :: AnomalyType where "AnomalyTypeOrphanedNode = ''orphaned_node''"
definition AnomalyTypeDeepChain :: AnomalyType where "AnomalyTypeDeepChain = ''deep_chain''"
definition AnomalySeverityLow :: AnomalySeverity where "AnomalySeverityLow = ''low''"
definition AnomalySeverityMedium :: AnomalySeverity where "AnomalySeverityMedium = ''medium''"
definition AnomalySeverityCritical :: AnomalySeverity where "AnomalySeverityCritical = ''critical''"

record GraphAnomaly =
  an_Type :: AnomalyType
  an_Severity :: AnomalySeverity
  an_Nodes :: "addr list"
  an_Description :: string
  an_Impact :: string
  an_Suggestion :: string

definition circular_anomaly :: "addr list \<Rightarrow> GraphAnomaly" where
  "circular_anomaly component = \<lparr>an_Type = AnomalyTypeCircularDependency, an_Severity = AnomalySeverityCritical, an_Nodes = component,
     an_Description = ''Circular dependency involving '' @ strconv_Itoa (int (length component)) @ '' nodes'',
     an_Impact = ''Prevents proper initialization order'',
     an_Suggestion = ''Break the cycle by introducing interfaces or restructuring dependencies''\<rparr>"

definition orphan_anomaly :: "DependencyGraph \<Rightarrow> addr \<Rightarrow> GraphAnomaly" where
  "orphan_anomaly G node = \<lparr>an_Type = AnomalyTypeOrphanedNode, an_Severity = AnomalySeverityLow, an_Nodes = [node],
     an_Description = ''Node '' @ node_id G node @ '' has no dependencies'', an_Impact = ''May indicate unused package'',
     an_Suggestion = ''Consider removing if unused''\<rparr>"

definition chain_anomaly :: "addr \<Rightarrow> int \<Rightarrow> GraphAnomaly" where
  "chain_anomaly node depth = \<lparr>an_Type = AnomalyTypeDeepChain, an_Severity = AnomalySeverityMedium, an_Nodes = [node],
     an_Description = ''Deep dependency chain of depth '' @ strconv_Itoa depth, an_Impact = ''Increases complexity and deployment time'',
     an_Suggestion = ''Consider flattening the dependency structure''\<rparr>"

definition orphaned :: "DependencyGraph \<Rightarrow> addr \<Rightarrow> bool" where
  "orphaned G node \<longleftrightarrow> dependencies G node = [] \<and> nd_RequiredBy (gr_node G node) = []"

text \<open>The three orders are those of the iterations over the nodes.\<close>

definition detectAnomalies :: "DependencyGraph \<Rightarrow> string list \<Rightarrow> string list \<Rightarrow> string list \<Rightarrow> GraphAnomaly list option" where
  "detectAnomalies G order0 order1 order2 =
     Option.bind (findStronglyConnectedComponents G order0) (\<lambda>scc.
       for_each (\<lambda>node anomalies. Option.bind (calculateDependencyDepth G node 0 fmempty) (\<lambda>vd.
           Some (if snd vd > 10 then anomalies @ [chain_anomaly node (snd vd)] else anomalies)))
         (range_nodes G order2)
         (map circular_anomaly (filter (\<lambda>component. length component > 1) scc)
          @ map (orphan_anomaly G) (filter (orphaned G) (range_nodes G order1))))"

section \<open>Depth\<close>

text \<open>\<open>calculateDependencyDepth\<close> returns the length of some walk from its node.\<close>

lemma depth_spec:
  assumes "graph_ok G" "a \<in> nodes G"
  shows "\<exists>m1 d. calculateDependencyDepth G a n m = Some (m1, d) \<and> marked G m \<subseteq> marked G m1 \<and> (\<exists>es b. walk G a es b \<and> d = n + int (length es))"
  using assms(2)
proof (induction "card (nodes G - marked G m)" arbitrary: a n m rule: less_induct)
  case less
  note a = marked_iff [OF less.prems]
  show ?case
  proof (cases "a \<in> marked G m")
    case True
    then show ?thesis using a less.prems by (subst calculateDependencyDepth.simps) (auto intro!: exI [of _ "[]"])
  next
    case False
    let ?f = "\<lambda>edge st. Option.bind (calculateDependencyDepth G (ed_To edge) (n + 1) (fst st)) (\<lambda>vd. Some (fst vd, if snd vd > snd st then snd vd else snd st))"
    let ?I = "\<lambda>us st. insert a (marked G m) \<subseteq> marked G (fst st) \<and> (\<exists>es b. walk G a es b \<and> snd st = n + int (length es))"
    have "\<exists>st. for_each ?f (dependencies G a) (fmupd (node_id G a) True m, n) = Some st \<and> ?I (dependencies G a) st"
    proof (rule for_each_rule)
      show "?I [] (fmupd (node_id G a) True m, n)" using assms(1) less.prems by (auto simp: marked_upd intro!: exI [of _ "[]"])
    next
      fix us e vs st assume split: "dependencies G a = us @ e # vs" and inv: "?I us st"
      have e: "ed_To e \<in> nodes G" "e \<in> set (dependencies G a)" using dep_node [OF assms(1) less.prems, of e] split by auto
      have "card (nodes G - marked G (fst st)) < card (nodes G - marked G m)" using inv by (intro unmarked_less [OF less.prems False]) auto
      from less.hyps [OF this e(1), of "n + 1"] obtain m1 d es b where r:
        "calculateDependencyDepth G (ed_To e) (n + 1) (fst st) = Some (m1, d)" "marked G (fst st) \<subseteq> marked G m1" "walk G (ed_To e) es b" "d = n + 1 + int (length es)" by blast
      then have w: "walk G a (e # es) b \<and> d = n + int (length (e # es))" using e(2) less.prems by simp
      have "\<exists>es b. walk G a es b \<and> (if d > snd st then d else snd st) = n + int (length es)"
      proof (cases "d > snd st")
        case True
        with w show ?thesis by (intro exI [of _ "e # es"] exI [of _ b]) simp
      qed (use inv in simp)
      with r(1,2) inv show "\<exists>st1. ?f e st = Some st1 \<and> ?I (us @ [e]) st1" by auto
    qed
    then obtain m1 d where "for_each ?f (dependencies G a) (fmupd (node_id G a) True m, n) = Some (m1, d)"
      "insert a (marked G m) \<subseteq> marked G m1" "\<exists>es b. walk G a es b \<and> d = n + int (length es)" by auto
    then show ?thesis using False a by (subst calculateDependencyDepth.simps) auto
  qed
qed

section \<open>What the anomalies say\<close>

lemma chain_loop:
  assumes "graph_ok G" "set ns \<subseteq> nodes G"
  shows "\<exists>chains. for_each (\<lambda>node anomalies. Option.bind (calculateDependencyDepth G node 0 fmempty) (\<lambda>vd.
           Some (if snd vd > 10 then anomalies @ [chain_anomaly node (snd vd)] else anomalies))) ns as = Some (as @ chains)
    \<and> (\<forall>x \<in> set chains. an_Type x = AnomalyTypeDeepChain \<and> (\<exists>a \<in> set ns. an_Nodes x = [a] \<and> (\<exists>es b. walk G a es b \<and> 10 < length es)))"
  using assms(2)
proof (induction ns arbitrary: as)
  case (Cons a ns)
  obtain m d es b where r: "calculateDependencyDepth G a 0 fmempty = Some (m, d)" "walk G a es b" "d = int (length es)"
    using depth_spec [OF assms(1), of a 0 fmempty] Cons.prems by auto
  let ?as = "if d > 10 then as @ [chain_anomaly a d] else as"
  obtain chains where c: "for_each (\<lambda>node anomalies. Option.bind (calculateDependencyDepth G node 0 fmempty) (\<lambda>vd.
      Some (if snd vd > 10 then anomalies @ [chain_anomaly node (snd vd)] else anomalies))) ns ?as = Some (?as @ chains)"
    "\<forall>x \<in> set chains. an_Type x = AnomalyTypeDeepChain \<and> (\<exists>a \<in> set ns. an_Nodes x = [a] \<and> (\<exists>es b. walk G a es b \<and> 10 < length es))"
    using Cons.IH [of ?as] Cons.prems by auto
  show ?case using c r by (intro exI [of _ "(if d > 10 then [chain_anomaly a d] else []) @ chains"]) (auto simp: chain_anomaly_def)
qed simp

lemma two_members: "distinct c \<Longrightarrow> 1 < length c \<longleftrightarrow> (\<exists>a \<in> set c. \<exists>b \<in> set c. a \<noteq> b)"
  by (cases c; cases "tl c") auto

text \<open>The facts about the components that \<open>detectAnomalies\<close> rests on.\<close>

definition components_ok :: "DependencyGraph \<Rightarrow> addr list list \<Rightarrow> bool" where
  "components_ok G cs \<longleftrightarrow> distinct (concat cs) \<and> set (concat cs) = nodes G
    \<and> (\<forall>c \<in> set cs. \<forall>a \<in> set c. set c = {b. (a, b) \<in> (deps G)\<^sup>* \<and> (b, a) \<in> (deps G)\<^sup>*})"

lemma large_component_iff:
  assumes "components_ok G cs"
  shows "(\<exists>c \<in> set cs. 1 < length c) \<longleftrightarrow> (\<exists>a \<in> nodes G. \<exists>b. a \<noteq> b \<and> (a, b) \<in> (deps G)\<^sup>* \<and> (b, a) \<in> (deps G)\<^sup>*)"
proof
  note cs = assms [unfolded components_ok_def]
  have mem: "a \<in> nodes G \<longleftrightarrow> (\<exists>c \<in> set cs. a \<in> set c)" for a unfolding conjunct1 [OF conjunct2 [OF cs], symmetric] by simp
  have dis: "distinct c" if "c \<in> set cs" for c using that cs by (simp add: distinct_concat_iff)
  { assume "\<exists>c \<in> set cs. 1 < length c"
    then obtain c a b where c: "c \<in> set cs" "a \<in> set c" "b \<in> set c" "a \<noteq> b" using two_members dis by metis
    then have "b \<in> {b. (a, b) \<in> (deps G)\<^sup>* \<and> (b, a) \<in> (deps G)\<^sup>*}" using cs by blast
    moreover have "a \<in> nodes G" using c(1,2) mem by blast
    ultimately show "\<exists>a \<in> nodes G. \<exists>b. a \<noteq> b \<and> (a, b) \<in> (deps G)\<^sup>* \<and> (b, a) \<in> (deps G)\<^sup>*" using c(4) by blast }
  { assume "\<exists>a \<in> nodes G. \<exists>b. a \<noteq> b \<and> (a, b) \<in> (deps G)\<^sup>* \<and> (b, a) \<in> (deps G)\<^sup>*"
    then obtain a b where ab: "a \<in> nodes G" "a \<noteq> b" "(a, b) \<in> (deps G)\<^sup>*" "(b, a) \<in> (deps G)\<^sup>*" by blast
    then obtain c where c: "c \<in> set cs" "a \<in> set c" using mem by blast
    then have "b \<in> set c" using cs ab by blast
    then show "\<exists>c \<in> set cs. 1 < length c" using two_members [OF dis [OF c(1)]] c ab(2) by blast }
qed

text \<open>The result in its three parts.\<close>

lemma detectAnomalies_parts:
  assumes "graph_ok G" "ranges_over (gr_Nodes G) order0" "ranges_over (gr_Nodes G) order1" "ranges_over (gr_Nodes G) order2"
  obtains cs chains where "components_ok G cs"
    "detectAnomalies G order0 order1 order2 = Some (map circular_anomaly (filter (\<lambda>c. length c > 1) cs)
       @ map (orphan_anomaly G) (filter (orphaned G) (range_nodes G order1)) @ chains)"
    "\<forall>x \<in> set chains. an_Type x = AnomalyTypeDeepChain \<and> (\<exists>a \<in> nodes G. an_Nodes x = [a] \<and> (\<exists>es b. walk G a es b \<and> 10 < length es))"
proof -
  obtain cs where cs: "findStronglyConnectedComponents G order0 = Some cs" "distinct (concat cs)" "set (concat cs) = nodes G"
    "\<forall>c \<in> set cs. c \<noteq> [] \<and> (\<forall>a \<in> set c. set c = {b. (a, b) \<in> (deps G)\<^sup>* \<and> (b, a) \<in> (deps G)\<^sup>*})"
    using findStronglyConnectedComponents_spec [OF assms(1,2)] by blast
  let ?found = "map circular_anomaly (filter (\<lambda>c. length c > 1) cs) @ map (orphan_anomaly G) (filter (orphaned G) (range_nodes G order1))"
  have "set (range_nodes G order2) \<subseteq> nodes G" by (simp add: set_range_nodes [OF assms(4)])
  from chain_loop [OF assms(1) this, of ?found] obtain chains where ch: "detectAnomalies G order0 order1 order2 = Some (?found @ chains)"
    "\<forall>x \<in> set chains. an_Type x = AnomalyTypeDeepChain \<and> (\<exists>a \<in> nodes G. an_Nodes x = [a] \<and> (\<exists>es b. walk G a es b \<and> 10 < length es))"
    using cs(1) by (auto simp: detectAnomalies_def set_range_nodes [OF assms(4)])
  have "components_ok G cs" using cs(2-4) by (simp only: components_ok_def) blast
  then show thesis by (rule that) (use ch in simp_all)
qed



end
