(* ===== verification/Graph_Distances.thy ===== *)
theory Graph_Distances
  imports Dependency_Graph
begin

text \<open>
  \<open>calculateDiameterAndRadius\<close> (\<open>pkg/nephio/porch/dependency_graph_analyzer.go\<close>): the algorithm of Floyd and Warshall on a matrix of distances,
  and the proof that it computes the distances in the graph.
\<close>

section \<open>Model\<close>

definition MaxInt32 :: int where "MaxInt32 = 2147483647"

text \<open>\<open>math.MaxInt32 / 2\<close>, the entry of a pair without a path.\<close>

definition unreachable :: int where "unreachable = 1073741823"

type_synonym matrix = "int list list"

definition set_entry :: "nat \<Rightarrow> nat \<Rightarrow> int \<Rightarrow> matrix \<Rightarrow> matrix" where
  "set_entry i j v d = d[i := (d ! i)[j := v]]"

definition start_row :: "nat \<Rightarrow> nat \<Rightarrow> int list" where
  "start_row n i = map (\<lambda>j. if i = j then 0 else unreachable) [0..<n]"

definition node_index :: "string list \<Rightarrow> (string, nat) fmap" where
  "node_index order = fold (\<lambda>(i, nodeID). fmupd nodeID i) (enumerate 0 order) fmempty"

definition index_at :: "(string, nat) fmap \<Rightarrow> string \<Rightarrow> nat" where
  "index_at m k = (case fmlookup m k of None \<Rightarrow> 0 | Some i \<Rightarrow> i)"

definition direct_edges :: "DependencyGraph \<Rightarrow> (string, nat) fmap \<Rightarrow> matrix \<Rightarrow> matrix" where
  "direct_edges G nodeIndex =
     fold (\<lambda>edge. set_entry (index_at nodeIndex (node_id G (ed_From edge))) (index_at nodeIndex (node_id G (ed_To edge))) 1) (gr_Edges G)"

definition shorten :: "nat \<Rightarrow> nat \<Rightarrow> nat \<Rightarrow> matrix \<Rightarrow> matrix" where
  "shorten k i j d =
     (let through = wrap64 (d ! i ! k + d ! k ! j)
      in if through < d ! i ! j then set_entry i j through d else d)"

definition floyd_warshall :: "nat \<Rightarrow> matrix \<Rightarrow> matrix" where
  "floyd_warshall n = fold (\<lambda>k. fold (\<lambda>i. fold (\<lambda>j. shorten k i j) [0..<n]) [0..<n]) [0..<n]"

definition eccentricity :: "nat \<Rightarrow> matrix \<Rightarrow> nat \<Rightarrow> int" where
  "eccentricity n d i = fold (\<lambda>j e. if d ! i ! j < unreachable \<and> e < d ! i ! j then d ! i ! j else e) [0..<n] 0"

definition calculateDiameterAndRadius :: "DependencyGraph \<Rightarrow> string list \<Rightarrow> int \<times> int" where
  "calculateDiameterAndRadius G order =
     (let n = length order
      in if n = 0 then (0, 0)
         else let d = floyd_warshall n (direct_edges G (node_index order) (map (start_row n) [0..<n]))
              in fold (\<lambda>i (diameter, radius).
                   (if diameter < eccentricity n d i then eccentricity n d i else diameter,
                    if eccentricity n d i < radius then eccentricity n d i else radius)) [0..<n] (0, MaxInt32))"

section \<open>The matrix\<close>

definition square :: "nat \<Rightarrow> matrix \<Rightarrow> bool" where
  "square n d \<longleftrightarrow> length d = n \<and> (\<forall>i < n. length (d ! i) = n)"

lemma square_set_entry [simp]: "square n d \<Longrightarrow> square n (set_entry i j v d)"
  by (cases "i < length d") (auto simp: square_def set_entry_def nth_list_update)

lemma entry_set_entry:
  "square n d \<Longrightarrow> i < n \<Longrightarrow> j < n \<Longrightarrow> set_entry i j v d ! a ! b = (if a = i \<and> b = j then v else d ! a ! b)"
  by (auto simp: square_def set_entry_def nth_list_update)

lemma fold_upt_rule:
  assumes "I 0 s" "\<And>k s. k < n \<Longrightarrow> I k s \<Longrightarrow> I (Suc k) (f k s)"
  shows "I n (fold f [0..<n] s)"
  using assms by (induction n) auto

text \<open>There is a path of at most \<open>m\<close> edges whose inner vertices are in \<open>K\<close>.\<close>

inductive via :: "(nat \<times> nat) set \<Rightarrow> nat set \<Rightarrow> nat \<Rightarrow> nat \<Rightarrow> nat \<Rightarrow> bool" for E K where
  via_refl: "via E K m i i"
| via_edge: "(i, j) \<in> E \<Longrightarrow> via E K (Suc m) i j"
| via_join: "via E K m i v \<Longrightarrow> via E K m1 v j \<Longrightarrow> v \<in> K \<Longrightarrow> via E K (m + m1) i j"

lemma via_more: "via E K m i j \<Longrightarrow> m \<le> m1 \<Longrightarrow> via E K m1 i j"
proof (induction arbitrary: m1 rule: via.induct)
  case (via_edge i j m)
  then show ?case by (cases m1) (auto intro: via.via_edge)
next
  case (via_join m i v m2 j)
  then have "via E K ((m1 - m2) + m2) i j" by (intro via.via_join) auto
  with via_join.prems show ?case by simp
qed (rule via_refl)

lemma via_insert:
  assumes "via E (insert k K) m i j"
  shows "via E K m i j \<or> (\<exists>m1 m2. m1 + m2 \<le> m \<and> via E K m1 i k \<and> via E K m2 k j)"
  using assms
proof induction
  case (via_join m i v m1 j)
  have "via E K (a + b) x y" if "via E K a x v" "via E K b v y" "v \<noteq> k" for a b x y using that via_join.hyps by (auto intro: via.via_join)
  then consider (at) "v = k" | (past) "\<And>a b x y. via E K a x v \<Longrightarrow> via E K b v y \<Longrightarrow> via E K (a + b) x y" by blast
  then show ?case
  proof cases
    case at
    have "via E K m i k" "via E K m1 k j" using via_join.IH by (auto simp: at intro: via_more)
    then show ?thesis by blast
  next
    case past
    from via_join.IH show ?thesis
    proof (elim disjE exE conjE)
      fix a b assume "a + b \<le> m1" "via E K a v k" "via E K b k j" "via E K m i v"
      with past [of m i a k] show ?thesis by (intro disjI2 exI [of _ "m + a"] exI [of _ b]) auto
    next
      fix a b assume "a + b \<le> m" "via E K a i k" "via E K b k v" "via E K m1 v j"
      with past [of b k m1 j] show ?thesis by (intro disjI2 exI [of _ a] exI [of _ "b + m1"]) auto
    next
      fix a b c e assume "a + b \<le> m" "via E K a i k" "c + e \<le> m1" "via E K e k j"
      then show ?thesis by (intro disjI2 exI [of _ a] exI [of _ e]) auto
    qed (use past in blast)
  qed
qed (auto intro: via.intros)

lemma relpow_via:
  assumes "(i, j) \<in> E ^^ m" "E \<subseteq> UNIV \<times> K"
  shows "via E K m i j"
  using assms(1)
proof (induction m arbitrary: j)
  case (Suc m)
  then obtain v where v: "(i, v) \<in> E ^^ m" "(v, j) \<in> E" by auto
  show ?case
  proof (cases m)
    case 0
    with v show ?thesis by (auto intro: via.intros)
  next
    case (Suc m1)
    then have "v \<in> K" using v(1) assms(2) by auto
    from via_join [OF Suc.IH [OF v(1)] via_edge [OF v(2), of K 0] this] show ?thesis by simp
  qed
qed (auto intro: via.intros)

section \<open>The distances\<close>

text \<open>Every entry is the length of a path, and no path over the vertices in \<open>K\<close> is shorter.\<close>

definition entries_ok :: "(nat \<times> nat) set \<Rightarrow> nat \<Rightarrow> matrix \<Rightarrow> bool" where
  "entries_ok E n d \<longleftrightarrow> square n d
     \<and> (\<forall>i < n. \<forall>j < n. 0 \<le> d ! i ! j \<and> d ! i ! j \<le> unreachable \<and> (d ! i ! j < unreachable \<longrightarrow> (i, j) \<in> E ^^ nat (d ! i ! j)))"

definition covers :: "(nat \<times> nat) set \<Rightarrow> nat \<Rightarrow> nat set \<Rightarrow> matrix \<Rightarrow> bool" where
  "covers E n K d \<longleftrightarrow> (\<forall>i < n. \<forall>j < n. \<forall>m. via E K m i j \<longrightarrow> d ! i ! j \<le> int m)"

lemma entries_okD:
  "entries_ok E n d \<Longrightarrow> i < n \<Longrightarrow> j < n \<Longrightarrow> 0 \<le> d ! i ! j \<and> d ! i ! j \<le> unreachable"
  by (simp add: entries_ok_def)

lemma shorten_eq:
  assumes "entries_ok E n d" "k < n" "i < n" "j < n"
  shows "shorten k i j d = (if d ! i ! k + d ! k ! j < d ! i ! j then set_entry i j (d ! i ! k + d ! k ! j) d else d)"
proof -
  have "wrap64 (d ! i ! k + d ! k ! j) = d ! i ! k + d ! k ! j"
    using entries_okD [OF assms(1,3,2)] entries_okD [OF assms(1,2,4)] by (intro wrap64_id) (simp add: int64_range_def unreachable_def)
  then show ?thesis by (simp add: shorten_def)
qed

lemma shorten_ok:
  assumes "entries_ok E n d" "k < n" "i < n" "j < n"
  shows "entries_ok E n (shorten k i j d)"
proof (cases "d ! i ! k + d ! k ! j < d ! i ! j")
  case True
  have e: "0 \<le> d ! i ! k" "0 \<le> d ! k ! j" "d ! i ! j \<le> unreachable" using entries_okD [OF assms(1)] assms(2-4) by auto
  then have "d ! i ! k < unreachable" "d ! k ! j < unreachable" using True by auto
  then have "(i, k) \<in> E ^^ nat (d ! i ! k)" "(k, j) \<in> E ^^ nat (d ! k ! j)" using assms unfolding entries_ok_def by blast+
  then have "(i, j) \<in> E ^^ nat (d ! i ! k + d ! k ! j)" using e by (auto simp: nat_add_distrib relpow_add)
  moreover have "0 \<le> d ! i ! k + d ! k ! j" "d ! i ! k + d ! k ! j \<le> unreachable" using True e by auto
  ultimately show ?thesis using True assms unfolding shorten_eq [OF assms] by (auto simp: entries_ok_def entry_set_entry)
qed (use assms in \<open>simp add: shorten_eq\<close>)

lemma shorten_le:
  assumes "entries_ok E n d" "k < n" "i < n" "j < n"
  shows "shorten k i j d ! a ! b \<le> d ! a ! b" "shorten k i j d ! i ! j \<le> d ! i ! k + d ! k ! j"
  using assms by (auto simp: shorten_eq [OF assms] entry_set_entry [of n] entries_ok_def)

text \<open>One round: \<open>I a b\<close> holds when the pairs before \<open>(a, b)\<close> are done.\<close>

definition round_inv :: "(nat \<times> nat) set \<Rightarrow> nat \<Rightarrow> nat \<Rightarrow> nat \<Rightarrow> nat \<Rightarrow> matrix \<Rightarrow> bool" where
  "round_inv E n k a b d \<longleftrightarrow> entries_ok E n d \<and> covers E n {..<k} d
     \<and> (\<forall>i < n. \<forall>j < n. i < a \<or> i = a \<and> j < b \<longrightarrow> (\<forall>m1 m2. via E {..<k} m1 i k \<longrightarrow> via E {..<k} m2 k j \<longrightarrow> d ! i ! j \<le> int (m1 + m2)))"

lemma round_step:
  assumes "round_inv E n k i j d" "k < n" "i < n" "j < n"
  shows "round_inv E n k i (Suc j) (shorten k i j d)"
proof -
  have ok: "entries_ok E n d" and cov: "covers E n {..<k} d" using assms(1) by (auto simp: round_inv_def)
  note le = shorten_le [OF ok assms(2-4)]
  have "covers E n {..<k} (shorten k i j d)" using cov le(1) unfolding covers_def by (meson order_trans)
  moreover have "shorten k i j d ! i ! j \<le> int (m1 + m2)" if "via E {..<k} m1 i k" "via E {..<k} m2 k j" for m1 m2
  proof -
    have "d ! i ! k \<le> int m1" "d ! k ! j \<le> int m2" using that cov assms(2-4) unfolding covers_def by blast+
    with le(2) show ?thesis by simp
  qed
  moreover have "shorten k i j d ! a ! b \<le> int (m1 + m2)"
    if "a < n" "b < n" "a < i \<or> a = i \<and> b < j" "via E {..<k} m1 a k" "via E {..<k} m2 k b" for a b m1 m2
  proof -
    have "d ! a ! b \<le> int (m1 + m2)" using assms(1) that unfolding round_inv_def by blast
    with le(1) [of a b] show ?thesis by (rule order_trans)
  qed
  ultimately show ?thesis using shorten_ok [OF ok assms(2-4)] unfolding round_inv_def less_Suc_eq by blast
qed

lemma round_covers:
  assumes "entries_ok E n d" "covers E n {..<k} d" "k < n"
  defines "d1 \<equiv> fold (\<lambda>i. fold (\<lambda>j. shorten k i j) [0..<n]) [0..<n] d"
  shows "entries_ok E n d1 \<and> covers E n {..<Suc k} d1"
proof -
  have "round_inv E n k n 0 d1" unfolding d1_def
  proof (rule fold_upt_rule [where I = "\<lambda>i. round_inv E n k i 0"])
    show "round_inv E n k 0 0 d" using assms by (simp add: round_inv_def)
  next
    fix i d assume i: "i < n" "round_inv E n k i 0 d"
    have "round_inv E n k i n (fold (\<lambda>j. shorten k i j) [0..<n] d)"
      by (rule fold_upt_rule [where I = "round_inv E n k i"]) (use i round_step [OF _ assms(3) i(1)] in auto)
    then show "round_inv E n k (Suc i) 0 (fold (\<lambda>j. shorten k i j) [0..<n] d)" by (auto simp: round_inv_def less_Suc_eq)
  qed
  then have d1: "entries_ok E n d1" "covers E n {..<k} d1"
    and thru: "\<And>i j m1 m2. i < n \<Longrightarrow> j < n \<Longrightarrow> via E {..<k} m1 i k \<Longrightarrow> via E {..<k} m2 k j \<Longrightarrow> d1 ! i ! j \<le> int (m1 + m2)"
    by (auto simp: round_inv_def)
  have "d1 ! i ! j \<le> int m" if "i < n" "j < n" "via E {..<Suc k} m i j" for i j m
    using via_insert [OF that(3) [unfolded lessThan_Suc]]
  proof (elim disjE exE conjE)
    assume "via E {..<k} m i j"
    then show ?thesis using d1(2) that(1,2) by (auto simp: covers_def)
  next
    fix m1 m2 assume "m1 + m2 \<le> m" "via E {..<k} m1 i k" "via E {..<k} m2 k j"
    then show ?thesis using thru [OF that(1,2)] by (meson of_nat_mono order_trans)
  qed
  with d1(1) show ?thesis by (auto simp: covers_def)
qed

lemma floyd_warshall_covers:
  assumes "entries_ok E n d" "covers E n {} d"
  shows "entries_ok E n (floyd_warshall n d) \<and> covers E n {..<n} (floyd_warshall n d)"
  unfolding floyd_warshall_def
  by (rule fold_upt_rule [where I = "\<lambda>k d. entries_ok E n d \<and> covers E n {..<k} d"]) (use assms round_covers in auto)

section \<open>Indices of the nodes\<close>

text \<open>The relation that the list of edges gives; \<open>edges_ok\<close> says that edges join nodes and no node depends on itself.\<close>

definition edge_rel :: "DependencyGraph \<Rightarrow> (addr \<times> addr) set" where
  "edge_rel G = (\<lambda>e. (ed_From e, ed_To e)) ` set (gr_Edges G)"

definition edges_ok :: "DependencyGraph \<Rightarrow> bool" where
  "edges_ok G \<longleftrightarrow> edge_rel G \<subseteq> nodes G \<times> nodes G \<and> (\<forall>a. (a, a) \<notin> edge_rel G)"

definition node_at :: "DependencyGraph \<Rightarrow> string list \<Rightarrow> nat \<Rightarrow> addr" where
  "node_at G order i = the (fmlookup (gr_Nodes G) (order ! i))"

definition index_rel :: "DependencyGraph \<Rightarrow> string list \<Rightarrow> (nat \<times> nat) set" where
  "index_rel G order = {(i, j). i < length order \<and> j < length order \<and> (node_at G order i, node_at G order j) \<in> edge_rel G}"

lemma node_index_lookup: "distinct order \<Longrightarrow> i < length order \<Longrightarrow> fmlookup (node_index order) (order ! i) = Some i"
proof (induction order arbitrary: i rule: rev_induct)
  case (snoc x order)
  have "node_index (order @ [x]) = fmupd x (length order) (node_index order)" by (simp add: node_index_def enumerate_append_eq)
  with snoc show ?case by (cases "i < length order") (auto simp: nth_append)
qed simp

lemma node_at_nth:
  assumes "graph_ok G" "ranges_over (gr_Nodes G) order" "i < length order"
  shows "node_at G order i \<in> nodes G" "node_id G (node_at G order i) = order ! i"
proof -
  have "order ! i |\<in>| fmdom (gr_Nodes G)" using assms(2,3) unfolding ranges_over_def by (metis fset_of_list_elem nth_mem)
  then obtain a where "fmlookup (gr_Nodes G) (order ! i) = Some a" by blast
  then show "node_at G order i \<in> nodes G" "node_id G (node_at G order i) = order ! i"
    using assms(1) by (auto simp: node_at_def nodes_def graph_ok_def)
qed

lemma node_at_bij:
  assumes "graph_ok G" "ranges_over (gr_Nodes G) order"
  shows "bij_betw (node_at G order) {..<length order} (nodes G)"
proof (rule bij_betwI')
  note nth = node_at_nth [OF assms]
  show "(node_at G order i = node_at G order j) = (i = j)" if "i \<in> {..<length order}" "j \<in> {..<length order}" for i j
    using that assms(2) nth(2) unfolding ranges_over_def lessThan_iff by (metis nth_eq_iff_index_eq)
  show "node_at G order i \<in> nodes G" if "i \<in> {..<length order}" for i using nth(1) that by simp
  show "\<exists>i \<in> {..<length order}. a = node_at G order i" if "a \<in> nodes G" for a
  proof -
    from that obtain k where k: "fmlookup (gr_Nodes G) k = Some a" by (auto simp: nodes_def)
    then have "k \<in> set order" using assms(2) unfolding ranges_over_def by (metis fmdomI fset_of_list_elem)
    then obtain i where "i < length order" "order ! i = k" by (auto simp: in_set_conv_nth)
    with k show ?thesis by (intro bexI [of _ i]) (simp_all add: node_at_def)
  qed
qed

lemma node_at_surj:
  assumes "graph_ok G" "ranges_over (gr_Nodes G) order" "a \<in> nodes G"
  obtains i where "i < length order" "a = node_at G order i"
  using bij_betw_imp_surj_on [OF node_at_bij [OF assms(1,2)]] assms(3) by blast

lemma index_of_node:
  assumes "graph_ok G" "ranges_over (gr_Nodes G) order" "i < length order"
  shows "index_at (node_index order) (node_id G (node_at G order i)) = i"
  using node_at_nth [OF assms] node_index_lookup [of order i] assms(2,3) by (simp add: index_at_def ranges_over_def)

lemma index_relpow:
  assumes "graph_ok G" "edges_ok G" "ranges_over (gr_Nodes G) order" "i < length order" "j < length order"
  shows "(i, j) \<in> index_rel G order ^^ m \<longleftrightarrow> (node_at G order i, node_at G order j) \<in> edge_rel G ^^ m"
  using assms(5)
proof (induction m arbitrary: j)
  case 0
  then show ?case using node_at_bij [OF assms(1,3)] assms(4) by (auto simp: bij_betw_def inj_on_def)
next
  case (Suc m)
  have "(\<exists>v. (i, v) \<in> index_rel G order ^^ m \<and> (v, j) \<in> index_rel G order)
      \<longleftrightarrow> (\<exists>a. (node_at G order i, a) \<in> edge_rel G ^^ m \<and> (a, node_at G order j) \<in> edge_rel G)" (is "?L \<longleftrightarrow> ?R")
  proof
    assume ?L
    then show ?R using Suc.IH by (auto simp: index_rel_def)
  next
    assume ?R
    then obtain a where a: "(node_at G order i, a) \<in> edge_rel G ^^ m" "(a, node_at G order j) \<in> edge_rel G" by blast
    then have "a \<in> nodes G" using assms(2) by (auto simp: edges_ok_def)
    then obtain v where "v < length order" "a = node_at G order v" by (rule node_at_surj [OF assms(1,3)])
    with a Suc show ?L by (auto simp: index_rel_def)
  qed
  then show ?case by (auto simp: relcomp_unfold)
qed

section \<open>The start of the algorithm\<close>

lemma fold_set_entry:
  assumes "square n d" "\<forall>e \<in> set es. f e < n \<and> g e < n"
  shows "square n (fold (\<lambda>e. set_entry (f e) (g e) v) es d)
    \<and> fold (\<lambda>e. set_entry (f e) (g e) v) es d ! i ! j = (if (i, j) \<in> (\<lambda>e. (f e, g e)) ` set es then v else d ! i ! j)"
  using assms
proof (induction es arbitrary: d)
  case (Cons e es)
  have "fold (\<lambda>e. set_entry (f e) (g e) v) es (set_entry (f e) (g e) v d) ! i ! j
    = (if (i, j) \<in> (\<lambda>e. (f e, g e)) ` set es then v else set_entry (f e) (g e) v d ! i ! j)" using Cons by simp
  then show ?case using Cons entry_set_entry [of n d "f e" "g e" v i j] by auto
qed simp

lemma edge_index:
  assumes "graph_ok G" "edges_ok G" "ranges_over (gr_Nodes G) order" "e \<in> set (gr_Edges G)"
  defines "f \<equiv> index_at (node_index order) (node_id G (ed_From e))" and "g \<equiv> index_at (node_index order) (node_id G (ed_To e))"
  shows "f < length order" "g < length order" "node_at G order f = ed_From e" "node_at G order g = ed_To e"
proof -
  have "ed_From e \<in> nodes G" "ed_To e \<in> nodes G" using assms(2,4) by (auto simp: edges_ok_def edge_rel_def)
  then obtain i j where "i < length order" "ed_From e = node_at G order i" "j < length order" "ed_To e = node_at G order j"
    using node_at_surj [OF assms(1,3)] by metis
  then show "f < length order" "g < length order" "node_at G order f = ed_From e" "node_at G order g = ed_To e"
    unfolding f_def g_def by (simp_all add: index_of_node [OF assms(1,3)])
qed

lemma start_entries:
  assumes "graph_ok G" "edges_ok G" "ranges_over (gr_Nodes G) order"
  defines "n \<equiv> length order" and "d \<equiv> direct_edges G (node_index order) (map (start_row (length order)) [0..<length order])"
  shows "square n d" "i < n \<Longrightarrow> j < n \<Longrightarrow> d ! i ! j = (if (i, j) \<in> index_rel G order then 1 else if i = j then 0 else unreachable)"
proof -
  let ?f = "\<lambda>e. index_at (node_index order) (node_id G (ed_From e))" and ?g = "\<lambda>e. index_at (node_index order) (node_id G (ed_To e))"
  note e = edge_index [OF assms(1-3)]
  have "square n (map (start_row n) [0..<n])" by (simp add: square_def start_row_def)
  from fold_set_entry [OF this, of "gr_Edges G" ?f ?g 1] have d: "square n d"
    "d ! i ! j = (if (i, j) \<in> (\<lambda>e. (?f e, ?g e)) ` set (gr_Edges G) then 1 else map (start_row n) [0..<n] ! i ! j)" for i j
    using e(1,2) unfolding d_def direct_edges_def n_def by auto
  show "square n d" by (rule d(1))
  assume ij: "i < n" "j < n"
  have "(i, j) \<in> (\<lambda>e. (?f e, ?g e)) ` set (gr_Edges G) \<longleftrightarrow> (i, j) \<in> index_rel G order"
  proof
    assume "(i, j) \<in> (\<lambda>e. (?f e, ?g e)) ` set (gr_Edges G)"
    then show "(i, j) \<in> index_rel G order" using e by (force simp: index_rel_def edge_rel_def)
  next
    assume "(i, j) \<in> index_rel G order"
    then obtain e where "e \<in> set (gr_Edges G)" "ed_From e = node_at G order i" "ed_To e = node_at G order j"
      by (auto simp: index_rel_def edge_rel_def)
    then show "(i, j) \<in> (\<lambda>e. (?f e, ?g e)) ` set (gr_Edges G)" using ij index_of_node [OF assms(1,3)]
      by (intro image_eqI [of _ _ e]) (simp_all add: n_def)
  qed
  with ij show "d ! i ! j = (if (i, j) \<in> index_rel G order then 1 else if i = j then 0 else unreachable)"
    by (simp add: d(2) start_row_def)
qed

lemma via_none: "via E {} m i j \<Longrightarrow> i = j \<or> (i, j) \<in> E \<and> 0 < m"
  by (cases rule: via.cases) auto

lemma start_covers:
  assumes "graph_ok G" "edges_ok G" "ranges_over (gr_Nodes G) order"
  defines "n \<equiv> length order" and "d \<equiv> direct_edges G (node_index order) (map (start_row (length order)) [0..<length order])"
  shows "entries_ok (index_rel G order) n d" "covers (index_rel G order) n {} d"
proof -
  note d = start_entries [OF assms(1-3), folded n_def d_def]
  have loop: "(i, i) \<notin> index_rel G order" for i using assms(2) by (auto simp: index_rel_def edges_ok_def)
  show "entries_ok (index_rel G order) n d" using d by (auto simp: entries_ok_def unreachable_def)
  show "covers (index_rel G order) n {} d" unfolding covers_def
  proof (intro allI impI)
    fix i j m assume "i < n" "j < n" "via (index_rel G order) {} m i j"
    then show "d ! i ! j \<le> int m" using d(2) [of i j] via_none [OF \<open>via (index_rel G order) {} m i j\<close>] loop by auto
  qed
qed

section \<open>Diameter and radius\<close>

definition distance :: "DependencyGraph \<Rightarrow> addr \<Rightarrow> addr \<Rightarrow> nat" where
  "distance G a b = (LEAST m. (a, b) \<in> edge_rel G ^^ m)"

definition reach :: "DependencyGraph \<Rightarrow> addr \<Rightarrow> addr set" where
  "reach G a = (edge_rel G)\<^sup>* `` {a}"

definition max_distance :: "DependencyGraph \<Rightarrow> addr \<Rightarrow> nat" where
  "max_distance G a = Max (distance G a ` reach G a)"

lemma reach_short:
  assumes "b \<in> reach G a" shows "\<exists>m \<le> length (gr_Edges G). (a, b) \<in> edge_rel G ^^ m"
proof -
  have "card (edge_rel G) \<le> length (gr_Edges G)" unfolding edge_rel_def by (meson card_image_le card_length finite_set le_trans)
  moreover have fin: "finite (edge_rel G)" by (simp add: edge_rel_def)
  have "(a, b) \<in> (edge_rel G)\<^sup>*" using assms by (simp add: reach_def)
  then obtain m where "m \<le> card (edge_rel G)" "(a, b) \<in> edge_rel G ^^ m" unfolding rtrancl_finite_eq_relpow [OF fin] by blast
  ultimately show ?thesis using le_trans by blast
qed

lemma reach_nodes: "edges_ok G \<Longrightarrow> a \<in> nodes G \<Longrightarrow> reach G a \<subseteq> nodes G"
  by (auto simp: reach_def edges_ok_def elim: rtranclE)

lemma max_distance_le:
  assumes "edges_ok G" "a \<in> nodes G" shows "max_distance G a \<le> length (gr_Edges G)"
proof -
  have "distance G a b \<le> length (gr_Edges G)" if b: "b \<in> reach G a" for b
    using reach_short [OF b] unfolding distance_def by (meson Least_le le_trans)
  moreover have "finite (reach G a)" using reach_nodes [OF assms] finite_subset nodes_finite by blast
  moreover have "a \<in> reach G a" by (simp add: reach_def)
  ultimately show ?thesis unfolding max_distance_def by (subst Max_le_iff) auto
qed

lemma floyd_warshall_distances:
  assumes "graph_ok G" "edges_ok G" "ranges_over (gr_Nodes G) order" "int (length (gr_Edges G)) < unreachable" "i < length order" "j < length order"
  defines "d \<equiv> floyd_warshall (length order) (direct_edges G (node_index order) (map (start_row (length order)) [0..<length order]))"
  shows "d ! i ! j < unreachable \<longleftrightarrow> node_at G order j \<in> reach G (node_at G order i)"
    and "d ! i ! j < unreachable \<Longrightarrow> d ! i ! j = int (distance G (node_at G order i) (node_at G order j))"
proof -
  let ?E = "index_rel G order" and ?n = "length order" and ?a = "node_at G order i" and ?b = "node_at G order j"
  have d: "entries_ok ?E ?n d" "covers ?E ?n {..<?n} d"
    using floyd_warshall_covers [OF start_covers [OF assms(1-3)]] by (simp_all add: d_def)
  have le: "d ! i ! j \<le> int m" if "(?a, ?b) \<in> edge_rel G ^^ m" for m
    using d(2) relpow_via [where E = ?E and K = "{..<?n}" and i = i and j = j and m = m] that index_relpow [OF assms(1-3,5,6)] assms(5,6) by (auto simp: covers_def index_rel_def)
  have path: "(?a, ?b) \<in> edge_rel G ^^ nat (d ! i ! j)" if "d ! i ! j < unreachable"
    using d(1) that assms(5,6) index_relpow [OF assms(1-3,5,6)] by (auto simp: entries_ok_def)
  show "d ! i ! j < unreachable \<longleftrightarrow> ?b \<in> reach G ?a"
  proof
    assume "d ! i ! j < unreachable"
    from relpow_imp_rtrancl [OF path [OF this]] show "?b \<in> reach G ?a" by (simp add: reach_def)
  next
    assume "?b \<in> reach G ?a"
    from reach_short [OF this] obtain m where "m \<le> length (gr_Edges G)" "d ! i ! j \<le> int m" using le by blast
    then show "d ! i ! j < unreachable" using assms(4) by linarith
  qed
  assume less: "d ! i ! j < unreachable"
  have "distance G ?a ?b = nat (d ! i ! j)" unfolding distance_def
  proof (rule Least_equality)
    show "(?a, ?b) \<in> edge_rel G ^^ nat (d ! i ! j)" by (rule path [OF less])
    show "nat (d ! i ! j) \<le> m" if "(?a, ?b) \<in> edge_rel G ^^ m" for m using le [OF that] by simp
  qed
  then show "d ! i ! j = int (distance G ?a ?b)" using entries_okD [OF d(1) assms(5,6)] by simp
qed

lemma fold_greatest:
  "fold (\<lambda>x m. if P x \<and> m < f x then f x else m) xs m0 = Max (insert m0 (f ` {x \<in> set xs. P x}))" for m0 :: "'b :: linorder"
proof -
  have "(\<lambda>x m. if P x \<and> m < f x then f x else m) = (\<lambda>x m. if P x then max (f x) m else m)" by (auto simp: fun_eq_iff max_def)
  moreover have "fold (\<lambda>x m. if P x then max (f x) m else m) xs m0 = Max (insert m0 (f ` {x \<in> set xs. P x}))"
  proof (induction xs rule: rev_induct)
    case (snoc x xs)
    have "insert m0 (f ` {y \<in> set (xs @ [x]). P y}) = (if P x then insert (f x) (insert m0 (f ` {x \<in> set xs. P x})) else insert m0 (f ` {x \<in> set xs. P x}))"
      by auto
    with snoc show ?case by simp
  qed simp
  ultimately show ?thesis by simp
qed

lemma fold_least: "fold (\<lambda>x m. if f x < m then f x else m) xs m0 = Min (insert m0 (f ` set xs))" for m0 :: "'b :: linorder"
proof -
  have "(\<lambda>x m. if f x < m then f x else m) = (\<lambda>x m. min (f x) m)" by (auto simp: fun_eq_iff min_def)
  moreover have "fold (\<lambda>x m. min (f x) m) xs m0 = Min (insert m0 (f ` set xs))"
    by (induction xs rule: rev_induct) (simp_all add: insert_commute [of m0])
  ultimately show ?thesis by simp
qed

lemma fold_both: "fold (\<lambda>x (a, b). (f x a, g x b)) xs (a0, b0) = (fold f xs a0, fold g xs b0)"
  by (induction xs arbitrary: a0 b0) auto

lemma eccentricity_eq:
  assumes "graph_ok G" "edges_ok G" "ranges_over (gr_Nodes G) order" "int (length (gr_Edges G)) < unreachable" "i < length order"
  defines "d \<equiv> floyd_warshall (length order) (direct_edges G (node_index order) (map (start_row (length order)) [0..<length order]))"
  shows "eccentricity (length order) d i = int (max_distance G (node_at G order i))"
proof -
  let ?a = "node_at G order i" and ?J = "{j \<in> set [0..<length order]. d ! i ! j < unreachable}"
  note dist = floyd_warshall_distances [OF assms(1-5), folded d_def]
  have J: "node_at G order ` ?J = reach G ?a"
  proof
    show "reach G ?a \<subseteq> node_at G order ` ?J"
    proof
      fix b assume b: "b \<in> reach G ?a"
      then have "b \<in> nodes G" using reach_nodes [OF assms(2) node_at_nth(1) [OF assms(1,3,5)]] by blast
      then obtain j where "j < length order" "b = node_at G order j" by (rule node_at_surj [OF assms(1,3)])
      then show "b \<in> node_at G order ` ?J" using b dist(1) by auto
    qed
  qed (use dist(1) in auto)
  have "(\<lambda>j. d ! i ! j) ` ?J = (\<lambda>j. int (distance G ?a (node_at G order j))) ` ?J" using dist(2) by (intro image_cong) auto
  also have "\<dots> = int ` distance G ?a ` reach G ?a" unfolding J [symmetric] by (simp only: image_image)
  finally have img: "(\<lambda>j. d ! i ! j) ` ?J = int ` distance G ?a ` reach G ?a" .
  have "?a \<in> reach G ?a" by (simp add: reach_def)
  moreover have "distance G ?a ?a = 0" by (simp add: distance_def Least_eq_0)
  ultimately have zero: "0 \<in> distance G ?a ` reach G ?a" by (metis image_eqI)
  have fin: "finite (distance G ?a ` reach G ?a)" unfolding J [symmetric] by simp
  have "eccentricity (length order) d i = Max (insert 0 (int ` distance G ?a ` reach G ?a))"
    unfolding eccentricity_def fold_greatest img ..
  also have "insert 0 (int ` distance G ?a ` reach G ?a) = int ` distance G ?a ` reach G ?a" using zero by (force simp: insert_absorb)
  also have "Max \<dots> = int (Max (distance G ?a ` reach G ?a))" by (rule mono_Max_commute [symmetric]) (use fin zero in \<open>auto simp: mono_def\<close>)
  finally show ?thesis by (simp add: max_distance_def)
qed

lemma diameter_radius_eq:
  assumes "graph_ok G" "edges_ok G" "ranges_over (gr_Nodes G) order" "int (length (gr_Edges G)) < unreachable" "nodes G \<noteq> {}"
  shows "calculateDiameterAndRadius G order = (int (Max (max_distance G ` nodes G)), int (Min (max_distance G ` nodes G)))"
proof -
  let ?n = "length order" and ?e = "\<lambda>i. int (max_distance G (node_at G order i))"
  let ?d = "floyd_warshall ?n (direct_edges G (node_index order) (map (start_row ?n) [0..<?n]))"
  have n: "?n \<noteq> 0" using node_at_bij [OF assms(1,3)] assms(5) by (auto simp: bij_betw_def)
  have img: "?e ` set [0..<?n] = int ` max_distance G ` nodes G"
    unfolding bij_betw_imp_surj_on [OF node_at_bij [OF assms(1,3)], symmetric] by (simp add: image_image atLeast0LessThan)
  have ecc: "eccentricity ?n ?d i = ?e i" if "i \<in> set [0..<?n]" for i using eccentricity_eq [OF assms(1-4)] that by simp
  have "calculateDiameterAndRadius G order = (fold (\<lambda>i m. if True \<and> m < eccentricity ?n ?d i then eccentricity ?n ?d i else m) [0..<?n] 0,
      fold (\<lambda>i m. if eccentricity ?n ?d i < m then eccentricity ?n ?d i else m) [0..<?n] MaxInt32)"
    using n by (simp add: calculateDiameterAndRadius_def Let_def fold_both)
  also have "\<dots> = (Max (insert 0 (eccentricity ?n ?d ` set [0..<?n])), Min (insert MaxInt32 (eccentricity ?n ?d ` set [0..<?n])))"
    unfolding fold_greatest fold_least unfolding simp_thms Collect_mem_eq ..
  also have "eccentricity ?n ?d ` set [0..<?n] = int ` max_distance G ` nodes G" using img ecc by (metis (no_types, lifting) image_cong)
  finally have run: "calculateDiameterAndRadius G order = (Max (insert 0 (int ` max_distance G ` nodes G)), Min (insert MaxInt32 (int ` max_distance G ` nodes G)))" .
  let ?M = "max_distance G ` nodes G"
  have small: "x \<le> MaxInt32" if "x \<in> int ` ?M" for x
    using that max_distance_le [OF assms(2)] assms(4) by (force simp: MaxInt32_def unreachable_def)
  have ne: "?M \<noteq> {}" "finite ?M" using assms(5) by auto
  have "Min (int ` ?M) \<le> MaxInt32" using ne by (intro small Min_in) auto
  moreover have comm: "Max (int ` ?M) = int (Max ?M)" "Min (int ` ?M) = int (Min ?M)"
    using ne by (auto intro!: mono_Max_commute [symmetric] mono_Min_commute [symmetric] simp: mono_def)
  moreover have "Max (insert 0 (int ` ?M)) = max 0 (Max (int ` ?M))" "Min (insert MaxInt32 (int ` ?M)) = min MaxInt32 (Min (int ` ?M))"
    using ne by (intro Max_insert Min_insert; simp)+
  ultimately show ?thesis unfolding run by (simp only: comm max_def min_def) auto
qed

text \<open>C35: On a well-formed graph with nodes and without self-dependencies \<open>calculateDiameterAndRadius\<close> returns the greatest and the least
  eccentricity, where the eccentricity of a node is its greatest distance to a node it depends on, directly or not.\<close>

theorem calculateDiameterAndRadius_correct:
  assumes "graph_ok G" "edges_ok G" "ranges_over (gr_Nodes G) order" "int (length (gr_Edges G)) < unreachable" "nodes G \<noteq> {}"
  shows "calculateDiameterAndRadius G order = (int (Max (max_distance G ` nodes G)), int (Min (max_distance G ` nodes G)))"
  using diameter_radius_eq [OF assms] .

text \<open>The sample graph with its list of edges.\<close>

definition diamond_edges :: DependencyGraph where
  "diamond_edges = diamond\<lparr>gr_Edges := [sample_edge 0 1, sample_edge 0 2, sample_edge 2 1, sample_edge 1 3]\<rparr>"

lemma diamond_edges_same: "nodes diamond_edges = nodes diamond" "deps diamond_edges = deps diamond" "gr_Nodes diamond_edges = gr_Nodes diamond"
  "gr_node diamond_edges = gr_node diamond"
  by (simp_all add: diamond_edges_def nodes_def deps_def)

lemma diamond_edges_ok: "graph_ok diamond_edges" "edges_ok diamond_edges" "ranges_over (gr_Nodes diamond_edges) diamond_order"
proof -
  show "graph_ok diamond_edges" using diamond_ok(1) unfolding graph_ok_def diamond_edges_same .
  show "edges_ok diamond_edges" unfolding edges_ok_def diamond_edges_same(1) diamond_nodes
    by (auto simp: edge_rel_def diamond_edges_def sample_edge_def)
  show "ranges_over (gr_Nodes diamond_edges) diamond_order" using diamond_ok(3) by (simp add: diamond_edges_same)
qed

theorem calculateDiameterAndRadius_correct_witness:
  "calculateDiameterAndRadius diamond_edges diamond_order = (2, 0) \<and> Max (max_distance diamond_edges ` nodes diamond_edges) = 2"
proof -
  have run: "calculateDiameterAndRadius diamond_edges diamond_order = (2, 0)" by code_simp
  have "int (length (gr_Edges diamond_edges)) < unreachable" by (simp add: diamond_edges_def unreachable_def)
  moreover have "nodes diamond_edges \<noteq> {}" by (simp add: diamond_edges_same diamond_nodes)
  ultimately show ?thesis using run calculateDiameterAndRadius_correct [OF diamond_edges_ok] by simp
qed

text \<open>Pairs without a path are left out, so that a node without dependencies has eccentricity zero: the radius of a graph without cycles is
  always zero.\<close>

theorem acyclic_radius_zero:
  assumes "graph_ok G" "edges_ok G" "ranges_over (gr_Nodes G) order" "int (length (gr_Edges G)) < unreachable" "nodes G \<noteq> {}" "acyclic (edge_rel G)"
  shows "snd (calculateDiameterAndRadius G order) = 0"
proof -
  have "finite (edge_rel G)" by (simp add: edge_rel_def)
  then have "wf ((edge_rel G)\<inverse>)" using assms(6) by (intro finite_acyclic_wf_converse)
  then obtain a where a: "a \<in> nodes G" "\<And>b. (a, b) \<in> edge_rel G \<Longrightarrow> b \<notin> nodes G" using assms(5) by (metis converse_iff ex_in_conv wf_eq_minimal)
  then have "(a, b) \<notin> edge_rel G" for b using assms(2) by (auto simp: edges_ok_def)
  then have "reach G a = {a}" by (auto simp: reach_def elim: converse_rtranclE)
  then have zero: "max_distance G a = 0" by (simp add: max_distance_def distance_def Least_eq_0)
  have "Min (max_distance G ` nodes G) \<le> max_distance G a" using a(1) by (intro Min_le) auto
  then show ?thesis using zero diameter_radius_eq [OF assms(1-5)] by simp
qed

text \<open>A self-dependency overwrites the zero on the diagonal.\<close>

theorem self_dependency_has_diameter:
  "calculateDiameterAndRadius (diamond\<lparr>gr_Edges := [sample_edge 3 3]\<rparr>) diamond_order = (1, 0)"
  by code_simp

end
