(* ===== verification/Graph_Metrics.thy ===== *)
theory Graph_Metrics
  imports Graph_Distances
begin

text \<open>
  \<open>calculateGraphMetrics\<close> and \<open>calculateClusteringCoefficient\<close> (\<open>pkg/nephio/porch/dependency_graph_analyzer.go\<close>) on the
  communities and distances of the graph. Numbers of type \<open>float64\<close> are rational numbers, rounded after each operation.
\<close>

section \<open>Model\<close>

record GraphMetrics =
  gm_Density :: rat
  gm_Diameter :: int
  gm_Radius :: int
  gm_AveragePathLength :: rat
  gm_ClusteringCoeff :: rat
  gm_Modularity :: rat
  gm_Assortativity :: rat
  gm_ConnectedComponents :: int
  gm_MaxDegree :: int
  gm_MinDegree :: int
  gm_AverageDegree :: rat
  gm_CyclomaticComplexity :: int

definition zeroGraphMetrics :: GraphMetrics where
  "zeroGraphMetrics = \<lparr>gm_Density = 0, gm_Diameter = 0, gm_Radius = 0, gm_AveragePathLength = 0, gm_ClusteringCoeff = 0, gm_Modularity = 0,
     gm_Assortativity = 0, gm_ConnectedComponents = 0, gm_MaxDegree = 0, gm_MinDegree = 0, gm_AverageDegree = 0, gm_CyclomaticComplexity = 0\<rparr>"

subsection \<open>Clustering\<close>

definition hasEdge :: "DependencyGraph \<Rightarrow> addr \<Rightarrow> addr \<Rightarrow> bool" where
  "hasEdge G from to \<longleftrightarrow> list_ex (\<lambda>edge. node_id G (ed_To edge) = node_id G to) (dependencies G from)"

definition neighbors :: "DependencyGraph \<Rightarrow> addr \<Rightarrow> addr list" where
  "neighbors G node = map ed_To (dependencies G node) @ map ed_From (nd_RequiredBy (gr_node G node))"

definition index_pairs :: "nat \<Rightarrow> (nat \<times> nat) list" where
  "index_pairs k = concat (map (\<lambda>i. map (Pair i) [Suc i..<k]) [0..<k])"

definition edge_count :: "DependencyGraph \<Rightarrow> addr list \<Rightarrow> nat" where
  "edge_count G ns = length (filter (\<lambda>(i, j). hasEdge G (ns ! i) (ns ! j)) (index_pairs (length ns)))"

definition localCoeff :: "DependencyGraph \<Rightarrow> addr list \<Rightarrow> rat" where
  "localCoeff G ns = f64_div_ints (int (edge_count G ns)) (int (length ns) * (int (length ns) - 1) div 2)"

definition calculateClusteringCoefficient :: "DependencyGraph \<Rightarrow> string list \<Rightarrow> rat" where
  "calculateClusteringCoefficient G order =
     (case fold (\<lambda>node (totalCoeff, counted).
              if length (neighbors G node) < 2 then (totalCoeff, counted)
              else (f64_round (totalCoeff + localCoeff G (neighbors G node)), counted + 1)) (range_nodes G order) (0, 0 :: int) of
        (totalCoeff, counted) \<Rightarrow> if counted = 0 then 0 else f64_round (totalCoeff / f64_round (of_int counted)))"

subsection \<open>Metrics\<close>

definition node_degree :: "DependencyGraph \<Rightarrow> addr \<Rightarrow> int" where
  "node_degree G node = int (length (dependencies G node)) + int (length (nd_RequiredBy (gr_node G node)))"

definition degrees :: "DependencyGraph \<Rightarrow> addr list \<Rightarrow> int \<times> int \<times> int" where
  "degrees G ns = fold (\<lambda>node (totalDegree, minDegree, maxDegree).
     (wrap64 (totalDegree + node_degree G node),
      if node_degree G node < minDegree then node_degree G node else minDegree,
      if maxDegree < node_degree G node then node_degree G node else maxDegree)) ns (0, MaxInt32, 0)"

definition degree_metrics :: "DependencyGraph \<Rightarrow> string list \<Rightarrow> GraphMetrics \<Rightarrow> GraphMetrics" where
  "degree_metrics G order metrics =
     (let n = f64_round (of_int (map_len (gr_Nodes G))); m = f64_round (of_int (int (length (gr_Edges G))))
      in if n > 0 then
           (case degrees G (range_nodes G order) of
              (totalDegree, minDegree, maxDegree) \<Rightarrow>
                metrics\<lparr>gm_Density := (if n > 1 then f64_round (m / f64_round (n * f64_round (n - 1))) else gm_Density metrics),
                  gm_MinDegree := minDegree, gm_MaxDegree := maxDegree, gm_AverageDegree := f64_round (f64_round (of_int totalDegree) / n),
                  gm_CyclomaticComplexity := wrap64 (\<lfloor>m\<rfloor> - \<lfloor>n\<rfloor> + 2 * gm_ConnectedComponents metrics)\<rparr>)
         else metrics)"

text \<open>The orders are those of the four iterations over the nodes.\<close>

definition calculateGraphMetrics :: "DependencyGraph \<Rightarrow> string list \<Rightarrow> string list \<Rightarrow> string list \<Rightarrow> string list \<Rightarrow> GraphMetrics option" where
  "calculateGraphMetrics G order0 order1 order2 order3 =
     map_option (\<lambda>communities.
       let metrics = degree_metrics G order1 (zeroGraphMetrics\<lparr>gm_ConnectedComponents := int (length communities)\<rparr>);
           (diameter, radius) = calculateDiameterAndRadius G order2
       in metrics\<lparr>gm_Diameter := diameter, gm_Radius := radius, gm_ClusteringCoeff := calculateClusteringCoefficient G order3\<rparr>)
     (detectCommunities G order0)"

section \<open>Exact integers\<close>

lemma round_even_int: "round_even (of_int x) = x"
  by (simp add: round_even_def)

lemma pow2_nonneg: "0 \<le> k \<Longrightarrow> pow2 k = of_int (2 ^ nat k)"
  by (simp add: pow2_def)

lemma bitlen_small: "0 < x \<Longrightarrow> x < 2 ^ 53 \<Longrightarrow> bitlen x \<le> 53"
  using bitlen_le_iff_power [of x 53] by simp

text \<open>An \<open>int\<close> below \<open>2 ^ 53\<close> is converted to \<open>float64\<close> without rounding.\<close>

lemma f64_round_int:
  assumes "0 \<le> x" "x < 2 ^ 53" shows "f64_round (of_int x) = of_int x"
proof (cases "x = 0")
  case False
  then have x: "0 < x" using assms(1) by simp
  have "f64_round_pos (of_int x) = of_int x"
  proof -
    have one: "bitlen 1 = 1" by (simp add: bitlen_alt_def)
    define s0 where "s0 = 53 - (bitlen x - bitlen 1)"
    define s where "s = (if of_int x * pow2 s0 \<ge> pow2 53 then s0 - 1 else s0)"
    have "bitlen x \<le> 53" using bitlen_small x assms(2) by simp
    then have s: "0 \<le> s" by (simp add: s_def s0_def one)
    have "quotient_of (of_int x) = (x, 1)" by simp
    then have "f64_round_pos (of_int x) = of_int (round_even (of_int x * pow2 s)) / pow2 s"
      by (simp add: f64_round_pos_def s_def s0_def Let_def)
    also have "of_int x * pow2 s = of_int (x * 2 ^ nat s)" using s by (simp add: pow2_nonneg)
    finally show ?thesis using s by (simp add: round_even_int pow2_nonneg del: of_int_mult) simp
  qed
  then show ?thesis using x by (simp add: f64_round_def)
qed simp

section \<open>The metrics\<close>

lemma fold_three: "fold (\<lambda>x (a, b, c). (f x a, g x b, h x c)) xs (a0, b0, c0) = (fold f xs a0, fold g xs b0, fold h xs c0)"
  by (induction xs arbitrary: a0 b0 c0) auto

lemma degrees_eq:
  assumes "ns \<noteq> []" "\<forall>a \<in> set ns. node_degree G a \<le> MaxInt32"
  shows "snd (degrees G ns) = (Min (node_degree G ` set ns), Max (node_degree G ` set ns))"
proof -
  let ?D = "node_degree G ` set ns"
  have ne: "?D \<noteq> {}" "finite ?D" using assms(1) by auto
  have "x \<le> MaxInt32" if "x \<in> ?D" for x using that assms(2) by auto
  then have "Min ?D \<le> MaxInt32" using Min_in [OF ne(2,1)] by blast
  moreover have "x \<in> ?D \<Longrightarrow> 0 \<le> x" for x by (auto simp: node_degree_def)
  then have "0 \<le> Max ?D" using Max_in [OF ne(2,1)] by blast
  moreover have "Max (insert 0 ?D) = max 0 (Max ?D)" "Min (insert MaxInt32 ?D) = min MaxInt32 (Min ?D)"
    using ne by (intro Max_insert Min_insert; simp)+
  ultimately have "Min (insert MaxInt32 ?D) = Min ?D" "Max (insert 0 ?D) = Max ?D" by (simp_all only: max_absorb2 min_absorb2)
  moreover have "snd (degrees G ns) = (Min (insert MaxInt32 ?D), Max (insert 0 ?D))"
    unfolding degrees_def fold_three fold_least using fold_greatest [of "\<lambda>_. True" "node_degree G" ns 0] by simp
  ultimately show ?thesis by simp
qed

definition connected :: "DependencyGraph \<Rightarrow> addr \<Rightarrow> addr set" where
  "connected G a = (deps G \<union> (deps G)\<inverse>)\<^sup>* `` {a}"

lemma partition_length:
  assumes "distinct (concat cs)" "\<forall>c \<in> set cs. c \<noteq> [] \<and> (\<forall>a \<in> set c. set c = f a)"
  shows "length cs = card (f ` set (concat cs))"
proof -
  have "[] \<notin> set cs" using assms(2) by blast
  then have cs: "distinct cs" using assms(1) by (simp add: distinct_concat_iff)
  have "inj_on set (set cs)"
  proof (rule inj_onI)
    fix c c1 assume c: "c \<in> set cs" "c1 \<in> set cs" "set c = set c1"
    then have "set c \<inter> set c1 \<noteq> {}" using assms(2) by auto
    then show "c = c1" using assms(1) c unfolding distinct_concat_iff by blast
  qed
  moreover have "f ` set (concat cs) = set ` set cs"
  proof
    show "set ` set cs \<subseteq> f ` set (concat cs)"
    proof
      fix C assume "C \<in> set ` set cs"
      then obtain c where c: "c \<in> set cs" "C = set c" by blast
      then obtain a where "a \<in> set c" using assms(2) by (metis ex_in_conv set_empty)
      then show "C \<in> f ` set (concat cs)" using c assms(2) by fastforce
    qed
  qed (use assms(2) in fastforce)
  ultimately show ?thesis using cs by (simp add: card_image distinct_card)
qed

lemma graph_metrics_eq:
  assumes "graph_ok G" "required_ok G" "edges_ok G" "nodes G \<noteq> {}"
    and "ranges_over (gr_Nodes G) order0" "ranges_over (gr_Nodes G) order1" "ranges_over (gr_Nodes G) order2"
    and "int (length (gr_Edges G)) < unreachable" "int (card (nodes G)) < 2 ^ 53" "\<forall>a \<in> nodes G. node_degree G a \<le> MaxInt32"
  shows "\<exists>M. calculateGraphMetrics G order0 order1 order2 order3 = Some M
    \<and> gm_MinDegree M = Min (node_degree G ` nodes G) \<and> gm_MaxDegree M = Max (node_degree G ` nodes G)
    \<and> gm_ConnectedComponents M = int (card (connected G ` nodes G))
    \<and> gm_Diameter M = int (Max (max_distance G ` nodes G)) \<and> gm_Radius M = int (Min (max_distance G ` nodes G))
    \<and> gm_CyclomaticComplexity M = int (length (gr_Edges G)) - int (card (nodes G)) + 2 * int (card (connected G ` nodes G))"
proof -
  obtain cs where cs: "detectCommunities G order0 = Some cs" "distinct (concat cs)" "set (concat cs) = nodes G"
    "\<forall>c \<in> set cs. c \<noteq> [] \<and> (\<forall>a \<in> set c. set c = connected G a)"
    using detectCommunities_spec [OF assms(1,2,5)] unfolding connected_def by blast
  have comps: "length cs = card (connected G ` nodes G)" using partition_length [OF cs(2,4)] cs(3) by simp
  have ns: "set (range_nodes G order1) = nodes G" by (rule set_range_nodes [OF assms(6)])
  then have "range_nodes G order1 \<noteq> []" using assms(4) by auto
  from degrees_eq [OF this, of G] ns assms(10) obtain total
    where deg: "degrees G (range_nodes G order1) = (total, Min (node_degree G ` nodes G), Max (node_degree G ` nodes G))" by (metis prod.collapse)
  have "map_len (gr_Nodes G) = int (card (nodes G))"
    using ranges_over_length [OF assms(6)] bij_betw_same_card [OF node_at_bij [OF assms(1,6)]] by simp
  then have n: "f64_round (of_int (map_len (gr_Nodes G))) = of_int (int (card (nodes G)))" using f64_round_int [of "int (card (nodes G))"] assms(9) by simp
  have m: "f64_round (of_int (int (length (gr_Edges G)))) = of_int (int (length (gr_Edges G)))"
    using assms(8) by (intro f64_round_int) (simp_all add: unreachable_def)
  have pos: "0 < card (nodes G)" using assms(4) by (simp add: card_gt_0_iff)
  have "card (connected G ` nodes G) \<le> card (nodes G)" by (rule card_image_le) simp
  then have "wrap64 (int (length (gr_Edges G)) - int (card (nodes G)) + 2 * int (card (connected G ` nodes G)))
      = int (length (gr_Edges G)) - int (card (nodes G)) + 2 * int (card (connected G ` nodes G))"
    using assms(8,9) by (intro wrap64_id) (simp add: int64_range_def unreachable_def)
  then show ?thesis using cs(1) comps deg pos
    by (simp add: calculateGraphMetrics_def degree_metrics_def n m [simplified] diameter_radius_eq [OF assms(1,3,7,8,4)] Let_def zeroGraphMetrics_def)
qed

text \<open>C36: On a well-formed graph the integer metrics are what they are named after: least and greatest degree, number of connected
  components, diameter and radius by the distances, and the cyclomatic number.\<close>

theorem calculateGraphMetrics_correct:
  assumes "graph_ok G" "required_ok G" "edges_ok G" "nodes G \<noteq> {}"
    and "ranges_over (gr_Nodes G) order0" "ranges_over (gr_Nodes G) order1" "ranges_over (gr_Nodes G) order2"
    and "int (length (gr_Edges G)) < unreachable" "int (card (nodes G)) < 2 ^ 53" "\<forall>a \<in> nodes G. int (length (dependencies G a)) + int (length (nd_RequiredBy (gr_node G a))) \<le> MaxInt32"
  shows "\<exists>M. calculateGraphMetrics G order0 order1 order2 order3 = Some M
    \<and> gm_MinDegree M = Min ((\<lambda>a. int (length (dependencies G a)) + int (length (nd_RequiredBy (gr_node G a)))) ` nodes G) \<and> gm_MaxDegree M = Max ((\<lambda>a. int (length (dependencies G a)) + int (length (nd_RequiredBy (gr_node G a)))) ` nodes G)
    \<and> gm_ConnectedComponents M = int (card (connected G ` nodes G))
    \<and> gm_Diameter M = int (Max (max_distance G ` nodes G)) \<and> gm_Radius M = int (Min (max_distance G ` nodes G))
    \<and> gm_CyclomaticComplexity M = int (length (gr_Edges G)) - int (card (nodes G)) + 2 * int (card (connected G ` nodes G))"
proof -
  have eq: "(\<lambda>a. int (length (dependencies G a)) + int (length (nd_RequiredBy (gr_node G a)))) = node_degree G"
    by (simp add: fun_eq_iff node_degree_def)
  show ?thesis unfolding eq by (rule graph_metrics_eq) (use assms in \<open>simp_all add: node_degree_def\<close>)
qed

theorem calculateGraphMetrics_correct_witness:
  "\<exists>M. calculateGraphMetrics diamond_edges diamond_order diamond_order diamond_order diamond_order = Some M \<and> gm_MinDegree M = 1 \<and> gm_MaxDegree M = 3
    \<and> gm_CyclomaticComplexity M = 2 * gm_ConnectedComponents M"
proof -
  have "required_ok diamond_edges" using diamond_ok(2) by (simp add: required_ok_def diamond_edges_same)
  moreover have "nodes diamond_edges \<noteq> {}" "int (card (nodes diamond_edges)) = 4" by (simp_all add: diamond_edges_same diamond_nodes)
  moreover have "int (length (gr_Edges diamond_edges)) = 4" by (simp add: diamond_edges_def)
  moreover have deg: "(\<lambda>a. int (length (dependencies diamond_edges a)) + int (length (nd_RequiredBy (gr_node diamond_edges a)))) ` nodes diamond_edges = {2, 3, 1}"
    unfolding diamond_edges_same diamond_nodes by (simp add: diamond_def sample_node_def insert_commute)
  moreover have "\<forall>a \<in> nodes diamond_edges. int (length (dependencies diamond_edges a)) + int (length (nd_RequiredBy (gr_node diamond_edges a))) \<le> MaxInt32"
    unfolding diamond_edges_same diamond_nodes by (auto simp: MaxInt32_def diamond_def sample_node_def)
  ultimately show ?thesis
    using calculateGraphMetrics_correct [OF diamond_edges_ok(1) _ diamond_edges_ok(2) _ diamond_edges_ok(3,3,3), of diamond_order]
    by (auto simp: unreachable_def deg)
qed

text \<open>An edge between two neighbours counts only if it leads from the earlier to the later one in the list, so that the clustering coefficient
  depends on the order in which the edges were added.\<close>

theorem clustering_depends_on_order: "edge_count diamond [1, 2] = 0 \<and> edge_count diamond [2, 1] = 1"
  by code_simp

end
