(* ===== verification/Spec2Isabelle.thy ===== *)
theory Spec2Isabelle
  imports Go_Prelude Generics_Result Generics_Collections State_Cache Execution_Queue Lock_Manager Circuit_Breaker RBAC State_Manager Coordination Version_Resolution Audit_System E2AP_Codec Lifecycle_Sharing Graph_Anomalies Graph_Metrics
begin

text \<open>
  A verification of the core logic of the Nephoran intent operator, a Kubernetes operator written
  in Go that turns network intents in natural language into deployments of network functions. An
  intent passes through a pipeline of phases. Verified here are the pipeline itself (the manager of the
  intents' states and the coordination of their phases), the machinery it runs on (the queue of its tasks, the
  cache of the states, the locks on them, the circuit breaker in front of the language model),
  the version solver of its packages, the analysis of their dependency graph, the client of the package server and the life cycle of package revisions, the access
  control in front of the whole, the audit trail of what it does, the messages it sends to the radio network, and the
  generic containers.

  \<^bold>\<open>Theories.\<close>

  \<^item> \<open>Go_Prelude\<close>: what the sources use of Go: wrap-around of \<open>int64\<close>, \<open>float64\<close> division, run-time
    panics, iteration over maps, the functions of \<open>strings\<close>; and the lemmas all theories share.
  \<^item> \<open>Go_Json\<close>, \<open>Go_Strconv\<close>: the values of \<open>encoding/json\<close>, and \<open>Itoa\<close> and \<open>Atoi\<close> with their round trip.
  \<^item> \<open>Go_Heap\<close>: \<open>container/heap\<close> over the five methods of \<open>heap.Interface\<close>. The locale \<open>array_heap\<close>
    states what the methods promise and proves that \<open>Push\<close>, \<open>Pop\<close>, \<open>Remove\<close> and \<open>Init\<close> keep the heap order
    and the multiset of the elements.
  \<^item> \<open>Generics_Result\<close> (\<open>pkg/generics/result.go\<close>): \<open>Result\<close>, \<open>Option\<close>, \<open>Chain\<close> and the batch operations.
    They implement the sum and option types and their monads.
  \<^item> \<open>Generics_Collections\<close> (\<open>pkg/generics/collections.go\<close>): \<open>Set\<close>, \<open>SafeSet\<close>, \<open>Map\<close>, \<open>Slice\<close>, \<open>Tuple\<close>. The
    set operations are those of mathematical sets whatever the order of iteration.
  \<^item> \<open>State_Cache\<close> (\<open>pkg/shared/state_cache.go\<close>): the cache with a time to live and eviction of the
    least recently used entry. An abstract cache (a list of entries, most recent first) is refined
    by \<open>Get\<close>, \<open>Set\<close>, \<open>Delete\<close>; the locale \<open>ttl_cache\<close> is the contract that the users of a cache rely on.
    \<open>Get\<close> is two lock sections, and the invariant holds between them.
  \<^item> \<open>Execution_Queue\<close> (\<open>pkg/shared/execution_queue.go\<close>): the priority queue of tasks. \<open>TaskHeap\<close>
    interprets \<open>array_heap\<close>; the maps of pending, active and completed tasks and the heap agree in
    every run; \<open>Dequeue\<close> serves a best task; \<open>FailTask\<close> retries.
  \<^item> \<open>Lock_Manager\<close> (\<open>pkg/shared/lock_manager.go\<close>): exclusive and shared locks with an expiry time,
    the queues of waiters and the retry loop of \<open>AcquireLockWithOptions\<close>.
  \<^item> \<open>Circuit_Breaker\<close> (\<open>pkg/llm/circuit_breaker.go\<close>, \<open>pkg/resilience/circuit_breaker.go\<close>): the breaker,
    its manager and the wrapper around it.
  \<^item> \<open>RBAC\<close> (\<open>pkg/auth/rbac.go\<close>): roles, permissions, grants, the cache of permissions, the access
    decision and the mapping from the claims of identity providers to roles.
  \<^item> \<open>State_Manager\<close> (\<open>pkg/shared/state_manager.go\<close>, \<open>state_types.go\<close>, \<open>phase_conversion.go\<close>): the states of
    the intents, read through the cache and updated under a lock, and their conversion to and from the
    objects of the cluster. It interprets no locale of its own but uses \<open>ttl_cache\<close> on the model of
    the cache. The invariant (cached pointers are states of their intent, histories are connected)
    holds in every interleaving; \<open>UpdateIntentState\<close> refines a specification of the update.
  \<^item> \<open>Coordination\<close> (\<open>pkg/shared/coordination_manager.go\<close>): the table of phases, queueing, workers, transitions,
    error strategies, timers and event handlers, on the queue and the state manager. The theorems say which
    transitions are accepted, what a round of the pipeline does, and which requests are
    always refused.
  \<^item> \<open>Sat_Solver\<close>, \<open>Version_Resolution\<close> (\<open>pkg/nephio/porch/dependency_sat_solver.go\<close>): the version solver, with its
    variables and clauses in stores and the package \<open>semver\<close> as a parameter. The search is sound and ends for any
    clauses; the second theory characterises \<open>Solve\<close> on version requirements: when it succeeds, what it picks, and what it
    reports.
  \<^item> \<open>Audit_Events\<close>, \<open>Audit_Integrity\<close>, \<open>Audit_System\<close> (\<open>pkg/audit/types/events.go\<close>, \<open>integrity.go\<close>,
    \<open>audit_system.go\<close>): the audit trail. Events and their validation; the chain of hashes and signatures, with an invariant for
    every sequence of calls and exact characterisations of the verification functions; the system of callers, processing
    loop, timer and stop as threads of a step relation, in which accepted events are neither lost nor
    duplicated until the system stops.
  \<^item> \<open>E2AP_Wire\<close>, \<open>E2AP_Codec\<close> (\<open>pkg/oran/e2/asn1_codec.go\<close>, \<open>e2ap_messages.go\<close>, \<open>e2ap_types.go\<close>): the binary format of the
    messages to the radio network. Readers give a value or an error with the bytes that are left. The locale \<open>wire_codec\<close> states
    the law of an encoder and its decoder and derives it for counted lists; it is interpreted for every part of a message. The
    theorems give the round trip for all payloads the format can express, and name those it cannot.

  \<^item> \<open>Porch_Types\<close>, \<open>Porch_Client\<close> (\<open>pkg/nephio/porch/types.go\<close>, \<open>client.go\<close>): repositories and package revisions on the Porch
    server, read through a cache that hands out its own pointers. Approval, proposal and rejection move a revision along the
    life cycle only; a read after an update sees it; the cache keeps its bound.
  \<^item> \<open>Package_Lifecycle\<close>, \<open>Lifecycle_Sharing\<close> (\<open>pkg/nephio/porch/lifecycle_manager.go\<close>): the manager of transitions on that
    client. The first theory has the operations and what a transition returns and leaves on the server on every path; the
    second what holds where goroutines meet: locks under the operations of others, batches as a step relation, and the
    registries, whose common contract is the locale \<open>registry\<close>, interpreted for gates and for event handlers.

  \<^item> \<open>Dependency_Graph\<close>, \<open>Critical_Path\<close>, \<open>Tarjan_SCC\<close>, \<open>Graph_Anomalies\<close>, \<open>Graph_Distances\<close>, \<open>Graph_Metrics\<close> (\<open>pkg/nephio/porch/dependency_graph_analyzer.go\<close>): the analysis
    of dependency graphs, with the nodes in a store. Every search returns on every well-formed graph; the topological order, the
    strongly connected components, the critical path and the communities are what their names say, and the anomalies are
    characterised by them. The distances of the algorithm of Floyd and Warshall are those of the graph, and with them the metrics.

  \<^bold>\<open>Correspondence.\<close> Each struct is a record whose fields have the names of the source behind a
  prefix (\<open>sc_maxSize\<close> is the field \<open>maxSize\<close> of \<open>StateCache\<close>), each enumeration a datatype, and each
  method a function on the record of its receiver, with the source's name. Logging, metrics
  exporters and contexts that only carry deadlines have no model.

  \<^item> Pointers that are shared and written through are addresses into an explicit store (the entries of
    the cache, the tasks of the queue); structs that are only read are values.
  \<^item> A method that holds its mutex throughout is one function. A method that gives the
    mutex up in between is cut into its sections; what other goroutines do in between is an argument
    (a function on the state, or an environment that gives one for each round of a loop). The
    \<open>inductive\<close> step relations of the theories interleave sections in any order, and the invariants are
    proved by rule induction over them.
  \<^item> The Kubernetes client is a parameter \<open>K\<close>, a record of functions on an arbitrary type of clusters. What the code relies
    on is stated as \<open>kube_names\<close>, \<open>kube_get\<close>, \<open>kube_update\<close>, \<open>kube_phases\<close> and, for liveness,
    \<open>kube_serves\<close>; \<open>map_kube\<close>, a finite map of objects, satisfies all of them.
  \<^item> SHA-256, RSA-PSS, base64 and the JSON encoding of what is hashed are a parameter \<open>C\<close>; \<open>crypto_ok\<close> states the laws that
    are used (32 bytes, decoding, signatures verify), never freedom from collisions, which no function has. \<open>demo_crypto\<close>
    satisfies them. The back ends and the compliance logger of the audit system are the parameter \<open>K\<close>.
  \<^item> What the Porch client calls (API server, rate limiter, circuit breaker, clock, JSON conversion) is the parameter \<open>E\<close>, a
    record of functions on an arbitrary world. \<open>environment_ok\<close> and \<open>api_server\<close> state what is relied on, for a view of the
    stored revisions; \<open>mem_env\<close>, a server in memory, satisfies them. Foreign gates, hooks and handlers are functions on the
    same world.
  \<^item> The other goroutines that use the state manager are an environment that keeps the relation
    \<open>sm_rel\<close>, which every operation of the manager keeps too (rely and guarantee).
  \<^item> Each reading of the clock is an argument. The theorems hold for any readings unless they
    state an order between them.
  \<^item> An iteration over a Go map takes the order of its keys as an argument.
  \<^item> An error is a value of an error datatype with one constructor for each message, a panic a value of \<open>outcome\<close>. A call
    that never returns (a deadlock, an endless loop) is \<open>None\<close>.
  \<^item> Counters are \<open>int\<close> with the wrap-around written out. A theorem that needs a counter not to wrap
    says so.

  \<^bold>\<open>Termination.\<close> Structural recursion and measures (the heap operations, chunking, the retry loop, whose
  measure is the number of attempts left) make the functions total; no fuel is used. The loop \<open>evictIfNecessary\<close>
  does not end for a negative bound and is a \<open>partial_function\<close> into \<open>option\<close>; a theorem states for
  which bounds it returns. The main loop of the version solver is one too, and is proved to return; its propagation loop is a
  \<open>function\<close> whose measure is the number of unassigned variables of the clauses. \<open>Stop\<close> of the lock manager takes its mutex again in \<open>ReleaseLock\<close>: it returns
  exactly when no lock is held. The recursive closures of the graph analysis are partial functions as well: each is proved to
  return, by induction on the number of nodes not yet visited; for Tarjan's algorithm this includes that the stack is never
  read while it is empty, which is \<open>None\<close> in the model.

  \<^bold>\<open>Not modelled.\<close> Ticker loops (their step is modelled, and may happen at any time), goroutine
  start and stop, logging and metrics; sorting with an arbitrary comparison; package contents, which are YAML and go through
  third-party functions; the remaining packages, which talk to Kubernetes, HTTP services, databases and the operating
  system, and whose types are in part generated. Candidates for further theories are the manager of package revisions
  (\<open>pkg/nephio/porch/package_revision.go\<close>), the rate limiters and the validators.
\<close>

end
